(* ===== verification/Prelude.thy ===== *)
theory Prelude
  imports Main "HOL-Library.Word"
begin

text \<open>
  Shared vocabulary of the development: the machine integer types of the Rust sources, the two
  sequencing combinators that stand for the \<open>?\<close> operator (\<open>bindE\<close> for a plain \<open>Result\<close>,
  \<open>bindR\<close> for a \<open>Result\<close> returned next to a mutated state), slices and \<open>copy_from_slice\<close> on
  lists, \<open>div_ceil\<close>, the little-endian byte codecs \<open>to_le_bytes\<close>/\<open>from_le_bytes\<close>, and the
  generic lemmas on lists and words every component uses.
\<close>

unbundle bit_operations_syntax

type_synonym u8 = "8 word"
type_synonym u16 = "16 word"
type_synonym u32 = "32 word"
type_synonym u64 = "64 word"

named_theorems perm_simps "reading and updating the bits of a permission byte"
named_theorems wf_intros "preservation of the well-formedness invariants"

section \<open>Results\<close>

fun bindE :: "'e + 'a \<Rightarrow> ('a \<Rightarrow> 'e + 'b) \<Rightarrow> 'e + 'b" where
  "bindE (Inl e) f = Inl e"
| "bindE (Inr a) f = f a"

fun bindR :: "('e + 'a) \<times> 's \<Rightarrow> ('a \<Rightarrow> 's \<Rightarrow> ('e + 'b) \<times> 's) \<Rightarrow> ('e + 'b) \<times> 's" where
  "bindR (Inl e, s) f = (Inl e, s)"
| "bindR (Inr a, s) f = f a s"

fun map_err :: "('e \<Rightarrow> 'f) \<Rightarrow> 'e + 'a \<Rightarrow> 'f + 'a" where
  "map_err f (Inl e) = Inl (f e)"
| "map_err f (Inr a) = Inr a"

fun map_ok :: "('a \<Rightarrow> 'b) \<Rightarrow> 'e + 'a \<Rightarrow> 'e + 'b" where
  "map_ok f (Inl e) = Inl e"
| "map_ok f (Inr a) = Inr (f a)"

definition ok_or :: "'e \<Rightarrow> 'a option \<Rightarrow> 'e + 'a" where
  "ok_or e x = (case x of None \<Rightarrow> Inl e | Some a \<Rightarrow> Inr a)"

lemma ok_or_simps [simp]: "ok_or e None = Inl e" "ok_or e (Some a) = Inr a"
  by (simp_all add: ok_or_def)

lemma bindE_split:
  "P (bindE r f) \<longleftrightarrow> (\<forall>e. r = Inl e \<longrightarrow> P (Inl e)) \<and> (\<forall>a. r = Inr a \<longrightarrow> P (f a))"
  by (cases r) auto

lemma bindR_split:
  "P (bindR x f) \<longleftrightarrow>
     (\<forall>e s. x = (Inl e, s) \<longrightarrow> P (Inl e, s)) \<and> (\<forall>a s. x = (Inr a, s) \<longrightarrow> P (f a s))"
  by (cases x; cases "fst x") auto

lemma bindE_Inr_conv: "bindE r f = Inr b \<longleftrightarrow> (\<exists>a. r = Inr a \<and> f a = Inr b)"
  by (cases r) auto

lemma bindR_Inr_conv:
  "bindR x f = (Inr b, s') \<longleftrightarrow> (\<exists>a s. x = (Inr a, s) \<and> f a s = (Inr b, s'))"
  by (cases x; cases "fst x") auto

lemma map_err_Inr_conv [simp]: "map_err f r = Inr a \<longleftrightarrow> r = Inr a"
  by (cases r) auto

lemma map_ok_Inr_conv: "map_ok f r = Inr b \<longleftrightarrow> (\<exists>a. r = Inr a \<and> b = f a)"
  by (cases r) auto

section \<open>Slices\<close>

definition sub_slice :: "'a list \<Rightarrow> nat \<Rightarrow> nat \<Rightarrow> 'a list" where
  "sub_slice xs off n = take n (drop off xs)"

definition blit :: "'a list \<Rightarrow> nat \<Rightarrow> 'a list \<Rightarrow> 'a list" where
  "blit xs off ys = take off xs @ ys @ drop (off + length ys) xs"

lemma length_sub_slice [simp]: "off + n \<le> length xs \<Longrightarrow> length (sub_slice xs off n) = n"
  by (simp add: sub_slice_def)

lemma nth_sub_slice [simp]:
  "off + n \<le> length xs \<Longrightarrow> i < n \<Longrightarrow> sub_slice xs off n ! i = xs ! (off + i)"
  by (simp add: sub_slice_def)

lemma sub_slice_0 [simp]: "sub_slice xs off 0 = []"
  by (simp add: sub_slice_def)

lemma sub_slice_Suc:
  "off < length xs \<Longrightarrow> sub_slice xs off (Suc n) = xs ! off # sub_slice xs (Suc off) n"
  by (simp add: sub_slice_def Cons_nth_drop_Suc [symmetric])

lemma set_sub_slice_iff:
  "off + n \<le> length xs \<Longrightarrow> x \<in> set (sub_slice xs off n) \<longleftrightarrow> (\<exists>i<n. x = xs ! (off + i))"
  by (auto simp: in_set_conv_nth)

lemma list_all_sub_slice:
  "off + n \<le> length xs \<Longrightarrow> list_all P (sub_slice xs off n) \<longleftrightarrow> (\<forall>i<n. P (xs ! (off + i)))"
  by (simp add: list_all_length)

lemma length_blit [simp]: "off + length ys \<le> length xs \<Longrightarrow> length (blit xs off ys) = length xs"
  by (simp add: blit_def)

lemma blit_Nil [simp]: "blit xs off [] = xs"
  by (simp add: blit_def)

lemma nth_blit:
  assumes "off + length ys \<le> length xs"
  shows "blit xs off ys ! i =
    (if off \<le> i \<and> i < off + length ys then ys ! (i - off) else xs ! i)"
proof -
  have "min (length xs) off = off" using assms by simp
  then show ?thesis using assms
    by (auto simp: blit_def nth_append not_less)
qed

lemma blit_Cons:
  assumes "off + Suc (length ys) \<le> length xs"
  shows "blit xs off (y # ys) = blit (xs[off := y]) (Suc off) ys"
  using assms
  by (intro nth_equalityI) (auto simp: nth_blit nth_list_update nth_Cons' Suc_diff_le)

lemma nth_blit_sub_slice:
  assumes "off + n \<le> length xs" "off + n \<le> length g"
  shows "blit xs off (sub_slice g off n) ! i = (if off \<le> i \<and> i < off + n then g ! i else xs ! i)"
  using assms by (auto simp: nth_blit sub_slice_def)

section \<open>Rounding up\<close>

definition div_ceil :: "nat \<Rightarrow> nat \<Rightarrow> nat" where
  "div_ceil a b = (a + b - 1) div b"

lemma div_less_div_ceil:
  assumes "off < n" "0 < b"
  shows "off div b < div_ceil n b"
proof -
  have "off + b \<le> n + b - 1" using assms by simp
  then have "(off + b) div b \<le> (n + b - 1) div b" by (rule div_le_mono)
  moreover have "(off + b) div b = off div b + 1" using assms(2) by (simp add: div_add_self2)
  ultimately show ?thesis unfolding div_ceil_def by linarith
qed

lemma div_ceil_bound:
  assumes "k < div_ceil n b" "0 < b"
  shows "k * b < n"
proof -
  have "k + 1 \<le> (n + b - 1) div b" using assms by (simp add: div_ceil_def)
  then have "(k + 1) * b \<le> n + b - 1" using assms(2) by (simp add: less_eq_div_iff_mult_less_eq)
  then show ?thesis using assms(2) by simp
qed

section \<open>Little-endian codecs\<close>

definition u16_to_le :: "u16 \<Rightarrow> u8 list" where
  "u16_to_le v = [ucast v, ucast (drop_bit 8 v)]"

definition u32_to_le :: "u32 \<Rightarrow> u8 list" where
  "u32_to_le v = [ucast v, ucast (drop_bit 8 v), ucast (drop_bit 16 v), ucast (drop_bit 24 v)]"

definition u16_from_le :: "u8 list \<Rightarrow> u16" where
  "u16_from_le b = ucast (b ! 0) OR push_bit 8 (ucast (b ! 1))"

definition u32_from_le :: "u8 list \<Rightarrow> u32" where
  "u32_from_le b =
     ucast (b ! 0) OR push_bit 8 (ucast (b ! 1)) OR push_bit 16 (ucast (b ! 2))
       OR push_bit 24 (ucast (b ! 3))"

lemma length_u16_to_le [simp]: "length (u16_to_le v) = 2"
  by (simp add: u16_to_le_def)

lemma length_u32_to_le [simp]: "length (u32_to_le v) = 4"
  by (simp add: u32_to_le_def)

lemma u16_le_roundtrip [simp]: "u16_from_le (u16_to_le v) = v"
  by (rule bit_word_eqI) (auto simp: u16_from_le_def u16_to_le_def bit_simps)

lemma u32_le_roundtrip [simp]: "u32_from_le (u32_to_le v) = v"
proof (rule bit_word_eqI)
  fix n assume "n < LENGTH(32)"
  then consider "n < 8" | "8 \<le> n" "n < 16" | "16 \<le> n" "n < 24" | "24 \<le> n" "n < 32"
    by fastforce
  then show "bit (u32_from_le (u32_to_le v)) n = bit v n"
    by cases (auto simp: u32_from_le_def u32_to_le_def bit_simps)
qed

section \<open>Words\<close>

lemma unat_of_nat_u32 [simp]: "n < 4294967296 \<Longrightarrow> unat (of_nat n :: u32) = n"
  by (simp add: unat_of_nat take_bit_nat_eq_self)

lemma unat_add_no_wrap:
  assumes "unat (a :: u32) + n < 4294967296"
  shows "unat (a + of_nat n) = unat a + n"
proof -
  have "unat (of_nat n :: u32) = n" using assms by simp
  then show ?thesis using assms by (simp add: unat_word_ariths)
qed

lemma unat_lt_u32 [simp]: "unat (a :: u32) < 4294967296"
  using unsigned_less [of a, where ?'a = nat] by simp

lemma tail_span:
  fixes d n m :: u32
  assumes "n \<le> m"
  shows "unat (d - n) < unat (m - n) \<longleftrightarrow> n \<le> d \<and> d < m"
proof (cases "n \<le> d")
  case True
  then show ?thesis using assms by (auto simp: unat_sub word_le_nat_alt word_less_nat_alt)
next
  case False
  then have "unat (d - n) = 4294967296 + unat d - unat n"
    by (simp add: unat_sub_if' word_le_nat_alt)
  moreover have "unat (m - n) = unat m - unat n" using assms by (simp add: unat_sub)
  moreover have "unat m < 4294967296" by simp
  ultimately show ?thesis using False by (simp add: word_le_nat_alt del: unat_lt_u32)
qed

lemma bit_push_one:
  "bit (push_bit k 1 :: 'a::len word) n \<longleftrightarrow> n = k \<and> k < LENGTH('a)"
  "bit (2 ^ k :: 'a::len word) n \<longleftrightarrow> n = k \<and> k < LENGTH('a)"
  by (auto simp: bit_exp_iff)

lemma and_push_one_eq_0:
  fixes w :: "'a::len word"
  assumes "k < LENGTH('a)"
  shows "w AND push_bit k 1 = 0 \<longleftrightarrow> \<not> bit w k"
proof
  assume "w AND push_bit k 1 = 0"
  then have "\<not> bit (w AND push_bit k 1) k" by simp
  with assms show "\<not> bit w k" by (simp add: bit_and_iff bit_push_one)
next
  assume "\<not> bit w k"
  then show "w AND push_bit k 1 = 0"
    by (intro bit_word_eqI) (auto simp: bit_and_iff bit_push_one)
qed

lemma and_one_eq_0: "(w :: 'a::len word) AND 1 = 0 \<longleftrightarrow> \<not> bit w 0"
  using and_push_one_eq_0 [of 0 w] by simp

end
