(* ===== verification/Bus.thy ===== *)
theory Bus
  imports Prelude
begin

text \<open>
  The vocabulary of \<open>crates/fs-mmu\<close> that every other component shares: the permission bits, the
  fault type, the \<open>Bus\<close> trait (a record of operations over a state type, one field per trait
  method the interpreter calls), and the contract of a byte-granular soft MMU.  The contract is
  the locale \<open>soft_mmu\<close>: a memory is a partial map from addresses to a content byte and a
  permission byte, a checked read or write walks its span byte by byte and stops at the first
  byte that is unmapped or lacks the permission, and a write turns the bytes it touches from
  uninitialised (RAW) to readable.  The flat memory of \<open>Mmu\<close> and the copy-on-write memory of
  \<open>CowRam\<close> both interpret it.
\<close>

section \<open>Permission bits\<close>

definition PERM_READ :: u8 where "PERM_READ = push_bit 0 1"
definition PERM_WRITE :: u8 where "PERM_WRITE = push_bit 1 1"
definition PERM_EXEC :: u8 where "PERM_EXEC = push_bit 2 1"
definition PERM_RAW :: u8 where "PERM_RAW = push_bit 3 1"
definition PERM_ACC :: u8 where "PERM_ACC = push_bit 4 1"
definition PERM_VTAINT :: u8 where "PERM_VTAINT = push_bit 5 1"

definition FAST_PTR_FORBIDDEN :: u8 where
  "FAST_PTR_FORBIDDEN = PERM_RAW OR PERM_ACC"

lemmas perm_defs = PERM_READ_def PERM_WRITE_def PERM_EXEC_def PERM_RAW_def PERM_ACC_def
  PERM_VTAINT_def

lemma bit_perm [simp]:
  "bit PERM_READ n \<longleftrightarrow> n = 0" "bit PERM_WRITE n \<longleftrightarrow> n = 1" "bit PERM_EXEC n \<longleftrightarrow> n = 2"
  "bit PERM_RAW n \<longleftrightarrow> n = 3" "bit PERM_ACC n \<longleftrightarrow> n = 4" "bit PERM_VTAINT n \<longleftrightarrow> n = 5"
  unfolding perm_defs bit_push_one by auto

lemma perm_nonzero [simp]:
  "PERM_READ \<noteq> 0" "PERM_WRITE \<noteq> 0" "PERM_EXEC \<noteq> 0" "PERM_RAW \<noteq> 0" "PERM_VTAINT \<noteq> 0"
  by (simp_all add: perm_defs)

lemma perm_clear [perm_simps]:
  "p AND PERM_READ = 0 \<longleftrightarrow> \<not> bit p 0"
  "p AND PERM_WRITE = 0 \<longleftrightarrow> \<not> bit p 1"
  "p AND PERM_EXEC = 0 \<longleftrightarrow> \<not> bit p 2"
  "p AND PERM_RAW = 0 \<longleftrightarrow> \<not> bit p 3"
  "p AND PERM_ACC = 0 \<longleftrightarrow> \<not> bit p 4"
  "p AND PERM_VTAINT = 0 \<longleftrightarrow> \<not> bit p 5"
  unfolding perm_defs by (rule and_push_one_eq_0; simp)+

text \<open>The update every successful store applies to the permission byte of the bytes it writes.\<close>

definition raw_to_read :: "u8 \<Rightarrow> u8" where
  "raw_to_read p = (p OR PERM_READ) AND NOT PERM_RAW"

lemma bit_raw_to_read [perm_simps]:
  "bit (raw_to_read p) n \<longleftrightarrow> n < 8 \<and> n \<noteq> 3 \<and> (n = 0 \<or> bit p n)"
  using bit_imp_le_length [of p n] by (auto simp: raw_to_read_def bit_and_iff bit_or_iff bit_not_iff)

text \<open>The exact overwrite of the value-taint bit of one permission byte.\<close>

definition set_vtaint_bit :: "bool \<Rightarrow> u8 \<Rightarrow> u8" where
  "set_vtaint_bit t p = (if t then p OR PERM_VTAINT else p AND NOT PERM_VTAINT)"

lemma bit_set_vtaint_bit [perm_simps]:
  "bit (set_vtaint_bit t p) n \<longleftrightarrow> (if n = 5 then t else bit p n)"
  using bit_imp_le_length [of p n] by (auto simp: set_vtaint_bit_def bit_and_iff bit_or_iff bit_not_iff)

section \<open>Accesses and faults\<close>

datatype access = Read | Write | Exec

datatype fault_kind = Unmapped | Permission | Unaligned

record fault =
  flt_addr :: u32
  flt_len :: u32
  flt_access :: access
  flt_kind :: fault_kind

definition mk_fault :: "u32 \<Rightarrow> u32 \<Rightarrow> access \<Rightarrow> fault_kind \<Rightarrow> fault" where
  "mk_fault a l ac k = \<lparr>flt_addr = a, flt_len = l, flt_access = ac, flt_kind = k\<rparr>"

lemma mk_fault_sel [simp]:
  "flt_addr (mk_fault a l ac k) = a" "flt_len (mk_fault a l ac k) = l"
  "flt_access (mk_fault a l ac k) = ac" "flt_kind (mk_fault a l ac k) = k"
  by (simp_all add: mk_fault_def)

lemma mk_fault_eq [simp]:
  "mk_fault a l ac k = mk_fault a' l' ac' k' \<longleftrightarrow> a = a' \<and> l = l' \<and> ac = ac' \<and> k = k'"
  by (simp add: mk_fault_def)

definition check_align :: "u32 \<Rightarrow> u32 \<Rightarrow> access \<Rightarrow> fault + unit" where
  "check_align addr n ac = (if addr mod n = 0 then Inr () else Inl (mk_fault addr n ac Unaligned))"

section \<open>The physical bus\<close>

text \<open>
  A \<open>dyn Bus\<close> is the record of the trait's methods over the state \<open>'s\<close> of the implementor.  A
  method taking \<open>&mut self\<close> returns the new state next to its \<open>Result\<close>.  Access sizes are 1, 2
  or 4 and are natural numbers.
\<close>

record 's bus =
  bus_load :: "'s \<Rightarrow> u32 \<Rightarrow> nat \<Rightarrow> (fault + u32) \<times> 's"
  bus_store :: "'s \<Rightarrow> u32 \<Rightarrow> nat \<Rightarrow> u32 \<Rightarrow> (fault + unit) \<times> 's"
  bus_ifetch16 :: "'s \<Rightarrow> u32 \<Rightarrow> (fault + u16) \<times> 's"
  bus_read_raw_state :: "'s \<Rightarrow> u32 \<Rightarrow> nat \<Rightarrow> u32"
  bus_write_shadow :: "'s \<Rightarrow> u32 \<Rightarrow> nat \<Rightarrow> u32 \<Rightarrow> 's"
  bus_store_may_assert_interrupt :: "'s \<Rightarrow> u32 \<Rightarrow> nat \<Rightarrow> bool"

section \<open>The contract of a byte-granular memory\<close>

text \<open>
  The abstract memory: what an observer sees at each address, the content byte and the
  permission byte, or nothing outside the window.
\<close>

type_synonym view = "u32 \<Rightarrow> (u8 \<times> u8) option"

fun spec_read :: "access \<Rightarrow> u8 \<Rightarrow> view \<Rightarrow> u32 \<Rightarrow> u32 \<Rightarrow> nat \<Rightarrow> u8 list \<Rightarrow> (fault + unit) \<times> u8 list"
where
  "spec_read ac need v addr len i [] = (Inr (), [])"
| "spec_read ac need v addr len i (out # rest) =
     (let a = addr + of_nat i in
      case v a of
        None \<Rightarrow> (Inl (mk_fault a len ac Unmapped), out # rest)
      | Some (b, p) \<Rightarrow>
          if p AND need = 0 then (Inl (mk_fault a len ac Permission), out # rest)
          else (case spec_read ac need v addr len (Suc i) rest of (r, rest') \<Rightarrow> (r, b # rest')))"

fun spec_write :: "view \<Rightarrow> u32 \<Rightarrow> u32 \<Rightarrow> nat \<Rightarrow> u8 list \<Rightarrow> (fault + unit) \<times> view" where
  "spec_write v addr len i [] = (Inr (), v)"
| "spec_write v addr len i (d # ds) =
     (let a = addr + of_nat i in
      case v a of
        None \<Rightarrow> (Inl (mk_fault a len Write Unmapped), v)
      | Some (b, p) \<Rightarrow>
          if p AND PERM_WRITE = 0 then (Inl (mk_fault a len Write Permission), v)
          else spec_write (v(a \<mapsto> (d, raw_to_read p))) addr len (Suc i) ds)"

text \<open>What one byte allows: mapped with all of \<open>need\<close>'s permission.\<close>

definition allows :: "u8 \<Rightarrow> view \<Rightarrow> u32 \<Rightarrow> bool" where
  "allows need v a \<longleftrightarrow> (case v a of None \<Rightarrow> False | Some (b, p) \<Rightarrow> p AND need \<noteq> 0)"

definition content :: "view \<Rightarrow> u32 \<Rightarrow> u8" where
  "content v a = fst (the (v a))"

definition blame :: "view \<Rightarrow> u32 \<Rightarrow> fault_kind" where
  "blame v a = (case v a of None \<Rightarrow> Unmapped | Some _ \<Rightarrow> Permission)"

lemma spec_read_step:
  "spec_read ac need v addr len i (out # rest) =
     (let a = addr + of_nat i in
      if allows need v a
      then apsnd ((#) (content v a)) (spec_read ac need v addr len (Suc i) rest)
      else (Inl (mk_fault a len ac (blame v a)), out # rest))"
  by (auto simp: allows_def content_def blame_def Let_def split: option.splits prod.splits)

lemma spec_write_step:
  "spec_write v addr len i (d # ds) =
     (let a = addr + of_nat i in
      if allows PERM_WRITE v a
      then spec_write (v(a \<mapsto> (d, raw_to_read (snd (the (v a)))))) addr len (Suc i) ds
      else (Inl (mk_fault a len Write (blame v a)), v))"
  by (auto simp: allows_def blame_def Let_def split: option.splits prod.splits)

declare spec_read.simps(2) [simp del] spec_write.simps(2) [simp del]

lemma allows_shift:
  "(\<forall>k<Suc n. allows need v (addr + of_nat (i + k))) \<longleftrightarrow>
   allows need v (addr + of_nat i) \<and> (\<forall>k<n. allows need v (addr + of_nat (Suc i + k)))"
  unfolding All_less_Suc2 by simp

lemma spec_read_ok:
  assumes "\<forall>k<length buf. allows need v (addr + of_nat (i + k))"
  shows "spec_read ac need v addr len i buf =
    (Inr (), map (\<lambda>k. content v (addr + of_nat (i + k))) [0..<length buf])"
  using assms
proof (induction buf arbitrary: i)
  case Nil
  then show ?case by simp
next
  case (Cons out rest)
  have now: "allows need v (addr + of_nat i)"
    and later: "\<forall>k<length rest. allows need v (addr + of_nat (Suc i + k))"
    using Cons.prems unfolding length_Cons allows_shift by blast+
  have "[0..<length (out # rest)] = 0 # map Suc [0..<length rest]"
    by (simp only: length_Cons upt_conv_Cons zero_less_Suc map_Suc_upt)
  then show ?case
    by (simp add: spec_read_step Let_def now Cons.IH [OF later] comp_def add_ac)
qed

lemma spec_read_err:
  assumes "k < length buf" "\<not> allows need v (addr + of_nat (i + k))"
    "\<forall>j<k. allows need v (addr + of_nat (i + j))"
  shows "fst (spec_read ac need v addr len i buf) =
    Inl (mk_fault (addr + of_nat (i + k)) len ac (blame v (addr + of_nat (i + k))))"
  using assms
proof (induction buf arbitrary: i k)
  case Nil
  then show ?case by simp
next
  case (Cons out rest)
  show ?case
  proof (cases k)
    case 0
    with Cons.prems show ?thesis by (simp add: spec_read_step Let_def)
  next
    case (Suc k')
    have "allows need v (addr + of_nat i)" "\<forall>j<k'. allows need v (addr + of_nat (Suc i + j))"
      using Cons.prems(3) unfolding Suc allows_shift by blast+
    with Cons.IH [of k' "Suc i"] Cons.prems(1,2) Suc show ?thesis
      by (simp add: spec_read_step Let_def)
  qed
qed

text \<open>
  The view after the bytes \<open>ds\<close> were stored from \<open>a0\<close> on: exactly the covered addresses change,
  each to its data byte with the RAW bit traded for READ.
\<close>

definition stored :: "view \<Rightarrow> u32 \<Rightarrow> u8 list \<Rightarrow> view" where
  "stored v a0 ds = (\<lambda>a. let k = unat (a - a0) in
     if k < length ds then Some (ds ! k, raw_to_read (snd (the (v a)))) else v a)"

lemma stored_Nil [simp]: "stored v a0 [] = v"
  by (simp add: stored_def)

lemma unat_diff_Suc:
  assumes "a \<noteq> (a0 :: u32)"
  shows "unat (a - a0) = Suc (unat (a - (a0 + 1)))"
proof -
  have eq: "1 + (a - (a0 + 1)) = a - a0" by simp
  then have "1 + (a - (a0 + 1)) \<noteq> 0" using assms by simp
  from unatSuc [OF this] show ?thesis unfolding eq .
qed

lemma stored_Cons:
  assumes "length ds < 4294967296"
  shows "stored v a0 (d # ds) = stored (v(a0 \<mapsto> (d, raw_to_read (snd (the (v a0)))))) (a0 + 1) ds"
proof
  fix a
  show "stored v a0 (d # ds) a = stored (v(a0 \<mapsto> (d, raw_to_read (snd (the (v a0)))))) (a0 + 1) ds a"
  proof (cases "a = a0")
    case True
    have "unat (- 1 :: u32) = 4294967295" by (simp add: unsigned_minus_1_eq_mask mask_eq_exp_minus_1)
    with True assms show ?thesis by (simp add: stored_def)
  next
    case False
    then show ?thesis by (simp add: stored_def unat_diff_Suc)
  qed
qed

lemma allows_write_upd:
  assumes "allows PERM_WRITE v a0" "allows PERM_WRITE v b"
  shows "allows PERM_WRITE (v(a0 \<mapsto> (d, raw_to_read (snd (the (v a0)))))) b"
  using assms by (auto simp: allows_def perm_simps split: option.splits)

lemma spec_write_ok:
  assumes "\<forall>k<length ds. allows PERM_WRITE v (addr + of_nat (i + k))" "length ds \<le> 4294967296"
  shows "spec_write v addr len i ds = (Inr (), stored v (addr + of_nat i) ds)"
  using assms
proof (induction ds arbitrary: i v)
  case Nil
  then show ?case by simp
next
  case (Cons d ds)
  let ?v = "v(addr + of_nat i \<mapsto> (d, raw_to_read (snd (the (v (addr + of_nat i))))))"
  have now: "allows PERM_WRITE v (addr + of_nat i)"
    and later: "\<forall>k<length ds. allows PERM_WRITE v (addr + of_nat (Suc i + k))"
    using Cons.prems(1) unfolding length_Cons allows_shift by blast+
  have "\<forall>k<length ds. allows PERM_WRITE ?v (addr + of_nat (Suc i + k))"
    using now later allows_write_upd by blast
  then have "spec_write ?v addr len (Suc i) ds = (Inr (), stored ?v (addr + of_nat (Suc i)) ds)"
    by (rule Cons.IH) (use Cons.prems(2) in simp)
  then show ?case
    using now Cons.prems(2) by (simp add: spec_write_step Let_def stored_Cons add_ac)
qed

lemma spec_write_err:
  assumes "k < length ds" "\<not> allows PERM_WRITE v (addr + of_nat (i + k))"
    "\<forall>j<k. allows PERM_WRITE v (addr + of_nat (i + j))" "length ds \<le> 4294967296"
  shows "spec_write v addr len i ds =
    (Inl (mk_fault (addr + of_nat (i + k)) len Write (blame v (addr + of_nat (i + k)))),
     stored v (addr + of_nat i) (take k ds))"
  using assms
proof (induction ds arbitrary: i k v)
  case Nil
  then show ?case by simp
next
  case (Cons d ds)
  show ?case
  proof (cases k)
    case 0
    with Cons.prems show ?thesis by (simp add: spec_write_step Let_def)
  next
    case (Suc k')
    let ?a = "addr + of_nat i" and ?b = "addr + of_nat (Suc i + k')"
    let ?v = "v(?a \<mapsto> (d, raw_to_read (snd (the (v ?a)))))"
    have now: "allows PERM_WRITE v ?a"
      and later: "\<forall>j<k'. allows PERM_WRITE v (addr + of_nat (Suc i + j))"
      using Cons.prems(3) unfolding Suc allows_shift by blast+
    have nb: "\<not> allows PERM_WRITE v ?b" using Cons.prems(2) unfolding Suc add_Suc_shift .
    then have ne: "?b \<noteq> ?a" using now by metis
    have all': "\<forall>j<k'. allows PERM_WRITE ?v (addr + of_nat (Suc i + j))"
      using now later allows_write_upd by blast
    have nb': "\<not> allows PERM_WRITE ?v ?b" and bl: "blame ?v ?b = blame v ?b"
      using nb ne by (simp_all add: allows_def blame_def)
    have "spec_write ?v addr len (Suc i) ds =
        (Inl (mk_fault ?b len Write (blame ?v ?b)), stored ?v (addr + of_nat (Suc i)) (take k' ds))"
      by (rule Cons.IH [OF _ nb' all']) (use Cons.prems(1,4) Suc in simp_all)
    note this [unfolded bl]
    then show ?thesis
      using now Cons.prems(4) Suc by (simp add: spec_write_step Let_def stored_Cons add_ac)
  qed
qed

text \<open>The first index of a span at which a byte fails, when one does.\<close>

lemma first_failure:
  fixes P :: "nat \<Rightarrow> bool"
  assumes "\<not> (\<forall>k<n. P k)"
  obtains k where "k < n" "\<not> P k" "\<forall>j<k. P j"
  using assms exists_least_iff [of "\<lambda>k. k < n \<and> \<not> P k"] by (metis less_trans)

locale soft_mmu =
  fixes peek :: "'s \<Rightarrow> view"
    and rd :: "'s \<Rightarrow> u32 \<Rightarrow> u8 list \<Rightarrow> (fault + unit) \<times> u8 list"
    and wr :: "'s \<Rightarrow> u32 \<Rightarrow> u8 list \<Rightarrow> (fault + unit) \<times> 's"
    and inv :: "'s \<Rightarrow> bool"
  assumes rd_spec: "inv s \<Longrightarrow>
      rd s addr buf = spec_read Read PERM_READ (peek s) addr (of_nat (length buf)) 0 buf"
    and wr_res: "inv s \<Longrightarrow> length d \<le> 4294967296 \<Longrightarrow>
      fst (wr s addr d) = fst (spec_write (peek s) addr (of_nat (length d)) 0 d)"
    and wr_peek: "inv s \<Longrightarrow> length d \<le> 4294967296 \<Longrightarrow>
      peek (snd (wr s addr d)) = snd (spec_write (peek s) addr (of_nat (length d)) 0 d)"
    and wr_inv: "inv s \<Longrightarrow> inv (snd (wr s addr d))"
begin

lemma read_ok_iff:
  assumes "inv s"
  shows "fst (rd s addr buf) = Inr () \<longleftrightarrow>
    (\<forall>k<length buf. allows PERM_READ (peek s) (addr + of_nat k))"
proof
  assume ok: "fst (rd s addr buf) = Inr ()"
  show "\<forall>k<length buf. allows PERM_READ (peek s) (addr + of_nat k)"
  proof (rule ccontr)
    assume "\<not> ?thesis"
    then obtain k where "k < length buf" "\<not> allows PERM_READ (peek s) (addr + of_nat k)"
        "\<forall>j<k. allows PERM_READ (peek s) (addr + of_nat j)" by (rule first_failure)
    then show False
      using ok assms spec_read_err [of k buf PERM_READ "peek s" addr 0 Read]
      by (simp add: rd_spec)
  qed
next
  assume "\<forall>k<length buf. allows PERM_READ (peek s) (addr + of_nat k)"
  then show "fst (rd s addr buf) = Inr ()"
    using assms spec_read_ok [of buf PERM_READ "peek s" addr 0 Read] by (simp add: rd_spec)
qed

lemma read_fault:
  assumes "inv s" "k < length buf" "\<not> allows PERM_READ (peek s) (addr + of_nat k)"
    "\<forall>j<k. allows PERM_READ (peek s) (addr + of_nat j)"
  shows "fst (rd s addr buf) =
    Inl (mk_fault (addr + of_nat k) (of_nat (length buf)) Read (blame (peek s) (addr + of_nat k)))"
  using assms spec_read_err [of k buf PERM_READ "peek s" addr 0 Read] by (simp add: rd_spec)

lemma write_ok_iff:
  assumes "inv s" "length d \<le> 4294967296"
  shows "fst (wr s addr d) = Inr () \<longleftrightarrow>
    (\<forall>k<length d. allows PERM_WRITE (peek s) (addr + of_nat k))"
proof
  assume ok: "fst (wr s addr d) = Inr ()"
  show "\<forall>k<length d. allows PERM_WRITE (peek s) (addr + of_nat k)"
  proof (rule ccontr)
    assume "\<not> ?thesis"
    then obtain k where "k < length d" "\<not> allows PERM_WRITE (peek s) (addr + of_nat k)"
        "\<forall>j<k. allows PERM_WRITE (peek s) (addr + of_nat j)" by (rule first_failure)
    then show False
      using ok assms spec_write_err [of k d "peek s" addr 0] by (simp add: wr_res)
  qed
next
  assume "\<forall>k<length d. allows PERM_WRITE (peek s) (addr + of_nat k)"
  then show "fst (wr s addr d) = Inr ()"
    using assms spec_write_ok [of d "peek s" addr 0] by (simp add: wr_res)
qed

lemma write_fault:
  assumes "inv s" "length d \<le> 4294967296" "k < length d"
    "\<not> allows PERM_WRITE (peek s) (addr + of_nat k)"
    "\<forall>j<k. allows PERM_WRITE (peek s) (addr + of_nat j)"
  shows "fst (wr s addr d) =
      Inl (mk_fault (addr + of_nat k) (of_nat (length d)) Write (blame (peek s) (addr + of_nat k)))"
    and "peek (snd (wr s addr d)) = stored (peek s) addr (take k d)"
  using assms spec_write_err [of k d "peek s" addr 0] by (simp_all add: wr_res wr_peek)

lemma write_stored:
  assumes "inv s" "length d \<le> 4294967296" "wr s addr d = (Inr (), s')"
  shows "peek s' = stored (peek s) addr d"
proof -
  have "\<forall>k<length d. allows PERM_WRITE (peek s) (addr + of_nat k)"
    using write_ok_iff [OF assms(1,2), of addr] assms(3) by simp
  then show ?thesis
    using wr_peek [OF assms(1,2), of addr] assms(2,3) spec_write_ok [of d "peek s" addr 0]
    by simp
qed

lemma read_back:
  assumes "inv s" "length d \<le> 4294967296" "wr s addr d = (Inr (), s')"
    "length buf = length d"
  shows "rd s' addr buf = (Inr (), d)"
proof -
  have inv': "inv s'" using wr_inv [OF assms(1), of addr d] assms(3) by simp
  have st: "peek s' (addr + of_nat k) =
      Some (d ! k, raw_to_read (snd (the (peek s (addr + of_nat k)))))" if "k < length d" for k
    using that assms(2) by (simp add: write_stored [OF assms(1-3)] stored_def)
  have "\<forall>k<length buf. allows PERM_READ (peek s') (addr + of_nat (0 + k))"
    using st assms(4) by (simp add: allows_def perm_simps)
  then have "rd s' addr buf =
      (Inr (), map (\<lambda>k. content (peek s') (addr + of_nat k)) [0..<length buf])"
    using spec_read_ok [of buf PERM_READ "peek s'" addr 0 Read] by (simp add: rd_spec [OF inv'])
  moreover have "map (\<lambda>k. content (peek s') (addr + of_nat k)) [0..<length buf] = d"
    using st assms(4) by (intro nth_equalityI) (simp_all add: content_def)
  ultimately show ?thesis by simp
qed

lemma write_frame:
  assumes "inv s" "length d \<le> 4294967296" "unat (a - addr) \<ge> length d"
  shows "peek (snd (wr s addr d)) a = peek s a"
proof (cases "\<forall>k<length d. allows PERM_WRITE (peek s) (addr + of_nat k)")
  case True
  then show ?thesis
    using assms spec_write_ok [of d "peek s" addr 0] by (simp add: wr_peek stored_def)
next
  case False
  then obtain k where "k < length d" "\<not> allows PERM_WRITE (peek s) (addr + of_nat k)"
    "\<forall>j<k. allows PERM_WRITE (peek s) (addr + of_nat j)" by (rule first_failure)
  then show ?thesis
    using write_fault(2) [OF assms(1,2)] assms(3) by (simp add: stored_def)
qed

end

section \<open>The contract of the bus-shaped accesses\<close>

text \<open>
  The sized accesses of a memory, as functions of what is visible in it: alignment check, checked
  byte span, little-endian codec; and the two taint-shadow operations.
\<close>

definition gather :: "access \<Rightarrow> u8 \<Rightarrow> view \<Rightarrow> u32 \<Rightarrow> nat \<Rightarrow> fault + u8 list" where
  "gather ac need v addr n =
     (case spec_read ac need v addr (of_nat n) 0 (replicate n 0) of (r, b) \<Rightarrow> map_ok (\<lambda>_. b) r)"

definition view_load :: "view \<Rightarrow> u32 \<Rightarrow> nat \<Rightarrow> fault + u32" where
  "view_load v addr sz =
     (if sz = 1 then map_ok (\<lambda>b. ucast (b ! 0)) (gather Read PERM_READ v addr 1)
      else if sz = 2 then bindE (check_align addr 2 Read)
        (\<lambda>_. map_ok (\<lambda>b. ucast (u16_from_le b)) (gather Read PERM_READ v addr 2))
      else bindE (check_align addr 4 Read)
        (\<lambda>_. map_ok u32_from_le (gather Read PERM_READ v addr 4)))"

definition view_ifetch16 :: "view \<Rightarrow> u32 \<Rightarrow> fault + u16" where
  "view_ifetch16 v addr = bindE (check_align addr 2 Exec)
     (\<lambda>_. map_ok u16_from_le (gather Exec PERM_EXEC v addr 2))"

definition view_store :: "view \<Rightarrow> u32 \<Rightarrow> nat \<Rightarrow> u32 \<Rightarrow> (fault + unit) \<times> view" where
  "view_store v addr sz val =
     (if sz = 1 then spec_write v addr 1 0 [ucast val]
      else if sz = 2 then bindR (check_align addr 2 Write, v)
        (\<lambda>_ v. spec_write v addr 2 0 (u16_to_le (ucast val)))
      else bindR (check_align addr 4 Write, v)
        (\<lambda>_ v. spec_write v addr 4 0 (u32_to_le val)))"

definition view_raw_state :: "view \<Rightarrow> u32 \<Rightarrow> nat \<Rightarrow> u32" where
  "view_raw_state v addr len =
     fold (\<lambda>i acc. case v (addr + of_nat i) of
             None \<Rightarrow> acc
           | Some (b, p) \<Rightarrow>
               if p AND (PERM_RAW OR PERM_VTAINT) \<noteq> 0 then acc OR push_bit (8 * i) 1 else acc)
       [0 ..< min len 4] 0"

definition view_write_shadow :: "view \<Rightarrow> u32 \<Rightarrow> nat \<Rightarrow> u32 \<Rightarrow> view" where
  "view_write_shadow v addr len tm =
     fold (\<lambda>i v. case v (addr + of_nat i) of
             None \<Rightarrow> v
           | Some (b, p) \<Rightarrow>
               v(addr + of_nat i \<mapsto> (b, set_vtaint_bit (drop_bit (8 * i) tm AND 1 \<noteq> 0) p)))
       [0 ..< min len 4] v"

definition natural_access :: "u32 \<Rightarrow> nat \<Rightarrow> bool" where
  "natural_access addr sz \<longleftrightarrow> sz \<in> {1, 2, 4} \<and> unat addr mod sz = 0"

locale byte_bus =
  fixes peek :: "'s \<Rightarrow> view" and B :: "'s bus" and inv :: "'s \<Rightarrow> bool"
  assumes load_spec: "inv s \<Longrightarrow> bus_load B s addr sz = (view_load (peek s) addr sz, s)"
    and ifetch_spec: "inv s \<Longrightarrow> bus_ifetch16 B s addr = (view_ifetch16 (peek s) addr, s)"
    and store_res: "inv s \<Longrightarrow>
      fst (bus_store B s addr sz val) = fst (view_store (peek s) addr sz val)"
    and store_peek: "inv s \<Longrightarrow>
      peek (snd (bus_store B s addr sz val)) = snd (view_store (peek s) addr sz val)"
    and store_inv: "inv s \<Longrightarrow> inv (snd (bus_store B s addr sz val))"
    and raw_spec: "inv s \<Longrightarrow> bus_read_raw_state B s addr sz = view_raw_state (peek s) addr sz"
    and shadow_peek: "inv s \<Longrightarrow> natural_access addr sz \<Longrightarrow>
      peek (bus_write_shadow B s addr sz tm) = view_write_shadow (peek s) addr sz tm"
    and shadow_inv: "inv s \<Longrightarrow> inv (bus_write_shadow B s addr sz tm)"

text \<open>The value a sized store leaves behind: the low bytes of the register.\<close>

definition truncate_to :: "nat \<Rightarrow> u32 \<Rightarrow> u32" where
  "truncate_to sz v = (if sz = 1 then v AND 0xff else if sz = 2 then v AND 0xffff else v)"

lemma gather_after_write:
  assumes "spec_write v addr l 0 d = (Inr (), v')" "length d \<le> 4294967296"
  shows "gather Read PERM_READ v' addr (length d) = Inr d"
proof -
  have ok: "\<forall>k<length d. allows PERM_WRITE v (addr + of_nat (0 + k))"
  proof (rule ccontr)
    assume "\<not> ?thesis"
    then obtain k where "k < length d" "\<not> allows PERM_WRITE v (addr + of_nat (0 + k))"
        "\<forall>j<k. allows PERM_WRITE v (addr + of_nat (0 + j))" by (rule first_failure)
    from spec_write_err [OF this assms(2)] assms(1) show False by simp
  qed
  from spec_write_ok [OF this assms(2)] assms(1) have v': "v' = stored v addr d" by simp
  have st: "v' (addr + of_nat k) = Some (d ! k, raw_to_read (snd (the (v (addr + of_nat k)))))"
    if "k < length d" for k
    using that assms(2) by (simp add: v' stored_def)
  have "\<forall>k<length (replicate (length d) (0::u8)). allows PERM_READ v' (addr + of_nat (0 + k))"
    using st by (simp add: allows_def perm_simps)
  from spec_read_ok [OF this] st
  have "spec_read Read PERM_READ v' addr (of_nat (length d)) 0 (replicate (length d) 0) =
      (Inr (), map ((!) d) [0..<length d])"
    by (simp add: content_def cong: map_cong)
  then show ?thesis by (simp add: gather_def map_nth)
qed

lemma ucast_ucast_trunc:
  "(ucast (ucast (v :: u32) :: u8) :: u32) = v AND 0xff"
  "(ucast (ucast (v :: u32) :: u16) :: u32) = v AND 0xffff"
proof -
  have "v AND mask 8 = v AND 0xff" "v AND mask 16 = v AND 0xffff"
    by (simp_all add: mask_eq_exp_minus_1)
  moreover have "(ucast (ucast v :: u8) :: u32) = v AND mask 8"
    "(ucast (ucast v :: u16) :: u32) = v AND mask 16"
    by (rule bit_word_eqI, auto simp: bit_simps)+
  ultimately show "(ucast (ucast (v :: u32) :: u8) :: u32) = v AND 0xff"
    "(ucast (ucast (v :: u32) :: u16) :: u32) = v AND 0xffff" by simp_all
qed

lemma view_load_after_store:
  assumes "view_store v addr sz val = (Inr (), v')"
  shows "view_load v' addr sz = Inr (truncate_to sz val)"
proof -
  consider "sz = 1" | "sz = 2" | "sz \<noteq> 1" "sz \<noteq> 2" by blast
  then show ?thesis
  proof cases
    case 1
    then have "spec_write v addr 1 0 [ucast val] = (Inr (), v')"
      using assms by (simp add: view_store_def)
    from gather_after_write [OF this] 1 show ?thesis
      by (simp add: view_load_def truncate_to_def ucast_ucast_trunc)
  next
    case 2
    then have al: "addr mod 2 = 0" and "spec_write v addr 2 0 (u16_to_le (ucast val)) = (Inr (), v')"
      using assms by (auto simp: view_store_def check_align_def split: if_splits)
    from gather_after_write [OF this(2)] al 2 show ?thesis
      by (simp add: view_load_def truncate_to_def ucast_ucast_trunc check_align_def)
  next
    case 3
    then have al: "addr mod 4 = 0" and "spec_write v addr 4 0 (u32_to_le val) = (Inr (), v')"
      using assms by (auto simp: view_store_def check_align_def split: if_splits)
    from gather_after_write [OF this(2)] al 3 show ?thesis
      by (simp add: view_load_def truncate_to_def check_align_def)
  qed
qed

context byte_bus
begin

lemma load_after_store:
  assumes "inv s" "bus_store B s addr sz val = (Inr (), s')"
  shows "bus_load B s' addr sz = (Inr (truncate_to sz val), s')"
proof -
  have "inv s'" using store_inv [OF assms(1), of addr sz val] assms(2) by simp
  moreover have "view_store (peek s) addr sz val = (Inr (), peek s')"
    using store_res [OF assms(1), of addr sz val] store_peek [OF assms(1), of addr sz val] assms(2)
    by (simp add: prod_eq_iff)
  ultimately show ?thesis by (simp add: load_spec view_load_after_store)
qed

end

end
