(* ===== verification/Mmu.thy ===== *)
theory Mmu
  imports Bus
begin

text \<open>
  The flat soft MMU of \<open>crates/fs-mmu/src/lib.rs\<close> (\<open>struct Mmu\<close>): a window of guest bytes with a
  parallel permission plane, the checked accesses with their one-slice fast paths and byte-wise
  fallbacks, the permission-stamping primitives the loader and the sanitizers use, and the
  64-byte dirty-block tracking behind snapshot reset.  Host \<open>usize\<close> values are natural numbers.
  The section on correctness shows that the fast paths compute exactly what the byte-wise paths
  compute, that the MMU interprets the contract of \<open>Bus\<close>, and that resetting the dirty
  blocks after any sequence of checked stores restores the captured memory.
\<close>

section \<open>State\<close>

definition DIRTY_BLOCK :: nat where "DIRTY_BLOCK = 64"

record mmu =
  mmu_base :: u32
  mmu_mem :: "u8 list"
  mmu_perms :: "u8 list"
  mmu_track_dirty :: bool
  mmu_dirty :: "nat list"
  mmu_dirty_bitmap :: "u64 list"

definition mmu_new :: "u32 \<Rightarrow> nat \<Rightarrow> mmu" where
  "mmu_new base sz = \<lparr>mmu_base = base, mmu_mem = replicate sz 0, mmu_perms = replicate sz 0,
     mmu_track_dirty = False, mmu_dirty = [], mmu_dirty_bitmap = []\<rparr>"

section \<open>Dirty blocks\<close>

definition enable_dirty_tracking :: "mmu \<Rightarrow> mmu" where
  "enable_dirty_tracking m =
     (let blocks = div_ceil (length (mmu_mem m)) DIRTY_BLOCK in
      m\<lparr>mmu_track_dirty := True, mmu_dirty_bitmap := replicate (div_ceil blocks 64) 0,
        mmu_dirty := []\<rparr>)"

fun mark_bits :: "nat \<Rightarrow> u64 list \<times> nat list \<Rightarrow> u64 list \<times> nat list" where
  "mark_bits blk (bm, d) =
     (let w = blk div 64; b = blk mod 64 in
      if bm ! w AND push_bit b 1 = 0 then (bm[w := bm ! w OR push_bit b 1], d @ [blk])
      else (bm, d))"

definition set_dirty :: "u64 list \<times> nat list \<Rightarrow> mmu \<Rightarrow> mmu" where
  "set_dirty s m = m\<lparr>mmu_dirty_bitmap := fst s, mmu_dirty := snd s\<rparr>"

definition mark_block :: "nat \<Rightarrow> mmu \<Rightarrow> mmu" where
  "mark_block blk m = set_dirty (mark_bits blk (mmu_dirty_bitmap m, mmu_dirty m)) m"

definition mark_dirty :: "nat \<Rightarrow> mmu \<Rightarrow> mmu" where
  "mark_dirty off m = mark_block (off div DIRTY_BLOCK) m"

definition dirty_blocks :: "mmu \<Rightarrow> nat list" where
  "dirty_blocks m = mmu_dirty m"

definition clear_dirty :: "mmu \<Rightarrow> mmu" where
  "clear_dirty m =
     m\<lparr>mmu_dirty_bitmap := fold (\<lambda>blk bm. bm[blk div 64 := 0]) (mmu_dirty m) (mmu_dirty_bitmap m),
       mmu_dirty := []\<rparr>"

definition planes :: "mmu \<Rightarrow> u8 list \<times> u8 list" where
  "planes m = (mmu_mem m, mmu_perms m)"

definition reset_block :: "u8 list \<Rightarrow> u8 list \<Rightarrow> nat \<Rightarrow> mmu \<Rightarrow> mmu" where
  "reset_block gmem gperms blk m =
     (let start = blk * DIRTY_BLOCK;
          n = min (start + DIRTY_BLOCK) (length (mmu_mem m)) - start in
      m\<lparr>mmu_mem := blit (mmu_mem m) start (sub_slice gmem start n),
        mmu_perms := blit (mmu_perms m) start (sub_slice gperms start n)\<rparr>)"

definition reset_dirty :: "u8 list \<Rightarrow> u8 list \<Rightarrow> mmu \<Rightarrow> mmu" where
  "reset_dirty gmem gperms m = clear_dirty (fold (reset_block gmem gperms) (mmu_dirty m) m)"

section \<open>The window\<close>

definition mmu_end :: "mmu \<Rightarrow> u32" where
  "mmu_end m = mmu_base m + of_nat (length (mmu_mem m))"

definition offset :: "mmu \<Rightarrow> u32 \<Rightarrow> nat option" where
  "offset m addr =
     (if addr < mmu_base m then None
      else let off = unat (addr - mmu_base m) in
           if off < length (mmu_mem m) then Some off else None)"

definition in_bounds :: "mmu \<Rightarrow> u32 \<Rightarrow> u32 \<Rightarrow> bool" where
  "in_bounds m addr len =
     (if len = 0 then mmu_base m \<le> addr \<and> addr \<le> mmu_end m
      else case offset m addr of
        None \<Rightarrow> False
      | Some start \<Rightarrow>
          if unat addr + unat (len - 1) \<ge> 2 ^ 32 then False
          else (case offset m (addr + (len - 1)) of
                  None \<Rightarrow> False
                | Some last_off \<Rightarrow> start \<le> last_off))"

definition perm_at :: "mmu \<Rightarrow> u32 \<Rightarrow> u8 option" where
  "perm_at m addr = map_option (\<lambda>off. mmu_perms m ! off) (offset m addr)"

section \<open>Stamping contents and permissions\<close>

fun map_loop :: "u32 \<Rightarrow> u8 \<Rightarrow> nat \<Rightarrow> u8 list \<Rightarrow> mmu \<Rightarrow> (fault + unit) \<times> mmu" where
  "map_loop addr perm i [] m = (Inr (), m)"
| "map_loop addr perm i (b # bs) m =
     (let a = addr + of_nat i in
      case offset m a of
        None \<Rightarrow> (Inl (mk_fault a 1 Write Unmapped), m)
      | Some off \<Rightarrow>
          map_loop addr perm (Suc i) bs
            (m\<lparr>mmu_mem := (mmu_mem m)[off := b], mmu_perms := (mmu_perms m)[off := perm]\<rparr>))"

definition mmu_map :: "mmu \<Rightarrow> u32 \<Rightarrow> u8 list \<Rightarrow> u8 \<Rightarrow> (fault + unit) \<times> mmu" where
  "mmu_map m addr data perm = map_loop addr perm 0 data m"

fun perms_loop :: "(u8 \<Rightarrow> u8) \<Rightarrow> u32 \<Rightarrow> u32 \<Rightarrow> nat \<Rightarrow> nat \<Rightarrow> mmu \<Rightarrow> (fault + unit) \<times> mmu" where
  "perms_loop f addr len i 0 m = (Inr (), m)"
| "perms_loop f addr len i (Suc n) m =
     (let a = addr + of_nat i in
      case offset m a of
        None \<Rightarrow> (Inl (mk_fault a len Write Unmapped), m)
      | Some off \<Rightarrow>
          perms_loop f addr len (Suc i) n
            (m\<lparr>mmu_perms := (mmu_perms m)[off := f (mmu_perms m ! off)]\<rparr>))"

definition protect :: "mmu \<Rightarrow> u32 \<Rightarrow> u32 \<Rightarrow> u8 \<Rightarrow> (fault + unit) \<times> mmu" where
  "protect m addr len perm = perms_loop (\<lambda>_. perm) addr len 0 (unat len) m"

definition poison :: "mmu \<Rightarrow> u32 \<Rightarrow> u32 \<Rightarrow> (fault + unit) \<times> mmu" where
  "poison m addr len = protect m addr len 0"

definition set_vtaint :: "mmu \<Rightarrow> u32 \<Rightarrow> u32 \<Rightarrow> bool \<Rightarrow> (fault + unit) \<times> mmu" where
  "set_vtaint m addr len tainted = perms_loop (set_vtaint_bit tainted) addr len 0 (unat len) m"

section \<open>Checked accesses\<close>

fun read_loop :: "mmu \<Rightarrow> access \<Rightarrow> u8 \<Rightarrow> u32 \<Rightarrow> u32 \<Rightarrow> nat \<Rightarrow> u8 list \<Rightarrow> (fault + unit) \<times> u8 list"
where
  "read_loop m ac need addr len i [] = (Inr (), [])"
| "read_loop m ac need addr len i (out # rest) =
     (let a = addr + of_nat i in
      case offset m a of
        None \<Rightarrow> (Inl (mk_fault a len ac Unmapped), out # rest)
      | Some off \<Rightarrow>
          if mmu_perms m ! off AND need = 0
          then (Inl (mk_fault a len ac Permission), out # rest)
          else (case read_loop m ac need addr len (Suc i) rest of
                  (r, rest') \<Rightarrow> (r, mmu_mem m ! off # rest')))"

definition read_bytewise :: "mmu \<Rightarrow> u32 \<Rightarrow> u8 list \<Rightarrow> (fault + unit) \<times> u8 list" where
  "read_bytewise m addr buf = read_loop m Read PERM_READ addr (of_nat (length buf)) 0 buf"

definition mmu_read :: "mmu \<Rightarrow> u32 \<Rightarrow> u8 list \<Rightarrow> (fault + unit) \<times> u8 list" where
  "mmu_read m addr buf =
     (let len = length buf in
      case offset m addr of
        Some off \<Rightarrow>
          if off + len \<le> length (mmu_mem m) \<and>
             list_all (\<lambda>p. p AND PERM_READ \<noteq> 0) (sub_slice (mmu_perms m) off len)
          then (Inr (), sub_slice (mmu_mem m) off len)
          else read_bytewise m addr buf
      | None \<Rightarrow> read_bytewise m addr buf)"

fun write_loop :: "u32 \<Rightarrow> u32 \<Rightarrow> nat \<Rightarrow> u8 list \<Rightarrow> mmu \<Rightarrow> (fault + unit) \<times> mmu" where
  "write_loop addr len i [] m = (Inr (), m)"
| "write_loop addr len i (b # bs) m =
     (let a = addr + of_nat i in
      case offset m a of
        None \<Rightarrow> (Inl (mk_fault a len Write Unmapped), m)
      | Some off \<Rightarrow>
          if mmu_perms m ! off AND PERM_WRITE = 0
          then (Inl (mk_fault a len Write Permission), m)
          else
            (let m1 = m\<lparr>mmu_mem := (mmu_mem m)[off := b],
                        mmu_perms := (mmu_perms m)[off := raw_to_read (mmu_perms m ! off)]\<rparr>;
                 m2 = (if mmu_track_dirty m1 then mark_dirty off m1 else m1)
             in write_loop addr len (Suc i) bs m2))"

definition write_bytewise :: "mmu \<Rightarrow> u32 \<Rightarrow> u8 list \<Rightarrow> (fault + unit) \<times> mmu" where
  "write_bytewise m addr data = write_loop addr (of_nat (length data)) 0 data m"

definition mmu_write :: "mmu \<Rightarrow> u32 \<Rightarrow> u8 list \<Rightarrow> (fault + unit) \<times> mmu" where
  "mmu_write m addr data =
     (let len = length data in
      case offset m addr of
        Some off \<Rightarrow>
          if off + len \<le> length (mmu_mem m) \<and>
             list_all (\<lambda>p. p AND PERM_WRITE \<noteq> 0) (sub_slice (mmu_perms m) off len)
          then
            (let m1 = m\<lparr>mmu_mem := blit (mmu_mem m) off data,
                        mmu_perms := blit (mmu_perms m) off
                          (map raw_to_read (sub_slice (mmu_perms m) off len))\<rparr>;
                 m2 = (if mmu_track_dirty m1 \<and> 0 < len
                       then fold mark_block
                              [off div DIRTY_BLOCK ..< (off + len - 1) div DIRTY_BLOCK + 1] m1
                       else m1)
             in (Inr (), m2))
          else write_bytewise m addr data
      | None \<Rightarrow> write_bytewise m addr data)"

definition read_u8 :: "mmu \<Rightarrow> u32 \<Rightarrow> fault + u8" where
  "read_u8 m addr = (case mmu_read m addr [0] of (r, b) \<Rightarrow> map_ok (\<lambda>_. b ! 0) r)"

definition read_u16 :: "mmu \<Rightarrow> u32 \<Rightarrow> fault + u16" where
  "read_u16 m addr = bindE (check_align addr 2 Read) (\<lambda>_.
     case mmu_read m addr [0, 0] of (r, b) \<Rightarrow> map_ok (\<lambda>_. u16_from_le b) r)"

definition read_u32 :: "mmu \<Rightarrow> u32 \<Rightarrow> fault + u32" where
  "read_u32 m addr = bindE (check_align addr 4 Read) (\<lambda>_.
     case mmu_read m addr [0, 0, 0, 0] of (r, b) \<Rightarrow> map_ok (\<lambda>_. u32_from_le b) r)"

definition write_u8 :: "mmu \<Rightarrow> u32 \<Rightarrow> u8 \<Rightarrow> (fault + unit) \<times> mmu" where
  "write_u8 m addr v = mmu_write m addr [v]"

definition write_u16 :: "mmu \<Rightarrow> u32 \<Rightarrow> u16 \<Rightarrow> (fault + unit) \<times> mmu" where
  "write_u16 m addr v =
     bindR (check_align addr 2 Write, m) (\<lambda>_ m. mmu_write m addr (u16_to_le v))"

definition write_u32 :: "mmu \<Rightarrow> u32 \<Rightarrow> u32 \<Rightarrow> (fault + unit) \<times> mmu" where
  "write_u32 m addr v =
     bindR (check_align addr 4 Write, m) (\<lambda>_ m. mmu_write m addr (u32_to_le v))"

definition fetch_bytes :: "nat \<Rightarrow> mmu \<Rightarrow> u32 \<Rightarrow> fault + u8 list" where
  "fetch_bytes n m addr =
     (let slow = (case read_loop m Exec PERM_EXEC addr (of_nat n) 0 (replicate n 0) of
                    (r, b) \<Rightarrow> map_ok (\<lambda>_. b) r) in
      case offset m addr of
        Some off \<Rightarrow>
          if off + n \<le> length (mmu_mem m) \<and>
             list_all (\<lambda>p. p AND PERM_EXEC \<noteq> 0) (sub_slice (mmu_perms m) off n)
          then Inr (sub_slice (mmu_mem m) off n)
          else slow
      | None \<Rightarrow> slow)"

definition fetch_u16 :: "mmu \<Rightarrow> u32 \<Rightarrow> fault + u16" where
  "fetch_u16 m addr = bindE (check_align addr 2 Exec) (\<lambda>_. map_ok u16_from_le (fetch_bytes 2 m addr))"

definition fetch_u32 :: "mmu \<Rightarrow> u32 \<Rightarrow> fault + u32" where
  "fetch_u32 m addr = bindE (check_align addr 4 Exec) (\<lambda>_. map_ok u32_from_le (fetch_bytes 4 m addr))"

section \<open>The MMU as a bus\<close>

definition mmu_load :: "mmu \<Rightarrow> u32 \<Rightarrow> nat \<Rightarrow> (fault + u32) \<times> mmu" where
  "mmu_load m addr sz =
     (if sz = 1 then map_ok ucast (read_u8 m addr)
      else if sz = 2 then map_ok ucast (read_u16 m addr)
      else read_u32 m addr, m)"

definition mmu_store :: "mmu \<Rightarrow> u32 \<Rightarrow> nat \<Rightarrow> u32 \<Rightarrow> (fault + unit) \<times> mmu" where
  "mmu_store m addr sz val =
     (if sz = 1 then write_u8 m addr (ucast val)
      else if sz = 2 then write_u16 m addr (ucast val)
      else write_u32 m addr val)"

definition mmu_ifetch16 :: "mmu \<Rightarrow> u32 \<Rightarrow> (fault + u16) \<times> mmu" where
  "mmu_ifetch16 m addr = (fetch_u16 m addr, m)"

definition mmu_read_raw_state :: "mmu \<Rightarrow> u32 \<Rightarrow> nat \<Rightarrow> u32" where
  "mmu_read_raw_state m addr len =
     fold (\<lambda>i acc. case offset m (addr + of_nat i) of
             None \<Rightarrow> acc
           | Some off \<Rightarrow>
               if mmu_perms m ! off AND (PERM_RAW OR PERM_VTAINT) \<noteq> 0
               then acc OR push_bit (8 * i) 1 else acc)
       [0 ..< min len 4] 0"

definition mmu_write_shadow :: "mmu \<Rightarrow> u32 \<Rightarrow> nat \<Rightarrow> u32 \<Rightarrow> mmu" where
  "mmu_write_shadow m addr len taint_mask =
     fold (\<lambda>i m. case offset m (addr + of_nat i) of
             None \<Rightarrow> m
           | Some off \<Rightarrow>
               m\<lparr>mmu_perms := (mmu_perms m)[off :=
                   set_vtaint_bit (drop_bit (8 * i) taint_mask AND 1 \<noteq> 0) (mmu_perms m ! off)]\<rparr>)
       [0 ..< min len 4] m"

text \<open>
  \<open>fast_ptr\<close> returns a host pointer; here the index into the content plane the pointer
  designates, next to the state with the dirty bookkeeping done.
\<close>

definition mmu_fast_ptr :: "mmu \<Rightarrow> u32 \<Rightarrow> nat \<Rightarrow> u8 \<Rightarrow> nat option \<times> mmu" where
  "mmu_fast_ptr m addr len need =
     (case offset m addr of
        None \<Rightarrow> (None, m)
      | Some off \<Rightarrow>
          let e = off + len in
          if e > length (mmu_mem m) then (None, m)
          else if \<not> list_all (\<lambda>p. p AND need = need \<and> p AND FAST_PTR_FORBIDDEN = 0)
                       (sub_slice (mmu_perms m) off len) then (None, m)
          else (Some off,
                if need AND PERM_WRITE \<noteq> 0 \<and> mmu_track_dirty m
                then fold mark_dirty [off ..< e] m else m))"

definition mmu_bus :: "mmu bus" where
  "mmu_bus = \<lparr>bus_load = mmu_load, bus_store = mmu_store, bus_ifetch16 = mmu_ifetch16,
     bus_read_raw_state = mmu_read_raw_state, bus_write_shadow = mmu_write_shadow,
     bus_store_may_assert_interrupt = (\<lambda>_ _ _. False)\<rparr>"

section \<open>Well-formedness\<close>

text \<open>
  The two planes have the same length, the window does not run past the end of the 32-bit
  address space, and the dirty bitmap covers every block once tracking is on.
\<close>

definition mmu_wf :: "mmu \<Rightarrow> bool" where
  "mmu_wf m \<longleftrightarrow> length (mmu_perms m) = length (mmu_mem m) \<and>
     unat (mmu_base m) + length (mmu_mem m) \<le> 4294967296 \<and>
     (mmu_track_dirty m \<longrightarrow>
        length (mmu_dirty_bitmap m) = div_ceil (div_ceil (length (mmu_mem m)) DIRTY_BLOCK) 64)"

definition mmu_peek :: "mmu \<Rightarrow> view" where
  "mmu_peek m a = map_option (\<lambda>off. (mmu_mem m ! off, mmu_perms m ! off)) (offset m a)"

lemma mmu_wfD:
  assumes "mmu_wf m"
  shows "length (mmu_perms m) = length (mmu_mem m)"
    and "unat (mmu_base m) + length (mmu_mem m) \<le> 4294967296"
  using assms by (simp_all add: mmu_wf_def)

lemma mmu_wf_new: "unat base + sz \<le> 4294967296 \<Longrightarrow> mmu_wf (mmu_new base sz)"
  by (simp add: mmu_wf_def mmu_new_def)

lemma offset_Some_iff:
  "offset m a = Some off \<longleftrightarrow>
     unat a = unat (mmu_base m) + off \<and> off < length (mmu_mem m)"
proof (cases "a < mmu_base m")
  case True
  then have "unat a < unat (mmu_base m)" by (simp add: word_less_nat_alt)
  with True show ?thesis by (simp add: offset_def)
next
  case False
  then have "mmu_base m \<le> a" by simp
  then have "unat (a - mmu_base m) = unat a - unat (mmu_base m)" "unat (mmu_base m) \<le> unat a"
    by (simp_all add: unat_sub word_le_nat_alt)
  with False show ?thesis by (auto simp: offset_def Let_def)
qed

lemma offset_less: "offset m a = Some off \<Longrightarrow> off < length (mmu_mem m)"
  by (simp add: offset_Some_iff)

lemma offset_inj: "offset m a = Some off \<Longrightarrow> offset m b = Some off \<Longrightarrow> a = b"
  by (simp add: offset_Some_iff word_unat_eq_iff)

lemma offset_cong:
  "mmu_base m' = mmu_base m \<Longrightarrow> length (mmu_mem m') = length (mmu_mem m) \<Longrightarrow> offset m' a = offset m a"
  by (simp add: offset_def)

lemma offset_upd [simp]:
  "offset (m\<lparr>mmu_perms := ps\<rparr>) a = offset m a"
  "length xs = length (mmu_mem m) \<Longrightarrow> offset (m\<lparr>mmu_mem := xs\<rparr>) a = offset m a"
  "length xs = length (mmu_mem m) \<Longrightarrow> offset (m\<lparr>mmu_mem := xs, mmu_perms := ps\<rparr>) a = offset m a"
  "offset (set_dirty st m) a = offset m a"
  by (simp_all add: offset_def set_dirty_def)

lemma offset_add:
  assumes "mmu_wf m" "offset m a = Some off" "off + k < length (mmu_mem m)"
  shows "offset m (a + of_nat k) = Some (off + k)"
proof -
  have "unat a + k < 4294967296"
    using assms mmu_wfD(2) [OF assms(1)] by (simp add: offset_Some_iff)
  then have "unat (a + of_nat k) = unat a + k" by (rule unat_add_no_wrap)
  with assms show ?thesis by (simp add: offset_Some_iff)
qed

section \<open>Reads: the fast path computes what the byte-wise path computes\<close>

lemma read_loop_spec:
  "read_loop m ac need addr len i buf = spec_read ac need (mmu_peek m) addr len i buf"
  by (induction buf arbitrary: i)
    (auto simp: spec_read.simps mmu_peek_def Let_def split: option.splits prod.splits)

lemma slice_as_view:
  assumes wf: "mmu_wf m" and off: "offset m addr = Some off"
    and len: "off + n \<le> length (mmu_mem m)"
    and all: "list_all (\<lambda>p. p AND need \<noteq> 0) (sub_slice (mmu_perms m) off n)"
  shows "\<forall>k<n. allows need (mmu_peek m) (addr + of_nat (0 + k))"
    and "map (\<lambda>k. content (mmu_peek m) (addr + of_nat (0 + k))) [0..<n] = sub_slice (mmu_mem m) off n"
proof -
  have at: "mmu_peek m (addr + of_nat k) = Some (mmu_mem m ! (off + k), mmu_perms m ! (off + k))"
    if "k < n" for k
    using that offset_add [OF wf off, of k] len by (simp add: mmu_peek_def)
  show "\<forall>k<n. allows need (mmu_peek m) (addr + of_nat (0 + k))"
    using all len at by (simp add: allows_def list_all_sub_slice mmu_wfD(1) [OF wf])
  show "map (\<lambda>k. content (mmu_peek m) (addr + of_nat (0 + k))) [0..<n] = sub_slice (mmu_mem m) off n"
    using len at by (intro nth_equalityI) (simp_all add: content_def)
qed

lemma read_fast_path:
  assumes "mmu_wf m" "offset m addr = Some off" "off + length buf \<le> length (mmu_mem m)"
    "list_all (\<lambda>p. p AND need \<noteq> 0) (sub_slice (mmu_perms m) off (length buf))"
  shows "read_loop m ac need addr len 0 buf = (Inr (), sub_slice (mmu_mem m) off (length buf))"
  using spec_read_ok [OF slice_as_view(1) [OF assms]] slice_as_view(2) [OF assms]
  by (simp add: read_loop_spec)

lemma mmu_read_eq_bytewise:
  assumes "mmu_wf m"
  shows "mmu_read m addr buf = read_bytewise m addr buf"
  using read_fast_path [OF assms]
  by (auto simp: mmu_read_def read_bytewise_def Let_def split: option.splits)

lemma fetch_bytes_spec:
  assumes "mmu_wf m"
  shows "fetch_bytes n m addr =
    (case spec_read Exec PERM_EXEC (mmu_peek m) addr (of_nat n) 0 (replicate n 0) of
       (r, b) \<Rightarrow> map_ok (\<lambda>_. b) r)"
  using read_fast_path [OF assms, where buf = "replicate n 0" and ac = Exec and need = PERM_EXEC]
  by (auto simp: fetch_bytes_def Let_def read_loop_spec split: option.splits)

section \<open>Dirty marking\<close>

definition marked :: "u64 list \<Rightarrow> nat \<Rightarrow> bool" where
  "marked bm blk \<longleftrightarrow> bit (bm ! (blk div 64)) (blk mod 64)"

lemma mark_bits_eq:
  "mark_bits blk (bm, d) =
     (if marked bm blk then (bm, d)
      else (bm[blk div 64 := bm ! (blk div 64) OR push_bit (blk mod 64) 1], d @ [blk]))"
  by (simp add: Let_def marked_def and_push_one_eq_0 del: push_bit_of_1)

declare mark_bits.simps [simp del]

lemma length_mark_bits [simp]: "length (fst (mark_bits blk s)) = length (fst s)"
  by (cases s) (simp add: mark_bits_eq)

lemma marked_mark_bits:
  assumes "blk div 64 < length (fst s)"
  shows "marked (fst (mark_bits blk s)) k \<longleftrightarrow> k = blk \<or> marked (fst s) k"
proof (cases s)
  case (Pair bm d)
  have "k = blk \<longleftrightarrow> k div 64 = blk div 64 \<and> k mod 64 = blk mod 64"
    by (metis div_mult_mod_eq)
  then show ?thesis
    using assms Pair
    by (auto simp: mark_bits_eq marked_def nth_list_update bit_or_iff bit_push_one
        simp del: push_bit_of_1)
qed

lemma mark_bits_idem: "marked (fst s) blk \<Longrightarrow> mark_bits blk s = s"
  by (cases s) (simp add: mark_bits_eq)

lemma length_fold_mark_bits [simp]: "length (fst (fold mark_bits blks s)) = length (fst s)"
  by (induction blks arbitrary: s) simp_all

lemma marked_fold_mark_bits:
  assumes "\<forall>blk \<in> set blks. blk div 64 < length (fst s)"
  shows "marked (fst (fold mark_bits blks s)) k \<longleftrightarrow> k \<in> set blks \<or> marked (fst s) k"
  using assms by (induction blks arbitrary: s) (auto simp: marked_mark_bits)

text \<open>
  Marking the block of every byte of a span, as the byte-wise path does, leaves the same bitmap
  and the same list, in the same order, as marking the blocks the span touches.
\<close>

lemma fold_mark_bytes_eq_blocks:
  assumes "((a + n) div 64) div 64 < length (fst s)"
  shows "fold mark_bits (map (\<lambda>x. x div 64) [a ..< Suc (a + n)]) s =
    fold mark_bits [a div 64 ..< Suc ((a + n) div 64)] s"
  using assms
proof (induction n)
  case 0
  then show ?case by simp
next
  case (Suc n)
  let ?b = "(a + n) div 64" and ?b' = "(a + Suc n) div 64"
  have le: "?b div 64 \<le> ?b' div 64" by (intro div_le_mono) simp
  have IH: "fold mark_bits (map (\<lambda>x. x div 64) [a ..< Suc (a + n)]) s =
      fold mark_bits [a div 64 ..< Suc ?b] s"
    using Suc le by simp
  have step: "fold mark_bits (map (\<lambda>x. x div 64) [a ..< Suc (a + Suc n)]) s =
      mark_bits ?b' (fold mark_bits [a div 64 ..< Suc ?b] s)"
    using IH by (simp add: upt_Suc_append del: upt_Suc)
  consider "?b' = ?b" | "?b' = Suc ?b" by (metis add_Suc_right div_Suc)
  then show ?case
  proof cases
    case 1
    have "a div 64 \<le> ?b" by (intro div_le_mono) simp
    moreover have "\<forall>k \<in> set [a div 64 ..< Suc ?b]. k div 64 < length (fst s)"
    proof
      fix k assume "k \<in> set [a div 64 ..< Suc ?b]"
      then have "k \<le> ?b" by auto
      then have "k div 64 \<le> ?b div 64" by (rule div_le_mono)
      with Suc.prems 1 show "k div 64 < length (fst s)" by simp
    qed
    ultimately have "marked (fst (fold mark_bits [a div 64 ..< Suc ?b] s)) ?b"
      by (simp add: marked_fold_mark_bits del: upt_Suc)
    with step 1 show ?thesis by (simp add: mark_bits_idem del: upt_Suc)
  next
    case 2
    have "a div 64 \<le> Suc ?b" by (metis "2" div_le_mono le_add1)
    with step 2 show ?thesis by (simp add: upt_Suc_append del: upt_Suc)
  qed
qed

lemma mark_block_set_dirty: "mark_block blk (set_dirty s m) = set_dirty (mark_bits blk s) m"
  by (simp add: mark_block_def set_dirty_def)

lemma fold_mark_block: "fold mark_block blks (set_dirty s m) = set_dirty (fold mark_bits blks s) m"
  by (induction blks arbitrary: s) (simp_all add: mark_block_set_dirty)

lemma set_dirty_self: "set_dirty (mmu_dirty_bitmap m, mmu_dirty m) m = m"
  by (simp add: set_dirty_def)

lemma fold_mark_block_self:
  "fold mark_block blks m = set_dirty (fold mark_bits blks (mmu_dirty_bitmap m, mmu_dirty m)) m"
  using fold_mark_block [of blks "(mmu_dirty_bitmap m, mmu_dirty m)" m] by (simp add: set_dirty_self)

lemma set_dirty_sel [simp]:
  "mmu_base (set_dirty s m) = mmu_base m" "mmu_mem (set_dirty s m) = mmu_mem m"
  "mmu_perms (set_dirty s m) = mmu_perms m" "mmu_track_dirty (set_dirty s m) = mmu_track_dirty m"
  "mmu_dirty (set_dirty s m) = snd s" "mmu_dirty_bitmap (set_dirty s m) = fst s"
  by (simp_all add: set_dirty_def)

section \<open>Writes: the fast path computes what the byte-wise path computes\<close>

text \<open>One byte of a store at the in-window index \<open>off\<close>, and a run of them.\<close>

definition put_byte :: "nat \<Rightarrow> u8 \<Rightarrow> mmu \<Rightarrow> mmu" where
  "put_byte off b m =
     (let m1 = m\<lparr>mmu_mem := (mmu_mem m)[off := b],
                 mmu_perms := (mmu_perms m)[off := raw_to_read (mmu_perms m ! off)]\<rparr>
      in if mmu_track_dirty m1 then mark_dirty off m1 else m1)"

definition put_bytes :: "nat \<Rightarrow> u8 list \<Rightarrow> mmu \<Rightarrow> mmu" where
  "put_bytes off data m =
     (let m1 = m\<lparr>mmu_mem := blit (mmu_mem m) off data,
                 mmu_perms := blit (mmu_perms m) off
                   (map raw_to_read (sub_slice (mmu_perms m) off (length data)))\<rparr>
      in if mmu_track_dirty m
         then set_dirty (fold mark_bits (map (\<lambda>x. x div 64) [off ..< off + length data])
                (mmu_dirty_bitmap m, mmu_dirty m)) m1
         else m1)"

lemma put_byte_sel [simp]:
  "mmu_base (put_byte off b m) = mmu_base m"
  "mmu_mem (put_byte off b m) = (mmu_mem m)[off := b]"
  "mmu_perms (put_byte off b m) = (mmu_perms m)[off := raw_to_read (mmu_perms m ! off)]"
  "mmu_track_dirty (put_byte off b m) = mmu_track_dirty m"
  "offset (put_byte off b m) a = offset m a"
  by (simp_all add: put_byte_def Let_def mark_dirty_def mark_block_def offset_def)

lemma put_bytes_Nil [simp]: "put_bytes off [] m = m"
  by (simp add: put_bytes_def set_dirty_def)

lemma put_bytes_Cons:
  assumes "off + Suc (length bs) \<le> length (mmu_mem m)" "length (mmu_perms m) = length (mmu_mem m)"
  shows "put_bytes off (b # bs) m = put_bytes (Suc off) bs (put_byte off b m)"
proof -
  have perms: "blit (mmu_perms m) off
        (map raw_to_read (sub_slice (mmu_perms m) off (Suc (length bs)))) =
      blit ((mmu_perms m)[off := raw_to_read (mmu_perms m ! off)]) (Suc off)
        (map raw_to_read (sub_slice ((mmu_perms m)[off := raw_to_read (mmu_perms m ! off)])
           (Suc off) (length bs)))"
  proof -
    have "sub_slice ((mmu_perms m)[off := raw_to_read (mmu_perms m ! off)]) (Suc off) (length bs) =
        sub_slice (mmu_perms m) (Suc off) (length bs)"
      by (simp add: sub_slice_def)
    then show ?thesis using assms by (simp add: sub_slice_Suc blit_Cons)
  qed
  have mem: "blit (mmu_mem m) off (b # bs) = blit ((mmu_mem m)[off := b]) (Suc off) bs"
    using assms by (simp add: blit_Cons)
  have "[off ..< off + length (b # bs)] = off # [Suc off ..< Suc off + length bs]"
    by (subst upt_conv_Cons) (simp_all del: upt_Suc)
  then show ?thesis
    by (simp add: put_bytes_def Let_def perms mem del: upt_Suc)
      (simp add: put_byte_def mark_dirty_def mark_block_def set_dirty_def DIRTY_BLOCK_def Let_def)
qed

lemma put_bytes_sel [simp]:
  "mmu_base (put_bytes off ds m) = mmu_base m"
  "mmu_mem (put_bytes off ds m) = blit (mmu_mem m) off ds"
  "mmu_perms (put_bytes off ds m) =
     blit (mmu_perms m) off (map raw_to_read (sub_slice (mmu_perms m) off (length ds)))"
  "mmu_track_dirty (put_bytes off ds m) = mmu_track_dirty m"
  by (simp_all add: put_bytes_def Let_def)

lemma put_byte_wf [wf_intros]:
  assumes "mmu_wf m" shows "mmu_wf (put_byte off b m)"
proof -
  have "mmu_track_dirty m \<Longrightarrow>
      length (mmu_dirty_bitmap (put_byte off b m)) = length (mmu_dirty_bitmap m)"
    by (simp add: put_byte_def mark_dirty_def mark_block_def Let_def)
  with assms show ?thesis by (simp add: mmu_wf_def)
qed

lemma put_byte_peek:
  assumes "mmu_wf m" "offset m a = Some off"
  shows "mmu_peek (put_byte off b m) = (mmu_peek m)(a \<mapsto> (b, raw_to_read (mmu_perms m ! off)))"
proof
  fix x
  show "mmu_peek (put_byte off b m) x =
      ((mmu_peek m)(a \<mapsto> (b, raw_to_read (mmu_perms m ! off)))) x"
  proof (cases "x = a")
    case True
    with assms offset_less [OF assms(2)] show ?thesis
      by (simp add: mmu_peek_def mmu_wfD(1))
  next
    case False
    then have "offset m x \<noteq> Some off" using offset_inj assms(2) by blast
    with False show ?thesis
      by (cases "offset m x") (auto simp: mmu_peek_def nth_list_update)
  qed
qed

lemma write_loop_step:
  "write_loop addr len i (b # bs) m =
     (case offset m (addr + of_nat i) of
        None \<Rightarrow> (Inl (mk_fault (addr + of_nat i) len Write Unmapped), m)
      | Some off \<Rightarrow>
          if mmu_perms m ! off AND PERM_WRITE = 0
          then (Inl (mk_fault (addr + of_nat i) len Write Permission), m)
          else write_loop addr len (Suc i) bs (put_byte off b m))"
  unfolding write_loop.simps put_byte_def Let_def by (rule refl)

declare write_loop.simps(2) [simp del]

lemma write_loop_wf [wf_intros]: "mmu_wf m \<Longrightarrow> mmu_wf (snd (write_loop addr len i bs m))"
  by (induction bs arbitrary: i m)
    (auto simp: write_loop_step put_byte_wf split: option.splits)

lemma write_loop_spec:
  assumes "mmu_wf m"
  shows "fst (write_loop addr len i bs m) = fst (spec_write (mmu_peek m) addr len i bs) \<and>
    mmu_peek (snd (write_loop addr len i bs m)) = snd (spec_write (mmu_peek m) addr len i bs)"
  using assms
proof (induction bs arbitrary: i m)
  case Nil
  then show ?case by simp
next
  case (Cons b bs)
  show ?case
  proof (cases "offset m (addr + of_nat i)")
    case None
    then show ?thesis by (simp add: write_loop_step spec_write.simps mmu_peek_def)
  next
    case (Some off)
    then have "mmu_peek m (addr + of_nat i) = Some (mmu_mem m ! off, mmu_perms m ! off)"
      by (simp add: mmu_peek_def)
    then have "spec_write (mmu_peek m) addr len i (b # bs) =
        (if mmu_perms m ! off AND PERM_WRITE = 0
         then (Inl (mk_fault (addr + of_nat i) len Write Permission), mmu_peek m)
         else spec_write (mmu_peek (put_byte off b m)) addr len (Suc i) bs)"
      by (simp only: spec_write.simps Let_def option.case prod.case
          put_byte_peek [OF Cons.prems Some])
    with Some Cons.IH [OF put_byte_wf [OF Cons.prems]]
    show ?thesis by (simp add: write_loop_step)
  qed
qed

lemma write_loop_put_bytes:
  assumes "length (mmu_perms m) = length (mmu_mem m)" "off + length ds \<le> length (mmu_mem m)"
    "\<forall>k<length ds. offset m (addr + of_nat (i + k)) = Some (off + k)"
    "\<forall>k<length ds. mmu_perms m ! (off + k) AND PERM_WRITE \<noteq> 0"
  shows "write_loop addr len i ds m = (Inr (), put_bytes off ds m)"
  using assms
proof (induction ds arbitrary: i off m)
  case Nil
  then show ?case by simp
next
  case (Cons b bs)
  let ?m = "put_byte off b m"
  have "offset m (addr + of_nat i) = Some off" "mmu_perms m ! off AND PERM_WRITE \<noteq> 0"
    using Cons.prems(3,4) by (force dest: spec [of _ 0])+
  moreover have "write_loop addr len (Suc i) bs ?m = (Inr (), put_bytes (Suc off) bs ?m)"
  proof (rule Cons.IH)
    show "\<forall>k<length bs. offset ?m (addr + of_nat (Suc i + k)) = Some (Suc off + k)"
    proof (intro allI impI)
      fix k assume "k < length bs"
      then show "offset ?m (addr + of_nat (Suc i + k)) = Some (Suc off + k)"
        using spec [OF Cons.prems(3), of "Suc k"] by (simp add: add_ac)
    qed
    show "\<forall>k<length bs. mmu_perms ?m ! (Suc off + k) AND PERM_WRITE \<noteq> 0"
    proof (intro allI impI)
      fix k assume "k < length bs"
      then show "mmu_perms ?m ! (Suc off + k) AND PERM_WRITE \<noteq> 0"
        using spec [OF Cons.prems(4), of "Suc k"] by simp
    qed
  qed (use Cons.prems in simp_all)
  ultimately show ?case
    using Cons.prems(1,2) by (simp add: write_loop_step put_bytes_Cons)
qed

lemma last_block_in_bitmap:
  assumes "mmu_wf m" "mmu_track_dirty m" "off < length (mmu_mem m)"
  shows "off div 64 div 64 < length (mmu_dirty_bitmap m)"
  using assms div_less_div_ceil [of "off div 64" "div_ceil (length (mmu_mem m)) 64" 64]
    div_less_div_ceil [of off "length (mmu_mem m)" 64]
  by (simp add: mmu_wf_def DIRTY_BLOCK_def)

lemma write_fast_path:
  assumes wf: "mmu_wf m" and off: "offset m addr = Some off"
    and len: "off + length data \<le> length (mmu_mem m)"
    and all: "list_all (\<lambda>p. p AND PERM_WRITE \<noteq> 0) (sub_slice (mmu_perms m) off (length data))"
  shows "write_bytewise m addr data = mmu_write m addr data"
    and "mmu_write m addr data = (Inr (), put_bytes off data m)"
proof -
  have offs: "\<forall>k<length data. offset m (addr + of_nat (0 + k)) = Some (off + k)"
    using offset_add [OF wf off] len by simp
  have perms: "\<forall>k<length data. mmu_perms m ! (off + k) AND PERM_WRITE \<noteq> 0"
    using all len mmu_wfD(1) [OF wf] by (simp add: list_all_sub_slice)
  have slow: "write_bytewise m addr data = (Inr (), put_bytes off data m)"
    unfolding write_bytewise_def
    by (rule write_loop_put_bytes [OF mmu_wfD(1) [OF wf] len offs perms])
  have marks: "fold mark_bits (map (\<lambda>x. x div 64) [off ..< off + length data]) s =
      fold mark_bits [off div 64 ..< (off + length data - 1) div 64 + 1] s"
    if "0 < length data" "mmu_track_dirty m" "fst s = mmu_dirty_bitmap m" for s
  proof -
    obtain n where n: "length data = Suc n" using \<open>0 < length data\<close> by (cases "length data") auto
    then have "(off + n) div 64 div 64 < length (fst s)"
      using last_block_in_bitmap [OF wf that(2)] len that(3) by simp
    then show ?thesis using fold_mark_bytes_eq_blocks [of off n s] n by simp
  qed
  show "mmu_write m addr data = (Inr (), put_bytes off data m)"
    using off len all marks
    by (cases "data = []")
      (auto simp: mmu_write_def put_bytes_def Let_def fold_mark_block_self DIRTY_BLOCK_def
        simp del: upt_Suc)
  with slow show "write_bytewise m addr data = mmu_write m addr data" by simp
qed

lemma mmu_write_eq_bytewise:
  assumes "mmu_wf m"
  shows "mmu_write m addr data = write_bytewise m addr data"
proof (cases "offset m addr")
  case None
  then show ?thesis by (simp add: mmu_write_def Let_def)
next
  case (Some off)
  show ?thesis
  proof (cases "off + length data \<le> length (mmu_mem m) \<and>
      list_all (\<lambda>p. p AND PERM_WRITE \<noteq> 0) (sub_slice (mmu_perms m) off (length data))")
    case True
    then show ?thesis using write_fast_path(1) [OF assms Some] by simp
  next
    case False
    then show ?thesis unfolding mmu_write_def Let_def Some option.case by (rule if_not_P)
  qed
qed

lemma mmu_write_wf [wf_intros]: "mmu_wf m \<Longrightarrow> mmu_wf (snd (mmu_write m addr data))"
  by (simp add: mmu_write_eq_bytewise write_bytewise_def write_loop_wf)

interpretation flat: soft_mmu mmu_peek mmu_read mmu_write mmu_wf
proof
  fix m addr buf assume "mmu_wf m"
  then show "mmu_read m addr buf =
      spec_read Read PERM_READ (mmu_peek m) addr (of_nat (length buf)) 0 buf"
    by (simp add: mmu_read_eq_bytewise read_bytewise_def read_loop_spec)
qed (simp_all add: mmu_write_eq_bytewise write_bytewise_def write_loop_spec write_loop_wf)

section \<open>Snapshot reset\<close>

text \<open>
  The invariant between a capture and the next reset, against the captured planes: tracking is
  on, the bitmap and the list of dirty blocks agree, and every byte outside the dirty blocks
  still has its captured content and permissions.
\<close>

definition snap_inv :: "u8 list \<Rightarrow> u8 list \<Rightarrow> mmu \<Rightarrow> bool" where
  "snap_inv gmem gperms m \<longleftrightarrow>
     mmu_wf m \<and> mmu_track_dirty m \<and>
     length gmem = length (mmu_mem m) \<and> length gperms = length (mmu_mem m) \<and>
     distinct (mmu_dirty m) \<and>
     (\<forall>blk \<in> set (mmu_dirty m). blk * DIRTY_BLOCK < length (mmu_mem m)) \<and>
     (\<forall>blk. blk div 64 < length (mmu_dirty_bitmap m) \<longrightarrow>
        marked (mmu_dirty_bitmap m) blk = (blk \<in> set (mmu_dirty m))) \<and>
     (\<forall>off < length (mmu_mem m). off div DIRTY_BLOCK \<notin> set (mmu_dirty m) \<longrightarrow>
        mmu_mem m ! off = gmem ! off \<and> mmu_perms m ! off = gperms ! off)"

lemma set_mark_bits: "set (snd (mark_bits blk s)) = (if marked (fst s) blk then {} else {blk}) \<union> set (snd s)"
  by (cases s) (simp add: mark_bits_eq)

lemma distinct_mark_bits:
  "distinct (snd s) \<Longrightarrow> (marked (fst s) blk \<or> blk \<notin> set (snd s)) \<Longrightarrow> distinct (snd (mark_bits blk s))"
  by (cases s) (auto simp: mark_bits_eq)

lemma put_byte_dirty:
  assumes "mmu_track_dirty m"
  shows "(mmu_dirty_bitmap (put_byte off b m), mmu_dirty (put_byte off b m)) =
    mark_bits (off div 64) (mmu_dirty_bitmap m, mmu_dirty m)"
  using assms by (simp add: put_byte_def Let_def mark_dirty_def mark_block_def DIRTY_BLOCK_def)

lemma put_byte_snap_inv:
  assumes "snap_inv gmem gperms m" "off < length (mmu_mem m)"
  shows "snap_inv gmem gperms (put_byte off b m)"
proof -
  let ?blk = "off div 64" and ?m = "put_byte off b m"
  have wf: "mmu_wf m" and tr: "mmu_track_dirty m"
    and agree: "\<forall>blk. blk div 64 < length (mmu_dirty_bitmap m) \<longrightarrow>
        marked (mmu_dirty_bitmap m) blk = (blk \<in> set (mmu_dirty m))"
    using assms(1) by (simp_all add: snap_inv_def)
  have in_bm: "?blk div 64 < length (mmu_dirty_bitmap m)"
    using last_block_in_bitmap [OF wf tr assms(2)] .
  have mk: "marked (mmu_dirty_bitmap m) ?blk = (?blk \<in> set (mmu_dirty m))"
    using agree in_bm by simp
  have bm: "mmu_dirty_bitmap ?m = fst (mark_bits ?blk (mmu_dirty_bitmap m, mmu_dirty m))"
    and dl: "mmu_dirty ?m = snd (mark_bits ?blk (mmu_dirty_bitmap m, mmu_dirty m))"
    using put_byte_dirty [OF tr, of off b] by (metis fst_conv, metis snd_conv)
  have set_dl: "set (mmu_dirty ?m) = insert ?blk (set (mmu_dirty m))"
    using mk by (auto simp: dl set_mark_bits)
  have "distinct (mmu_dirty ?m)"
    using assms(1) mk unfolding dl by (intro distinct_mark_bits) (auto simp: snap_inv_def)
  moreover have "\<forall>blk. blk div 64 < length (mmu_dirty_bitmap ?m) \<longrightarrow>
      marked (mmu_dirty_bitmap ?m) blk = (blk \<in> set (mmu_dirty ?m))"
    using agree in_bm by (auto simp: bm set_dl marked_mark_bits)
  moreover have "?blk * DIRTY_BLOCK < length (mmu_mem m)"
    using assms(2) by (simp add: DIRTY_BLOCK_def)
  ultimately show ?thesis
    using assms wf tr put_byte_wf [OF wf]
    by (auto simp: snap_inv_def set_dl nth_list_update DIRTY_BLOCK_def)
qed

lemma write_loop_snap_inv:
  "snap_inv gmem gperms m \<Longrightarrow> snap_inv gmem gperms (snd (write_loop addr len i bs m))"
  by (induction bs arbitrary: i m)
    (auto simp: write_loop_step put_byte_snap_inv offset_less split: option.splits)

lemma mmu_write_snap_inv:
  assumes "snap_inv gmem gperms m"
  shows "snap_inv gmem gperms (snd (mmu_write m addr data))"
proof -
  have "mmu_wf m" using assms by (simp add: snap_inv_def)
  then show ?thesis
    using assms by (simp add: mmu_write_eq_bytewise write_bytewise_def write_loop_snap_inv)
qed

lemma reset_block_nth:
  assumes "blk * DIRTY_BLOCK < length (mmu_mem m)" "length (mmu_perms m) = length (mmu_mem m)"
    "length gmem = length (mmu_mem m)" "length gperms = length (mmu_mem m)"
    "off < length (mmu_mem m)"
  shows "mmu_mem (reset_block gmem gperms blk m) ! off =
      (if off div DIRTY_BLOCK = blk then gmem ! off else mmu_mem m ! off)"
    and "mmu_perms (reset_block gmem gperms blk m) ! off =
      (if off div DIRTY_BLOCK = blk then gperms ! off else mmu_perms m ! off)"
proof -
  let ?n = "min (blk * DIRTY_BLOCK + DIRTY_BLOCK) (length (mmu_mem m)) - blk * DIRTY_BLOCK"
  have "off div DIRTY_BLOCK = blk \<longleftrightarrow> blk * DIRTY_BLOCK \<le> off \<and> off < blk * DIRTY_BLOCK + ?n"
    using assms(1,5) unfolding DIRTY_BLOCK_def by auto
  then show "mmu_mem (reset_block gmem gperms blk m) ! off =
      (if off div DIRTY_BLOCK = blk then gmem ! off else mmu_mem m ! off)"
    and "mmu_perms (reset_block gmem gperms blk m) ! off =
      (if off div DIRTY_BLOCK = blk then gperms ! off else mmu_perms m ! off)"
    using assms(1-4) by (simp_all add: reset_block_def Let_def nth_blit_sub_slice)
qed

lemma reset_block_sel [simp]:
  assumes "blk * DIRTY_BLOCK < length (mmu_mem m)" "length (mmu_perms m) = length (mmu_mem m)"
    "length gmem = length (mmu_mem m)" "length gperms = length (mmu_mem m)"
  shows "length (mmu_mem (reset_block gmem gperms blk m)) = length (mmu_mem m)"
    "length (mmu_perms (reset_block gmem gperms blk m)) = length (mmu_mem m)"
  using assms by (simp_all add: reset_block_def Let_def)

lemma reset_block_frame [simp]:
  "mmu_base (reset_block gmem gperms blk m) = mmu_base m"
  "mmu_track_dirty (reset_block gmem gperms blk m) = mmu_track_dirty m"
  "mmu_dirty (reset_block gmem gperms blk m) = mmu_dirty m"
  "mmu_dirty_bitmap (reset_block gmem gperms blk m) = mmu_dirty_bitmap m"
  by (simp_all add: reset_block_def Let_def)

lemma fold_reset_block_frame [simp]:
  "mmu_base (fold (reset_block gmem gperms) blks m) = mmu_base m"
  "mmu_track_dirty (fold (reset_block gmem gperms) blks m) = mmu_track_dirty m"
  "mmu_dirty (fold (reset_block gmem gperms) blks m) = mmu_dirty m"
  "mmu_dirty_bitmap (fold (reset_block gmem gperms) blks m) = mmu_dirty_bitmap m"
  by (induction blks arbitrary: m) simp_all

lemma fold_reset_block:
  assumes "\<forall>blk \<in> set blks. blk * DIRTY_BLOCK < length (mmu_mem m)"
    "length (mmu_perms m) = length (mmu_mem m)"
    "length gmem = length (mmu_mem m)" "length gperms = length (mmu_mem m)"
  shows "length (mmu_mem (fold (reset_block gmem gperms) blks m)) = length (mmu_mem m) \<and>
    length (mmu_perms (fold (reset_block gmem gperms) blks m)) = length (mmu_mem m) \<and>
    (\<forall>off < length (mmu_mem m).
       mmu_mem (fold (reset_block gmem gperms) blks m) ! off =
         (if off div DIRTY_BLOCK \<in> set blks then gmem ! off else mmu_mem m ! off) \<and>
       mmu_perms (fold (reset_block gmem gperms) blks m) ! off =
         (if off div DIRTY_BLOCK \<in> set blks then gperms ! off else mmu_perms m ! off))"
  using assms
proof (induction blks arbitrary: m)
  case Nil
  then show ?case by simp
next
  case (Cons blk blks)
  have "blk * DIRTY_BLOCK < length (mmu_mem m)" using Cons.prems(1) by simp
  note sel = reset_block_sel [OF this Cons.prems(2-4)] and nths = reset_block_nth [OF this Cons.prems(2-4)]
  show ?case using Cons.IH [of "reset_block gmem gperms blk m"] Cons.prems sel nths by simp
qed

lemma fold_clear_words:
  "length (fold (\<lambda>blk bm. bm[blk div 64 := 0]) blks bm) = length bm"
  "w < length bm \<Longrightarrow> fold (\<lambda>blk bm. bm[blk div 64 := 0]) blks bm ! w =
     (if w \<in> (\<lambda>blk. blk div 64) ` set blks then 0 else bm ! w)" for bm :: "u64 list"
  by (induction blks arbitrary: bm) (auto simp: nth_list_update)

lemma clear_dirty_bitmap:
  assumes "\<forall>blk. blk div 64 < length bm \<longrightarrow> marked bm blk = (blk \<in> set blks)"
  shows "fold (\<lambda>blk bm. bm[blk div 64 := 0]) blks bm = replicate (length bm) 0"
proof (rule nth_equalityI)
  show "length (fold (\<lambda>blk bm. bm[blk div 64 := 0]) blks bm) = length (replicate (length bm) 0)"
    by (simp add: fold_clear_words)
  fix w assume "w < length (fold (\<lambda>blk bm. bm[blk div 64 := 0]) blks bm)"
  then have w: "w < length bm" by (simp add: fold_clear_words)
  have "bm ! w = 0" if "w \<notin> (\<lambda>blk. blk div 64) ` set blks"
  proof (rule bit_word_eqI)
    fix b assume "b < LENGTH(64)"
    then have k: "(w * 64 + b) div 64 = w" "(w * 64 + b) mod 64 = b" by simp_all
    then have "w * 64 + b \<notin> set blks" using that by force
    then have "\<not> marked bm (w * 64 + b)" using assms w k by simp
    then show "bit (bm ! w) b = bit 0 b" using k by (simp add: marked_def)
  qed
  with w show "fold (\<lambda>blk bm. bm[blk div 64 := 0]) blks bm ! w = replicate (length bm) 0 ! w"
    by (auto simp: fold_clear_words)
qed

lemma reset_dirty_restores:
  assumes "snap_inv gmem gperms m"
  shows "reset_dirty gmem gperms m = m\<lparr>mmu_mem := gmem, mmu_perms := gperms,
    mmu_dirty := [], mmu_dirty_bitmap := replicate (length (mmu_dirty_bitmap m)) 0\<rparr>"
proof -
  let ?r = "fold (reset_block gmem gperms) (mmu_dirty m) m"
  have wf: "mmu_wf m" and lens: "length gmem = length (mmu_mem m)" "length gperms = length (mmu_mem m)"
    and rng: "\<forall>blk \<in> set (mmu_dirty m). blk * DIRTY_BLOCK < length (mmu_mem m)"
    and agree: "\<forall>off < length (mmu_mem m). off div DIRTY_BLOCK \<notin> set (mmu_dirty m) \<longrightarrow>
        mmu_mem m ! off = gmem ! off \<and> mmu_perms m ! off = gperms ! off"
    and bits: "\<forall>blk. blk div 64 < length (mmu_dirty_bitmap m) \<longrightarrow>
        marked (mmu_dirty_bitmap m) blk = (blk \<in> set (mmu_dirty m))"
    using assms by (simp_all add: snap_inv_def)
  note fr = fold_reset_block [OF rng mmu_wfD(1) [OF wf] lens]
  have "mmu_mem ?r = gmem" "mmu_perms ?r = gperms"
    using fr agree lens by (auto intro!: nth_equalityI)
  then show ?thesis
    by (simp add: reset_dirty_def clear_dirty_def clear_dirty_bitmap [OF bits])
qed

lemma enable_snap_inv:
  assumes "mmu_wf m"
  shows "snap_inv (mmu_mem m) (mmu_perms m) (enable_dirty_tracking m)"
  using assms by (auto simp: snap_inv_def enable_dirty_tracking_def mmu_wf_def Let_def marked_def)

lemma snap_inv_after_capture:
  assumes "snap_inv gmem gperms m" "mmu_wf m0" "mmu_mem m0 = gmem" "mmu_perms m0 = gperms"
    "mmu_base m = mmu_base m0"
  shows "reset_dirty gmem gperms m = enable_dirty_tracking m0"
proof -
  have "length (mmu_dirty_bitmap m) = div_ceil (div_ceil (length gmem) DIRTY_BLOCK) 64"
    "mmu_track_dirty m"
    using assms(1) by (simp_all add: snap_inv_def mmu_wf_def)
  with assms show ?thesis
    by (simp add: reset_dirty_restores enable_dirty_tracking_def Let_def)
qed

section \<open>The MMU meets the bus contract\<close>

lemma mmu_read_gather:
  assumes "mmu_wf m"
  shows "(case mmu_read m addr (replicate n 0) of (r, b) \<Rightarrow> map_ok (\<lambda>_. f b) r) =
    map_ok f (gather Read PERM_READ (mmu_peek m) addr n)"
proof -
  have "map_ok (\<lambda>_. f b) r = map_ok f (map_ok (\<lambda>_. b) r)" for b and r :: "fault + unit"
    by (cases r) simp_all
  then show ?thesis by (simp add: flat.rd_spec [OF assms] gather_def split: prod.splits)
qed

lemma mmu_load_view:
  assumes "mmu_wf m"
  shows "mmu_load m addr sz = (view_load (mmu_peek m) addr sz, m)"
proof -
  have mm: "map_ok g (map_ok f r) = map_ok (\<lambda>x. g (f x)) r" for f g and r :: "fault + u8 list"
    by (cases r) simp_all
  have 1: "map_ok ucast (read_u8 m addr) = map_ok (\<lambda>b. ucast (b ! 0)) (gather Read PERM_READ (mmu_peek m) addr 1)"
    using mmu_read_gather [OF assms, where n = 1 and f = "\<lambda>b. b ! 0" and addr = addr] by (simp add: read_u8_def mm)
  have 2: "map_ok ucast (read_u16 m addr) = bindE (check_align addr 2 Read)
      (\<lambda>_. map_ok (\<lambda>b. ucast (u16_from_le b)) (gather Read PERM_READ (mmu_peek m) addr 2))"
    using mmu_read_gather [OF assms, where n = 2 and f = u16_from_le and addr = addr]
    by (cases "check_align addr 2 Read") (simp_all add: read_u16_def mm numeral_2_eq_2)
  have 3: "read_u32 m addr = bindE (check_align addr 4 Read)
      (\<lambda>_. map_ok u32_from_le (gather Read PERM_READ (mmu_peek m) addr 4))"
    using mmu_read_gather [OF assms, where n = 4 and f = u32_from_le and addr = addr]
    by (cases "check_align addr 4 Read") (simp_all add: read_u32_def eval_nat_numeral)
  show ?thesis by (simp add: mmu_load_def view_load_def 1 2 3)
qed

lemma mmu_store_view:
  assumes "mmu_wf m"
  shows "fst (mmu_store m addr sz val) = fst (view_store (mmu_peek m) addr sz val)"
    and "mmu_peek (snd (mmu_store m addr sz val)) = snd (view_store (mmu_peek m) addr sz val)"
    and "mmu_wf (snd (mmu_store m addr sz val))"
  using assms flat.wr_res [OF assms, of "[ucast val]" addr] flat.wr_peek [OF assms, of "[ucast val]" addr]
    flat.wr_res [OF assms, of "u16_to_le (ucast val)" addr]
    flat.wr_peek [OF assms, of "u16_to_le (ucast val)" addr]
    flat.wr_res [OF assms, of "u32_to_le val" addr] flat.wr_peek [OF assms, of "u32_to_le val" addr]
  by (auto simp: mmu_store_def view_store_def write_u8_def write_u16_def write_u32_def
      mmu_write_wf check_align_def)

lemma mmu_raw_state_view: "mmu_read_raw_state m addr len = view_raw_state (mmu_peek m) addr len"
  unfolding mmu_read_raw_state_def view_raw_state_def
  by (intro fold_cong ext) (auto simp: mmu_peek_def split: option.splits)

definition shadow_byte :: "u32 \<Rightarrow> bool \<Rightarrow> mmu \<Rightarrow> mmu" where
  "shadow_byte a t m = (case offset m a of
     None \<Rightarrow> m
   | Some off \<Rightarrow> m\<lparr>mmu_perms := (mmu_perms m)[off := set_vtaint_bit t (mmu_perms m ! off)]\<rparr>)"

lemma stamp_perm_peek:
  assumes "mmu_wf m" "offset m a = Some off"
  shows "mmu_peek (m\<lparr>mmu_perms := (mmu_perms m)[off := f (mmu_perms m ! off)]\<rparr>) =
    (mmu_peek m)(a := map_option (apsnd f) (mmu_peek m a))"
proof
  fix x
  show "mmu_peek (m\<lparr>mmu_perms := (mmu_perms m)[off := f (mmu_perms m ! off)]\<rparr>) x =
    ((mmu_peek m)(a := map_option (apsnd f) (mmu_peek m a))) x"
  proof (cases "x = a")
    case True
    with assms offset_less [OF assms(2)] show ?thesis by (simp add: mmu_peek_def mmu_wfD(1))
  next
    case False
    then have "offset m x \<noteq> Some off" using offset_inj assms(2) by blast
    with False show ?thesis by (cases "offset m x") (auto simp: mmu_peek_def nth_list_update)
  qed
qed

lemma perms_upd_wf [wf_intros]:
  "mmu_wf m \<Longrightarrow> length ps = length (mmu_perms m) \<Longrightarrow> mmu_wf (m\<lparr>mmu_perms := ps\<rparr>)"
  by (simp add: mmu_wf_def)

lemma shadow_byte_peek:
  assumes "mmu_wf m"
  shows "mmu_wf (shadow_byte a t m) \<and> mmu_peek (shadow_byte a t m) =
    (case mmu_peek m a of None \<Rightarrow> mmu_peek m
     | Some (b, p) \<Rightarrow> (mmu_peek m)(a \<mapsto> (b, set_vtaint_bit t p)))"
proof (cases "offset m a")
  case None
  with assms show ?thesis by (simp add: shadow_byte_def mmu_peek_def)
next
  case (Some off)
  have "mmu_peek m a = Some (mmu_mem m ! off, mmu_perms m ! off)"
    using Some by (simp add: mmu_peek_def)
  then show ?thesis
    using stamp_perm_peek [OF assms Some, of "set_vtaint_bit t"] perms_upd_wf [OF assms] Some
    by (simp add: shadow_byte_def)
qed

lemma mmu_write_shadow_alt:
  "mmu_write_shadow m addr len tm =
     fold (\<lambda>i. shadow_byte (addr + of_nat i) (drop_bit (8 * i) tm AND 1 \<noteq> 0)) [0 ..< min len 4] m"
  unfolding mmu_write_shadow_def shadow_byte_def by (rule refl)

lemma fold_shadow_byte:
  assumes "mmu_wf m"
  shows "mmu_wf (fold (\<lambda>i. shadow_byte (addr + of_nat i) (t i)) is m) \<and>
    mmu_peek (fold (\<lambda>i. shadow_byte (addr + of_nat i) (t i)) is m) =
    fold (\<lambda>i v. case v (addr + of_nat i) of None \<Rightarrow> v
       | Some (b, p) \<Rightarrow> v(addr + of_nat i \<mapsto> (b, set_vtaint_bit (t i) p))) is (mmu_peek m)"
  using assms
proof (induction "is" arbitrary: m)
  case Nil
  then show ?case by simp
next
  case (Cons i "is")
  note sb = shadow_byte_peek [OF Cons.prems, of "addr + of_nat i" "t i"]
  show ?case using Cons.IH [OF conjunct1 [OF sb]] conjunct2 [OF sb] by simp
qed

interpretation flat_bus: byte_bus mmu_peek mmu_bus mmu_wf
proof
  fix m addr assume wf: "mmu_wf m"
  show "bus_ifetch16 mmu_bus m addr = (view_ifetch16 (mmu_peek m) addr, m)"
    by (simp add: mmu_bus_def mmu_ifetch16_def fetch_u16_def view_ifetch16_def
        fetch_bytes_spec [OF wf] gather_def)
next
  fix m addr sz tm assume wf: "mmu_wf m"
  show "mmu_peek (bus_write_shadow mmu_bus m addr sz tm) = view_write_shadow (mmu_peek m) addr sz tm"
    by (simp add: mmu_bus_def mmu_write_shadow_alt view_write_shadow_def fold_shadow_byte [OF wf]
        del: push_bit_of_1)
next
  fix m addr sz tm assume wf: "mmu_wf m"
  show "mmu_wf (bus_write_shadow mmu_bus m addr sz tm)"
    by (simp add: mmu_bus_def mmu_write_shadow_alt fold_shadow_byte [OF wf])
qed (simp_all add: mmu_bus_def mmu_load_view mmu_store_view mmu_raw_state_view)

section \<open>Stamping permissions\<close>

definition stamped :: "(u8 \<Rightarrow> u8) \<Rightarrow> view \<Rightarrow> u32 \<Rightarrow> nat \<Rightarrow> view" where
  "stamped f v a0 n = (\<lambda>a. if unat (a - a0) < n then map_option (apsnd f) (v a) else v a)"

lemma stamped_Suc:
  assumes "n < 4294967296"
  shows "stamped f v a0 (Suc n) = stamped f (v(a0 := map_option (apsnd f) (v a0))) (a0 + 1) n"
proof
  fix a
  show "stamped f v a0 (Suc n) a = stamped f (v(a0 := map_option (apsnd f) (v a0))) (a0 + 1) n a"
  proof (cases "a = a0")
    case True
    have "unat (- 1 :: u32) = 4294967295" by (simp add: unsigned_minus_1_eq_mask mask_eq_exp_minus_1)
    with True assms show ?thesis by (simp add: stamped_def)
  next
    case False
    then show ?thesis by (simp add: stamped_def unat_diff_Suc)
  qed
qed

lemma perms_loop_step:
  "perms_loop f addr len i (Suc n) m =
     (case offset m (addr + of_nat i) of
        None \<Rightarrow> (Inl (mk_fault (addr + of_nat i) len Write Unmapped), m)
      | Some off \<Rightarrow> perms_loop f addr len (Suc i) n
            (m\<lparr>mmu_perms := (mmu_perms m)[off := f (mmu_perms m ! off)]\<rparr>))"
  by (simp add: Let_def)

declare perms_loop.simps(2) [simp del]

lemma perms_loop_frame:
  "mmu_mem (snd (perms_loop f addr len i n m)) = mmu_mem m"
  "mmu_base (snd (perms_loop f addr len i n m)) = mmu_base m"
  "length (mmu_perms (snd (perms_loop f addr len i n m))) = length (mmu_perms m)"
  "mmu_track_dirty (snd (perms_loop f addr len i n m)) = mmu_track_dirty m"
  "mmu_dirty (snd (perms_loop f addr len i n m)) = mmu_dirty m"
  "mmu_dirty_bitmap (snd (perms_loop f addr len i n m)) = mmu_dirty_bitmap m"
  by (induction n arbitrary: i m) (auto simp: perms_loop_step split: option.splits)

lemma perms_loop_wf [wf_intros]: "mmu_wf m \<Longrightarrow> mmu_wf (snd (perms_loop f addr len i n m))"
  by (simp add: mmu_wf_def perms_loop_frame)

lemma perms_loop_ok_iff:
  "fst (perms_loop f addr len i n m) = Inr () \<longleftrightarrow> (\<forall>k<n. offset m (addr + of_nat (i + k)) \<noteq> None)"
proof (induction n arbitrary: i m)
  case 0
  then show ?case by simp
next
  case (Suc n)
  show ?case unfolding All_less_Suc2 using Suc by (simp add: perms_loop_step add_ac split: option.splits)
qed

lemma perms_loop_peek:
  assumes "mmu_wf m" "n \<le> 4294967296" "perms_loop f addr len i n m = (Inr (), m')"
  shows "mmu_peek m' = stamped f (mmu_peek m) (addr + of_nat i) n"
  using assms
proof (induction n arbitrary: i m)
  case 0
  then show ?case by (simp add: stamped_def)
next
  case (Suc n)
  then obtain off where off: "offset m (addr + of_nat i) = Some off"
    by (auto simp: perms_loop_step split: option.splits)
  let ?m = "m\<lparr>mmu_perms := (mmu_perms m)[off := f (mmu_perms m ! off)]\<rparr>"
  have "mmu_peek m' = stamped f (mmu_peek ?m) (addr + of_nat (Suc i)) n"
    using Suc.prems off by (intro Suc.IH) (simp_all add: perms_loop_step perms_upd_wf)
  also have "\<dots> = stamped f (mmu_peek m) (addr + of_nat i) (Suc n)"
    unfolding stamp_perm_peek [OF Suc.prems(1) off] using Suc.prems(2)
    by (subst stamped_Suc) (simp_all add: add_ac)
  finally show ?case .
qed

lemma protect_wf [wf_intros]: "mmu_wf m \<Longrightarrow> mmu_wf (snd (protect m addr len p))"
  by (simp add: protect_def perms_loop_wf)

lemma protect_peek:
  assumes "mmu_wf m" "protect m addr len p = (Inr (), m')"
  shows "mmu_peek m' = stamped (\<lambda>_. p) (mmu_peek m) addr (unat len)"
  using perms_loop_peek [OF assms(1), of "unat len" "\<lambda>_. p" addr len 0] assms(2)
    less_imp_le [OF unat_lt_u32 [of len]]
  by (simp add: protect_def)

lemma protect_ok_iff:
  "fst (protect m addr len p) = Inr () \<longleftrightarrow> (\<forall>k<unat len. offset m (addr + of_nat k) \<noteq> None)"
  by (simp add: protect_def perms_loop_ok_iff)

lemma protect_in_window:
  assumes "protect m addr len p = (Inr (), m')" "unat (a - addr) < unat len"
  shows "offset m a \<noteq> None"
proof -
  have "addr + of_nat (unat (a - addr)) = a" by simp
  moreover have "\<forall>k<unat len. offset m (addr + of_nat k) \<noteq> None"
    using assms(1) protect_ok_iff [of m addr len p] by simp
  ultimately show ?thesis using assms(2) by metis
qed

section \<open>Bounds probing\<close>

lemma in_bounds_iff:
  assumes wf: "mmu_wf m" and len: "len \<noteq> 0" and sz: "length (mmu_mem m) < 4294967296"
  shows "in_bounds m addr len \<longleftrightarrow> (\<forall>k<unat len. offset m (addr + of_nat k) \<noteq> None)"
proof
  assume ib: "in_bounds m addr len"
  then obtain s l where s: "offset m addr = Some s" and nw: "unat addr + unat (len - 1) < 4294967296"
    and l: "offset m (addr + (len - 1)) = Some l"
    using len by (auto simp: in_bounds_def split: option.splits if_splits)
  have last: "unat (addr + (len - 1)) = unat addr + unat (len - 1)"
    using nw by (simp add: unat_word_ariths(1) [of addr "len - 1"])
  have len1: "unat (len - 1) = unat len - 1" using len by (simp add: unat_minus_one)
  show "\<forall>k<unat len. offset m (addr + of_nat k) \<noteq> None"
  proof (intro allI impI)
    fix k assume k: "k < unat len"
    then have "unat addr + k < 4294967296" using nw len1 by simp
    then have "unat (addr + of_nat k) = unat addr + k" by (rule unat_add_no_wrap)
    then have "offset m (addr + of_nat k) = Some (s + k)"
      using s l k unfolding offset_Some_iff last len1 by linarith
    then show "offset m (addr + of_nat k) \<noteq> None" by simp
  qed
next
  assume all: "\<forall>k<unat len. offset m (addr + of_nat k) \<noteq> None"
  have pos: "0 < unat len" using len by (simp add: unat_gt_0)
  have len1: "unat (len - 1) = unat len - 1" using len by (simp add: unat_minus_one)
  obtain s where s: "offset m addr = Some s" using spec [OF all, of 0] pos by auto
  have nw: "unat addr + unat (len - 1) < 4294967296"
  proof (rule ccontr)
    assume wrap: "\<not> ?thesis"
    let ?k = "4294967295 - unat addr"
    have k: "?k < unat len" "?k + 1 < unat len \<or> unat len = ?k + 1"
      using wrap len1 unat_lt_u32 [of addr] by linarith+
    have sum: "unat addr + ?k = 4294967295" using unat_lt_u32 [of addr] by linarith
    have "unat (addr + of_nat ?k) = unat addr + ?k"
      by (rule unat_add_no_wrap) (use sum in linarith)
    then have "unat (addr + of_nat ?k) = 4294967295" using sum by linarith
    moreover obtain off where "offset m (addr + of_nat ?k) = Some off" using all k(1) by blast
    ultimately have e: "4294967295 = unat (mmu_base m) + off" "off < length (mmu_mem m)"
      by (simp_all add: offset_Some_iff)
    then have top: "unat (mmu_base m) + length (mmu_mem m) = 4294967296"
      using mmu_wfD(2) [OF wf] by linarith
    have "addr + of_nat (?k + 1) = of_nat (unat addr) + of_nat (?k + 1)" by simp
    also have "\<dots> = of_nat (unat addr + (?k + 1))" by (simp only: of_nat_add)
    also have "unat addr + (?k + 1) = 2 ^ LENGTH(32)"
      unfolding add.assoc [symmetric] sum by simp
    also have "(of_nat (2 ^ LENGTH(32)) :: u32) = 0" by simp
    finally have "addr + of_nat (?k + 1) = 0" .
    moreover have "?k + 1 < unat len" using wrap len1 unat_lt_u32 [of addr] pos by linarith
    ultimately have "offset m 0 \<noteq> None" using all by metis
    then have "unat (mmu_base m) = 0" by (auto simp: offset_Some_iff)
    with top sz show False by simp
  qed
  have "of_nat (unat len - 1) = len - 1" unfolding len1 [symmetric] by (simp only: of_nat_unat ucast_id)
  then obtain l where l: "offset m (addr + (len - 1)) = Some l"
    using spec [OF all, of "unat len - 1"] pos by auto
  have "unat (addr + (len - 1)) = unat addr + unat (len - 1)"
    using nw by (simp add: unat_word_ariths(1) [of addr "len - 1"])
  then have "s \<le> l" using s l by (simp add: offset_Some_iff)
  then show "in_bounds m addr len" using len s l nw by (simp add: in_bounds_def)
qed

section \<open>The inlined fast path\<close>

lemma raw_to_read_id: "bit p 0 \<Longrightarrow> \<not> bit p 3 \<Longrightarrow> raw_to_read p = p"
  by (rule bit_word_eqI) (auto simp: perm_simps)

lemma forbidden_clear: "p AND FAST_PTR_FORBIDDEN = 0 \<Longrightarrow> \<not> bit p 3"
proof
  assume z: "p AND FAST_PTR_FORBIDDEN = 0" and "bit p 3"
  then have "bit (p AND FAST_PTR_FORBIDDEN) 3"
    unfolding FAST_PTR_FORBIDDEN_def bit_and_iff bit_or_iff by simp
  then show False unfolding z by simp
qed

lemma need_bit: "p AND need = need \<Longrightarrow> bit need k \<Longrightarrow> bit p k" for p :: u8
  by (metis bit_and_iff)

lemma fast_ptr_Some:
  assumes "mmu_fast_ptr m addr len need = (Some off, m1)"
  shows "offset m addr = Some off" "off + len \<le> length (mmu_mem m)"
    "list_all (\<lambda>p. p AND need = need \<and> p AND FAST_PTR_FORBIDDEN = 0) (sub_slice (mmu_perms m) off len)"
    "m1 = (if need AND PERM_WRITE \<noteq> 0 \<and> mmu_track_dirty m then fold mark_dirty [off ..< off + len] m else m)"
  using assms by (auto simp: mmu_fast_ptr_def Let_def split: option.splits if_splits)

lemma fold_mark_dirty:
  "fold mark_dirty offs m = set_dirty (fold mark_bits (map (\<lambda>x. x div 64) offs)
     (mmu_dirty_bitmap m, mmu_dirty m)) m"
proof -
  have "mark_dirty x = mark_block (x div 64)" for x by (rule ext) (simp add: mark_dirty_def DIRTY_BLOCK_def)
  then have "fold mark_dirty offs m = fold mark_block (map (\<lambda>x. x div 64) offs) m"
    by (induction offs arbitrary: m) simp_all
  then show ?thesis by (simp add: fold_mark_block_self)
qed

lemma fast_store_eq_write:
  assumes wf: "mmu_wf m" and fp: "mmu_fast_ptr m addr (length data) (PERM_READ OR PERM_WRITE) = (Some off, m1)"
  shows "mmu_write m addr data = (Inr (), m1\<lparr>mmu_mem := blit (mmu_mem m1) off data\<rparr>)"
proof -
  let ?need = "PERM_READ OR PERM_WRITE"
  note f = fast_ptr_Some [OF fp]
  have nb: "bit ?need 0" "bit ?need 1" by (simp_all add: bit_or_iff)
  have w: "list_all (\<lambda>p. p AND PERM_WRITE \<noteq> 0) (sub_slice (mmu_perms m) off (length data))"
    using f(3) by (rule list.pred_mono_strong) (auto simp: perm_simps dest!: need_bit [OF _ nb(2)])
  have "map raw_to_read (sub_slice (mmu_perms m) off (length data)) = sub_slice (mmu_perms m) off (length data)"
    using f(3) by (intro map_idI raw_to_read_id)
      (auto simp: list_all_iff dest!: bspec dest: need_bit [OF _ nb(1)] forbidden_clear)
  moreover have "blit (mmu_perms m) off (sub_slice (mmu_perms m) off (length data)) = mmu_perms m"
    using f(2) mmu_wfD(1) [OF wf] by (intro nth_equalityI) (simp_all add: nth_blit_sub_slice)
  moreover have "?need AND PERM_WRITE \<noteq> 0" using nb(2) by (simp add: perm_simps)
  ultimately show ?thesis
    using write_fast_path(2) [OF wf f(1,2) w] f(4)
    by (simp add: put_bytes_def Let_def fold_mark_dirty set_dirty_def)
qed

lemma fast_load_eq_read:
  assumes wf: "mmu_wf m" and fp: "mmu_fast_ptr m addr (length buf) PERM_READ = (Some off, m1)"
  shows "m1 = m" and "mmu_read m addr buf = (Inr (), sub_slice (mmu_mem m) off (length buf))"
proof -
  note f = fast_ptr_Some [OF fp]
  have "PERM_READ AND PERM_WRITE = 0" by (simp add: perm_simps)
  with f(4) show "m1 = m" by simp
  have "list_all (\<lambda>p. p AND PERM_READ \<noteq> 0) (sub_slice (mmu_perms m) off (length buf))"
    using f(3) by (rule list.pred_mono_strong) auto
  then show "mmu_read m addr buf = (Inr (), sub_slice (mmu_mem m) off (length buf))"
    using f(1,2) by (simp add: mmu_read_def)
qed

end
