(* ===== verification/CowRam.thy ===== *)
theory CowRam
  imports Mmu
begin

text \<open>
  The copy-on-write memory of \<open>crates/fs-mmu/src/lib.rs\<close>: \<open>struct Golden\<close> (an immutable image of
  an MMU's two planes), \<open>struct CowRam\<close> (a per-lane view that reads through to the image and
  clones a 4 KiB page on its first write) and the bitmap \<open>struct SharedDirty\<close>.  The abstraction
  \<open>cow_flat\<close> flattens a view into the memory of \<open>Mmu\<close>; every access of the view is shown to be
  the access of the flat memory under it, so that the view inherits both contracts of \<open>Bus\<close>.
  \<open>Arc\<close> sharing is value sharing here: nothing ever writes the image.
\<close>

section \<open>The golden image\<close>

definition PAGE_SIZE :: nat where "PAGE_SIZE = 4096"
definition SENTINEL :: u32 where "SENTINEL = 0xFFFFFFFF"

record golden =
  g_base :: u32
  g_mem :: "u8 list"
  g_perms :: "u8 list"

definition from_mmu :: "mmu \<Rightarrow> golden" where
  "from_mmu m = (case planes m of (mem, perms) \<Rightarrow>
     \<lparr>g_base = mmu_base m, g_mem = mem, g_perms = perms\<rparr>)"

definition g_size :: "golden \<Rightarrow> nat" where
  "g_size g = length (g_mem g)"

definition num_pages :: "golden \<Rightarrow> nat" where
  "num_pages g = div_ceil (length (g_mem g)) PAGE_SIZE"

definition page_mem :: "golden \<Rightarrow> nat \<Rightarrow> u8 list" where
  "page_mem g pn =
     (let start = pn * PAGE_SIZE; e = min (start + PAGE_SIZE) (length (g_mem g)) in
      sub_slice (g_mem g) start (e - start))"

definition page_perms :: "golden \<Rightarrow> nat \<Rightarrow> u8 list" where
  "page_perms g pn =
     (let start = pn * PAGE_SIZE; e = min (start + PAGE_SIZE) (length (g_perms g)) in
      sub_slice (g_perms g) start (e - start))"

definition golden_offset :: "golden \<Rightarrow> u32 \<Rightarrow> nat option" where
  "golden_offset g addr =
     (if addr < g_base g then None
      else let off = unat (addr - g_base g) in
           if off < length (g_mem g) then Some off else None)"

definition golden_read_u8 :: "golden \<Rightarrow> u32 \<Rightarrow> u8 option" where
  "golden_read_u8 g addr =
     (case golden_offset g addr of
        None \<Rightarrow> None
      | Some off \<Rightarrow> if g_perms g ! off AND PERM_READ = 0 then None else Some (g_mem g ! off))"

definition golden_read_u16 :: "golden \<Rightarrow> u32 \<Rightarrow> u16 option" where
  "golden_read_u16 g addr =
     (if addr mod 2 \<noteq> 0 then None
      else case golden_offset g addr of
        None \<Rightarrow> None
      | Some off \<Rightarrow>
          if off + 2 > length (g_mem g) then None
          else if \<not> list_all (\<lambda>p. p AND PERM_READ \<noteq> 0) (sub_slice (g_perms g) off 2) then None
          else Some (u16_from_le (sub_slice (g_mem g) off 2)))"

definition golden_read_u32 :: "golden \<Rightarrow> u32 \<Rightarrow> u32 option" where
  "golden_read_u32 g addr =
     (if addr mod 4 \<noteq> 0 then None
      else case golden_offset g addr of
        None \<Rightarrow> None
      | Some off \<Rightarrow>
          if off + 4 > length (g_mem g) then None
          else if \<not> list_all (\<lambda>p. p AND PERM_READ \<noteq> 0) (sub_slice (g_perms g) off 4) then None
          else Some (u32_from_le (sub_slice (g_mem g) off 4)))"

definition golden_read_sized :: "golden \<Rightarrow> u32 \<Rightarrow> nat \<Rightarrow> u32 option" where
  "golden_read_sized g addr sz =
     (if sz = 1 then map_option ucast (golden_read_u8 g addr)
      else if sz = 2 then map_option ucast (golden_read_u16 g addr)
      else golden_read_u32 g addr)"

definition golden_fetch_u16 :: "golden \<Rightarrow> u32 \<Rightarrow> u16 option" where
  "golden_fetch_u16 g addr =
     (if addr mod 2 \<noteq> 0 then None
      else case golden_offset g addr of
        None \<Rightarrow> None
      | Some off \<Rightarrow>
          if off + 2 > length (g_mem g) then None
          else if \<not> list_all (\<lambda>p. p AND PERM_EXEC \<noteq> 0) (sub_slice (g_perms g) off 2) then None
          else Some (u16_from_le (sub_slice (g_mem g) off 2)))"

section \<open>The copy-on-write view\<close>

record cow_page =
  pg_mem :: "u8 list"
  pg_perms :: "u8 list"

record cow_ram =
  cow_golden :: golden
  cow_dir :: "u32 list"
  cow_pages :: "cow_page list"
  cow_dirty :: "u32 list"

definition cow_new :: "golden \<Rightarrow> cow_ram" where
  "cow_new g = \<lparr>cow_golden = g, cow_dir = replicate (num_pages g) SENTINEL, cow_pages = [],
     cow_dirty = []\<rparr>"

definition cow_offset :: "cow_ram \<Rightarrow> u32 \<Rightarrow> nat option" where
  "cow_offset c addr =
     (let base = g_base (cow_golden c) in
      if addr < base then None
      else let off = unat (addr - base) in
           if off < g_size (cow_golden c) then Some off else None)"

definition resolve :: "cow_ram \<Rightarrow> nat \<Rightarrow> u8 list \<times> u8 list" where
  "resolve c pn =
     (let slot = cow_dir c ! pn in
      if slot = SENTINEL then (page_mem (cow_golden c) pn, page_perms (cow_golden c) pn)
      else (pg_mem (cow_pages c ! unat slot), pg_perms (cow_pages c ! unat slot)))"

definition ensure_page :: "cow_ram \<Rightarrow> nat \<Rightarrow> nat \<times> cow_ram" where
  "ensure_page c pn =
     (let slot = cow_dir c ! pn in
      if slot \<noteq> SENTINEL then (unat slot, c)
      else
        let gmem = page_mem (cow_golden c) pn;
            gperms = page_perms (cow_golden c) pn;
            page = \<lparr>pg_mem = blit (replicate PAGE_SIZE 0) 0 gmem,
                    pg_perms = blit (replicate PAGE_SIZE 0) 0 gperms\<rparr>;
            idx = length (cow_pages c)
        in (idx, c\<lparr>cow_pages := cow_pages c @ [page],
                   cow_dir := (cow_dir c)[pn := of_nat idx],
                   cow_dirty := cow_dirty c @ [of_nat pn]\<rparr>))"

definition cow_perm_at :: "cow_ram \<Rightarrow> u32 \<Rightarrow> u8 option" where
  "cow_perm_at c addr =
     map_option (\<lambda>off. snd (resolve c (off div PAGE_SIZE)) ! (off mod PAGE_SIZE)) (cow_offset c addr)"

fun cow_read_loop ::
  "cow_ram \<Rightarrow> access \<Rightarrow> u8 \<Rightarrow> u32 \<Rightarrow> u32 \<Rightarrow> nat \<Rightarrow> u8 list \<Rightarrow> (fault + unit) \<times> u8 list" where
  "cow_read_loop c ac need addr len i [] = (Inr (), [])"
| "cow_read_loop c ac need addr len i (out # rest) =
     (let a = addr + of_nat i in
      case cow_offset c a of
        None \<Rightarrow> (Inl (mk_fault a len ac Unmapped), out # rest)
      | Some off \<Rightarrow>
          (case resolve c (off div PAGE_SIZE) of (mem, perms) \<Rightarrow>
             if perms ! (off mod PAGE_SIZE) AND need = 0
             then (Inl (mk_fault a len ac Permission), out # rest)
             else (case cow_read_loop c ac need addr len (Suc i) rest of
                     (r, rest') \<Rightarrow> (r, mem ! (off mod PAGE_SIZE) # rest'))))"

definition cow_read_bytewise :: "cow_ram \<Rightarrow> u32 \<Rightarrow> u8 list \<Rightarrow> (fault + unit) \<times> u8 list" where
  "cow_read_bytewise c addr buf = cow_read_loop c Read PERM_READ addr (of_nat (length buf)) 0 buf"

definition cow_read :: "cow_ram \<Rightarrow> u32 \<Rightarrow> u8 list \<Rightarrow> (fault + unit) \<times> u8 list" where
  "cow_read c addr buf =
     (let len = length buf in
      case cow_offset c addr of
        None \<Rightarrow> cow_read_bytewise c addr buf
      | Some off \<Rightarrow>
          let pn = off div PAGE_SIZE; po = off mod PAGE_SIZE in
          if off + len \<le> g_size (cow_golden c) \<and> po + len \<le> PAGE_SIZE \<and>
             list_all (\<lambda>p. p AND PERM_READ \<noteq> 0) (sub_slice (snd (resolve c pn)) po len)
          then (Inr (), sub_slice (fst (resolve c pn)) po len)
          else cow_read_bytewise c addr buf)"

definition page_put :: "nat \<Rightarrow> u8 list \<Rightarrow> cow_page \<Rightarrow> cow_page" where
  "page_put po data pg =
     pg\<lparr>pg_mem := blit (pg_mem pg) po data,
        pg_perms := blit (pg_perms pg) po
          (map raw_to_read (sub_slice (pg_perms pg) po (length data)))\<rparr>"

fun cow_write_loop :: "u32 \<Rightarrow> u32 \<Rightarrow> nat \<Rightarrow> u8 list \<Rightarrow> cow_ram \<Rightarrow> (fault + unit) \<times> cow_ram" where
  "cow_write_loop addr len i [] c = (Inr (), c)"
| "cow_write_loop addr len i (b # bs) c =
     (let a = addr + of_nat i in
      case cow_offset c a of
        None \<Rightarrow> (Inl (mk_fault a len Write Unmapped), c)
      | Some off \<Rightarrow>
          let pn = off div PAGE_SIZE; po = off mod PAGE_SIZE in
          if snd (resolve c pn) ! po AND PERM_WRITE = 0
          then (Inl (mk_fault a len Write Permission), c)
          else
            (case ensure_page c pn of (idx, c1) \<Rightarrow>
               let pg = cow_pages c1 ! idx;
                   pg1 = pg\<lparr>pg_mem := (pg_mem pg)[po := b],
                            pg_perms := (pg_perms pg)[po := raw_to_read (pg_perms pg ! po)]\<rparr>
               in cow_write_loop addr len (Suc i) bs
                    (c1\<lparr>cow_pages := (cow_pages c1)[idx := pg1]\<rparr>)))"

definition cow_write_bytewise :: "cow_ram \<Rightarrow> u32 \<Rightarrow> u8 list \<Rightarrow> (fault + unit) \<times> cow_ram" where
  "cow_write_bytewise c addr data = cow_write_loop addr (of_nat (length data)) 0 data c"

definition cow_write :: "cow_ram \<Rightarrow> u32 \<Rightarrow> u8 list \<Rightarrow> (fault + unit) \<times> cow_ram" where
  "cow_write c addr data =
     (let len = length data in
      case cow_offset c addr of
        None \<Rightarrow> cow_write_bytewise c addr data
      | Some off \<Rightarrow>
          let pn = off div PAGE_SIZE; po = off mod PAGE_SIZE in
          if off + len \<le> g_size (cow_golden c) \<and> po + len \<le> PAGE_SIZE \<and>
             list_all (\<lambda>p. p AND PERM_WRITE \<noteq> 0) (sub_slice (snd (resolve c pn)) po len)
          then
            (case ensure_page c pn of (idx, c1) \<Rightarrow>
               (Inr (), c1\<lparr>cow_pages := (cow_pages c1)[idx := page_put po data (cow_pages c1 ! idx)]\<rparr>))
          else cow_write_bytewise c addr data)"

definition cow_read_u8 :: "cow_ram \<Rightarrow> u32 \<Rightarrow> fault + u8" where
  "cow_read_u8 c addr = (case cow_read c addr [0] of (r, b) \<Rightarrow> map_ok (\<lambda>_. b ! 0) r)"

definition cow_read_u16 :: "cow_ram \<Rightarrow> u32 \<Rightarrow> fault + u16" where
  "cow_read_u16 c addr = bindE (check_align addr 2 Read) (\<lambda>_.
     case cow_read c addr [0, 0] of (r, b) \<Rightarrow> map_ok (\<lambda>_. u16_from_le b) r)"

definition cow_read_u32 :: "cow_ram \<Rightarrow> u32 \<Rightarrow> fault + u32" where
  "cow_read_u32 c addr = bindE (check_align addr 4 Read) (\<lambda>_.
     case cow_read c addr [0, 0, 0, 0] of (r, b) \<Rightarrow> map_ok (\<lambda>_. u32_from_le b) r)"

definition cow_write_u8 :: "cow_ram \<Rightarrow> u32 \<Rightarrow> u8 \<Rightarrow> (fault + unit) \<times> cow_ram" where
  "cow_write_u8 c addr v = cow_write c addr [v]"

definition cow_write_u16 :: "cow_ram \<Rightarrow> u32 \<Rightarrow> u16 \<Rightarrow> (fault + unit) \<times> cow_ram" where
  "cow_write_u16 c addr v =
     bindR (check_align addr 2 Write, c) (\<lambda>_ c. cow_write c addr (u16_to_le v))"

definition cow_write_u32 :: "cow_ram \<Rightarrow> u32 \<Rightarrow> u32 \<Rightarrow> (fault + unit) \<times> cow_ram" where
  "cow_write_u32 c addr v =
     bindR (check_align addr 4 Write, c) (\<lambda>_ c. cow_write c addr (u32_to_le v))"

definition cow_fetch_bytes :: "nat \<Rightarrow> cow_ram \<Rightarrow> u32 \<Rightarrow> fault + u8 list" where
  "cow_fetch_bytes n c addr =
     (let slow = (case cow_read_loop c Exec PERM_EXEC addr (of_nat n) 0 (replicate n 0) of
                    (r, b) \<Rightarrow> map_ok (\<lambda>_. b) r) in
      case cow_offset c addr of
        None \<Rightarrow> slow
      | Some off \<Rightarrow>
          let pn = off div PAGE_SIZE; po = off mod PAGE_SIZE in
          if off + n \<le> g_size (cow_golden c) \<and> po + n \<le> PAGE_SIZE \<and>
             list_all (\<lambda>p. p AND PERM_EXEC \<noteq> 0) (sub_slice (snd (resolve c pn)) po n)
          then Inr (sub_slice (fst (resolve c pn)) po n)
          else slow)"

definition cow_fetch_u16 :: "cow_ram \<Rightarrow> u32 \<Rightarrow> fault + u16" where
  "cow_fetch_u16 c addr =
     bindE (check_align addr 2 Exec) (\<lambda>_. map_ok u16_from_le (cow_fetch_bytes 2 c addr))"

definition cow_fetch_u32 :: "cow_ram \<Rightarrow> u32 \<Rightarrow> fault + u32" where
  "cow_fetch_u32 c addr =
     bindE (check_align addr 4 Exec) (\<lambda>_. map_ok u32_from_le (cow_fetch_bytes 4 c addr))"

text \<open>A host pointer into the view: into the shared image or into a private page.\<close>

datatype cow_ptr = GoldenPtr nat | OverlayPtr nat nat

definition cow_fast_ptr :: "cow_ram \<Rightarrow> u32 \<Rightarrow> nat \<Rightarrow> u8 \<Rightarrow> cow_ptr option \<times> cow_ram" where
  "cow_fast_ptr c addr len need =
     (case cow_offset c addr of
        None \<Rightarrow> (None, c)
      | Some off \<Rightarrow>
          let pn = off div PAGE_SIZE; po = off mod PAGE_SIZE; e = off + len in
          if e > g_size (cow_golden c) \<or> po + len > PAGE_SIZE then (None, c)
          else if \<not> list_all (\<lambda>p. p AND need = need \<and> p AND FAST_PTR_FORBIDDEN = 0)
                       (sub_slice (snd (resolve c pn)) po len) then (None, c)
          else if need AND PERM_WRITE \<noteq> 0 then
            (case ensure_page c pn of (idx, c1) \<Rightarrow> (Some (OverlayPtr idx po), c1))
          else (Some (if cow_dir c ! pn = SENTINEL then GoldenPtr off
                      else OverlayPtr (unat (cow_dir c ! pn)) po), c))"

definition cow_read_raw_state :: "cow_ram \<Rightarrow> u32 \<Rightarrow> nat \<Rightarrow> u32" where
  "cow_read_raw_state c addr len =
     fold (\<lambda>i acc. case cow_offset c (addr + of_nat i) of
             None \<Rightarrow> acc
           | Some off \<Rightarrow>
               let pn = off div PAGE_SIZE; po = off mod PAGE_SIZE in
               if po \<ge> PAGE_SIZE then acc
               else if snd (resolve c pn) ! po AND (PERM_RAW OR PERM_VTAINT) \<noteq> 0
               then acc OR push_bit (8 * i) 1 else acc)
       [0 ..< min len 4] 0"

definition page_shadow :: "nat \<Rightarrow> u32 \<Rightarrow> nat \<Rightarrow> cow_page \<Rightarrow> cow_page" where
  "page_shadow po taint_mask i pg =
     pg\<lparr>pg_perms := (pg_perms pg)[po + i :=
         set_vtaint_bit (drop_bit (8 * i) taint_mask AND 1 \<noteq> 0) (pg_perms pg ! (po + i))]\<rparr>"

definition cow_write_shadow :: "cow_ram \<Rightarrow> u32 \<Rightarrow> nat \<Rightarrow> u32 \<Rightarrow> cow_ram" where
  "cow_write_shadow c addr len taint_mask =
     (case cow_offset c addr of
        None \<Rightarrow> c
      | Some off \<Rightarrow>
          let pn = off div PAGE_SIZE; po = off mod PAGE_SIZE; n = min len 4 in
          if po + n > PAGE_SIZE then c
          else (case ensure_page c pn of (idx, c1) \<Rightarrow>
                  c1\<lparr>cow_pages := (cow_pages c1)[idx :=
                       fold (page_shadow po taint_mask) [0 ..< n] (cow_pages c1 ! idx)]\<rparr>))"

definition cow_load :: "cow_ram \<Rightarrow> u32 \<Rightarrow> nat \<Rightarrow> fault + u32" where
  "cow_load c addr sz =
     (if sz = 1 then map_ok ucast (cow_read_u8 c addr)
      else if sz = 2 then map_ok ucast (cow_read_u16 c addr)
      else cow_read_u32 c addr)"

definition cow_store :: "cow_ram \<Rightarrow> u32 \<Rightarrow> nat \<Rightarrow> u32 \<Rightarrow> (fault + unit) \<times> cow_ram" where
  "cow_store c addr sz val =
     (if sz = 1 then cow_write_u8 c addr (ucast val)
      else if sz = 2 then cow_write_u16 c addr (ucast val)
      else cow_write_u32 c addr val)"

definition cow_ifetch16 :: "cow_ram \<Rightarrow> u32 \<Rightarrow> fault + u16" where
  "cow_ifetch16 c addr = cow_fetch_u16 c addr"

definition cow_reset :: "cow_ram \<Rightarrow> cow_ram" where
  "cow_reset c = c\<lparr>cow_dir := fold (\<lambda>pn d. d[unat pn := SENTINEL]) (cow_dirty c) (cow_dir c),
     cow_pages := [], cow_dirty := []\<rparr>"

definition is_overlaid :: "cow_ram \<Rightarrow> nat \<Rightarrow> bool" where
  "is_overlaid c pn \<longleftrightarrow> pn < length (cow_dir c) \<and> cow_dir c ! pn \<noteq> SENTINEL"

text \<open>
  The view behind the bus-shaped calls of \<open>CowMachine\<close>: \<open>CowRam\<close> has no \<open>impl Bus\<close> of its own,
  the machine forwards each method to the function of the same name.
\<close>

definition cow_bus :: "cow_ram bus" where
  "cow_bus = \<lparr>bus_load = (\<lambda>c a sz. (cow_load c a sz, c)), bus_store = cow_store,
     bus_ifetch16 = (\<lambda>c a. (cow_ifetch16 c a, c)), bus_read_raw_state = cow_read_raw_state,
     bus_write_shadow = cow_write_shadow, bus_store_may_assert_interrupt = (\<lambda>_ _ _. False)\<rparr>"

section \<open>The cross-lane dirty bitmap\<close>

definition shared_new :: "nat \<Rightarrow> u64 list" where
  "shared_new n = replicate (div_ceil n 64) 0"

definition shared_set :: "nat \<Rightarrow> u64 list \<Rightarrow> u64 list" where
  "shared_set pn s = (let w = pn div 64; b = pn mod 64 in s[w := s ! w OR push_bit b 1])"

definition shared_bit :: "u64 list \<Rightarrow> nat \<Rightarrow> bool" where
  "shared_bit s pn = (let w = pn div 64; b = pn mod 64 in s ! w AND push_bit b 1 \<noteq> 0)"

definition shared_clear_pages :: "u32 list \<Rightarrow> u64 list \<Rightarrow> u64 list" where
  "shared_clear_pages pns s =
     fold (\<lambda>pn s. let w = unat pn div 64; b = unat pn mod 64 in
                  s[w := s ! w AND NOT (push_bit b 1)]) pns s"

section \<open>Well-formedness\<close>

text \<open>
  The image has planes of one length inside the address space and a word-aligned base; the
  directory has an entry per page; an overlaid page's entry and the list of overlaid pages are
  inverse to each other; every private page is a whole page.
\<close>

definition golden_wf :: "golden \<Rightarrow> bool" where
  "golden_wf g \<longleftrightarrow> length (g_perms g) = length (g_mem g) \<and>
     unat (g_base g) + length (g_mem g) \<le> 4294967296 \<and> unat (g_base g) mod 4 = 0"

definition cow_wf :: "cow_ram \<Rightarrow> bool" where
  "cow_wf c \<longleftrightarrow> golden_wf (cow_golden c) \<and>
     length (cow_dir c) = num_pages (cow_golden c) \<and>
     length (cow_dirty c) = length (cow_pages c) \<and> distinct (cow_dirty c) \<and>
     (\<forall>pg \<in> set (cow_pages c). length (pg_mem pg) = PAGE_SIZE \<and> length (pg_perms pg) = PAGE_SIZE) \<and>
     (\<forall>k < length (cow_dirty c). unat (cow_dirty c ! k) < num_pages (cow_golden c) \<and>
        cow_dir c ! unat (cow_dirty c ! k) = of_nat k) \<and>
     (\<forall>pn < num_pages (cow_golden c). cow_dir c ! pn \<noteq> SENTINEL \<longrightarrow>
        unat (cow_dir c ! pn) < length (cow_pages c) \<and> cow_dirty c ! unat (cow_dir c ! pn) = of_nat pn)"

lemma cow_wfD:
  assumes "cow_wf c"
  shows "golden_wf (cow_golden c)" "length (cow_dir c) = num_pages (cow_golden c)"
    "length (cow_dirty c) = length (cow_pages c)"
    "k < length (cow_pages c) \<Longrightarrow>
       length (pg_mem (cow_pages c ! k)) = PAGE_SIZE \<and> length (pg_perms (cow_pages c ! k)) = PAGE_SIZE"
    "k < length (cow_dirty c) \<Longrightarrow> unat (cow_dirty c ! k) < num_pages (cow_golden c)"
    "k < length (cow_dirty c) \<Longrightarrow> cow_dir c ! unat (cow_dirty c ! k) = of_nat k"
    "pn < num_pages (cow_golden c) \<Longrightarrow> cow_dir c ! pn \<noteq> SENTINEL \<Longrightarrow>
       unat (cow_dir c ! pn) < length (cow_pages c)"
    "pn < num_pages (cow_golden c) \<Longrightarrow> cow_dir c ! pn \<noteq> SENTINEL \<Longrightarrow>
       cow_dirty c ! unat (cow_dir c ! pn) = of_nat pn"
  using assms by (simp_all add: cow_wf_def)

lemma num_pages_le:
  assumes "golden_wf g" shows "num_pages g \<le> 1048576"
proof -
  have "length (g_mem g) \<le> 4294967296" using assms by (simp add: golden_wf_def)
  then have "(length (g_mem g) + 4096 - 1) div 4096 \<le> (4294967296 + 4096 - 1) div 4096"
    by (intro div_le_mono) simp
  then show ?thesis by (simp add: num_pages_def div_ceil_def PAGE_SIZE_def)
qed

text \<open>The overlaid pages are distinct pages of the window, so every slot number is small.\<close>

lemma cow_slots_le:
  assumes wf: "cow_wf c" shows "length (cow_pages c) \<le> num_pages (cow_golden c)"
proof -
  have "unat ` set (cow_dirty c) \<subseteq> {..< num_pages (cow_golden c)}"
    using cow_wfD(5) [OF wf] by (auto simp: in_set_conv_nth)
  then have "card (unat ` set (cow_dirty c)) \<le> num_pages (cow_golden c)"
    by (rule card_mono [OF finite_lessThan, simplified])
  moreover have "card (unat ` set (cow_dirty c)) = length (cow_dirty c)"
  proof -
    have "inj_on unat (set (cow_dirty c))" by (rule inj_onI) (simp add: word_unat_eq_iff)
    moreover have "distinct (cow_dirty c)" using wf by (simp add: cow_wf_def)
    ultimately show ?thesis by (simp add: card_image distinct_card)
  qed
  ultimately show ?thesis using cow_wfD(3) [OF wf] by simp
qed

lemma of_nat_slot:
  assumes "k \<le> 1048576"
  shows "(of_nat k :: u32) \<noteq> SENTINEL" "unat (of_nat k :: u32) = k"
proof -
  show u: "unat (of_nat k :: u32) = k" using assms by simp
  show "(of_nat k :: u32) \<noteq> SENTINEL"
  proof
    assume "(of_nat k :: u32) = SENTINEL"
    then have "k = unat SENTINEL" using u by simp
    with assms show False by (simp add: SENTINEL_def)
  qed
qed

lemma cow_slot_bound:
  assumes "cow_wf c" "k \<le> length (cow_pages c)"
  shows "(of_nat k :: u32) \<noteq> SENTINEL" "unat (of_nat k :: u32) = k"
  using of_nat_slot [of k] cow_slots_le [OF assms(1)] num_pages_le [OF cow_wfD(1) [OF assms(1)]]
    assms(2) by simp_all

lemma cow_page_bound:
  assumes "cow_wf c" "pn < num_pages (cow_golden c)"
  shows "unat (of_nat pn :: u32) = pn"
  using of_nat_slot [of pn] num_pages_le [OF cow_wfD(1) [OF assms(1)]] assms(2) by simp

lemma cow_new_wf [wf_intros]: "golden_wf g \<Longrightarrow> cow_wf (cow_new g)"
  by (simp add: cow_wf_def cow_new_def)

lemma golden_wf_from_mmu:
  "mmu_wf m \<Longrightarrow> unat (mmu_base m) mod 4 = 0 \<Longrightarrow> golden_wf (from_mmu m)"
  by (simp add: golden_wf_def from_mmu_def planes_def mmu_wf_def)

section \<open>The flattened view\<close>

definition cow_mem_at :: "cow_ram \<Rightarrow> nat \<Rightarrow> u8" where
  "cow_mem_at c off = fst (resolve c (off div PAGE_SIZE)) ! (off mod PAGE_SIZE)"

definition cow_perm_byte :: "cow_ram \<Rightarrow> nat \<Rightarrow> u8" where
  "cow_perm_byte c off = snd (resolve c (off div PAGE_SIZE)) ! (off mod PAGE_SIZE)"

definition cow_flat :: "cow_ram \<Rightarrow> mmu" where
  "cow_flat c = \<lparr>mmu_base = g_base (cow_golden c),
     mmu_mem = map (cow_mem_at c) [0 ..< g_size (cow_golden c)],
     mmu_perms = map (cow_perm_byte c) [0 ..< g_size (cow_golden c)],
     mmu_track_dirty = False, mmu_dirty = [], mmu_dirty_bitmap = []\<rparr>"

lemma cow_flat_sel [simp]:
  "mmu_base (cow_flat c) = g_base (cow_golden c)"
  "length (mmu_mem (cow_flat c)) = g_size (cow_golden c)"
  "length (mmu_perms (cow_flat c)) = g_size (cow_golden c)"
  "off < g_size (cow_golden c) \<Longrightarrow> mmu_mem (cow_flat c) ! off = cow_mem_at c off"
  "off < g_size (cow_golden c) \<Longrightarrow> mmu_perms (cow_flat c) ! off = cow_perm_byte c off"
  "mmu_track_dirty (cow_flat c) = False"
  by (simp_all add: cow_flat_def)

lemma offset_cow_flat [simp]: "offset (cow_flat c) a = cow_offset c a"
  by (simp add: offset_def cow_offset_def Let_def)

lemma cow_flat_wf: "golden_wf (cow_golden c) \<Longrightarrow> mmu_wf (cow_flat c)"
  by (simp add: mmu_wf_def golden_wf_def g_size_def)

lemma cow_flat_eqI:
  assumes "cow_golden c' = cow_golden c"
    "\<And>off. off < g_size (cow_golden c) \<Longrightarrow> cow_mem_at c' off = mmu_mem m ! off"
    "\<And>off. off < g_size (cow_golden c) \<Longrightarrow> cow_perm_byte c' off = mmu_perms m ! off"
    "mmu_base m = g_base (cow_golden c)" "length (mmu_mem m) = g_size (cow_golden c)"
    "length (mmu_perms m) = g_size (cow_golden c)"
    "\<not> mmu_track_dirty m" "mmu_dirty m = []" "mmu_dirty_bitmap m = []"
  shows "cow_flat c' = m"
  using assms by (intro mmu.equality) (auto simp: cow_flat_def intro!: nth_equalityI)

lemma page_of_off: "off < g_size g \<Longrightarrow> off div PAGE_SIZE < num_pages g"
  by (simp add: num_pages_def g_size_def div_less_div_ceil PAGE_SIZE_def)

lemma div_mod_page: "off div PAGE_SIZE * PAGE_SIZE + off mod PAGE_SIZE = off"
  by simp

lemma po_lt [simp]: "off mod PAGE_SIZE < PAGE_SIZE" "\<not> PAGE_SIZE \<le> off mod PAGE_SIZE"
  by (simp_all add: PAGE_SIZE_def)

text \<open>A golden page read at an in-window index gives the byte of the image there.\<close>

lemma nth_golden_page:
  assumes "golden_wf g" "off < g_size g"
  shows "page_mem g (off div PAGE_SIZE) ! (off mod PAGE_SIZE) = g_mem g ! off"
    "page_perms g (off div PAGE_SIZE) ! (off mod PAGE_SIZE) = g_perms g ! off"
    "off mod PAGE_SIZE < length (page_mem g (off div PAGE_SIZE))"
    "length (page_perms g (off div PAGE_SIZE)) = length (page_mem g (off div PAGE_SIZE))"
    "length (page_mem g (off div PAGE_SIZE)) \<le> PAGE_SIZE"
proof -
  let ?s = "off div PAGE_SIZE * PAGE_SIZE"
  let ?n = "min (?s + PAGE_SIZE) (length (g_mem g)) - ?s"
  have lens: "length (g_perms g) = length (g_mem g)" "off < length (g_mem g)"
    using assms by (simp_all add: golden_wf_def g_size_def)
  have sum: "?s + off mod PAGE_SIZE = off" by simp
  have n: "off mod PAGE_SIZE < ?n" "?s + ?n \<le> length (g_mem g)" "?n \<le> PAGE_SIZE"
    using sum lens(2) po_lt(1) [of off] by linarith+
  show "page_mem g (off div PAGE_SIZE) ! (off mod PAGE_SIZE) = g_mem g ! off"
    "page_perms g (off div PAGE_SIZE) ! (off mod PAGE_SIZE) = g_perms g ! off"
    "off mod PAGE_SIZE < length (page_mem g (off div PAGE_SIZE))"
    "length (page_perms g (off div PAGE_SIZE)) = length (page_mem g (off div PAGE_SIZE))"
    "length (page_mem g (off div PAGE_SIZE)) \<le> PAGE_SIZE"
    using n lens(1) by (simp_all add: page_mem_def page_perms_def Let_def)
qed

text \<open>A slice of a page that stays inside the window is the slice of the flat planes.\<close>

lemma page_slice:
  assumes "off + n \<le> g_size (cow_golden c)" "off mod PAGE_SIZE + n \<le> PAGE_SIZE" "k < n"
  shows "fst (resolve c (off div PAGE_SIZE)) ! (off mod PAGE_SIZE + k) = cow_mem_at c (off + k)"
    "snd (resolve c (off div PAGE_SIZE)) ! (off mod PAGE_SIZE + k) = cow_perm_byte c (off + k)"
proof -
  have "(off + k) div PAGE_SIZE = off div PAGE_SIZE \<and> (off + k) mod PAGE_SIZE = off mod PAGE_SIZE + k"
    using assms(2,3) div_add1_eq [of off k PAGE_SIZE] mod_add_eq [of off PAGE_SIZE k]
    unfolding PAGE_SIZE_def by simp
  then show "fst (resolve c (off div PAGE_SIZE)) ! (off mod PAGE_SIZE + k) = cow_mem_at c (off + k)"
    "snd (resolve c (off div PAGE_SIZE)) ! (off mod PAGE_SIZE + k) = cow_perm_byte c (off + k)"
    by (simp_all add: cow_mem_at_def cow_perm_byte_def)
qed

section \<open>Reads of the view are reads of the flattened memory\<close>

lemma cow_read_loop_flat:
  "cow_read_loop c ac need addr len i buf = read_loop (cow_flat c) ac need addr len i buf"
proof (induction buf arbitrary: i)
  case Nil
  then show ?case by simp
next
  case (Cons b buf)
  have "off < g_size (cow_golden c)" if "cow_offset c (addr + of_nat i) = Some off" for off
    using that offset_less [of "cow_flat c" "addr + of_nat i"] by simp
  with Cons show ?case
    by (auto simp: Let_def cow_mem_at_def cow_perm_byte_def split: option.splits prod.splits)
qed

lemma cow_slice_flat:
  assumes "cow_wf c" "off < g_size (cow_golden c)" "off + n \<le> g_size (cow_golden c)"
    "off mod PAGE_SIZE + n \<le> PAGE_SIZE"
  shows "sub_slice (fst (resolve c (off div PAGE_SIZE))) (off mod PAGE_SIZE) n =
      sub_slice (mmu_mem (cow_flat c)) off n"
    "sub_slice (snd (resolve c (off div PAGE_SIZE))) (off mod PAGE_SIZE) n =
      sub_slice (mmu_perms (cow_flat c)) off n"
proof -
  have "off mod PAGE_SIZE + n \<le> length (fst (resolve c (off div PAGE_SIZE))) \<and>
      off mod PAGE_SIZE + n \<le> length (snd (resolve c (off div PAGE_SIZE)))"
  proof (cases "cow_dir c ! (off div PAGE_SIZE) = SENTINEL")
    case True
    let ?s = "off div PAGE_SIZE * PAGE_SIZE"
    have "?s + off mod PAGE_SIZE = off" by simp
    then have "off mod PAGE_SIZE + n \<le> min (?s + PAGE_SIZE) (g_size (cow_golden c)) - ?s"
      "?s + (min (?s + PAGE_SIZE) (g_size (cow_golden c)) - ?s) \<le> g_size (cow_golden c)"
      using assms(2-4) by linarith+
    with True cow_wfD(1) [OF assms(1)] show ?thesis
      by (simp add: resolve_def page_mem_def page_perms_def Let_def golden_wf_def g_size_def)
  next
    case False
    then show ?thesis
      using assms(4) cow_wfD(4,7) [OF assms(1)] page_of_off [OF assms(2)]
      by (simp add: resolve_def Let_def)
  qed
  then show "sub_slice (fst (resolve c (off div PAGE_SIZE))) (off mod PAGE_SIZE) n =
      sub_slice (mmu_mem (cow_flat c)) off n"
    "sub_slice (snd (resolve c (off div PAGE_SIZE))) (off mod PAGE_SIZE) n =
      sub_slice (mmu_perms (cow_flat c)) off n"
    using assms(3,4) page_slice [OF assms(3,4)] by (auto intro!: nth_equalityI)
qed

lemma cow_offset_less: "cow_offset c a = Some off \<Longrightarrow> off < g_size (cow_golden c)"
  using offset_less [of "cow_flat c" a off] by simp

lemma cow_read_flat:
  assumes wf: "cow_wf c"
  shows "cow_read c addr buf = mmu_read (cow_flat c) addr buf"
proof (cases "cow_offset c addr")
  case None
  then show ?thesis
    by (simp add: cow_read_def cow_read_bytewise_def mmu_read_def read_bytewise_def Let_def
        cow_read_loop_flat)
next
  case (Some off)
  note fw = cow_flat_wf [OF cow_wfD(1) [OF wf]]
  have slow: "cow_read_bytewise c addr buf = mmu_read (cow_flat c) addr buf"
    by (simp add: cow_read_bytewise_def cow_read_loop_flat mmu_read_eq_bytewise [OF fw]
        read_bytewise_def)
  show ?thesis
  proof (cases "off + length buf \<le> g_size (cow_golden c) \<and> off mod PAGE_SIZE + length buf \<le> PAGE_SIZE")
    case True
    then show ?thesis
      using Some slow cow_slice_flat [OF wf cow_offset_less [OF Some], of "length buf"]
      by (simp add: cow_read_def mmu_read_def Let_def)
  next
    case False
    then have "cow_read c addr buf = cow_read_bytewise c addr buf"
      using Some by (simp add: cow_read_def Let_def) (auto simp: not_le)
    with slow show ?thesis by simp
  qed
qed

lemma cow_fetch_bytes_flat:
  assumes wf: "cow_wf c"
  shows "cow_fetch_bytes n c addr = fetch_bytes n (cow_flat c) addr"
proof (cases "cow_offset c addr")
  case None
  then show ?thesis by (simp add: cow_fetch_bytes_def fetch_bytes_def Let_def cow_read_loop_flat)
next
  case (Some off)
  note fw = cow_flat_wf [OF cow_wfD(1) [OF wf]]
  have slow: "(case cow_read_loop c Exec PERM_EXEC addr (of_nat n) 0 (replicate n 0) of
      (r, b) \<Rightarrow> map_ok (\<lambda>_. b) r) = fetch_bytes n (cow_flat c) addr"
    by (simp only: cow_read_loop_flat read_loop_spec fetch_bytes_spec [OF fw])
  show ?thesis
  proof (cases "off + n \<le> g_size (cow_golden c) \<and> off mod PAGE_SIZE + n \<le> PAGE_SIZE")
    case True
    then show ?thesis
      using Some slow cow_slice_flat [OF wf cow_offset_less [OF Some], of n]
      by (simp add: cow_fetch_bytes_def fetch_bytes_def Let_def)
  next
    case False
    then show ?thesis
      using Some slow unfolding cow_fetch_bytes_def Let_def by auto
  qed
qed

section \<open>Copying a page on its first write\<close>

lemma resolve_overlaid:
  "cow_dir c ! pn \<noteq> SENTINEL \<Longrightarrow>
     resolve c pn = (pg_mem (cow_pages c ! unat (cow_dir c ! pn)), pg_perms (cow_pages c ! unat (cow_dir c ! pn)))"
  by (simp add: resolve_def Let_def)

lemma ensure_page_fresh:
  assumes wf: "cow_wf c" and pn: "pn < num_pages (cow_golden c)" and fresh: "cow_dir c ! pn = SENTINEL"
    and ep: "ensure_page c pn = (idx, c1)"
  shows "cow_wf c1"
proof -
  let ?k = "length (cow_pages c)"
  have dir1: "cow_dir c1 = (cow_dir c)[pn := of_nat ?k]" and g1: "cow_golden c1 = cow_golden c"
    and dirty1: "cow_dirty c1 = cow_dirty c @ [of_nat pn]"
    and pages1: "length (cow_pages c1) = Suc ?k" and old1: "\<And>k. k < ?k \<Longrightarrow> cow_pages c1 ! k = cow_pages c ! k"
    using ep fresh by (auto simp: ensure_page_def Let_def nth_append)
  have notin: "unat (cow_dirty c ! k) \<noteq> pn" if "k < length (cow_dirty c)" for k
    using cow_wfD(3) [OF wf] cow_wfD(6) [OF wf that] fresh that cow_slot_bound(1) [OF wf, of k] by auto
  have newpage: "length (pg_mem (cow_pages c1 ! ?k)) = PAGE_SIZE \<and> length (pg_perms (cow_pages c1 ! ?k)) = PAGE_SIZE"
  proof -
    have "pn * PAGE_SIZE < g_size (cow_golden c)"
      using div_ceil_bound [of pn "length (g_mem (cow_golden c))" PAGE_SIZE] pn
      by (simp add: num_pages_def g_size_def PAGE_SIZE_def)
    then show ?thesis
      using nth_golden_page(4,5) [OF cow_wfD(1) [OF wf], of "pn * PAGE_SIZE"] ep fresh
      by (auto simp: ensure_page_def Let_def nth_append PAGE_SIZE_def)
  qed
  note bnd = cow_slot_bound [OF wf, of ?k] cow_page_bound [OF wf pn] cow_wfD(2,3) [OF wf]
  have "\<forall>k < length (cow_pages c1). length (pg_mem (cow_pages c1 ! k)) = PAGE_SIZE \<and>
      length (pg_perms (cow_pages c1 ! k)) = PAGE_SIZE"
    using newpage old1 cow_wfD(4) [OF wf] by (auto simp: pages1 less_Suc_eq)
  moreover have "distinct (cow_dirty c1)"
  proof -
    have "of_nat pn \<notin> set (cow_dirty c)" using notin bnd(3) by (metis in_set_conv_nth)
    then show ?thesis using wf by (simp add: dirty1 cow_wf_def)
  qed
  moreover have "\<forall>k < length (cow_dirty c1). unat (cow_dirty c1 ! k) < num_pages (cow_golden c1) \<and>
      cow_dir c1 ! unat (cow_dirty c1 ! k) = of_nat k"
    using notin cow_wfD(5,6) [OF wf] bnd pn by (auto simp: dirty1 dir1 g1 less_Suc_eq nth_append nth_list_update)
  moreover have "\<forall>p < num_pages (cow_golden c1). cow_dir c1 ! p \<noteq> SENTINEL \<longrightarrow>
      unat (cow_dir c1 ! p) < length (cow_pages c1) \<and> cow_dirty c1 ! unat (cow_dir c1 ! p) = of_nat p"
  proof (intro allI impI)
    fix p assume p: "p < num_pages (cow_golden c1)" "cow_dir c1 ! p \<noteq> SENTINEL"
    show "unat (cow_dir c1 ! p) < length (cow_pages c1) \<and> cow_dirty c1 ! unat (cow_dir c1 ! p) = of_nat p"
    proof (cases "p = pn")
      case True
      with bnd pn show ?thesis by (simp add: dirty1 dir1 pages1 nth_append)
    next
      case False
      with p cow_wfD(7,8) [OF wf, of p] bnd(5) show ?thesis
        by (simp add: dirty1 dir1 g1 pages1 nth_append)
    qed
  qed
  ultimately show ?thesis
    using cow_wfD(1-3) [OF wf] by (simp add: cow_wf_def all_set_conv_all_nth g1 dir1 dirty1 pages1)
qed

lemma ensure_page_spec:
  assumes wf: "cow_wf c" and pn: "pn < num_pages (cow_golden c)" and ep: "ensure_page c pn = (idx, c1)"
  shows "cow_wf c1" "cow_golden c1 = cow_golden c" "cow_dir c1 ! pn \<noteq> SENTINEL"
    "unat (cow_dir c1 ! pn) = idx" "idx < length (cow_pages c1)"
    "off < g_size (cow_golden c) \<Longrightarrow> cow_mem_at c1 off = cow_mem_at c off"
    "off < g_size (cow_golden c) \<Longrightarrow> cow_perm_byte c1 off = cow_perm_byte c off"
proof -
  have "cow_wf c1 \<and> cow_golden c1 = cow_golden c \<and> cow_dir c1 ! pn \<noteq> SENTINEL \<and>
    unat (cow_dir c1 ! pn) = idx \<and> idx < length (cow_pages c1) \<and>
    (\<forall>off < g_size (cow_golden c). cow_mem_at c1 off = cow_mem_at c off \<and>
       cow_perm_byte c1 off = cow_perm_byte c off)"
  proof (cases "cow_dir c ! pn = SENTINEL")
    case False
    then show ?thesis using wf pn ep cow_wfD(7) [OF wf pn] by (auto simp: ensure_page_def Let_def)
  next
    case True
    let ?k = "length (cow_pages c)" and ?pm = "page_mem (cow_golden c) pn"
      and ?pp = "page_perms (cow_golden c) pn"
    have c1: "idx = ?k" "c1 = c\<lparr>cow_pages := cow_pages c @
          [\<lparr>pg_mem = blit (replicate PAGE_SIZE 0) 0 ?pm, pg_perms = blit (replicate PAGE_SIZE 0) 0 ?pp\<rparr>],
        cow_dir := (cow_dir c)[pn := of_nat ?k], cow_dirty := cow_dirty c @ [of_nat pn]\<rparr>"
      using ep True by (auto simp: ensure_page_def Let_def)
    note bnd = cow_slot_bound [OF wf, of ?k] cow_wfD(2) [OF wf]
    have same: "resolve c1 p = resolve c p" if "p \<noteq> pn" "p < num_pages (cow_golden c)" for p
      using that cow_wfD(7) [OF wf, of p] by (auto simp: c1 resolve_def Let_def nth_append)
    have new: "resolve c1 pn = (blit (replicate PAGE_SIZE 0) 0 ?pm, blit (replicate PAGE_SIZE 0) 0 ?pp)"
      using bnd pn by (simp add: c1 resolve_def Let_def)
    have "cow_mem_at c1 off = cow_mem_at c off \<and> cow_perm_byte c1 off = cow_perm_byte c off"
      if off: "off < g_size (cow_golden c)" for off
    proof (cases "off div PAGE_SIZE = pn")
      case False
      then show ?thesis using same page_of_off [OF off] by (simp add: cow_mem_at_def cow_perm_byte_def)
    next
      case eq: True
      have "resolve c pn = (?pm, ?pp)" using True by (simp add: resolve_def)
      then show ?thesis
        using nth_golden_page(3-5) [OF cow_wfD(1) [OF wf] off] unfolding cow_mem_at_def cow_perm_byte_def
        by (simp add: eq new nth_blit)
    qed
    moreover have "cow_wf c1" by (rule ensure_page_fresh [OF wf pn True ep])
    ultimately show ?thesis using bnd pn by (simp add: c1)
  qed
  then show "cow_wf c1" "cow_golden c1 = cow_golden c" "cow_dir c1 ! pn \<noteq> SENTINEL"
    "unat (cow_dir c1 ! pn) = idx" "idx < length (cow_pages c1)"
    "off < g_size (cow_golden c) \<Longrightarrow> cow_mem_at c1 off = cow_mem_at c off"
    "off < g_size (cow_golden c) \<Longrightarrow> cow_perm_byte c1 off = cow_perm_byte c off"
    by simp_all
qed

text \<open>Replacing the private page of \<open>pn\<close> changes the flattened view inside that page only.\<close>

definition set_page :: "nat \<Rightarrow> cow_page \<Rightarrow> cow_ram \<Rightarrow> cow_ram" where
  "set_page idx pg c = c\<lparr>cow_pages := (cow_pages c)[idx := pg]\<rparr>"

lemma set_page_sel [simp]:
  "cow_golden (set_page idx pg c) = cow_golden c" "cow_dir (set_page idx pg c) = cow_dir c"
  "cow_dirty (set_page idx pg c) = cow_dirty c"
  "cow_pages (set_page idx pg c) = (cow_pages c)[idx := pg]"
  by (simp_all add: set_page_def)

lemma set_page_wf [wf_intros]:
  assumes "cow_wf c" "length (pg_mem pg) = PAGE_SIZE" "length (pg_perms pg) = PAGE_SIZE"
  shows "cow_wf (set_page idx pg c)"
  using assms by (auto simp: cow_wf_def dest: set_update_subset_insert [THEN subsetD])

lemma set_page_at:
  assumes wf: "cow_wf c" and slot: "cow_dir c ! pn \<noteq> SENTINEL" "pn < num_pages (cow_golden c)"
    and off: "off < g_size (cow_golden c)"
  shows "cow_mem_at (set_page (unat (cow_dir c ! pn)) pg c) off =
      (if off div PAGE_SIZE = pn then pg_mem pg ! (off mod PAGE_SIZE) else cow_mem_at c off)"
    "cow_perm_byte (set_page (unat (cow_dir c ! pn)) pg c) off =
      (if off div PAGE_SIZE = pn then pg_perms pg ! (off mod PAGE_SIZE) else cow_perm_byte c off)"
proof -
  let ?p = "off div PAGE_SIZE"
  have bnd: "unat (cow_dir c ! pn) < length (cow_pages c)" by (rule cow_wfD(7) [OF wf slot(2,1)])
  have p: "?p < num_pages (cow_golden c)" by (rule page_of_off [OF off])
  have inj: "?p = pn" if "cow_dir c ! ?p \<noteq> SENTINEL" "unat (cow_dir c ! ?p) = unat (cow_dir c ! pn)"
  proof -
    have "(of_nat ?p :: u32) = of_nat pn"
      using cow_wfD(8) [OF wf p that(1)] cow_wfD(8) [OF wf slot(2,1)] that(2) by simp
    then show ?thesis using cow_page_bound [OF wf p] cow_page_bound [OF wf slot(2)] by metis
  qed
  show "cow_mem_at (set_page (unat (cow_dir c ! pn)) pg c) off =
      (if ?p = pn then pg_mem pg ! (off mod PAGE_SIZE) else cow_mem_at c off)"
    "cow_perm_byte (set_page (unat (cow_dir c ! pn)) pg c) off =
      (if ?p = pn then pg_perms pg ! (off mod PAGE_SIZE) else cow_perm_byte c off)"
    using inj slot(1) bnd
    by (auto simp: cow_mem_at_def cow_perm_byte_def resolve_def Let_def nth_list_update)
qed

text \<open>The same, seen from before the page was copied.\<close>

lemma edit_page_at:
  assumes wf: "cow_wf c" and pn: "pn < num_pages (cow_golden c)" and ep: "ensure_page c pn = (idx, c1)"
    and x: "x < g_size (cow_golden c)"
  shows "cow_mem_at (set_page idx pg c1) x =
      (if x div PAGE_SIZE = pn then pg_mem pg ! (x mod PAGE_SIZE) else cow_mem_at c x)"
    "cow_perm_byte (set_page idx pg c1) x =
      (if x div PAGE_SIZE = pn then pg_perms pg ! (x mod PAGE_SIZE) else cow_perm_byte c x)"
    "x div PAGE_SIZE = pn \<Longrightarrow> pg_mem (cow_pages c1 ! idx) ! (x mod PAGE_SIZE) = cow_mem_at c x"
    "x div PAGE_SIZE = pn \<Longrightarrow> pg_perms (cow_pages c1 ! idx) ! (x mod PAGE_SIZE) = cow_perm_byte c x"
proof -
  note sp = ensure_page_spec [OF wf pn ep]
  show "cow_mem_at (set_page idx pg c1) x =
      (if x div PAGE_SIZE = pn then pg_mem pg ! (x mod PAGE_SIZE) else cow_mem_at c x)"
    "cow_perm_byte (set_page idx pg c1) x =
      (if x div PAGE_SIZE = pn then pg_perms pg ! (x mod PAGE_SIZE) else cow_perm_byte c x)"
    using set_page_at [OF sp(1,3), of x pg] pn x sp(6,7) [OF x] by (simp_all add: sp(2,4))
  assume "x div PAGE_SIZE = pn"
  then show "pg_mem (cow_pages c1 ! idx) ! (x mod PAGE_SIZE) = cow_mem_at c x"
    "pg_perms (cow_pages c1 ! idx) ! (x mod PAGE_SIZE) = cow_perm_byte c x"
    using sp(6,7) [OF x] resolve_overlaid [OF sp(3)] sp(4)
    by (simp_all add: cow_mem_at_def cow_perm_byte_def)
qed

lemma in_page_diff: "x div PAGE_SIZE = off div PAGE_SIZE \<Longrightarrow> x mod PAGE_SIZE - off mod PAGE_SIZE = x - off"
  by (metis add_diff_cancel_left div_mult_mod_eq)

section \<open>Writes of the view are writes of the flattened memory\<close>

lemma page_put_one:
  assumes "po < length (pg_mem pg)" "po < length (pg_perms pg)"
  shows "page_put po [b] pg =
    pg\<lparr>pg_mem := (pg_mem pg)[po := b], pg_perms := (pg_perms pg)[po := raw_to_read (pg_perms pg ! po)]\<rparr>"
  using assms by (simp add: page_put_def blit_Cons sub_slice_Suc)

lemma page_put_sel:
  assumes "length (pg_mem pg) = PAGE_SIZE" "length (pg_perms pg) = PAGE_SIZE" "po + length data \<le> PAGE_SIZE"
  shows "length (pg_mem (page_put po data pg)) = PAGE_SIZE"
    "length (pg_perms (page_put po data pg)) = PAGE_SIZE"
    "pg_mem (page_put po data pg) ! k =
      (if po \<le> k \<and> k < po + length data then data ! (k - po) else pg_mem pg ! k)"
    "pg_perms (page_put po data pg) ! k =
      (if po \<le> k \<and> k < po + length data then raw_to_read (pg_perms pg ! k) else pg_perms pg ! k)"
  using assms by (auto simp: page_put_def nth_blit)

lemma same_page_iff:
  assumes "off mod PAGE_SIZE + n \<le> PAGE_SIZE"
  shows "off \<le> x \<and> x < off + n \<longleftrightarrow> x div PAGE_SIZE = off div PAGE_SIZE \<and>
     off mod PAGE_SIZE \<le> x mod PAGE_SIZE \<and> x mod PAGE_SIZE < off mod PAGE_SIZE + n"
proof
  let ?q = "off div PAGE_SIZE"
  have sums: "?q * PAGE_SIZE + off mod PAGE_SIZE = off" "x div PAGE_SIZE * PAGE_SIZE + x mod PAGE_SIZE = x"
    by simp_all
  assume r: "off \<le> x \<and> x < off + n"
  then have "?q * PAGE_SIZE \<le> x" "x < Suc ?q * PAGE_SIZE" using sums(1) assms unfolding mult_Suc by linarith+
  then have "x div PAGE_SIZE = ?q" by (intro div_nat_eqI) (simp_all add: mult.commute)
  with r sums show "x div PAGE_SIZE = off div PAGE_SIZE \<and>
     off mod PAGE_SIZE \<le> x mod PAGE_SIZE \<and> x mod PAGE_SIZE < off mod PAGE_SIZE + n"
    by (metis add_le_cancel_left add.assoc add_less_cancel_left)
next
  assume "x div PAGE_SIZE = off div PAGE_SIZE \<and>
     off mod PAGE_SIZE \<le> x mod PAGE_SIZE \<and> x mod PAGE_SIZE < off mod PAGE_SIZE + n"
  then show "off \<le> x \<and> x < off + n"
    by (metis add.assoc add_le_cancel_left add_less_cancel_left div_mult_mod_eq)
qed

definition cow_put :: "nat \<Rightarrow> u8 list \<Rightarrow> cow_ram \<Rightarrow> cow_ram" where
  "cow_put off data c =
     (case ensure_page c (off div PAGE_SIZE) of (idx, c1) \<Rightarrow>
        set_page idx (page_put (off mod PAGE_SIZE) data (cow_pages c1 ! idx)) c1)"

lemma cow_put_spec:
  assumes wf: "cow_wf c" and off: "off < g_size (cow_golden c)"
    and len: "off + length data \<le> g_size (cow_golden c)" "off mod PAGE_SIZE + length data \<le> PAGE_SIZE"
  shows "cow_wf (cow_put off data c)" "cow_golden (cow_put off data c) = cow_golden c"
    "cow_flat (cow_put off data c) = put_bytes off data (cow_flat c)"
proof -
  let ?pn = "off div PAGE_SIZE" and ?po = "off mod PAGE_SIZE"
  obtain idx c1 where ep: "ensure_page c ?pn = (idx, c1)" by fastforce
  note sp = ensure_page_spec [OF wf page_of_off [OF off] ep]
  let ?pg = "cow_pages c1 ! idx"
  have put: "cow_put off data c = set_page idx (page_put ?po data ?pg) c1"
    by (simp add: cow_put_def ep)
  note pl = conjunct1 [OF cow_wfD(4) [OF sp(1,5)]] conjunct2 [OF cow_wfD(4) [OF sp(1,5)]]
  show "cow_wf (cow_put off data c)"
    unfolding put by (intro set_page_wf sp(1) page_put_sel pl len(2))
  show g: "cow_golden (cow_put off data c) = cow_golden c" by (simp add: put sp(2))
  have upd: "cow_mem_at (cow_put off data c) x =
        (if off \<le> x \<and> x < off + length data then data ! (x - off) else cow_mem_at c x)"
      "cow_perm_byte (cow_put off data c) x =
        (if off \<le> x \<and> x < off + length data then raw_to_read (cow_perm_byte c x) else cow_perm_byte c x)"
    if x: "x < g_size (cow_golden c)" for x
    using in_page_diff [of x off] edit_page_at [OF wf page_of_off [OF off] ep x]
    by (simp_all add: put page_put_sel [OF pl len(2)] same_page_iff [OF len(2)])
  show "cow_flat (cow_put off data c) = put_bytes off data (cow_flat c)"
    by (rule cow_flat_eqI [OF g])
      (use len(1) upd in \<open>auto simp: put_bytes_def nth_blit Let_def cow_flat_def\<close>)
qed

lemma cow_write_loop_step:
  assumes wf: "cow_wf c"
  shows "cow_write_loop addr len i (b # bs) c =
     (case cow_offset c (addr + of_nat i) of
        None \<Rightarrow> (Inl (mk_fault (addr + of_nat i) len Write Unmapped), c)
      | Some off \<Rightarrow>
          if cow_perm_byte c off AND PERM_WRITE = 0
          then (Inl (mk_fault (addr + of_nat i) len Write Permission), c)
          else cow_write_loop addr len (Suc i) bs (cow_put off [b] c))"
proof (cases "cow_offset c (addr + of_nat i)")
  case None
  then show ?thesis by simp
next
  case (Some off)
  obtain idx c1 where ep: "ensure_page c (off div PAGE_SIZE) = (idx, c1)" by fastforce
  note sp = ensure_page_spec [OF wf page_of_off [OF cow_offset_less [OF Some]] ep]
  have "page_put (off mod PAGE_SIZE) [b] (cow_pages c1 ! idx) =
      (cow_pages c1 ! idx)\<lparr>pg_mem := (pg_mem (cow_pages c1 ! idx))[off mod PAGE_SIZE := b],
        pg_perms := (pg_perms (cow_pages c1 ! idx))[off mod PAGE_SIZE :=
          raw_to_read (pg_perms (cow_pages c1 ! idx) ! (off mod PAGE_SIZE))]\<rparr>"
    using cow_wfD(4) [OF sp(1,5)] by (intro page_put_one) simp_all
  then show ?thesis
    using Some ep by (simp add: Let_def cow_put_def set_page_def cow_perm_byte_def)
qed

declare cow_write_loop.simps(2) [simp del]

lemma cow_write_loop_flat:
  assumes "cow_wf c"
  shows "cow_wf (snd (cow_write_loop addr len i bs c)) \<and>
    cow_golden (snd (cow_write_loop addr len i bs c)) = cow_golden c \<and>
    map_prod id cow_flat (cow_write_loop addr len i bs c) = write_loop addr len i bs (cow_flat c)"
  using assms
proof (induction bs arbitrary: i c)
  case Nil
  then show ?case by simp
next
  case (Cons b bs)
  show ?case
  proof (cases "cow_offset c (addr + of_nat i)")
    case None
    then show ?thesis using Cons.prems by (simp add: cow_write_loop_step write_loop_step)
  next
    case (Some off)
    have o: "off < g_size (cow_golden c)" by (rule cow_offset_less [OF Some])
    have po: "off mod PAGE_SIZE + length [b] \<le> PAGE_SIZE" by (simp add: Suc_le_eq)
    note pw = cow_put_spec [OF Cons.prems o, of "[b]", OF _ po]
    have "put_bytes off [b] (cow_flat c) = put_byte off b (cow_flat c)"
      using o by (simp add: put_bytes_Cons)
    then show ?thesis
      using Some o Cons.prems Cons.IH [of "cow_put off [b] c"] pw
      by (simp add: cow_write_loop_step write_loop_step)
  qed
qed

lemma cow_write_flat:
  assumes wf: "cow_wf c"
  shows "cow_wf (snd (cow_write c addr data))" (is ?w)
    "cow_golden (snd (cow_write c addr data)) = cow_golden c" (is ?g)
    "map_prod id cow_flat (cow_write c addr data) = mmu_write (cow_flat c) addr data" (is ?f)
proof -
  note fw = cow_flat_wf [OF cow_wfD(1) [OF wf]]
  have slow: "?w \<and> ?g \<and> ?f" if "cow_write c addr data = cow_write_bytewise c addr data"
    using cow_write_loop_flat [OF wf, of addr "of_nat (length data)" 0 data]
    by (simp add: that cow_write_bytewise_def mmu_write_eq_bytewise [OF fw] write_bytewise_def)
  have "?w \<and> ?g \<and> ?f"
  proof (cases "cow_offset c addr")
    case None
    then show ?thesis by (intro slow) (simp add: cow_write_def Let_def)
  next
    case (Some off)
    note o = cow_offset_less [OF Some]
    let ?fast = "off + length data \<le> g_size (cow_golden c) \<and> off mod PAGE_SIZE + length data \<le> PAGE_SIZE \<and>
      list_all (\<lambda>p. p AND PERM_WRITE \<noteq> 0)
        (sub_slice (snd (resolve c (off div PAGE_SIZE))) (off mod PAGE_SIZE) (length data))"
    show ?thesis
    proof (cases ?fast)
      case True
      then have "cow_write c addr data = (Inr (), cow_put off data c)"
        using Some by (simp add: cow_write_def cow_put_def set_page_def Let_def split: prod.splits)
      moreover have "mmu_write (cow_flat c) addr data = (Inr (), put_bytes off data (cow_flat c))"
        using True Some cow_slice_flat [OF wf o, of "length data"]
        by (intro write_fast_path(2) [OF fw]) simp_all
      ultimately show ?thesis using True cow_put_spec [OF wf o, of data] by simp
    next
      case False
      then show ?thesis using Some by (intro slow) (auto simp: cow_write_def Let_def)
    qed
  qed
  then show ?w ?g ?f by blast+
qed

section \<open>The view meets both contracts\<close>

definition cow_peek :: "cow_ram \<Rightarrow> view" where
  "cow_peek c a = map_option (\<lambda>off. (cow_mem_at c off, cow_perm_byte c off)) (cow_offset c a)"

lemma peek_cow_flat: "mmu_peek (cow_flat c) = cow_peek c"
proof
  fix a
  show "mmu_peek (cow_flat c) a = cow_peek c a"
    using cow_offset_less [of c a] by (cases "cow_offset c a") (simp_all add: mmu_peek_def cow_peek_def)
qed

interpretation cow: soft_mmu cow_peek cow_read cow_write cow_wf
proof
  fix c addr buf assume wf: "cow_wf c"
  show "cow_read c addr buf = spec_read Read PERM_READ (cow_peek c) addr (of_nat (length buf)) 0 buf"
    using flat.rd_spec [OF cow_flat_wf [OF cow_wfD(1) [OF wf]], of addr buf]
    by (simp add: cow_read_flat [OF wf] peek_cow_flat)
next
  fix c addr and d :: "u8 list"
  assume wf: "cow_wf c" and len: "length d \<le> 4294967296"
  note fw = cow_flat_wf [OF cow_wfD(1) [OF wf]]
  have w: "mmu_write (cow_flat c) addr d = map_prod id cow_flat (cow_write c addr d)"
    by (simp add: cow_write_flat [OF wf])
  show "fst (cow_write c addr d) = fst (spec_write (cow_peek c) addr (of_nat (length d)) 0 d)"
    using flat.wr_res [OF fw len, of addr] by (simp add: w peek_cow_flat)
  show "cow_peek (snd (cow_write c addr d)) = snd (spec_write (cow_peek c) addr (of_nat (length d)) 0 d)"
    using flat.wr_peek [OF fw len, of addr] by (simp add: w peek_cow_flat)
qed (rule cow_write_flat(1))

lemma cow_load_flat: "cow_wf c \<Longrightarrow> (cow_load c addr sz, cow_flat c) = mmu_load (cow_flat c) addr sz"
  by (simp add: cow_load_def mmu_load_def cow_read_u8_def read_u8_def cow_read_u16_def read_u16_def
      cow_read_u32_def read_u32_def cow_read_flat)

lemma cow_ifetch16_flat: "cow_wf c \<Longrightarrow> (cow_ifetch16 c addr, cow_flat c) = mmu_ifetch16 (cow_flat c) addr"
  by (simp add: cow_ifetch16_def mmu_ifetch16_def cow_fetch_u16_def fetch_u16_def cow_fetch_bytes_flat)

lemma cow_store_flat:
  assumes "cow_wf c"
  shows "map_prod id cow_flat (cow_store c addr sz val) = mmu_store (cow_flat c) addr sz val"
    "cow_wf (snd (cow_store c addr sz val))" "cow_golden (snd (cow_store c addr sz val)) = cow_golden c"
  using cow_write_flat [OF assms] assms
  by (auto simp: cow_store_def mmu_store_def cow_write_u8_def write_u8_def cow_write_u16_def
      write_u16_def cow_write_u32_def write_u32_def check_align_def)

lemma cow_raw_state_flat: "cow_read_raw_state c addr len = mmu_read_raw_state (cow_flat c) addr len"
  unfolding cow_read_raw_state_def mmu_read_raw_state_def
  by (intro fold_cong ext) (auto simp: cow_perm_byte_def cow_offset_less split: option.splits)

text \<open>A naturally aligned access stays inside its 4 KiB page and does not wrap around.\<close>

lemma natural_no_wrap:
  assumes "natural_access addr sz" "k < sz"
  shows "unat (addr + of_nat k) = unat addr + k"
proof (rule unat_add_no_wrap)
  have "unat addr mod 1 = 0 \<and> k < 1 \<or> unat addr mod 2 = 0 \<and> k < 2 \<or> unat addr mod 4 = 0 \<and> k < 4"
    using assms by (auto simp: natural_access_def)
  then show "unat addr + k < 4294967296" using unat_lt_u32 [of addr] by presburger
qed

lemma natural_in_page:
  assumes "natural_access addr sz" "unat addr = base + off" "base mod 4 = 0"
  shows "off mod PAGE_SIZE + sz \<le> PAGE_SIZE"
proof -
  have sz: "sz dvd 4" "sz dvd base + off" "sz dvd PAGE_SIZE"
    using assms(1,2) by (auto simp: natural_access_def PAGE_SIZE_def)
  have "4 dvd base" using assms(3) by (simp add: dvd_eq_mod_eq_0)
  then have "sz dvd base" using sz(1) dvd_trans by blast
  then have "sz dvd off" using sz(2) by (simp add: dvd_add_right_iff)
  then have "sz dvd off mod PAGE_SIZE" using sz(3) by (rule dvd_mod)
  then obtain a b where ab: "off mod PAGE_SIZE = sz * a" "PAGE_SIZE = sz * b"
    using sz(3) by (auto elim!: dvdE)
  then have "a < b" using po_lt(1) [of off] by (metis mult_less_cancel1)
  then have "sz * (a + 1) \<le> sz * b" by (intro mult_le_mono2) simp
  with ab show ?thesis by simp
qed

lemma cow_offset_Some_iff:
  "cow_offset c a = Some off \<longleftrightarrow> unat a = unat (g_base (cow_golden c)) + off \<and> off < g_size (cow_golden c)"
  using offset_Some_iff [of "cow_flat c" a off] by simp

lemma natural_outside:
  assumes "natural_access addr sz" "unat (g_base (cow_golden c)) mod 4 = 0" "cow_offset c addr = None" "k < sz"
  shows "cow_offset c (addr + of_nat k) = None"
proof (rule ccontr)
  let ?b = "unat (g_base (cow_golden c))"
  assume "cow_offset c (addr + of_nat k) \<noteq> None"
  then obtain off where off: "cow_offset c (addr + of_nat k) = Some off" by auto
  then have o: "unat addr + k = ?b + off" "off < g_size (cow_golden c)"
    using natural_no_wrap [OF assms(1,4)] by (simp_all add: cow_offset_Some_iff)
  have "?b \<le> unat addr"
  proof -
    have "sz = 1 \<or> sz = 2 \<and> unat addr mod 2 = 0 \<or> sz = 4 \<and> unat addr mod 4 = 0"
      using assms(1) by (auto simp: natural_access_def)
    then show ?thesis using o(1) assms(2,4) by presburger
  qed
  then have "cow_offset c addr = Some (unat addr - ?b)"
    using o by (simp add: cow_offset_Some_iff)
  with assms(3) show False by simp
qed

lemma page_shadow_fold:
  assumes "po + n \<le> length (pg_perms pg)"
  shows "pg_mem (fold (page_shadow po tm) [0 ..< n] pg) = pg_mem pg"
    "length (pg_perms (fold (page_shadow po tm) [0 ..< n] pg)) = length (pg_perms pg)"
    "pg_perms (fold (page_shadow po tm) [0 ..< n] pg) ! k =
      (if po \<le> k \<and> k < po + n
       then set_vtaint_bit (drop_bit (8 * (k - po)) tm AND 1 \<noteq> 0) (pg_perms pg ! k)
       else pg_perms pg ! k)"
  using assms by (induction n) (auto simp: page_shadow_def nth_list_update less_Suc_eq)

lemma shadow_fold_flat:
  assumes "length (mmu_perms m) = length (mmu_mem m)"
    "\<And>i. i < n \<Longrightarrow> offset m (addr + of_nat i) = (if off + i < length (mmu_mem m) then Some (off + i) else None)"
  shows "let m' = fold (\<lambda>i. shadow_byte (addr + of_nat i) (t i)) [0 ..< n] m in
    mmu_mem m' = mmu_mem m \<and> mmu_base m' = mmu_base m \<and> mmu_track_dirty m' = mmu_track_dirty m \<and>
    mmu_dirty m' = mmu_dirty m \<and> mmu_dirty_bitmap m' = mmu_dirty_bitmap m \<and>
    length (mmu_perms m') = length (mmu_perms m) \<and>
    (\<forall>k < length (mmu_mem m). mmu_perms m' ! k =
       (if off \<le> k \<and> k < off + n then set_vtaint_bit (t (k - off)) (mmu_perms m ! k) else mmu_perms m ! k))"
  using assms(2)
proof (induction n)
  case 0
  then show ?case by (auto simp: Let_def)
next
  case (Suc n)
  define m1 where "m1 = fold (\<lambda>i. shadow_byte (addr + of_nat i) (t i)) [0 ..< n] m"
  note IH = Suc.IH [OF Suc.prems, unfolded Let_def, folded m1_def, simplified]
  have "offset m1 (addr + of_nat n) = offset m (addr + of_nat n)" using IH by (intro offset_cong) simp_all
  then have step: "shadow_byte (addr + of_nat n) (t n) m1 =
      (if off + n < length (mmu_mem m)
       then m1\<lparr>mmu_perms := (mmu_perms m1)[off + n := set_vtaint_bit (t n) (mmu_perms m1 ! (off + n))]\<rparr>
       else m1)"
    using Suc.prems [of n] by (simp add: shadow_byte_def)
  have "fold (\<lambda>i. shadow_byte (addr + of_nat i) (t i)) [0 ..< Suc n] m = shadow_byte (addr + of_nat n) (t n) m1"
    by (simp add: m1_def)
  then show ?case
    unfolding Let_def step using IH assms(1) by (auto simp: nth_list_update less_Suc_eq)
qed

lemma cow_write_shadow_flat:
  assumes wf: "cow_wf c" and nat: "natural_access addr sz"
  shows "cow_wf (cow_write_shadow c addr sz tm)" (is ?w)
    "cow_golden (cow_write_shadow c addr sz tm) = cow_golden c" (is ?g)
    "cow_flat (cow_write_shadow c addr sz tm) = mmu_write_shadow (cow_flat c) addr sz tm" (is ?f)
proof -
  have sz: "min sz 4 = sz" using nat by (auto simp: natural_access_def)
  have b4: "unat (g_base (cow_golden c)) mod 4 = 0" using cow_wfD(1) [OF wf] by (simp add: golden_wf_def)
  have "?w \<and> ?g \<and> ?f"
  proof (cases "cow_offset c addr")
    case None
    have "\<And>is. set is \<subseteq> {..<sz} \<Longrightarrow> fold (\<lambda>i. shadow_byte (addr + of_nat i) (t i)) is (cow_flat c) = cow_flat c" for t
    proof -
      fix "is" :: "nat list" assume "set is \<subseteq> {..<sz}"
      then show "fold (\<lambda>i. shadow_byte (addr + of_nat i) (t i)) is (cow_flat c) = cow_flat c"
        using natural_outside [OF nat b4 None] by (induction "is") (simp_all add: shadow_byte_def)
    qed
    then show ?thesis using None wf by (simp add: cow_write_shadow_def mmu_write_shadow_alt sz atLeast0LessThan)
  next
    case (Some off)
    let ?pn = "off div PAGE_SIZE" and ?po = "off mod PAGE_SIZE"
    note o = cow_offset_less [OF Some]
    have fit: "?po + sz \<le> PAGE_SIZE"
      using natural_in_page [OF nat _ b4] Some by (simp add: cow_offset_Some_iff)
    obtain idx c1 where ep: "ensure_page c ?pn = (idx, c1)" by fastforce
    note sp = ensure_page_spec [OF wf page_of_off [OF o] ep]
    let ?pg = "cow_pages c1 ! idx"
    let ?pg' = "fold (page_shadow ?po tm) [0 ..< sz] ?pg"
    have ws: "cow_write_shadow c addr sz tm = set_page idx ?pg' c1"
      using Some ep fit by (simp add: cow_write_shadow_def sz set_page_def Let_def)
    note pl = cow_wfD(4) [OF sp(1,5)]
    note pages = page_shadow_fold [of ?po sz ?pg tm]
    have w: ?w unfolding ws using pl pages fit by (intro set_page_wf sp(1)) simp_all
    have g: ?g by (simp add: ws sp(2))
    have offs: "offset (cow_flat c) (addr + of_nat i) =
        (if off + i < length (mmu_mem (cow_flat c)) then Some (off + i) else None)" if "i < sz" for i
    proof (cases "off + i < g_size (cow_golden c)")
      case True
      then have "cow_offset c (addr + of_nat i) = Some (off + i)"
        using natural_no_wrap [OF nat that] Some by (simp add: cow_offset_Some_iff)
      with True show ?thesis by simp
    next
      case False
      then have "cow_offset c (addr + of_nat i) \<noteq> Some y" for y
        using natural_no_wrap [OF nat that] Some by (simp add: cow_offset_Some_iff)
      then have "cow_offset c (addr + of_nat i) = None" by (metis option.exhaust)
      with False show ?thesis by simp
    qed
    have upd: "cow_mem_at (set_page idx ?pg' c1) x = cow_mem_at c x"
        "cow_perm_byte (set_page idx ?pg' c1) x =
          (if off \<le> x \<and> x < off + sz
           then set_vtaint_bit (drop_bit (8 * (x - off)) tm AND 1 \<noteq> 0) (cow_perm_byte c x)
           else cow_perm_byte c x)"
      if x: "x < g_size (cow_golden c)" for x
      using in_page_diff [of x off] edit_page_at [OF wf page_of_off [OF o] ep x] pl fit
      by (simp_all add: pages same_page_iff [OF fit])
    have ?f
      unfolding mmu_write_shadow_alt sz ws
      using shadow_fold_flat [of "cow_flat c" sz addr off "\<lambda>i. drop_bit (8 * i) tm AND 1 \<noteq> 0", OF _ offs] upd sp(2)
      by (intro cow_flat_eqI [where c = c]) (simp_all add: Let_def cow_flat_def)
    with w g show ?thesis by blast
  qed
  then show ?w ?g ?f by blast+
qed

lemma cow_write_shadow_wf:
  assumes wf: "cow_wf c"
  shows "cow_wf (cow_write_shadow c addr sz tm)"
proof (cases "\<exists>off. cow_offset c addr = Some off \<and> off mod PAGE_SIZE + min sz 4 \<le> PAGE_SIZE")
  case False
  then show ?thesis using wf by (auto simp: cow_write_shadow_def Let_def split: option.splits)
next
  case True
  then obtain off where off: "cow_offset c addr = Some off" and fit: "off mod PAGE_SIZE + min sz 4 \<le> PAGE_SIZE"
    by blast
  obtain idx c1 where ep: "ensure_page c (off div PAGE_SIZE) = (idx, c1)" by fastforce
  note sp = ensure_page_spec [OF wf page_of_off [OF cow_offset_less [OF off]] ep]
  have "cow_write_shadow c addr sz tm =
      set_page idx (fold (page_shadow (off mod PAGE_SIZE) tm) [0 ..< min sz 4] (cow_pages c1 ! idx)) c1"
    using off ep fit by (simp add: cow_write_shadow_def set_page_def Let_def)
  then show ?thesis
    using cow_wfD(4) [OF sp(1,5)] fit
    by (simp add: set_page_wf [OF sp(1)] page_shadow_fold [of "off mod PAGE_SIZE" "min sz 4" "cow_pages c1 ! idx"])
qed

interpretation cow_bus: byte_bus cow_peek cow_bus cow_wf
proof
  fix c addr sz assume wf: "cow_wf c"
  note fw = cow_flat_wf [OF cow_wfD(1) [OF wf]]
  show "bus_load cow_bus c addr sz = (view_load (cow_peek c) addr sz, c)"
    using cow_load_flat [OF wf, of addr sz] mmu_load_view [OF fw, of addr sz]
    by (simp add: cow_bus_def peek_cow_flat)
  show "bus_ifetch16 cow_bus c addr = (view_ifetch16 (cow_peek c) addr, c)"
    using cow_ifetch16_flat [OF wf, of addr] flat_bus.ifetch_spec [OF fw, of addr]
    by (simp add: cow_bus_def mmu_bus_def peek_cow_flat)
  show "bus_read_raw_state cow_bus c addr sz = view_raw_state (cow_peek c) addr sz"
    by (simp add: cow_bus_def cow_raw_state_flat mmu_raw_state_view peek_cow_flat)
next
  fix c addr sz val assume wf: "cow_wf c"
  have st: "mmu_store (cow_flat c) addr sz val = map_prod id cow_flat (cow_store c addr sz val)"
    by (simp add: cow_store_flat [OF wf])
  note sv = mmu_store_view [OF cow_flat_wf [OF cow_wfD(1) [OF wf]], of addr sz val]
  show "fst (bus_store cow_bus c addr sz val) = fst (view_store (cow_peek c) addr sz val)"
    using sv(1) by (simp add: cow_bus_def st peek_cow_flat)
  show "cow_peek (snd (bus_store cow_bus c addr sz val)) = snd (view_store (cow_peek c) addr sz val)"
    using sv(2) by (simp add: cow_bus_def st peek_cow_flat)
  show "cow_wf (snd (bus_store cow_bus c addr sz val))"
    by (simp add: cow_bus_def cow_store_flat [OF wf])
next
  fix c addr sz tm assume wf: "cow_wf c" and na: "natural_access addr sz"
  show "cow_peek (bus_write_shadow cow_bus c addr sz tm) = view_write_shadow (cow_peek c) addr sz tm"
    using flat_bus.shadow_peek [OF cow_flat_wf [OF cow_wfD(1) [OF wf]] na, of tm]
    by (simp add: cow_bus_def mmu_bus_def cow_write_shadow_flat(3) [OF wf na, symmetric] peek_cow_flat)
qed (simp add: cow_bus_def cow_write_shadow_wf)

section \<open>Reset and the shared image\<close>

lemma cow_reset_new:
  assumes wf: "cow_wf c"
  shows "cow_reset c = cow_new (cow_golden c)"
proof -
  let ?f = "\<lambda>pn (d :: u32 list). d[unat pn := SENTINEL]"
  have nth: "fold ?f pns d ! p = (if p \<in> unat ` set pns then SENTINEL else d ! p)"
    if "p < length d" for p pns d
    using that by (induction pns arbitrary: d) (auto simp: nth_list_update)
  have len: "length (fold ?f pns d) = length d" for pns d
    by (induction pns arbitrary: d) simp_all
  have "fold ?f (cow_dirty c) (cow_dir c) = replicate (num_pages (cow_golden c)) SENTINEL"
  proof (rule nth_equalityI)
    fix p assume "p < length (fold ?f (cow_dirty c) (cow_dir c))"
    then have p: "p < num_pages (cow_golden c)" "p < length (cow_dir c)"
      by (simp_all add: len cow_wfD(2) [OF wf])
    have "p \<in> unat ` set (cow_dirty c)" if "cow_dir c ! p \<noteq> SENTINEL"
    proof -
      have "unat (cow_dir c ! p) < length (cow_dirty c)" "cow_dirty c ! unat (cow_dir c ! p) = of_nat p"
        using cow_wfD(3,7,8) [OF wf] p that by simp_all
      then have "of_nat p \<in> set (cow_dirty c)" by (metis nth_mem)
      then show ?thesis using cow_page_bound [OF wf p(1)] by force
    qed
    with p show "fold ?f (cow_dirty c) (cow_dir c) ! p = replicate (num_pages (cow_golden c)) SENTINEL ! p"
      by (auto simp: nth)
  qed (simp add: len cow_wfD(2) [OF wf])
  then show ?thesis by (simp add: cow_reset_def cow_new_def)
qed

lemma cow_peek_new:
  assumes "golden_wf g"
  shows "cow_peek (cow_new g) a = map_option (\<lambda>off. (g_mem g ! off, g_perms g ! off)) (golden_offset g a)"
proof -
  have "cow_offset (cow_new g) a = golden_offset g a"
    by (simp add: cow_offset_def golden_offset_def cow_new_def g_size_def Let_def)
  moreover have "cow_mem_at (cow_new g) off = g_mem g ! off \<and> cow_perm_byte (cow_new g) off = g_perms g ! off"
    if "off < g_size g" for off
    using nth_golden_page [OF assms that] page_of_off [OF that]
    by (simp add: cow_mem_at_def cow_perm_byte_def resolve_def cow_new_def)
  moreover have "golden_offset g a = Some off \<Longrightarrow> off < g_size g" for off
    by (auto simp: golden_offset_def g_size_def Let_def split: if_splits)
  ultimately show ?thesis by (cases "golden_offset g a") (simp_all add: cow_peek_def)
qed

lemma cow_new_from_mmu_peek:
  assumes "mmu_wf m" "unat (mmu_base m) mod 4 = 0"
  shows "cow_peek (cow_new (from_mmu m)) = mmu_peek m"
proof
  fix a
  show "cow_peek (cow_new (from_mmu m)) a = mmu_peek m a"
    using cow_peek_new [OF golden_wf_from_mmu [OF assms], of a]
    by (simp add: mmu_peek_def golden_offset_def offset_def from_mmu_def planes_def)
qed

text \<open>What is still golden in a view is what the image holds.\<close>

lemma golden_page_peek:
  assumes wf: "cow_wf c" and g: "cow_offset c a = Some off" "\<not> is_overlaid c (off div PAGE_SIZE)"
  shows "cow_peek c a = cow_peek (cow_new (cow_golden c)) a"
proof -
  have off: "off < g_size (cow_golden c)" by (rule cow_offset_less [OF g(1)])
  have "off div PAGE_SIZE < length (cow_dir c)" using page_of_off [OF off] cow_wfD(2) [OF wf] by simp
  then have "cow_dir c ! (off div PAGE_SIZE) = SENTINEL" using g(2) by (simp add: is_overlaid_def)
  then have "resolve c (off div PAGE_SIZE) = resolve (cow_new (cow_golden c)) (off div PAGE_SIZE)"
    using page_of_off [OF off] by (simp add: resolve_def cow_new_def)
  moreover have "cow_offset (cow_new (cow_golden c)) a = cow_offset c a"
    by (simp add: cow_offset_def cow_new_def Let_def)
  ultimately show ?thesis using g(1) by (simp add: cow_peek_def cow_mem_at_def cow_perm_byte_def)
qed

section \<open>Read-only access to the image\<close>

lemma align_natural:
  "addr mod 2 = 0 \<longleftrightarrow> natural_access addr 2" "addr mod 4 = 0 \<longleftrightarrow> natural_access addr 4"
  "natural_access addr 1"
  by (simp_all add: natural_access_def word_unat_eq_iff unat_mod_distrib)

lemma gather_slice:
  assumes wf: "mmu_wf m" and nat: "natural_access addr n"
  shows "gather ac need (mmu_peek m) addr n = Inr b \<longleftrightarrow>
    (\<exists>off. offset m addr = Some off \<and> off + n \<le> length (mmu_mem m) \<and>
       list_all (\<lambda>p. p AND need \<noteq> 0) (sub_slice (mmu_perms m) off n) \<and> b = sub_slice (mmu_mem m) off n)"
    (is "?l \<longleftrightarrow> (\<exists>off. ?r off)")
proof
  have fwd: "gather ac need (mmu_peek m) addr n = Inr (sub_slice (mmu_mem m) off n)"
    if "offset m addr = Some off" "off + n \<le> length (mmu_mem m)"
      "list_all (\<lambda>p. p AND need \<noteq> 0) (sub_slice (mmu_perms m) off n)" for off
    using that read_fast_path [OF wf, of addr off "replicate n 0" need ac "of_nat n"]
    by (simp add: gather_def read_loop_spec)
  then show "\<exists>off. ?r off \<Longrightarrow> ?l" by blast
  assume l: ?l
  have all: "\<forall>k<n. allows need (mmu_peek m) (addr + of_nat k)"
  proof (rule ccontr)
    assume "\<not> ?thesis"
    then obtain k where k: "k < n" "\<not> allows need (mmu_peek m) (addr + of_nat k)"
        "\<forall>j<k. allows need (mmu_peek m) (addr + of_nat j)" by (rule first_failure)
    then show False
      using l spec_read_err [of k "replicate n 0" need "mmu_peek m" addr 0 ac "of_nat n"]
      by (simp add: gather_def split: prod.splits)
  qed
  have n: "0 < n" using nat by (auto simp: natural_access_def)
  have some: "\<exists>off. offset m (addr + of_nat k) = Some off" if "k < n" for k
    using all that by (auto simp: allows_def mmu_peek_def split: option.splits)
  obtain off where off: "offset m addr = Some off" using some [OF n] by auto
  have lst: "off + (n - 1) < length (mmu_mem m)"
    using some [of "n - 1"] natural_no_wrap [OF nat, of "n - 1"] off n by (auto simp: offset_Some_iff)
  have "list_all (\<lambda>p. p AND need \<noteq> 0) (sub_slice (mmu_perms m) off n)"
  proof (subst list_all_sub_slice)
    show "off + n \<le> length (mmu_perms m)" using lst n by (simp add: mmu_wfD(1) [OF wf])
    show "\<forall>i<n. mmu_perms m ! (off + i) AND need \<noteq> 0"
      using all offset_add [OF wf off] lst by (auto simp: allows_def mmu_peek_def)
  qed
  moreover have "off + n \<le> length (mmu_mem m)" using lst n by simp
  ultimately show "\<exists>off. ?r off" using fwd [OF off] off l by auto
qed

definition golden_mmu :: "golden \<Rightarrow> mmu" where
  "golden_mmu g = \<lparr>mmu_base = g_base g, mmu_mem = g_mem g, mmu_perms = g_perms g,
     mmu_track_dirty = False, mmu_dirty = [], mmu_dirty_bitmap = []\<rparr>"

lemma golden_mmu_facts:
  assumes "golden_wf g"
  shows "mmu_wf (golden_mmu g)" "offset (golden_mmu g) a = golden_offset g a"
    "mmu_peek (golden_mmu g) = cow_peek (cow_new g)"
  using assms
  by (auto simp: golden_mmu_def mmu_wf_def golden_wf_def offset_def golden_offset_def mmu_peek_def
      cow_peek_new)

lemma golden_gather:
  assumes "golden_wf g" "natural_access addr n"
  shows "gather ac need (cow_peek (cow_new g)) addr n = Inr b \<longleftrightarrow>
    (\<exists>off. golden_offset g addr = Some off \<and> off + n \<le> length (g_mem g) \<and>
       list_all (\<lambda>p. p AND need \<noteq> 0) (sub_slice (g_perms g) off n) \<and> b = sub_slice (g_mem g) off n)"
  using gather_slice [OF golden_mmu_facts(1) [OF assms(1)] assms(2), of ac need b]
  unfolding golden_mmu_facts(2,3) [OF assms(1)] by (simp add: golden_mmu_def)

lemma golden_read_sized_load:
  assumes wf: "golden_wf g"
  shows "golden_read_sized g addr sz = Some v \<longleftrightarrow> cow_load (cow_new g) addr sz = Inr v"
proof -
  have load: "cow_load (cow_new g) addr sz = view_load (cow_peek (cow_new g)) addr sz"
    using cow_bus.load_spec [OF cow_new_wf [OF wf], of addr sz] by (simp add: cow_bus_def)
  have lt: "golden_offset g addr = Some off \<Longrightarrow> off < length (g_mem g)" for off
    by (auto simp: golden_offset_def Let_def split: if_splits)
  have one: "golden_offset g addr = Some off \<Longrightarrow> off + 1 \<le> length (g_mem g) \<and>
      sub_slice (g_perms g) off 1 = [g_perms g ! off] \<and> sub_slice (g_mem g) off 1 = [g_mem g ! off]" for off
    using lt [of off] wf by (simp add: golden_wf_def sub_slice_Suc)
  consider "sz = 1" | "sz = 2" | "sz \<noteq> 1" "sz \<noteq> 2" by blast
  then show ?thesis
  proof cases
    case 1
    then show ?thesis
      unfolding load using one
      by (auto simp: golden_read_sized_def golden_read_u8_def view_load_def map_ok_Inr_conv
          golden_gather [OF wf align_natural(3), unfolded One_nat_def] split: option.splits)
  next
    case 2
    then show ?thesis
      unfolding load
      by (auto simp: golden_read_sized_def golden_read_u16_def view_load_def map_ok_Inr_conv check_align_def
          align_natural(1) golden_gather [OF wf] split: option.splits)
  next
    case 3
    then show ?thesis
      unfolding load
      by (auto simp: golden_read_sized_def golden_read_u32_def view_load_def map_ok_Inr_conv check_align_def
          align_natural(2) golden_gather [OF wf] split: option.splits)
  qed
qed

lemma golden_fetch_ifetch:
  assumes wf: "golden_wf g"
  shows "golden_fetch_u16 g addr = Some v \<longleftrightarrow> cow_ifetch16 (cow_new g) addr = Inr v"
proof -
  have "cow_ifetch16 (cow_new g) addr = view_ifetch16 (cow_peek (cow_new g)) addr"
    using cow_bus.ifetch_spec [OF cow_new_wf [OF wf], of addr] by (simp add: cow_bus_def)
  then show ?thesis
    by (auto simp: golden_fetch_u16_def view_ifetch16_def map_ok_Inr_conv check_align_def
        align_natural(1) golden_gather [OF wf] split: option.splits)
qed

section \<open>The cross-lane bitmap\<close>

lemma shared_bit_marked: "shared_bit s pn \<longleftrightarrow> marked s pn"
  by (simp add: shared_bit_def marked_def Let_def and_push_one_eq_0 del: push_bit_of_1)

lemma shared_bit_set:
  assumes "pn div 64 < length s"
  shows "shared_bit (shared_set pn s) q \<longleftrightarrow> q = pn \<or> shared_bit s q"
proof -
  have "q = pn \<longleftrightarrow> q div 64 = pn div 64 \<and> q mod 64 = pn mod 64" by (metis div_mult_mod_eq)
  with assms show ?thesis
    by (auto simp: shared_bit_marked marked_def shared_set_def Let_def nth_list_update bit_or_iff
        bit_push_one simp del: push_bit_of_1)
qed

lemma shared_bit_clear:
  assumes "q div 64 < length s"
  shows "shared_bit (shared_clear_pages pns s) q \<longleftrightarrow> q \<notin> unat ` set pns \<and> shared_bit s q"
  using assms
proof (induction pns arbitrary: s)
  case Nil
  then show ?case by (simp add: shared_clear_pages_def)
next
  case (Cons pn pns)
  let ?s = "s[unat pn div 64 := s ! (unat pn div 64) AND NOT (push_bit (unat pn mod 64) 1)]"
  have "q = unat pn \<longleftrightarrow> q div 64 = unat pn div 64 \<and> q mod 64 = unat pn mod 64" by (metis div_mult_mod_eq)
  then have "shared_bit ?s q \<longleftrightarrow> q \<noteq> unat pn \<and> shared_bit s q"
    using Cons.prems
    by (cases "q div 64 = unat pn div 64")
      (auto simp: shared_bit_marked marked_def bit_and_iff bit_not_iff bit_push_one simp del: push_bit_of_1)
  moreover have "shared_clear_pages (pn # pns) s = shared_clear_pages pns ?s"
    by (simp add: shared_clear_pages_def Let_def)
  ultimately show ?case using Cons.IH [of ?s] Cons.prems by auto
qed

end
