(* ===== verification/Memory_Results.thy ===== *)
theory Memory_Results
  imports CowRam
begin

text \<open>
  What the memories of \<open>crates/fs-mmu/src/lib.rs\<close> promise: the flat \<open>Mmu\<close> (checked reads and
  writes, the fast paths, the snapshot reset), the copy-on-write \<open>CowRam\<close> as a refinement of it,
  and the lock-free page bitmap.  Each result has, next to it, its use on a small memory.
\<close>

section \<open>Example memories\<close>

text \<open>Eight bytes at \<open>0x1000\<close>, all of them readable and writable but the last two.\<close>

definition sample_perms :: "u8 list" where
  "sample_perms = [3, 3, 3, 3, 3, 3, 10, 0]"

definition sample_mmu :: mmu where
  "sample_mmu = (mmu_new 0x1000 8)\<lparr>mmu_perms := sample_perms\<rparr>"

lemma sample_wf: "mmu_wf sample_mmu"
  by (simp add: sample_mmu_def sample_perms_def mmu_new_def mmu_wf_def)

definition sample_golden :: golden where
  "sample_golden = from_mmu sample_mmu"

lemma sample_golden_wf: "golden_wf sample_golden"
  unfolding sample_golden_def by (rule golden_wf_from_mmu [OF sample_wf]) (simp add: sample_mmu_def mmu_new_def)

section \<open>Checked accesses\<close>

text \<open>
  A write that succeeds is read back: after \<open>Mmu::write\<close> returned \<open>Ok\<close>, \<open>Mmu::read\<close> of
  as many bytes at the same address succeeds, whatever the bytes were before (poisoned as
  uninitialised included), and returns the data.
\<close>

lemma mmu_write_then_read:
  assumes "mmu_wf m" "mmu_write m addr d = (Inr (), m')" "length d \<le> 4294967296" "length buf = length d"
  shows "mmu_read m' addr buf = (Inr (), d)"
  using assms by (intro flat.read_back)

text \<open>
  C33.  A refused write names the first byte that refused it: when byte \<open>k\<close> of the span is the
  first without write permission (or outside the window), \<open>Mmu::write\<close> returns the fault at that
  byte, with the reason, and has written exactly the \<open>k\<close> bytes before it.
\<close>

theorem mmu_write_faults_at_first_bad_byte:
  assumes "mmu_wf m" "length d \<le> 4294967296" "k < length d"
    "\<not> allows PERM_WRITE (mmu_peek m) (addr + of_nat k)"
    "\<forall>j<k. allows PERM_WRITE (mmu_peek m) (addr + of_nat j)"
  shows "fst (mmu_write m addr d) =
      Inl (mk_fault (addr + of_nat k) (of_nat (length d)) Write (blame (mmu_peek m) (addr + of_nat k))) \<and>
    mmu_peek (snd (mmu_write m addr d)) = stored (mmu_peek m) addr (take k d)"
  using flat.write_fault [OF assms] by simp

theorem mmu_write_faults_at_first_bad_byte_witness:
  "fst (mmu_write sample_mmu 0x1005 [7, 8, 9]) = Inl (mk_fault 0x1007 3 Write Permission)"
proof -
  have bad: "\<not> allows PERM_WRITE (mmu_peek sample_mmu) (0x1005 + of_nat 2)" by code_simp
  have ok: "\<forall>j<2. allows PERM_WRITE (mmu_peek sample_mmu) (0x1005 + of_nat j)" by code_simp
  have bl: "blame (mmu_peek sample_mmu) (0x1005 + of_nat 2) = Permission" by code_simp
  from mmu_write_faults_at_first_bad_byte [OF sample_wf _ _ bad ok, of "[7, 8, 9]"] bl show ?thesis by simp
qed

text \<open>
  C32.  The uninitialised-memory oracle: \<open>Mmu::read\<close> succeeds exactly when every byte of the span is
  mapped and readable, and otherwise returns the fault of the first byte that is not, such as one
  that is mapped write-only because nothing has been stored there yet.
\<close>

theorem mmu_read_oracle:
  assumes "mmu_wf m"
  shows "fst (mmu_read m addr buf) =
    (case find (\<lambda>k. \<not> allows PERM_READ (mmu_peek m) (addr + of_nat k)) [0 ..< length buf] of
       None \<Rightarrow> Inr ()
     | Some k \<Rightarrow> Inl (mk_fault (addr + of_nat k) (of_nat (length buf)) Read (blame (mmu_peek m) (addr + of_nat k))))"
proof (cases "find (\<lambda>k. \<not> allows PERM_READ (mmu_peek m) (addr + of_nat k)) [0 ..< length buf]")
  case None
  then have "\<forall>k<length buf. allows PERM_READ (mmu_peek m) (addr + of_nat k)" by (simp add: find_None_iff)
  with None show ?thesis using flat.read_ok_iff [OF assms, of addr buf] by simp
next
  case (Some k)
  then have "k < length buf" "\<not> allows PERM_READ (mmu_peek m) (addr + of_nat k)"
    "\<forall>j<k. allows PERM_READ (mmu_peek m) (addr + of_nat j)"
    by (auto simp: find_Some_iff)
  with Some show ?thesis using flat.read_fault [OF assms, of k buf addr] by simp
qed

theorem mmu_read_oracle_witness:
  "fst (mmu_read sample_mmu 0x1004 [0, 0, 0]) = Inl (mk_fault 0x1006 3 Read Permission)"
proof -
  have "allows PERM_READ (mmu_peek sample_mmu) 0x1004" "allows PERM_READ (mmu_peek sample_mmu) 0x1005"
    "\<not> allows PERM_READ (mmu_peek sample_mmu) 0x1006" "blame (mmu_peek sample_mmu) 0x1006 = Permission"
    by code_simp+
  then show ?thesis unfolding mmu_read_oracle [OF sample_wf] by (simp add: upt_conv_Cons)
qed

text \<open>
  The block-at-a-time paths are the byte-at-a-time ones: \<open>Mmu::read\<close> and \<open>Mmu::write\<close>,
  which check and copy a whole slice when the span lies in the window and is permitted, give
  on every input what their byte loops give: result, bytes, permissions and the list of dirty
  blocks in the same order.
\<close>

lemma mmu_fast_paths:
  assumes "mmu_wf m"
  shows "mmu_read m addr buf = read_bytewise m addr buf \<and> mmu_write m addr d = write_bytewise m addr d"
  using mmu_read_eq_bytewise [OF assms] mmu_write_eq_bytewise [OF assms] by blast

section \<open>Snapshots\<close>

text \<open>A sequence of writes, successful or not.\<close>

definition writes :: "(u32 \<times> u8 list) list \<Rightarrow> mmu \<Rightarrow> mmu" where
  "writes ws m = fold (\<lambda>(a, d) m. snd (mmu_write m a d)) ws m"

lemma write_loop_base: "mmu_base (snd (write_loop addr len i bs m)) = mmu_base m"
  by (induction bs arbitrary: i m) (auto simp: write_loop_step split: option.splits)

lemma writes_snap_inv:
  "snap_inv g p m \<Longrightarrow> snap_inv g p (writes ws m) \<and> mmu_base (writes ws m) = mmu_base m"
  unfolding writes_def
proof (induction ws arbitrary: m)
  case (Cons w ws)
  have "mmu_wf m" using Cons.prems by (simp add: snap_inv_def)
  then have "mmu_base (snd (mmu_write m (fst w) (snd w))) = mmu_base m"
    by (simp add: mmu_write_eq_bytewise write_bytewise_def write_loop_base)
  then show ?case
    using Cons.IH [OF mmu_write_snap_inv [OF Cons.prems, of "fst w" "snd w"]] by (simp add: case_prod_beta)
qed simp

text \<open>
  C15.  The O(dirty) reset is a full restore: from any memory, switching dirty tracking on, running
  any sequence of writes (also failing, partial and overlapping ones) and calling
  \<open>Mmu::reset_dirty\<close> with the contents and permissions captured at the start gives back exactly
  the memory at the capture, with no block marked dirty.
\<close>

theorem reset_dirty_undoes_writes:
  assumes "mmu_wf m"
  shows "reset_dirty (mmu_mem m) (mmu_perms m) (writes ws (enable_dirty_tracking m)) = enable_dirty_tracking m"
proof -
  have "snap_inv (mmu_mem m) (mmu_perms m) (writes ws (enable_dirty_tracking m))"
    "mmu_base (writes ws (enable_dirty_tracking m)) = mmu_base m"
    using writes_snap_inv [OF enable_snap_inv [OF assms], of ws]
    by (simp_all add: enable_dirty_tracking_def Let_def)
  then show ?thesis using assms by (intro snap_inv_after_capture) simp_all
qed

theorem reset_dirty_undoes_writes_witness:
  "writes [(0x1000, [1, 2]), (0x1005, [3, 4, 5])] (enable_dirty_tracking sample_mmu) \<noteq> enable_dirty_tracking sample_mmu \<and>
   reset_dirty (mmu_mem sample_mmu) (mmu_perms sample_mmu)
     (writes [(0x1000, [1, 2]), (0x1005, [3, 4, 5])] (enable_dirty_tracking sample_mmu)) = enable_dirty_tracking sample_mmu"
proof -
  have "mmu_mem (writes [(0x1000, [1, 2]), (0x1005, [3, 4, 5])] (enable_dirty_tracking sample_mmu)) ! 0 \<noteq>
      mmu_mem (enable_dirty_tracking sample_mmu) ! 0" by code_simp
  then show ?thesis using reset_dirty_undoes_writes [OF sample_wf] by metis
qed

section \<open>Raw pointers\<close>

text \<open>
  The raw pointer handed to generated code is safe: when \<open>Mmu::fast_ptr\<close> grants a pointer for
  a read-modify access of the length of the data, storing the bytes through it leaves exactly the
  memory the checked \<open>Mmu::write\<close> would leave, dirty blocks included, and that write succeeds.
\<close>

lemma fast_ptr_store_is_write:
  assumes "mmu_wf m" "mmu_fast_ptr m addr (length d) (PERM_READ OR PERM_WRITE) = (Some off, m1)"
  shows "mmu_write m addr d = (Inr (), m1\<lparr>mmu_mem := blit (mmu_mem m1) off d\<rparr>)"
  using assms by (rule fast_store_eq_write)

section \<open>The copy-on-write memory\<close>

text \<open>
  C16.  \<open>CowRam\<close> refines \<open>Mmu\<close>: with the abstraction \<open>cow_flat\<close>, which lays the private pages
  over the shared golden image, every sized load and store returns what the flat memory returns
  and commutes with the abstraction, keeps the directory invariant, and never touches the shared
  image.
\<close>

theorem cow_refines_mmu:
  assumes "cow_wf c"
  shows "(cow_load c addr sz, cow_flat c) = mmu_load (cow_flat c) addr sz \<and>
    map_prod id cow_flat (cow_store c addr sz val) = mmu_store (cow_flat c) addr sz val \<and>
    cow_wf (snd (cow_store c addr sz val)) \<and> cow_golden (snd (cow_store c addr sz val)) = cow_golden c"
  using cow_load_flat [OF assms] cow_store_flat [OF assms] by simp

theorem cow_refines_mmu_witness:
  "mmu_store (cow_flat (cow_new sample_golden)) 0x1004 1 0xAB =
     map_prod id cow_flat (cow_store (cow_new sample_golden) 0x1004 1 0xAB)"
  using cow_refines_mmu [OF cow_new_wf [OF sample_golden_wf], of "0x1004" 1 "0xAB"] by simp

text \<open>
  Resetting a lane is complete: after any history that kept the invariant, \<open>CowRam::reset\<close>
  gives a memory equal to a fresh one over the same golden image, and what a fresh one shows, at
  every address, is the memory the image was captured from.
\<close>

lemma cow_reset_restores_capture:
  assumes "mmu_wf m" "unat (mmu_base m) mod 4 = 0" "cow_wf c" "cow_golden c = from_mmu m"
  shows "cow_reset c = cow_new (from_mmu m) \<and> cow_peek (cow_reset c) = mmu_peek m"
  using cow_reset_new [OF assms(3)] cow_new_from_mmu_peek [OF assms(1,2)] assms(4) by simp

text \<open>
  The read-only view of the golden image, which converged lanes share, agrees with a lane that
  has written nothing: \<open>Golden::read_sized\<close> and \<open>Golden::fetch_u16\<close> return a value exactly when the
  lane's checked load or fetch succeeds, and then the same value.
\<close>

lemma golden_reads_agree:
  assumes "golden_wf g"
  shows "(golden_read_sized g addr sz = Some v \<longleftrightarrow> cow_load (cow_new g) addr sz = Inr v) \<and>
    (golden_fetch_u16 g addr = Some w \<longleftrightarrow> cow_ifetch16 (cow_new g) addr = Inr w)"
  using golden_read_sized_load [OF assms] golden_fetch_ifetch [OF assms] by blast

end
