(* ===== verification/Decode.thy ===== *)
theory Decode
  imports Prelude
begin

text \<open>
  The instruction decoder of \<open>crates/fs-riscv/src/lib.rs\<close> (the \<open>Inst\<close> intermediate language,
  \<open>decode\<close>, \<open>decode_compressed\<close> and the scrambled immediates) and the encoders of
  \<open>crates/fs-riscv/src/asm.rs\<close>.  An \<open>i32\<close> is the 32-bit word of its two's complement; \<open>>>\<close> on
  an \<open>i32\<close> is \<open>signed_drop_bit\<close>.  Shown: every register index the decoders produce is below 32,
  the decoder undoes the encoders on every operand in range, and compressed forms expand to
  instructions the 32-bit encoding also has.
\<close>

section \<open>The instruction language\<close>

datatype alu_op = AAdd | ASub | ASll | ASlt | ASltu | AXor | ASrl | ASra | AOr | AAnd
datatype mul_op = MMul | MMulh | MMulhsu | MMulhu | MDiv | MDivu | MRem | MRemu
datatype amo_op = AmoSwap | AmoAdd | AmoXor | AmoAnd | AmoOr | AmoMin | AmoMax | AmoMinu | AmoMaxu
datatype branch_op = BEq | BNe | BLt | BGe | BLtu | BGeu
datatype load_op = Lb | Lh | Lw | Lbu | Lhu
datatype store_op = Sb | Sh | Sw
datatype csr_op = Rw | Rs | Rc | Rwi | Rsi | Rci

datatype inst =
    Lui u8 u32
  | Auipc u8 u32
  | Jal u8 u32
  | Jalr u8 u8 u32
  | Branch branch_op u8 u8 u32
  | Load load_op u8 u8 u32
  | Store store_op u8 u8 u32
  | OpImm alu_op u8 u8 u32
  | Op alu_op u8 u8 u8
  | Mul mul_op u8 u8 u8
  | LrW u8 u8 bool bool
  | ScW u8 u8 u8 bool bool
  | AmoW amo_op u8 u8 u8 bool bool
  | Fence
  | Ecall
  | Ebreak
  | Csr csr_op u8 u8 u16
  | Mret
  | Sret
  | Wfi
  | SfenceVma
  | Illegal u32

definition sext :: "u32 \<Rightarrow> nat \<Rightarrow> u32" where
  "sext v bits = (let shift = 32 - bits in signed_drop_bit shift (push_bit shift v))"

section \<open>32-bit encodings\<close>

definition i_imm :: "u32 \<Rightarrow> u32" where
  "i_imm raw = signed_drop_bit 20 raw"

definition s_imm :: "u32 \<Rightarrow> u32" where
  "s_imm raw = signed_drop_bit 20 (raw AND 0xfe000000) OR (drop_bit 7 raw AND 0x1f)"

definition b_imm :: "u32 \<Rightarrow> u32" where
  "b_imm raw = sext
     (push_bit 12 (drop_bit 31 raw AND 1) OR push_bit 11 (drop_bit 7 raw AND 1)
      OR push_bit 5 (drop_bit 25 raw AND 0x3f) OR push_bit 1 (drop_bit 8 raw AND 0xf)) 13"

definition u_imm :: "u32 \<Rightarrow> u32" where
  "u_imm raw = raw AND 0xfffff000"

definition j_imm :: "u32 \<Rightarrow> u32" where
  "j_imm raw = sext
     (push_bit 20 (drop_bit 31 raw AND 1) OR push_bit 1 (drop_bit 21 raw AND 0x3ff)
      OR push_bit 11 (drop_bit 20 raw AND 1) OR push_bit 12 (drop_bit 12 raw AND 0xff)) 21"

definition decode_branch :: "u32 \<Rightarrow> u32 \<Rightarrow> u8 \<Rightarrow> u8 \<Rightarrow> inst" where
  "decode_branch raw funct3 rs1 rs2 =
     (if funct3 = 0 then Branch BEq rs1 rs2 (b_imm raw)
      else if funct3 = 1 then Branch BNe rs1 rs2 (b_imm raw)
      else if funct3 = 4 then Branch BLt rs1 rs2 (b_imm raw)
      else if funct3 = 5 then Branch BGe rs1 rs2 (b_imm raw)
      else if funct3 = 6 then Branch BLtu rs1 rs2 (b_imm raw)
      else if funct3 = 7 then Branch BGeu rs1 rs2 (b_imm raw)
      else Illegal raw)"

definition decode_load :: "u32 \<Rightarrow> u32 \<Rightarrow> u8 \<Rightarrow> u8 \<Rightarrow> inst" where
  "decode_load raw funct3 rd rs1 =
     (if funct3 = 0 then Load Lb rd rs1 (i_imm raw)
      else if funct3 = 1 then Load Lh rd rs1 (i_imm raw)
      else if funct3 = 2 then Load Lw rd rs1 (i_imm raw)
      else if funct3 = 4 then Load Lbu rd rs1 (i_imm raw)
      else if funct3 = 5 then Load Lhu rd rs1 (i_imm raw)
      else Illegal raw)"

definition decode_store :: "u32 \<Rightarrow> u32 \<Rightarrow> u8 \<Rightarrow> u8 \<Rightarrow> inst" where
  "decode_store raw funct3 rs1 rs2 =
     (if funct3 = 0 then Store Sb rs1 rs2 (s_imm raw)
      else if funct3 = 1 then Store Sh rs1 rs2 (s_imm raw)
      else if funct3 = 2 then Store Sw rs1 rs2 (s_imm raw)
      else Illegal raw)"

definition decode_op_imm :: "u32 \<Rightarrow> u32 \<Rightarrow> u32 \<Rightarrow> u8 \<Rightarrow> u8 \<Rightarrow> u8 \<Rightarrow> inst" where
  "decode_op_imm raw funct3 funct7 rd rs1 rs2 =
     (let shamt = ucast rs2 AND 0x1f in
      if funct3 = 0 then OpImm AAdd rd rs1 (i_imm raw)
      else if funct3 = 2 then OpImm ASlt rd rs1 (i_imm raw)
      else if funct3 = 3 then OpImm ASltu rd rs1 (i_imm raw)
      else if funct3 = 4 then OpImm AXor rd rs1 (i_imm raw)
      else if funct3 = 6 then OpImm AOr rd rs1 (i_imm raw)
      else if funct3 = 7 then OpImm AAnd rd rs1 (i_imm raw)
      else if funct3 = 1 \<and> funct7 = 0 then OpImm ASll rd rs1 shamt
      else if funct3 = 5 \<and> funct7 = 0 then OpImm ASrl rd rs1 shamt
      else if funct3 = 5 \<and> funct7 = 0x20 then OpImm ASra rd rs1 shamt
      else Illegal raw)"

definition decode_mul :: "u32 \<Rightarrow> u32 \<Rightarrow> u8 \<Rightarrow> u8 \<Rightarrow> u8 \<Rightarrow> inst" where
  "decode_mul raw funct3 rd rs1 rs2 =
     (if funct3 = 0 then Mul MMul rd rs1 rs2
      else if funct3 = 1 then Mul MMulh rd rs1 rs2
      else if funct3 = 2 then Mul MMulhsu rd rs1 rs2
      else if funct3 = 3 then Mul MMulhu rd rs1 rs2
      else if funct3 = 4 then Mul MDiv rd rs1 rs2
      else if funct3 = 5 then Mul MDivu rd rs1 rs2
      else if funct3 = 6 then Mul MRem rd rs1 rs2
      else if funct3 = 7 then Mul MRemu rd rs1 rs2
      else Illegal raw)"

definition decode_op :: "u32 \<Rightarrow> u32 \<Rightarrow> u32 \<Rightarrow> u8 \<Rightarrow> u8 \<Rightarrow> u8 \<Rightarrow> inst" where
  "decode_op raw funct3 funct7 rd rs1 rs2 =
     (if funct3 = 0 \<and> funct7 = 0 then Op AAdd rd rs1 rs2
      else if funct3 = 0 \<and> funct7 = 0x20 then Op ASub rd rs1 rs2
      else if funct3 = 1 \<and> funct7 = 0 then Op ASll rd rs1 rs2
      else if funct3 = 2 \<and> funct7 = 0 then Op ASlt rd rs1 rs2
      else if funct3 = 3 \<and> funct7 = 0 then Op ASltu rd rs1 rs2
      else if funct3 = 4 \<and> funct7 = 0 then Op AXor rd rs1 rs2
      else if funct3 = 5 \<and> funct7 = 0 then Op ASrl rd rs1 rs2
      else if funct3 = 5 \<and> funct7 = 0x20 then Op ASra rd rs1 rs2
      else if funct3 = 6 \<and> funct7 = 0 then Op AOr rd rs1 rs2
      else if funct3 = 7 \<and> funct7 = 0 then Op AAnd rd rs1 rs2
      else Illegal raw)"

definition decode_amo :: "u32 \<Rightarrow> u8 \<Rightarrow> u8 \<Rightarrow> u8 \<Rightarrow> inst" where
  "decode_amo raw rd rs1 rs2 =
     (let funct5 = drop_bit 27 raw AND 0x1f;
          aq = drop_bit 26 raw AND 1 \<noteq> 0;
          rl = drop_bit 25 raw AND 1 \<noteq> 0 in
      if funct5 = 0x02 then LrW rd rs1 aq rl
      else if funct5 = 0x03 then ScW rd rs1 rs2 aq rl
      else if funct5 = 0x00 then AmoW AmoAdd rd rs1 rs2 aq rl
      else if funct5 = 0x01 then AmoW AmoSwap rd rs1 rs2 aq rl
      else if funct5 = 0x04 then AmoW AmoXor rd rs1 rs2 aq rl
      else if funct5 = 0x08 then AmoW AmoOr rd rs1 rs2 aq rl
      else if funct5 = 0x0c then AmoW AmoAnd rd rs1 rs2 aq rl
      else if funct5 = 0x10 then AmoW AmoMin rd rs1 rs2 aq rl
      else if funct5 = 0x14 then AmoW AmoMax rd rs1 rs2 aq rl
      else if funct5 = 0x18 then AmoW AmoMinu rd rs1 rs2 aq rl
      else if funct5 = 0x1c then AmoW AmoMaxu rd rs1 rs2 aq rl
      else Illegal raw)"

definition decode_system :: "u32 \<Rightarrow> u32 \<Rightarrow> u32 \<Rightarrow> u8 \<Rightarrow> u8 \<Rightarrow> inst" where
  "decode_system raw funct3 funct7 rd rs1 =
     (let csr = ucast (drop_bit 20 raw AND 0xfff) in
      if funct3 = 0 then
        (if raw = 0x00000073 then Ecall
         else if raw = 0x00100073 then Ebreak
         else if raw = 0x30200073 then Mret
         else if raw = 0x10200073 then Sret
         else if raw = 0x10500073 then Wfi
         else if funct7 = 0x09 then SfenceVma
         else Illegal raw)
      else if funct3 = 1 then Csr Rw rd rs1 csr
      else if funct3 = 2 then Csr Rs rd rs1 csr
      else if funct3 = 3 then Csr Rc rd rs1 csr
      else if funct3 = 5 then Csr Rwi rd rs1 csr
      else if funct3 = 6 then Csr Rsi rd rs1 csr
      else if funct3 = 7 then Csr Rci rd rs1 csr
      else Illegal raw)"

definition decode :: "u32 \<Rightarrow> inst" where
  "decode raw =
     (let opcode = raw AND 0x7f;
          rd = ucast (drop_bit 7 raw AND 0x1f);
          funct3 = drop_bit 12 raw AND 0x7;
          rs1 = ucast (drop_bit 15 raw AND 0x1f);
          rs2 = ucast (drop_bit 20 raw AND 0x1f);
          funct7 = drop_bit 25 raw AND 0x7f in
      if opcode = 0x37 then Lui rd (u_imm raw)
      else if opcode = 0x17 then Auipc rd (u_imm raw)
      else if opcode = 0x6f then Jal rd (j_imm raw)
      else if opcode = 0x67 \<and> funct3 = 0 then Jalr rd rs1 (i_imm raw)
      else if opcode = 0x63 then decode_branch raw funct3 rs1 rs2
      else if opcode = 0x03 then decode_load raw funct3 rd rs1
      else if opcode = 0x23 then decode_store raw funct3 rs1 rs2
      else if opcode = 0x13 then decode_op_imm raw funct3 funct7 rd rs1 rs2
      else if opcode = 0x33 \<and> funct7 = 0x01 then decode_mul raw funct3 rd rs1 rs2
      else if opcode = 0x33 then decode_op raw funct3 funct7 rd rs1 rs2
      else if opcode = 0x2f \<and> funct3 = 2 then decode_amo raw rd rs1 rs2
      else if opcode = 0x0f then Fence
      else if opcode = 0x73 then decode_system raw funct3 funct7 rd rs1
      else Illegal raw)"

section \<open>Compressed encodings\<close>

definition cj_imm :: "u32 \<Rightarrow> u32" where
  "cj_imm h = sext
     (push_bit 11 (drop_bit 12 h AND 1) OR push_bit 4 (drop_bit 11 h AND 1)
      OR push_bit 8 (drop_bit 9 h AND 0x3) OR push_bit 10 (drop_bit 8 h AND 1)
      OR push_bit 6 (drop_bit 7 h AND 1) OR push_bit 7 (drop_bit 6 h AND 1)
      OR push_bit 1 (drop_bit 3 h AND 0x7) OR push_bit 5 (drop_bit 2 h AND 1)) 12"

definition cb_imm :: "u32 \<Rightarrow> u32" where
  "cb_imm h = sext
     (push_bit 8 (drop_bit 12 h AND 1) OR push_bit 3 (drop_bit 10 h AND 0x3)
      OR push_bit 6 (drop_bit 5 h AND 0x3) OR push_bit 1 (drop_bit 3 h AND 0x3)
      OR push_bit 5 (drop_bit 2 h AND 1)) 9"

definition decode_c0 :: "u32 \<Rightarrow> u32 \<Rightarrow> u8 \<Rightarrow> u8 \<Rightarrow> inst" where
  "decode_c0 h funct3 rd_c rs1_c =
     (let off = push_bit 3 (drop_bit 10 h AND 0x7) OR push_bit 2 (drop_bit 6 h AND 0x1)
                OR push_bit 6 (drop_bit 5 h AND 0x1) in
      if funct3 = 0 then
        (let imm = push_bit 4 (drop_bit 11 h AND 0x3) OR push_bit 6 (drop_bit 7 h AND 0xf)
                   OR push_bit 2 (drop_bit 6 h AND 0x1) OR push_bit 3 (drop_bit 5 h AND 0x1) in
         if imm = 0 then Illegal h else OpImm AAdd rd_c 2 imm)
      else if funct3 = 2 then Load Lw rd_c rs1_c off
      else if funct3 = 6 then Store Sw rs1_c rd_c off
      else Illegal h)"

definition decode_c1_arith :: "u32 \<Rightarrow> u8 \<Rightarrow> u8 \<Rightarrow> inst" where
  "decode_c1_arith h rd_c rs1_c =
     (let funct2 = drop_bit 10 h AND 0x3;
          shamt = push_bit 5 (drop_bit 12 h AND 1) OR (drop_bit 2 h AND 0x1f) in
      if funct2 = 0 then OpImm ASrl rs1_c rs1_c shamt
      else if funct2 = 1 then OpImm ASra rs1_c rs1_c shamt
      else if funct2 = 2 then OpImm AAnd rs1_c rs1_c (sext shamt 6)
      else
        (let b12 = drop_bit 12 h AND 1; b65 = drop_bit 5 h AND 0x3 in
         if b12 = 0 \<and> b65 = 0 then Op ASub rs1_c rs1_c rd_c
         else if b12 = 0 \<and> b65 = 1 then Op AXor rs1_c rs1_c rd_c
         else if b12 = 0 \<and> b65 = 2 then Op AOr rs1_c rs1_c rd_c
         else if b12 = 0 \<and> b65 = 3 then Op AAnd rs1_c rs1_c rd_c
         else Illegal h))"

definition decode_c1_lui :: "u32 \<Rightarrow> u8 \<Rightarrow> inst" where
  "decode_c1_lui h rd =
     (if rd = 2 then
        (let imm = sext (push_bit 9 (drop_bit 12 h AND 1) OR push_bit 4 (drop_bit 6 h AND 1)
                     OR push_bit 6 (drop_bit 5 h AND 1) OR push_bit 7 (drop_bit 3 h AND 0x3)
                     OR push_bit 5 (drop_bit 2 h AND 1)) 10 in
         if imm = 0 then Illegal h else OpImm AAdd 2 2 imm)
      else if rd \<noteq> 0 then
        (let imm = sext (push_bit 17 (drop_bit 12 h AND 1) OR push_bit 12 (drop_bit 2 h AND 0x1f)) 18 in
         if imm = 0 then Illegal h else Lui rd imm)
      else Illegal h)"

definition decode_c1 :: "u32 \<Rightarrow> u32 \<Rightarrow> u8 \<Rightarrow> u8 \<Rightarrow> inst" where
  "decode_c1 h funct3 rd_c rs1_c =
     (let rd = ucast (drop_bit 7 h AND 0x1f);
          imm = sext (push_bit 5 (drop_bit 12 h AND 1) OR (drop_bit 2 h AND 0x1f)) 6 in
      if funct3 = 0 then OpImm AAdd rd rd imm
      else if funct3 = 1 then Jal 1 (cj_imm h)
      else if funct3 = 2 then OpImm AAdd rd 0 imm
      else if funct3 = 3 then decode_c1_lui h rd
      else if funct3 = 4 then decode_c1_arith h rd_c rs1_c
      else if funct3 = 5 then Jal 0 (cj_imm h)
      else if funct3 = 6 then Branch BEq rs1_c 0 (cb_imm h)
      else if funct3 = 7 then Branch BNe rs1_c 0 (cb_imm h)
      else Illegal h)"

definition decode_c2 :: "u32 \<Rightarrow> u32 \<Rightarrow> inst" where
  "decode_c2 h funct3 =
     (let rd = ucast (drop_bit 7 h AND 0x1f); rs2 = ucast (drop_bit 2 h AND 0x1f) in
      if funct3 = 0 then
        OpImm ASll rd rd (push_bit 5 (drop_bit 12 h AND 1) OR (drop_bit 2 h AND 0x1f))
      else if funct3 = 2 then
        (if rd = 0 then Illegal h
         else Load Lw rd 2 (push_bit 5 (drop_bit 12 h AND 1) OR push_bit 2 (drop_bit 4 h AND 0x7)
                            OR push_bit 6 (drop_bit 2 h AND 0x3)))
      else if funct3 = 4 then
        (let b12 = drop_bit 12 h AND 1 in
         if b12 = 0 \<and> rd = 0 then Illegal h
         else if b12 = 0 \<and> rs2 = 0 then Jalr 0 rd 0
         else if b12 = 0 then Op AAdd rd 0 rs2
         else if rd = 0 \<and> rs2 = 0 then Ebreak
         else if rs2 = 0 then Jalr 1 rd 0
         else Op AAdd rd rd rs2)
      else if funct3 = 6 then
        Store Sw 2 rs2 (push_bit 2 (drop_bit 9 h AND 0xf) OR push_bit 6 (drop_bit 7 h AND 0x3))
      else Illegal h)"

definition decode_compressed :: "u16 \<Rightarrow> inst" where
  "decode_compressed half =
     (let h = ucast half :: u32;
          op = h AND 0x3;
          funct3 = drop_bit 13 h AND 0x7;
          rd_c = ucast (8 + (drop_bit 2 h AND 0x7));
          rs1_c = ucast (8 + (drop_bit 7 h AND 0x7)) in
      if op = 0 then decode_c0 h funct3 rd_c rs1_c
      else if op = 1 then decode_c1 h funct3 rd_c rs1_c
      else if op = 2 then decode_c2 h funct3
      else Illegal h)"

section \<open>The encoders\<close>

definition i_type :: "u32 \<Rightarrow> u32 \<Rightarrow> u8 \<Rightarrow> u8 \<Rightarrow> u32 \<Rightarrow> u32" where
  "i_type op funct3 rd rs1 imm =
     push_bit 20 (imm AND 0xfff) OR push_bit 15 (ucast rs1) OR push_bit 12 funct3
     OR push_bit 7 (ucast rd) OR op"

definition r_type :: "u32 \<Rightarrow> u32 \<Rightarrow> u32 \<Rightarrow> u8 \<Rightarrow> u8 \<Rightarrow> u8 \<Rightarrow> u32" where
  "r_type op funct3 funct7 rd rs1 rs2 =
     push_bit 25 funct7 OR push_bit 20 (ucast rs2) OR push_bit 15 (ucast rs1)
     OR push_bit 12 funct3 OR push_bit 7 (ucast rd) OR op"

definition b_type :: "u32 \<Rightarrow> u32 \<Rightarrow> u8 \<Rightarrow> u8 \<Rightarrow> u32 \<Rightarrow> u32" where
  "b_type op funct3 rs1 rs2 i =
     push_bit 31 (drop_bit 12 i AND 1) OR push_bit 25 (drop_bit 5 i AND 0x3f)
     OR push_bit 20 (ucast rs2) OR push_bit 15 (ucast rs1) OR push_bit 12 funct3
     OR push_bit 8 (drop_bit 1 i AND 0xf) OR push_bit 7 (drop_bit 11 i AND 1) OR op"

definition j_type :: "u32 \<Rightarrow> u8 \<Rightarrow> u32 \<Rightarrow> u32" where
  "j_type op rd i =
     push_bit 31 (drop_bit 20 i AND 1) OR push_bit 21 (drop_bit 1 i AND 0x3ff)
     OR push_bit 20 (drop_bit 11 i AND 1) OR push_bit 12 (drop_bit 12 i AND 0xff)
     OR push_bit 7 (ucast rd) OR op"

definition asm_lui :: "u8 \<Rightarrow> u32 \<Rightarrow> u32" where
  "asm_lui rd imm = (imm AND 0xfffff000) OR push_bit 7 (ucast rd) OR 0x37"

definition asm_addi :: "u8 \<Rightarrow> u8 \<Rightarrow> u32 \<Rightarrow> u32" where
  "asm_addi rd rs1 imm = i_type 0x13 0 rd rs1 imm"

definition asm_add :: "u8 \<Rightarrow> u8 \<Rightarrow> u8 \<Rightarrow> u32" where
  "asm_add rd rs1 rs2 = r_type 0x33 0 0x00 rd rs1 rs2"

definition asm_sub :: "u8 \<Rightarrow> u8 \<Rightarrow> u8 \<Rightarrow> u32" where
  "asm_sub rd rs1 rs2 = r_type 0x33 0 0x20 rd rs1 rs2"

definition asm_mul :: "u8 \<Rightarrow> u8 \<Rightarrow> u8 \<Rightarrow> u32" where
  "asm_mul rd rs1 rs2 = r_type 0x33 0 0x01 rd rs1 rs2"

definition asm_divu :: "u8 \<Rightarrow> u8 \<Rightarrow> u8 \<Rightarrow> u32" where
  "asm_divu rd rs1 rs2 = r_type 0x33 5 0x01 rd rs1 rs2"

definition asm_beq :: "u8 \<Rightarrow> u8 \<Rightarrow> u32 \<Rightarrow> u32" where
  "asm_beq rs1 rs2 imm = b_type 0x63 0 rs1 rs2 imm"

definition asm_bne :: "u8 \<Rightarrow> u8 \<Rightarrow> u32 \<Rightarrow> u32" where
  "asm_bne rs1 rs2 imm = b_type 0x63 1 rs1 rs2 imm"

definition asm_bge :: "u8 \<Rightarrow> u8 \<Rightarrow> u32 \<Rightarrow> u32" where
  "asm_bge rs1 rs2 imm = b_type 0x63 5 rs1 rs2 imm"

definition asm_jal :: "u8 \<Rightarrow> u32 \<Rightarrow> u32" where
  "asm_jal rd imm = j_type 0x6f rd imm"

definition asm_ecall :: u32 where "asm_ecall = 0x00000073"

definition asm_lw :: "u8 \<Rightarrow> u8 \<Rightarrow> u32 \<Rightarrow> u32" where
  "asm_lw rd rs1 imm = i_type 0x03 2 rd rs1 imm"

definition asm_sw :: "u8 \<Rightarrow> u8 \<Rightarrow> u32 \<Rightarrow> u32" where
  "asm_sw rs1 rs2 i =
     push_bit 25 (drop_bit 5 i AND 0x7f) OR push_bit 20 (ucast rs2) OR push_bit 15 (ucast rs1)
     OR push_bit 12 2 OR push_bit 7 (i AND 0x1f) OR 0x23"

definition asm_amo :: "u32 \<Rightarrow> u8 \<Rightarrow> u8 \<Rightarrow> u8 \<Rightarrow> u32" where
  "asm_amo funct5 rd rs1 rs2 =
     push_bit 27 funct5 OR push_bit 20 (ucast rs2) OR push_bit 15 (ucast rs1) OR push_bit 12 2
     OR push_bit 7 (ucast rd) OR 0x2f"

definition asm_lr_w :: "u8 \<Rightarrow> u8 \<Rightarrow> u32" where
  "asm_lr_w rd rs1 = asm_amo 0x02 rd rs1 0"

definition asm_sc_w :: "u8 \<Rightarrow> u8 \<Rightarrow> u8 \<Rightarrow> u32" where
  "asm_sc_w rd rs1 rs2 = asm_amo 0x03 rd rs1 rs2"

definition asm_amoadd_w :: "u8 \<Rightarrow> u8 \<Rightarrow> u8 \<Rightarrow> u32" where
  "asm_amoadd_w rd rs1 rs2 = asm_amo 0x00 rd rs1 rs2"

definition asm_amoswap_w :: "u8 \<Rightarrow> u8 \<Rightarrow> u8 \<Rightarrow> u32" where
  "asm_amoswap_w rd rs1 rs2 = asm_amo 0x01 rd rs1 rs2"

section \<open>Fields\<close>

lemma and_low_mask:
  "w AND 1 = take_bit 1 w" "w AND 0x3 = take_bit 2 w" "w AND 0x7 = take_bit 3 w"
  "w AND 0xf = take_bit 4 w" "w AND 0x1f = take_bit 5 w" "w AND 0x3f = take_bit 6 w"
  "w AND 0x7f = take_bit 7 w" "w AND 0xff = take_bit 8 w" "w AND 0x3ff = take_bit 10 w"
  "w AND 0xfff = take_bit 12 w" for w :: "'a::len word"
  by (simp_all add: take_bit_eq_mask mask_eq_exp_minus_1)

lemma no_high_bits: "w < 2 ^ k \<Longrightarrow> k \<le> n \<Longrightarrow> \<not> bit w n" for w :: "'a::len word"
  by (metis bit_take_bit_iff leD less_mask_eq take_bit_eq_mask)

definition s_type :: "u32 \<Rightarrow> u32 \<Rightarrow> u8 \<Rightarrow> u8 \<Rightarrow> u32 \<Rightarrow> u32" where
  "s_type op funct3 rs1 rs2 i =
     push_bit 25 (drop_bit 5 i AND 0x7f) OR push_bit 20 (ucast rs2) OR push_bit 15 (ucast rs1)
     OR push_bit 12 funct3 OR push_bit 7 (i AND 0x1f) OR op"

definition u_type :: "u32 \<Rightarrow> u8 \<Rightarrow> u32 \<Rightarrow> u32" where
  "u_type op rd imm = (imm AND 0xfffff000) OR push_bit 7 (ucast rd) OR op"

declare bit_numeral_word_iff [simp del] push_bit_Suc [simp del]

text \<open>The bits of each format, by field.\<close>

lemmas field_arith = less_diff_conv2 bit_iff_odd_drop_bit [symmetric]

lemma Suc_sub_field [simp]: "8 \<le> n \<Longrightarrow> Suc (n - 8) = n - 7" "21 \<le> n \<Longrightarrow> Suc (n - 21) = n - 20"
  by simp_all

lemma bit_i_type:
  assumes "op < 2 ^ 7" "f3 < 2 ^ 3" "rd < 2 ^ 5" "rs1 < 2 ^ 5" "n < 32"
  shows "bit (i_type op f3 rd rs1 imm) n =
    (if n < 7 then bit op n else if n < 12 then bit rd (n - 7) else if n < 15 then bit f3 (n - 12)
     else if n < 20 then bit rs1 (n - 15) else bit imm (n - 20))"
proof -
  note hi = no_high_bits [OF assms(1)] no_high_bits [OF assms(2)] no_high_bits [OF assms(3)]
    no_high_bits [OF assms(4)]
  consider "n < 7" | "7 \<le> n" "n < 12" | "12 \<le> n" "n < 15" | "15 \<le> n" "n < 20" | "20 \<le> n"
    by linarith
  then show ?thesis
    unfolding i_type_def and_low_mask by cases (use assms(5) in \<open>simp_all add: bit_simps hi field_arith\<close>)
qed

lemma bit_r_type:
  assumes "op < 2 ^ 7" "f3 < 2 ^ 3" "f7 < 2 ^ 7" "rd < 2 ^ 5" "rs1 < 2 ^ 5" "rs2 < 2 ^ 5" "n < 32"
  shows "bit (r_type op f3 f7 rd rs1 rs2) n =
    (if n < 7 then bit op n else if n < 12 then bit rd (n - 7) else if n < 15 then bit f3 (n - 12)
     else if n < 20 then bit rs1 (n - 15) else if n < 25 then bit rs2 (n - 20) else bit f7 (n - 25))"
proof -
  note hi = no_high_bits [OF assms(1)] no_high_bits [OF assms(2)] no_high_bits [OF assms(3)]
    no_high_bits [OF assms(4)] no_high_bits [OF assms(5)] no_high_bits [OF assms(6)]
  consider "n < 7" | "7 \<le> n" "n < 12" | "12 \<le> n" "n < 15" | "15 \<le> n" "n < 20"
    | "20 \<le> n" "n < 25" | "25 \<le> n" by linarith
  then show ?thesis
    unfolding r_type_def by cases (use assms(7) in \<open>simp_all add: bit_simps hi field_arith\<close>)
qed

lemma bit_s_type:
  assumes "op < 2 ^ 7" "f3 < 2 ^ 3" "rs1 < 2 ^ 5" "rs2 < 2 ^ 5" "n < 32"
  shows "bit (s_type op f3 rs1 rs2 imm) n =
    (if n < 7 then bit op n else if n < 12 then bit imm (n - 7) else if n < 15 then bit f3 (n - 12)
     else if n < 20 then bit rs1 (n - 15) else if n < 25 then bit rs2 (n - 20) else bit imm (n - 20))"
proof -
  note hi = no_high_bits [OF assms(1)] no_high_bits [OF assms(2)] no_high_bits [OF assms(3)]
    no_high_bits [OF assms(4)]
  consider "n < 7" | "7 \<le> n" "n < 12" | "12 \<le> n" "n < 15" | "15 \<le> n" "n < 20"
    | "20 \<le> n" "n < 25" | "25 \<le> n" by linarith
  then show ?thesis
    unfolding s_type_def and_low_mask by cases (use assms(5) in \<open>simp_all add: bit_simps hi field_arith\<close>)
qed

lemma bit_b_type:
  assumes "op < 2 ^ 7" "f3 < 2 ^ 3" "rs1 < 2 ^ 5" "rs2 < 2 ^ 5" "n < 32"
  shows "bit (b_type op f3 rs1 rs2 imm) n =
    (if n < 7 then bit op n else if n = 7 then bit imm 11 else if n < 12 then bit imm (n - 7)
     else if n < 15 then bit f3 (n - 12) else if n < 20 then bit rs1 (n - 15)
     else if n < 25 then bit rs2 (n - 20) else if n < 31 then bit imm (n - 20) else bit imm 12)"
proof -
  note hi = no_high_bits [OF assms(1)] no_high_bits [OF assms(2)] no_high_bits [OF assms(3)]
    no_high_bits [OF assms(4)]
  consider "n < 7" | "n = 7" | "8 \<le> n" "n < 12" | "12 \<le> n" "n < 15" | "15 \<le> n" "n < 20"
    | "20 \<le> n" "n < 25" | "25 \<le> n" "n < 31" | "n = 31" using assms(5) by linarith
  then show ?thesis
    unfolding b_type_def and_low_mask by cases (simp_all add: bit_simps hi field_arith)
qed

lemma bit_j_type:
  assumes "op < 2 ^ 7" "rd < 2 ^ 5" "n < 32"
  shows "bit (j_type op rd imm) n =
    (if n < 7 then bit op n else if n < 12 then bit rd (n - 7) else if n < 20 then bit imm n
     else if n = 20 then bit imm 11 else if n < 31 then bit imm (n - 20) else bit imm 20)"
proof -
  note hi = no_high_bits [OF assms(1)] no_high_bits [OF assms(2)]
  consider "n < 7" | "7 \<le> n" "n < 12" | "12 \<le> n" "n < 20" | "n = 20" | "21 \<le> n" "n < 31" | "n = 31"
    using assms(3) by linarith
  then show ?thesis
    unfolding j_type_def and_low_mask by cases (simp_all add: bit_simps hi field_arith)
qed

lemma bit_upper_mask: "bit (0xfffff000 :: u32) n \<longleftrightarrow> 12 \<le> n \<and> n < 32"
  "bit (0xfe000000 :: u32) n \<longleftrightarrow> 25 \<le> n \<and> n < 32"
proof -
  have e: "(0xfffff000 :: u32) = push_bit 12 (mask 20)" "(0xfe000000 :: u32) = push_bit 25 (mask 7)"
    by (simp_all add: mask_eq_exp_minus_1 push_bit_eq_mult)
  show "bit (0xfffff000 :: u32) n \<longleftrightarrow> 12 \<le> n \<and> n < 32"
    "bit (0xfe000000 :: u32) n \<longleftrightarrow> 25 \<le> n \<and> n < 32"
    unfolding e by (auto simp: bit_simps)
qed

lemma bit_u_type:
  assumes "op < 2 ^ 7" "rd < 2 ^ 5" "n < 32"
  shows "bit (u_type op rd imm) n =
    (if n < 7 then bit op n else if n < 12 then bit rd (n - 7) else bit imm n)"
proof -
  note hi = no_high_bits [OF assms(1)] no_high_bits [OF assms(2)]
  consider "n < 7" | "7 \<le> n" "n < 12" | "12 \<le> n" by linarith
  then show ?thesis
    unfolding u_type_def by cases (use assms(3) in \<open>simp_all add: bit_or_iff bit_and_iff bit_push_bit_iff bit_unsigned_iff bit_upper_mask hi field_arith\<close>)
qed

text \<open>Reading a field back.\<close>

lemma take_field:
  fixes f w :: u32
  assumes "f < 2 ^ k" "\<And>n. n < k \<Longrightarrow> bit w (off + n) = bit f n" "k \<le> 32"
  shows "take_bit k (drop_bit off w) = f"
proof (rule bit_word_eqI)
  fix n assume "n < LENGTH(32)"
  show "bit (take_bit k (drop_bit off w)) n = bit f n"
    using assms(2) [of n] no_high_bits [OF assms(1), of n] by (cases "n < k") (auto simp: bit_simps)
qed

lemma take_reg:
  fixes f :: u8 and w :: u32
  assumes "f < 2 ^ 5" "\<And>n. n < 5 \<Longrightarrow> bit w (off + n) = bit f n"
  shows "ucast (take_bit 5 (drop_bit off w)) = f"
proof (rule bit_word_eqI)
  fix n assume "n < LENGTH(8)"
  then show "bit (ucast (take_bit 5 (drop_bit off w)) :: u8) n = bit f n"
    using assms(2) [of n] no_high_bits [OF assms(1), of n] by (cases "n < 5") (auto simp: bit_simps)
qed

lemma take_op:
  fixes f w :: u32
  assumes "f < 2 ^ 7" "\<And>n. n < 7 \<Longrightarrow> bit w n = bit f n"
  shows "take_bit 7 w = f"
  using take_field [OF assms(1), of w 0] assms(2) by simp

lemma bit_sext:
  assumes "0 < k" "k \<le> 32" "n < 32"
  shows "bit (sext v k) n = bit v (if n < k then n else k - 1)"
  using assms by (auto simp: sext_def Let_def bit_simps)

lemma i_type_fields:
  assumes "op < 2 ^ 7" "f3 < 2 ^ 3" "rd < 2 ^ 5" "rs1 < 2 ^ 5"
  shows "take_bit 7 (i_type op f3 rd rs1 imm) = op"
    "ucast (take_bit 5 (drop_bit 7 (i_type op f3 rd rs1 imm))) = rd"
    "take_bit 3 (drop_bit 12 (i_type op f3 rd rs1 imm)) = f3"
    "ucast (take_bit 5 (drop_bit 15 (i_type op f3 rd rs1 imm))) = rs1"
    "i_imm (i_type op f3 rd rs1 imm) = sext imm 12"
    "take_bit 12 (drop_bit 20 (i_type op f3 rd rs1 imm)) = take_bit 12 imm"
proof -
  note b = bit_i_type [OF assms]
  show "take_bit 7 (i_type op f3 rd rs1 imm) = op"
    "ucast (take_bit 5 (drop_bit 7 (i_type op f3 rd rs1 imm))) = rd"
    "take_bit 3 (drop_bit 12 (i_type op f3 rd rs1 imm)) = f3"
    "ucast (take_bit 5 (drop_bit 15 (i_type op f3 rd rs1 imm))) = rs1"
    by (rule take_op take_reg take_field; use assms in \<open>simp add: b\<close>)+
  show "i_imm (i_type op f3 rd rs1 imm) = sext imm 12"
    by (rule bit_word_eqI) (auto simp: i_imm_def bit_signed_drop_bit_iff b bit_sext)
  show "take_bit 12 (drop_bit 20 (i_type op f3 rd rs1 imm)) = take_bit 12 imm"
    by (rule bit_word_eqI) (auto simp: bit_take_bit_iff bit_drop_bit_eq b)
qed

lemma r_type_fields:
  assumes "op < 2 ^ 7" "f3 < 2 ^ 3" "f7 < 2 ^ 7" "rd < 2 ^ 5" "rs1 < 2 ^ 5" "rs2 < 2 ^ 5"
  shows "take_bit 7 (r_type op f3 f7 rd rs1 rs2) = op"
    "ucast (take_bit 5 (drop_bit 7 (r_type op f3 f7 rd rs1 rs2))) = rd"
    "take_bit 3 (drop_bit 12 (r_type op f3 f7 rd rs1 rs2)) = f3"
    "ucast (take_bit 5 (drop_bit 15 (r_type op f3 f7 rd rs1 rs2))) = rs1"
    "ucast (take_bit 5 (drop_bit 20 (r_type op f3 f7 rd rs1 rs2))) = rs2"
    "take_bit 7 (drop_bit 25 (r_type op f3 f7 rd rs1 rs2)) = f7"
  by (rule take_op take_reg take_field; use assms in \<open>simp add: bit_r_type [OF assms]\<close>)+

lemma s_type_fields:
  assumes "op < 2 ^ 7" "f3 < 2 ^ 3" "rs1 < 2 ^ 5" "rs2 < 2 ^ 5"
  shows "take_bit 7 (s_type op f3 rs1 rs2 imm) = op"
    "take_bit 3 (drop_bit 12 (s_type op f3 rs1 rs2 imm)) = f3"
    "ucast (take_bit 5 (drop_bit 15 (s_type op f3 rs1 rs2 imm))) = rs1"
    "ucast (take_bit 5 (drop_bit 20 (s_type op f3 rs1 rs2 imm))) = rs2"
    "s_imm (s_type op f3 rs1 rs2 imm) = sext imm 12"
proof -
  note b = bit_s_type [OF assms]
  show "take_bit 7 (s_type op f3 rs1 rs2 imm) = op"
    "take_bit 3 (drop_bit 12 (s_type op f3 rs1 rs2 imm)) = f3"
    "ucast (take_bit 5 (drop_bit 15 (s_type op f3 rs1 rs2 imm))) = rs1"
    "ucast (take_bit 5 (drop_bit 20 (s_type op f3 rs1 rs2 imm))) = rs2"
    by (rule take_op take_reg take_field; use assms in \<open>simp add: b\<close>)+
  show "s_imm (s_type op f3 rs1 rs2 imm) = sext imm 12"
  proof (rule bit_word_eqI)
    fix n assume "n < LENGTH(32)"
    then consider "n < 5" | "5 \<le> n" "n < 12" | "12 \<le> n" "n < 32" by fastforce
    then show "bit (s_imm (s_type op f3 rs1 rs2 imm)) n = bit (sext imm 12) n"
      unfolding s_imm_def and_low_mask
      by cases (simp_all add: bit_signed_drop_bit_iff bit_and_iff bit_or_iff bit_upper_mask
          bit_take_bit_iff bit_drop_bit_eq b bit_sext field_arith)
  qed
qed

lemma b_type_fields:
  assumes "op < 2 ^ 7" "f3 < 2 ^ 3" "rs1 < 2 ^ 5" "rs2 < 2 ^ 5"
  shows "take_bit 7 (b_type op f3 rs1 rs2 imm) = op"
    "take_bit 3 (drop_bit 12 (b_type op f3 rs1 rs2 imm)) = f3"
    "ucast (take_bit 5 (drop_bit 15 (b_type op f3 rs1 rs2 imm))) = rs1"
    "ucast (take_bit 5 (drop_bit 20 (b_type op f3 rs1 rs2 imm))) = rs2"
    "b_imm (b_type op f3 rs1 rs2 imm) = sext (imm AND NOT 1) 13"
proof -
  note b = bit_b_type [OF assms]
  show "take_bit 7 (b_type op f3 rs1 rs2 imm) = op"
    "take_bit 3 (drop_bit 12 (b_type op f3 rs1 rs2 imm)) = f3"
    "ucast (take_bit 5 (drop_bit 15 (b_type op f3 rs1 rs2 imm))) = rs1"
    "ucast (take_bit 5 (drop_bit 20 (b_type op f3 rs1 rs2 imm))) = rs2"
    by (rule take_op take_reg take_field; use assms in \<open>simp add: b\<close>)+
  show "b_imm (b_type op f3 rs1 rs2 imm) = sext (imm AND NOT 1) 13"
  proof (rule bit_word_eqI)
    fix n assume "n < LENGTH(32)"
    then consider "n = 0" | "1 \<le> n" "n < 5" | "5 \<le> n" "n < 11" | "n = 11" | "n = 12" | "13 \<le> n" "n < 32"
      by fastforce
    then show "bit (b_imm (b_type op f3 rs1 rs2 imm)) n = bit (sext (imm AND NOT 1) 13) n"
      unfolding b_imm_def and_low_mask
      by cases (simp_all add: bit_sext bit_or_iff bit_and_iff bit_not_iff bit_push_bit_iff
          bit_take_bit_iff bit_drop_bit_eq b bit_1_iff field_arith)
  qed
qed

lemma j_type_fields:
  assumes "op < 2 ^ 7" "rd < 2 ^ 5"
  shows "take_bit 7 (j_type op rd imm) = op"
    "ucast (take_bit 5 (drop_bit 7 (j_type op rd imm))) = rd"
    "j_imm (j_type op rd imm) = sext (imm AND NOT 1) 21"
proof -
  note b = bit_j_type [OF assms]
  show "take_bit 7 (j_type op rd imm) = op" "ucast (take_bit 5 (drop_bit 7 (j_type op rd imm))) = rd"
    by (rule take_op take_reg; use assms in \<open>simp add: b\<close>)+
  show "j_imm (j_type op rd imm) = sext (imm AND NOT 1) 21"
  proof (rule bit_word_eqI)
    fix n assume "n < LENGTH(32)"
    then consider "n = 0" | "1 \<le> n" "n < 11" | "n = 11" | "12 \<le> n" "n < 20" | "n = 20" | "21 \<le> n" "n < 32"
      by fastforce
    then show "bit (j_imm (j_type op rd imm)) n = bit (sext (imm AND NOT 1) 21) n"
      unfolding j_imm_def and_low_mask
      by cases (simp_all add: bit_sext bit_or_iff bit_and_iff bit_not_iff bit_push_bit_iff
          bit_take_bit_iff bit_drop_bit_eq b bit_1_iff field_arith)
  qed
qed

lemma u_type_fields:
  assumes "op < 2 ^ 7" "rd < 2 ^ 5"
  shows "take_bit 7 (u_type op rd imm) = op"
    "ucast (take_bit 5 (drop_bit 7 (u_type op rd imm))) = rd"
    "u_imm (u_type op rd imm) = imm AND 0xfffff000"
proof -
  note b = bit_u_type [OF assms]
  show "take_bit 7 (u_type op rd imm) = op" "ucast (take_bit 5 (drop_bit 7 (u_type op rd imm))) = rd"
    by (rule take_op take_reg; use assms in \<open>simp add: b\<close>)+
  show "u_imm (u_type op rd imm) = imm AND 0xfffff000"
    unfolding u_imm_def by (rule bit_word_eqI) (auto simp: bit_and_iff bit_upper_mask b)
qed

section \<open>The decoder undoes the encoders\<close>

text \<open>
  The encoding of the whole instruction language in the formats of \<open>asm.rs\<close>, and the operands
  each format can carry.
\<close>

fun branch_funct3 :: "branch_op \<Rightarrow> u32" where
  "branch_funct3 BEq = 0" | "branch_funct3 BNe = 1" | "branch_funct3 BLt = 4"
| "branch_funct3 BGe = 5" | "branch_funct3 BLtu = 6" | "branch_funct3 BGeu = 7"

fun load_funct3 :: "load_op \<Rightarrow> u32" where
  "load_funct3 Lb = 0" | "load_funct3 Lh = 1" | "load_funct3 Lw = 2" | "load_funct3 Lbu = 4"
| "load_funct3 Lhu = 5"

fun store_funct3 :: "store_op \<Rightarrow> u32" where
  "store_funct3 Sb = 0" | "store_funct3 Sh = 1" | "store_funct3 Sw = 2"

fun alu_funct3 :: "alu_op \<Rightarrow> u32" where
  "alu_funct3 AAdd = 0" | "alu_funct3 ASub = 0" | "alu_funct3 ASll = 1" | "alu_funct3 ASlt = 2"
| "alu_funct3 ASltu = 3" | "alu_funct3 AXor = 4" | "alu_funct3 ASrl = 5" | "alu_funct3 ASra = 5"
| "alu_funct3 AOr = 6" | "alu_funct3 AAnd = 7"

fun alu_funct7 :: "alu_op \<Rightarrow> u32" where
  "alu_funct7 ASub = 0x20" | "alu_funct7 ASra = 0x20" | "alu_funct7 _ = 0"

fun mul_funct3 :: "mul_op \<Rightarrow> u32" where
  "mul_funct3 MMul = 0" | "mul_funct3 MMulh = 1" | "mul_funct3 MMulhsu = 2" | "mul_funct3 MMulhu = 3"
| "mul_funct3 MDiv = 4" | "mul_funct3 MDivu = 5" | "mul_funct3 MRem = 6" | "mul_funct3 MRemu = 7"

fun amo_funct5 :: "amo_op \<Rightarrow> u32" where
  "amo_funct5 AmoAdd = 0" | "amo_funct5 AmoSwap = 1" | "amo_funct5 AmoXor = 4" | "amo_funct5 AmoOr = 8"
| "amo_funct5 AmoAnd = 0xc" | "amo_funct5 AmoMin = 0x10" | "amo_funct5 AmoMax = 0x14"
| "amo_funct5 AmoMinu = 0x18" | "amo_funct5 AmoMaxu = 0x1c"

fun csr_funct3 :: "csr_op \<Rightarrow> u32" where
  "csr_funct3 Rw = 1" | "csr_funct3 Rs = 2" | "csr_funct3 Rc = 3" | "csr_funct3 Rwi = 5"
| "csr_funct3 Rsi = 6" | "csr_funct3 Rci = 7"

definition amo_funct7 :: "u32 \<Rightarrow> bool \<Rightarrow> bool \<Rightarrow> u32" where
  "amo_funct7 f5 aq rl = push_bit 2 f5 OR (if aq then 2 else 0) OR (if rl then 1 else 0)"

definition is_shift :: "alu_op \<Rightarrow> bool" where
  "is_shift op \<longleftrightarrow> op = ASll \<or> op = ASrl \<or> op = ASra"

fun encode :: "inst \<Rightarrow> u32" where
  "encode (Lui rd imm) = u_type 0x37 rd imm"
| "encode (Auipc rd imm) = u_type 0x17 rd imm"
| "encode (Jal rd imm) = j_type 0x6f rd imm"
| "encode (Jalr rd rs1 imm) = i_type 0x67 0 rd rs1 imm"
| "encode (Branch op rs1 rs2 imm) = b_type 0x63 (branch_funct3 op) rs1 rs2 imm"
| "encode (Load op rd rs1 imm) = i_type 0x03 (load_funct3 op) rd rs1 imm"
| "encode (Store op rs1 rs2 imm) = s_type 0x23 (store_funct3 op) rs1 rs2 imm"
| "encode (OpImm op rd rs1 imm) =
     (if is_shift op then r_type 0x13 (alu_funct3 op) (alu_funct7 op) rd rs1 (ucast imm)
      else i_type 0x13 (alu_funct3 op) rd rs1 imm)"
| "encode (Op op rd rs1 rs2) = r_type 0x33 (alu_funct3 op) (alu_funct7 op) rd rs1 rs2"
| "encode (Mul op rd rs1 rs2) = r_type 0x33 (mul_funct3 op) 1 rd rs1 rs2"
| "encode (LrW rd rs1 aq rl) = r_type 0x2f 2 (amo_funct7 2 aq rl) rd rs1 0"
| "encode (ScW rd rs1 rs2 aq rl) = r_type 0x2f 2 (amo_funct7 3 aq rl) rd rs1 rs2"
| "encode (AmoW op rd rs1 rs2 aq rl) = r_type 0x2f 2 (amo_funct7 (amo_funct5 op) aq rl) rd rs1 rs2"
| "encode Fence = 0x0f"
| "encode Ecall = 0x73"
| "encode Ebreak = 0x00100073"
| "encode (Csr op rd src csr) = i_type 0x73 (csr_funct3 op) rd src (ucast csr)"
| "encode Mret = 0x30200073"
| "encode Sret = 0x10200073"
| "encode Wfi = 0x10500073"
| "encode SfenceVma = 0x12000073"
| "encode (Illegal w) = w"

fun encodable :: "inst \<Rightarrow> bool" where
  "encodable (Lui rd imm) \<longleftrightarrow> rd < 32 \<and> imm AND 0xfffff000 = imm"
| "encodable (Auipc rd imm) \<longleftrightarrow> rd < 32 \<and> imm AND 0xfffff000 = imm"
| "encodable (Jal rd imm) \<longleftrightarrow> rd < 32 \<and> sext (imm AND NOT 1) 21 = imm"
| "encodable (Jalr rd rs1 imm) \<longleftrightarrow> rd < 32 \<and> rs1 < 32 \<and> sext imm 12 = imm"
| "encodable (Branch op rs1 rs2 imm) \<longleftrightarrow> rs1 < 32 \<and> rs2 < 32 \<and> sext (imm AND NOT 1) 13 = imm"
| "encodable (Load op rd rs1 imm) \<longleftrightarrow> rd < 32 \<and> rs1 < 32 \<and> sext imm 12 = imm"
| "encodable (Store op rs1 rs2 imm) \<longleftrightarrow> rs1 < 32 \<and> rs2 < 32 \<and> sext imm 12 = imm"
| "encodable (OpImm op rd rs1 imm) \<longleftrightarrow> rd < 32 \<and> rs1 < 32 \<and> op \<noteq> ASub \<and>
     (if is_shift op then imm < 32 else sext imm 12 = imm)"
| "encodable (Op op rd rs1 rs2) \<longleftrightarrow> rd < 32 \<and> rs1 < 32 \<and> rs2 < 32"
| "encodable (Mul op rd rs1 rs2) \<longleftrightarrow> rd < 32 \<and> rs1 < 32 \<and> rs2 < 32"
| "encodable (LrW rd rs1 aq rl) \<longleftrightarrow> rd < 32 \<and> rs1 < 32"
| "encodable (ScW rd rs1 rs2 aq rl) \<longleftrightarrow> rd < 32 \<and> rs1 < 32 \<and> rs2 < 32"
| "encodable (AmoW op rd rs1 rs2 aq rl) \<longleftrightarrow> rd < 32 \<and> rs1 < 32 \<and> rs2 < 32"
| "encodable (Csr op rd src csr) \<longleftrightarrow> rd < 32 \<and> src < 32 \<and> csr < 4096"
| "encodable (Illegal w) \<longleftrightarrow> False"
| "encodable _ \<longleftrightarrow> True"

lemma decode_fields:
  "decode raw =
     (let opcode = take_bit 7 raw; rd = ucast (take_bit 5 (drop_bit 7 raw));
          funct3 = take_bit 3 (drop_bit 12 raw); rs1 = ucast (take_bit 5 (drop_bit 15 raw));
          rs2 = ucast (take_bit 5 (drop_bit 20 raw)); funct7 = take_bit 7 (drop_bit 25 raw) in
      if opcode = 0x37 then Lui rd (u_imm raw)
      else if opcode = 0x17 then Auipc rd (u_imm raw)
      else if opcode = 0x6f then Jal rd (j_imm raw)
      else if opcode = 0x67 \<and> funct3 = 0 then Jalr rd rs1 (i_imm raw)
      else if opcode = 0x63 then decode_branch raw funct3 rs1 rs2
      else if opcode = 0x03 then decode_load raw funct3 rd rs1
      else if opcode = 0x23 then decode_store raw funct3 rs1 rs2
      else if opcode = 0x13 then decode_op_imm raw funct3 funct7 rd rs1 rs2
      else if opcode = 0x33 \<and> funct7 = 0x01 then decode_mul raw funct3 rd rs1 rs2
      else if opcode = 0x33 then decode_op raw funct3 funct7 rd rs1 rs2
      else if opcode = 0x2f \<and> funct3 = 2 then decode_amo raw rd rs1 rs2
      else if opcode = 0x0f then Fence
      else if opcode = 0x73 then decode_system raw funct3 funct7 rd rs1
      else Illegal raw)"
  unfolding decode_def and_low_mask by (rule refl)

lemma reg_lt: "r < 32 \<longleftrightarrow> r < 2 ^ 5" for r :: u8
  by simp

lemma decode_upper:
  assumes "encodable (Lui rd imm)"
  shows "decode (u_type 0x37 rd imm) = Lui rd imm" "decode (u_type 0x17 rd imm) = Auipc rd imm"
  using assms u_type_fields [of "0x37" rd imm] u_type_fields [of "0x17" rd imm]
  by (simp_all add: decode_fields)

lemma decode_jal: "encodable (Jal rd imm) \<Longrightarrow> decode (j_type 0x6f rd imm) = Jal rd imm"
  using j_type_fields [of "0x6f" rd imm] by (simp add: decode_fields)

lemma decode_jalr: "encodable (Jalr rd rs1 imm) \<Longrightarrow> decode (i_type 0x67 0 rd rs1 imm) = Jalr rd rs1 imm"
  using i_type_fields [of "0x67" 0 rd rs1 imm] by (simp add: decode_fields)

lemma decode_branch_type:
  assumes "encodable (Branch op rs1 rs2 imm)"
  shows "decode (b_type 0x63 (branch_funct3 op) rs1 rs2 imm) = Branch op rs1 rs2 imm"
  using assms b_type_fields [of "0x63" "branch_funct3 op" rs1 rs2 imm]
  by (cases op) (simp_all add: decode_fields decode_branch_def)

lemma decode_load_type:
  assumes "encodable (Load op rd rs1 imm)"
  shows "decode (i_type 0x03 (load_funct3 op) rd rs1 imm) = Load op rd rs1 imm"
  using assms i_type_fields [of "0x03" "load_funct3 op" rd rs1 imm]
  by (cases op) (simp_all add: decode_fields decode_load_def)

lemma decode_store_type:
  assumes "encodable (Store op rs1 rs2 imm)"
  shows "decode (s_type 0x23 (store_funct3 op) rs1 rs2 imm) = Store op rs1 rs2 imm"
  using assms s_type_fields [of "0x23" "store_funct3 op" rs1 rs2 imm]
  by (cases op) (simp_all add: decode_fields decode_store_def)

lemma decode_op_imm_type:
  assumes "encodable (OpImm op rd rs1 imm)" "\<not> is_shift op"
  shows "decode (i_type 0x13 (alu_funct3 op) rd rs1 imm) = OpImm op rd rs1 imm"
  using assms i_type_fields [of "0x13" "alu_funct3 op" rd rs1 imm]
  by (cases op) (simp_all add: decode_fields decode_op_imm_def is_shift_def)

lemma shamt_roundtrip:
  fixes imm :: u32
  assumes "imm < 32"
  shows "(ucast imm :: u8) < 2 ^ 5" "take_bit 5 (ucast (ucast imm :: u8)) = imm"
proof -
  have lt: "imm < 2 ^ 5" using assms by simp
  show "take_bit 5 (ucast (ucast imm :: u8)) = imm"
  proof (rule bit_word_eqI)
    fix n assume "n < LENGTH(32)"
    show "bit (take_bit 5 (ucast (ucast imm :: u8)) :: u32) n = bit imm n"
      using no_high_bits [OF lt, of n] by (cases "n < 5") (auto simp: bit_simps)
  qed
  have "take_bit 5 (ucast imm :: u8) = ucast imm"
  proof (rule bit_word_eqI)
    fix n assume "n < LENGTH(8)"
    show "bit (take_bit 5 (ucast imm :: u8)) n = bit (ucast imm :: u8) n"
      using no_high_bits [OF lt, of n] by (cases "n < 5") (auto simp: bit_simps)
  qed
  moreover have "(ucast imm :: u8) AND mask 5 < 2 ^ 5" by (rule and_mask_less') simp
  ultimately show "(ucast imm :: u8) < 2 ^ 5" by (simp only: take_bit_eq_mask)
qed

lemma decode_shift_type:
  assumes "encodable (OpImm op rd rs1 imm)" "is_shift op"
  shows "decode (r_type 0x13 (alu_funct3 op) (alu_funct7 op) rd rs1 (ucast imm)) = OpImm op rd rs1 imm"
proof -
  have "imm < 32" using assms by simp
  note sh = shamt_roundtrip [OF this]
  show ?thesis
    using assms sh(2) r_type_fields [of "0x13" "alu_funct3 op" "alu_funct7 op" rd rs1 "ucast imm", OF _ _ _ _ _ sh(1)]
    by (cases op) (simp_all add: decode_fields decode_op_imm_def is_shift_def and_low_mask)
qed

lemma decode_op_type:
  assumes "encodable (Op op rd rs1 rs2)"
  shows "decode (r_type 0x33 (alu_funct3 op) (alu_funct7 op) rd rs1 rs2) = Op op rd rs1 rs2"
  using assms r_type_fields [of "0x33" "alu_funct3 op" "alu_funct7 op" rd rs1 rs2]
  by (cases op) (simp_all add: decode_fields decode_op_def)

lemma decode_mul_type:
  assumes "encodable (Mul op rd rs1 rs2)"
  shows "decode (r_type 0x33 (mul_funct3 op) 1 rd rs1 rs2) = Mul op rd rs1 rs2"
  using assms r_type_fields [of "0x33" "mul_funct3 op" 1 rd rs1 rs2]
  by (cases op) (simp_all add: decode_fields decode_mul_def)

lemma bit_amo_funct7:
  "n < 32 \<Longrightarrow> bit (amo_funct7 f5 aq rl) n =
    (if n = 0 then rl else if n = 1 then aq else bit f5 (n - 2))"
  by (auto simp: amo_funct7_def bit_simps bit_1_iff)

lemma amo_fields:
  assumes "f5 < 2 ^ 5" "rd < 2 ^ 5" "rs1 < 2 ^ 5" "rs2 < 2 ^ 5"
  shows "amo_funct7 f5 aq rl < 2 ^ 7"
    "take_bit 5 (drop_bit 27 (r_type 0x2f 2 (amo_funct7 f5 aq rl) rd rs1 rs2)) = f5"
    "odd (drop_bit 26 (r_type 0x2f 2 (amo_funct7 f5 aq rl) rd rs1 rs2)) = aq"
    "odd (drop_bit 25 (r_type 0x2f 2 (amo_funct7 f5 aq rl) rd rs1 rs2)) = rl"
proof -
  let ?f7 = "amo_funct7 f5 aq rl" and ?w = "r_type 0x2f 2 (amo_funct7 f5 aq rl) rd rs1 rs2"
  have "take_bit 7 ?f7 = ?f7"
  proof (rule bit_word_eqI)
    fix n assume "n < LENGTH(32)"
    then show "bit (take_bit 7 ?f7) n = bit ?f7 n"
      using no_high_bits [OF assms(1), of "n - 2"]
      by (cases "n < 7") (simp_all add: bit_take_bit_iff bit_amo_funct7)
  qed
  moreover have "?f7 AND mask 7 < 2 ^ 7" by (rule and_mask_less') simp
  ultimately show lt: "?f7 < 2 ^ 7" by (simp only: take_bit_eq_mask)
  have w: "n < 32 \<Longrightarrow> 25 \<le> n \<Longrightarrow> bit ?w n = bit ?f7 (n - 25)" for n
    using bit_r_type [of "0x2f" 2 ?f7 rd rs1 rs2 n] lt assms by simp
  show "odd (drop_bit 26 ?w) = aq" "odd (drop_bit 25 ?w) = rl"
    using w [of 26] w [of 25] by (simp_all add: bit_iff_odd_drop_bit [symmetric] bit_amo_funct7)
  show "take_bit 5 (drop_bit 27 ?w) = f5"
    by (rule take_field [OF assms(1)]) (simp_all add: w bit_amo_funct7)
qed

lemma amo_funct5_lt: "amo_funct5 op < 2 ^ 5"
  by (cases op) simp_all

lemma decode_amo_type:
  assumes "rd < 2 ^ 5" "rs1 < 2 ^ 5" "rs2 < 2 ^ 5" "f5 < 2 ^ 5"
  shows "decode (r_type 0x2f 2 (amo_funct7 f5 aq rl) rd rs1 rs2) =
    decode_amo (r_type 0x2f 2 (amo_funct7 f5 aq rl) rd rs1 rs2) rd rs1 rs2"
  using assms r_type_fields [of "0x2f" 2 "amo_funct7 f5 aq rl" rd rs1 rs2] amo_fields [OF assms(4,1-3)]
  by (simp add: decode_fields)

lemma decode_csr_type:
  assumes "encodable (Csr op rd src csr)"
  shows "decode (i_type 0x73 (csr_funct3 op) rd src (ucast csr)) = Csr op rd src csr"
proof -
  have lt: "csr < 2 ^ 12" using assms by simp
  have "(ucast (take_bit 12 (ucast csr :: u32)) :: u16) = csr"
  proof (rule bit_word_eqI)
    fix n assume "n < LENGTH(16)"
    then show "bit (ucast (take_bit 12 (ucast csr :: u32)) :: u16) n = bit csr n"
      using no_high_bits [OF lt, of n] by (cases "n < 12") (simp_all add: bit_simps)
  qed
  then show ?thesis
    using assms i_type_fields [of "0x73" "csr_funct3 op" rd src "ucast csr"]
    by (cases op) (simp_all add: decode_fields decode_system_def and_low_mask)
qed

lemma decode_fixed:
  "decode 0x0f = Fence" "decode 0x73 = Ecall" "decode 0x00100073 = Ebreak" "decode 0x30200073 = Mret"
  "decode 0x10200073 = Sret" "decode 0x10500073 = Wfi" "decode 0x12000073 = SfenceVma"
  by (simp_all add: decode_fields decode_system_def)

lemma decode_encode:
  assumes "encodable i"
  shows "decode (encode i) = i"
proof (cases i)
  case (LrW rd rs1 aq rl)
  with assms show ?thesis
    using amo_fields [of 2 rd rs1 0 aq rl] by (simp add: decode_amo_type decode_amo_def and_low_mask odd_iff_mod_2_eq_one [symmetric])
next
  case (ScW rd rs1 rs2 aq rl)
  with assms show ?thesis
    using amo_fields [of 3 rd rs1 rs2 aq rl] by (simp add: decode_amo_type decode_amo_def and_low_mask odd_iff_mod_2_eq_one [symmetric])
next
  case (AmoW op rd rs1 rs2 aq rl)
  with assms show ?thesis
    using amo_fields [of "amo_funct5 op" rd rs1 rs2 aq rl] amo_funct5_lt [of op]
    by (cases op) (simp_all add: decode_amo_type decode_amo_def and_low_mask odd_iff_mod_2_eq_one [symmetric])
qed (use assms in \<open>simp_all add: decode_upper decode_jal decode_jalr decode_branch_type decode_load_type
      decode_store_type decode_op_imm_type decode_shift_type decode_op_type decode_mul_type decode_csr_type
      decode_fixed\<close>)

section \<open>What the decoders produce\<close>

lemma reg_field_lt: "(ucast (take_bit 5 w) :: u8) < 32" for w :: u32
proof -
  have "take_bit 5 w < 32"
    using and_mask_less' [of 5 w] by (simp add: take_bit_eq_mask)
  then show ?thesis using shamt_roundtrip(1) by simp
qed

lemma creg_field_lt: "(ucast (8 + take_bit 3 w) :: u8) < 32" for w :: u32
proof -
  have "take_bit 3 w < 8" using and_mask_less' [of 3 w] by (simp add: take_bit_eq_mask)
  then have "8 + take_bit 3 w < 32"
    by (simp add: word_less_nat_alt unat_word_ariths)
  then show ?thesis using shamt_roundtrip(1) by simp
qed

lemma take_lt:
  "take_bit 5 w < 32" "take_bit 12 w < 4096" for w :: u32
  using and_mask_less' [of 5 w] and_mask_less' [of 12 w] by (simp_all add: take_bit_eq_mask)

lemma csr_field_lt: "(ucast (take_bit 12 w) :: u16) < 4096" for w :: u32
proof -
  have "(ucast (take_bit 12 w) :: u16) = take_bit 12 (ucast w)"
    by (rule bit_word_eqI) (auto simp: bit_simps)
  then show ?thesis using and_mask_less' [of 12 "ucast w :: u16"] by (simp add: take_bit_eq_mask)
qed

lemma sext_idI:
  assumes "0 < k" "k \<le> 32" "\<And>n. k \<le> n \<Longrightarrow> n < 32 \<Longrightarrow> bit v n = bit v (k - 1)"
  shows "sext v k = v"
  using assms by (intro bit_word_eqI) (auto simp: bit_sext)

lemma imm_ranges:
  "sext (i_imm raw) 12 = i_imm raw" "sext (s_imm raw) 12 = s_imm raw"
  "sext (b_imm raw AND NOT 1) 13 = b_imm raw" "u_imm raw AND 0xfffff000 = u_imm raw"
  "sext (j_imm raw AND NOT 1) 21 = j_imm raw"
proof -
  show "sext (i_imm raw) 12 = i_imm raw"
    by (rule sext_idI) (simp_all add: i_imm_def bit_signed_drop_bit_iff)
  show "sext (s_imm raw) 12 = s_imm raw"
    by (rule sext_idI)
      (simp_all add: s_imm_def and_low_mask bit_signed_drop_bit_iff bit_or_iff bit_and_iff
        bit_take_bit_iff bit_drop_bit_eq bit_upper_mask)
  have "b_imm raw AND NOT 1 = b_imm raw"
    unfolding b_imm_def and_low_mask
    by (rule bit_word_eqI) (auto simp: bit_and_iff bit_not_iff bit_1_iff bit_sext bit_or_iff bit_push_bit_iff)
  then show "sext (b_imm raw AND NOT 1) 13 = b_imm raw"
    by (simp add: sext_idI b_imm_def bit_sext)
  show "u_imm raw AND 0xfffff000 = u_imm raw"
    unfolding u_imm_def by (rule bit_word_eqI) (auto simp: bit_and_iff)
  have "j_imm raw AND NOT 1 = j_imm raw"
    unfolding j_imm_def and_low_mask
    by (rule bit_word_eqI) (auto simp: bit_and_iff bit_not_iff bit_1_iff bit_sext bit_or_iff bit_push_bit_iff)
  then show "sext (j_imm raw AND NOT 1) 21 = j_imm raw"
    by (simp add: sext_idI j_imm_def bit_sext)
qed

definition legal_or_raw :: "u32 \<Rightarrow> inst \<Rightarrow> bool" where
  "legal_or_raw raw i \<longleftrightarrow> i = Illegal raw \<or> encodable i"

lemmas imm_ranges_simp = imm_ranges imm_ranges [simplified]

lemma decode_groups_legal:
  assumes "rd < 32" "rs1 < 32" "rs2 < 32"
  shows "legal_or_raw raw (decode_branch raw f3 rs1 rs2)"
    "legal_or_raw raw (decode_load raw f3 rd rs1)" "legal_or_raw raw (decode_store raw f3 rs1 rs2)"
    "legal_or_raw raw (decode_op_imm raw f3 f7 rd rs1 rs2)"
    "legal_or_raw raw (decode_mul raw f3 rd rs1 rs2)" "legal_or_raw raw (decode_op raw f3 f7 rd rs1 rs2)"
    "legal_or_raw raw (decode_amo raw rd rs1 rs2)" "legal_or_raw raw (decode_system raw f3 f7 rd rs1)"
  using assms
  by (simp_all add: legal_or_raw_def decode_branch_def decode_load_def decode_store_def decode_op_imm_def
      decode_mul_def decode_op_def decode_amo_def decode_system_def Let_def and_low_mask csr_field_lt
      take_lt imm_ranges_simp is_shift_def)

lemma decode_encodable: "decode raw = Illegal raw \<or> encodable (decode raw)"
  using decode_groups_legal [OF reg_field_lt reg_field_lt reg_field_lt]
  unfolding decode_fields Let_def legal_or_raw_def
  by (simp add: reg_field_lt imm_ranges_simp)

text \<open>
  The compressed forms expand into the language of the 32-bit encodings, except for the shifts
  by 32 or more, which the 32-bit encoding cannot express.
\<close>

definition long_shift :: "inst \<Rightarrow> bool" where
  "long_shift i \<longleftrightarrow> (\<exists>op rd imm. i = OpImm op rd rd imm \<and> is_shift op \<and> rd < 32 \<and> 32 \<le> imm \<and> imm < 64)"

definition c_legal :: "u32 \<Rightarrow> inst \<Rightarrow> bool" where
  "c_legal h i \<longleftrightarrow> i = Illegal h \<or> encodable i \<or> long_shift i"

lemma sext_sext:
  assumes "0 < k" "k \<le> m" "m \<le> 32"
  shows "sext (sext v k) m = sext v k"
proof (rule sext_idI)
  fix n assume n: "m \<le> n" "n < 32"
  have "m - 1 < k \<Longrightarrow> m = k" using assms by simp
  then show "bit (sext v k) n = bit (sext v k) (m - 1)" using n assms by (auto simp: bit_sext)
qed (use assms in simp_all)

lemma sext_0 [simp]: "sext 0 k = 0"
  by (simp add: sext_def)

lemma sext_even:
  assumes "\<not> bit v 0" "0 < k" "k \<le> m" "m \<le> 32" "1 < k"
  shows "sext (sext v k AND NOT 1) m = sext v k"
proof -
  have "sext v k AND NOT 1 = sext v k"
    using assms by (intro bit_word_eqI) (auto simp: bit_and_iff bit_not_iff bit_1_iff bit_sext intro: gr0I)
  then show ?thesis using assms by (simp add: sext_sext)
qed

lemma sext_small:
  assumes "\<And>n. k \<le> n \<Longrightarrow> \<not> bit v n" "k < m" "m \<le> 32"
  shows "sext v m = v"
  using assms by (intro sext_idI) auto

lemma c_jump_ranges:
  "sext (cj_imm h AND NOT 1) 21 = cj_imm h" "sext (cb_imm h AND NOT 1) 13 = cb_imm h"
  unfolding cj_imm_def cb_imm_def and_low_mask
  by (rule sext_even; simp add: bit_or_iff bit_push_bit_iff)+

lemma shamt6_cases:
  fixes w :: u32
  assumes "\<And>n. 6 \<le> n \<Longrightarrow> \<not> bit w n"
  shows "w < 32 \<or> 32 \<le> w \<and> w < 64"
proof -
  have "take_bit 6 w = w"
  proof (rule bit_word_eqI)
    fix n show "bit (take_bit 6 w) n = bit w n"
      using assms [of n] by (cases "n < 6") (simp_all add: bit_take_bit_iff)
  qed
  moreover have "w AND mask 6 < 2 ^ 6" by (rule and_mask_less') simp
  ultimately have "w < 64" by (simp add: take_bit_eq_mask)
  then show ?thesis by (simp add: linorder_not_less [symmetric] disj_commute)
qed

lemma lwsp_small:
  fixes h :: u32
  shows "sext (push_bit 3 (take_bit 3 (drop_bit 10 h)) OR push_bit 2 (take_bit 1 (drop_bit 6 h))
      OR push_bit 6 (take_bit 1 (drop_bit 5 h))) 12 =
    push_bit 3 (take_bit 3 (drop_bit 10 h)) OR push_bit 2 (take_bit 1 (drop_bit 6 h))
      OR push_bit 6 (take_bit 1 (drop_bit 5 h))"
    "sext (push_bit 4 (take_bit 2 (drop_bit 11 h)) OR push_bit 6 (take_bit 4 (drop_bit 7 h))
      OR push_bit 2 (take_bit 1 (drop_bit 6 h)) OR push_bit 3 (take_bit 1 (drop_bit 5 h))) 12 =
    push_bit 4 (take_bit 2 (drop_bit 11 h)) OR push_bit 6 (take_bit 4 (drop_bit 7 h))
      OR push_bit 2 (take_bit 1 (drop_bit 6 h)) OR push_bit 3 (take_bit 1 (drop_bit 5 h))"
    "sext (push_bit 5 (take_bit 1 (drop_bit 12 h)) OR push_bit 2 (take_bit 3 (drop_bit 4 h))
      OR push_bit 6 (take_bit 2 (drop_bit 2 h))) 12 =
    push_bit 5 (take_bit 1 (drop_bit 12 h)) OR push_bit 2 (take_bit 3 (drop_bit 4 h))
      OR push_bit 6 (take_bit 2 (drop_bit 2 h))"
    "sext (push_bit 2 (take_bit 4 (drop_bit 9 h)) OR push_bit 6 (take_bit 2 (drop_bit 7 h))) 12 =
    push_bit 2 (take_bit 4 (drop_bit 9 h)) OR push_bit 6 (take_bit 2 (drop_bit 7 h))"
  by (rule sext_small [where k = 10]; simp add: bit_or_iff bit_push_bit_iff bit_take_bit_iff)+

lemma shamt6:
  fixes h :: u32
  defines "sh \<equiv> push_bit 5 (take_bit 1 (drop_bit 12 h)) OR take_bit 5 (drop_bit 2 h)"
  shows "sh < 32 \<or> 32 \<le> sh \<and> sh < 64"
  unfolding sh_def
  by (rule shamt6_cases) (simp add: bit_or_iff bit_push_bit_iff bit_take_bit_iff)

lemma clui_range:
  fixes h :: u32
  defines "v \<equiv> push_bit 17 (take_bit 1 (drop_bit 12 h)) OR push_bit 12 (take_bit 5 (drop_bit 2 h))"
  shows "sext v 18 AND 0xfffff000 = sext v 18"
  by (rule bit_word_eqI)
    (auto simp: v_def bit_and_iff bit_upper_mask bit_sext bit_or_iff bit_push_bit_iff not_less split: if_splits)

lemma decode_c_legal:
  assumes "rd_c < 32" "rs1_c < 32"
  shows "c_legal h (decode_c0 h f3 rd_c rs1_c)" "c_legal h (decode_c1_arith h rd_c rs1_c)"
    "rd < 32 \<Longrightarrow> c_legal h (decode_c1_lui h rd)"
    "c_legal h (decode_c1 h f3 rd_c rs1_c)" "c_legal h (decode_c2 h f3)"
proof -
  note simps = c_legal_def Let_def and_low_mask reg_field_lt sext_sext
  show "c_legal h (decode_c0 h f3 rd_c rs1_c)"
    using assms unfolding decode_c0_def simps by (simp add: lwsp_small [simplified] is_shift_def)
  show ar: "c_legal h (decode_c1_arith h rd_c rs1_c)"
    using assms shamt6 [of h, simplified] unfolding decode_c1_arith_def simps
    by (auto simp: sext_sext is_shift_def long_shift_def)
  show lui: "c_legal h (decode_c1_lui h rd)" if "rd < 32" for rd
    using that clui_range [of h, simplified] unfolding decode_c1_lui_def simps by (simp add: sext_sext is_shift_def)
  show "c_legal h (decode_c1 h f3 rd_c rs1_c)"
    using assms ar lui [OF reg_field_lt, of "drop_bit 7 h"]
    unfolding decode_c1_def Let_def and_low_mask
    by (simp add: c_legal_def reg_field_lt sext_sext is_shift_def c_jump_ranges c_jump_ranges [simplified])
  show "c_legal h (decode_c2 h f3)"
  proof (cases "f3 = 0")
    case True
    then show ?thesis
      using shamt6 [of h, simplified] unfolding decode_c2_def simps
      by (auto simp: reg_field_lt is_shift_def long_shift_def)
  next
    case False
    define v where "v = push_bit 5 (take_bit 1 (drop_bit 12 h)) OR push_bit 2 (take_bit 3 (drop_bit 4 h))
      OR push_bit 6 (take_bit 2 (drop_bit 2 h))"
    have "sext v 12 = v" unfolding v_def by (rule lwsp_small(3))
    with False show ?thesis
      unfolding decode_c2_def simps v_def [symmetric] by (simp add: reg_field_lt lwsp_small [simplified])
  qed
qed

lemma decode_compressed_legal: "c_legal (ucast half) (decode_compressed half)"
  using decode_c_legal [OF creg_field_lt creg_field_lt]
  unfolding decode_compressed_def Let_def and_low_mask by (simp add: c_legal_def)

declare bit_numeral_word_iff [simp] push_bit_Suc [simp]

end
