(* ===== verification/Csr.thy ===== *)
theory Csr
  imports Decode
begin

text \<open>
  The privileged state of \<open>crates/fs-riscv/src/sys.rs\<close>: privilege modes, the CSR addresses and
  \<open>mstatus\<close> fields, the CSR file with its defaults, and the checked \<open>read\<close> and \<open>write\<close> with
  their privilege test, read-only test and write masks.  Shown: a write keeps the file
  well-formed, what a read returns after a write (the legalised value), that the S-level views
  stay inside their masks, and that no access from too low a privilege succeeds.
\<close>

section \<open>Privilege modes\<close>

datatype priv = U | S | M

fun level :: "priv \<Rightarrow> u32" where
  "level U = 0" | "level S = 1" | "level M = 3"

definition from_bits :: "u32 \<Rightarrow> priv" where
  "from_bits b = (if b AND 0x3 = 0 then U else if b AND 0x3 = 1 then S else M)"

section \<open>Addresses and fields\<close>

definition CSR_MSTATUS :: u16 where "CSR_MSTATUS = 0x300"
definition CSR_MSTATUSH :: u16 where "CSR_MSTATUSH = 0x310"
definition CSR_MEDELEGH :: u16 where "CSR_MEDELEGH = 0x312"
definition CSR_MISA :: u16 where "CSR_MISA = 0x301"
definition CSR_MEDELEG :: u16 where "CSR_MEDELEG = 0x302"
definition CSR_MIDELEG :: u16 where "CSR_MIDELEG = 0x303"
definition CSR_MIE :: u16 where "CSR_MIE = 0x304"
definition CSR_MTVEC :: u16 where "CSR_MTVEC = 0x305"
definition CSR_MSCRATCH :: u16 where "CSR_MSCRATCH = 0x340"
definition CSR_MEPC :: u16 where "CSR_MEPC = 0x341"
definition CSR_MCAUSE :: u16 where "CSR_MCAUSE = 0x342"
definition CSR_MTVAL :: u16 where "CSR_MTVAL = 0x343"
definition CSR_MIP :: u16 where "CSR_MIP = 0x344"
definition CSR_MHARTID :: u16 where "CSR_MHARTID = 0xf14"
definition CSR_SSTATUS :: u16 where "CSR_SSTATUS = 0x100"
definition CSR_SIE :: u16 where "CSR_SIE = 0x104"
definition CSR_STVEC :: u16 where "CSR_STVEC = 0x105"
definition CSR_SSCRATCH :: u16 where "CSR_SSCRATCH = 0x140"
definition CSR_SEPC :: u16 where "CSR_SEPC = 0x141"
definition CSR_SCAUSE :: u16 where "CSR_SCAUSE = 0x142"
definition CSR_STVAL :: u16 where "CSR_STVAL = 0x143"
definition CSR_SIP :: u16 where "CSR_SIP = 0x144"
definition CSR_SATP :: u16 where "CSR_SATP = 0x180"
definition CSR_STIMECMP :: u16 where "CSR_STIMECMP = 0x14d"
definition CSR_STIMECMPH :: u16 where "CSR_STIMECMPH = 0x15d"
definition CSR_MVENDORID :: u16 where "CSR_MVENDORID = 0xf11"
definition CSR_MARCHID :: u16 where "CSR_MARCHID = 0xf12"
definition CSR_MIMPID :: u16 where "CSR_MIMPID = 0xf13"
definition CSR_MCONFIGPTR :: u16 where "CSR_MCONFIGPTR = 0xf15"
definition CSR_MCOUNTEREN :: u16 where "CSR_MCOUNTEREN = 0x306"
definition CSR_SCOUNTEREN :: u16 where "CSR_SCOUNTEREN = 0x106"
definition CSR_MCOUNTINHIBIT :: u16 where "CSR_MCOUNTINHIBIT = 0x320"
definition CSR_MENVCFG :: u16 where "CSR_MENVCFG = 0x30a"
definition CSR_MENVCFGH :: u16 where "CSR_MENVCFGH = 0x31a"
definition CSR_SENVCFG :: u16 where "CSR_SENVCFG = 0x10a"
definition CSR_CYCLE :: u16 where "CSR_CYCLE = 0xc00"
definition CSR_TIME :: u16 where "CSR_TIME = 0xc01"
definition CSR_INSTRET :: u16 where "CSR_INSTRET = 0xc02"
definition CSR_CYCLEH :: u16 where "CSR_CYCLEH = 0xc80"
definition CSR_TIMEH :: u16 where "CSR_TIMEH = 0xc81"
definition CSR_INSTRETH :: u16 where "CSR_INSTRETH = 0xc82"

lemmas csr_addr_defs =
  CSR_MSTATUS_def CSR_MSTATUSH_def CSR_MEDELEGH_def CSR_MISA_def CSR_MEDELEG_def CSR_MIDELEG_def
  CSR_MIE_def CSR_MTVEC_def CSR_MSCRATCH_def CSR_MEPC_def CSR_MCAUSE_def CSR_MTVAL_def
  CSR_MIP_def CSR_MHARTID_def CSR_SSTATUS_def CSR_SIE_def CSR_STVEC_def CSR_SSCRATCH_def
  CSR_SEPC_def CSR_SCAUSE_def CSR_STVAL_def CSR_SIP_def CSR_SATP_def CSR_STIMECMP_def
  CSR_STIMECMPH_def CSR_MVENDORID_def CSR_MARCHID_def CSR_MIMPID_def CSR_MCONFIGPTR_def CSR_MCOUNTEREN_def
  CSR_SCOUNTEREN_def CSR_MCOUNTINHIBIT_def CSR_MENVCFG_def CSR_MENVCFGH_def CSR_SENVCFG_def CSR_CYCLE_def
  CSR_TIME_def CSR_INSTRET_def CSR_CYCLEH_def CSR_TIMEH_def CSR_INSTRETH_def

definition MSTATUS_SIE :: u32 where "MSTATUS_SIE = push_bit 1 1"
definition MSTATUS_MIE :: u32 where "MSTATUS_MIE = push_bit 3 1"
definition MSTATUS_SPIE :: u32 where "MSTATUS_SPIE = push_bit 5 1"
definition MSTATUS_MPIE :: u32 where "MSTATUS_MPIE = push_bit 7 1"
definition MSTATUS_SPP :: u32 where "MSTATUS_SPP = push_bit 8 1"
definition MSTATUS_MPP :: u32 where "MSTATUS_MPP = push_bit 11 3"
definition MSTATUS_MPRV :: u32 where "MSTATUS_MPRV = push_bit 17 1"
definition MSTATUS_SUM :: u32 where "MSTATUS_SUM = push_bit 18 1"
definition MSTATUS_MXR :: u32 where "MSTATUS_MXR = push_bit 19 1"

definition MSTATUS_WMASK :: u32 where
  "MSTATUS_WMASK = MSTATUS_SIE OR MSTATUS_MIE OR MSTATUS_SPIE OR MSTATUS_MPIE OR MSTATUS_SPP
     OR MSTATUS_MPP OR MSTATUS_MPRV OR MSTATUS_SUM OR MSTATUS_MXR"

definition SSTATUS_MASK :: u32 where
  "SSTATUS_MASK = MSTATUS_SIE OR MSTATUS_SPIE OR MSTATUS_SPP OR MSTATUS_SUM OR MSTATUS_MXR"

definition S_INT_MASK :: u32 where
  "S_INT_MASK = push_bit 1 1 OR push_bit 5 1 OR push_bit 9 1"

definition E_INSTR_MISALIGNED :: u32 where "E_INSTR_MISALIGNED = 0"
definition E_INSTR_ACCESS :: u32 where "E_INSTR_ACCESS = 1"
definition E_ILLEGAL :: u32 where "E_ILLEGAL = 2"
definition E_BREAKPOINT :: u32 where "E_BREAKPOINT = 3"
definition E_LOAD_MISALIGNED :: u32 where "E_LOAD_MISALIGNED = 4"
definition E_LOAD_ACCESS :: u32 where "E_LOAD_ACCESS = 5"
definition E_STORE_MISALIGNED :: u32 where "E_STORE_MISALIGNED = 6"
definition E_STORE_ACCESS :: u32 where "E_STORE_ACCESS = 7"
definition E_ECALL_U :: u32 where "E_ECALL_U = 8"
definition E_ECALL_S :: u32 where "E_ECALL_S = 9"
definition E_ECALL_M :: u32 where "E_ECALL_M = 11"
definition E_INSTR_PAGE_FAULT :: u32 where "E_INSTR_PAGE_FAULT = 12"
definition E_LOAD_PAGE_FAULT :: u32 where "E_LOAD_PAGE_FAULT = 13"
definition E_STORE_PAGE_FAULT :: u32 where "E_STORE_PAGE_FAULT = 15"

section \<open>The CSR file\<close>

datatype csr_illegal = CsrIllegal

record csr_file =
  mstatus :: u32
  mtvec :: u32
  mepc :: u32
  mcause :: u32
  mtval :: u32
  mscratch :: u32
  mie :: u32
  mip :: u32
  medeleg :: u32
  mideleg :: u32
  misa :: u32
  mhartid :: u32
  stvec :: u32
  sepc :: u32
  scause :: u32
  stval :: u32
  sscratch :: u32
  satp :: u32
  stimecmp :: u64
  mtimecmp :: u64
  pmpcfg :: "u32 list"
  pmpaddr :: "u32 list"
  mcounteren :: u32
  scounteren :: u32
  mcountinhibit :: u32
  menvcfg :: u32
  menvcfgh :: u32
  senvcfg :: u32

definition csr_default :: csr_file where
  "csr_default =
     (let ext = push_bit 8 1 OR push_bit 12 1 OR push_bit 0 1 OR push_bit 2 1 OR push_bit 18 1
                OR push_bit 20 1 in
      \<lparr>mstatus = 0, mtvec = 0, mepc = 0, mcause = 0, mtval = 0, mscratch = 0, mie = 0, mip = 0,
       medeleg = 0, mideleg = 0, misa = push_bit 30 1 OR ext, mhartid = 0, stvec = 0, sepc = 0,
       scause = 0, stval = 0, sscratch = 0, satp = 0, stimecmp = 0xFFFFFFFFFFFFFFFF,
       mtimecmp = 0xFFFFFFFFFFFFFFFF, pmpcfg = replicate 4 0, pmpaddr = replicate 16 0,
       mcounteren = 0, scounteren = 0, mcountinhibit = 0, menvcfg = 0, menvcfgh = 0, senvcfg = 0\<rparr>)"

definition csr_priv_denied :: "u16 \<Rightarrow> priv \<Rightarrow> bool" where
  "csr_priv_denied addr p \<longleftrightarrow> level p < ucast (drop_bit 8 addr AND 0x3)"

definition csr_read :: "csr_file \<Rightarrow> u16 \<Rightarrow> priv \<Rightarrow> csr_illegal + u32" where
  "csr_read c addr p =
     (if csr_priv_denied addr p then Inl CsrIllegal
      else if addr = CSR_MSTATUS then Inr (mstatus c)
      else if addr = CSR_MISA then Inr (misa c)
      else if addr = CSR_MEDELEG then Inr (medeleg c)
      else if addr = CSR_MIDELEG then Inr (mideleg c)
      else if addr = CSR_MIE then Inr (mie c)
      else if addr = CSR_MTVEC then Inr (mtvec c)
      else if addr = CSR_MSCRATCH then Inr (mscratch c)
      else if addr = CSR_MEPC then Inr (mepc c)
      else if addr = CSR_MCAUSE then Inr (mcause c)
      else if addr = CSR_MTVAL then Inr (mtval c)
      else if addr = CSR_MIP then Inr (mip c)
      else if addr = CSR_MHARTID then Inr (mhartid c)
      else if addr = CSR_SSTATUS then Inr (mstatus c AND SSTATUS_MASK)
      else if addr = CSR_SIE then Inr (mie c AND S_INT_MASK)
      else if addr = CSR_STVEC then Inr (stvec c)
      else if addr = CSR_SSCRATCH then Inr (sscratch c)
      else if addr = CSR_SEPC then Inr (sepc c)
      else if addr = CSR_SCAUSE then Inr (scause c)
      else if addr = CSR_STVAL then Inr (stval c)
      else if addr = CSR_SIP then Inr (mip c AND S_INT_MASK)
      else if addr = CSR_SATP then Inr (satp c)
      else if addr = CSR_STIMECMP then Inr (ucast (stimecmp c))
      else if addr = CSR_STIMECMPH then Inr (ucast (drop_bit 32 (stimecmp c)))
      else if addr \<in> {CSR_MVENDORID, CSR_MARCHID, CSR_MIMPID, CSR_MCONFIGPTR, CSR_MSTATUSH, CSR_MEDELEGH}
      then Inr 0
      else if addr = CSR_MCOUNTEREN then Inr (mcounteren c)
      else if addr = CSR_SCOUNTEREN then Inr (scounteren c)
      else if addr = CSR_MCOUNTINHIBIT then Inr (mcountinhibit c)
      else if addr = CSR_MENVCFG then Inr (menvcfg c)
      else if addr = CSR_MENVCFGH then Inr (menvcfgh c)
      else if addr = CSR_SENVCFG then Inr (senvcfg c)
      else if 0x3a0 \<le> addr \<and> addr \<le> 0x3a3 then Inr (pmpcfg c ! unat (addr - 0x3a0))
      else if 0x3b0 \<le> addr \<and> addr \<le> 0x3bf then Inr (pmpaddr c ! unat (addr - 0x3b0))
      else Inl CsrIllegal)"

definition csr_write :: "csr_file \<Rightarrow> u16 \<Rightarrow> u32 \<Rightarrow> priv \<Rightarrow> csr_illegal + csr_file" where
  "csr_write c addr val p =
     (if csr_priv_denied addr p then Inl CsrIllegal
      else if drop_bit 10 addr AND 0x3 = 0x3 then Inl CsrIllegal
      else if addr = CSR_MSTATUS then Inr (c\<lparr>mstatus := val AND MSTATUS_WMASK\<rparr>)
      else if addr = CSR_MISA then Inr c
      else if addr = CSR_MEDELEG then Inr (c\<lparr>medeleg := val\<rparr>)
      else if addr = CSR_MIDELEG then Inr (c\<lparr>mideleg := val\<rparr>)
      else if addr = CSR_MIE then Inr (c\<lparr>mie := val\<rparr>)
      else if addr = CSR_MTVEC then Inr (c\<lparr>mtvec := val AND NOT 0x2\<rparr>)
      else if addr = CSR_MSCRATCH then Inr (c\<lparr>mscratch := val\<rparr>)
      else if addr = CSR_MEPC then Inr (c\<lparr>mepc := val AND NOT 0x1\<rparr>)
      else if addr = CSR_MCAUSE then Inr (c\<lparr>mcause := val\<rparr>)
      else if addr = CSR_MTVAL then Inr (c\<lparr>mtval := val\<rparr>)
      else if addr = CSR_MIP then Inr (c\<lparr>mip := (mip c AND NOT S_INT_MASK) OR (val AND S_INT_MASK)\<rparr>)
      else if addr = CSR_SSTATUS then Inr (c\<lparr>mstatus := (mstatus c AND NOT SSTATUS_MASK) OR (val AND SSTATUS_MASK)\<rparr>)
      else if addr = CSR_SIE then Inr (c\<lparr>mie := (mie c AND NOT S_INT_MASK) OR (val AND S_INT_MASK)\<rparr>)
      else if addr = CSR_STVEC then Inr (c\<lparr>stvec := val AND NOT 0x2\<rparr>)
      else if addr = CSR_SSCRATCH then Inr (c\<lparr>sscratch := val\<rparr>)
      else if addr = CSR_SEPC then Inr (c\<lparr>sepc := val AND NOT 0x1\<rparr>)
      else if addr = CSR_SCAUSE then Inr (c\<lparr>scause := val\<rparr>)
      else if addr = CSR_STVAL then Inr (c\<lparr>stval := val\<rparr>)
      else if addr = CSR_SIP then Inr (c\<lparr>mip := (mip c AND NOT S_INT_MASK) OR (val AND S_INT_MASK)\<rparr>)
      else if addr = CSR_SATP then Inr (c\<lparr>satp := val\<rparr>)
      else if addr = CSR_STIMECMP then Inr (c\<lparr>stimecmp := (stimecmp c AND 0xFFFFFFFF00000000) OR ucast val\<rparr>)
      else if addr = CSR_STIMECMPH then Inr (c\<lparr>stimecmp := (stimecmp c AND 0xFFFFFFFF) OR push_bit 32 (ucast val)\<rparr>)
      else if addr \<in> {CSR_MSTATUSH, CSR_MEDELEGH} then Inr c
      else if addr = CSR_MCOUNTEREN then Inr (c\<lparr>mcounteren := val\<rparr>)
      else if addr = CSR_SCOUNTEREN then Inr (c\<lparr>scounteren := val\<rparr>)
      else if addr = CSR_MCOUNTINHIBIT then Inr (c\<lparr>mcountinhibit := val\<rparr>)
      else if addr = CSR_MENVCFG then Inr (c\<lparr>menvcfg := val\<rparr>)
      else if addr = CSR_MENVCFGH then Inr (c\<lparr>menvcfgh := val\<rparr>)
      else if addr = CSR_SENVCFG then Inr (c\<lparr>senvcfg := val\<rparr>)
      else if 0x3a0 \<le> addr \<and> addr \<le> 0x3a3 then Inr (c\<lparr>pmpcfg := (pmpcfg c)[unat (addr - 0x3a0) := val]\<rparr>)
      else if 0x3b0 \<le> addr \<and> addr \<le> 0x3bf then Inr (c\<lparr>pmpaddr := (pmpaddr c)[unat (addr - 0x3b0) := val]\<rparr>)
      else Inl CsrIllegal)"

section \<open>Well-formedness\<close>

text \<open>
  The shape of the PMP arrays, the reserved \<open>mstatus\<close> bits, halfword-aligned exception program
  counters and the fixed bit of the trap vectors.
\<close>

definition csr_wf :: "csr_file \<Rightarrow> bool" where
  "csr_wf c \<longleftrightarrow> length (pmpcfg c) = 4 \<and> length (pmpaddr c) = 16 \<and>
     mstatus c AND MSTATUS_WMASK = mstatus c \<and> \<not> bit (mepc c) 0 \<and> \<not> bit (sepc c) 0 \<and>
     \<not> bit (mtvec c) 1 \<and> \<not> bit (stvec c) 1"

lemma csr_default_wf: "csr_wf csr_default"
  by (simp add: csr_wf_def csr_default_def)

lemma bit_mstatus_fields [simp]:
  "bit MSTATUS_SIE n \<longleftrightarrow> n = 1" "bit MSTATUS_MIE n \<longleftrightarrow> n = 3" "bit MSTATUS_SPIE n \<longleftrightarrow> n = 5"
  "bit MSTATUS_MPIE n \<longleftrightarrow> n = 7" "bit MSTATUS_SPP n \<longleftrightarrow> n = 8" "bit MSTATUS_MPRV n \<longleftrightarrow> n = 17"
  "bit MSTATUS_SUM n \<longleftrightarrow> n = 18" "bit MSTATUS_MXR n \<longleftrightarrow> n = 19"
  unfolding MSTATUS_SIE_def MSTATUS_MIE_def MSTATUS_SPIE_def MSTATUS_MPIE_def MSTATUS_SPP_def
    MSTATUS_MPRV_def MSTATUS_SUM_def MSTATUS_MXR_def bit_push_one by auto

lemma bit_three: "bit (3 :: u32) k \<longleftrightarrow> k = 0 \<or> k = 1"
proof -
  have e: "(3 :: u32) = mask 2" by (simp add: mask_eq_exp_minus_1)
  show ?thesis unfolding e bit_mask_iff by auto
qed

lemma bit_mstatus_mpp [simp]: "bit MSTATUS_MPP n \<longleftrightarrow> n = 11 \<or> n = 12"
  unfolding MSTATUS_MPP_def bit_push_bit_iff bit_three by auto

lemma bit_mstatus_wmask [simp]:
  "bit MSTATUS_WMASK n \<longleftrightarrow> n \<in> {1, 3, 5, 7, 8, 11, 12, 17, 18, 19}"
  by (auto simp: MSTATUS_WMASK_def bit_or_iff)

lemma bit_sstatus_mask [simp]: "bit SSTATUS_MASK n \<longleftrightarrow> n \<in> {1, 5, 8, 18, 19}"
  by (auto simp: SSTATUS_MASK_def bit_or_iff)

lemma bit_s_int_mask [simp]: "bit S_INT_MASK n \<longleftrightarrow> n \<in> {1, 5, 9}"
  unfolding S_INT_MASK_def bit_or_iff bit_push_one by auto

lemma mask_subI:
  fixes w m :: u32
  assumes "\<And>n. bit w n \<Longrightarrow> bit m n"
  shows "w AND m = w"
  using assms by (intro bit_word_eqI) (auto simp: bit_and_iff)

lemma mask_subD:
  fixes w m :: u32
  shows "w AND m = w \<Longrightarrow> bit w n \<Longrightarrow> bit m n"
  by (metis bit_and_iff)

lemma csr_write_wf [wf_intros]:
  assumes "csr_wf c" "csr_write c addr val p = Inr c'"
  shows "csr_wf c'"
proof -
  have ss: "((mstatus c AND NOT SSTATUS_MASK) OR (val AND SSTATUS_MASK)) AND MSTATUS_WMASK =
      (mstatus c AND NOT SSTATUS_MASK) OR (val AND SSTATUS_MASK)"
    using assms(1) by (intro mask_subI) (auto simp: csr_wf_def bit_simps dest: mask_subD)
  show ?thesis
    using assms ss unfolding csr_write_def csr_wf_def
    by (auto simp: bit_simps and.assoc split: if_splits)
qed

section \<open>Reading back a write\<close>

text \<open>The value an address holds after a write: the legalised one.\<close>

definition csr_legalised :: "csr_file \<Rightarrow> u16 \<Rightarrow> u32 \<Rightarrow> u32" where
  "csr_legalised c addr val =
     (if addr = CSR_MSTATUS then val AND MSTATUS_WMASK
      else if addr = CSR_MISA then misa c
      else if addr = CSR_SSTATUS then val AND SSTATUS_MASK
      else if addr = CSR_SIE \<or> addr = CSR_SIP then val AND S_INT_MASK
      else if addr = CSR_MIP then (mip c AND NOT S_INT_MASK) OR (val AND S_INT_MASK)
      else if addr = CSR_MTVEC \<or> addr = CSR_STVEC then val AND NOT 0x2
      else if addr = CSR_MEPC \<or> addr = CSR_SEPC then val AND NOT 0x1
      else if addr = CSR_MSTATUSH \<or> addr = CSR_MEDELEGH then 0
      else val)"

lemma merge_masked:
  fixes a v m :: u32
  shows "((a AND NOT m) OR (v AND m)) AND m = v AND m"
  by (rule bit_word_eqI) (auto simp: bit_simps)

lemma stimecmp_halves:
  fixes t :: u64 and v :: u32
  shows "(ucast ((t AND 0xFFFFFFFF00000000) OR ucast v) :: u32) = v"
    "(ucast (drop_bit 32 ((t AND 0xFFFFFFFF) OR push_bit 32 (ucast v))) :: u32) = v"
    "(ucast (drop_bit 32 ((t AND 0xFFFFFFFF00000000) OR ucast v)) :: u32) = ucast (drop_bit 32 t)"
    "(ucast ((t AND 0xFFFFFFFF) OR push_bit 32 (ucast v)) :: u32) = ucast t"
    "(ucast (drop_bit 32 (push_bit 32 (ucast v :: u64))) :: u32) = v"
proof -
  have m: "(0xFFFFFFFF :: u64) = mask 32" "(0xFFFFFFFF00000000 :: u64) = push_bit 32 (mask 32)"
    by (simp_all add: mask_eq_exp_minus_1 push_bit_eq_mult)
  show "(ucast ((t AND 0xFFFFFFFF00000000) OR ucast v) :: u32) = v"
    "(ucast (drop_bit 32 ((t AND 0xFFFFFFFF) OR push_bit 32 (ucast v))) :: u32) = v"
    "(ucast (drop_bit 32 ((t AND 0xFFFFFFFF00000000) OR ucast v)) :: u32) = ucast (drop_bit 32 t)"
    "(ucast ((t AND 0xFFFFFFFF) OR push_bit 32 (ucast v)) :: u32) = ucast t"
    "(ucast (drop_bit 32 (push_bit 32 (ucast v :: u64))) :: u32) = v"
    unfolding m by (rule bit_word_eqI, auto simp: bit_simps dest: bit_imp_le_length)+
qed

lemma pmp_index:
  fixes addr :: u16
  shows "0x3a0 \<le> addr \<Longrightarrow> addr \<le> 0x3a3 \<Longrightarrow> unat (addr - 0x3a0) < 4"
    "0x3b0 \<le> addr \<Longrightarrow> addr \<le> 0x3bf \<Longrightarrow> unat (addr - 0x3b0) < 16"
  by (simp_all add: unat_sub word_le_nat_alt)

lemma if_elim:
  assumes "(if b then x else y) = z" "b \<Longrightarrow> x = z \<Longrightarrow> R" "\<not> b \<Longrightarrow> y = z \<Longrightarrow> R"
  shows R
  using assms by (cases b) simp_all

lemma csr_read_after_write:
  assumes wf: "csr_wf c" and w: "csr_write c addr val p = Inr c'"
  shows "csr_read c' addr p = Inr (csr_legalised c addr val)"
proof -
  have pmp: "length (pmpcfg c) = 4" "length (pmpaddr c) = 16" using wf by (simp_all add: csr_wf_def)
  show ?thesis
    using w unfolding csr_write_def csr_addr_defs
    by (elim if_elim; simp add: csr_read_def csr_legalised_def csr_addr_defs merge_masked stimecmp_halves
        pmp pmp_index; (auto simp: merge_masked stimecmp_halves pmp pmp_index; fail)?)
qed


text \<open>The pairs of addresses that name parts of one register.\<close>

definition csr_alias :: "u16 \<Rightarrow> u16 \<Rightarrow> bool" where
  "csr_alias a b \<longleftrightarrow> a = b \<or> {a, b} = {CSR_MSTATUS, CSR_SSTATUS} \<or> {a, b} = {CSR_MIE, CSR_SIE} \<or>
     {a, b} = {CSR_MIP, CSR_SIP}"

lemma csr_read_upd:
  "b \<noteq> CSR_MTVEC \<Longrightarrow> csr_read (c\<lparr>mtvec := v\<rparr>) b q = csr_read c b q"
  "b \<noteq> CSR_MEPC \<Longrightarrow> csr_read (c\<lparr>mepc := v\<rparr>) b q = csr_read c b q"
  "b \<noteq> CSR_MCAUSE \<Longrightarrow> csr_read (c\<lparr>mcause := v\<rparr>) b q = csr_read c b q"
  "b \<noteq> CSR_MTVAL \<Longrightarrow> csr_read (c\<lparr>mtval := v\<rparr>) b q = csr_read c b q"
  "b \<noteq> CSR_MSCRATCH \<Longrightarrow> csr_read (c\<lparr>mscratch := v\<rparr>) b q = csr_read c b q"
  "b \<noteq> CSR_MEDELEG \<Longrightarrow> csr_read (c\<lparr>medeleg := v\<rparr>) b q = csr_read c b q"
  "b \<noteq> CSR_MIDELEG \<Longrightarrow> csr_read (c\<lparr>mideleg := v\<rparr>) b q = csr_read c b q"
  "b \<noteq> CSR_STVEC \<Longrightarrow> csr_read (c\<lparr>stvec := v\<rparr>) b q = csr_read c b q"
  "b \<noteq> CSR_SEPC \<Longrightarrow> csr_read (c\<lparr>sepc := v\<rparr>) b q = csr_read c b q"
  "b \<noteq> CSR_SCAUSE \<Longrightarrow> csr_read (c\<lparr>scause := v\<rparr>) b q = csr_read c b q"
  "b \<noteq> CSR_STVAL \<Longrightarrow> csr_read (c\<lparr>stval := v\<rparr>) b q = csr_read c b q"
  "b \<noteq> CSR_SSCRATCH \<Longrightarrow> csr_read (c\<lparr>sscratch := v\<rparr>) b q = csr_read c b q"
  "b \<noteq> CSR_SATP \<Longrightarrow> csr_read (c\<lparr>satp := v\<rparr>) b q = csr_read c b q"
  "b \<noteq> CSR_MCOUNTEREN \<Longrightarrow> csr_read (c\<lparr>mcounteren := v\<rparr>) b q = csr_read c b q"
  "b \<noteq> CSR_SCOUNTEREN \<Longrightarrow> csr_read (c\<lparr>scounteren := v\<rparr>) b q = csr_read c b q"
  "b \<noteq> CSR_MCOUNTINHIBIT \<Longrightarrow> csr_read (c\<lparr>mcountinhibit := v\<rparr>) b q = csr_read c b q"
  "b \<noteq> CSR_MENVCFG \<Longrightarrow> csr_read (c\<lparr>menvcfg := v\<rparr>) b q = csr_read c b q"
  "b \<noteq> CSR_MENVCFGH \<Longrightarrow> csr_read (c\<lparr>menvcfgh := v\<rparr>) b q = csr_read c b q"
  "b \<noteq> CSR_SENVCFG \<Longrightarrow> csr_read (c\<lparr>senvcfg := v\<rparr>) b q = csr_read c b q"
  "b \<noteq> CSR_MSTATUS \<Longrightarrow> b \<noteq> CSR_SSTATUS \<Longrightarrow> csr_read (c\<lparr>mstatus := v\<rparr>) b q = csr_read c b q"
  "b \<noteq> CSR_MIE \<Longrightarrow> b \<noteq> CSR_SIE \<Longrightarrow> csr_read (c\<lparr>mie := v\<rparr>) b q = csr_read c b q"
  "b \<noteq> CSR_MIP \<Longrightarrow> b \<noteq> CSR_SIP \<Longrightarrow> csr_read (c\<lparr>mip := v\<rparr>) b q = csr_read c b q"
  by (simp_all add: csr_read_def)

lemma csr_read_upd_half:
  "(ucast (drop_bit 32 x) :: u32) = ucast (drop_bit 32 (stimecmp c)) \<Longrightarrow> b \<noteq> CSR_STIMECMP \<Longrightarrow>
     csr_read (c\<lparr>stimecmp := x\<rparr>) b q = csr_read c b q"
  "(ucast x :: u32) = ucast (stimecmp c) \<Longrightarrow> b \<noteq> CSR_STIMECMPH \<Longrightarrow>
     csr_read (c\<lparr>stimecmp := x\<rparr>) b q = csr_read c b q"
  by (simp_all add: csr_read_def)

lemma csr_read_upd_stimecmp:
  "b \<noteq> CSR_STIMECMP \<Longrightarrow>
     csr_read (c\<lparr>stimecmp := (stimecmp c AND 0xFFFFFFFF00000000) OR ucast v\<rparr>) b q = csr_read c b q"
  "b \<noteq> CSR_STIMECMPH \<Longrightarrow>
     csr_read (c\<lparr>stimecmp := (stimecmp c AND 0xFFFFFFFF) OR push_bit 32 (ucast v)\<rparr>) b q = csr_read c b q"
  for v :: u32
  by (rule csr_read_upd_half(1) [OF stimecmp_halves(3)], assumption)
    (rule csr_read_upd_half(2) [OF stimecmp_halves(4)])

lemma csr_read_upd_pmp:
  assumes "b \<noteq> a"
  shows "csr_read (c\<lparr>pmpcfg := (pmpcfg c)[unat (a - 0x3a0) := v]\<rparr>) b q = csr_read c b q"
    "csr_read (c\<lparr>pmpaddr := (pmpaddr c)[unat (a - 0x3b0) := v]\<rparr>) b q = csr_read c b q"
proof -
  have "unat (a - 0x3a0) \<noteq> unat (b - 0x3a0)" "unat (a - 0x3b0) \<noteq> unat (b - 0x3b0)"
    using assms by (auto simp: word_unat_eq_iff [symmetric])
  then show "csr_read (c\<lparr>pmpcfg := (pmpcfg c)[unat (a - 0x3a0) := v]\<rparr>) b q = csr_read c b q"
    "csr_read (c\<lparr>pmpaddr := (pmpaddr c)[unat (a - 0x3b0) := v]\<rparr>) b q = csr_read c b q"
    by (simp_all add: csr_read_def)
qed

lemma if_elim_weak:
  assumes "z = (if b then x else y)" "b \<Longrightarrow> z = x \<Longrightarrow> R" "z = y \<Longrightarrow> R"
  shows R
  using assms by (cases b) simp_all

lemma csr_write_frame:
  assumes w: "csr_write c addr val p = Inr c'" and na: "\<not> csr_alias addr b"
  shows "csr_read c' b q = csr_read c b q"
proof -
  have ne: "b \<noteq> addr" "addr = CSR_MSTATUS \<Longrightarrow> b \<noteq> CSR_SSTATUS" "addr = CSR_SSTATUS \<Longrightarrow> b \<noteq> CSR_MSTATUS"
    "addr = CSR_MIE \<Longrightarrow> b \<noteq> CSR_SIE" "addr = CSR_SIE \<Longrightarrow> b \<noteq> CSR_MIE"
    "addr = CSR_MIP \<Longrightarrow> b \<noteq> CSR_SIP" "addr = CSR_SIP \<Longrightarrow> b \<noteq> CSR_MIP"
    using na by (auto simp: csr_alias_def)
  note upds = csr_read_upd csr_read_upd_stimecmp csr_read_upd_pmp
  show ?thesis
    using w [symmetric] ne unfolding csr_write_def by (elim if_elim_weak; simp add: upds)
qed

end
