(* ===== verification/Cpu.thy ===== *)
theory Cpu
  imports Csr Bus CowRam "HOL-Library.Signed_Division"
begin

text \<open>
  The scalar core of \<open>crates/fs-riscv/src/lib.rs\<close>: the hart's state, the software TLB and the
  sv32 walk, the arithmetic of the I and M extensions and its taint rules, translated loads and
  stores, the execute stage (one definition per instruction group, composed by \<open>exec_inst\<close> in
  the order of the source's \<open>match\<close>), fetch-decode-execute, trap delivery, interrupts and the
  full-system step.  Every function that takes \<open>&mut self\<close> and \<open>bus: &mut dyn Bus\<close> works on the
  pair of the hart and the bus state, over the operations of a \<open>bus\<close> record, so the same core
  runs over any memory.
\<close>

section \<open>The hart\<close>

datatype exit = EContinue | EEcall | EEbreak | EHalt u32

datatype trap =
    TMem fault
  | TIllegal u32 u32
  | TException u32 u32
  | TKmsanTainted u32 u8 u8 u32 u32

datatype sys_exit = SContinue | SHalt u32 | SHypercall u32

record kmsan_report =
  kr_pc :: u32
  kr_rs1 :: u8
  kr_rs2 :: u8
  kr_taint_a :: u32
  kr_taint_b :: u32

definition TLB_SIZE :: nat where "TLB_SIZE = 256"

record tlb_entry =
  te_vpn :: u32
  te_ppn :: u32
  te_r :: bool
  te_w :: bool
  te_x :: bool
  te_u :: bool
  te_d_set :: bool

record leaf_bits =
  lf_r :: bool
  lf_w :: bool
  lf_x :: bool
  lf_u :: bool

definition leaf_perm_priv_ok :: "access \<Rightarrow> priv \<Rightarrow> bool \<Rightarrow> bool \<Rightarrow> leaf_bits \<Rightarrow> bool" where
  "leaf_perm_priv_ok ac p sm mxr leaf =
     (let perm_ok = (case ac of
            Exec \<Rightarrow> lf_x leaf
          | Read \<Rightarrow> lf_r leaf \<or> (mxr \<and> lf_x leaf)
          | Write \<Rightarrow> lf_w leaf);
          priv_ok = (case p of
            U \<Rightarrow> lf_u leaf
          | S \<Rightarrow> \<not> (lf_u leaf \<and> (ac = Exec \<or> \<not> sm))
          | M \<Rightarrow> True)
      in perm_ok \<and> priv_ok)"

definition tlb_empty :: tlb_entry where
  "tlb_empty = \<lparr>te_vpn = 0xFFFFFFFF, te_ppn = 0, te_r = False, te_w = False, te_x = False,
     te_u = False, te_d_set = False\<rparr>"

type_synonym tlb = "tlb_entry list"

definition tlb_new :: tlb where "tlb_new = replicate TLB_SIZE tlb_empty"

definition tlb_flush :: "tlb \<Rightarrow> tlb" where "tlb_flush t = replicate TLB_SIZE tlb_empty"

definition tlb_slot :: "u32 \<Rightarrow> nat" where "tlb_slot vpn = unat vpn mod TLB_SIZE"

definition tlb_get :: "tlb \<Rightarrow> u32 \<Rightarrow> tlb_entry option" where
  "tlb_get t vpn = (let e = t ! tlb_slot vpn in if te_vpn e = vpn then Some e else None)"

definition tlb_insert :: "tlb_entry \<Rightarrow> tlb \<Rightarrow> tlb" where
  "tlb_insert e t = t[tlb_slot (te_vpn e) := e]"

definition CMPLOG_CAP :: nat where "CMPLOG_CAP = 8192"
definition UBSAN_CAP :: nat where "UBSAN_CAP = 8192"

record cpu =
  regs :: "u32 list"
  pc :: u32
  htif_tohost :: "u32 option"
  insns_retired :: u64
  reservation :: "u32 option"
  privilege :: priv
  csr :: csr_file
  hypercall_eid :: "u32 option"
  tlb :: tlb
  cmplog :: "(u32 \<times> u32) list option"
  ubsan :: "u32 list option"
  regs_taint :: "u32 list option"
  jit_pending_trap :: "trap option"
  fast_path_hits :: u64
  fast_path_bails :: u64
  kmsan_hit :: "kmsan_report option"

definition cpu_new :: "u32 \<Rightarrow> cpu" where
  "cpu_new entry = \<lparr>regs = replicate 32 0, pc = entry, htif_tohost = None, insns_retired = 0,
     reservation = None, privilege = M, csr = csr_default, hypercall_eid = None, tlb = tlb_new,
     cmplog = None, ubsan = None, regs_taint = None, jit_pending_trap = None, fast_path_hits = 0,
     fast_path_bails = 0, kmsan_hit = None\<rparr>"

definition cpu_new_hart :: "u32 \<Rightarrow> u32 \<Rightarrow> cpu" where
  "cpu_new_hart entry hartid = (let c = cpu_new entry in c\<lparr>csr := (csr c)\<lparr>mhartid := hartid\<rparr>\<rparr>)"

definition invalidate_reservation :: "u32 \<Rightarrow> u32 \<Rightarrow> cpu \<Rightarrow> cpu" where
  "invalidate_reservation addr len c =
     (case reservation c of
        None \<Rightarrow> c
      | Some r \<Rightarrow>
          let lo = unat addr; hi = lo + unat len in
          if lo \<le> unat r \<and> unat r < hi then c\<lparr>reservation := None\<rparr> else c)"

definition set_cmplog :: "bool \<Rightarrow> cpu \<Rightarrow> cpu" where
  "set_cmplog on c = c\<lparr>cmplog := if on then Some [] else None\<rparr>"

definition cmplog_take :: "cpu \<Rightarrow> (u32 \<times> u32) list \<times> cpu" where
  "cmplog_take c = (case cmplog c of Some log \<Rightarrow> (log, c\<lparr>cmplog := Some []\<rparr>) | None \<Rightarrow> ([], c))"

definition set_ubsan :: "bool \<Rightarrow> cpu \<Rightarrow> cpu" where
  "set_ubsan on c = c\<lparr>ubsan := if on then Some [] else None\<rparr>"

definition ubsan_take :: "cpu \<Rightarrow> u32 list \<times> cpu" where
  "ubsan_take c = (case ubsan c of Some log \<Rightarrow> (log, c\<lparr>ubsan := Some []\<rparr>) | None \<Rightarrow> ([], c))"

definition set_kmsan :: "bool \<Rightarrow> cpu \<Rightarrow> cpu" where
  "set_kmsan on c = c\<lparr>regs_taint := if on then Some (replicate 32 0) else None\<rparr>"

definition kmsan_enabled :: "cpu \<Rightarrow> bool" where
  "kmsan_enabled c \<longleftrightarrow> regs_taint c \<noteq> None"

definition rd_reg :: "cpu \<Rightarrow> u8 \<Rightarrow> u32" where
  "rd_reg c i = (if i = 0 then 0 else regs c ! unat i)"

definition wr_reg :: "u8 \<Rightarrow> u32 \<Rightarrow> cpu \<Rightarrow> cpu" where
  "wr_reg i v c = (if i \<noteq> 0 then c\<lparr>regs := (regs c)[unat i := v]\<rparr> else c)"

definition rd_taint :: "cpu \<Rightarrow> u8 \<Rightarrow> u32" where
  "rd_taint c i = (case regs_taint c of Some t \<Rightarrow> if i \<noteq> 0 then t ! unat i else 0 | None \<Rightarrow> 0)"

definition wr_taint :: "u8 \<Rightarrow> u32 \<Rightarrow> cpu \<Rightarrow> cpu" where
  "wr_taint i v c =
     (case regs_taint c of
        Some t \<Rightarrow> if i \<noteq> 0 then c\<lparr>regs_taint := Some (t[unat i := v])\<rparr> else c
      | None \<Rightarrow> c)"

definition effective_priv :: "cpu \<Rightarrow> access \<Rightarrow> priv" where
  "effective_priv c ac =
     (if ac \<noteq> Exec \<and> mstatus (csr c) AND MSTATUS_MPRV \<noteq> 0
      then from_bits (drop_bit 11 (mstatus (csr c) AND MSTATUS_MPP))
      else privilege c)"

section \<open>Arithmetic\<close>

fun alu :: "alu_op \<Rightarrow> u32 \<Rightarrow> u32 \<Rightarrow> u32" where
  "alu AAdd a b = a + b"
| "alu ASub a b = a - b"
| "alu ASll a b = push_bit (unat (b AND 31)) a"
| "alu ASlt a b = (if sint a < sint b then 1 else 0)"
| "alu ASltu a b = (if a < b then 1 else 0)"
| "alu AXor a b = a XOR b"
| "alu ASrl a b = drop_bit (unat (b AND 31)) a"
| "alu ASra a b = signed_drop_bit (unat (b AND 31)) a"
| "alu AOr a b = a OR b"
| "alu AAnd a b = a AND b"

fun muldiv :: "mul_op \<Rightarrow> u32 \<Rightarrow> u32 \<Rightarrow> u32" where
  "muldiv MMul a b = a * b"
| "muldiv MMulh a b = ucast (signed_drop_bit 32 ((scast a :: u64) * scast b))"
| "muldiv MMulhsu a b = ucast (signed_drop_bit 32 ((scast a :: u64) * ucast b))"
| "muldiv MMulhu a b = ucast (drop_bit 32 ((ucast a :: u64) * ucast b))"
| "muldiv MDiv a b =
     (if b = 0 then 0xffffffff
      else if a = 0x80000000 \<and> b = 0xffffffff then 0x80000000
      else word_of_int (sint a sdiv sint b))"
| "muldiv MDivu a b = (if b = 0 then 0xffffffff else a div b)"
| "muldiv MRem a b =
     (if b = 0 then a
      else if a = 0x80000000 \<and> b = 0xffffffff then 0
      else word_of_int (sint a smod sint b))"
| "muldiv MRemu a b = (if b = 0 then a else a mod b)"

definition alu_taint :: "alu_op \<Rightarrow> u32 \<Rightarrow> u32 \<Rightarrow> u32 \<Rightarrow> u32 \<Rightarrow> u32" where
  "alu_taint op a_val a_taint b_val b_taint = a_taint OR b_taint"

definition muldiv_taint :: "mul_op \<Rightarrow> u32 \<Rightarrow> u32 \<Rightarrow> u32 \<Rightarrow> u32 \<Rightarrow> u32" where
  "muldiv_taint op a_val a_taint b_val b_taint =
     (if a_taint \<noteq> 0 \<or> b_taint \<noteq> 0 then 0xffffffff else 0)"

section \<open>Translation\<close>

text \<open>
  The hart and the bus state, threaded together; \<open>bus_ld\<close>, \<open>bus_st\<close> and \<open>bus_if\<close> are a bus call
  followed by \<open>map_err\<close>.
\<close>

type_synonym 's hart = "cpu \<times> 's"

definition bus_ld :: "'s bus \<Rightarrow> (fault \<Rightarrow> trap) \<Rightarrow> u32 \<Rightarrow> nat \<Rightarrow> 's hart \<Rightarrow> (trap + u32) \<times> 's hart" where
  "bus_ld B f a sz h = (case bus_load B (snd h) a sz of (r, s) \<Rightarrow> (map_err f r, (fst h, s)))"

definition bus_st :: "'s bus \<Rightarrow> (fault \<Rightarrow> trap) \<Rightarrow> u32 \<Rightarrow> nat \<Rightarrow> u32 \<Rightarrow> 's hart \<Rightarrow> (trap + unit) \<times> 's hart" where
  "bus_st B f a sz v h = (case bus_store B (snd h) a sz v of (r, s) \<Rightarrow> (map_err f r, (fst h, s)))"

definition bus_if :: "'s bus \<Rightarrow> (fault \<Rightarrow> trap) \<Rightarrow> u32 \<Rightarrow> 's hart \<Rightarrow> (trap + u16) \<times> 's hart" where
  "bus_if B f a h = (case bus_ifetch16 B (snd h) a of (r, s) \<Rightarrow> (map_err f r, (fst h, s)))"

definition xlate_fault :: "access \<Rightarrow> u32 \<Rightarrow> trap" where
  "xlate_fault ac va = TException
     (case ac of Exec \<Rightarrow> E_INSTR_PAGE_FAULT | Read \<Rightarrow> E_LOAD_PAGE_FAULT | Write \<Rightarrow> E_STORE_PAGE_FAULT) va"

definition untranslated :: "cpu \<Rightarrow> access \<Rightarrow> bool" where
  "untranslated c ac \<longleftrightarrow> effective_priv c ac = M \<or> drop_bit 31 (satp (csr c)) = 0"

definition pte_leaf :: "u32 \<Rightarrow> leaf_bits" where
  "pte_leaf pte = \<lparr>lf_r = drop_bit 1 pte AND 1 = 1, lf_w = drop_bit 2 pte AND 1 = 1,
     lf_x = drop_bit 3 pte AND 1 = 1, lf_u = drop_bit 4 pte AND 1 = 1\<rparr>"

definition tlb_leaf :: "tlb_entry \<Rightarrow> leaf_bits" where
  "tlb_leaf e = \<lparr>lf_r = te_r e, lf_w = te_w e, lf_x = te_x e, lf_u = te_u e\<rparr>"

definition vpn_index :: "u32 \<Rightarrow> nat \<Rightarrow> u32" where
  "vpn_index va lvl = (if lvl = 0 then drop_bit 12 va AND 0x3ff else drop_bit 22 va AND 0x3ff)"

definition leaf_pa :: "u32 \<Rightarrow> u32 \<Rightarrow> nat \<Rightarrow> u32" where
  "leaf_pa va pte lvl =
     (if lvl = 1
      then push_bit 22 (drop_bit 20 pte AND 0xfff) OR push_bit 12 (drop_bit 12 va AND 0x3ff) OR (va AND 0xfff)
      else push_bit 12 (drop_bit 10 pte AND 0x3fffff) OR (va AND 0xfff))"

definition pte_next :: "u32 \<Rightarrow> u32" where
  "pte_next pte = push_bit 12 (drop_bit 10 pte AND 0x3fffff)"

definition pte_invalid :: "u32 \<Rightarrow> bool" where
  "pte_invalid pte \<longleftrightarrow> pte AND 1 = 0 \<or> (drop_bit 1 pte AND 1 = 0 \<and> drop_bit 2 pte AND 1 = 1)"

definition pte_is_leaf :: "u32 \<Rightarrow> bool" where
  "pte_is_leaf pte \<longleftrightarrow> drop_bit 1 pte AND 1 = 1 \<or> drop_bit 3 pte AND 1 = 1"

definition pte_needs_ad :: "access \<Rightarrow> u32 \<Rightarrow> bool" where
  "pte_needs_ad ac pte \<longleftrightarrow> drop_bit 6 pte AND 1 = 0 \<or> (ac = Write \<and> drop_bit 7 pte AND 1 = 0)"

definition xlate_leaf ::
  "'s bus \<Rightarrow> u32 \<Rightarrow> access \<Rightarrow> priv \<Rightarrow> bool \<Rightarrow> bool \<Rightarrow> nat \<Rightarrow> u32 \<Rightarrow> u32 \<Rightarrow> 's hart \<Rightarrow> (trap + u32) \<times> 's hart"
where
  "xlate_leaf B va ac p sm mxr lvl pte_addr pte h =
     (if \<not> leaf_perm_priv_ok ac p sm mxr (pte_leaf pte) then (Inl (xlate_fault ac va), h)
      else if lvl = 1 \<and> drop_bit 10 pte AND 0x3ff \<noteq> 0 then (Inl (xlate_fault ac va), h)
      else
        bindR
          (if pte_needs_ad ac pte
           then bus_st B (\<lambda>_. xlate_fault ac va) pte_addr 4
                  (pte OR push_bit 6 1 OR (if ac = Write then push_bit 7 1 else 0)) h
           else (Inr (), h))
          (\<lambda>_ (c, s).
             let pa = leaf_pa va pte lvl;
                 e = \<lparr>te_vpn = drop_bit 12 va, te_ppn = drop_bit 12 pa, te_r = lf_r (pte_leaf pte),
                      te_w = lf_w (pte_leaf pte), te_x = lf_x (pte_leaf pte), te_u = lf_u (pte_leaf pte),
                      te_d_set = (ac = Write \<or> drop_bit 7 pte AND 1 = 1)\<rparr>
             in (Inr pa, (c\<lparr>tlb := tlb_insert e (tlb c)\<rparr>, s))))"

text \<open>The loop over the levels: \<open>Suc lvl\<close> runs the iteration of \<open>lvl\<close>; 0 is the end of the loop.\<close>

fun xlate_walk ::
  "'s bus \<Rightarrow> u32 \<Rightarrow> access \<Rightarrow> priv \<Rightarrow> bool \<Rightarrow> bool \<Rightarrow> nat \<Rightarrow> u32 \<Rightarrow> 's hart \<Rightarrow> (trap + u32) \<times> 's hart"
where
  "xlate_walk B va ac p sm mxr 0 a h = (Inl (xlate_fault ac va), h)"
| "xlate_walk B va ac p sm mxr (Suc lvl) a h =
     (let pte_addr = a + vpn_index va lvl * 4 in
      bindR (bus_ld B (\<lambda>_. xlate_fault ac va) pte_addr 4 h)
        (\<lambda>pte h.
           if pte_invalid pte then (Inl (xlate_fault ac va), h)
           else if pte_is_leaf pte then xlate_leaf B va ac p sm mxr lvl pte_addr pte h
           else xlate_walk B va ac p sm mxr lvl (pte_next pte) h))"

definition sum_bit :: "cpu \<Rightarrow> bool" where
  "sum_bit c \<longleftrightarrow> mstatus (csr c) AND MSTATUS_SUM \<noteq> 0"

definition mxr_bit :: "cpu \<Rightarrow> bool" where
  "mxr_bit c \<longleftrightarrow> mstatus (csr c) AND MSTATUS_MXR \<noteq> 0"

definition satp_root :: "cpu \<Rightarrow> u32" where
  "satp_root c = push_bit 12 (satp (csr c) AND 0x3fffff)"

definition xlate :: "'s bus \<Rightarrow> u32 \<Rightarrow> access \<Rightarrow> 's hart \<Rightarrow> (trap + u32) \<times> 's hart" where
  "xlate B va ac h =
     (let c = fst h; p = effective_priv c ac in
      if untranslated c ac then (Inr va, h)
      else
        let sm = sum_bit c; mxr = mxr_bit c; page_vpn = drop_bit 12 va;
            walk = xlate_walk B va ac p sm mxr 2 (satp_root c) h
        in case tlb_get (tlb c) page_vpn of
             Some e \<Rightarrow>
               if \<not> leaf_perm_priv_ok ac p sm mxr (tlb_leaf e) then (Inl (xlate_fault ac va), h)
               else if \<not> (ac = Write \<and> \<not> te_d_set e)
               then (Inr (push_bit 12 (te_ppn e) OR (va AND 0xfff)), h)
               else walk
           | None \<Rightarrow> walk)"

datatype xlate_declined = XlateDeclined

fun golden_walk ::
  "golden \<Rightarrow> (u32 \<Rightarrow> bool) \<Rightarrow> u32 \<Rightarrow> access \<Rightarrow> priv \<Rightarrow> bool \<Rightarrow> bool \<Rightarrow> nat \<Rightarrow> u32 \<Rightarrow> xlate_declined + u32"
where
  "golden_walk g overlaid va ac p sm mxr 0 a = Inl XlateDeclined"
| "golden_walk g overlaid va ac p sm mxr (Suc lvl) a =
     (let pte_addr = a + vpn_index va lvl * 4 in
      if overlaid pte_addr then Inl XlateDeclined
      else bindE (ok_or XlateDeclined (golden_read_u32 g pte_addr))
        (\<lambda>pte.
           if pte_invalid pte then Inl XlateDeclined
           else if pte_is_leaf pte then
             (if \<not> leaf_perm_priv_ok ac p sm mxr (pte_leaf pte) then Inl XlateDeclined
              else if lvl = 1 \<and> drop_bit 10 pte AND 0x3ff \<noteq> 0 then Inl XlateDeclined
              else if \<not> (drop_bit 6 pte AND 1 = 1) \<or> (ac = Write \<and> \<not> (drop_bit 7 pte AND 1 = 1))
              then Inl XlateDeclined
              else Inr (leaf_pa va pte lvl))
           else golden_walk g overlaid va ac p sm mxr lvl (pte_next pte)))"

definition xlate_golden_readonly ::
  "cpu \<Rightarrow> golden \<Rightarrow> u32 \<Rightarrow> access \<Rightarrow> (u32 \<Rightarrow> bool) \<Rightarrow> xlate_declined + u32" where
  "xlate_golden_readonly c g va ac overlaid =
     (if untranslated c ac then Inr va
      else golden_walk g overlaid va ac (effective_priv c ac) (sum_bit c) (mxr_bit c) 2 (satp_root c))"

definition fast_pa :: "cpu \<Rightarrow> u32 \<Rightarrow> access \<Rightarrow> u32 option" where
  "fast_pa c va ac =
     (if untranslated c ac then Some va
      else case tlb_get (tlb c) (drop_bit 12 va) of
        None \<Rightarrow> None
      | Some e \<Rightarrow>
          if \<not> leaf_perm_priv_ok ac (effective_priv c ac) (sum_bit c) (mxr_bit c) (tlb_leaf e) then None
          else if ac = Write \<and> \<not> te_d_set e then None
          else Some (push_bit 12 (te_ppn e) OR (va AND 0xfff)))"

section \<open>Translated accesses\<close>

definition fetch16 :: "'s bus \<Rightarrow> u32 \<Rightarrow> 's hart \<Rightarrow> (trap + u16) \<times> 's hart" where
  "fetch16 B va h = bindR (xlate B va Exec h) (\<lambda>pa h. bus_if B TMem pa h)"

definition crosses_page :: "u32 \<Rightarrow> nat \<Rightarrow> bool" where
  "crosses_page va sz \<longleftrightarrow> unat (va AND 0xfff) + sz > 0x1000"

definition misaligned :: "u32 \<Rightarrow> nat \<Rightarrow> bool" where
  "misaligned va sz \<longleftrightarrow> va AND (of_nat sz - 1) \<noteq> 0"

fun load_bytes :: "'s bus \<Rightarrow> u32 \<Rightarrow> nat list \<Rightarrow> u32 \<Rightarrow> 's hart \<Rightarrow> (trap + u32) \<times> 's hart" where
  "load_bytes B va [] acc h = (Inr acc, h)"
| "load_bytes B va (i # is) acc h =
     bindR (xlate B (va + of_nat i) Read h)
       (\<lambda>pa h. bindR (bus_ld B TMem pa 1 h)
         (\<lambda>b h. load_bytes B va is (acc OR push_bit (8 * i) (b AND 0xff)) h))"

definition sign_extend :: "nat \<Rightarrow> bool \<Rightarrow> u32 \<Rightarrow> u32" where
  "sign_extend sz sgn_ext v =
     (if sgn_ext then
        (if sz = 1 then scast (ucast v :: u8) else if sz = 2 then scast (ucast v :: u16) else v)
      else v)"

definition load_impl :: "'s bus \<Rightarrow> u32 \<Rightarrow> nat \<Rightarrow> bool \<Rightarrow> 's hart \<Rightarrow> (trap + u32) \<times> 's hart" where
  "load_impl B va sz sgn_ext h =
     bindR
       (if misaligned va sz \<or> crosses_page va sz then load_bytes B va [0 ..< sz] 0 h
        else bindR (xlate B va Read h) (\<lambda>pa h. bus_ld B TMem pa sz h))
       (\<lambda>v h. (Inr (sign_extend sz sgn_ext v), h))"

fun store_bytes :: "'s bus \<Rightarrow> u32 \<Rightarrow> u32 \<Rightarrow> nat list \<Rightarrow> 's hart \<Rightarrow> (trap + unit) \<times> 's hart" where
  "store_bytes B va val [] h = (Inr (), h)"
| "store_bytes B va val (i # is) h =
     bindR (xlate B (va + of_nat i) Write h)
       (\<lambda>pa h. bindR (bus_st B TMem pa 1 (drop_bit (8 * i) val AND 0xff) h)
         (\<lambda>_ h. store_bytes B va val is h))"

definition store_impl :: "'s bus \<Rightarrow> u32 \<Rightarrow> nat \<Rightarrow> u32 \<Rightarrow> 's hart \<Rightarrow> (trap + unit) \<times> 's hart" where
  "store_impl B va sz val h =
     (if misaligned va sz \<or> crosses_page va sz then store_bytes B va val [0 ..< sz] h
      else bindR (xlate B va Write h) (\<lambda>pa h. bus_st B TMem pa sz val h))"

fun load_taint_bytes :: "'s bus \<Rightarrow> u32 \<Rightarrow> nat list \<Rightarrow> u32 \<Rightarrow> 's hart \<Rightarrow> (trap + u32) \<times> 's hart" where
  "load_taint_bytes B va [] m h = (Inr m, h)"
| "load_taint_bytes B va (i # is) m h =
     bindR (xlate B (va + of_nat i) Read h)
       (\<lambda>pa h. load_taint_bytes B va is (m OR push_bit (8 * i) (bus_read_raw_state B (snd h) pa 1)) h)"

definition load_taint :: "'s bus \<Rightarrow> u32 \<Rightarrow> nat \<Rightarrow> 's hart \<Rightarrow> (trap + u32) \<times> 's hart" where
  "load_taint B va sz h =
     (if misaligned va sz \<or> crosses_page va sz then load_taint_bytes B va [0 ..< sz] 0 h
      else bindR (xlate B va Read h) (\<lambda>pa h. (Inr (bus_read_raw_state B (snd h) pa sz), h)))"

fun store_taint_bytes :: "'s bus \<Rightarrow> u32 \<Rightarrow> u32 \<Rightarrow> nat list \<Rightarrow> 's hart \<Rightarrow> (trap + unit) \<times> 's hart" where
  "store_taint_bytes B va m [] h = (Inr (), h)"
| "store_taint_bytes B va m (i # is) h =
     bindR (xlate B (va + of_nat i) Write h)
       (\<lambda>pa (c, s). store_taint_bytes B va m is (c, bus_write_shadow B s pa 1 (drop_bit (8 * i) m AND 1)))"

definition store_taint :: "'s bus \<Rightarrow> u32 \<Rightarrow> nat \<Rightarrow> u32 \<Rightarrow> 's hart \<Rightarrow> (trap + unit) \<times> 's hart" where
  "store_taint B va sz m h =
     (if misaligned va sz \<or> crosses_page va sz then store_taint_bytes B va m [0 ..< sz] h
      else bindR (xlate B va Write h) (\<lambda>pa (c, s). (Inr (), (c, bus_write_shadow B s pa sz m))))"

definition extend_load_taint :: "u32 \<Rightarrow> nat \<Rightarrow> bool \<Rightarrow> u32" where
  "extend_load_taint m sz sgn_ext =
     (if sz \<ge> 4 \<or> \<not> sgn_ext then m
      else if m AND push_bit (8 * (sz - 1)) 1 = 0 then m
      else fold (\<lambda>pos m. m OR push_bit (8 * pos) 1) [sz ..< 4] m)"

section \<open>Execute\<close>

text \<open>
  The arms of \<open>exec_one\<close>'s \<open>match\<close>.  An arm gives the exit and the next program counter, or the
  trap it returns early with; the common tail stores the program counter and counts the
  instruction.
\<close>

definition clear_taint :: "u8 \<Rightarrow> cpu \<Rightarrow> cpu" where
  "clear_taint rd c = (if kmsan_enabled c then wr_taint rd 0 c else c)"

definition cmplog_push :: "u32 \<Rightarrow> u32 \<Rightarrow> cpu \<Rightarrow> cpu" where
  "cmplog_push a b c =
     (case cmplog c of
        Some log \<Rightarrow> if length log < CMPLOG_CAP then c\<lparr>cmplog := Some (log @ [(a, b)])\<rparr> else c
      | None \<Rightarrow> c)"

definition ubsan_push :: "u32 \<Rightarrow> cpu \<Rightarrow> cpu" where
  "ubsan_push ipc c =
     (case ubsan c of
        Some log \<Rightarrow> if length log < UBSAN_CAP then c\<lparr>ubsan := Some (log @ [ipc])\<rparr> else c
      | None \<Rightarrow> c)"

type_synonym arm = "trap + (exit \<times> u32)"

definition exec_lui :: "u8 \<Rightarrow> u32 \<Rightarrow> u32 \<Rightarrow> 's hart \<Rightarrow> arm \<times> 's hart" where
  "exec_lui rd imm nxt h = (case h of (c, s) \<Rightarrow>
     (Inr (EContinue, nxt), (clear_taint rd (wr_reg rd imm c), s)))"

definition exec_auipc :: "u8 \<Rightarrow> u32 \<Rightarrow> u32 \<Rightarrow> u32 \<Rightarrow> 's hart \<Rightarrow> arm \<times> 's hart" where
  "exec_auipc rd imm ipc nxt h = (case h of (c, s) \<Rightarrow>
     (Inr (EContinue, nxt), (clear_taint rd (wr_reg rd (ipc + imm) c), s)))"

definition exec_jal :: "u8 \<Rightarrow> u32 \<Rightarrow> u32 \<Rightarrow> u32 \<Rightarrow> 's hart \<Rightarrow> arm \<times> 's hart" where
  "exec_jal rd imm ipc nxt h = (case h of (c, s) \<Rightarrow>
     (Inr (EContinue, ipc + imm), (clear_taint rd (wr_reg rd nxt c), s)))"

definition exec_jalr :: "u8 \<Rightarrow> u8 \<Rightarrow> u32 \<Rightarrow> u32 \<Rightarrow> 's hart \<Rightarrow> arm \<times> 's hart" where
  "exec_jalr rd rs1 imm nxt h = (case h of (c, s) \<Rightarrow>
     let target = (rd_reg c rs1 + imm) AND NOT 1 in
     (Inr (EContinue, target), (clear_taint rd (wr_reg rd nxt c), s)))"

fun branch_taken :: "branch_op \<Rightarrow> u32 \<Rightarrow> u32 \<Rightarrow> bool" where
  "branch_taken BEq a b \<longleftrightarrow> a = b"
| "branch_taken BNe a b \<longleftrightarrow> a \<noteq> b"
| "branch_taken BLt a b \<longleftrightarrow> sint a < sint b"
| "branch_taken BGe a b \<longleftrightarrow> sint a \<ge> sint b"
| "branch_taken BLtu a b \<longleftrightarrow> a < b"
| "branch_taken BGeu a b \<longleftrightarrow> a \<ge> b"

definition exec_branch :: "branch_op \<Rightarrow> u8 \<Rightarrow> u8 \<Rightarrow> u32 \<Rightarrow> u32 \<Rightarrow> u32 \<Rightarrow> 's hart \<Rightarrow> arm \<times> 's hart" where
  "exec_branch op rs1 rs2 imm ipc nxt h = (case h of (c, s) \<Rightarrow>
     let a = rd_reg c rs1; b = rd_reg c rs2; c1 = cmplog_push a b c;
         ta = rd_taint c1 rs1; tb = rd_taint c1 rs2 in
     if kmsan_enabled c1 \<and> (ta \<noteq> 0 \<or> tb \<noteq> 0)
     then (Inl (TKmsanTainted ipc rs1 rs2 ta tb), (c1, s))
     else (Inr (EContinue, if branch_taken op a b then ipc + imm else nxt), (c1, s)))"

fun load_shape :: "load_op \<Rightarrow> nat \<times> bool" where
  "load_shape Lb = (1, True)" | "load_shape Lbu = (1, False)" | "load_shape Lh = (2, True)"
| "load_shape Lhu = (2, False)" | "load_shape Lw = (4, False)"

definition exec_load :: "'s bus \<Rightarrow> load_op \<Rightarrow> u8 \<Rightarrow> u8 \<Rightarrow> u32 \<Rightarrow> u32 \<Rightarrow> 's hart \<Rightarrow> arm \<times> 's hart" where
  "exec_load B op rd rs1 imm nxt h =
     (let addr = rd_reg (fst h) rs1 + imm; sz = fst (load_shape op); sgd = snd (load_shape op) in
      bindR (load_impl B addr sz sgd h)
        (\<lambda>v h. bindR
          (if kmsan_enabled (fst h)
           then bindR (load_taint B addr sz h)
                  (\<lambda>m (c, s). (Inr (), (wr_taint rd (extend_load_taint m sz sgd) c, s)))
           else (Inr (), h))
          (\<lambda>_ (c, s). (Inr (EContinue, nxt), (wr_reg rd v c, s)))))"

fun store_size :: "store_op \<Rightarrow> nat" where
  "store_size Sb = 1" | "store_size Sh = 2" | "store_size Sw = 4"

definition exec_store :: "'s bus \<Rightarrow> store_op \<Rightarrow> u8 \<Rightarrow> u8 \<Rightarrow> u32 \<Rightarrow> u32 \<Rightarrow> 's hart \<Rightarrow> arm \<times> 's hart" where
  "exec_store B op rs1 rs2 imm nxt h =
     (let c0 = fst h; addr = rd_reg c0 rs1 + imm; val = rd_reg c0 rs2;
          tm = (if kmsan_enabled c0 then Some (rd_taint c0 rs2) else None);
          htif = (op = Sw \<and> htif_tohost c0 = Some addr);
          sz = (if htif then 4 else store_size op) in
      bindR (store_impl B addr sz val h)
        (\<lambda>_ h. bindR
          (case tm of Some t \<Rightarrow> store_taint B addr sz t h | None \<Rightarrow> (Inr (), h))
          (\<lambda>_ h. (Inr (if htif \<and> val AND 1 \<noteq> 0 then EHalt (drop_bit 1 val) else EContinue, nxt), h))))"

definition exec_op_imm :: "alu_op \<Rightarrow> u8 \<Rightarrow> u8 \<Rightarrow> u32 \<Rightarrow> u32 \<Rightarrow> 's hart \<Rightarrow> arm \<times> 's hart" where
  "exec_op_imm op rd rs1 imm nxt h = (case h of (c, s) \<Rightarrow>
     let ra = rd_reg c rs1;
         c1 = (if kmsan_enabled c then wr_taint rd (alu_taint op ra (rd_taint c rs1) imm 0) c else c) in
     (Inr (EContinue, nxt), (wr_reg rd (alu op ra imm) c1, s)))"

definition exec_op :: "alu_op \<Rightarrow> u8 \<Rightarrow> u8 \<Rightarrow> u8 \<Rightarrow> u32 \<Rightarrow> 's hart \<Rightarrow> arm \<times> 's hart" where
  "exec_op op rd rs1 rs2 nxt h = (case h of (c, s) \<Rightarrow>
     let ra = rd_reg c rs1; rb = rd_reg c rs2;
         c1 = (if op = ASub \<or> op = AXor then cmplog_push ra rb c else c);
         c2 = (if kmsan_enabled c1
               then wr_taint rd (alu_taint op ra (rd_taint c1 rs1) rb (rd_taint c1 rs2)) c1 else c1) in
     (Inr (EContinue, nxt), (wr_reg rd (alu op ra rb) c2, s)))"

definition is_div :: "mul_op \<Rightarrow> bool" where
  "is_div op \<longleftrightarrow> op = MDiv \<or> op = MDivu \<or> op = MRem \<or> op = MRemu"

definition exec_mul :: "mul_op \<Rightarrow> u8 \<Rightarrow> u8 \<Rightarrow> u8 \<Rightarrow> u32 \<Rightarrow> u32 \<Rightarrow> 's hart \<Rightarrow> arm \<times> 's hart" where
  "exec_mul op rd rs1 rs2 ipc nxt h = (case h of (c, s) \<Rightarrow>
     let a = rd_reg c rs1; b = rd_reg c rs2;
         c1 = (if is_div op \<and> b = 0 then ubsan_push ipc c else c);
         c2 = (if kmsan_enabled c1
               then wr_taint rd (muldiv_taint op a (rd_taint c1 rs1) b (rd_taint c1 rs2)) c1 else c1) in
     (Inr (EContinue, nxt), (wr_reg rd (muldiv op a b) c2, s)))"

definition exec_lr :: "'s bus \<Rightarrow> u8 \<Rightarrow> u8 \<Rightarrow> u32 \<Rightarrow> 's hart \<Rightarrow> arm \<times> 's hart" where
  "exec_lr B rd rs1 nxt h =
     (let addr = rd_reg (fst h) rs1 in
      bindR (load_impl B addr 4 False h)
        (\<lambda>v h. bindR
          (if kmsan_enabled (fst h)
           then bindR (load_taint B addr 4 h) (\<lambda>m (c, s). (Inr (), (wr_taint rd m c, s)))
           else (Inr (), h))
          (\<lambda>_ (c, s). (Inr (EContinue, nxt), (wr_reg rd v (c\<lparr>reservation := Some addr\<rparr>), s)))))"

definition exec_sc :: "'s bus \<Rightarrow> u8 \<Rightarrow> u8 \<Rightarrow> u8 \<Rightarrow> u32 \<Rightarrow> 's hart \<Rightarrow> arm \<times> 's hart" where
  "exec_sc B rd rs1 rs2 nxt h =
     (let addr = rd_reg (fst h) rs1; success = (reservation (fst h) = Some addr) in
      bindR (if success then store_impl B addr 4 (rd_reg (fst h) rs2) h else (Inr (), h))
        (\<lambda>_ (c, s). (Inr (EContinue, nxt),
           (wr_reg rd (if success then 0 else 1) (clear_taint rd (c\<lparr>reservation := None\<rparr>)), s))))"

fun amo_result :: "amo_op \<Rightarrow> u32 \<Rightarrow> u32 \<Rightarrow> u32" where
  "amo_result AmoSwap old src = src"
| "amo_result AmoAdd old src = old + src"
| "amo_result AmoXor old src = old XOR src"
| "amo_result AmoAnd old src = old AND src"
| "amo_result AmoOr old src = old OR src"
| "amo_result AmoMin old src = (if sint src < sint old then src else old)"
| "amo_result AmoMax old src = (if sint src \<ge> sint old then src else old)"
| "amo_result AmoMinu old src = min old src"
| "amo_result AmoMaxu old src = max old src"

definition exec_amo :: "'s bus \<Rightarrow> amo_op \<Rightarrow> u8 \<Rightarrow> u8 \<Rightarrow> u8 \<Rightarrow> u32 \<Rightarrow> 's hart \<Rightarrow> arm \<times> 's hart" where
  "exec_amo B op rd rs1 rs2 nxt h =
     bindR (xlate B (rd_reg (fst h) rs1) Write h)
       (\<lambda>pa h. bindR (bus_ld B TMem pa 4 h)
         (\<lambda>old (c, s).
            let src = rd_reg c rs2; res = amo_result op old src;
                c1 = (if kmsan_enabled c then wr_taint rd (bus_read_raw_state B s pa 4) c else c) in
            bindR (bus_st B TMem pa 4 res (c1, s))
              (\<lambda>_ (c, s). (Inr (EContinue, nxt), (wr_reg rd old (c\<lparr>reservation := None\<rparr>), s)))))"

definition virtual_time :: "cpu \<Rightarrow> u64" where
  "virtual_time c = insns_retired c"

definition csr_old :: "cpu \<Rightarrow> u16 \<Rightarrow> csr_illegal + u32" where
  "csr_old c a =
     (if a = CSR_CYCLE \<or> a = CSR_INSTRET then Inr (ucast (insns_retired c))
      else if a = CSR_CYCLEH \<or> a = CSR_INSTRETH then Inr (ucast (drop_bit 32 (insns_retired c)))
      else if a = CSR_TIME then Inr (ucast (virtual_time c))
      else if a = CSR_TIMEH then Inr (ucast (drop_bit 32 (virtual_time c)))
      else csr_read (csr c) a (privilege c))"

fun csr_new :: "csr_op \<Rightarrow> u32 \<Rightarrow> u32 \<Rightarrow> u32" where
  "csr_new Rw old v = v" | "csr_new Rwi old v = v"
| "csr_new Rs old v = old OR v" | "csr_new Rsi old v = old OR v"
| "csr_new Rc old v = old AND NOT v" | "csr_new Rci old v = old AND NOT v"

definition exec_csr :: "csr_op \<Rightarrow> u8 \<Rightarrow> u8 \<Rightarrow> u16 \<Rightarrow> u32 \<Rightarrow> u32 \<Rightarrow> u32 \<Rightarrow> 's hart \<Rightarrow> arm \<times> 's hart" where
  "exec_csr op rd src a ipc nxt iword h = (case h of (c, s) \<Rightarrow>
     (case csr_old c a of
        Inl _ \<Rightarrow> (Inl (TIllegal ipc iword), (c, s))
      | Inr old \<Rightarrow>
          let src_val = (if op = Rwi \<or> op = Rsi \<or> op = Rci then ucast src else rd_reg c src);
              do_write = (op = Rw \<or> op = Rwi \<or> src \<noteq> 0);
              finish = (\<lambda>c. (Inr (EContinue, nxt), (wr_reg rd old (clear_taint rd c), s))) in
          if do_write then
            (case csr_write (csr c) a (csr_new op old src_val) (privilege c) of
               Inl _ \<Rightarrow> (Inl (TIllegal ipc iword), (c, s))
             | Inr f \<Rightarrow>
                 finish (if a = CSR_SATP then c\<lparr>csr := f, tlb := tlb_flush (tlb c)\<rparr> else c\<lparr>csr := f\<rparr>))
          else finish c))"

definition exec_mret :: "u32 \<Rightarrow> u32 \<Rightarrow> 's hart \<Rightarrow> arm \<times> 's hart" where
  "exec_mret ipc iword h = (case h of (c, s) \<Rightarrow>
     if level (privilege c) < level M then (Inl (TIllegal ipc iword), (c, s))
     else
       let st = mstatus (csr c); mpp = drop_bit 11 (st AND MSTATUS_MPP);
           mpie = (st AND MSTATUS_MPIE \<noteq> 0);
           s1 = (st AND NOT MSTATUS_MIE) OR (if mpie then MSTATUS_MIE else 0);
           s2 = s1 OR MSTATUS_MPIE;
           s3 = s2 AND NOT MSTATUS_MPP;
           newp = from_bits mpp;
           s4 = (if newp \<noteq> M then s3 AND NOT MSTATUS_MPRV else s3)
       in (Inr (EContinue, mepc (csr c)), (c\<lparr>csr := (csr c)\<lparr>mstatus := s4\<rparr>, privilege := newp\<rparr>, s)))"

definition exec_sret :: "u32 \<Rightarrow> u32 \<Rightarrow> 's hart \<Rightarrow> arm \<times> 's hart" where
  "exec_sret ipc iword h = (case h of (c, s) \<Rightarrow>
     if level (privilege c) < level S then (Inl (TIllegal ipc iword), (c, s))
     else
       let st = mstatus (csr c); spp = drop_bit 8 (st AND MSTATUS_SPP);
           spie = (st AND MSTATUS_SPIE \<noteq> 0);
           s1 = (st AND NOT MSTATUS_SIE) OR (if spie then MSTATUS_SIE else 0);
           s2 = s1 OR MSTATUS_SPIE;
           s3 = s2 AND NOT MSTATUS_SPP;
           newp = from_bits spp;
           s4 = (if newp \<noteq> M then s3 AND NOT MSTATUS_MPRV else s3)
       in (Inr (EContinue, sepc (csr c)), (c\<lparr>csr := (csr c)\<lparr>mstatus := s4\<rparr>, privilege := newp\<rparr>, s)))"

definition exec_sfence :: "u32 \<Rightarrow> 's hart \<Rightarrow> arm \<times> 's hart" where
  "exec_sfence nxt h = (case h of (c, s) \<Rightarrow>
     (Inr (EContinue, nxt), (c\<lparr>tlb := tlb_flush (tlb c)\<rparr>, s)))"

fun exec_inst :: "'s bus \<Rightarrow> inst \<Rightarrow> u32 \<Rightarrow> u32 \<Rightarrow> u32 \<Rightarrow> 's hart \<Rightarrow> arm \<times> 's hart" where
  "exec_inst B (Lui rd imm) ipc nxt iword h = exec_lui rd imm nxt h"
| "exec_inst B (Auipc rd imm) ipc nxt iword h = exec_auipc rd imm ipc nxt h"
| "exec_inst B (Jal rd imm) ipc nxt iword h = exec_jal rd imm ipc nxt h"
| "exec_inst B (Jalr rd rs1 imm) ipc nxt iword h = exec_jalr rd rs1 imm nxt h"
| "exec_inst B (Branch op rs1 rs2 imm) ipc nxt iword h = exec_branch op rs1 rs2 imm ipc nxt h"
| "exec_inst B (Load op rd rs1 imm) ipc nxt iword h = exec_load B op rd rs1 imm nxt h"
| "exec_inst B (Store op rs1 rs2 imm) ipc nxt iword h = exec_store B op rs1 rs2 imm nxt h"
| "exec_inst B (OpImm op rd rs1 imm) ipc nxt iword h = exec_op_imm op rd rs1 imm nxt h"
| "exec_inst B (Op op rd rs1 rs2) ipc nxt iword h = exec_op op rd rs1 rs2 nxt h"
| "exec_inst B (Mul op rd rs1 rs2) ipc nxt iword h = exec_mul op rd rs1 rs2 ipc nxt h"
| "exec_inst B (LrW rd rs1 aq rl) ipc nxt iword h = exec_lr B rd rs1 nxt h"
| "exec_inst B (ScW rd rs1 rs2 aq rl) ipc nxt iword h = exec_sc B rd rs1 rs2 nxt h"
| "exec_inst B (AmoW op rd rs1 rs2 aq rl) ipc nxt iword h = exec_amo B op rd rs1 rs2 nxt h"
| "exec_inst B Fence ipc nxt iword h = (Inr (EContinue, nxt), h)"
| "exec_inst B Ecall ipc nxt iword h = (Inr (EEcall, ipc), h)"
| "exec_inst B Ebreak ipc nxt iword h = (Inr (EEbreak, ipc), h)"
| "exec_inst B (Csr op rd src a) ipc nxt iword h = exec_csr op rd src a ipc nxt iword h"
| "exec_inst B Mret ipc nxt iword h = exec_mret ipc iword h"
| "exec_inst B Sret ipc nxt iword h = exec_sret ipc iword h"
| "exec_inst B Wfi ipc nxt iword h = (Inr (EContinue, nxt), h)"
| "exec_inst B SfenceVma ipc nxt iword h = exec_sfence nxt h"
| "exec_inst B (Illegal raw) ipc nxt iword h = (Inl (TIllegal ipc raw), h)"

definition exec_one :: "'s bus \<Rightarrow> inst \<Rightarrow> u32 \<Rightarrow> u32 \<Rightarrow> u32 \<Rightarrow> 's hart \<Rightarrow> (trap + exit) \<times> 's hart" where
  "exec_one B i ipc ilen iword h =
     bindR (exec_inst B i ipc (ipc + ilen) iword h)
       (\<lambda>(ex, nxt) (c, s). (Inr ex, (c\<lparr>pc := nxt, insns_retired := insns_retired c + 1\<rparr>, s)))"

definition step :: "'s bus \<Rightarrow> 's hart \<Rightarrow> (trap + exit) \<times> 's hart" where
  "step B h =
     (let ipc = pc (fst h) in
      bindR (fetch16 B ipc h)
        (\<lambda>lo h.
           if lo AND 0x3 \<noteq> 0x3 then exec_one B (decode_compressed lo) ipc 2 (ucast lo) h
           else bindR (fetch16 B (ipc + 2) h)
             (\<lambda>hi h. let w = ucast lo OR push_bit 16 (ucast hi) in exec_one B (decode w) ipc 4 w h)))"

section \<open>Traps, interrupts and the full-system step\<close>

definition trap_vector :: "u32 \<Rightarrow> u32 \<Rightarrow> bool \<Rightarrow> u32" where
  "trap_vector tvec cause interrupt =
     (let base = tvec AND NOT 0x3 in
      if tvec AND 0x3 = 1 \<and> interrupt then base + 4 * cause else base)"

fun mem_cause_of :: "access \<Rightarrow> fault_kind \<Rightarrow> u32" where
  "mem_cause_of Exec Unaligned = E_INSTR_MISALIGNED"
| "mem_cause_of Exec k = E_INSTR_ACCESS"
| "mem_cause_of Read Unaligned = E_LOAD_MISALIGNED"
| "mem_cause_of Read k = E_LOAD_ACCESS"
| "mem_cause_of Write Unaligned = E_STORE_MISALIGNED"
| "mem_cause_of Write k = E_STORE_ACCESS"

definition mem_cause :: "fault \<Rightarrow> u32" where
  "mem_cause f = mem_cause_of (flt_access f) (flt_kind f)"

text \<open>The shift amount of \<open>deleg >> cause\<close> is taken modulo 32; every cause the core raises is below that.\<close>

definition take_trap :: "u32 \<Rightarrow> u32 \<Rightarrow> bool \<Rightarrow> cpu \<Rightarrow> cpu" where
  "take_trap cause tval interrupt c =
     (let f = csr c;
          deleg = (if interrupt then mideleg f else medeleg f);
          to_s = (level (privilege c) \<le> level S \<and> drop_bit (unat cause mod 32) deleg AND 1 \<noteq> 0);
          epc = pc c;
          code = (if interrupt then push_bit 31 1 else 0) OR cause;
          st = mstatus f in
      if to_s then
        let sie = (st AND MSTATUS_SIE \<noteq> 0);
            s1 = (st AND NOT MSTATUS_SPIE) OR (if sie then MSTATUS_SPIE else 0);
            s2 = s1 AND NOT MSTATUS_SIE;
            s3 = (s2 AND NOT MSTATUS_SPP) OR push_bit 8 (level (privilege c) AND 1)
        in c\<lparr>csr := f\<lparr>sepc := epc, scause := code, stval := tval, mstatus := s3\<rparr>,
             privilege := S, pc := trap_vector (stvec f) cause interrupt\<rparr>
      else
        let mie = (st AND MSTATUS_MIE \<noteq> 0);
            s1 = (st AND NOT MSTATUS_MPIE) OR (if mie then MSTATUS_MPIE else 0);
            s2 = s1 AND NOT MSTATUS_MIE;
            s3 = (s2 AND NOT MSTATUS_MPP) OR push_bit 11 (level (privilege c))
        in c\<lparr>csr := f\<lparr>mepc := epc, mcause := code, mtval := tval, mstatus := s3\<rparr>,
             privilege := M, pc := trap_vector (mtvec f) cause interrupt\<rparr>)"

definition interrupt_enabled :: "cpu \<Rightarrow> nat \<Rightarrow> bool" where
  "interrupt_enabled c code =
     (if drop_bit code (mideleg (csr c)) AND 1 \<noteq> 0
      then privilege c = U \<or> (privilege c = S \<and> mstatus (csr c) AND MSTATUS_SIE \<noteq> 0)
      else privilege c \<noteq> M \<or> mstatus (csr c) AND MSTATUS_MIE \<noteq> 0)"

definition pending_interrupt :: "cpu \<Rightarrow> nat option" where
  "pending_interrupt c =
     (let pending = mip (csr c) AND mie (csr c) in
      if pending = 0 then None
      else find (\<lambda>code. pending AND push_bit code 1 \<noteq> 0 \<and> interrupt_enabled c code) [11, 3, 7, 9, 1, 5])"

definition update_timers :: "cpu \<Rightarrow> cpu" where
  "update_timers c =
     (let t = virtual_time c; f = csr c;
          m1 = (if t \<ge> stimecmp f then mip f OR push_bit 5 1 else mip f AND NOT (push_bit 5 1));
          m2 = (if t \<ge> mtimecmp f then m1 OR push_bit 7 1 else m1 AND NOT (push_bit 7 1))
      in c\<lparr>csr := f\<lparr>mip := m2\<rparr>\<rparr>)"

definition poll_interrupt :: "cpu \<Rightarrow> bool \<times> cpu" where
  "poll_interrupt c =
     (let c1 = update_timers c in
      case pending_interrupt c1 of
        Some code \<Rightarrow> (True, take_trap (of_nat code) 0 True c1)
      | None \<Rightarrow> (False, c1))"

definition ecall_cause :: "priv \<Rightarrow> u32" where
  "ecall_cause p = (case p of U \<Rightarrow> E_ECALL_U | S \<Rightarrow> E_ECALL_S | M \<Rightarrow> E_ECALL_M)"

fun finish_exit :: "trap + exit \<Rightarrow> cpu \<Rightarrow> sys_exit \<times> cpu" where
  "finish_exit (Inr EContinue) c = (SContinue, c)"
| "finish_exit (Inr (EHalt code)) c = (SHalt code, c)"
| "finish_exit (Inr EEcall) c =
     (if hypercall_eid c = Some (regs c ! 17)
      then (SHypercall (regs c ! 10), c\<lparr>pc := pc c + 4\<rparr>)
      else (SContinue, take_trap (ecall_cause (privilege c)) 0 False c))"
| "finish_exit (Inr EEbreak) c = (SContinue, take_trap E_BREAKPOINT (pc c) False c)"
| "finish_exit (Inl (TIllegal p raw)) c = (SContinue, take_trap E_ILLEGAL raw False c)"
| "finish_exit (Inl (TMem f)) c = (SContinue, take_trap (mem_cause f) (flt_addr f) False c)"
| "finish_exit (Inl (TException cause tval)) c = (SContinue, take_trap cause tval False c)"
| "finish_exit (Inl (TKmsanTainted p rs1 rs2 ta tb)) c =
     (SHalt p, c\<lparr>kmsan_hit := Some \<lparr>kr_pc = p, kr_rs1 = rs1, kr_rs2 = rs2, kr_taint_a = ta, kr_taint_b = tb\<rparr>\<rparr>)"

definition step_system :: "'s bus \<Rightarrow> 's hart \<Rightarrow> sys_exit \<times> 's hart" where
  "step_system B h =
     (case h of (c, s) \<Rightarrow>
        (case poll_interrupt c of
           (True, c1) \<Rightarrow> (SContinue, (c1, s))
         | (False, c1) \<Rightarrow>
             (case step B (c1, s) of (r, (c2, s2)) \<Rightarrow>
                (case finish_exit r c2 of (ex, c3) \<Rightarrow> (ex, (c3, s2))))))"

end
