(* ===== verification/Simulation.thy ===== *)
theory Simulation
  imports Cpu
begin

text \<open>
  The core does not depend on the memory behind the bus, nor on its logs.  The interface is the
  locale \<open>bus_sim\<close>: two buses whose operations answer alike on states related by \<open>R\<close> and keep
  \<open>R\<close>.  Inside it, every function of the core is shown to behave alike on the two buses: same
  result, same hart (up to the CMPLOG and UBSAN logs, and exactly when the flag \<open>b\<close> is set),
  related bus states.  Running the core on one bus against itself shows that recording the logs
  never changes what a program computes; running it on two machines shows that they step alike.
\<close>

section \<open>Harts equal up to their logs\<close>

definition obs_eq :: "bool \<Rightarrow> cpu \<Rightarrow> cpu \<Rightarrow> bool" where
  "obs_eq b c d \<longleftrightarrow> (\<exists>l u. d = c\<lparr>cmplog := l, ubsan := u\<rparr> \<and> (b \<longrightarrow> d = c))"

definition hsim :: "bool \<Rightarrow> ('s \<Rightarrow> 't \<Rightarrow> bool) \<Rightarrow> 'r \<times> 's hart \<Rightarrow> 'r \<times> 't hart \<Rightarrow> bool" where
  "hsim b R x y \<longleftrightarrow>
     fst x = fst y \<and> obs_eq b (fst (snd x)) (fst (snd y)) \<and> R (snd (snd x)) (snd (snd y))"

lemma obs_eqI: "d = c\<lparr>cmplog := l, ubsan := u\<rparr> \<Longrightarrow> (b \<Longrightarrow> d = c) \<Longrightarrow> obs_eq b c d"
  by (auto simp: obs_eq_def)

lemma obs_eq_refl [simp]: "obs_eq b c c"
  by (rule obs_eqI [where l = "cmplog c" and u = "ubsan c"]) simp_all

text \<open>A function of the hart that neither reads nor writes the logs keeps the equality.\<close>

lemma obs_eq_map:
  assumes "obs_eq b c d" "\<And>c l u. f (c\<lparr>cmplog := l, ubsan := u\<rparr>) = (f c)\<lparr>cmplog := l, ubsan := u\<rparr>"
  shows "obs_eq b (f c) (f d)"
proof -
  obtain l u where d: "d = c\<lparr>cmplog := l, ubsan := u\<rparr>" "b \<longrightarrow> d = c"
    using assms(1) unfolding obs_eq_def by blast
  have "f d = (f c)\<lparr>cmplog := l, ubsan := u\<rparr>" unfolding d(1) by (rule assms(2))
  then show ?thesis using d(2) unfolding obs_eq_def by metis
qed

lemma obs_eq_fields:
  assumes "obs_eq b c d"
  shows "regs d = regs c" "pc d = pc c" "htif_tohost d = htif_tohost c" "insns_retired d = insns_retired c"
    "reservation d = reservation c" "privilege d = privilege c" "csr d = csr c"
    "hypercall_eid d = hypercall_eid c" "tlb d = tlb c" "regs_taint d = regs_taint c"
  using assms by (auto simp: obs_eq_def)

lemma obs_eq_reads:
  assumes "obs_eq b c d"
  shows "rd_reg d i = rd_reg c i" "rd_taint d i = rd_taint c i" "kmsan_enabled d = kmsan_enabled c"
    "effective_priv d ac = effective_priv c ac" "untranslated d ac = untranslated c ac"
    "sum_bit d = sum_bit c" "mxr_bit d = mxr_bit c" "satp_root d = satp_root c"
    "csr_old d a = csr_old c a" "virtual_time d = virtual_time c"
  using obs_eq_fields [OF assms]
  by (simp_all add: rd_reg_def rd_taint_def kmsan_enabled_def effective_priv_def untranslated_def
      sum_bit_def mxr_bit_def satp_root_def csr_old_def virtual_time_def)

lemma obs_eq_updates:
  assumes "obs_eq b c d"
  shows "obs_eq b (wr_reg i v c) (wr_reg i v d)" "obs_eq b (wr_taint i v c) (wr_taint i v d)"
    "obs_eq b (clear_taint i c) (clear_taint i d)"
    "obs_eq b (c\<lparr>tlb := t\<rparr>) (d\<lparr>tlb := t\<rparr>)" "obs_eq b (c\<lparr>reservation := r\<rparr>) (d\<lparr>reservation := r\<rparr>)"
    "obs_eq b (c\<lparr>csr := f\<rparr>) (d\<lparr>csr := f\<rparr>)" "obs_eq b (c\<lparr>pc := a\<rparr>) (d\<lparr>pc := a\<rparr>)"
    "obs_eq b (c\<lparr>privilege := p\<rparr>) (d\<lparr>privilege := p\<rparr>)"
    "obs_eq b (c\<lparr>insns_retired := n\<rparr>) (d\<lparr>insns_retired := n\<rparr>)"
    "obs_eq b (c\<lparr>kmsan_hit := k\<rparr>) (d\<lparr>kmsan_hit := k\<rparr>)"
    "obs_eq b (take_trap cause tval irq c) (take_trap cause tval irq d)"
    "obs_eq b (update_timers c) (update_timers d)"
  by (rule obs_eq_map [OF assms],
      simp add: wr_reg_def wr_taint_def clear_taint_def kmsan_enabled_def take_trap_def update_timers_def
        virtual_time_def Let_def split: option.splits)+

lemma obs_eq_logs:
  assumes "obs_eq b c d"
  shows "obs_eq b (cmplog_push x y c) (cmplog_push x y d)" "obs_eq b (ubsan_push p c) (ubsan_push p d)"
proof -
  obtain l u where d: "d = c\<lparr>cmplog := l, ubsan := u\<rparr>" "b \<Longrightarrow> d = c"
    using assms unfolding obs_eq_def by blast
  have "\<exists>l' u'. cmplog_push x y d = (cmplog_push x y c)\<lparr>cmplog := l', ubsan := u'\<rparr>"
    by (rule exI [of _ "cmplog (cmplog_push x y d)"], rule exI [of _ "ubsan (cmplog_push x y d)"])
      (simp add: d(1) cmplog_push_def split: option.splits)
  then show "obs_eq b (cmplog_push x y c) (cmplog_push x y d)" using d(2) by (auto simp: obs_eq_def)
  have "\<exists>l' u'. ubsan_push p d = (ubsan_push p c)\<lparr>cmplog := l', ubsan := u'\<rparr>"
    by (rule exI [of _ "cmplog (ubsan_push p d)"], rule exI [of _ "ubsan (ubsan_push p d)"])
      (simp add: d(1) ubsan_push_def split: option.splits)
  then show "obs_eq b (ubsan_push p c) (ubsan_push p d)" using d(2) by (auto simp: obs_eq_def)
qed

lemma hsimI: "r = r' \<Longrightarrow> obs_eq b c d \<Longrightarrow> R s t \<Longrightarrow> hsim b R (r, (c, s)) (r', (d, t))"
  by (simp add: hsim_def)

lemma hsim_bindR:
  assumes x: "hsim b R x y"
    and f: "\<And>a c d s t. x = (Inr a, (c, s)) \<Longrightarrow> y = (Inr a, (d, t)) \<Longrightarrow> obs_eq b c d \<Longrightarrow> R s t \<Longrightarrow>
      hsim b R (f a (c, s)) (g a (d, t))"
  shows "hsim b R (bindR x f) (bindR y g)"
proof -
  obtain r c s where xx: "x = (r, (c, s))" by (cases x) auto
  obtain r' d t where yy: "y = (r', (d, t))" by (cases y) auto
  have "r' = r" "obs_eq b c d" "R s t" using x xx yy by (simp_all add: hsim_def)
  then show ?thesis using f xx yy by (cases r) (auto simp: hsim_def)
qed

section \<open>Translation keeps the page offset\<close>

lemma low12:
  fixes x y :: u32
  shows "(push_bit 12 x OR (y AND 0xfff)) AND 0xfff = y AND 0xfff"
    "(push_bit 22 a OR push_bit 12 x OR (y AND 0xfff)) AND 0xfff = y AND 0xfff"
  unfolding and_low_mask by (rule bit_word_eqI, auto simp: bit_simps)+

lemma leaf_pa_low12: "leaf_pa va pte lvl AND 0xfff = va AND 0xfff"
  unfolding leaf_pa_def by (simp only: low12 split: if_split) simp

lemma xlate_walk_low12:
  "xlate_walk B va ac p sm mxr n a h = (Inr pa, h') \<Longrightarrow> pa AND 0xfff = va AND 0xfff"
proof (induction n arbitrary: a h)
  case (Suc n)
  then show ?case
    by (auto simp: Let_def bindR_Inr_conv xlate_leaf_def leaf_pa_low12 split: if_splits prod.splits)
qed simp

lemma xlate_low12:
  assumes "xlate B va ac h = (Inr pa, h')"
  shows "pa AND 0xfff = va AND 0xfff"
  using assms xlate_walk_low12 [of B va ac _ _ _ 2 _ h pa h']
  by (auto simp: xlate_def Let_def low12 split: if_splits option.splits)

lemma aligned_natural:
  assumes "pa AND 0xfff = va AND 0xfff" "\<not> misaligned va sz" "sz \<in> {1, 2, 4}"
  shows "natural_access pa sz"
proof -
  have low: "take_bit 12 pa = take_bit 12 va" using assms(1) by (simp only: and_low_mask)
  have eqs: "take_bit 1 pa = take_bit 1 va" "take_bit 2 pa = take_bit 2 va"
    using arg_cong [OF low, of "take_bit 1"] arg_cong [OF low, of "take_bit 2"]
    by (simp_all add: take_bit_take_bit)
  have "sz = 2 \<Longrightarrow> take_bit 1 va = 0" "sz = 4 \<Longrightarrow> take_bit 2 va = 0"
    using assms(2) unfolding misaligned_def and_low_mask [symmetric] by simp_all
  then have "sz = 2 \<Longrightarrow> pa mod 2 = 0" "sz = 4 \<Longrightarrow> pa mod 4 = 0"
    using eqs by (simp_all add: take_bit_eq_mod)
  then show ?thesis using assms(3) align_natural by auto
qed

section \<open>The simulation\<close>

lemma store_size_natural: "store_size op \<in> {1, 2, 4}"
  by (cases op) simp_all

lemma load_size_natural: "fst (load_shape op) \<in> {1, 2, 4}"
  by (cases op) simp_all

locale bus_sim =
  fixes R :: "'s \<Rightarrow> 't \<Rightarrow> bool" and A :: "'s bus" and B :: "'t bus"
  assumes sim_load: "R s t \<Longrightarrow> rel_prod (=) R (bus_load A s a n) (bus_load B t a n)"
    and sim_store: "R s t \<Longrightarrow> rel_prod (=) R (bus_store A s a n v) (bus_store B t a n v)"
    and sim_ifetch: "R s t \<Longrightarrow> rel_prod (=) R (bus_ifetch16 A s a) (bus_ifetch16 B t a)"
    and sim_raw: "R s t \<Longrightarrow> bus_read_raw_state A s a n = bus_read_raw_state B t a n"
    and sim_shadow: "R s t \<Longrightarrow> natural_access a n \<Longrightarrow>
      R (bus_write_shadow A s a n m) (bus_write_shadow B t a n m)"
begin

lemma bus_calls_sim:
  assumes "obs_eq b c d" "R s t"
  shows "hsim b R (bus_ld A f a n (c, s)) (bus_ld B f a n (d, t))"
    "hsim b R (bus_st A f a n v (c, s)) (bus_st B f a n v (d, t))"
    "hsim b R (bus_if A f a (c, s)) (bus_if B f a (d, t))"
  using assms(1) sim_load [OF assms(2), of a n] sim_store [OF assms(2), of a n v] sim_ifetch [OF assms(2), of a]
  by (auto simp: bus_ld_def bus_st_def bus_if_def hsim_def rel_prod_sel split: prod.splits)

lemma xlate_leaf_sim:
  assumes "obs_eq b c d" "R s t"
  shows "hsim b R (xlate_leaf A va ac p sm mxr lvl pa pte (c, s)) (xlate_leaf B va ac p sm mxr lvl pa pte (d, t))"
proof -
  have tail: "hsim b R
      (Inr x, (c'\<lparr>tlb := tlb_insert e (tlb c')\<rparr>, s')) (Inr x, (d'\<lparr>tlb := tlb_insert e (tlb d')\<rparr>, t'))"
    if "obs_eq b c' d'" "R s' t'" for x :: u32 and e c' d' s' t'
    using that obs_eq_fields(9) [OF that(1)] obs_eq_updates(4) [OF that(1)] by (simp add: hsim_def)
  show ?thesis
    unfolding xlate_leaf_def
    using assms
    by (auto simp: Let_def intro!: hsim_bindR bus_calls_sim tail hsimI)
qed

lemma xlate_walk_sim:
  assumes "obs_eq b c d" "R s t"
  shows "hsim b R (xlate_walk A va ac p sm mxr n a (c, s)) (xlate_walk B va ac p sm mxr n a (d, t))"
  using assms
proof (induction n arbitrary: a c d s t)
  case 0
  then show ?case by (simp add: hsim_def)
next
  case (Suc n)
  show ?case
    unfolding xlate_walk.simps Let_def
    by (rule hsim_bindR [OF bus_calls_sim(1) [OF Suc.prems]])
      (auto intro: Suc.IH xlate_leaf_sim hsimI)
qed

lemma xlate_sim:
  assumes "obs_eq b c d" "R s t"
  shows "hsim b R (xlate A va ac (c, s)) (xlate B va ac (d, t))"
  using assms obs_eq_fields [OF assms(1)] obs_eq_reads [OF assms(1)]
    xlate_walk_sim [OF assms, of va ac]
  unfolding xlate_def Let_def
  by (auto simp: intro!: hsimI split: option.splits)

lemma fetch16_sim:
  assumes "obs_eq b c d" "R s t"
  shows "hsim b R (fetch16 A va (c, s)) (fetch16 B va (d, t))"
  unfolding fetch16_def by (intro hsim_bindR xlate_sim bus_calls_sim assms)

lemma load_bytes_sim:
  assumes "obs_eq b c d" "R s t"
  shows "hsim b R (load_bytes A va is acc (c, s)) (load_bytes B va is acc (d, t))"
  using assms
proof (induction "is" arbitrary: acc c d s t)
  case (Cons i "is")
  then show ?case unfolding load_bytes.simps by (intro hsim_bindR xlate_sim bus_calls_sim)
qed (simp add: hsim_def)

lemma store_bytes_sim:
  assumes "obs_eq b c d" "R s t"
  shows "hsim b R (store_bytes A va v is (c, s)) (store_bytes B va v is (d, t))"
  using assms
proof (induction "is" arbitrary: c d s t)
  case (Cons i "is")
  then show ?case unfolding store_bytes.simps by (intro hsim_bindR xlate_sim bus_calls_sim)
qed (simp add: hsim_def)

lemma load_taint_bytes_sim:
  assumes "obs_eq b c d" "R s t"
  shows "hsim b R (load_taint_bytes A va is m (c, s)) (load_taint_bytes B va is m (d, t))"
  using assms
proof (induction "is" arbitrary: m c d s t)
  case (Cons i "is")
  show ?case
    unfolding load_taint_bytes.simps
    by (rule hsim_bindR [OF xlate_sim [OF Cons.prems]]) (simp add: sim_raw Cons.IH)
qed (simp add: hsim_def)

lemma store_taint_bytes_sim:
  assumes "obs_eq b c d" "R s t"
  shows "hsim b R (store_taint_bytes A va m is (c, s)) (store_taint_bytes B va m is (d, t))"
  using assms
proof (induction "is" arbitrary: c d s t)
  case (Cons i "is")
  show ?case
    unfolding store_taint_bytes.simps
    by (rule hsim_bindR [OF xlate_sim [OF Cons.prems]]) (simp add: sim_shadow [OF _ align_natural(3), simplified] Cons.IH)
qed (simp add: hsim_def)

lemma load_impl_sim:
  assumes "obs_eq b c d" "R s t"
  shows "hsim b R (load_impl A va n sg (c, s)) (load_impl B va n sg (d, t))"
  unfolding load_impl_def
  by (rule hsim_bindR) (auto intro!: hsim_bindR load_bytes_sim xlate_sim bus_calls_sim hsimI assms)

lemma store_impl_sim:
  assumes "obs_eq b c d" "R s t"
  shows "hsim b R (store_impl A va n v (c, s)) (store_impl B va n v (d, t))"
  unfolding store_impl_def
  by (auto intro!: hsim_bindR store_bytes_sim xlate_sim bus_calls_sim assms)

lemma load_taint_sim:
  assumes "obs_eq b c d" "R s t"
  shows "hsim b R (load_taint A va n (c, s)) (load_taint B va n (d, t))"
  unfolding load_taint_def
  by (auto intro!: hsim_bindR load_taint_bytes_sim xlate_sim hsimI assms simp: sim_raw)

lemma store_taint_sim:
  assumes "obs_eq b c d" "R s t" "n \<in> {1, 2, 4}"
  shows "hsim b R (store_taint A va n m (c, s)) (store_taint B va n m (d, t))"
proof (cases "misaligned va n \<or> crosses_page va n")
  case True
  then show ?thesis unfolding store_taint_def by (simp add: store_taint_bytes_sim assms)
next
  case False
  have "hsim b R (bindR (xlate A va Write (c, s)) (\<lambda>pa (c, s). (Inr (), (c, bus_write_shadow A s pa n m))))
      (bindR (xlate B va Write (d, t)) (\<lambda>pa (c, s). (Inr (), (c, bus_write_shadow B s pa n m))))"
  proof (rule hsim_bindR [OF xlate_sim [OF assms(1,2)]])
    fix a c' d' s' t'
    assume x: "xlate A va Write (c, s) = (Inr a, (c', s'))" and r: "obs_eq b c' d'" "R s' t'"
    have "natural_access a n" using aligned_natural [OF xlate_low12 [OF x] _ assms(3)] False by blast
    then show "hsim b R ((\<lambda>(c, s). (Inr (), (c, bus_write_shadow A s a n m))) (c', s'))
        ((\<lambda>(c, s). (Inr (), (c, bus_write_shadow B s a n m))) (d', t'))"
      using r by (simp add: hsim_def sim_shadow)
  qed
  then show ?thesis unfolding store_taint_def if_not_P [OF False] .
qed

lemma exec_pure_sim:
  assumes "obs_eq b c d" "R s t"
  shows "hsim b R (exec_lui rd imm nx (c, s)) (exec_lui rd imm nx (d, t))"
    "hsim b R (exec_auipc rd imm ip nx (c, s)) (exec_auipc rd imm ip nx (d, t))"
    "hsim b R (exec_jal rd imm ip nx (c, s)) (exec_jal rd imm ip nx (d, t))"
    "hsim b R (exec_jalr rd r1 imm nx (c, s)) (exec_jalr rd r1 imm nx (d, t))"
    "hsim b R (exec_op_imm aop rd r1 imm nx (c, s)) (exec_op_imm aop rd r1 imm nx (d, t))"
    "hsim b R (exec_mret ip iw (c, s)) (exec_mret ip iw (d, t))"
    "hsim b R (exec_sret ip iw (c, s)) (exec_sret ip iw (d, t))"
    "hsim b R (exec_sfence nx (c, s)) (exec_sfence nx (d, t))"
  using assms obs_eq_reads [OF assms(1)] obs_eq_fields [OF assms(1)]
  by (auto simp: exec_lui_def exec_auipc_def exec_jal_def exec_jalr_def exec_op_imm_def exec_mret_def
      exec_sret_def exec_sfence_def Let_def intro!: hsimI obs_eq_updates)

lemma exec_branch_sim:
  assumes "obs_eq b c d" "R s t"
  shows "hsim b R (exec_branch op r1 r2 imm ip nx (c, s)) (exec_branch op r1 r2 imm ip nx (d, t))"
  using assms obs_eq_reads [OF assms(1)] obs_eq_reads [OF obs_eq_logs(1) [OF assms(1)]]
  by (auto simp: exec_branch_def Let_def intro!: hsimI obs_eq_logs)

lemma exec_op_sim:
  assumes "obs_eq b c d" "R s t"
  shows "hsim b R (exec_op op rd r1 r2 nx (c, s)) (exec_op op rd r1 r2 nx (d, t))"
proof -
  let ?f = "\<lambda>x y c. if op = ASub \<or> op = AXor then cmplog_push x y c else c"
  have o1: "obs_eq b (?f x y c) (?f x y d)" for x y using obs_eq_logs(1) [OF assms(1)] assms(1) by simp
  show ?thesis
    unfolding exec_op_def Let_def prod.case obs_eq_reads(1) [OF assms(1)]
      obs_eq_reads(2,3) [OF o1 [of "rd_reg c r1" "rd_reg c r2"]]
    using o1 assms(2) by (auto intro!: hsimI obs_eq_updates)
qed

lemma exec_mul_sim:
  assumes "obs_eq b c d" "R s t"
  shows "hsim b R (exec_mul op rd r1 r2 ip nx (c, s)) (exec_mul op rd r1 r2 ip nx (d, t))"
proof -
  let ?f = "\<lambda>y c. if is_div op \<and> y = 0 then ubsan_push ip c else c"
  have o1: "obs_eq b (?f y c) (?f y d)" for y :: u32 using obs_eq_logs(2) [OF assms(1)] assms(1) by simp
  show ?thesis
    unfolding exec_mul_def Let_def prod.case obs_eq_reads(1) [OF assms(1)]
      obs_eq_reads(2,3) [OF o1 [of "rd_reg c r2"]]
    using o1 [of "rd_reg c r2"] assms(2) by (intro hsimI obs_eq_updates refl) (simp_all add: obs_eq_updates)
qed

lemma exec_csr_sim:
  assumes "obs_eq b c d" "R s t"
  shows "hsim b R (exec_csr op rd src a ip nx iw (c, s)) (exec_csr op rd src a ip nx iw (d, t))"
proof -
  have fin: "hsim b R (r, (wr_reg rd v (clear_taint rd c'), s)) (r, (wr_reg rd v (clear_taint rd d'), t))"
    if "obs_eq b c' d'" for r :: arm and v c' d'
    using that assms(2) by (intro hsimI refl obs_eq_updates(1,3))
  have up: "obs_eq b (c\<lparr>csr := f, tlb := x\<rparr>) (d\<lparr>csr := f, tlb := x\<rparr>)" for f x
    using obs_eq_updates(4) [OF obs_eq_updates(6) [OF assms(1)]] by simp
  show ?thesis
    unfolding exec_csr_def Let_def prod.case obs_eq_reads [OF assms(1)] obs_eq_fields [OF assms(1)]
    by (cases "csr_old c a"; cases "op = Rw \<or> op = Rwi \<or> src \<noteq> 0";
        (cases "csr_write (csr c) a (csr_new op (projr (csr_old c a))
           (if op = Rwi \<or> op = Rsi \<or> op = Rci then ucast src else rd_reg c src)) (privilege c)")?)
      (simp_all add: hsimI fin up assms obs_eq_updates(6) [OF assms(1)])
qed

lemma exec_load_sim:
  assumes "obs_eq b c d" "R s t"
  shows "hsim b R (exec_load A op rd r1 imm nx (c, s)) (exec_load B op rd r1 imm nx (d, t))"
  unfolding exec_load_def Let_def fst_conv obs_eq_reads(1) [OF assms(1)]
  by (rule hsim_bindR [OF load_impl_sim [OF assms]], rule hsim_bindR)
    (auto intro!: hsim_bindR load_taint_sim hsimI obs_eq_updates simp: obs_eq_reads)

lemma exec_lr_sim:
  assumes "obs_eq b c d" "R s t"
  shows "hsim b R (exec_lr A rd r1 nx (c, s)) (exec_lr B rd r1 nx (d, t))"
  unfolding exec_lr_def Let_def fst_conv obs_eq_reads(1) [OF assms(1)]
  by (rule hsim_bindR [OF load_impl_sim [OF assms]], rule hsim_bindR)
    (auto intro!: hsim_bindR load_taint_sim hsimI obs_eq_updates simp: obs_eq_reads)

lemma exec_store_sim:
  assumes "obs_eq b c d" "R s t"
  shows "hsim b R (exec_store A op r1 r2 imm nx (c, s)) (exec_store B op r1 r2 imm nx (d, t))"
  unfolding exec_store_def Let_def fst_conv obs_eq_reads [OF assms(1)] obs_eq_fields [OF assms(1)]
  using store_size_natural [of op]
  by (rule_tac hsim_bindR [OF store_impl_sim [OF assms]], rule_tac hsim_bindR)
    (auto intro!: store_taint_sim hsimI split: option.splits)

lemma exec_sc_sim:
  assumes "obs_eq b c d" "R s t"
  shows "hsim b R (exec_sc A rd r1 r2 nx (c, s)) (exec_sc B rd r1 r2 nx (d, t))"
  unfolding exec_sc_def Let_def fst_conv obs_eq_reads [OF assms(1)] obs_eq_fields [OF assms(1)]
  by (rule hsim_bindR) (auto intro!: store_impl_sim hsimI obs_eq_updates assms)

lemma exec_amo_sim:
  assumes "obs_eq b c d" "R s t"
  shows "hsim b R (exec_amo A op rd r1 r2 nx (c, s)) (exec_amo B op rd r1 r2 nx (d, t))"
proof -
  have wb: "hsim b R
      (bindR (bus_st A TMem pa 4 v (c1, s1))
        (\<lambda>_ (c, s). (Inr (EContinue, nx), (wr_reg rd w (c\<lparr>reservation := None\<rparr>), s))))
      (bindR (bus_st B TMem pa 4 v (d1, t1))
        (\<lambda>_ (c, s). (Inr (EContinue, nx), (wr_reg rd w (c\<lparr>reservation := None\<rparr>), s))))"
    if "obs_eq b c1 d1" "R s1 t1" for pa v w c1 d1 s1 t1
    using that by (intro hsim_bindR bus_calls_sim) (auto intro!: hsimI obs_eq_updates)
  have body: "hsim b R
      ((\<lambda>old (c, s). let src = rd_reg c r2; res = amo_result op old src;
          c1 = (if kmsan_enabled c then wr_taint rd (bus_read_raw_state A s pa 4) c else c) in
        bindR (bus_st A TMem pa 4 res (c1, s))
          (\<lambda>_ (c, s). (Inr (EContinue, nx), (wr_reg rd old (c\<lparr>reservation := None\<rparr>), s)))) old (c1, s1))
      ((\<lambda>old (c, s). let src = rd_reg c r2; res = amo_result op old src;
          c1 = (if kmsan_enabled c then wr_taint rd (bus_read_raw_state B s pa 4) c else c) in
        bindR (bus_st B TMem pa 4 res (c1, s))
          (\<lambda>_ (c, s). (Inr (EContinue, nx), (wr_reg rd old (c\<lparr>reservation := None\<rparr>), s)))) old (d1, t1))"
    if "obs_eq b c1 d1" "R s1 t1" for pa old c1 d1 s1 t1
    using that by (simp add: Let_def obs_eq_reads [OF that(1)] sim_raw [OF that(2)] wb obs_eq_updates)
  show ?thesis
    unfolding exec_amo_def fst_conv obs_eq_reads(1) [OF assms(1)]
    by (intro hsim_bindR xlate_sim bus_calls_sim body assms)
qed

lemma exec_inst_sim:
  assumes "obs_eq b c d" "R s t"
  shows "hsim b R (exec_inst A i ip nx iw (c, s)) (exec_inst B i ip nx iw (d, t))"
  using assms
  by (cases i) (simp_all add: exec_pure_sim exec_branch_sim exec_op_sim exec_mul_sim exec_csr_sim
      exec_load_sim exec_lr_sim exec_store_sim exec_sc_sim exec_amo_sim hsim_def [where x = "(_, _)"])

lemma exec_one_sim:
  assumes "obs_eq b c d" "R s t"
  shows "hsim b R (exec_one A i ip il iw (c, s)) (exec_one B i ip il iw (d, t))"
proof -
  have "hsim b R (Inr ex, (c'\<lparr>pc := nx, insns_retired := insns_retired c' + 1\<rparr>, s'))
      (Inr ex, (d'\<lparr>pc := nx, insns_retired := insns_retired d' + 1\<rparr>, t'))"
    if "obs_eq b c' d'" "R s' t'" for ex :: exit and nx c' d' s' t'
    using that obs_eq_fields(4) [OF that(1)] obs_eq_updates(9) [OF obs_eq_updates(7) [OF that(1)]]
    by (intro hsimI) simp_all
  then show ?thesis
    unfolding exec_one_def by (intro hsim_bindR [OF exec_inst_sim [OF assms]]) auto
qed

lemma step_sim:
  assumes "obs_eq b c d" "R s t"
  shows "hsim b R (step A (c, s)) (step B (d, t))"
  unfolding step_def Let_def fst_conv obs_eq_fields(2) [OF assms(1)]
  by (rule hsim_bindR [OF fetch16_sim [OF assms]])
    (auto intro!: exec_one_sim hsim_bindR fetch16_sim)

lemma step_system_sim:
  assumes "obs_eq b c d" "R s t"
  shows "hsim b R (step_system A (c, s)) (step_system B (d, t))"
proof -
  let ?c = "update_timers c" and ?d = "update_timers d"
  have ut: "obs_eq b ?c ?d" by (rule obs_eq_updates(12) [OF assms(1)])
  have pend: "pending_interrupt ?d = pending_interrupt ?c"
  proof -
    have "interrupt_enabled ?d = interrupt_enabled ?c"
      by (rule ext) (simp add: interrupt_enabled_def obs_eq_fields(6,7) [OF ut])
    then show ?thesis by (simp add: pending_interrupt_def Let_def obs_eq_fields(6,7) [OF ut])
  qed
  have fin: "fst (finish_exit r c2) = fst (finish_exit r d2) \<and>
      obs_eq b (snd (finish_exit r c2)) (snd (finish_exit r d2))" if "obs_eq b c2 d2" for r c2 d2
    using that obs_eq_fields [OF that] obs_eq_updates [OF that]
    by (cases "(r, c2)" rule: finish_exit.cases) simp_all
  show ?thesis
  proof (cases "pending_interrupt ?c")
    case None
    obtain r c2 s2 where a: "step A (?c, s) = (r, (c2, s2))" by (cases "step A (?c, s)") auto
    obtain r' d2 t2 where b': "step B (?d, t) = (r', (d2, t2))" by (cases "step B (?d, t)") auto
    have *: "r' = r" "obs_eq b c2 d2" "R s2 t2"
      using step_sim [OF ut assms(2)] a b' by (simp_all add: hsim_def)
    show ?thesis
      using None pend a b' * fin [OF *(2), of r]
      by (simp add: step_system_def poll_interrupt_def Let_def hsim_def case_prod_beta)
  next
    case (Some code)
    then show ?thesis
      using pend assms(2) obs_eq_updates(11) [OF ut]
      by (simp add: step_system_def poll_interrupt_def Let_def hsim_def)
  qed
qed

end

section \<open>Runs\<close>

text \<open>Up to \<open>n\<close> full-system steps, stopping at the first that does not continue.\<close>

fun run_steps :: "'s bus \<Rightarrow> nat \<Rightarrow> 's hart \<Rightarrow> sys_exit \<times> 's hart" where
  "run_steps B 0 h = (SContinue, h)"
| "run_steps B (Suc n) h =
     (case step_system B h of (ex, h1) \<Rightarrow> if ex = SContinue then run_steps B n h1 else (ex, h1))"

context bus_sim
begin

lemma run_steps_sim:
  assumes "obs_eq b c d" "R s t"
  shows "hsim b R (run_steps A n (c, s)) (run_steps B n (d, t))"
  using assms
proof (induction n arbitrary: c d s t)
  case 0
  then show ?case by (simp add: hsim_def)
next
  case (Suc n)
  obtain ex c1 s1 where a: "step_system A (c, s) = (ex, (c1, s1))" by (cases "step_system A (c, s)") auto
  obtain ex' d1 t1 where b': "step_system B (d, t) = (ex', (d1, t1))" by (cases "step_system B (d, t)") auto
  have "ex' = ex" "obs_eq b c1 d1" "R s1 t1" using step_system_sim [OF Suc.prems] a b' by (simp_all add: hsim_def)
  then show ?case using Suc.IH [of c1 d1 s1 t1] a b' by (simp add: hsim_def)
qed

end

section \<open>Instances\<close>

text \<open>Any bus simulates itself: this is what makes the logs purely observational.\<close>

interpretation self: bus_sim "(=)" B B for B :: "'s bus"
  by unfold_locales (auto simp: rel_prod_sel)

text \<open>Two memories that meet the byte contract and show the same bytes simulate each other.\<close>

locale byte_bus_pair = fst_bus: byte_bus peek A inv + snd_bus: byte_bus peek' B inv'
  for peek :: "'s \<Rightarrow> view" and A :: "'s bus" and inv :: "'s \<Rightarrow> bool"
    and peek' :: "'t \<Rightarrow> view" and B :: "'t bus" and inv' :: "'t \<Rightarrow> bool"

sublocale byte_bus_pair \<subseteq> bus_sim "\<lambda>s t. inv s \<and> inv' t \<and> peek s = peek' t" A B
  by unfold_locales
    (auto simp: rel_prod_sel fst_bus.load_spec snd_bus.load_spec fst_bus.ifetch_spec snd_bus.ifetch_spec
      fst_bus.store_res snd_bus.store_res fst_bus.store_peek snd_bus.store_peek fst_bus.store_inv
      snd_bus.store_inv fst_bus.raw_spec snd_bus.raw_spec fst_bus.shadow_peek snd_bus.shadow_peek
      fst_bus.shadow_inv snd_bus.shadow_inv)

interpretation flat_cow: byte_bus_pair mmu_peek mmu_bus mmu_wf cow_peek cow_bus cow_wf
  by unfold_locales

end
