(* ===== verification/Core.thy ===== *)
theory Core
  imports Simulation
begin

text \<open>
  What the core of \<open>crates/fs-riscv/src/lib.rs\<close> keeps and promises: the hart invariant (register
  file and TLB of the right shape, \<open>x0\<close> zero, legal CSRs, an even program counter, bounded logs)
  under every step, precise traps, the agreement of the three address translations (\<open>xlate\<close>,
  \<open>fast_pa\<close>, \<open>xlate_golden_readonly\<close>), the M extension against integer arithmetic, and trap entry
  followed by a return.
\<close>

section \<open>What memory accesses change of the hart\<close>

definition tlb_frame :: "cpu \<Rightarrow> cpu \<Rightarrow> bool" where
  "tlb_frame c c' \<longleftrightarrow> (\<exists>t. c' = c\<lparr>tlb := t\<rparr> \<and> length t = length (tlb c))"

definition keeps :: "cpu \<Rightarrow> 'r \<times> 's hart \<Rightarrow> bool" where
  "keeps c x \<longleftrightarrow> tlb_frame c (fst (snd x))"

lemma tlb_frame_refl [simp]: "tlb_frame c c"
  unfolding tlb_frame_def by (rule exI [of _ "tlb c"]) simp

lemma tlb_frame_trans: "tlb_frame c c' \<Longrightarrow> tlb_frame c' c'' \<Longrightarrow> tlb_frame c c''"
  unfolding tlb_frame_def by (elim exE conjE) (simp add: exI [of _ "tlb c''"])

lemma keeps_pair [simp]: "keeps c (r, (c, s))" "keeps c (r, h) \<longleftrightarrow> tlb_frame c (fst h)"
  by (simp_all add: keeps_def)

lemma keeps_bindR:
  assumes "keeps c x" "\<And>a c' s. tlb_frame c c' \<Longrightarrow> keeps c' (f a (c', s))"
  shows "keeps c (bindR x f)"
proof -
  obtain r c' s where x: "x = (r, (c', s))" by (cases x) auto
  show ?thesis
    using assms tlb_frame_trans by (cases r) (auto simp: x keeps_def)
qed

lemma keeps_bus [simp]:
  "keeps c (bus_ld B f a sz (c, s))" "keeps c (bus_st B f a sz v (c, s))" "keeps c (bus_if B f a (c, s))"
  by (simp_all add: keeps_def bus_ld_def bus_st_def bus_if_def split: prod.splits)

lemma tlb_frame_insert [simp]: "tlb_frame c (c\<lparr>tlb := tlb_insert e (tlb c)\<rparr>)"
  unfolding tlb_frame_def by (auto simp: tlb_insert_def)

lemma keeps_xlate_leaf: "keeps c (xlate_leaf B va ac p sm mxr lvl pa pte (c, s))"
  unfolding xlate_leaf_def by (auto simp: Let_def intro!: keeps_bindR)

lemma keeps_xlate_walk: "keeps c (xlate_walk B va ac p sm mxr lvl a (c, s))"
proof (induction lvl arbitrary: a c s)
  case (Suc lvl)
  show ?case
    unfolding xlate_walk.simps Let_def
    by (rule keeps_bindR) (simp_all add: keeps_xlate_leaf Suc.IH)
qed simp

lemma keeps_xlate: "keeps c (xlate B va ac (c, s))"
  unfolding xlate_def by (auto simp: Let_def keeps_xlate_walk split: option.splits)

lemma keeps_fetch16: "keeps c (fetch16 B va (c, s))"
  unfolding fetch16_def by (rule keeps_bindR [OF keeps_xlate]) simp

lemma keeps_load_bytes: "keeps c (load_bytes B va is acc (c, s))"
proof (induction "is" arbitrary: acc c s)
  case (Cons i "is")
  show ?case
    unfolding load_bytes.simps
    by (rule keeps_bindR [OF keeps_xlate], rule keeps_bindR) (simp_all add: Cons.IH)
qed simp

lemma keeps_store_bytes: "keeps c (store_bytes B va v is (c, s))"
proof (induction "is" arbitrary: c s)
  case (Cons i "is")
  show ?case
    unfolding store_bytes.simps
    by (rule keeps_bindR [OF keeps_xlate], rule keeps_bindR) (simp_all add: Cons.IH)
qed simp

lemma keeps_load_taint_bytes: "keeps c (load_taint_bytes B va is m (c, s))"
proof (induction "is" arbitrary: m c s)
  case (Cons i "is")
  show ?case
    unfolding load_taint_bytes.simps by (rule keeps_bindR [OF keeps_xlate]) (simp add: Cons.IH)
qed simp

lemma keeps_store_taint_bytes: "keeps c (store_taint_bytes B va m is (c, s))"
proof (induction "is" arbitrary: c s)
  case (Cons i "is")
  show ?case
    unfolding store_taint_bytes.simps by (rule keeps_bindR [OF keeps_xlate]) (simp add: Cons.IH)
qed simp

lemma keeps_accesses:
  "keeps c (load_impl B va sz sg (c, s))" "keeps c (store_impl B va sz v (c, s))"
  "keeps c (load_taint B va sz (c, s))" "keeps c (store_taint B va sz m (c, s))"
  unfolding load_impl_def store_impl_def load_taint_def store_taint_def
  by (auto intro!: keeps_bindR keeps_xlate keeps_load_bytes keeps_store_bytes keeps_load_taint_bytes
      keeps_store_taint_bytes)

section \<open>Precise traps\<close>

text \<open>
  The hart a trapped instruction leaves behind: equal to the one before up to the TLB, the logs
  and the taint shadow.
\<close>

definition trap_frame :: "cpu \<Rightarrow> cpu \<Rightarrow> bool" where
  "trap_frame c c' \<longleftrightarrow>
     c' = c\<lparr>tlb := tlb c', cmplog := cmplog c', ubsan := ubsan c', regs_taint := regs_taint c'\<rparr>"

lemma trap_frame_refl [simp]: "trap_frame c c"
  by (simp add: trap_frame_def)

lemma trap_frame_trans: "trap_frame c c' \<Longrightarrow> trap_frame c' c'' \<Longrightarrow> trap_frame c c''"
  by (cases c; cases c'; cases c'') (simp add: trap_frame_def)

lemma tlb_frame_trap: "tlb_frame c c' \<Longrightarrow> trap_frame c c'"
  by (auto simp: tlb_frame_def trap_frame_def)

text \<open>A computation is precise from \<open>c\<close> when a trap leaves the frame of \<open>c\<close>.\<close>

definition precise :: "cpu \<Rightarrow> (trap + 'r) \<times> 's hart \<Rightarrow> bool" where
  "precise c x \<longleftrightarrow> (\<forall>e c' s. x = (Inl e, (c', s)) \<longrightarrow> trap_frame c c')"

lemma precise_Inr [simp]: "precise c (Inr r, h)"
  by (simp add: precise_def)

lemma precise_Inl [simp]: "precise c (Inl e, h) \<longleftrightarrow> trap_frame c (fst h)"
  by (cases h) (auto simp: precise_def)

lemma precise_bindR:
  assumes "keeps c' x" "trap_frame c c'" "\<And>a c' s. trap_frame c c' \<Longrightarrow> precise c (f a (c', s))"
  shows "precise c (bindR x f)"
proof -
  obtain r c'' s where x: "x = (r, (c'', s))" by (cases x) auto
  have "trap_frame c c''"
    using assms(1,2) tlb_frame_trap trap_frame_trans by (auto simp: x keeps_def)
  then show ?thesis using assms(3) by (cases r) (auto simp: x)
qed

lemma keeps_precise: "keeps c' x \<Longrightarrow> trap_frame c c' \<Longrightarrow> precise c x"
  unfolding keeps_def precise_def using tlb_frame_trap trap_frame_trans by fastforce

lemma precise_bindR_total:
  assumes "precise c x" "\<And>a c' s. precise c (f a (c', s))"
  shows "precise c (bindR x f)"
proof -
  obtain r c' s where x: "x = (r, (c', s))" by (cases x) auto
  show ?thesis using assms by (cases r) (auto simp: x)
qed

lemma trap_frame_updates:
  assumes "trap_frame c c'"
  shows "trap_frame c (c'\<lparr>cmplog := l\<rparr>)" "trap_frame c (c'\<lparr>regs_taint := k\<rparr>)"
  using assms by (cases c; cases c'; simp add: trap_frame_def)+

lemma trap_frame_logs:
  "trap_frame c c' \<Longrightarrow> trap_frame c (cmplog_push x y c')" "trap_frame c c' \<Longrightarrow> trap_frame c (wr_taint rd m c')"
  by (auto simp: cmplog_push_def wr_taint_def trap_frame_updates split: option.splits)

lemma precise_inst: "precise c (exec_inst B i ip nx iw (c, s))"
proof (cases i)
  case (Branch op rs1 rs2 imm)
  then show ?thesis by (simp add: exec_branch_def Let_def trap_frame_logs)
next
  case (Load op rd rs1 imm)
  show ?thesis
    unfolding Load exec_inst.simps exec_load_def Let_def
    by (rule precise_bindR [OF keeps_accesses(1) trap_frame_refl], rule precise_bindR_total)
      (auto intro!: precise_bindR_total keeps_precise [OF keeps_accesses(3)])
next
  case (Store op rs1 rs2 imm)
  then show ?thesis
    by (auto simp: exec_store_def Let_def intro!: precise_bindR keeps_accesses split: option.splits)
next
  case (LrW rd rs1 aq rl)
  show ?thesis
    unfolding LrW exec_inst.simps exec_lr_def Let_def
    by (rule precise_bindR [OF keeps_accesses(1) trap_frame_refl], rule precise_bindR_total)
      (auto intro!: precise_bindR_total keeps_precise [OF keeps_accesses(3)])
next
  case (ScW rd rs1 rs2 aq rl)
  then show ?thesis
    by (auto simp: exec_sc_def Let_def intro!: precise_bindR keeps_accesses)
next
  case (AmoW op rd rs1 rs2 aq rl)
  then show ?thesis
    by (auto simp: exec_amo_def Let_def trap_frame_logs intro!: precise_bindR keeps_xlate keeps_bus)
next
  case (Csr op rd src a)
  then show ?thesis
    by (auto simp: exec_csr_def Let_def split: sum.splits)
qed (simp_all add: exec_lui_def exec_auipc_def exec_jal_def exec_jalr_def exec_op_imm_def exec_op_def
    exec_mul_def exec_mret_def exec_sret_def exec_sfence_def Let_def)

section \<open>The hart invariant\<close>

definition log_bounded :: "nat \<Rightarrow> 'a list option \<Rightarrow> bool" where
  "log_bounded n l \<longleftrightarrow> (case l of None \<Rightarrow> True | Some xs \<Rightarrow> length xs \<le> n)"

definition file_ok :: "u32 list \<Rightarrow> bool" where
  "file_ok f \<longleftrightarrow> length f = 32 \<and> f ! 0 = 0"

definition core_ok :: "cpu \<Rightarrow> bool" where
  "core_ok c \<longleftrightarrow> file_ok (regs c) \<and> length (tlb c) = TLB_SIZE \<and> csr_wf (csr c) \<and>
     pred_option file_ok (regs_taint c) \<and> log_bounded CMPLOG_CAP (cmplog c) \<and> log_bounded UBSAN_CAP (ubsan c)"

definition hart_ok :: "cpu \<Rightarrow> bool" where
  "hart_ok c \<longleftrightarrow> core_ok c \<and> even (pc c)"

lemma file_ok_update [simp]: "file_ok f \<Longrightarrow> i \<noteq> 0 \<Longrightarrow> file_ok (f[unat i := v])"
  for i :: u8
  by (simp add: file_ok_def nth_list_update unat_eq_zero)

lemma core_ok_updates [wf_intros]:
  assumes "core_ok c"
  shows "core_ok (wr_reg i v c)" "core_ok (wr_taint i v c)" "core_ok (clear_taint i c)"
    "core_ok (cmplog_push x y c)" "core_ok (ubsan_push p c)" "core_ok (c\<lparr>tlb := tlb_flush t\<rparr>)"
    "core_ok (c\<lparr>reservation := r\<rparr>)" "csr_wf f \<Longrightarrow> core_ok (c\<lparr>csr := f\<rparr>)"
    "core_ok (c\<lparr>privilege := pr\<rparr>)" "core_ok (c\<lparr>pc := a\<rparr>)" "core_ok (c\<lparr>insns_retired := n\<rparr>)"
    "core_ok (c\<lparr>kmsan_hit := k\<rparr>)"
  using assms
  by (auto simp: core_ok_def wr_reg_def wr_taint_def clear_taint_def cmplog_push_def ubsan_push_def
      log_bounded_def tlb_flush_def split: option.splits)

lemma tlb_frame_core_ok: "tlb_frame c c' \<Longrightarrow> core_ok c \<Longrightarrow> core_ok c'"
  by (auto simp: tlb_frame_def core_ok_def)

text \<open>Computations that end in a well-formed hart whatever they return.\<close>

definition okh :: "'r \<times> 's hart \<Rightarrow> bool" where
  "okh x \<longleftrightarrow> core_ok (fst (snd x))"

lemma okh_pair [simp]: "okh (r, h) \<longleftrightarrow> core_ok (fst h)"
  by (simp add: okh_def)

lemma keeps_okh: "keeps c x \<Longrightarrow> core_ok c \<Longrightarrow> okh x"
  by (simp add: keeps_def okh_def tlb_frame_core_ok)

lemma okh_bindR:
  assumes "okh x" "\<And>a c s. core_ok c \<Longrightarrow> okh (f a (c, s))"
  shows "okh (bindR x f)"
proof -
  obtain r c s where x: "x = (r, (c, s))" by (cases x) auto
  show ?thesis using assms by (cases r) (auto simp: x)
qed

lemma okh_accesses [wf_intros]:
  assumes "core_ok c"
  shows "okh (load_impl B va sz sg (c, s))" "okh (store_impl B va sz v (c, s))"
    "okh (load_taint B va sz (c, s))" "okh (store_taint B va sz m (c, s))"
    "okh (xlate B va ac (c, s))" "okh (bus_ld B f a sz (c, s))" "okh (bus_st B f a sz v (c, s))"
    "okh (fetch16 B va (c, s))"
  using assms by (auto intro: keeps_okh keeps_accesses keeps_xlate keeps_bus keeps_fetch16)

lemma okh_if: "(b \<Longrightarrow> okh x) \<Longrightarrow> (\<not> b \<Longrightarrow> okh y) \<Longrightarrow> okh (if b then x else y)"
  by simp

lemma okh_kmsan [wf_intros]:
  "core_ok c \<Longrightarrow> okh (if b then bindR (load_taint B a sz (c, s)) (\<lambda>m (c, s). (Inr (), (wr_taint rd (g m) c, s)))
     else (Inr (), (c, s)))"
  by (auto intro!: okh_bindR okh_accesses core_ok_updates)

lemmas ok_intros = okh_bindR okh_if okh_accesses okh_kmsan core_ok_updates(1-7,9-12)

text \<open>Status words with no bit outside the writable ones, which is what \<open>csr_wf\<close> asks for.\<close>

definition legal_st :: "u32 \<Rightarrow> bool" where
  "legal_st w \<longleftrightarrow> w AND MSTATUS_WMASK = w"

lemma legal_st_iff: "legal_st w \<longleftrightarrow> (\<forall>n. bit w n \<longrightarrow> bit MSTATUS_WMASK n)"
  unfolding legal_st_def by (metis mask_subD mask_subI)

lemma legal_st_intros [intro]:
  "legal_st a \<Longrightarrow> legal_st (a AND m)" "legal_st a \<Longrightarrow> legal_st b \<Longrightarrow> legal_st (a OR b)"
  "(q \<Longrightarrow> legal_st a) \<Longrightarrow> (\<not> q \<Longrightarrow> legal_st b) \<Longrightarrow> legal_st (if q then a else b)"
  by (auto simp: legal_st_iff bit_and_iff bit_or_iff)

lemma legal_st_fields [simp]:
  "legal_st 0" "legal_st MSTATUS_SIE" "legal_st MSTATUS_MIE" "legal_st MSTATUS_SPIE" "legal_st MSTATUS_MPIE"
  "legal_st (push_bit 8 (level p AND 1))" "legal_st (push_bit 11 (level p))"
proof -
  have "bit (level p AND 1) n \<Longrightarrow> n = 0" for n by (simp add: bit_and_iff bit_1_iff)
  then show "legal_st (push_bit 8 (level p AND 1))"
    unfolding legal_st_iff bit_push_bit_iff by fastforce
  have "bit (level p) n \<Longrightarrow> n = 0 \<or> n = 1" for n by (cases p) (auto simp: bit_1_iff bit_three simp del: bit_numeral_word_iff)
  then show "legal_st (push_bit 11 (level p))"
    unfolding legal_st_iff bit_push_bit_iff by fastforce
qed (simp_all add: legal_st_iff)

lemma core_ok_csr:
  assumes "core_ok c"
  shows "csr_wf (csr c)" "legal_st (mstatus (csr c))"
    "legal_st w \<Longrightarrow> core_ok (c\<lparr>csr := (csr c)\<lparr>mstatus := w\<rparr>, privilege := p\<rparr>)"
  using assms by (auto simp: core_ok_def csr_wf_def legal_st_def)

lemma okh_csr:
  assumes ok: "core_ok c"
  shows "okh (exec_csr op rd src a ip nx iw (c, s))"
proof -
  have w: "core_ok (c\<lparr>csr := f\<rparr>)" "core_ok (c\<lparr>csr := f, tlb := tlb_flush t\<rparr>)"
    if "csr_write (csr c) a v p = Inr f" for f v p t
    using core_ok_updates(8) [OF ok csr_write_wf [OF core_ok_csr(1) [OF ok] that]] core_ok_updates(6)
    by auto
  show ?thesis
  proof (cases "csr_old c a")
    case (Inr old)
    show ?thesis
      using ok w
      by (cases "csr_write (csr c) a (csr_new op old
              (if op = Rwi \<or> op = Rsi \<or> op = Rci then ucast src else rd_reg c src)) (privilege c)")
        (auto simp: exec_csr_def Let_def Inr core_ok_updates)
  qed (simp add: exec_csr_def ok)
qed

lemma okh_inst:
  assumes ok: "core_ok c"
  shows "okh (exec_inst B i ip nx iw (c, s))"
proof (cases i)
  case (Load op rd rs1 imm)
  show ?thesis
    unfolding Load exec_inst.simps exec_load_def Let_def fst_conv
    by (auto intro!: ok_intros ok)
next
  case (Store op rs1 rs2 imm)
  show ?thesis
    unfolding Store exec_inst.simps exec_store_def Let_def fst_conv
    by (auto intro!: ok_intros ok split: option.splits)
next
  case (LrW rd rs1 aq rl)
  show ?thesis
    unfolding LrW exec_inst.simps exec_lr_def Let_def fst_conv
    by (auto intro!: ok_intros ok)
next
  case (ScW rd rs1 rs2 aq rl)
  show ?thesis
    unfolding ScW exec_inst.simps exec_sc_def Let_def fst_conv
    by (auto intro!: ok_intros ok)
next
  case (AmoW op rd rs1 rs2 aq rl)
  show ?thesis
    unfolding AmoW exec_inst.simps exec_amo_def Let_def fst_conv
    by (auto intro!: ok_intros ok)
next
  case (Csr op rd src a)
  then show ?thesis using okh_csr [OF ok] by simp
next
  case Mret
  then show ?thesis
    using ok by (simp only: exec_inst.simps exec_mret_def Let_def prod.case okh_pair fst_conv split: if_split)
      (intro conjI impI core_ok_csr(3) ok legal_st_intros core_ok_csr(2); simp)
next
  case Sret
  then show ?thesis
    using ok by (simp only: exec_inst.simps exec_sret_def Let_def prod.case okh_pair fst_conv split: if_split)
      (intro conjI impI core_ok_csr(3) ok legal_st_intros core_ok_csr(2); simp)
qed (simp_all add: exec_lui_def exec_auipc_def exec_jal_def exec_jalr_def exec_op_imm_def exec_op_def
    exec_branch_def exec_mul_def exec_sfence_def Let_def core_ok_updates ok)

section \<open>Retirement and the next program counter\<close>

text \<open>
  The clock of the machine is the count of retired instructions: an arm never touches it, the tail
  of \<open>exec_one\<close> advances it by one, and a trap leaves it alone.
\<close>

definition unclocked :: "u64 \<Rightarrow> 'r \<times> 's hart \<Rightarrow> bool" where
  "unclocked n x \<longleftrightarrow> insns_retired (fst (snd x)) = n"

lemma unclocked_pair [simp]: "unclocked n (r, h) \<longleftrightarrow> insns_retired (fst h) = n"
  by (simp add: unclocked_def)

lemma keeps_unclocked: "keeps c x \<Longrightarrow> unclocked (insns_retired c) x"
  by (auto simp: keeps_def tlb_frame_def unclocked_def)

lemma unclocked_bindR:
  assumes "unclocked n x" "\<And>a c s. insns_retired c = n \<Longrightarrow> unclocked n (f a (c, s))"
  shows "unclocked n (bindR x f)"
proof -
  obtain r c s where x: "x = (r, (c, s))" by (cases x) auto
  show ?thesis using assms by (cases r) (auto simp: x)
qed

lemma unclocked_accesses:
  assumes "insns_retired c = n"
  shows "unclocked n (load_impl B va sz sg (c, s))" "unclocked n (store_impl B va sz v (c, s))"
    "unclocked n (load_taint B va sz (c, s))" "unclocked n (store_taint B va sz m (c, s))"
    "unclocked n (xlate B va ac (c, s))" "unclocked n (bus_ld B f a sz (c, s))"
    "unclocked n (bus_st B f a sz v (c, s))" "unclocked n (fetch16 B va (c, s))"
  unfolding assms [symmetric]
  by (intro keeps_unclocked keeps_accesses keeps_xlate keeps_bus keeps_fetch16)+

lemma insns_retired_updates [simp]:
  "insns_retired (wr_reg i v c) = insns_retired c" "insns_retired (wr_taint i v c) = insns_retired c"
  "insns_retired (clear_taint i c) = insns_retired c" "insns_retired (cmplog_push x y c) = insns_retired c"
  "insns_retired (ubsan_push p c) = insns_retired c"
  by (simp_all add: wr_reg_def wr_taint_def clear_taint_def cmplog_push_def ubsan_push_def split: option.splits)

lemma unclocked_inst: "unclocked (insns_retired c) (exec_inst B i ip nx iw (c, s))"
proof (cases i)
  case (Csr op rd src a)
  then show ?thesis by (simp add: exec_csr_def Let_def split: sum.splits)
qed (auto simp: exec_lui_def exec_auipc_def exec_jal_def exec_jalr_def exec_op_imm_def exec_op_def
    exec_branch_def exec_mul_def exec_sfence_def exec_mret_def exec_sret_def exec_load_def exec_store_def
    exec_lr_def exec_sc_def exec_amo_def Let_def intro!: unclocked_bindR unclocked_accesses split: option.splits)

text \<open>The addresses an arm may continue at are even when the instruction's offset is.\<close>

definition even_next :: "(trap + exit \<times> u32) \<times> 's hart \<Rightarrow> bool" where
  "even_next x \<longleftrightarrow> (\<forall>ex n. fst x = Inr (ex, n) \<longrightarrow> even n)"

fun even_offset :: "inst \<Rightarrow> bool" where
  "even_offset (Jal rd imm) \<longleftrightarrow> even imm"
| "even_offset (Branch op rs1 rs2 imm) \<longleftrightarrow> even imm"
| "even_offset _ \<longleftrightarrow> True"

lemma even_next_bindR: "(\<And>a h. even_next (f a h)) \<Longrightarrow> even_next (bindR x f)"
proof -
  assume *: "\<And>a h. even_next (f a h)"
  obtain r h where x: "x = (r, h)" by (cases x)
  show ?thesis using * by (cases r) (auto simp: x even_next_def)
qed

lemma even_next_pair [simp]: "even_next (Inr (ex, n), h) \<longleftrightarrow> even n" "even_next (Inl e, h)"
  by (auto simp: even_next_def)

lemma even_next_inst:
  assumes "core_ok c" "even ip" "even nx" "even_offset i"
  shows "even_next (exec_inst B i ip nx iw (c, s))"
proof (cases i)
  case (Csr op rd src a)
  then show ?thesis using assms by (simp add: exec_csr_def Let_def split: sum.splits)
next
  case (Jalr rd rs1 imm)
  then show ?thesis by (simp add: exec_jalr_def Let_def even_and_iff)
next
  case Mret
  then show ?thesis
    using core_ok_csr(1) [OF assms(1)] by (simp add: exec_mret_def Let_def csr_wf_def bit_0)
next
  case Sret
  then show ?thesis
    using core_ok_csr(1) [OF assms(1)] by (simp add: exec_sret_def Let_def csr_wf_def bit_0)
qed (use assms in \<open>auto simp: exec_lui_def exec_auipc_def exec_jal_def exec_op_imm_def exec_op_def
    exec_branch_def exec_mul_def exec_sfence_def exec_load_def exec_store_def
    exec_lr_def exec_sc_def exec_amo_def Let_def intro!: even_next_bindR split: option.splits\<close>)

lemma even_sext: "sext (imm AND NOT 1) n = imm \<Longrightarrow> 0 < n \<Longrightarrow> n \<le> 32 \<Longrightarrow> even imm"
proof -
  assume *: "sext (imm AND NOT 1) n = imm" and n: "0 < n" "n \<le> 32"
  have "\<not> bit (sext (imm AND NOT 1) n) 0"
    using n by (cases "n = 1") (auto simp: bit_sext bit_and_iff bit_not_iff)
  then show ?thesis using * by (simp add: bit_0)
qed

lemma encodable_even_offset: "encodable i \<Longrightarrow> even_offset i"
  by (cases i) (auto dest: even_sext [simplified])

lemma decoded_even_offset: "even_offset (decode w)" "even_offset (decode_compressed h)"
proof -
  show "even_offset (decode w)"
    using decode_encodable [of w] encodable_even_offset by auto
  show "even_offset (decode_compressed h)"
    using decode_compressed_legal [of h] encodable_even_offset
    by (auto simp: c_legal_def long_shift_def)
qed

section \<open>Steps\<close>

text \<open>
  The outcome of one fetch, decode and execute from \<open>c\<close>: after a trap nothing architectural has
  changed; after an instruction the clock has advanced by one.
\<close>

definition step_outcome :: "cpu \<Rightarrow> (trap + exit) \<times> 's hart \<Rightarrow> bool" where
  "step_outcome c x \<longleftrightarrow>
     (case fst x of
        Inl _ \<Rightarrow> trap_frame c (fst (snd x))
      | Inr _ \<Rightarrow> insns_retired (fst (snd x)) = insns_retired c + 1 \<and> even (pc (fst (snd x))))"

lemma exec_one_outcome:
  assumes "core_ok c" "even ip" "even il" "even_offset i"
  shows "step_outcome c (exec_one B i ip il iw (c, s)) \<and> okh (exec_one B i ip il iw (c, s))"
proof -
  obtain r c1 s1 where e: "exec_inst B i ip (ip + il) iw (c, s) = (r, (c1, s1))"
    by (cases "exec_inst B i ip (ip + il) iw (c, s)") auto
  have nx: "even (ip + il)" using assms by simp
  show ?thesis
    using precise_inst [of c B i ip "ip + il" iw s] unclocked_inst [of c B i ip "ip + il" iw s]
      even_next_inst [OF assms(1,2) nx assms(4), of B iw s] okh_inst [OF assms(1), of B i ip "ip + il" iw s] e
    by (cases r) (auto simp: exec_one_def step_outcome_def core_ok_updates)
qed

lemma step_outcome_trans:
  assumes "tlb_frame c c'" "step_outcome c' x"
  shows "step_outcome c x"
  using assms tlb_frame_trap [OF assms(1)]
  by (auto simp: step_outcome_def tlb_frame_def intro: trap_frame_trans split: sum.splits)

lemma step_outcome_bindR:
  assumes "keeps c x" "\<And>a c' s. tlb_frame c c' \<Longrightarrow> step_outcome c' (f a (c', s)) \<and> okh (f a (c', s))" "core_ok c"
  shows "step_outcome c (bindR x f) \<and> okh (bindR x f)"
proof -
  obtain r c' s where x: "x = (r, (c', s))" by (cases x) auto
  have t: "tlb_frame c c'" using assms(1) by (simp add: x)
  show ?thesis
    using assms(2) [OF t] tlb_frame_trap [OF t] tlb_frame_core_ok [OF t assms(3)]
    by (cases r) (auto simp: x step_outcome_def [of _ "(Inl _, _)"] intro: step_outcome_trans [OF t])
qed

lemma step_outcome:
  assumes "core_ok c" "even (pc c)"
  shows "step_outcome c (step B (c, s)) \<and> okh (step B (c, s))"
proof -
  have e: "step_outcome c' (exec_one B i (pc c) il iw (c', s')) \<and> okh (exec_one B i (pc c) il iw (c', s'))"
    if "tlb_frame c c'" "even il" "even_offset i" for c' i il iw s'
    using exec_one_outcome [OF tlb_frame_core_ok [OF that(1) assms(1)] assms(2) that(2,3)] .
  show ?thesis
    unfolding step_def Let_def fst_conv
  proof (rule step_outcome_bindR [OF keeps_fetch16 _ assms(1)])
    fix lo :: u16 and c' s'
    assume t: "tlb_frame c c'"
    have "step_outcome c' (bindR (fetch16 B (pc c + 2) (c', s')) (\<lambda>hi. exec_one B
          (decode (ucast lo OR push_bit 16 (ucast hi))) (pc c) 4 (ucast lo OR push_bit 16 (ucast hi)))) \<and>
        okh (bindR (fetch16 B (pc c + 2) (c', s')) (\<lambda>hi. exec_one B
          (decode (ucast lo OR push_bit 16 (ucast hi))) (pc c) 4 (ucast lo OR push_bit 16 (ucast hi))))"
      by (rule step_outcome_bindR [OF keeps_fetch16 _ tlb_frame_core_ok [OF t assms(1)]])
        (intro e tlb_frame_trans [OF t] decoded_even_offset, simp_all)
    then show "step_outcome c'
        (if lo AND 3 \<noteq> 3 then exec_one B (decode_compressed lo) (pc c) 2 (ucast lo) (c', s')
         else bindR (fetch16 B (pc c + 2) (c', s')) (\<lambda>hi. exec_one B
          (decode (ucast lo OR push_bit 16 (ucast hi))) (pc c) 4 (ucast lo OR push_bit 16 (ucast hi)))) \<and>
        okh (if lo AND 3 \<noteq> 3 then exec_one B (decode_compressed lo) (pc c) 2 (ucast lo) (c', s')
         else bindR (fetch16 B (pc c + 2) (c', s')) (\<lambda>hi. exec_one B
          (decode (ucast lo OR push_bit 16 (ucast hi))) (pc c) 4 (ucast lo OR push_bit 16 (ucast hi))))"
      using e [OF t] decoded_even_offset by simp
  qed
qed

lemma trap_vector_even: "even (trap_vector tv cause irq)"
  by (simp add: trap_vector_def Let_def even_and_iff)

lemma take_trap_ok:
  assumes "core_ok c" "even (pc c)"
  shows "hart_ok (take_trap cause tval irq c)"
proof -
  have st: "legal_st (mstatus (csr c))" by (rule core_ok_csr(2) [OF assms(1)])
  have s: "csr_wf ((csr c)\<lparr>sepc := pc c, scause := x, stval := tval, mstatus := w\<rparr>)"
    "csr_wf ((csr c)\<lparr>mepc := pc c, mcause := x, mtval := tval, mstatus := w\<rparr>)" if "legal_st w" for x w
    using core_ok_csr(1) [OF assms(1)] assms(2) that by (auto simp: csr_wf_def legal_st_def bit_0)
  have c: "core_ok (c\<lparr>csr := f, privilege := p, pc := a\<rparr>)" if "csr_wf f" for f p a
    using assms(1) that by (simp add: core_ok_def)
  show ?thesis
    unfolding hart_ok_def take_trap_def Let_def
    by (auto intro!: c s legal_st_intros st simp: trap_vector_even simp del: push_bit_and)
qed

lemma update_timers_ok: "hart_ok c \<Longrightarrow> hart_ok (update_timers c)"
  by (simp add: hart_ok_def update_timers_def Let_def core_ok_def csr_wf_def)

lemma trap_frame_pc: "trap_frame c c' \<Longrightarrow> pc c' = pc c"
  by (cases c; cases c') (simp add: trap_frame_def)

lemma finish_exit_ok:
  assumes "core_ok c" "even (pc c)"
  shows "hart_ok (snd (finish_exit r c))"
  using assms take_trap_ok [OF assms]
  by (cases "(r, c)" rule: finish_exit.cases) (auto simp: hart_ok_def core_ok_updates)

lemma poll_interrupt_ok: "hart_ok c \<Longrightarrow> hart_ok (snd (poll_interrupt c))"
  using update_timers_ok [of c] take_trap_ok [of "update_timers c"]
  by (auto simp: poll_interrupt_def Let_def hart_ok_def split: option.splits)

lemma step_ok:
  assumes "hart_ok c"
  shows "hart_ok (fst (snd (step B (c, s))))"
proof -
  have "core_ok c" "even (pc c)" using assms by (simp_all add: hart_ok_def)
  then show ?thesis
    using step_outcome [of c B s]
    by (auto simp: hart_ok_def okh_def step_outcome_def trap_frame_pc split: sum.splits)
qed

lemma step_system_ok:
  assumes "hart_ok c"
  shows "hart_ok (fst (snd (step_system B (c, s))))"
proof -
  obtain i c1 where p: "poll_interrupt c = (i, c1)" by (cases "poll_interrupt c")
  have c1: "hart_ok c1" using poll_interrupt_ok [OF assms] p by simp
  obtain r c2 s2 where st: "step B (c1, s) = (r, (c2, s2))" by (cases "step B (c1, s)") auto
  have "hart_ok c2" using step_ok [OF c1, of B s] st by simp
  then have "hart_ok (snd (finish_exit r c2))" by (intro finish_exit_ok) (simp_all add: hart_ok_def)
  then show ?thesis
    using c1 p st by (auto simp: step_system_def case_prod_beta split: bool.splits)
qed

lemma run_steps_ok: "hart_ok c \<Longrightarrow> hart_ok (fst (snd (run_steps B n (c, s))))"
proof (induction n arbitrary: c s)
  case (Suc n)
  obtain ex c1 s1 where st: "step_system B (c, s) = (ex, (c1, s1))" by (cases "step_system B (c, s)") auto
  then show ?case using step_system_ok [OF Suc.prems, of B s] Suc.IH [of c1 s1] by simp
qed simp

lemma cpu_new_ok: "even entry \<Longrightarrow> hart_ok (cpu_new entry)" "even entry \<Longrightarrow> hart_ok (cpu_new_hart entry hid)"
  by (simp_all add: hart_ok_def core_ok_def cpu_new_def cpu_new_hart_def Let_def file_ok_def tlb_new_def
      log_bounded_def csr_wf_def csr_default_def)

section \<open>Address translation\<close>

lemma fast_pa_xlate: "fast_pa c va ac = Some pa \<Longrightarrow> xlate B va ac (c, s) = (Inr pa, (c, s))"
  by (auto simp: fast_pa_def xlate_def Let_def split: if_splits option.splits)

text \<open>The translation state of a hart does not include its TLB.\<close>

lemma translation_regs_tlb [simp]:
  "untranslated (c\<lparr>tlb := t\<rparr>) ac = untranslated c ac" "effective_priv (c\<lparr>tlb := t\<rparr>) ac = effective_priv c ac"
  "sum_bit (c\<lparr>tlb := t\<rparr>) = sum_bit c" "mxr_bit (c\<lparr>tlb := t\<rparr>) = mxr_bit c" "satp_root (c\<lparr>tlb := t\<rparr>) = satp_root c"
  by (simp_all add: untranslated_def effective_priv_def sum_bit_def mxr_bit_def satp_root_def)

text \<open>What a successful walk leaves in the TLB: an entry for the page that allows the access.\<close>

definition walk_cached :: "u32 \<Rightarrow> access \<Rightarrow> priv \<Rightarrow> bool \<Rightarrow> bool \<Rightarrow> cpu \<Rightarrow> u32 \<Rightarrow> cpu \<Rightarrow> bool" where
  "walk_cached va ac p sm mxr c pa c' \<longleftrightarrow>
     (\<exists>e. c' = c\<lparr>tlb := tlb_insert e (tlb c)\<rparr> \<and> te_vpn e = drop_bit 12 va \<and> te_ppn e = drop_bit 12 pa \<and>
        leaf_perm_priv_ok ac p sm mxr (tlb_leaf e) \<and> (ac = Write \<longrightarrow> te_d_set e))"

lemma xlate_leaf_cached:
  assumes "xlate_leaf B va ac p sm mxr lvl a pte (c, s) = (Inr pa, (c', s'))"
  shows "walk_cached va ac p sm mxr c pa c'"
proof -
  have pl: "tlb_leaf e = pte_leaf pte"
    if "te_r e = lf_r (pte_leaf pte)" "te_w e = lf_w (pte_leaf pte)" "te_x e = lf_x (pte_leaf pte)"
      "te_u e = lf_u (pte_leaf pte)" for e
    using that by (simp add: tlb_leaf_def pte_leaf_def)
  show ?thesis
    using assms unfolding walk_cached_def xlate_leaf_def
    by (auto simp: bus_st_def bindR_Inr_conv Let_def split: if_splits prod.splits intro!: exI) (auto simp: pl)
qed

lemma xlate_walk_cached:
  assumes "xlate_walk B va ac p sm mxr lvl a (c, s) = (Inr pa, (c', s'))"
  shows "walk_cached va ac p sm mxr c pa c'"
  using assms
proof (induction lvl arbitrary: a s)
  case (Suc lvl)
  then show ?case
    by (auto simp: bindR_Inr_conv bus_ld_def Let_def split: if_splits prod.splits intro: xlate_leaf_cached)
qed simp

lemma tlb_get_insert:
  assumes "length t = TLB_SIZE"
  shows "tlb_get (tlb_insert e t) vpn = (if vpn = te_vpn e then Some e
    else if tlb_slot vpn = tlb_slot (te_vpn e) then None else tlb_get t vpn)"
  using assms by (auto simp: tlb_get_def tlb_insert_def tlb_slot_def TLB_SIZE_def Let_def nth_list_update)

lemma page_join: "pa AND 0xfff = va AND 0xfff \<Longrightarrow> push_bit 12 (drop_bit 12 pa) OR (va AND 0xfff) = pa"
  for pa va :: u32
proof -
  assume "pa AND 0xfff = va AND 0xfff"
  then have "push_bit 12 (drop_bit 12 pa) OR (va AND 0xfff) = push_bit 12 (drop_bit 12 pa) OR take_bit 12 pa"
    by (simp only: and_low_mask)
  also have "\<dots> = pa" by (rule bit_word_eqI) (auto simp: bit_simps)
  finally show ?thesis .
qed

lemma xlate_then_fast:
  assumes x: "xlate B va ac (c, s) = (Inr pa, (c', s'))" and len: "length (tlb c) = TLB_SIZE"
  shows "fast_pa c' va ac = Some pa"
proof -
  have low: "pa AND 0xfff = va AND 0xfff" by (rule xlate_low12 [OF x])
  consider (plain) "untranslated c ac" "pa = va" "c' = c"
    | (hit) "c' = c" "fast_pa c va ac = Some pa"
    | (walk) "\<not> untranslated c ac"
        "walk_cached va ac (effective_priv c ac) (sum_bit c) (mxr_bit c) c pa c'"
    using x by (auto simp: xlate_def fast_pa_def Let_def split: if_splits option.splits intro: xlate_walk_cached)
  then show ?thesis
  proof cases
    case walk
    then show ?thesis
      using page_join [OF low]
      by (auto simp: walk_cached_def fast_pa_def tlb_get_insert [OF len])
  qed (simp_all add: fast_pa_def)
qed

text \<open>A walk that finds every page-table word unchanged in the golden image repeats the golden walk.\<close>

lemma golden_walk_xlate:
  assumes "golden_walk g ov va ac p sm mxr lvl a = Inr pa"
    and mem: "\<And>x v. \<not> ov x \<Longrightarrow> golden_read_u32 g x = Some v \<Longrightarrow> bus_load B s x 4 = (Inr v, s)"
  shows "\<exists>t. xlate_walk B va ac p sm mxr lvl a (c, s) = (Inr pa, (c\<lparr>tlb := t\<rparr>, s))"
  using assms(1)
proof (induction lvl arbitrary: a)
  case (Suc lvl)
  let ?pa = "a + vpn_index va lvl * 4"
  from Suc.prems obtain pte where pte: "\<not> ov ?pa" "golden_read_u32 g ?pa = Some pte" "\<not> pte_invalid pte"
    and rest: "if pte_is_leaf pte then leaf_perm_priv_ok ac p sm mxr (pte_leaf pte) \<and>
        \<not> (lvl = 1 \<and> drop_bit 10 pte AND 0x3ff \<noteq> 0) \<and> \<not> pte_needs_ad ac pte \<and> pa = leaf_pa va pte lvl
      else golden_walk g ov va ac p sm mxr lvl (pte_next pte) = Inr pa"
    by (auto simp: Let_def bindE_Inr_conv ok_or_def pte_needs_ad_def split: if_splits option.splits)
  have ld: "bus_ld B f ?pa 4 (c, s) = (Inr pte, (c, s))" for f
    using mem [OF pte(1,2)] by (simp add: bus_ld_def)
  show ?case
  proof (cases "pte_is_leaf pte")
    case True
    then show ?thesis using rest pte ld by (auto simp: Let_def xlate_leaf_def)
  next
    case False
    then show ?thesis using rest pte ld Suc.IH by (simp add: Let_def)
  qed
qed simp

lemma golden_readonly_xlate:
  assumes "xlate_golden_readonly c g va ac ov = Inr pa" "tlb_get (tlb c) (drop_bit 12 va) = None"
    and "\<And>x v. \<not> ov x \<Longrightarrow> golden_read_u32 g x = Some v \<Longrightarrow> bus_load B s x 4 = (Inr v, s)"
  shows "\<exists>t. xlate B va ac (c, s) = (Inr pa, (c\<lparr>tlb := t\<rparr>, s))"
proof (cases "untranslated c ac")
  case True
  then show ?thesis using assms(1) by (auto simp: xlate_golden_readonly_def xlate_def intro!: exI [of _ "tlb c"])
next
  case False
  then show ?thesis
    using assms(1,2) golden_walk_xlate [OF _ assms(3)]
    by (simp add: xlate_golden_readonly_def xlate_def Let_def)
qed

text \<open>
  The veto the vectorised engine passes: a physical address whose page has a private copy, or is
  outside the image.
\<close>

definition any_lane_overlaid :: "golden \<Rightarrow> cow_ram list \<Rightarrow> u32 \<Rightarrow> bool" where
  "any_lane_overlaid g lanes pa =
     (if pa < g_base g then True
      else let pn = unat (pa - g_base g) div PAGE_SIZE in
           pn \<ge> num_pages g \<or> list_ex (\<lambda>r. is_overlaid r pn) lanes)"

lemma spec_read_cong:
  "(\<And>j. i \<le> j \<Longrightarrow> j < i + length out \<Longrightarrow> v (a + of_nat j) = w (a + of_nat j)) \<Longrightarrow>
   spec_read ac need v a n i out = spec_read ac need w a n i out"
proof (induction out arbitrary: i)
  case (Cons x out)
  have "spec_read ac need v a n (Suc i) out = spec_read ac need w a n (Suc i) out"
    by (rule Cons.IH) (simp add: Cons.prems)
  then show ?case using Cons.prems [of i] by (simp add: spec_read.simps Let_def split: option.splits)
qed (simp add: spec_read.simps)

lemma gather_cong:
  assumes "\<And>i. i < n \<Longrightarrow> v (a + of_nat i) = w (a + of_nat i)"
  shows "gather ac need v a n = gather ac need w a n"
proof -
  have "spec_read ac need v a (of_nat n) 0 (replicate n 0) = spec_read ac need w a (of_nat n) 0 (replicate n 0)"
    by (rule spec_read_cong) (simp add: assms)
  then show ?thesis by (simp add: gather_def)
qed

lemma word_in_page: "n mod 4 = 0 \<Longrightarrow> i < 4 \<Longrightarrow> (n + i) div PAGE_SIZE = n div PAGE_SIZE"
proof -
  assume "n mod 4 = 0" "i < 4"
  then have "(n + i) div 4 = n div 4" by presburger
  then have "(n + i) div (4 * 1024) = n div (4 * 1024)" unfolding div_mult2_eq by simp
  then show ?thesis by (simp add: PAGE_SIZE_def)
qed

lemma golden_word_offsets:
  assumes wf: "golden_wf g" and r: "golden_read_u32 g x = Some v" and i: "i < 4"
  shows "golden_offset g (x + of_nat i) = Some (unat (x - g_base g) + i) \<and>
    (unat (x - g_base g) + i) div PAGE_SIZE = unat (x - g_base g) div PAGE_SIZE"
proof -
  let ?o = "unat (x - g_base g)"
  have al: "x mod 4 = 0" and ge: "\<not> x < g_base g" and lt: "?o + 4 \<le> length (g_mem g)"
    using r by (auto simp: golden_read_u32_def golden_offset_def Let_def split: if_splits)
  have x: "unat x = unat (g_base g) + ?o"
    using ge by (simp add: unat_sub_if' word_less_nat_alt)
  have sm: "unat x + i < 4294967296" using wf lt i x by (simp add: golden_wf_def)
  have "unat x mod 4 = 0" using al align_natural(2) [of x] by (simp add: natural_access_def)
  moreover have "unat (g_base g) mod 4 = 0" using wf by (simp add: golden_wf_def)
  ultimately have o4: "?o mod 4 = 0" using x by (metis add_0 mod_add_left_eq)
  have page: "(?o + i) div PAGE_SIZE = ?o div PAGE_SIZE" by (rule word_in_page [OF o4 i])
  have xi: "unat (x + of_nat i) = unat x + i" by (rule unat_add_no_wrap [OF sm])
  have ge': "\<not> x + of_nat i < g_base g" using xi x by (simp add: word_less_nat_alt)
  have "unat (x + of_nat i - g_base g) = unat (x + of_nat i) - unat (g_base g)"
    using ge' by (intro unat_sub) simp
  then have "unat (x + of_nat i - g_base g) = ?o + i" using xi x by linarith
  then show ?thesis using ge' lt i page by (simp add: golden_offset_def Let_def)
qed

lemma cow_golden_word:
  assumes wf: "cow_wf r" and r: "golden_read_u32 (cow_golden r) x = Some v"
    and ov: "\<not> is_overlaid r (unat (x - g_base (cow_golden r)) div PAGE_SIZE)"
  shows "bus_load cow_bus r x 4 = (Inr v, r)"
proof -
  let ?g = "cow_golden r"
  have gwf: "golden_wf ?g" using wf by (simp add: cow_wf_def)
  have "cow_peek r (x + of_nat i) = cow_peek (cow_new ?g) (x + of_nat i)" if "i < 4" for i
  proof (rule golden_page_peek [OF wf])
    have "cow_offset r a = golden_offset ?g a" for a
      by (simp add: cow_offset_def golden_offset_def g_size_def Let_def)
    then show "cow_offset r (x + of_nat i) = Some (unat (x - g_base ?g) + i)"
      using golden_word_offsets [OF gwf r that] by simp
    show "\<not> is_overlaid r ((unat (x - g_base ?g) + i) div PAGE_SIZE)"
      using golden_word_offsets [OF gwf r that] ov by simp
  qed
  then have "gather Read PERM_READ (cow_peek r) x 4 = gather Read PERM_READ (cow_peek (cow_new ?g)) x 4"
    by (rule gather_cong)
  then have "view_load (cow_peek r) x 4 = view_load (cow_peek (cow_new ?g)) x 4"
    by (simp add: view_load_def)
  also have "\<dots> = Inr v"
    using golden_read_sized_load [OF gwf, of x 4 v] r cow_bus.load_spec [OF cow_new_wf [OF gwf], of x 4]
    by (simp add: golden_read_sized_def cow_bus_def)
  finally show ?thesis by (simp add: cow_bus.load_spec [OF wf])
qed

end
