(* ===== verification/Core_Results.thy ===== *)
theory Core_Results
  imports Core
begin

text \<open>
  What the decoder, the CSR file and the core promise: instruction round trips, CSR access laws,
  the invariant of the hart and the precision of its traps, the agreement of its address
  translations, its independence of the memory behind the bus and of its logs, the M extension
  against integer arithmetic, trap entry against return, and the reach of the taint rules.
\<close>

section \<open>Decoding\<close>

text \<open>
  C30.  Decoding inverts the architectural encoding: for every instruction whose operands fit their
  fields, \<open>decode\<close> of the 32-bit word \<open>encode\<close> builds by the layouts of the ISA manual gives the
  instruction back, immediates sign-extended and reassembled from their scattered fields.
\<close>

theorem decode_inverts_encode:
  assumes "encodable i"
  shows "decode (encode i) = i"
  using assms by (rule decode_encode)

theorem decode_inverts_encode_witness:
  "decode (encode (Branch BLt 3 17 0xFFFFF000)) = Branch BLt 3 17 0xFFFFF000"
proof -
  have "encodable (Branch BLt 3 17 0xFFFFF000)" by (simp add: sext_def Let_def)
  then show ?thesis by (rule decode_inverts_encode)
qed

text \<open>
  Decoding yields only well-formed instructions: \<open>decode\<close> of any 32-bit word is \<open>Illegal\<close> of that
  word or an instruction whose register numbers are below 32 and whose immediates are in the range
  of their fields, so that the execute stage never indexes outside the register file; the same holds
  of \<open>decode_compressed\<close>, except that a compressed shift may carry an amount from 32 to 63.
\<close>

lemma decode_only_legal:
  "(decode raw = Illegal raw \<or> encodable (decode raw)) \<and>
   (decode_compressed half = Illegal (ucast half) \<or> encodable (decode_compressed half) \<or>
    long_shift (decode_compressed half))"
  using decode_encodable [of raw] decode_compressed_legal [of half] by (simp add: c_legal_def)

section \<open>Control and status registers\<close>

text \<open>
  A CSR write is seen by a read: after \<open>CsrFile::write\<close> accepted a value at an address, \<open>read\<close>
  at that address and privilege returns the legalised value, and the file stays well formed.
\<close>

lemma csr_write_read:
  assumes "csr_wf f" "csr_write f a v p = Inr f'"
  shows "csr_read f' a p = Inr (csr_legalised f a v) \<and> csr_wf f'"
  using csr_read_after_write [OF assms] csr_write_wf [OF assms] by simp

text \<open>
  A CSR write disturbs nothing else: every address that is not another view of the written
  register (\<open>sstatus\<close> of \<open>mstatus\<close>, \<open>sie\<close> of \<open>mie\<close>, \<open>sip\<close> of \<open>mip\<close>) reads as before, at every
  privilege.
\<close>

lemma csr_write_disturbs_nothing_else:
  assumes "csr_write f a v p = Inr f'" "\<not> csr_alias a b"
  shows "csr_read f' b q = csr_read f b q"
  using assms by (rule csr_write_frame)

section \<open>The hart\<close>

text \<open>
  C2.  The invariant of the hart: over any memory, after any number of full-system steps
  (\<open>step_system\<close>, interrupts and traps included) from a hart that satisfies it, such as a fresh one
  at an even entry point, there are 32 registers with \<open>x0\<close> zero, the TLB has its 256 slots, the CSRs
  hold only legal values, the taint shadow of \<open>x0\<close> is clean, the logs are within their caps, and the
  program counter is even.
\<close>

theorem hart_invariant:
  assumes "hart_ok c"
  shows "hart_ok (fst (snd (run_steps B n (c, s))))"
  using assms by (rule run_steps_ok)

theorem hart_invariant_witness:
  "hart_ok (fst (snd (run_steps mmu_bus 1000 (cpu_new 0x80000000, mmu_new 0x80000000 4096))))"
proof -
  have "even (0x80000000 :: u32)" by simp
  then show ?thesis by (intro hart_invariant cpu_new_ok)
qed

text \<open>
  C3.  Traps are precise and the clock counts instructions: when \<open>step\<close> returns a trap, the hart is
  as it was but for the TLB, the logs and the taint shadow, so registers, program counter, CSRs,
  privilege, reservation and instruction count are those of the faulting instruction; when it
  returns an exit, exactly one instruction was counted.
\<close>

theorem step_precise:
  assumes "hart_ok c" "step B (c, s) = (r, (c', s'))"
  shows "case r of
      Inl t \<Rightarrow> c' = c\<lparr>tlb := tlb c', cmplog := cmplog c', ubsan := ubsan c', regs_taint := regs_taint c'\<rparr>
    | Inr ex \<Rightarrow> insns_retired c' = insns_retired c + 1"
  using step_outcome [of c B s] assms
  by (simp add: hart_ok_def step_outcome_def trap_frame_def split: sum.splits)

theorem step_precise_witness:
  "\<exists>t c' s'. step mmu_bus (cpu_new 0x100, mmu_new 0x1000 8) = (Inl t, (c', s')) \<and> regs c' = replicate 32 0 \<and> pc c' = 0x100"
proof -
  have ok: "hart_ok (cpu_new 0x100)" by (rule cpu_new_ok) simp
  obtain r c' s' where st: "step mmu_bus (cpu_new 0x100, mmu_new 0x1000 8) = (r, (c', s'))"
    by (metis prod.collapse)
  have f: "fetch_u16 (mmu_new 0x1000 8) 0x100 = Inl (mk_fault 0x100 2 Exec Unmapped)" by code_simp
  have "fst (step mmu_bus (cpu_new 0x100, mmu_new 0x1000 8)) =
      Inl (TMem (mk_fault 0x100 2 Exec Unmapped))"
    by (simp add: step_def fetch16_def xlate_def untranslated_def effective_priv_def cpu_new_def bus_if_def
        mmu_bus_def mmu_ifetch16_def f)
  then have r: "r = Inl (TMem (mk_fault 0x100 2 Exec Unmapped))" using st by simp
  have "c' = (cpu_new 0x100)\<lparr>tlb := tlb c', cmplog := cmplog c', ubsan := ubsan c', regs_taint := regs_taint c'\<rparr>"
    using step_precise [OF ok st] r by simp
  then have "regs c' = regs (cpu_new 0x100)" "pc c' = pc (cpu_new 0x100)"
    by (metis cpu.select_convs(1,2) cpu.surjective cpu.update_convs(9-12))+
  then show ?thesis using st r by (auto simp: cpu_new_def)
qed

section \<open>The M extension\<close>

lemma sint_bounds32: "- 2147483648 \<le> sint (a :: u32)" "sint a < 2147483648"
  using sint_ge [of a] sint_lt [of a] by simp_all

lemma signed_high:
  assumes "- 9223372036854775808 \<le> P" "P < 9223372036854775808"
  shows "sint (ucast (signed_drop_bit 32 (word_of_int P :: u64)) :: u32) = P div 4294967296"
proof -
  let ?w = "word_of_int P :: u64"
  have w: "sint ?w = P" using assms by (simp add: signed_of_int signed_take_bit_int_eq_self)
  have s: "sint (signed_drop_bit 32 ?w) = P div 4294967296"
    by (simp add: sint_signed_drop_bit_eq w drop_bit_eq_div)
  have "ucast (signed_drop_bit 32 ?w) = (word_of_int (sint (signed_drop_bit 32 ?w)) :: u32)"
    by (rule bit_word_eqI) (simp add: bit_simps bit_sint_iff)
  moreover have "- 2147483648 \<le> P div 4294967296" "P div 4294967296 < 2147483648" using assms by linarith+
  ultimately show ?thesis by (simp add: s signed_of_int signed_take_bit_int_eq_self)
qed

lemma product_bounds:
  fixes x y :: int
  assumes "- 2147483648 \<le> x" "x < 2147483648" "- 2147483648 \<le> y" "y < 4294967296"
  shows "- 9223372036854775808 \<le> x * y" "x * y < 9223372036854775808"
proof -
  have "\<bar>x * y\<bar> \<le> 2147483648 * 4294967295"
    unfolding abs_mult using assms by (intro mult_mono) auto
  then show "- 9223372036854775808 \<le> x * y" "x * y < 9223372036854775808" by linarith+
qed

lemma muldiv_product:
  "uint (muldiv MMulhu a b) * 2 ^ 32 + uint (muldiv MMul a b) = uint a * uint b"
  "sint (muldiv MMulh a b) * 2 ^ 32 + uint (muldiv MMul a b) = sint a * sint b"
  "sint (muldiv MMulhsu a b) * 2 ^ 32 + uint (muldiv MMul a b) = sint a * uint b"
proof -
  have ub: "0 \<le> uint b" "uint b < 4294967296" "0 \<le> uint a" "uint a < 4294967296"
    using uint_lt2p [of a] uint_lt2p [of b] by simp_all
  note sb = sint_bounds32 [of a] sint_bounds32 [of b]
  have low: "uint (muldiv MMul a b) = (x * y) mod 4294967296"
    if "word_of_int x = a" "word_of_int y = b" for x y
  proof -
    have "a * b = word_of_int (x * y)" using that by simp
    then have "uint (a * b) = uint (word_of_int (x * y) :: u32)" by simp
    then show ?thesis by (simp only: muldiv.simps uint_word_of_int) simp
  qed
  have e: "(ucast a :: u64) = word_of_int (uint a)" "(scast a :: u64) = word_of_int (sint a)"
    "(ucast b :: u64) = word_of_int (uint b)" "(scast b :: u64) = word_of_int (sint b)"
    by (simp_all only: of_int_uint of_int_sint)
  have "uint (muldiv MMulhu a b) = uint a * uint b div 4294967296"
  proof -
    have p: "0 \<le> uint a * uint b" "uint a * uint b < 18446744073709551616"
      using mult_strict_mono [of "uint a" 4294967296 "uint b" 4294967296] ub by simp_all
    have "uint ((ucast a :: u64) * ucast b) = uint (word_of_int (uint a * uint b) :: u64)"
      by (simp only: e of_int_mult)
    also have "\<dots> = uint a * uint b" unfolding uint_word_of_int using p by simp
    finally have "uint ((ucast a :: u64) * ucast b) = uint a * uint b" .
    moreover have "uint a * uint b div 4294967296 < 4294967296" "0 \<le> uint a * uint b div 4294967296" using p by linarith+
    ultimately show ?thesis
      unfolding muldiv.simps unsigned_ucast_eq unsigned_drop_bit_eq by (simp add: drop_bit_eq_div take_bit_int_eq_self)
  qed
  then show "uint (muldiv MMulhu a b) * 2 ^ 32 + uint (muldiv MMul a b) = uint a * uint b"
    using low [of "uint a" "uint b"] by simp
  have "sint (muldiv MMulh a b) = sint a * sint b div 4294967296"
    using signed_high [OF product_bounds [OF sb(1,2,3)]] sb(4) by (simp only: muldiv.simps e of_int_mult)
  then show "sint (muldiv MMulh a b) * 2 ^ 32 + uint (muldiv MMul a b) = sint a * sint b"
    using low [of "sint a" "sint b"] by simp
  have "sint (muldiv MMulhsu a b) = sint a * uint b div 4294967296"
    using signed_high [OF product_bounds [OF sb(1,2), of "uint b"]] ub by (simp only: muldiv.simps e of_int_mult)
  then show "sint (muldiv MMulhsu a b) * 2 ^ 32 + uint (muldiv MMul a b) = sint a * uint b"
    using low [of "sint a" "uint b"] by simp
qed

lemma muldiv_quotient:
  "muldiv MDiv a b * b + muldiv MRem a b = a" "muldiv MDivu a b * b + muldiv MRemu a b = a"
proof -
  have "word_of_int (sint a sdiv sint b) * b + word_of_int (sint a smod sint b) =
      (word_of_int (sint a sdiv sint b * sint b + sint a smod sint b) :: u32)" by simp
  also have "\<dots> = a" by (simp only: sdiv_mult_smod_eq of_int_sint scast_id)
  finally show "muldiv MDiv a b * b + muldiv MRem a b = a" by simp
  show "muldiv MDivu a b * b + muldiv MRemu a b = a" by (simp add: word_mod_div_equality)
qed

text \<open>
  C35.  Multiplication and division are exact: the high word of each \<open>mulh\<close> variant and the low word
  of \<open>mul\<close> are together the full product of the operands as the variant reads them; and division
  satisfies the division law for all operands, a zero divisor and the signed overflow included,
  with a remainder smaller than a non-zero divisor in absolute value.
\<close>

theorem muldiv_exact:
  "uint (muldiv MMulhu a b) * 2 ^ 32 + uint (muldiv MMul a b) = uint a * uint b \<and>
   sint (muldiv MMulh a b) * 2 ^ 32 + uint (muldiv MMul a b) = sint a * sint b \<and>
   sint (muldiv MMulhsu a b) * 2 ^ 32 + uint (muldiv MMul a b) = sint a * uint b \<and>
   muldiv MDiv a b * b + muldiv MRem a b = a \<and> muldiv MDivu a b * b + muldiv MRemu a b = a \<and>
   (if b = 0 then muldiv MDiv a b = - 1 \<and> muldiv MRem a b = a
    else \<bar>sint (muldiv MRem a b)\<bar> < \<bar>sint b\<bar> \<and> uint (muldiv MRemu a b) < uint b)"
proof -
  have "\<bar>sint (muldiv MRem a b)\<bar> < \<bar>sint b\<bar> \<and> uint (muldiv MRemu a b) < uint b" if "b \<noteq> 0"
  proof
    have "sint b \<noteq> 0" using that by (metis of_int_0 of_int_sint scast_id)
    then have r: "\<bar>sint a smod sint b\<bar> < \<bar>sint b\<bar>" using smod_int_range [of "sint b" "sint a"] by auto
    then have "\<bar>sint a smod sint b\<bar> < 2147483648"
      using sint_bounds32 [of b] by linarith
    then have "sint (word_of_int (sint a smod sint b) :: u32) = sint a smod sint b"
      by (simp add: signed_of_int signed_take_bit_int_eq_self)
    with r \<open>sint b \<noteq> 0\<close> that show "\<bar>sint (muldiv MRem a b)\<bar> < \<bar>sint b\<bar>" by simp
    show "uint (muldiv MRemu a b) < uint b" 
    proof -
      have "0 < uint b" using that uint_0_iff [of b] uint_ge_0 [of b] by linarith
      then show ?thesis using that by (simp add: uint_mod)
    qed
  qed
  then show ?thesis using muldiv_quotient muldiv_product by (simp only: simp_thms split: if_split) simp
qed

section \<open>Address translation\<close>

text \<open>
  The side-effect-free translation of the generated code is the interpreter's: when \<open>fast_pa\<close>
  answers, \<open>xlate\<close> gives that address and changes neither the hart nor the memory; and every
  address \<open>xlate\<close> has produced is answered by \<open>fast_pa\<close> from then on, with no page-table access.
\<close>

lemma fast_pa_agrees_with_xlate:
  assumes "length (tlb c) = TLB_SIZE"
  shows "(fast_pa c va ac = Some pa \<longrightarrow> xlate B va ac (c, s) = (Inr pa, (c, s))) \<and>
    (xlate B va ac (c, s) = (Inr pa, (c', s')) \<longrightarrow> fast_pa c' va ac = Some pa)"
  by (auto intro: fast_pa_xlate dest: xlate_then_fast [OF _ assms])

text \<open>
  The translation shared by converged lanes is each lane's own: when \<open>xlate_golden_readonly\<close>,
  guarded by \<open>any_lane_overlaid\<close> over all lanes, answers an address for a lane whose TLB does not
  hold the page, the lane's \<open>xlate\<close> over its own copy-on-write memory gives the same address, changes
  nothing but the TLB, and leaves its memory untouched.
\<close>

lemma golden_translation_agrees:
  assumes "r \<in> set lanes" "cow_wf r"
    "xlate_golden_readonly c (cow_golden r) va ac (any_lane_overlaid (cow_golden r) lanes) = Inr pa"
    "tlb_get (tlb c) (drop_bit 12 va) = None"
  shows "\<exists>t. xlate cow_bus va ac (c, r) = (Inr pa, (c\<lparr>tlb := t\<rparr>, r))"
proof (rule golden_readonly_xlate [OF assms(3,4)])
  fix x v
  assume "\<not> any_lane_overlaid (cow_golden r) lanes x" and v: "golden_read_u32 (cow_golden r) x = Some v"
  then have "\<not> is_overlaid r (unat (x - g_base (cow_golden r)) div PAGE_SIZE)"
    using assms(1) by (auto simp: any_lane_overlaid_def Let_def list_ex_iff split: if_splits)
  then show "bus_load cow_bus r x 4 = (Inr v, r)" by (rule cow_golden_word [OF assms(2) v])
qed

text \<open>A one-page-table image: the root at \<open>0x1000\<close> whose first entry is a readable superpage leaf at 0.\<close>

definition table_mmu :: mmu where
  "table_mmu = (mmu_new 0x1000 4)\<lparr>mmu_mem := [0x43, 0, 0, 0], mmu_perms := [1, 1, 1, 1]\<rparr>"

section \<open>What the core does not depend on\<close>

text \<open>
  C1.  A hart runs alike on the flat and on the copy-on-write memory: from the same hart, on a
  \<open>Mmu\<close> and on a \<open>CowRam\<close> that show the same bytes and permissions, any number of full-system
  steps ends with the same exit, the same hart, logs and TLB included, and memories that again show
  the same bytes and permissions.
\<close>

theorem flat_and_cow_run_alike:
  assumes "mmu_wf m" "cow_wf r" "mmu_peek m = cow_peek r"
    "run_steps mmu_bus n (c, m) = (ex, (c1, m1))" "run_steps cow_bus n (c, r) = (ex', (c2, r1))"
  shows "ex' = ex \<and> c2 = c1 \<and> mmu_peek m1 = cow_peek r1"
  using flat_cow.run_steps_sim [of True c c m r n] assms by (simp add: hsim_def obs_eq_def)

theorem flat_and_cow_run_alike_witness:
  "fst (run_steps mmu_bus 50 (cpu_new 0x1000, table_mmu)) =
   fst (run_steps cow_bus 50 (cpu_new 0x1000, cow_new (from_mmu table_mmu)))"
proof -
  have wf: "mmu_wf table_mmu" by (simp add: table_mmu_def mmu_new_def mmu_wf_def)
  have al: "unat (mmu_base table_mmu) mod 4 = 0" by (simp add: table_mmu_def mmu_new_def)
  obtain ex c1 m1 where a: "run_steps mmu_bus 50 (cpu_new 0x1000, table_mmu) = (ex, (c1, m1))"
    by (metis prod.collapse)
  obtain ex' c2 r1 where b: "run_steps cow_bus 50 (cpu_new 0x1000, cow_new (from_mmu table_mmu)) = (ex', (c2, r1))"
    by (metis prod.collapse)
  show ?thesis
    using flat_and_cow_run_alike [OF wf cow_new_wf [OF golden_wf_from_mmu [OF wf al]]
        cow_new_from_mmu_peek [OF wf al, symmetric] a b] a b by simp
qed

text \<open>
  C34.  Recording is free of side effects: turning the comparison log and the divide-by-zero log on
  or off changes nothing of a run but the logs themselves, on any memory: same exit, same hart but
  for the two logs, same final memory.
\<close>

theorem logging_is_observational:
  assumes "run_steps B n (c, s) = (ex, (c1, s1))"
    "run_steps B n (set_ubsan u (set_cmplog l c), s) = (ex', (c2, s2))"
  shows "ex' = ex \<and> s2 = s1 \<and> c2 = c1\<lparr>cmplog := cmplog c2, ubsan := ubsan c2\<rparr>"
proof -
  have "obs_eq False c (set_ubsan u (set_cmplog l c))"
    by (auto simp: obs_eq_def set_ubsan_def set_cmplog_def)
  from self.run_steps_sim [OF this refl, of B n s] show ?thesis
    using assms by (auto simp: hsim_def obs_eq_def)
qed

theorem logging_is_observational_witness:
  "fst (run_steps mmu_bus 50 (cpu_new 0x1000, table_mmu)) =
   fst (run_steps mmu_bus 50 (set_ubsan True (set_cmplog True (cpu_new 0x1000)), table_mmu))"
proof -
  obtain ex c1 m1 where a: "run_steps mmu_bus 50 (cpu_new 0x1000, table_mmu) = (ex, (c1, m1))"
    by (metis prod.collapse)
  obtain ex' c2 r1 where b:
    "run_steps mmu_bus 50 (set_ubsan True (set_cmplog True (cpu_new 0x1000)), table_mmu) = (ex', (c2, r1))"
    by (metis prod.collapse)
  show ?thesis using logging_is_observational [OF a b] a b by simp
qed

section \<open>Trap entry and return\<close>

lemma from_bits_level [simp]: "from_bits (level p) = p"
  by (cases p) (simp_all add: from_bits_def)

lemma mpp_field: "drop_bit 11 (((x AND NOT MSTATUS_MPP) OR push_bit 11 (level p)) AND MSTATUS_MPP) = level p"
proof (rule bit_word_eqI)
  fix n
  assume "n < LENGTH(32)"
  have "bit (level p) n \<Longrightarrow> n = 0 \<or> n = 1"
    by (cases p) (auto simp: bit_1_iff bit_three simp del: bit_numeral_word_iff)
  then show "bit (drop_bit 11 (((x AND NOT MSTATUS_MPP) OR push_bit 11 (level p)) AND MSTATUS_MPP)) n = bit (level p) n"
    by (auto simp: bit_simps)
qed

lemma spp_field:
  "p \<noteq> M \<Longrightarrow> drop_bit 8 (((x AND NOT MSTATUS_SPP) OR push_bit 8 (level p AND 1)) AND MSTATUS_SPP) = level p"
proof (rule bit_word_eqI)
  fix n
  assume "p \<noteq> M" "n < LENGTH(32)"
  then have "bit (level p AND 1) n = bit (level p) n" "bit (level p) n \<Longrightarrow> n = 0"
    by (cases p; simp add: bit_1_iff)+
  then show "bit (drop_bit 8 (((x AND NOT MSTATUS_SPP) OR push_bit 8 (level p AND 1)) AND MSTATUS_SPP)) n = bit (level p) n"
    by (auto simp: bit_drop_bit_eq bit_and_iff bit_or_iff bit_not_iff bit_push_bit_iff)
qed

lemma and_flag [simp]:
  "w AND MSTATUS_MIE \<noteq> 0 \<longleftrightarrow> bit w 3" "w AND MSTATUS_MPIE \<noteq> 0 \<longleftrightarrow> bit w 7"
  "w AND MSTATUS_SIE \<noteq> 0 \<longleftrightarrow> bit w 1" "w AND MSTATUS_SPIE \<noteq> 0 \<longleftrightarrow> bit w 5"
  unfolding MSTATUS_MIE_def MSTATUS_MPIE_def MSTATUS_SIE_def MSTATUS_SPIE_def
  by (simp_all only: and_push_one_eq_0 not_not word_size len_of_numeral_defs)

text \<open>What a return reads of the status word, and what trap entry has left there.\<close>

lemma mret_effect:
  assumes "privilege c = M"
  shows "\<exists>c'. exec_mret ip iw (c, s) = (Inr (EContinue, mepc (csr c)), (c', s)) \<and> regs c' = regs c \<and>
    privilege c' = from_bits (drop_bit 11 (mstatus (csr c) AND MSTATUS_MPP)) \<and>
    bit (mstatus (csr c')) 3 = bit (mstatus (csr c)) 7"
  using assms by (simp add: exec_mret_def Let_def bit_and_iff bit_or_iff bit_not_iff del: drop_bit_and)

lemma sret_effect:
  assumes "privilege c = S"
  shows "\<exists>c'. exec_sret ip iw (c, s) = (Inr (EContinue, sepc (csr c)), (c', s)) \<and> regs c' = regs c \<and>
    privilege c' = from_bits (drop_bit 8 (mstatus (csr c) AND MSTATUS_SPP)) \<and>
    bit (mstatus (csr c')) 1 = bit (mstatus (csr c)) 5"
  using assms by (simp add: exec_sret_def Let_def bit_and_iff bit_or_iff bit_not_iff del: drop_bit_and)

definition delegated :: "u32 \<Rightarrow> bool \<Rightarrow> cpu \<Rightarrow> bool" where
  "delegated cause irq c \<longleftrightarrow> privilege c \<noteq> M \<and>
     bit (if irq then mideleg (csr c) else medeleg (csr c)) (unat cause mod 32)"

lemma to_s_delegated:
  "level (privilege c) \<le> level S \<and> drop_bit (unat cause mod 32) (if irq then mideleg (csr c) else medeleg (csr c)) AND 1 \<noteq> 0
     \<longleftrightarrow> delegated cause irq c"
  unfolding delegated_def and_one_eq_0
  by (cases "privilege c") (simp_all add: bit_drop_bit_eq word_le_nat_alt)

lemma take_trap_fields:
  "if delegated cause irq c
   then privilege (take_trap cause tval irq c) = S \<and> sepc (csr (take_trap cause tval irq c)) = pc c \<and>
     drop_bit 8 (mstatus (csr (take_trap cause tval irq c)) AND MSTATUS_SPP) = level (privilege c) \<and>
     bit (mstatus (csr (take_trap cause tval irq c))) 5 = bit (mstatus (csr c)) 1
   else privilege (take_trap cause tval irq c) = M \<and> mepc (csr (take_trap cause tval irq c)) = pc c \<and>
     drop_bit 11 (mstatus (csr (take_trap cause tval irq c)) AND MSTATUS_MPP) = level (privilege c) \<and>
     bit (mstatus (csr (take_trap cause tval irq c))) 7 = bit (mstatus (csr c)) 3"
proof (cases "delegated cause irq c")
  case True
  then have "privilege c \<noteq> M" by (simp add: delegated_def)
  moreover have "\<not> bit (push_bit 8 (level (privilege c) AND 1)) 5" by (simp only: bit_push_bit_iff) simp
  ultimately show ?thesis
    using True unfolding take_trap_def Let_def to_s_delegated
    by (simp add: spp_field bit_and_iff bit_or_iff bit_not_iff del: push_bit_and drop_bit_and drop_bit_or)
next
  case False
  moreover have "\<not> bit (push_bit 11 (level (privilege c))) 7" by (simp add: bit_push_bit_iff)
  ultimately show ?thesis
    unfolding take_trap_def Let_def to_s_delegated
    by (simp add: mpp_field bit_and_iff bit_or_iff bit_not_iff del: drop_bit_and drop_bit_or)
qed

text \<open>
  C31.  Trap entry and return are inverse: after \<open>take_trap\<close>, for any cause, the return instruction of
  the mode that took the trap (\<open>sret\<close> when the cause was delegated to S mode, else \<open>mret\<close>)
  resumes at the interrupted program counter and privilege, with the registers and the
  interrupt-enable bit of that mode as they were, and leaves the memory alone.
\<close>

theorem trap_then_return:
  "\<exists>c'. (if delegated cause irq c then exec_sret else exec_mret) ip iw (take_trap cause tval irq c, s) =
       (Inr (EContinue, pc c), (c', s)) \<and>
     privilege c' = privilege c \<and> regs c' = regs c \<and>
     (if delegated cause irq c then bit (mstatus (csr c')) 1 = bit (mstatus (csr c)) 1
      else bit (mstatus (csr c')) 3 = bit (mstatus (csr c)) 3)"
proof -
  have r: "regs (take_trap cause tval irq c) = regs c" by (simp add: take_trap_def Let_def)
  show ?thesis
    using take_trap_fields [of cause irq c tval] r
      mret_effect [of "take_trap cause tval irq c" ip iw s] sret_effect [of "take_trap cause tval irq c" ip iw s]
    by (auto split: if_splits)
qed

section \<open>Taint\<close>

text \<open>
  Two values agree up to a byte-taint mask when they agree on every byte whose flag (bit \<open>8 * i\<close>)
  is clear; a rule is sound when results computed from operands that agree up to their masks agree
  up to the mask the rule gives.
\<close>

definition agree :: "u32 \<Rightarrow> u32 \<Rightarrow> u32 \<Rightarrow> bool" where
  "agree t x y \<longleftrightarrow> (\<forall>n<32. \<not> bit t (8 * (n div 8)) \<longrightarrow> bit x n = bit y n)"

definition taint_sound :: "(u32 \<Rightarrow> u32 \<Rightarrow> u32) \<Rightarrow> (u32 \<Rightarrow> u32 \<Rightarrow> u32) \<Rightarrow> bool" where
  "taint_sound f tf \<longleftrightarrow>
     (\<forall>a a' ta b b' tb. agree ta a a' \<and> agree tb b b' \<longrightarrow> agree (tf ta tb) (f a b) (f a' b'))"

lemma agree_0: "agree 0 x y \<longleftrightarrow> x = y"
  by (auto simp: agree_def intro: bit_word_eqI)

lemma agree_all: "agree 0xffffffff x y"
proof -
  have "bit (0xffffffff :: u32) k" if "k < 32" for k
  proof -
    have "(0xffffffff :: u32) = mask 32" by (simp add: mask_eq_exp_minus_1)
    then show ?thesis using that by (simp only: bit_mask_iff) simp
  qed
  moreover have "8 * (n div 8) < 32" if "n < 32" for n :: nat using that by linarith
  ultimately show ?thesis unfolding agree_def by blast
qed

text \<open>
  C36.  The taint rules of the bitwise operations and of the M extension are sound: however the
  uninitialised bytes of the operands are filled, the result's bytes that \<open>alu_taint\<close> (for \<open>xor\<close>,
  \<open>or\<close>, \<open>and\<close>) or \<open>muldiv_taint\<close> (for every operation) leaves untainted do not change.
\<close>

theorem taint_rules_sound:
  "taint_sound (alu AXor) (\<lambda>ta tb. alu_taint AXor x ta y tb) \<and>
   taint_sound (alu AOr) (\<lambda>ta tb. alu_taint AOr x ta y tb) \<and>
   taint_sound (alu AAnd) (\<lambda>ta tb. alu_taint AAnd x ta y tb) \<and>
   taint_sound (muldiv mop) (\<lambda>ta tb. muldiv_taint mop x ta y tb)"
proof -
  have "taint_sound (muldiv mop) (\<lambda>ta tb. muldiv_taint mop x ta y tb)"
    unfolding taint_sound_def muldiv_taint_def by (auto simp: agree_all agree_0)
  moreover have "taint_sound (alu AXor) (\<lambda>ta tb. alu_taint AXor x ta y tb)"
    "taint_sound (alu AOr) (\<lambda>ta tb. alu_taint AOr x ta y tb)"
    "taint_sound (alu AAnd) (\<lambda>ta tb. alu_taint AAnd x ta y tb)"
    by (auto simp: taint_sound_def agree_def alu_taint_def bit_simps)
  ultimately show ?thesis by blast
qed

text \<open>
  The rule of the comparisons is not sound: \<open>slt\<close> and \<open>sltu\<close> put their whole answer in byte 0,
  but \<open>alu_taint\<close> marks only the bytes that were uninitialised in the operands, so an
  uninitialised top byte decides an answer that is marked clean.
\<close>

lemma compare_taint_unsound:
  "\<not> taint_sound (alu ASlt) (\<lambda>ta tb. alu_taint ASlt x ta y tb) \<and>
   \<not> taint_sound (alu ASltu) (\<lambda>ta tb. alu_taint ASltu x ta y tb)"
proof -
  let ?t = "push_bit 24 1 :: u32"
  have top: "agree ?t 0 ?t" unfolding agree_def bit_push_one by auto
  have bot: "\<not> agree (?t OR 0) 1 0" unfolding agree_def or.right_neutral bit_push_one by (auto intro!: exI [of _ 0])
  have lt: "alu ASlt 0 1 = 1" "alu ASlt ?t 1 = 0" "alu ASltu 0 1 = 1" "alu ASltu ?t 1 = 0" by code_simp+
  have "\<not> taint_sound (alu op) (\<lambda>ta tb. ta OR tb)" if "alu op 0 1 = 1" "alu op ?t 1 = 0" for op
  proof
    assume "taint_sound (alu op) (\<lambda>ta tb. ta OR tb)"
    then have "agree (?t OR 0) (alu op 0 1) (alu op ?t 1)"
      unfolding taint_sound_def using top agree_0 by blast
    with bot that show False by simp
  qed
  then show ?thesis unfolding alu_taint_def using lt by blast
qed

end
