(* ===== verification/Invariance.thy ===== *)
theory Invariance
  imports Core
begin

text \<open>
  Invariants of the memory under the core.  The interface is the locale \<open>bus_inv\<close>: a predicate that
  the loads, stores and fetches of a bus keep.  As long as the taint shadow is off, these are all
  the calls the core makes that change the memory, so a full-system step keeps the predicate.
\<close>

lemma kmsan_enabled_updates [simp]:
  "kmsan_enabled (c\<lparr>tlb := t\<rparr>) = kmsan_enabled c" "kmsan_enabled (wr_reg i v c) = kmsan_enabled c"
  "kmsan_enabled (c\<lparr>csr := f\<rparr>) = kmsan_enabled c" "kmsan_enabled (c\<lparr>privilege := p\<rparr>) = kmsan_enabled c"
  "kmsan_enabled (c\<lparr>pc := a\<rparr>) = kmsan_enabled c" "kmsan_enabled (c\<lparr>insns_retired := n\<rparr>) = kmsan_enabled c"
  "kmsan_enabled (c\<lparr>reservation := r\<rparr>) = kmsan_enabled c" "kmsan_enabled (c\<lparr>kmsan_hit := k\<rparr>) = kmsan_enabled c"
  "kmsan_enabled (wr_taint i v c) = kmsan_enabled c" "kmsan_enabled (clear_taint i c) = kmsan_enabled c"
  "kmsan_enabled (cmplog_push x y c) = kmsan_enabled c" "kmsan_enabled (ubsan_push q c) = kmsan_enabled c"
  "kmsan_enabled (take_trap cause tval irq c) = kmsan_enabled c" "kmsan_enabled (update_timers c) = kmsan_enabled c"
  by (auto simp: kmsan_enabled_def wr_reg_def wr_taint_def clear_taint_def cmplog_push_def ubsan_push_def
      take_trap_def update_timers_def Let_def split: option.splits)

locale bus_inv =
  fixes I :: "'s \<Rightarrow> bool" and B :: "'s bus"
  assumes load_inv: "I s \<Longrightarrow> I (snd (bus_load B s a sz))"
    and store_inv: "I s \<Longrightarrow> I (snd (bus_store B s a sz v))"
    and ifetch_inv: "I s \<Longrightarrow> I (snd (bus_ifetch16 B s a))"
begin

text \<open>The predicate holds and the taint shadow is still off.\<close>

definition okI :: "'r \<times> 's hart \<Rightarrow> bool" where
  "okI x \<longleftrightarrow> I (snd (snd x)) \<and> \<not> kmsan_enabled (fst (snd x))"

lemma okI_pair [simp]: "okI (r, (c, s)) \<longleftrightarrow> I s \<and> \<not> kmsan_enabled c"
  by (simp add: okI_def)

lemma okI_bindR:
  assumes "okI x" "\<And>a c s. I s \<Longrightarrow> \<not> kmsan_enabled c \<Longrightarrow> okI (f a (c, s))"
  shows "okI (bindR x f)"
proof -
  obtain r c s where x: "x = (r, (c, s))" by (cases x) auto
  show ?thesis using assms by (cases r) (auto simp: x)
qed

lemma okI_if: "(b \<Longrightarrow> okI x) \<Longrightarrow> (\<not> b \<Longrightarrow> okI y) \<Longrightarrow> okI (if b then x else y)"
  by simp

lemma okI_bus:
  assumes "I s" "\<not> kmsan_enabled c"
  shows "okI (bus_ld B f a sz (c, s))" "okI (bus_st B f a sz v (c, s))" "okI (bus_if B f a (c, s))"
  using assms load_inv [OF assms(1), of a sz] store_inv [OF assms(1), of a sz v] ifetch_inv [OF assms(1), of a]
  by (simp_all add: bus_ld_def bus_st_def bus_if_def case_prod_beta)

lemma okI_xlate_leaf:
  "I s \<Longrightarrow> \<not> kmsan_enabled c \<Longrightarrow> okI (xlate_leaf B va ac p sm mxr lvl pa pte (c, s))"
  unfolding xlate_leaf_def Let_def by (auto intro!: okI_bindR okI_bus okI_if)

lemma okI_xlate_walk: "I s \<Longrightarrow> \<not> kmsan_enabled c \<Longrightarrow> okI (xlate_walk B va ac p sm mxr lvl a (c, s))"
proof (induction lvl arbitrary: a c s)
  case (Suc lvl)
  then show ?case
    unfolding xlate_walk.simps Let_def by (intro okI_bindR okI_bus) (simp_all add: okI_xlate_leaf Suc.IH)
qed simp

lemma okI_xlate: "I s \<Longrightarrow> \<not> kmsan_enabled c \<Longrightarrow> okI (xlate B va ac (c, s))"
  unfolding xlate_def by (auto simp: Let_def okI_xlate_walk split: option.splits)

lemma okI_load_bytes: "I s \<Longrightarrow> \<not> kmsan_enabled c \<Longrightarrow> okI (load_bytes B va is acc (c, s))"
proof (induction "is" arbitrary: acc c s)
  case (Cons i "is")
  then show ?case unfolding load_bytes.simps by (intro okI_bindR okI_xlate okI_bus) (simp_all add: Cons.IH)
qed simp

lemma okI_store_bytes: "I s \<Longrightarrow> \<not> kmsan_enabled c \<Longrightarrow> okI (store_bytes B va v is (c, s))"
proof (induction "is" arbitrary: c s)
  case (Cons i "is")
  then show ?case unfolding store_bytes.simps by (intro okI_bindR okI_xlate okI_bus) (simp_all add: Cons.IH)
qed simp

lemma okI_accesses:
  assumes "I s" "\<not> kmsan_enabled c"
  shows "okI (load_impl B va sz sg (c, s))" "okI (store_impl B va sz v (c, s))" "okI (fetch16 B va (c, s))"
  using assms unfolding load_impl_def store_impl_def fetch16_def
  by (auto intro!: okI_bindR okI_xlate okI_bus okI_load_bytes okI_store_bytes)

lemmas okI_intros = okI_bindR okI_if okI_accesses okI_xlate okI_bus

lemma okI_inst:
  assumes "I s" "\<not> kmsan_enabled c"
  shows "okI (exec_inst B i ip nx iw (c, s))"
proof (cases i)
  case (Csr op rd src a)
  then show ?thesis using assms by (simp add: exec_csr_def Let_def split: sum.splits)
next
  case (Load op rd rs1 imm)
  show ?thesis
    unfolding Load exec_inst.simps exec_load_def Let_def fst_conv
    by (rule okI_bindR [OF okI_accesses(1) [OF assms]]) simp
next
  case (Store op rs1 rs2 imm)
  have k: "kmsan_enabled c = False" using assms by simp
  show ?thesis
    unfolding Store exec_inst.simps exec_store_def Let_def fst_conv k
    by (rule okI_bindR [OF okI_accesses(2) [OF assms]]) simp
next
  case (LrW rd rs1 aq rl)
  show ?thesis
    unfolding LrW exec_inst.simps exec_lr_def Let_def fst_conv
    by (rule okI_bindR [OF okI_accesses(1) [OF assms]]) simp
next
  case (ScW rd rs1 rs2 aq rl)
  show ?thesis
    unfolding ScW exec_inst.simps exec_sc_def Let_def fst_conv
    by (intro okI_bindR okI_if okI_accesses assms) (simp_all add: assms)
next
  case (AmoW op rd rs1 rs2 aq rl)
  show ?thesis
    unfolding AmoW exec_inst.simps exec_amo_def Let_def fst_conv
    by (rule okI_bindR [OF okI_xlate [OF assms]], rule okI_bindR, rule okI_bus, assumption+)
      (auto intro!: okI_bindR okI_bus)
qed (use assms in \<open>auto simp: exec_lui_def exec_auipc_def exec_jal_def exec_jalr_def exec_op_imm_def exec_op_def
    exec_branch_def exec_mul_def exec_sfence_def exec_mret_def exec_sret_def Let_def\<close>)

lemma okI_step:
  assumes "I s" "\<not> kmsan_enabled c"
  shows "okI (step B (c, s))"
proof -
  have one: "okI (exec_one B i ip il iw (c', s'))" if "I s'" "\<not> kmsan_enabled c'" for i ip il iw c' s'
    unfolding exec_one_def by (rule okI_bindR [OF okI_inst [OF that]]) auto
  show ?thesis
    unfolding step_def Let_def fst_conv
    by (rule okI_bindR [OF okI_accesses(3) [OF assms]]) (auto intro!: okI_bindR okI_accesses(3) one)
qed

lemma okI_step_system:
  assumes "I s" "\<not> kmsan_enabled c"
  shows "okI (step_system B (c, s))"
proof -
  have fin: "kmsan_enabled (snd (finish_exit r d)) = kmsan_enabled d" for r d
    by (cases "(r, d)" rule: finish_exit.cases) simp_all
  obtain r c2 s2 where st: "step B (update_timers c, s) = (r, (c2, s2))"
    by (cases "step B (update_timers c, s)") auto
  have "okI (r, (c2, s2))" using okI_step [of s "update_timers c"] assms st by simp
  then show ?thesis
    using assms st fin [of r c2]
    by (auto simp: step_system_def poll_interrupt_def Let_def split: option.splits prod.splits)
qed

end

end
