(* ===== verification/Platform.thy ===== *)
theory Platform
  imports Invariance
begin

text \<open>
  The machines of \<open>crates/fs-platform/src/lib.rs\<close>: the CLINT and the UART, the routing of physical
  addresses to RAM and devices, \<open>Machine\<close> (flat RAM) and \<open>CowMachine\<close> (copy-on-write RAM) as two
  instances of one routing over the bus of their RAM, whole-machine snapshots, the single-hart
  driver loops, and the round-robin scheduler of several harts with cross-hart invalidation of
  reservations.
\<close>

section \<open>CLINT\<close>

definition CLINT_BASE :: u32 where "CLINT_BASE = 0x02000000"
definition CLINT_SIZE :: u32 where "CLINT_SIZE = 0x00010000"
definition CLINT_MSIP :: u32 where "CLINT_MSIP = 0x0000"
definition CLINT_MTIMECMP :: u32 where "CLINT_MTIMECMP = 0x4000"
definition CLINT_MTIME :: u32 where "CLINT_MTIME = 0xbff8"

record clint =
  cl_msip :: u32
  cl_mtimecmp :: u64
  cl_mtime :: u64
  cl_msip_extra :: "u32 list"
  cl_mtimecmp_extra :: "u64 list"

definition clint_default :: clint where
  "clint_default = \<lparr>cl_msip = 0, cl_mtimecmp = 0, cl_mtime = 0, cl_msip_extra = [], cl_mtimecmp_extra = []\<rparr>"

text \<open>\<open>v.get(i).copied().unwrap_or(d)\<close> and the update of \<open>v.get_mut(i)\<close>.\<close>

definition get_or :: "'a \<Rightarrow> 'a list \<Rightarrow> nat \<Rightarrow> 'a" where
  "get_or d xs i = (if i < length xs then xs ! i else d)"

definition upd_at :: "('a \<Rightarrow> 'a) \<Rightarrow> nat \<Rightarrow> 'a list \<Rightarrow> 'a list" where
  "upd_at f i xs = (if i < length xs then xs[i := f (xs ! i)] else xs)"

definition set_lo :: "u32 \<Rightarrow> u64 \<Rightarrow> u64" where
  "set_lo val v = (v AND 0xffffffff00000000) OR ucast val"

definition set_hi :: "u32 \<Rightarrow> u64 \<Rightarrow> u64" where
  "set_hi val v = (v AND 0xffffffff) OR push_bit 32 (ucast val)"

definition msip_window :: "u32 \<Rightarrow> bool" where
  "msip_window off \<longleftrightarrow> CLINT_MSIP + 4 \<le> off \<and> off < CLINT_MTIMECMP \<and> (off - CLINT_MSIP) mod 4 = 0"

definition mtimecmp_window :: "u32 \<Rightarrow> bool" where
  "mtimecmp_window off \<longleftrightarrow> CLINT_MTIMECMP + 8 \<le> off \<and> off < CLINT_MTIME"

definition clint_load :: "clint \<Rightarrow> u32 \<Rightarrow> nat \<Rightarrow> u32" where
  "clint_load c off sz =
     (if off = CLINT_MSIP then cl_msip c AND 1
      else if off = CLINT_MTIMECMP then ucast (cl_mtimecmp c)
      else if off = CLINT_MTIMECMP + 4 then ucast (drop_bit 32 (cl_mtimecmp c))
      else if off = CLINT_MTIME then ucast (cl_mtime c)
      else if off = CLINT_MTIME + 4 then ucast (drop_bit 32 (cl_mtime c))
      else if msip_window off then
        let h = unat ((off - CLINT_MSIP) div 4) in get_or 0 (cl_msip_extra c) (h - 1) AND 1
      else if mtimecmp_window off then
        let rel = off - CLINT_MTIMECMP; h = unat (rel div 8); v = get_or (- 1) (cl_mtimecmp_extra c) (h - 1)
        in if rel mod 8 = 0 then ucast v else ucast (drop_bit 32 v)
      else 0)"

definition clint_store :: "clint \<Rightarrow> u32 \<Rightarrow> u32 \<Rightarrow> clint" where
  "clint_store c off val =
     (if off = CLINT_MSIP then c\<lparr>cl_msip := val AND 1\<rparr>
      else if off = CLINT_MTIMECMP then c\<lparr>cl_mtimecmp := set_lo val (cl_mtimecmp c)\<rparr>
      else if off = CLINT_MTIMECMP + 4 then c\<lparr>cl_mtimecmp := set_hi val (cl_mtimecmp c)\<rparr>
      else if msip_window off then
        let h = unat ((off - CLINT_MSIP) div 4) in
        c\<lparr>cl_msip_extra := upd_at (\<lambda>_. val AND 1) (h - 1) (cl_msip_extra c)\<rparr>
      else if mtimecmp_window off then
        let rel = off - CLINT_MTIMECMP; h = unat (rel div 8) in
        c\<lparr>cl_mtimecmp_extra := upd_at (if rel mod 8 = 0 then set_lo val else set_hi val) (h - 1) (cl_mtimecmp_extra c)\<rparr>
      else c)"

section \<open>UART\<close>

definition UART_BASE :: u32 where "UART_BASE = 0x10000000"
definition UART_SIZE :: u32 where "UART_SIZE = 0x100"
definition UART_THR :: u32 where "UART_THR = 0"
definition UART_LSR :: u32 where "UART_LSR = 5"

record uart =
  ua_out :: "u8 list"

definition uart_load :: "uart \<Rightarrow> u32 \<Rightarrow> u32" where
  "uart_load u off = (if off = UART_LSR then 0x60 else 0)"

definition uart_store :: "uart \<Rightarrow> u32 \<Rightarrow> u32 \<Rightarrow> uart" where
  "uart_store u off val = (if off = UART_THR then u\<lparr>ua_out := ua_out u @ [ucast val]\<rparr> else u)"

section \<open>Routing\<close>

definition in_ram :: "u32 \<Rightarrow> u32 \<Rightarrow> u32 \<Rightarrow> bool" where
  "in_ram addr ram_base ram_end \<longleftrightarrow> ram_base \<le> addr \<and> addr < ram_end"

definition in_clint :: "u32 \<Rightarrow> bool" where
  "in_clint addr \<longleftrightarrow> CLINT_BASE \<le> addr \<and> addr < CLINT_BASE + CLINT_SIZE"

definition in_uart :: "u32 \<Rightarrow> bool" where
  "in_uart addr \<longleftrightarrow> UART_BASE \<le> addr \<and> addr < UART_BASE + UART_SIZE"

definition mmio_fault :: "u32 \<Rightarrow> nat \<Rightarrow> access \<Rightarrow> fault" where
  "mmio_fault addr sz ac = mk_fault addr (of_nat sz) ac Unmapped"

text \<open>
  \<open>Machine\<close> and \<open>CowMachine\<close> have the same fields but for the RAM and route alike; the routing is
  defined once, over the bus of the RAM.
\<close>

record 'r machine =
  m_ram :: 'r
  m_ram_base :: u32
  m_ram_end :: u32
  m_clint :: clint
  m_uart :: uart

definition dev_load :: "'r bus \<Rightarrow> 'r machine \<Rightarrow> u32 \<Rightarrow> nat \<Rightarrow> (fault + u32) \<times> 'r machine" where
  "dev_load RB m addr sz =
     (if in_clint addr then (Inr (clint_load (m_clint m) (addr - CLINT_BASE) sz), m)
      else if in_uart addr then (Inr (uart_load (m_uart m) (addr - UART_BASE)), m)
      else if in_ram addr (m_ram_base m) (m_ram_end m) then
        (case bus_load RB (m_ram m) addr sz of (r, ram) \<Rightarrow> (r, m\<lparr>m_ram := ram\<rparr>))
      else (Inl (mmio_fault addr sz Read), m))"

definition dev_store :: "'r bus \<Rightarrow> 'r machine \<Rightarrow> u32 \<Rightarrow> nat \<Rightarrow> u32 \<Rightarrow> (fault + unit) \<times> 'r machine" where
  "dev_store RB m addr sz val =
     (if in_clint addr then (Inr (), m\<lparr>m_clint := clint_store (m_clint m) (addr - CLINT_BASE) val\<rparr>)
      else if in_uart addr then (Inr (), m\<lparr>m_uart := uart_store (m_uart m) (addr - UART_BASE) val\<rparr>)
      else if in_ram addr (m_ram_base m) (m_ram_end m) then
        (case bus_store RB (m_ram m) addr sz val of (r, ram) \<Rightarrow> (r, m\<lparr>m_ram := ram\<rparr>))
      else (Inl (mmio_fault addr sz Write), m))"

definition dev_ifetch16 :: "'r bus \<Rightarrow> 'r machine \<Rightarrow> u32 \<Rightarrow> (fault + u16) \<times> 'r machine" where
  "dev_ifetch16 RB m addr =
     (if in_ram addr (m_ram_base m) (m_ram_end m) then
        (case bus_ifetch16 RB (m_ram m) addr of (r, ram) \<Rightarrow> (r, m\<lparr>m_ram := ram\<rparr>))
      else (Inl (mmio_fault addr 2 Exec), m))"

definition dev_read_raw_state :: "'r bus \<Rightarrow> 'r machine \<Rightarrow> u32 \<Rightarrow> nat \<Rightarrow> u32" where
  "dev_read_raw_state RB m addr len =
     (if in_ram addr (m_ram_base m) (m_ram_end m) then bus_read_raw_state RB (m_ram m) addr len else 0)"

definition dev_write_shadow :: "'r bus \<Rightarrow> 'r machine \<Rightarrow> u32 \<Rightarrow> nat \<Rightarrow> u32 \<Rightarrow> 'r machine" where
  "dev_write_shadow RB m addr len tm =
     (if in_ram addr (m_ram_base m) (m_ram_end m)
      then m\<lparr>m_ram := bus_write_shadow RB (m_ram m) addr len tm\<rparr> else m)"

definition dev_store_may_assert_interrupt :: "'r machine \<Rightarrow> u32 \<Rightarrow> nat \<Rightarrow> bool" where
  "dev_store_may_assert_interrupt m addr sz = in_clint addr"

definition dev_bus :: "'r bus \<Rightarrow> 'r machine bus" where
  "dev_bus RB = \<lparr>bus_load = dev_load RB, bus_store = dev_store RB, bus_ifetch16 = dev_ifetch16 RB,
     bus_read_raw_state = dev_read_raw_state RB, bus_write_shadow = dev_write_shadow RB,
     bus_store_may_assert_interrupt = dev_store_may_assert_interrupt\<rparr>"

text \<open>The machine with flat RAM.\<close>

type_synonym flat_machine = "mmu machine"

definition machine_new :: "u32 \<Rightarrow> u32 \<Rightarrow> flat_machine" where
  "machine_new ram_base ram_size = \<lparr>m_ram = mmu_new ram_base (unat ram_size), m_ram_base = ram_base,
     m_ram_end = ram_base + ram_size, m_clint = clint_default, m_uart = \<lparr>ua_out = []\<rparr>\<rparr>"

definition machine_new_smp :: "u32 \<Rightarrow> u32 \<Rightarrow> nat \<Rightarrow> flat_machine" where
  "machine_new_smp ram_base ram_size nharts =
     (let m = machine_new ram_base ram_size; extra = nharts - 1 in
      m\<lparr>m_clint := (m_clint m)\<lparr>cl_msip_extra := replicate extra 0, cl_mtimecmp_extra := replicate extra (- 1)\<rparr>\<rparr>)"

definition machine_bus :: "flat_machine bus" where
  "machine_bus = dev_bus mmu_bus"

definition machine_fast_ptr :: "flat_machine \<Rightarrow> u32 \<Rightarrow> nat \<Rightarrow> u8 \<Rightarrow> nat option \<times> flat_machine" where
  "machine_fast_ptr m addr len need =
     (if in_clint addr \<or> in_uart addr then (None, m)
      else case mmu_fast_ptr (m_ram m) addr len need of (r, ram) \<Rightarrow> (r, m\<lparr>m_ram := ram\<rparr>))"

text \<open>The machine of a lane: copy-on-write RAM over the golden image.\<close>

type_synonym cow_machine = "cow_ram machine"

definition cow_machine_from_golden :: "golden \<Rightarrow> u32 \<Rightarrow> u32 \<Rightarrow> cow_machine" where
  "cow_machine_from_golden g ram_base ram_size = \<lparr>m_ram = cow_new g, m_ram_base = ram_base,
     m_ram_end = ram_base + ram_size, m_clint = clint_default, m_uart = \<lparr>ua_out = []\<rparr>\<rparr>"

definition cow_machine_from_machine :: "flat_machine \<Rightarrow> cow_machine" where
  "cow_machine_from_machine m =
     (let g = from_mmu (m_ram m); ram_size = of_nat (g_size g) in cow_machine_from_golden g (m_ram_base m) ram_size)"

definition cow_machine_reset_case :: "cow_machine \<Rightarrow> cow_machine" where
  "cow_machine_reset_case m = m\<lparr>m_ram := cow_reset (m_ram m)\<rparr>"

definition cow_machine_bus :: "cow_machine bus" where
  "cow_machine_bus = dev_bus cow_bus"

section \<open>Snapshots\<close>

record snapshot =
  sn_gmem :: "u8 list"
  sn_gperms :: "u8 list"
  sn_cpu :: cpu
  sn_clint :: clint
  sn_uart_len :: nat

definition snapshot_capture :: "cpu \<Rightarrow> flat_machine \<Rightarrow> snapshot \<times> flat_machine" where
  "snapshot_capture c m =
     (let (mem, perms) = planes (m_ram m) in
      (\<lparr>sn_gmem = mem, sn_gperms = perms, sn_cpu = c, sn_clint = m_clint m, sn_uart_len = length (ua_out (m_uart m))\<rparr>,
       m\<lparr>m_ram := enable_dirty_tracking (m_ram m)\<rparr>))"

definition snapshot_reset :: "snapshot \<Rightarrow> cpu \<Rightarrow> flat_machine \<Rightarrow> cpu \<times> flat_machine" where
  "snapshot_reset sn c m =
     (sn_cpu sn, m\<lparr>m_ram := reset_dirty (sn_gmem sn) (sn_gperms sn) (m_ram m), m_clint := sn_clint sn,
        m_uart := (m_uart m)\<lparr>ua_out := take (sn_uart_len sn) (ua_out (m_uart m))\<rparr>\<rparr>)"

record snapshot_smp =
  ss_gmem :: "u8 list"
  ss_gperms :: "u8 list"
  ss_cpus :: "cpu list"
  ss_clint :: clint
  ss_uart_len :: nat

definition snapshot_smp_capture :: "cpu list \<Rightarrow> flat_machine \<Rightarrow> snapshot_smp \<times> flat_machine" where
  "snapshot_smp_capture cs m =
     (let (mem, perms) = planes (m_ram m) in
      (\<lparr>ss_gmem = mem, ss_gperms = perms, ss_cpus = cs, ss_clint = m_clint m, ss_uart_len = length (ua_out (m_uart m))\<rparr>,
       m\<lparr>m_ram := enable_dirty_tracking (m_ram m)\<rparr>))"

definition snapshot_smp_reset :: "snapshot_smp \<Rightarrow> cpu list \<Rightarrow> flat_machine \<Rightarrow> cpu list \<times> flat_machine" where
  "snapshot_smp_reset sn cs m =
     (ss_cpus sn, m\<lparr>m_ram := reset_dirty (ss_gmem sn) (ss_gperms sn) (m_ram m), m_clint := ss_clint sn,
        m_uart := (m_uart m)\<lparr>ua_out := take (ss_uart_len sn) (ua_out (m_uart m))\<rparr>\<rparr>)"

section \<open>The single-hart driver\<close>

datatype stop = Halted u32 | Hypercalled u32 | Budget

definition MIP_MSIP :: u32 where "MIP_MSIP = push_bit 3 1"

definition set_clint :: "u32 \<Rightarrow> u64 \<Rightarrow> cpu \<Rightarrow> cpu" where
  "set_clint sip cmp c =
     c\<lparr>csr := (csr c)\<lparr>mtimecmp := cmp,
        mip := if sip AND 1 \<noteq> 0 then mip (csr c) OR MIP_MSIP else mip (csr c) AND NOT MIP_MSIP\<rparr>\<rparr>"

definition apply_clint :: "cpu \<Rightarrow> clint \<Rightarrow> cpu" where
  "apply_clint c cl = set_clint (cl_msip cl) (cl_mtimecmp cl) c"

text \<open>One iteration of the driver loops: refresh the timer, sync it into the hart, step.\<close>

definition drive :: "'r machine bus \<Rightarrow> 'r machine hart \<Rightarrow> sys_exit \<times> 'r machine hart" where
  "drive B h = (case h of (c, m) \<Rightarrow>
     let m1 = m\<lparr>m_clint := (m_clint m)\<lparr>cl_mtime := virtual_time c\<rparr>\<rparr>;
         c1 = apply_clint c (m_clint m1)
     in step_system B (c1, m1))"

partial_function (option) run_until :: "u64 \<Rightarrow> flat_machine hart \<Rightarrow> (stop \<times> flat_machine hart) option" where
  "run_until deadline h =
     (if insns_retired (fst h) < deadline then
        (case drive machine_bus h of (ex, h1) \<Rightarrow>
          (case ex of
             SContinue \<Rightarrow> run_until deadline h1
           | SHalt code \<Rightarrow> Some (Halted code, h1)
           | SHypercall code \<Rightarrow> Some (Hypercalled code, h1)))
      else Some (Budget, h))"

partial_function (option) run_loop :: "u64 \<Rightarrow> flat_machine hart \<Rightarrow> (u32 option \<times> flat_machine hart) option" where
  "run_loop max_insns h =
     (if insns_retired (fst h) < max_insns then
        (case drive machine_bus h of (ex, h1) \<Rightarrow>
          (case ex of
             SHalt code \<Rightarrow> Some (Some code, h1)
           | SContinue \<Rightarrow> run_loop max_insns h1
           | SHypercall code \<Rightarrow> run_loop max_insns h1))
      else Some (None, h))"

section \<open>Several harts\<close>

definition apply_clint_hart :: "cpu \<Rightarrow> clint \<Rightarrow> nat \<Rightarrow> cpu" where
  "apply_clint_hart c cl h =
     (let (sip, cmp) = (if h = 0 then (cl_msip cl, cl_mtimecmp cl)
                        else (get_or 0 (cl_msip_extra cl) (h - 1), get_or (- 1) (cl_mtimecmp_extra cl) (h - 1)))
      in set_clint sip cmp c)"

text \<open>The machine with the spans of its successful stores, in order.\<close>

type_synonym recording = "flat_machine \<times> (u32 \<times> nat) list"

definition rec_store :: "recording \<Rightarrow> u32 \<Rightarrow> nat \<Rightarrow> u32 \<Rightarrow> (fault + unit) \<times> recording" where
  "rec_store r addr sz val =
     (case bus_store machine_bus (fst r) addr sz val of (res, m) \<Rightarrow>
        (res, (m, if res = Inr () then snd r @ [(addr, sz)] else snd r)))"

definition rec_bus :: "recording bus" where
  "rec_bus = \<lparr>bus_load = (\<lambda>r a sz. case bus_load machine_bus (fst r) a sz of (res, m) \<Rightarrow> (res, (m, snd r))),
     bus_store = rec_store,
     bus_ifetch16 = (\<lambda>r a. case bus_ifetch16 machine_bus (fst r) a of (res, m) \<Rightarrow> (res, (m, snd r))),
     bus_read_raw_state = (\<lambda>r a len. bus_read_raw_state machine_bus (fst r) a len),
     bus_write_shadow = (\<lambda>r a len tm. (bus_write_shadow machine_bus (fst r) a len tm, snd r)),
     bus_store_may_assert_interrupt = (\<lambda>r a sz. bus_store_may_assert_interrupt machine_bus (fst r) a sz)\<rparr>"

fun stop_of :: "sys_exit \<Rightarrow> stop option" where
  "stop_of SContinue = None"
| "stop_of (SHalt code) = Some (Halted code)"
| "stop_of (SHypercall code) = Some (Hypercalled code)"

definition smp_step :: "nat \<Rightarrow> u64 \<Rightarrow> recording hart \<Rightarrow> sys_exit \<times> recording hart" where
  "smp_step h tick x = (case x of (c, (m, ws)) \<Rightarrow>
     let m1 = m\<lparr>m_clint := (m_clint m)\<lparr>cl_mtime := tick\<rparr>\<rparr> in
     step_system rec_bus (apply_clint_hart c (m_clint m1) h, (m1, ws)))"

lemma tick_measure:
  fixes tick dl :: u64
  assumes "\<not> dl \<le> tick + 1"
  shows "unat (dl - tick - 2) < unat (dl - 1 - tick)"
proof -
  have nz: "dl - 1 - tick \<noteq> 0"
  proof
    assume "dl - 1 - tick = 0"
    then have "dl = tick + 1" by (metis diff_add_cancel right_minus_eq)
    with assms show False by simp
  qed
  have "dl - tick - 2 = (dl - 1 - tick) - 1" by simp
  moreover have "unat ((dl - 1 - tick) - 1) = unat (dl - 1 - tick) - 1" by (rule unat_minus_one [OF nz])
  moreover have "0 < unat (dl - 1 - tick)" using nz unat_gt_0 by blast
  ultimately show ?thesis by (metis diff_less zero_less_one)
qed

text \<open>One turn of hart \<open>h\<close>: at least one step, then as many as the quantum and the deadline allow.\<close>

function smp_turn :: "nat \<Rightarrow> u64 \<Rightarrow> u64 \<Rightarrow> u64 \<Rightarrow> recording hart \<Rightarrow> stop option \<times> u64 \<times> recording hart" where
  "smp_turn h td dl tick x =
     (case smp_step h tick x of (ex, x1) \<Rightarrow>
        if stop_of ex \<noteq> None \<or> td \<le> insns_retired (fst x1) \<or> dl \<le> tick + 1
        then (stop_of ex, tick + 1, x1)
        else smp_turn h td dl (tick + 1) x1)"
  by pat_completeness auto
termination
  by (relation "measure (\<lambda>(h, td, dl, tick, x). unat (dl - 1 - tick))") (auto simp: tick_measure)

declare smp_turn.simps [simp del]

definition invalidate_others :: "nat \<Rightarrow> (u32 \<times> nat) list \<Rightarrow> cpu list \<Rightarrow> cpu list" where
  "invalidate_others h ws cs =
     fold (\<lambda>(addr, len) cs.
        map (\<lambda>(i, c). if i \<noteq> h then invalidate_reservation addr (of_nat len) c else c) (enumerate 0 cs)) ws cs"

record smp =
  sp_cpus :: "cpu list"
  sp_machine :: flat_machine
  sp_stops :: "stop option list"
  sp_tick :: u64

definition is_hypercall :: "stop option \<Rightarrow> bool" where
  "is_hypercall s \<longleftrightarrow> (case s of Some (Hypercalled _) \<Rightarrow> True | _ \<Rightarrow> False)"

text \<open>The end of a turn: the hart is stored back, the others lose the reservations it broke.\<close>

definition smp_after_turn :: "nat \<Rightarrow> stop option \<times> u64 \<times> recording hart \<Rightarrow> smp \<Rightarrow> smp" where
  "smp_after_turn h t st = (case t of (s, tick, (c, (m, ws))) \<Rightarrow>
     \<lparr>sp_cpus = invalidate_others h ws ((sp_cpus st)[h := c]), sp_machine = m,
      sp_stops = (sp_stops st)[h := s], sp_tick = tick\<rparr>)"

text \<open>The \<open>for\<close> over the harts: True when the scheduler leaves its outer loop.\<close>

fun smp_for :: "u64 \<Rightarrow> u64 \<Rightarrow> bool \<Rightarrow> nat list \<Rightarrow> smp \<Rightarrow> bool \<times> smp" where
  "smp_for quantum dl soh [] st = (False, st)"
| "smp_for quantum dl soh (h # hs) st =
     (if sp_stops st ! h \<noteq> None then smp_for quantum dl soh hs st
      else
        let td = insns_retired (sp_cpus st ! h) + quantum;
            t = smp_turn h td dl (sp_tick st) (sp_cpus st ! h, (sp_machine st, []));
            st1 = smp_after_turn h t st in
        if (soh \<and> is_hypercall (fst t)) \<or> list_all (\<lambda>s. s \<noteq> None) (sp_stops st1) \<or> dl \<le> sp_tick st1
        then (True, st1)
        else smp_for quantum dl soh hs st1)"

partial_function (option) smp_outer :: "u64 \<Rightarrow> u64 \<Rightarrow> bool \<Rightarrow> smp \<Rightarrow> smp option" where
  "smp_outer quantum dl soh st =
     (case smp_for quantum dl soh [0 ..< length (sp_cpus st)] st of (brk, st1) \<Rightarrow>
        if brk then Some st1 else smp_outer quantum dl soh st1)"

definition stop_or_budget :: "stop option \<Rightarrow> stop" where
  "stop_or_budget s = (case s of Some x \<Rightarrow> x | None \<Rightarrow> Budget)"

definition run_smp ::
  "cpu list \<Rightarrow> flat_machine \<Rightarrow> u64 \<Rightarrow> u64 \<Rightarrow> bool \<Rightarrow> (stop list \<times> cpu list \<times> flat_machine) option" where
  "run_smp cpus m quantum dl soh =
     (if cpus = [] then Some ([], cpus, m)
      else map_option (\<lambda>st. (map stop_or_budget (sp_stops st), sp_cpus st, sp_machine st))
        (smp_outer quantum dl soh
          \<lparr>sp_cpus = cpus, sp_machine = m, sp_stops = replicate (length cpus) None, sp_tick = 0\<rparr>))"

section \<open>Several harts, with control-flow edges\<close>

text \<open>The calls of the closure \<open>on_edge\<close>, in order.\<close>

type_synonym edges = "(nat \<times> u32 \<times> u32) list"

definition edge_of :: "nat \<Rightarrow> u32 \<Rightarrow> sys_exit \<Rightarrow> u32 \<Rightarrow> edges" where
  "edge_of h prev ex cur =
     (if ex = SContinue \<and> cur \<noteq> prev + 4 \<and> cur \<noteq> prev + 2 then [(h, prev, cur)] else [])"

function smp_turn_edges ::
  "nat \<Rightarrow> u64 \<Rightarrow> u64 \<Rightarrow> u64 \<Rightarrow> recording hart \<Rightarrow> edges \<Rightarrow> (stop option \<times> u64 \<times> recording hart) \<times> edges" where
  "smp_turn_edges h td dl tick x es =
     (case smp_step h tick x of (ex, x1) \<Rightarrow>
        let es1 = es @ edge_of h (pc (fst x)) ex (pc (fst x1)) in
        if stop_of ex \<noteq> None \<or> td \<le> insns_retired (fst x1) \<or> dl \<le> tick + 1
        then ((stop_of ex, tick + 1, x1), es1)
        else smp_turn_edges h td dl (tick + 1) x1 es1)"
  by pat_completeness auto
termination
  by (relation "measure (\<lambda>(h, td, dl, tick, x, es). unat (dl - 1 - tick))") (auto simp: tick_measure)

declare smp_turn_edges.simps [simp del]

fun smp_for_edges :: "u64 \<Rightarrow> u64 \<Rightarrow> bool \<Rightarrow> nat list \<Rightarrow> smp \<Rightarrow> edges \<Rightarrow> (bool \<times> smp) \<times> edges" where
  "smp_for_edges quantum dl soh [] st es = ((False, st), es)"
| "smp_for_edges quantum dl soh (h # hs) st es =
     (if sp_stops st ! h \<noteq> None then smp_for_edges quantum dl soh hs st es
      else
        let td = insns_retired (sp_cpus st ! h) + quantum;
            (t, es1) = smp_turn_edges h td dl (sp_tick st) (sp_cpus st ! h, (sp_machine st, [])) es;
            st1 = smp_after_turn h t st in
        if (soh \<and> is_hypercall (fst t)) \<or> list_all (\<lambda>s. s \<noteq> None) (sp_stops st1) \<or> dl \<le> sp_tick st1
        then ((True, st1), es1)
        else smp_for_edges quantum dl soh hs st1 es1)"

partial_function (option) smp_outer_edges :: "u64 \<Rightarrow> u64 \<Rightarrow> bool \<Rightarrow> smp \<Rightarrow> edges \<Rightarrow> (smp \<times> edges) option" where
  "smp_outer_edges quantum dl soh st es =
     (case smp_for_edges quantum dl soh [0 ..< length (sp_cpus st)] st es of ((brk, st1), es1) \<Rightarrow>
        if brk then Some (st1, es1) else smp_outer_edges quantum dl soh st1 es1)"

definition run_smp_with_edges ::
  "cpu list \<Rightarrow> flat_machine \<Rightarrow> u64 \<Rightarrow> u64 \<Rightarrow> bool \<Rightarrow> ((stop list \<times> cpu list \<times> flat_machine) \<times> edges) option" where
  "run_smp_with_edges cpus m quantum dl soh =
     (if cpus = [] then Some (([], cpus, m), [])
      else map_option (\<lambda>(st, es). ((map stop_or_budget (sp_stops st), sp_cpus st, sp_machine st), es))
        (smp_outer_edges quantum dl soh
          \<lparr>sp_cpus = cpus, sp_machine = m, sp_stops = replicate (length cpus) None, sp_tick = 0\<rparr> []))"

end
