(* ===== verification/Machines.thy ===== *)
theory Machines
  imports Platform
begin

text \<open>
  What the machines of \<open>crates/fs-platform/src/lib.rs\<close> keep: the snapshot invariant of the flat machine
  under its bus, the simulation of the flat by the copy-on-write machine, and the driver loops.
\<close>

section \<open>The snapshot invariant\<close>

text \<open>
  Since a capture of \<open>(gmem, gperms, out)\<close>: RAM agrees with the capture outside its dirty blocks, and
  the console output extends the captured one.
\<close>

definition captured :: "u8 list \<Rightarrow> u8 list \<Rightarrow> mmu \<Rightarrow> u8 list \<Rightarrow> flat_machine \<Rightarrow> flat_machine \<Rightarrow> bool" where
  "captured gmem gperms ram0 out m0 m \<longleftrightarrow>
     snap_inv gmem gperms (m_ram m) \<and> mmu_base (m_ram m) = mmu_base ram0 \<and>
     (\<exists>more. ua_out (m_uart m) = out @ more) \<and>
     m_ram_base m = m_ram_base m0 \<and> m_ram_end m = m_ram_end m0"

lemma mmu_write_base: "mmu_wf m \<Longrightarrow> mmu_base (snd (mmu_write m addr d)) = mmu_base m"
proof -
  have "mmu_base (snd (write_loop addr len i bs m)) = mmu_base m" for addr len i bs m
    by (induction bs arbitrary: i m) (auto simp: write_loop_step split: option.splits)
  then show "mmu_wf m \<Longrightarrow> mmu_base (snd (mmu_write m addr d)) = mmu_base m"
    by (simp add: mmu_write_eq_bytewise write_bytewise_def)
qed

lemma mmu_store_captured:
  assumes "snap_inv g p m"
  shows "snap_inv g p (snd (mmu_store m a sz v)) \<and> mmu_base (snd (mmu_store m a sz v)) = mmu_base m"
proof -
  have wf: "mmu_wf m" using assms by (simp add: snap_inv_def)
  show ?thesis
    using mmu_write_snap_inv [OF assms] mmu_write_base [OF wf] assms
    by (auto simp: mmu_store_def write_u8_def write_u16_def write_u32_def check_align_def)
qed

interpretation snap: bus_inv "captured g p ram0 out m0" machine_bus for g p ram0 out m0
proof
  fix s :: flat_machine and a sz v
  assume I: "captured g p ram0 out m0 s"
  show "captured g p ram0 out m0 (snd (bus_load machine_bus s a sz))"
    using I by (auto simp: machine_bus_def dev_bus_def dev_load_def mmu_bus_def mmu_load_def captured_def)
  show "captured g p ram0 out m0 (snd (bus_ifetch16 machine_bus s a))"
    using I by (auto simp: machine_bus_def dev_bus_def dev_ifetch16_def mmu_bus_def mmu_ifetch16_def captured_def)
  have "snap_inv g p (m_ram s)" using I by (simp add: captured_def)
  from mmu_store_captured [OF this, of a sz v] I
  show "captured g p ram0 out m0 (snd (bus_store machine_bus s a sz v))"
    by (auto simp: machine_bus_def dev_bus_def dev_store_def mmu_bus_def captured_def uart_store_def
        case_prod_beta)
qed

text \<open>One driver iteration keeps it; so does a whole run, when it returns.\<close>

lemma apply_clint_kmsan [simp]: "kmsan_enabled (apply_clint c cl) = kmsan_enabled c"
  by (simp add: apply_clint_def set_clint_def)

lemma drive_captured:
  assumes "captured g p ram0 out m0 m" "\<not> kmsan_enabled c" "drive machine_bus (c, m) = (ex, (c', m'))"
  shows "captured g p ram0 out m0 m' \<and> \<not> kmsan_enabled c'"
proof -
  let ?m = "m\<lparr>m_clint := (m_clint m)\<lparr>cl_mtime := virtual_time c\<rparr>\<rparr>"
  have "captured g p ram0 out m0 ?m" using assms(1) by (simp add: captured_def)
  from snap.okI_step_system [OF this, of "apply_clint c (m_clint ?m)"] assms(2,3)
  show ?thesis by (simp add: drive_def Let_def)
qed

lemma run_until_invariant:
  assumes step: "\<And>h ex h'. J h \<Longrightarrow> drive machine_bus h = (ex, h') \<Longrightarrow> J h'"
    and "run_until dl h = Some (st, h')" "J h"
  shows "J h'"
proof -
  have "J h \<longrightarrow> J (snd r)" if "run_until dl h = Some r" for dl h r
  proof (rule run_until.raw_induct [of "\<lambda>dl h r. J h \<longrightarrow> J (snd r)", OF _ that])
    fix rec dl h r
    assume IH: "\<And>dl h r. rec dl h = Some r \<Longrightarrow> J h \<longrightarrow> J (snd r)"
      and body: "(if insns_retired (fst h) < dl
         then case drive machine_bus h of (SContinue, h1) \<Rightarrow> rec dl h1
           | (SHalt code, h1) \<Rightarrow> Some (Halted code, h1) | (SHypercall code, h1) \<Rightarrow> Some (Hypercalled code, h1)
         else Some (Budget, h)) = Some r"
    show "J h \<longrightarrow> J (snd r)"
    proof
      assume J: "J h"
      obtain ex h1 where d: "drive machine_bus h = (ex, h1)" by (cases "drive machine_bus h")
      show "J (snd r)"
        using body d step [OF J d] J IH [of dl h1 r] by (cases ex) (auto split: if_splits)
    qed
  qed
  from this [OF assms(2)] assms(3) show ?thesis by simp
qed

lemma run_until_captured:
  assumes "run_until dl (c, m) = Some (st, (c', m'))" "captured g p ram0 out m0 m" "\<not> kmsan_enabled c"
  shows "captured g p ram0 out m0 m' \<and> \<not> kmsan_enabled c'"
proof -
  let ?J = "\<lambda>h. captured g p ram0 out m0 (snd h) \<and> \<not> kmsan_enabled (fst h)"
  have "?J (c', m')"
  proof (rule run_until_invariant [of ?J, OF _ assms(1)])
    fix h ex h'
    assume "?J h" "drive machine_bus h = (ex, h')"
    then show "?J h'"
      using drive_captured [of g p ram0 out m0 "snd h" "fst h" ex "fst h'" "snd h'"] by simp
  qed (simp add: assms)
  then show ?thesis by simp
qed

lemma capture_captured:
  assumes "mmu_wf (m_ram m)" "snapshot_capture c m = (sn, m1)"
  shows "captured (sn_gmem sn) (sn_gperms sn) (m_ram m) (ua_out (m_uart m)) m m1"
  using enable_snap_inv [OF assms(1)] assms(2)
  by (auto simp: snapshot_capture_def planes_def captured_def enable_dirty_tracking_def Let_def)

text \<open>Resetting a machine that still satisfies the invariant gives the machine right after the capture.\<close>

lemma reset_captured:
  assumes "mmu_wf (m_ram m)" "snapshot_capture c m = (sn, m1)"
    "captured (sn_gmem sn) (sn_gperms sn) (m_ram m) (ua_out (m_uart m)) m m2"
  shows "snapshot_reset sn c2 m2 = (c, m1)"
proof -
  have sn: "sn_gmem sn = mmu_mem (m_ram m)" "sn_gperms sn = mmu_perms (m_ram m)" "sn_cpu sn = c"
    "sn_clint sn = m_clint m" "sn_uart_len sn = length (ua_out (m_uart m))"
    "m1 = m\<lparr>m_ram := enable_dirty_tracking (m_ram m)\<rparr>"
    using assms(2) by (auto simp: snapshot_capture_def planes_def)
  have "reset_dirty (mmu_mem (m_ram m)) (mmu_perms (m_ram m)) (m_ram m2) = enable_dirty_tracking (m_ram m)"
    using assms(1,3) by (intro snap_inv_after_capture) (simp_all add: captured_def sn)
  moreover have "take (length (ua_out (m_uart m))) (ua_out (m_uart m2)) = ua_out (m_uart m)"
    "m_ram_base m2 = m_ram_base m" "m_ram_end m2 = m_ram_end m"
    using assms(3) by (auto simp: captured_def)
  ultimately show ?thesis
    by (cases m; cases m2) (simp add: snapshot_reset_def sn)
qed

section \<open>The two machines step alike\<close>

definition mach_rel :: "('r \<Rightarrow> 't \<Rightarrow> bool) \<Rightarrow> 'r machine \<Rightarrow> 't machine \<Rightarrow> bool" where
  "mach_rel R m n \<longleftrightarrow> R (m_ram m) (m_ram n) \<and> m_ram_base m = m_ram_base n \<and> m_ram_end m = m_ram_end n \<and>
     m_clint m = m_clint n \<and> m_uart m = m_uart n"

context bus_sim
begin

lemma dev_sim: "bus_sim (mach_rel R) (dev_bus A) (dev_bus B)"
proof
  fix s :: "'s machine" and t :: "'t machine" and a :: u32 and n v m
  assume r: "mach_rel R s t"
  then have R: "R (m_ram s) (m_ram t)" by (simp add: mach_rel_def)
  show "rel_prod (=) (mach_rel R) (bus_load (dev_bus A) s a n) (bus_load (dev_bus B) t a n)"
    using r sim_load [OF R, of a n]
    by (auto simp: dev_bus_def dev_load_def mach_rel_def rel_prod_sel split: prod.splits)
  show "rel_prod (=) (mach_rel R) (bus_store (dev_bus A) s a n v) (bus_store (dev_bus B) t a n v)"
    using r sim_store [OF R, of a n v]
    by (auto simp: dev_bus_def dev_store_def mach_rel_def rel_prod_sel split: prod.splits)
  show "rel_prod (=) (mach_rel R) (bus_ifetch16 (dev_bus A) s a) (bus_ifetch16 (dev_bus B) t a)"
    using r sim_ifetch [OF R, of a]
    by (auto simp: dev_bus_def dev_ifetch16_def mach_rel_def rel_prod_sel split: prod.splits)
  show "bus_read_raw_state (dev_bus A) s a n = bus_read_raw_state (dev_bus B) t a n"
    using r sim_raw [OF R] by (auto simp: dev_bus_def dev_read_raw_state_def mach_rel_def)
  show "mach_rel R (bus_write_shadow (dev_bus A) s a n m) (bus_write_shadow (dev_bus B) t a n m)"
    if "natural_access a n"
    using r sim_shadow [OF R that] by (auto simp: dev_bus_def dev_write_shadow_def mach_rel_def)
qed

end

definition same_ram :: "mmu \<Rightarrow> cow_ram \<Rightarrow> bool" where
  "same_ram s t \<longleftrightarrow> mmu_wf s \<and> cow_wf t \<and> mmu_peek s = cow_peek t"

interpretation machines: bus_sim "mach_rel same_ram" machine_bus cow_machine_bus
  unfolding machine_bus_def cow_machine_bus_def same_ram_def [abs_def] by (rule flat_cow.dev_sim)

text \<open>The driver loop of either machine, cut after \<open>n\<close> iterations.\<close>

fun drive_n :: "'r machine bus \<Rightarrow> nat \<Rightarrow> 'r machine hart \<Rightarrow> sys_exit \<times> 'r machine hart" where
  "drive_n B 0 h = (SContinue, h)"
| "drive_n B (Suc n) h =
     (case drive B h of (ex, h1) \<Rightarrow> if ex = SContinue then drive_n B n h1 else (ex, h1))"

lemma drive_sim:
  assumes "mach_rel same_ram m n"
  shows "hsim True (mach_rel same_ram) (drive machine_bus (c, m)) (drive cow_machine_bus (c, n))"
proof -
  have "mach_rel same_ram (m\<lparr>m_clint := (m_clint m)\<lparr>cl_mtime := virtual_time c\<rparr>\<rparr>)
      (n\<lparr>m_clint := (m_clint n)\<lparr>cl_mtime := virtual_time c\<rparr>\<rparr>)" and "m_clint n = m_clint m"
    using assms by (simp_all add: mach_rel_def)
  then show ?thesis
    by (auto simp: drive_def Let_def intro!: machines.step_system_sim)
qed

lemma drive_n_sim:
  assumes "mach_rel same_ram m n"
  shows "hsim True (mach_rel same_ram) (drive_n machine_bus k (c, m)) (drive_n cow_machine_bus k (c, n))"
  using assms
proof (induction k arbitrary: c m n)
  case (Suc k)
  obtain ex c1 m1 where a: "drive machine_bus (c, m) = (ex, (c1, m1))" by (cases "drive machine_bus (c, m)") auto
  obtain ex' c2 n1 where b: "drive cow_machine_bus (c, n) = (ex', (c2, n1))"
    by (cases "drive cow_machine_bus (c, n)") auto
  have "ex' = ex" "c2 = c1" "mach_rel same_ram m1 n1"
    using drive_sim [OF Suc.prems, of c] a b by (auto simp: hsim_def obs_eq_def)
  then show ?case using Suc.IH [of m1 n1 c1] a b by (simp add: hsim_def)
qed (simp add: hsim_def)

lemma from_machine_rel:
  assumes "mmu_wf (m_ram m)" "unat (mmu_base (m_ram m)) mod 4 = 0"
    "m_ram_end m = m_ram_base m + of_nat (length (mmu_mem (m_ram m)))"
  shows "mach_rel same_ram (m\<lparr>m_clint := clint_default, m_uart := \<lparr>ua_out = []\<rparr>\<rparr>) (cow_machine_from_machine m)"
  using assms cow_new_wf [OF golden_wf_from_mmu [OF assms(1,2)]] cow_new_from_mmu_peek [OF assms(1,2)]
  by (simp add: mach_rel_def same_ram_def cow_machine_from_machine_def cow_machine_from_golden_def Let_def
      g_size_def from_mmu_def planes_def)

end
