(* ===== verification/Smp.thy ===== *)
theory Smp
  imports Machines
begin

text \<open>
  The round-robin scheduler of \<open>crates/fs-platform/src/lib.rs\<close>: it always returns, its
  edge-recording twin computes the same run, and the stores of one hart break the reservations of
  the others.
\<close>

section \<open>Termination\<close>

lemma tick_next:
  fixes tick dl :: u64
  assumes "tick < dl"
  shows "tick < tick + 1" "tick + 1 \<le> dl"
proof -
  have "unat tick < unat dl" using assms by (simp add: word_less_nat_alt)
  moreover have "unat dl < 2 ^ 64" using unsigned_less [of dl, where ?'a = nat] by simp
  ultimately have "unat (tick + 1) = unat tick + 1" by (simp add: unat_word_ariths)
  then show "tick < tick + 1" "tick + 1 \<le> dl"
    using \<open>unat tick < unat dl\<close> by (simp_all add: word_less_nat_alt word_le_nat_alt)
qed

lemma smp_turn_tick:
  "tick < dl \<Longrightarrow> smp_turn h td dl tick x = (s, tick', y) \<Longrightarrow> tick < tick' \<and> tick' \<le> dl"
proof (induction h td dl tick x rule: smp_turn.induct)
  case (1 h td dl tick x)
  obtain ex x1 where st: "smp_step h tick x = (ex, x1)" by (cases "smp_step h tick x")
  note next1 = tick_next [OF 1(2)]
  show ?case
  proof (cases "stop_of ex \<noteq> None \<or> td \<le> insns_retired (fst x1) \<or> dl \<le> tick + 1")
    case True
    then show ?thesis using 1(3) st next1 by (auto simp: smp_turn.simps [of h td dl tick x])
  next
    case False
    then have "smp_turn h td dl (tick + 1) x1 = (s, tick', y)" "tick + 1 < dl"
      using 1(3) st by (auto simp: smp_turn.simps [of h td dl tick x])
    then have "tick + 1 < tick' \<and> tick' \<le> dl" using 1(1) [OF st [symmetric] False] by simp
    then show ?thesis using next1(1) by (meson less_trans)
  qed
qed

lemma length_invalidate_others [simp]: "length (invalidate_others h ws cs) = length cs"
  unfolding invalidate_others_def by (induction ws arbitrary: cs) auto

text \<open>What a pass over the harts keeps when it does not leave the loop.\<close>

definition smp_live :: "u64 \<Rightarrow> smp \<Rightarrow> bool" where
  "smp_live dl st \<longleftrightarrow> length (sp_stops st) = length (sp_cpus st) \<and> sp_tick st < dl \<and>
     (\<exists>h < length (sp_cpus st). sp_stops st ! h = None)"

lemma smp_after_turn_live:
  assumes "smp_live dl st" "t = smp_turn h td dl (sp_tick st) x" "st1 = smp_after_turn h t st"
  shows "length (sp_cpus st1) = length (sp_cpus st)" "length (sp_stops st1) = length (sp_stops st)"
    "sp_tick st < sp_tick st1"
    "\<not> list_all (\<lambda>s. s \<noteq> None) (sp_stops st1) \<Longrightarrow> \<not> dl \<le> sp_tick st1 \<Longrightarrow> smp_live dl st1"
proof -
  obtain s tick c m ws where t: "t = (s, tick, (c, (m, ws)))" by (cases t) auto
  show "length (sp_cpus st1) = length (sp_cpus st)" "length (sp_stops st1) = length (sp_stops st)"
    using assms(3) t by (simp_all add: smp_after_turn_def)
  then show "\<not> list_all (\<lambda>s. s \<noteq> None) (sp_stops st1) \<Longrightarrow> \<not> dl \<le> sp_tick st1 \<Longrightarrow> smp_live dl st1"
    using assms(1) by (auto simp: smp_live_def list_all_length)
  have "sp_tick st < tick"
    using smp_turn_tick [of "sp_tick st" dl h td x s tick "(c, (m, ws))"] assms(1,2) t
    by (simp add: smp_live_def)
  then show "sp_tick st < sp_tick st1" using assms(3) t by (simp add: smp_after_turn_def)
qed

lemma smp_for_live:
  assumes "smp_live dl st" "smp_for q dl soh hs st = (False, st')"
  shows "smp_live dl st' \<and> length (sp_cpus st') = length (sp_cpus st) \<and> sp_tick st \<le> sp_tick st' \<and>
    ((\<exists>h \<in> set hs. sp_stops st ! h = None) \<longrightarrow> sp_tick st < sp_tick st')"
  using assms
proof (induction hs arbitrary: st)
  case (Cons h hs)
  show ?case
  proof (cases "sp_stops st ! h")
    case None
    let ?t = "smp_turn h (insns_retired (sp_cpus st ! h) + q) dl (sp_tick st) (sp_cpus st ! h, (sp_machine st, []))"
    let ?st1 = "smp_after_turn h ?t st"
    note after = smp_after_turn_live [OF Cons.prems(1) refl refl, of h "insns_retired (sp_cpus st ! h) + q"
        "(sp_cpus st ! h, (sp_machine st, []))"]
    have "\<not> list_all (\<lambda>s. s \<noteq> None) (sp_stops ?st1)" "\<not> dl \<le> sp_tick ?st1"
      "smp_for q dl soh hs ?st1 = (False, st')"
      using Cons.prems(2) None by (auto simp: Let_def split: if_splits)
    then show ?thesis using Cons.IH [OF after(4)] after(1,3) by auto
  next
    case (Some s)
    then show ?thesis using Cons by auto
  qed
qed simp

lemma smp_outer_step:
  assumes "smp_live dl st" "smp_for q dl soh [0 ..< length (sp_cpus st)] st = (False, st1)"
  shows "smp_live dl st1 \<and> unat dl - unat (sp_tick st1) < unat dl - unat (sp_tick st)"
proof -
  obtain h where "h < length (sp_cpus st)" "sp_stops st ! h = None" using assms(1) by (auto simp: smp_live_def)
  then have "smp_live dl st1" "sp_tick st < sp_tick st1"
    using smp_for_live [OF assms] by auto
  moreover have "sp_tick st1 < dl" using \<open>smp_live dl st1\<close> by (simp add: smp_live_def)
  ultimately show ?thesis by (simp add: word_less_nat_alt)
qed

section \<open>The recording twin\<close>

lemma smp_turn_edges_fst: "fst (smp_turn_edges h td dl tick x es) = smp_turn h td dl tick x"
proof (induction h td dl tick x es rule: smp_turn_edges.induct)
  case (1 h td dl tick x es)
  obtain ex x1 where st: "smp_step h tick x = (ex, x1)" by (cases "smp_step h tick x")
  then show ?case
    using 1 [OF st [symmetric] refl]
    by (subst smp_turn_edges.simps, subst smp_turn.simps) (simp add: Let_def)
qed

lemma smp_for_edges_fst: "fst (smp_for_edges q dl soh hs st es) = smp_for q dl soh hs st"
proof (induction hs arbitrary: st es)
  case (Cons h hs)
  let ?x = "(sp_cpus st ! h, (sp_machine st, []))" and ?td = "insns_retired (sp_cpus st ! h) + q"
  obtain t es1 where t: "smp_turn_edges h ?td dl (sp_tick st) ?x es = (t, es1)"
    by (cases "smp_turn_edges h ?td dl (sp_tick st) ?x es")
  then have "smp_turn h ?td dl (sp_tick st) ?x = t" using smp_turn_edges_fst [of h ?td dl "sp_tick st" ?x es] by simp
  then show ?case using t Cons.IH by (simp add: Let_def)
qed simp

lemma smp_outer_returns:
  assumes "smp_live dl st"
  shows "\<exists>st' es'. smp_outer q dl soh st = Some st' \<and> smp_outer_edges q dl soh st es = Some (st', es')"
  using assms
proof (induction "unat dl - unat (sp_tick st)" arbitrary: st es rule: less_induct)
  case less
  obtain brk st1 es1 where e: "smp_for_edges q dl soh [0 ..< length (sp_cpus st)] st es = ((brk, st1), es1)"
    by (metis prod.collapse)
  then have f: "smp_for q dl soh [0 ..< length (sp_cpus st)] st = (brk, st1)"
    using smp_for_edges_fst [of q dl soh "[0 ..< length (sp_cpus st)]" st es] by simp
  show ?case
  proof (cases brk)
    case True
    then show ?thesis using e f by (simp add: smp_outer.simps [of q dl soh st] smp_outer_edges.simps [of q dl soh st])
  next
    case False
    then have "smp_live dl st1 \<and> unat dl - unat (sp_tick st1) < unat dl - unat (sp_tick st)"
      using smp_outer_step [OF less.prems] f by simp
    then show ?thesis
      using less.hyps [of st1 es1] e f False
      by (simp add: smp_outer.simps [of q dl soh st] smp_outer_edges.simps [of q dl soh st])
  qed
qed

text \<open>With a deadline of zero the first turn already ends the run.\<close>

lemma smp_outer_returns_0:
  assumes "sp_cpus st \<noteq> []" "length (sp_stops st) = length (sp_cpus st)" "sp_stops st ! 0 = None"
  shows "\<exists>st' es'. smp_outer q 0 soh st = Some st' \<and> smp_outer_edges q 0 soh st es = Some (st', es')"
proof -
  obtain hs where hs: "[0 ..< length (sp_cpus st)] = 0 # hs" using assms(1) by (simp add: upt_conv_Cons)
  have "fst (smp_for q 0 soh [0 ..< length (sp_cpus st)] st)"
    unfolding hs using assms(3) by (simp add: Let_def)
  then obtain st1 es1 where e: "smp_for_edges q 0 soh [0 ..< length (sp_cpus st)] st es = ((True, st1), es1)"
    using smp_for_edges_fst [of q 0 soh "[0 ..< length (sp_cpus st)]" st es] by (metis prod.collapse)
  then have f: "smp_for q 0 soh [0 ..< length (sp_cpus st)] st = (True, st1)"
    using smp_for_edges_fst [of q 0 soh "[0 ..< length (sp_cpus st)]" st es] by simp
  show ?thesis using e f by (simp add: smp_outer.simps [of q 0 soh st] smp_outer_edges.simps [of q 0 soh st])
qed

lemma run_smp_both:
  "\<exists>r es. run_smp cpus m q dl soh = Some r \<and> run_smp_with_edges cpus m q dl soh = Some (r, es)"
proof (cases "cpus = []")
  case False
  let ?st = "\<lparr>sp_cpus = cpus, sp_machine = m, sp_stops = replicate (length cpus) None, sp_tick = 0\<rparr>"
  have "\<exists>st' es'. smp_outer q dl soh ?st = Some st' \<and> smp_outer_edges q dl soh ?st [] = Some (st', es')"
  proof (cases "dl = 0")
    case True
    then show ?thesis using smp_outer_returns_0 [of ?st q soh "[]"] False by simp
  next
    case dl: False
    have "smp_live dl ?st" using False dl by (auto simp: smp_live_def word_gt_0)
    then show ?thesis by (rule smp_outer_returns)
  qed
  then show ?thesis using False by (auto simp: run_smp_def run_smp_with_edges_def)
qed (simp add: run_smp_def run_smp_with_edges_def)

section \<open>Cross-hart invalidation\<close>

definition covers :: "u32 \<times> nat \<Rightarrow> u32 \<Rightarrow> bool" where
  "covers w r \<longleftrightarrow> unat (fst w) \<le> unat r \<and> unat r < unat (fst w) + unat (of_nat (snd w) :: u32)"

lemma invalidate_others_at:
  assumes "i < length cs" "i \<noteq> h"
  shows "invalidate_others h ws cs ! i = (cs ! i)\<lparr>reservation :=
    (case reservation (cs ! i) of None \<Rightarrow> None | Some r \<Rightarrow> if \<exists>w \<in> set ws. covers w r then None else Some r)\<rparr>"
  using assms(1)
proof (induction ws arbitrary: cs)
  case Nil
  then show ?case by (cases "cs ! i") (auto simp: invalidate_others_def split: option.splits)
next
  case (Cons w ws)
  let ?cs = "map (\<lambda>(i, c). if i \<noteq> h then invalidate_reservation (fst w) (of_nat (snd w)) c else c) (enumerate 0 cs)"
  have n: "?cs ! i = invalidate_reservation (fst w) (of_nat (snd w)) (cs ! i)"
    using Cons.prems assms(2) by (simp add: nth_enumerate_eq)
  have "invalidate_others h (w # ws) cs = invalidate_others h ws ?cs"
    by (simp add: invalidate_others_def case_prod_beta)
  then show ?case
    using Cons.IH [of ?cs] Cons.prems n
    by (cases "cs ! i") (auto simp: invalidate_reservation_def covers_def Let_def split: option.splits)
qed

lemma invalidate_others_own: "h < length cs \<Longrightarrow> invalidate_others h ws cs ! h = cs ! h"
  unfolding invalidate_others_def
proof (induction ws arbitrary: cs)
  case (Cons w ws)
  then show ?case
    using Cons.IH [of "map (\<lambda>(i, c). if i \<noteq> h then invalidate_reservation (fst w) (of_nat (snd w)) c else c) (enumerate 0 cs)"]
    by (simp add: case_prod_beta nth_enumerate_eq)
qed simp

section \<open>The stores of a turn\<close>

text \<open>
  A history of the turn, independent of the recording the scheduler keeps: the plain machine under a
  wrapper that writes down every store request with its outcome, and \<open>n\<close> steps of hart \<open>h\<close> over it with
  the timer refreshed as in the scheduler.
\<close>

type_synonym traced = "flat_machine \<times> (u32 \<times> nat \<times> (fault + unit)) list"

definition traced_bus :: "traced bus" where
  "traced_bus = \<lparr>bus_load = (\<lambda>r a sz. apsnd (\<lambda>m. (m, snd r)) (bus_load machine_bus (fst r) a sz)),
     bus_store = (\<lambda>r a sz v. case bus_store machine_bus (fst r) a sz v of (res, m) \<Rightarrow> (res, (m, snd r @ [(a, sz, res)]))),
     bus_ifetch16 = (\<lambda>r a. apsnd (\<lambda>m. (m, snd r)) (bus_ifetch16 machine_bus (fst r) a)),
     bus_read_raw_state = (\<lambda>r. bus_read_raw_state machine_bus (fst r)),
     bus_write_shadow = (\<lambda>r a len tm. (bus_write_shadow machine_bus (fst r) a len tm, snd r)),
     bus_store_may_assert_interrupt = (\<lambda>r. bus_store_may_assert_interrupt machine_bus (fst r))\<rparr>"

fun traced_steps :: "nat \<Rightarrow> u64 \<Rightarrow> nat \<Rightarrow> traced hart \<Rightarrow> traced hart" where
  "traced_steps h tick 0 x = x"
| "traced_steps h tick (Suc n) (c, (m, tr)) =
     (let m1 = m\<lparr>m_clint := (m_clint m)\<lparr>cl_mtime := tick\<rparr>\<rparr> in
      traced_steps h (tick + 1) n (snd (step_system traced_bus (apply_clint_hart c (m_clint m1) h, (m1, tr)))))"

definition spans_ok :: "(u32 \<times> nat \<times> (fault + unit)) list \<Rightarrow> (u32 \<times> nat) list" where
  "spans_ok tr = map (\<lambda>(a, sz, res). (a, sz)) (filter (\<lambda>(a, sz, res). res = Inr ()) tr)"

text \<open>The recording machine beside the traced one.\<close>

definition logged :: "recording \<Rightarrow> traced \<Rightarrow> bool" where
  "logged r t \<longleftrightarrow> fst t = fst r \<and> snd r = spans_ok (snd t)"

interpretation stores: bus_sim logged rec_bus traced_bus
  by unfold_locales (auto simp: logged_def rec_bus_def traced_bus_def rec_store_def spans_ok_def rel_prod_sel
    split: prod.splits)

text \<open>The turn is such a sequence of steps, and its recording is the list of the successful stores.\<close>

lemma smp_turn_traced:
  assumes "smp_turn h td dl tick (c, (m, spans_ok tr)) = (s, tick', (c', (m', ws)))"
  shows "\<exists>n tr'. traced_steps h tick (Suc n) (c, (m, tr)) = (c', (m', tr')) \<and> ws = spans_ok tr' \<and>
    tick' = tick + of_nat (Suc n)"
  using assms
proof (induction h td dl tick "(c, (m, spans_ok tr))" arbitrary: c m tr rule: smp_turn.induct)
  case (1 h td dl tick c m tr)
  let ?m = "m\<lparr>m_clint := (m_clint m)\<lparr>cl_mtime := tick\<rparr>\<rparr>"
  let ?c = "apply_clint_hart c (m_clint ?m) h"
  obtain ex c1 m1 w1 where st: "smp_step h tick (c, (m, spans_ok tr)) = (ex, (c1, (m1, w1)))" by (metis prod.collapse)
  obtain ex' c2 t1 where tr: "step_system traced_bus (?c, (?m, tr)) = (ex', (c2, t1))" by (metis prod.collapse)
  have "logged (?m, spans_ok tr) (?m, tr)" by (simp add: logged_def)
  from stores.step_system_sim [OF obs_eq_refl this, of True ?c] st tr
  have e: "c2 = c1" "logged (m1, w1) t1" by (auto simp: smp_step_def hsim_def obs_eq_def Let_def)
  then obtain tr1 where t1: "t1 = (m1, tr1)" "w1 = spans_ok tr1" by (cases t1) (auto simp: logged_def)
  have go: "traced_steps h tick (Suc n) (c, (m, tr)) = traced_steps h (tick + 1) n (c1, (m1, tr1))" for n
    using tr e t1 by (simp add: Let_def)
  show ?case
  proof (cases "stop_of ex \<noteq> None \<or> td \<le> insns_retired c1 \<or> dl \<le> tick + 1")
    case True
    then have "c' = c1" "m' = m1" "ws = w1" "tick' = tick + 1"
      using 1(2) st by (auto simp: smp_turn.simps [of h td dl tick])
    then show ?thesis using go [of 0] t1(2) by (intro exI [of _ 0] exI [of _ tr1]) simp
  next
    case False
    then have "smp_turn h td dl (tick + 1) (c1, (m1, spans_ok tr1)) = (s, tick', (c', (m', ws)))"
      using 1(2) st t1(2) by (auto simp: smp_turn.simps [of h td dl tick])
    with 1(1) [OF st [unfolded t1(2), symmetric]] False t1(2)
    obtain n tr' where "traced_steps h (tick + 1) (Suc n) (c1, (m1, tr1)) = (c', (m', tr'))" "ws = spans_ok tr'"
      "tick' = tick + 1 + of_nat (Suc n)" by auto
    then have "traced_steps h tick (Suc (Suc n)) (c, (m, tr)) = (c', (m', tr')) \<and> ws = spans_ok tr' \<and>
      tick' = tick + of_nat (Suc (Suc n))" using go [of "Suc n"] by simp
    then show ?thesis by blast
  qed
qed

end
