(* ===== verification/Platform_Results.thy ===== *)
theory Platform_Results
  imports Smp
begin

text \<open>
  What the platform promises: a snapshot reset undoes a run, the two machines run alike, the
  scheduler of several harts returns, its recording twin computes the same run, reservations are
  broken across harts, and the CLINT registers hold what is written to them.
\<close>

section \<open>Snapshots\<close>

text \<open>
  C4.  Resetting undoes a case: after \<open>Snapshot::capture\<close>, any run of the machine (with the taint
  shadow off) that returns, however it ends, is undone by \<open>Snapshot::reset\<close>: the hart, RAM contents
  and permissions, the CLINT and the console are exactly those right after the capture.
\<close>

theorem snapshot_reset_undoes_run:
  assumes "mmu_wf (m_ram m)" "\<not> kmsan_enabled c" "snapshot_capture c m = (sn, m1)"
    "run_until deadline (c, m1) = Some (st, (c2, m2))"
  shows "snapshot_reset sn c2 m2 = (c, m1)"
proof -
  have "captured (sn_gmem sn) (sn_gperms sn) (m_ram m) (ua_out (m_uart m)) m m2"
    using run_until_captured [OF assms(4) capture_captured [OF assms(1,3)] assms(2)] by simp
  from reset_captured [OF assms(1,3) this] show ?thesis .
qed

definition demo_machine :: flat_machine where
  "demo_machine = machine_new 0x80000000 64"

lemma demo_wf: "mmu_wf (m_ram demo_machine)"
  by (simp add: demo_machine_def machine_new_def mmu_wf_new)

theorem snapshot_reset_undoes_run_witness:
  "\<exists>sn m1. snapshot_capture (cpu_new 0x80000000) demo_machine = (sn, m1) \<and>
     run_until 0 (cpu_new 0x80000000, m1) = Some (Budget, (cpu_new 0x80000000, m1)) \<and>
     snapshot_reset sn (cpu_new 0x80000000) m1 = (cpu_new 0x80000000, m1)"
proof -
  let ?c = "cpu_new 0x80000000"
  obtain sn m1 where cap: "snapshot_capture ?c demo_machine = (sn, m1)" by (metis prod.collapse)
  have k: "\<not> kmsan_enabled ?c" by (simp add: cpu_new_def kmsan_enabled_def)
  have r: "run_until 0 (?c, m1) = Some (Budget, (?c, m1))" by (simp add: run_until.simps)
  from snapshot_reset_undoes_run [OF demo_wf k cap r] cap r show ?thesis by blast
qed

section \<open>The two machines\<close>

text \<open>
  C5.  A lane runs as the machine it was forked from, with its devices reset: \<open>CowMachine::from_machine\<close>
  copies RAM and gives the copy a fresh CLINT and an empty console.  For a machine whose RAM fills its
  window, with any CLINT and console, the fork and the machine with CLINT and console reset, from the
  same hart under the same driver loop, end every number of iterations with the same exit, hart, CLINT
  and console, and with RAM that shows the same bytes and permissions.
\<close>

theorem lane_runs_as_machine:
  assumes "mmu_wf (m_ram m)" "unat (mmu_base (m_ram m)) mod 4 = 0"
    "m_ram_end m = m_ram_base m + of_nat (length (mmu_mem (m_ram m)))"
    "drive_n machine_bus k (c, m\<lparr>m_clint := clint_default, m_uart := \<lparr>ua_out = []\<rparr>\<rparr>) = (ex, (c1, m1))"
    "drive_n cow_machine_bus k (c, cow_machine_from_machine m) = (ex', (c2, n1))"
  shows "ex' = ex \<and> c2 = c1 \<and> m_clint n1 = m_clint m1 \<and> m_uart n1 = m_uart m1 \<and>
    cow_peek (m_ram n1) = mmu_peek (m_ram m1)"
proof -
  have "mach_rel same_ram (m\<lparr>m_clint := clint_default, m_uart := \<lparr>ua_out = []\<rparr>\<rparr>) (cow_machine_from_machine m)"
    using from_machine_rel [OF assms(1-3)] .
  from drive_n_sim [OF this, of k c] assms(4,5) show ?thesis
    by (simp add: hsim_def obs_eq_def mach_rel_def same_ram_def)
qed

definition busy_machine :: flat_machine where
  "busy_machine = demo_machine\<lparr>m_clint := clint_default\<lparr>cl_mtimecmp := 5\<rparr>, m_uart := \<lparr>ua_out = [65]\<rparr>\<rparr>"

theorem lane_runs_as_machine_witness:
  "fst (drive_n machine_bus 10 (cpu_new 0x80000000, demo_machine)) =
   fst (drive_n cow_machine_bus 10 (cpu_new 0x80000000, cow_machine_from_machine busy_machine))"
proof -
  let ?c = "cpu_new 0x80000000"
  have fresh: "busy_machine\<lparr>m_clint := clint_default, m_uart := \<lparr>ua_out = []\<rparr>\<rparr> = demo_machine"
    by (simp add: busy_machine_def demo_machine_def machine_new_def)
  obtain ex c1 m1 where a: "drive_n machine_bus 10 (?c, demo_machine) = (ex, (c1, m1))" by (metis prod.collapse)
  obtain ex' c2 n1 where b: "drive_n cow_machine_bus 10 (?c, cow_machine_from_machine busy_machine) = (ex', (c2, n1))"
    by (metis prod.collapse)
  have "mmu_wf (m_ram busy_machine)" "unat (mmu_base (m_ram busy_machine)) mod 4 = 0"
    "m_ram_end busy_machine = m_ram_base busy_machine + of_nat (length (mmu_mem (m_ram busy_machine)))"
    using demo_wf by (simp_all add: busy_machine_def demo_machine_def machine_new_def mmu_new_def)
  from lane_runs_as_machine [OF this, unfolded fresh, OF a b] a b show ?thesis by simp
qed

section \<open>Several harts\<close>

text \<open>
  C6.  The scheduler always returns: for any harts, machine, quantum (zero included) and deadline,
  \<open>run_smp\<close> ends, because every turn takes at least one step and every step advances the global tick.
\<close>

theorem run_smp_returns: "\<exists>r. run_smp cpus m quantum deadline_ticks soh = Some r"
  using run_smp_both [of cpus m quantum deadline_ticks soh] by blast

text \<open>
  Recording edges does not change the run: \<open>run_smp_with_edges\<close> returns the stops and leaves the
  harts and the machine that \<open>run_smp\<close> does, from every start.
\<close>

lemma run_smp_edges_agree:
  "map_option fst (run_smp_with_edges cpus m quantum deadline_ticks soh) = run_smp cpus m quantum deadline_ticks soh"
  using run_smp_both [of cpus m quantum deadline_ticks soh] by auto








text \<open>
  Stores inside a reserved word may keep the reservation: a byte store at an offset of one to
  three into the word another hart has reserved leaves its reservation, because the test is whether
  the reserved address lies in the written span and not whether the spans overlap.
\<close>

lemma subword_store_keeps_reservation:
  assumes "reservation c = Some r" "unat r + 3 < 4294967296" "k \<in> {1, 2, 3}"
  shows "reservation (invalidate_reservation (r + of_nat k) 1 c) = Some r"
proof -
  have "k \<le> 3" using assms(3) by auto
  then have "unat (r + of_nat k) = unat r + k" using assms(2) by (intro unat_add_no_wrap) simp
  then show ?thesis using assms(1,3) by (auto simp: invalidate_reservation_def Let_def)
qed

section \<open>The driver loop\<close>

text \<open>
  A hart in a trap storm: in machine mode with machine interrupts off, at the base of its own trap
  vector, where the fetch of an instruction faults.
\<close>

definition storm :: "flat_machine hart \<Rightarrow> bool" where
  "storm h \<longleftrightarrow> (case h of (c, m) \<Rightarrow>
     privilege c = M \<and> mstatus (csr c) AND MSTATUS_MIE = 0 \<and> pc c = mtvec (csr c) AND NOT 3 \<and>
     (\<exists>f. fst (bus_ifetch16 machine_bus m (pc c)) = Inl f))"

lemma take_trap_M:
  assumes "privilege c = M"
  shows "privilege (take_trap cause tval irq c) = M" "insns_retired (take_trap cause tval irq c) = insns_retired c"
    "mstatus (csr (take_trap cause tval irq c)) AND MSTATUS_MIE = 0"
    "pc (take_trap cause tval irq c) = trap_vector (mtvec (csr c)) cause irq"
    "mtvec (csr (take_trap cause tval irq c)) = mtvec (csr c)"
proof -
  have no: "\<not> level (privilege c) \<le> level S" using assms by (simp add: word_le_nat_alt)
  have st: "((s1 AND NOT MSTATUS_MIE) AND NOT MSTATUS_MPP OR push_bit 11 y) AND MSTATUS_MIE = 0" for s1 y :: u32
    by (rule bit_word_eqI) (auto simp: bit_simps)
  obtain w x where "w AND MSTATUS_MIE = 0" "take_trap cause tval irq c =
      c\<lparr>csr := (csr c)\<lparr>mepc := pc c, mcause := x, mtval := tval, mstatus := w\<rparr>, privilege := M,
        pc := trap_vector (mtvec (csr c)) cause irq\<rparr>"
    unfolding take_trap_def Let_def using no st by (simp only: simp_thms if_False) blast
  then show "privilege (take_trap cause tval irq c) = M" "insns_retired (take_trap cause tval irq c) = insns_retired c"
    "mstatus (csr (take_trap cause tval irq c)) AND MSTATUS_MIE = 0"
    "pc (take_trap cause tval irq c) = trap_vector (mtvec (csr c)) cause irq"
    "mtvec (csr (take_trap cause tval irq c)) = mtvec (csr c)"
    by simp_all
qed

lemma ifetch_clint: "fst (bus_ifetch16 machine_bus (m\<lparr>m_clint := cl\<rparr>) a) = fst (bus_ifetch16 machine_bus m a)"
  "snd (bus_ifetch16 machine_bus m a) = m"
  by (simp_all add: machine_bus_def dev_bus_def dev_ifetch16_def mmu_bus_def mmu_ifetch16_def split: prod.split)

text \<open>The first trap to an unexecutable vector starts the storm.\<close>

lemma trap_starts_storm:
  assumes "privilege c = M" "fst (bus_ifetch16 machine_bus m (mtvec (csr c) AND NOT 3)) = Inl f"
  shows "storm (take_trap cause tval False c, m)"
  using assms take_trap_M [OF assms(1), of cause tval False] by (simp add: storm_def trap_vector_def)

text \<open>A hart in machine mode whose fetch faults, and whose trap vector would fault too, enters it.\<close>

lemma fetch_fault_drive:
  assumes "privilege c = M" "mstatus (csr c) AND MSTATUS_MIE = 0" "fst (bus_ifetch16 machine_bus m (pc c)) = Inl f"
    "fst (bus_ifetch16 machine_bus m (mtvec (csr c) AND NOT 3)) = Inl f'"
  shows "\<exists>h'. drive machine_bus (c, m) = (SContinue, h') \<and> storm h' \<and> insns_retired (fst h') = insns_retired c"
proof -
  let ?m = "m\<lparr>m_clint := (m_clint m)\<lparr>cl_mtime := virtual_time c\<rparr>\<rparr>"
  let ?c = "update_timers (apply_clint c (m_clint ?m))"
  have c: "privilege ?c = M" "mtvec (csr ?c) = mtvec (csr c)" "mstatus (csr ?c) AND MSTATUS_MIE = 0"
    "insns_retired ?c = insns_retired c" "pc ?c = pc c"
    using assms by (simp_all add: apply_clint_def set_clint_def update_timers_def Let_def)
  have f: "bus_ifetch16 machine_bus ?m (pc ?c) = (Inl f, ?m)"
    using assms(3) c(5) ifetch_clint(1) [of "m_clint ?m" m "pc c"] ifetch_clint(2) [of ?m "pc c"]
    by (simp add: prod_eq_iff)
  have "\<not> interrupt_enabled ?c code" for code using c by (simp add: interrupt_enabled_def)
  then have "pending_interrupt ?c = None" by (simp add: pending_interrupt_def Let_def find_None_iff)
  moreover have "step machine_bus (?c, ?m) = (Inl (TMem f), (?c, ?m))"
    using c(1) f by (simp add: step_def fetch16_def xlate_def untranslated_def effective_priv_def bus_if_def Let_def)
  ultimately have "drive machine_bus (c, m) = (SContinue, (take_trap (mem_cause f) (flt_addr f) False ?c, ?m))"
    by (simp add: drive_def Let_def step_system_def poll_interrupt_def)
  moreover have "fst (bus_ifetch16 machine_bus ?m (mtvec (csr ?c) AND NOT 3)) = Inl f'"
    using assms(4) c(2) by (simp add: ifetch_clint(1))
  then have "storm (take_trap (mem_cause f) (flt_addr f) False ?c, ?m)" by (rule trap_starts_storm [OF c(1)])
  ultimately show ?thesis using take_trap_M(2) [OF c(1)] c(4) by simp
qed

lemma storm_drive:
  assumes "storm h"
  shows "\<exists>h'. drive machine_bus h = (SContinue, h') \<and> storm h' \<and> insns_retired (fst h') = insns_retired (fst h)"
  using assms fetch_fault_drive [of "fst h" "snd h"] by (auto simp: storm_def split: prod.splits)

text \<open>
  C40.  The budget does not bound a trap storm.  Once the driver loop has brought a hart, within its
  budget, to machine mode with machine interrupts off at the base of its trap vector, where an
  instruction fetch faults (the state a trap to an unexecutable vector leaves), \<open>run_until\<close> never
  returns, because a trapped step retires nothing and the loop counts only retired instructions.
\<close>

theorem run_until_trap_storm:
  assumes "drive_n machine_bus k h = (SContinue, h')" "storm h'"
    "\<forall>j \<le> k. insns_retired (fst (snd (drive_n machine_bus j h))) < deadline"
  shows "run_until deadline h = None"
proof -
  have "insns_retired (fst h) < dl \<longrightarrow> \<not> storm h" if "run_until dl h = Some r" for dl h r
  proof (rule run_until.raw_induct [of "\<lambda>dl h r. insns_retired (fst h) < dl \<longrightarrow> \<not> storm h", OF _ that])
    fix rec dl h r
    assume IH: "\<And>dl h r. rec dl h = Some r \<Longrightarrow> insns_retired (fst h) < dl \<longrightarrow> \<not> storm h"
      and body: "(if insns_retired (fst h) < dl
         then case drive machine_bus h of (SContinue, h1) \<Rightarrow> rec dl h1
           | (SHalt code, h1) \<Rightarrow> Some (Halted code, h1) | (SHypercall code, h1) \<Rightarrow> Some (Hypercalled code, h1)
         else Some (Budget, h)) = Some r"
    show "insns_retired (fst h) < dl \<longrightarrow> \<not> storm h"
    proof (intro impI notI)
      assume dl: "insns_retired (fst h) < dl" and h: "storm h"
      obtain h' where d: "drive machine_bus h = (SContinue, h')" "storm h'" "insns_retired (fst h') = insns_retired (fst h)"
        using storm_drive [OF h] by blast
      then have "rec dl h' = Some r" using body dl by simp
      with IH dl d(2,3) show False by metis
    qed
  qed
  then have base: "run_until deadline h = None" if "storm h" "insns_retired (fst h) < deadline" for h
    using that by (cases "run_until deadline h") auto
  show ?thesis using assms
  proof (induction k arbitrary: h)
    case 0
    then show ?case using base [of h] by simp
  next
    case (Suc k)
    obtain ex h1 where d: "drive machine_bus h = (ex, h1)" by (cases "drive machine_bus h")
    then have ex: "ex = SContinue" and rest: "drive_n machine_bus k h1 = (SContinue, h')"
      using Suc.prems(1) by (auto split: if_splits)
    have "insns_retired (fst (snd (drive_n machine_bus j h1))) < deadline" if "j \<le> k" for j
      using Suc.prems(3) [rule_format, of "Suc j"] that d ex by simp
    then have "run_until deadline h1 = None" using Suc.IH [OF rest Suc.prems(2)] by blast
    moreover have "insns_retired (fst h) < deadline" using Suc.prems(3) [rule_format, of 0] by simp
    ultimately show ?case using d ex by (simp add: run_until.simps [of deadline h])
  qed
qed

text \<open>A hart that starts outside RAM, with the trap vector at address zero.\<close>

theorem run_until_trap_storm_witness: "run_until 1000000 (cpu_new 0x40, demo_machine) = None"
proof -
  have c: "privilege (cpu_new 0x40) = M" "mstatus (csr (cpu_new 0x40)) AND MSTATUS_MIE = 0" "pc (cpu_new 0x40) = 0x40"
    "mtvec (csr (cpu_new 0x40)) = 0" "insns_retired (cpu_new 0x40) = 0"
    by (simp_all add: cpu_new_def csr_default_def)
  have "fst (bus_ifetch16 machine_bus demo_machine 0x40) = Inl (mmio_fault 0x40 2 Exec)"
    "fst (bus_ifetch16 machine_bus demo_machine 0) = Inl (mmio_fault 0 2 Exec)"
    by (simp_all add: machine_bus_def dev_bus_def dev_ifetch16_def demo_machine_def machine_new_def in_ram_def)
  then obtain h where "drive machine_bus (cpu_new 0x40, demo_machine) = (SContinue, h)" "storm h" "insns_retired (fst h) = 0"
    using fetch_fault_drive [OF c(1,2), of demo_machine "mmio_fault 0x40 2 Exec" "mmio_fault 0 2 Exec"] c(3-5) by auto
  then show ?thesis using c(5) by (intro run_until_trap_storm [of 1]) (auto simp: le_Suc_eq)
qed

section \<open>CLINT\<close>

lemma hart_reg:
  assumes "h < 4095"
  shows "unat (CLINT_MTIMECMP + 8 * of_nat h) = 0x4000 + 8 * h" "unat (CLINT_MTIMECMP + 8 * of_nat h + 4) = 0x4004 + 8 * h"
proof -
  have "unat (of_nat (8 * h) :: u32) = 8 * h" using assms by (intro unat_of_nat_u32) simp
  moreover have "(8 * of_nat h :: u32) = of_nat (8 * h)" by simp
  ultimately have e: "unat (8 * of_nat h :: u32) = 8 * h" by metis
  then show a: "unat (CLINT_MTIMECMP + 8 * of_nat h) = 0x4000 + 8 * h"
    using assms by (simp add: CLINT_MTIMECMP_def unat_word_ariths)
  then show "unat (CLINT_MTIMECMP + 8 * of_nat h + 4) = 0x4004 + 8 * h"
    using assms unat_add_no_wrap [of "CLINT_MTIMECMP + 8 * of_nat h" 4] by simp
qed

lemma clint_hart_reg:
  assumes "h < 4095" "0 < h"
  defines "lo_off \<equiv> CLINT_MTIMECMP + 8 * of_nat h" 
  shows "clint_store c lo_off v = c\<lparr>cl_mtimecmp_extra := upd_at (set_lo v) (h - 1) (cl_mtimecmp_extra c)\<rparr>"
    "clint_store c (lo_off + 4) v = c\<lparr>cl_mtimecmp_extra := upd_at (set_hi v) (h - 1) (cl_mtimecmp_extra c)\<rparr>"
    "clint_load c lo_off 4 = ucast (get_or (- 1) (cl_mtimecmp_extra c) (h - 1))"
    "clint_load c (lo_off + 4) 4 = ucast (drop_bit 32 (get_or (- 1) (cl_mtimecmp_extra c) (h - 1)))"
proof -
  note u = hart_reg [OF assms(1), folded lo_off_def]
  have "unat (lo_off - CLINT_MTIMECMP) = 8 * h" "unat (lo_off + 4 - CLINT_MTIMECMP) = 8 * h + 4"
    by (subst unat_sub; simp add: word_le_nat_alt u CLINT_MTIMECMP_def)+
  then have rel: "unat ((lo_off - CLINT_MTIMECMP) div 8) = h" "(lo_off - CLINT_MTIMECMP) mod 8 = 0"
    "unat ((lo_off + 4 - CLINT_MTIMECMP) div 8) = h" "(lo_off + 4 - CLINT_MTIMECMP) mod 8 \<noteq> 0"
    by (simp_all add: unat_div word_unat_eq_iff unat_mod)
  have cu: "unat CLINT_MSIP = 0" "unat (CLINT_MSIP + 4) = 4" "unat CLINT_MTIMECMP = 16384"
    "unat (CLINT_MTIMECMP + 4) = 16388" "unat (CLINT_MTIMECMP + 8) = 16392" "unat CLINT_MTIME = 49144"
    "unat (CLINT_MTIME + 4) = 49148"
    by (simp_all add: CLINT_MSIP_def CLINT_MTIMECMP_def CLINT_MTIME_def)
  have ne: "lo_off \<noteq> CLINT_MSIP" "lo_off \<noteq> CLINT_MTIMECMP" "lo_off \<noteq> CLINT_MTIMECMP + 4" "lo_off \<noteq> CLINT_MTIME"
     "lo_off \<noteq> CLINT_MTIME + 4" "\<not> msip_window lo_off" "mtimecmp_window lo_off"
     "lo_off + 4 \<noteq> CLINT_MSIP" "lo_off + 4 \<noteq> CLINT_MTIMECMP" "lo_off + 4 \<noteq> CLINT_MTIMECMP + 4" "lo_off + 4 \<noteq> CLINT_MTIME"
     "lo_off + 4 \<noteq> CLINT_MTIME + 4" "\<not> msip_window (lo_off + 4)" "mtimecmp_window (lo_off + 4)"
    using assms(1,2)
    by (simp_all only: word_unat_eq_iff word_le_nat_alt word_less_nat_alt msip_window_def mtimecmp_window_def u cu)
      simp_all
  show "clint_store c lo_off v = c\<lparr>cl_mtimecmp_extra := upd_at (set_lo v) (h - 1) (cl_mtimecmp_extra c)\<rparr>"
    "clint_store c (lo_off + 4) v = c\<lparr>cl_mtimecmp_extra := upd_at (set_hi v) (h - 1) (cl_mtimecmp_extra c)\<rparr>"
    unfolding clint_store_def using ne rel by (simp_all only: if_False if_True Let_def simp_thms)
  show "clint_load c lo_off 4 = ucast (get_or (- 1) (cl_mtimecmp_extra c) (h - 1))"
    "clint_load c (lo_off + 4) 4 = ucast (drop_bit 32 (get_or (- 1) (cl_mtimecmp_extra c) (h - 1)))"
    unfolding clint_load_def using ne rel by (simp_all only: if_False if_True Let_def simp_thms)
qed

lemma halves:
  "set_hi hi (set_lo lo v) = push_bit 32 (ucast hi) OR ucast lo"
  "ucast (push_bit 32 (ucast hi) OR ucast lo :: u64) = (lo :: u32)"
  "ucast (drop_bit 32 (push_bit 32 (ucast hi) OR ucast lo :: u64)) = (hi :: u32)"
proof -
  have m: "bit (0xffffffff :: u64) n \<longleftrightarrow> n < 32" "bit (0xffffffff00000000 :: u64) n \<longleftrightarrow> 32 \<le> n \<and> n < 64" for n
  proof -
    have "(0xffffffff :: u64) = mask 32" "(0xffffffff00000000 :: u64) = NOT (mask 32)" by (simp_all add: mask_eq_exp_minus_1)
    then show "bit (0xffffffff :: u64) n \<longleftrightarrow> n < 32" "bit (0xffffffff00000000 :: u64) n \<longleftrightarrow> 32 \<le> n \<and> n < 64"
      by (simp_all only: bit_mask_iff bit_not_iff) auto
  qed
  show "set_hi hi (set_lo lo v) = push_bit 32 (ucast hi) OR ucast lo"
    by (rule bit_word_eqI)
      (auto simp: set_hi_def set_lo_def bit_simps m simp del: bit_numeral_word_iff dest: bit_imp_le_length)
  show "ucast (push_bit 32 (ucast hi) OR ucast lo :: u64) = (lo :: u32)"
    by (rule bit_word_eqI) (auto simp: bit_simps)
  show "ucast (drop_bit 32 (push_bit 32 (ucast hi) OR ucast lo :: u64)) = (hi :: u32)"
    by (rule bit_word_eqI) (auto simp: bit_simps dest: bit_imp_le_length)
qed
lemma clint_route:
  assumes "unat off < 0x10000"
  shows "dev_store RB m (CLINT_BASE + off) sz v = (Inr (), m\<lparr>m_clint := clint_store (m_clint m) off v\<rparr>)"
    "dev_load RB m (CLINT_BASE + off) sz = (Inr (clint_load (m_clint m) off sz), m)"
proof -
  have "unat (CLINT_BASE + off) = 0x2000000 + unat off"
    using assms by (simp add: CLINT_BASE_def unat_word_ariths)
  then have "in_clint (CLINT_BASE + off)"
    using assms by (simp add: in_clint_def word_le_nat_alt word_less_nat_alt) (simp add: CLINT_BASE_def CLINT_SIZE_def)
  then show "dev_store RB m (CLINT_BASE + off) sz v = (Inr (), m\<lparr>m_clint := clint_store (m_clint m) off v\<rparr>)"
    "dev_load RB m (CLINT_BASE + off) sz = (Inr (clint_load (m_clint m) off sz), m)"
    by (simp_all add: dev_store_def dev_load_def)
qed

lemma clint_hart0_reg:
  "clint_store c CLINT_MTIMECMP v = c\<lparr>cl_mtimecmp := set_lo v (cl_mtimecmp c)\<rparr>"
  "clint_store c (CLINT_MTIMECMP + 4) v = c\<lparr>cl_mtimecmp := set_hi v (cl_mtimecmp c)\<rparr>"
  "clint_load c CLINT_MTIMECMP 4 = ucast (cl_mtimecmp c)"
  "clint_load c (CLINT_MTIMECMP + 4) 4 = ucast (drop_bit 32 (cl_mtimecmp c))"
  by (simp_all add: clint_store_def clint_load_def CLINT_MTIMECMP_def CLINT_MSIP_def)

text \<open>
  Each hart's timer compare is its own 64-bit register: writing the low and then the high word
  of hart \<open>h\<close>'s window through the bus of a machine with registers for it is read back from the
  two addresses, and is the compare value the scheduler gives the hart before its next step.
\<close>

lemma clint_mtimecmp_roundtrip:
  assumes "h < 4095" "h \<le> length (cl_mtimecmp_extra (m_clint m))"
    "lo_addr = CLINT_BASE + (CLINT_MTIMECMP + 8 * of_nat h)"
    "m1 = snd (dev_store RB m lo_addr 4 lo)" "m2 = snd (dev_store RB m1 (lo_addr + 4) 4 hi)"
  shows "dev_load RB m2 lo_addr 4 = (Inr lo, m2) \<and> dev_load RB m2 (lo_addr + 4) 4 = (Inr hi, m2) \<and>
    mtimecmp (csr (apply_clint_hart c (m_clint m2) h)) = push_bit 32 (ucast hi) OR ucast lo"
proof -
  let ?off = "CLINT_MTIMECMP + 8 * of_nat h"
  have u: "unat ?off < 0x10000" "unat (?off + 4) < 0x10000" using hart_reg [OF assms(1)] assms(1) by simp_all
  have a4: "lo_addr + 4 = CLINT_BASE + (?off + 4)" using assms(3) by simp
  have m2: "m2 = m\<lparr>m_clint := clint_store (clint_store (m_clint m) ?off lo) (?off + 4) hi\<rparr>"
    unfolding assms(5) assms(4) a4 unfolding assms(3) clint_route [OF u(1)] clint_route [OF u(2)] by simp
  have ld: "dev_load RB m2 lo_addr 4 = (Inr (clint_load (m_clint m2) ?off 4), m2)"
    "dev_load RB m2 (lo_addr + 4) 4 = (Inr (clint_load (m_clint m2) (?off + 4) 4), m2)"
    unfolding a4 unfolding assms(3) by (rule clint_route [OF u(1)] clint_route [OF u(2)])+
  show ?thesis
  proof (cases "h = 0")
    case True
    then show ?thesis
      using ld by (simp add: m2 clint_hart0_reg halves apply_clint_hart_def set_clint_def del: drop_bit_or)
  next
    case False
    then have h: "0 < h" "h - 1 < length (cl_mtimecmp_extra (m_clint m))" using assms(2) by simp_all
    note reg = clint_hart_reg [OF assms(1) h(1)]
    show ?thesis
      using ld h False by (simp add: m2 reg halves apply_clint_hart_def set_clint_def upd_at_def get_or_def del: drop_bit_or)
  qed
qed

end
