(* ===== verification/Loader.thy ===== *)
theory Loader
  imports Mmu
begin

text \<open>
  The ELF32 loader (\<open>crates/fs-loader/src/lib.rs\<close>): the two image builders, the bounds-checked
  \<open>Reader\<close>, \<open>parse\<close> with its best-effort search for the \<open>tohost\<close> symbol, and \<open>load_into\<close>.  A
  byte slice is a list of bytes; \<open>usize\<close> (64 bits on the hosts) is a natural number, since no
  offset the reader computes from 32-bit and 16-bit fields reaches \<open>2 ^ 64\<close>; the \<open>u32\<close> layout
  arithmetic of the builders stays at its width.  The lemmas show that what the builders write
  is what \<open>parse\<close> reads, and what memory holds after \<open>load_into\<close>.
\<close>

definition ELFCLASS32 :: u8 where "ELFCLASS32 = 1"
definition ELFDATA2LSB :: u8 where "ELFDATA2LSB = 1"
definition ET_EXEC :: u16 where "ET_EXEC = 2"
definition ET_DYN :: u16 where "ET_DYN = 3"
definition EM_RISCV :: u16 where "EM_RISCV = 243"
definition PT_LOAD :: u32 where "PT_LOAD = 1"
definition SHT_SYMTAB :: u32 where "SHT_SYMTAB = 2"

record segment =
  seg_vaddr :: u32
  seg_data :: "u8 list"
  seg_memsz :: u32
  seg_perm :: u8

record program =
  prog_entry :: u32
  prog_tohost :: "u32 option"
  prog_segments :: "segment list"

datatype load_error =
    Truncated
  | BadMagic
  | Not32BitLe
  | NotRiscv
  | NotExecutable
  | NoLoadSegments
  | MapFault fault

section \<open>Building images\<close>

definition resize_vec :: "u8 list \<Rightarrow> nat \<Rightarrow> u8 list" where
  "resize_vec b n = take n b @ replicate (n - length b) 0"

definition align4 :: "u32 \<Rightarrow> u32" where
  "align4 x = (x + 3) AND NOT 3"

definition elf_magic :: "u8 list" where
  "elf_magic = [0x7f, 0x45, 0x4c, 0x46]"

text \<open>
  The ELF header and the single RWX program header; both builders write the same fields, with
  their own section count and string-table index.
\<close>

definition elf_front :: "u32 \<Rightarrow> u32 \<Rightarrow> u32 \<Rightarrow> u16 \<Rightarrow> u16 \<Rightarrow> u8 list" where
  "elf_front entry shoff len shnum shstrndx =
     [0x7f, 0x45, 0x4c, 0x46, 1, 1, 1, 0] @ replicate 8 0 @
     u16_to_le 2 @ u16_to_le 243 @ u32_to_le 1 @ u32_to_le entry @ u32_to_le 52 @
     u32_to_le shoff @ u32_to_le 0 @ u16_to_le 52 @ u16_to_le 32 @ u16_to_le 1 @
     u16_to_le 40 @ u16_to_le shnum @ u16_to_le shstrndx @
     u32_to_le 1 @ u32_to_le 0x1000 @ u32_to_le entry @ u32_to_le entry @
     u32_to_le len @ u32_to_le len @ u32_to_le 0x7 @ u32_to_le 0x1000"

definition shdr :: "u32 \<Rightarrow> u32 \<Rightarrow> u32 \<Rightarrow> u32 \<Rightarrow> u32 \<Rightarrow> u32 \<Rightarrow> u32 \<Rightarrow> u32 \<Rightarrow> u8 list" where
  "shdr name typ off sz link info align entsize =
     u32_to_le name @ u32_to_le typ @ u32_to_le 0 @ u32_to_le 0 @ u32_to_le off @ u32_to_le sz @
     u32_to_le link @ u32_to_le info @ u32_to_le align @ u32_to_le entsize"

definition flat_shstrtab :: "u8 list" where
  "flat_shstrtab = map of_char ([CHR 0x00] @ ''.shstrtab'' @ [CHR 0x00])"

definition build_flat_elf :: "u32 \<Rightarrow> u8 list \<Rightarrow> u8 list" where
  "build_flat_elf load_vaddr code =
     (let len = of_nat (length code) :: u32;
          shstrtab_off = 0x1000 + len;
          shoff = align4 (shstrtab_off + of_nat (length flat_shstrtab));
          b1 = resize_vec (elf_front load_vaddr shoff len 2 1) 0x1000;
          b2 = resize_vec (b1 @ code @ flat_shstrtab) (unat shoff)
      in b2 @ replicate 40 0 @
         shdr 1 3 shstrtab_off (of_nat (length flat_shstrtab)) 0 0 1 0)"

definition diff_strtab :: "u8 list" where
  "diff_strtab = map of_char ([CHR 0x00] @ ''tohost'' @ [CHR 0x00] @ ''fromhost'' @ [CHR 0x00])"

definition diff_shstrtab :: "u8 list" where
  "diff_shstrtab = map of_char
     ([CHR 0x00] @ ''.symtab'' @ [CHR 0x00] @ ''.strtab'' @ [CHR 0x00] @ ''.shstrtab'' @ [CHR 0x00])"

definition elf_sym :: "u32 \<Rightarrow> u32 \<Rightarrow> u8 list" where
  "elf_sym name val = u32_to_le name @ u32_to_le val @ u32_to_le 8 @ [0x11, 0] @ u16_to_le 0xfff1"

definition build_diff_elf :: "u32 \<Rightarrow> u8 list \<Rightarrow> u32 \<Rightarrow> u8 list" where
  "build_diff_elf entry seg tohost_vaddr =
     (let len = of_nat (length seg) :: u32;
          seg_end = 0x1000 + len;
          symtab_off = align4 seg_end;
          symtab_size = 3 * 16;
          strtab_off = symtab_off + symtab_size;
          shstrtab_off = strtab_off + of_nat (length diff_strtab);
          shoff = align4 (shstrtab_off + of_nat (length diff_shstrtab));
          b1 = resize_vec (elf_front entry shoff len 4 3) 0x1000;
          b2 = resize_vec (b1 @ seg) (unat symtab_off);
          b3 = b2 @ replicate 16 0 @ elf_sym 1 tohost_vaddr @ elf_sym 8 (tohost_vaddr + 8) @
               diff_strtab @ diff_shstrtab;
          b4 = resize_vec b3 (unat shoff)
      in b4 @ replicate 40 0 @
         shdr 1 2 symtab_off symtab_size 2 1 4 16 @
         shdr 9 3 strtab_off (of_nat (length diff_strtab)) 0 0 1 0 @
         shdr 17 3 shstrtab_off (of_nat (length diff_shstrtab)) 0 0 1 0)"

section \<open>Reading images\<close>

definition get_range :: "u8 list \<Rightarrow> nat \<Rightarrow> nat \<Rightarrow> u8 list option" where
  "get_range b lo n = (if lo + n \<le> length b then Some (sub_slice b lo n) else None)"

definition rd_u8 :: "u8 list \<Rightarrow> nat \<Rightarrow> load_error + u8" where
  "rd_u8 r off = ok_or Truncated (if off < length r then Some (r ! off) else None)"

definition rd_u16 :: "u8 list \<Rightarrow> nat \<Rightarrow> load_error + u16" where
  "rd_u16 r off = map_ok u16_from_le (ok_or Truncated (get_range r off 2))"

definition rd_u32 :: "u8 list \<Rightarrow> nat \<Rightarrow> load_error + u32" where
  "rd_u32 r off = map_ok u32_from_le (ok_or Truncated (get_range r off 4))"

definition rd_slice :: "u8 list \<Rightarrow> nat \<Rightarrow> nat \<Rightarrow> load_error + u8 list" where
  "rd_slice r off len = ok_or Truncated (get_range r off len)"

definition cstr :: "u8 list \<Rightarrow> nat \<Rightarrow> u8 list" where
  "cstr r off = takeWhile (\<lambda>b. b \<noteq> 0) (drop (min off (length r)) r)"

fun ok :: "'e + 'a \<Rightarrow> 'a option" where
  "ok (Inl e) = None"
| "ok (Inr a) = Some a"

definition perm_of_flags :: "u32 \<Rightarrow> u8" where
  "perm_of_flags p_flags =
     (let perm = 0;
          perm = (if p_flags AND 0x4 \<noteq> 0 then perm OR PERM_READ else perm);
          perm = (if p_flags AND 0x2 \<noteq> 0 then perm OR PERM_WRITE else perm)
      in if p_flags AND 0x1 \<noteq> 0 then perm OR PERM_EXEC else perm)"

fun parse_segments ::
    "u8 list \<Rightarrow> nat \<Rightarrow> nat \<Rightarrow> nat \<Rightarrow> nat \<Rightarrow> segment list \<Rightarrow> load_error + segment list" where
  "parse_segments r phoff phentsize i 0 acc = Inr acc"
| "parse_segments r phoff phentsize i (Suc n) acc =
     (let ph = phoff + i * phentsize in
      bindE (rd_u32 r ph) (\<lambda>p_type.
      if p_type \<noteq> PT_LOAD then parse_segments r phoff phentsize (Suc i) n acc
      else
        bindE (rd_u32 r (ph + 4)) (\<lambda>p_offset.
        bindE (rd_u32 r (ph + 8)) (\<lambda>p_vaddr.
        bindE (rd_u32 r (ph + 16)) (\<lambda>p_filesz.
        bindE (rd_u32 r (ph + 20)) (\<lambda>p_memsz.
        bindE (rd_u32 r (ph + 24)) (\<lambda>p_flags.
        bindE (rd_slice r (unat p_offset) (unat p_filesz)) (\<lambda>data.
          parse_segments r phoff phentsize (Suc i) n
            (acc @ [\<lparr>seg_vaddr = p_vaddr, seg_data = data, seg_memsz = p_memsz,
                     seg_perm = perm_of_flags p_flags\<rparr>])))))))))"

text \<open>
  The two loops of \<open>find_tohost\<close> may return from the function; \<open>Some res\<close> stands for a return of
  \<open>res\<close>, \<open>None\<close> for falling through to the next iteration.
\<close>

definition tohost_name :: "u8 list" where
  "tohost_name = map of_char ''tohost''"

fun scan_symbols :: "u8 list \<Rightarrow> nat \<Rightarrow> nat \<Rightarrow> nat \<Rightarrow> nat \<Rightarrow> nat \<Rightarrow> u32 option option" where
  "scan_symbols r sym_off entsize str_off s 0 = None"
| "scan_symbols r sym_off entsize str_off s (Suc n) =
     (let sym = sym_off + s * entsize in
      case ok (rd_u32 r sym) of None \<Rightarrow> Some None | Some st_name \<Rightarrow>
      case ok (rd_u32 r (sym + 4)) of None \<Rightarrow> Some None | Some st_value \<Rightarrow>
        if str_off + unat st_name < length r \<and> cstr r (str_off + unat st_name) = tohost_name
        then Some (Some st_value)
        else scan_symbols r sym_off entsize str_off (Suc s) n)"

fun scan_sections :: "u8 list \<Rightarrow> nat \<Rightarrow> nat \<Rightarrow> nat \<Rightarrow> nat \<Rightarrow> u32 option" where
  "scan_sections r shoff shentsize i 0 = None"
| "scan_sections r shoff shentsize i (Suc n) =
     (let sh = shoff + i * shentsize in
      case ok (rd_u32 r (sh + 4)) of None \<Rightarrow> None | Some sh_type \<Rightarrow>
        if sh_type \<noteq> SHT_SYMTAB then scan_sections r shoff shentsize (Suc i) n
        else
          case ok (rd_u32 r (sh + 16)) of None \<Rightarrow> None | Some sym_off \<Rightarrow>
          case ok (rd_u32 r (sh + 20)) of None \<Rightarrow> None | Some sym_size \<Rightarrow>
          case ok (rd_u32 r (sh + 24)) of None \<Rightarrow> None | Some strtab_idx \<Rightarrow>
          case ok (rd_u32 r (sh + 36)) of None \<Rightarrow> None | Some esz \<Rightarrow>
            (let entsize = unat (max esz 16);
                 str_sh = shoff + unat strtab_idx * shentsize in
             case ok (rd_u32 r (str_sh + 16)) of None \<Rightarrow> None | Some str_off \<Rightarrow>
               (let count = unat sym_size div entsize in
                case scan_symbols r (unat sym_off) entsize (unat str_off) 0 count of
                  Some res \<Rightarrow> res
                | None \<Rightarrow> scan_sections r shoff shentsize (Suc i) n)))"

definition find_tohost :: "u8 list \<Rightarrow> u32 option" where
  "find_tohost r =
     (case ok (rd_u32 r 32) of None \<Rightarrow> None | Some shoff \<Rightarrow>
      case ok (rd_u16 r 46) of None \<Rightarrow> None | Some shentsize \<Rightarrow>
      case ok (rd_u16 r 48) of None \<Rightarrow> None | Some shnum \<Rightarrow>
        if unat shoff = 0 \<or> unat shnum = 0 then None
        else scan_sections r (unat shoff) (unat shentsize) 0 (unat shnum))"

definition parse :: "u8 list \<Rightarrow> load_error + program" where
  "parse r =
     bindE (rd_slice r 0 4) (\<lambda>magic.
     if magic \<noteq> elf_magic then Inl BadMagic else
     bindE (rd_u8 r 4) (\<lambda>cls.
     if cls \<noteq> ELFCLASS32 then Inl Not32BitLe else
     bindE (rd_u8 r 5) (\<lambda>enc.
     if enc \<noteq> ELFDATA2LSB then Inl Not32BitLe else
     bindE (rd_u16 r 18) (\<lambda>machine.
     if machine \<noteq> EM_RISCV then Inl NotRiscv else
     bindE (rd_u16 r 16) (\<lambda>e_type.
     if e_type \<noteq> ET_EXEC \<and> e_type \<noteq> ET_DYN then Inl NotExecutable else
     bindE (rd_u32 r 24) (\<lambda>entry.
     bindE (rd_u32 r 28) (\<lambda>phoff.
     bindE (rd_u16 r 42) (\<lambda>phentsize.
     bindE (rd_u16 r 44) (\<lambda>phnum.
     bindE (parse_segments r (unat phoff) (unat phentsize) 0 (unat phnum) []) (\<lambda>segments.
     if segments = [] then Inl NoLoadSegments
     else Inr \<lparr>prog_entry = entry, prog_tohost = find_tohost r,
               prog_segments = segments\<rparr>))))))))))"

section \<open>Loading\<close>

definition image_bounds :: "program \<Rightarrow> u32 \<times> u32" where
  "image_bounds p =
     (let segs = prog_segments p;
          lo = (case map seg_vaddr segs of [] \<Rightarrow> 0 | v # vs \<Rightarrow> fold min vs v);
          hi = (case map (\<lambda>s. seg_vaddr s + seg_memsz s) segs of [] \<Rightarrow> 0 | v # vs \<Rightarrow> fold max vs v)
      in (lo, hi))"

definition load_segment :: "segment \<Rightarrow> mmu \<Rightarrow> (load_error + unit) \<times> mmu" where
  "load_segment s m =
     bindR (apfst (map_err MapFault) (mmu_map m (seg_vaddr s) (seg_data s) (seg_perm s))) (\<lambda>_ m1.
       let filled = of_nat (length (seg_data s)) in
       if filled < seg_memsz s then
         apfst (map_err MapFault)
           (protect m1 (seg_vaddr s + filled) (seg_memsz s - filled)
              (seg_perm s OR PERM_READ OR PERM_WRITE))
       else (Inr (), m1))"

fun load_segments :: "segment list \<Rightarrow> mmu \<Rightarrow> (load_error + unit) \<times> mmu" where
  "load_segments [] m = (Inr (), m)"
| "load_segments (s # ss) m = bindR (load_segment s m) (\<lambda>_. load_segments ss)"

definition load_into :: "program \<Rightarrow> mmu \<Rightarrow> (load_error + unit) \<times> mmu" where
  "load_into p m = load_segments (prog_segments p) m"

section \<open>Reading a concatenation\<close>

lemma get_range_append [simp]:
  "lo + n \<le> length p \<Longrightarrow> get_range (p @ q) lo n = get_range p lo n"
  by (simp add: get_range_def sub_slice_def)

lemma get_range_shift:
  "length p \<le> lo \<Longrightarrow> get_range (p @ q) lo n = get_range q (lo - length p) n"
  by (auto simp: get_range_def sub_slice_def)

lemma get_range_whole: "length m = n \<Longrightarrow> get_range m 0 n = Some m"
  by (simp add: get_range_def sub_slice_def)

lemma rd_append:
  "off + 1 \<le> length p \<Longrightarrow> rd_u8 (p @ q) off = rd_u8 p off"
  "off + 2 \<le> length p \<Longrightarrow> rd_u16 (p @ q) off = rd_u16 p off"
  "off + 4 \<le> length p \<Longrightarrow> rd_u32 (p @ q) off = rd_u32 p off"
  "off + n \<le> length p \<Longrightarrow> rd_slice (p @ q) off n = rd_slice p off n"
  by (simp_all add: rd_u8_def rd_u16_def rd_u32_def rd_slice_def nth_append)

lemma rd_u32_shift:
  "rd_u32 (p @ q) (length p + k) = rd_u32 q k" "rd_u32 (p @ q) (k + length p) = rd_u32 q k"
  by (simp_all add: rd_u32_def get_range_shift)

lemma cstr_shift: "cstr (p @ q) (length p + k) = cstr q k"
  by (simp add: cstr_def min_def)

lemma u16_le_bytes: "u16_from_le [ucast v, ucast (drop_bit 8 v)] = v"
  using u16_le_roundtrip [of v] by (simp only: u16_to_le_def)

lemma u32_le_bytes:
  "u32_from_le [ucast v, ucast (drop_bit 8 v), ucast (drop_bit 16 v), ucast (drop_bit 24 v)] = v"
  using u32_le_roundtrip [of v] by (simp only: u32_to_le_def)

lemma length_elf_front [simp]: "length (elf_front e so len shnum shstrndx) = 84"
  by (simp add: elf_front_def)

lemma length_shdr [simp]: "length (shdr nm typ off sz link info align es) = 40"
  by (simp add: shdr_def)

lemma length_elf_sym [simp]: "length (elf_sym nm v) = 16"
  by (simp add: elf_sym_def)

lemma length_tables [simp]:
  "length flat_shstrtab = 11" "length diff_strtab = 17" "length diff_shstrtab = 27"
  by (simp_all add: flat_shstrtab_def diff_strtab_def diff_shstrtab_def)

lemma rd_u32_zeros: "off + 4 \<le> k \<Longrightarrow> rd_u32 (replicate k 0 @ q) off = Inr 0"
  by (simp add: rd_append rd_u32_def get_range_def sub_slice_def u32_from_le_def)

text \<open>Little-endian fields are read where they were written.\<close>

lemma rd_u32_here: "rd_u32 (u32_to_le v @ q) 0 = Inr v"
  by (simp add: rd_u32_def get_range_whole)

lemma rd_u16_here: "rd_u16 (u16_to_le v @ q) 0 = Inr v"
  by (simp add: rd_u16_def get_range_whole)

lemma rd_u32_skip:
  "4 \<le> off \<Longrightarrow> rd_u32 (u32_to_le v @ q) off = rd_u32 q (off - 4)"
  "2 \<le> off \<Longrightarrow> rd_u32 (u16_to_le w @ q) off = rd_u32 q (off - 2)"
  "k \<le> off \<Longrightarrow> rd_u32 (replicate k 0 @ q) off = rd_u32 q (off - k)"
  "1 \<le> off \<Longrightarrow> rd_u32 (b # q) off = rd_u32 q (off - 1)"
  using get_range_shift [of "[b]" off q 4] by (simp_all add: rd_u32_def get_range_shift)

lemma rd_u16_skip:
  "4 \<le> off \<Longrightarrow> rd_u16 (u32_to_le v @ q) off = rd_u16 q (off - 4)"
  "2 \<le> off \<Longrightarrow> rd_u16 (u16_to_le w @ q) off = rd_u16 q (off - 2)"
  "k \<le> off \<Longrightarrow> rd_u16 (replicate k 0 @ q) off = rd_u16 q (off - k)"
  "1 \<le> off \<Longrightarrow> rd_u16 (b # q) off = rd_u16 q (off - 1)"
  using get_range_shift [of "[b]" off q 2] by (simp_all add: rd_u16_def get_range_shift)

lemmas rd_fields = rd_u32_here rd_u16_here rd_u32_skip rd_u16_skip

lemma front_reads:
  fixes e so len :: u32 and shnum shstrndx :: u16 and q :: "u8 list"
  defines "b \<equiv> elf_front e so len shnum shstrndx @ q"
  shows "rd_slice b 0 4 = Inr elf_magic" "rd_u8 b 4 = Inr 1" "rd_u8 b 5 = Inr 1"
    "rd_u16 b 16 = Inr 2" "rd_u16 b 18 = Inr 243" "rd_u32 b 24 = Inr e" "rd_u32 b 28 = Inr 52"
    "rd_u32 b 32 = Inr so" "rd_u16 b 42 = Inr 32" "rd_u16 b 44 = Inr 1" "rd_u16 b 46 = Inr 40"
    "rd_u16 b 48 = Inr shnum"
    "rd_u32 b 52 = Inr 1" "rd_u32 b 56 = Inr 0x1000" "rd_u32 b 60 = Inr e"
    "rd_u32 b 68 = Inr len" "rd_u32 b 72 = Inr len" "rd_u32 b 76 = Inr 7"
  unfolding b_def elf_front_def append_assoc append_Cons append_Nil
  by (simp_all add: rd_fields rd_u8_def rd_slice_def get_range_def sub_slice_def elf_magic_def)

lemma flags_rwx: "perm_of_flags 7 = PERM_READ OR PERM_WRITE OR PERM_EXEC"
  by (simp add: perm_of_flags_def or.assoc)

lemma parse_front:
  assumes b: "b = elf_front e so len shnum shstrndx @ q"
    and data: "rd_slice b 0x1000 (unat len) = Inr data"
  shows "parse b = Inr \<lparr>prog_entry = e, prog_tohost = find_tohost b,
    prog_segments = [\<lparr>seg_vaddr = e, seg_data = data, seg_memsz = len,
                      seg_perm = PERM_READ OR PERM_WRITE OR PERM_EXEC\<rparr>]\<rparr>"
  using front_reads [of e so len shnum shstrndx q] data
  by (simp add: parse_def b [symmetric] ELFCLASS32_def ELFDATA2LSB_def EM_RISCV_def ET_EXEC_def
      PT_LOAD_def flags_rwx Let_def)

lemma find_tohost_front:
  assumes b: "b = elf_front e so len shnum shstrndx @ q" and "so \<noteq> 0" "shnum \<noteq> 0"
  shows "find_tohost b = scan_sections b (unat so) 40 0 (unat shnum)"
  using front_reads [of e so len shnum shstrndx q] assms(2,3)
  by (simp add: find_tohost_def b [symmetric] unat_eq_zero)

lemma align4_ge:
  assumes "unat x + 3 < 4294967296"
  shows "unat x \<le> unat (align4 x)" "unat (align4 x) \<le> unat x + 3"
proof -
  let ?w = "x + 3"
  have w: "unat ?w = unat x + 3" using unat_add_no_wrap [of x 3] assms by simp
  have "?w AND NOT 3 = ?w AND NOT (mask 2)" by (simp add: mask_eq_exp_minus_1)
  also have "\<dots> = push_bit 2 (drop_bit 2 ?w)"
  proof (rule bit_word_eqI)
    fix n assume "n < LENGTH(32)"
    have "Suc (Suc (n - 2)) = n" if "2 \<le> n" using that by simp
    then show "bit (?w AND NOT (mask 2)) n \<longleftrightarrow> bit (push_bit 2 (drop_bit 2 ?w)) n"
      by (cases "2 \<le> n") (auto simp: bit_simps)
  qed
  also have "\<dots> = ?w - take_bit 2 ?w"
    using bits_ident [of 2 ?w] by (simp add: algebra_simps)
  finally have eq: "align4 x = ?w - take_bit 2 ?w" by (simp add: align4_def)
  have "unat (take_bit 2 ?w) = take_bit 2 (unat ?w)" by (rule unsigned_take_bit_eq)
  then have t: "unat (take_bit 2 ?w) = unat ?w mod 4" by (simp add: take_bit_eq_mod del: take_bit_add)
  then have "take_bit 2 ?w \<le> ?w" by (simp only: word_le_nat_alt t mod_less_eq_dividend)
  then have "unat (align4 x) = unat ?w - unat ?w mod 4" unfolding eq by (simp only: unat_sub t)
  moreover have "unat ?w mod 4 < 4" by simp
  ultimately show "unat x \<le> unat (align4 x)" "unat (align4 x) \<le> unat x + 3"
    unfolding w by linarith+
qed

lemma resize_vec_grow: "length b \<le> n \<Longrightarrow> resize_vec b n = b @ replicate (n - length b) 0"
  by (simp add: resize_vec_def)

lemma length_resize_vec [simp]: "length (resize_vec b n) = n"
  by (simp add: resize_vec_def)

section \<open>What the builders write is what the parser reads\<close>

lemma shdr_reads:
  fixes nm ty off sz link info align es :: u32 and q :: "u8 list"
  defines "b \<equiv> shdr nm ty off sz link info align es @ q"
  shows "rd_u32 b 4 = Inr ty" "rd_u32 b 16 = Inr off" "rd_u32 b 20 = Inr sz"
    "rd_u32 b 24 = Inr link" "rd_u32 b 36 = Inr es"
  unfolding b_def shdr_def append_assoc by (simp_all add: rd_fields)

lemma shdr_skip: "40 \<le> off \<Longrightarrow> rd_u32 (shdr nm ty o1 sz link info align es @ q) off = rd_u32 q (off - 40)"
  by (simp add: rd_u32_def get_range_shift)

lemma scan_sections_symtab:
  assumes "sh = shoff + i * esz" "rd_u32 r (sh + 4) = Inr SHT_SYMTAB"
    "rd_u32 r (sh + 16) = Inr sym_off" "rd_u32 r (sh + 20) = Inr sym_size"
    "rd_u32 r (sh + 24) = Inr link" "rd_u32 r (sh + 36) = Inr es"
    "rd_u32 r (shoff + unat link * esz + 16) = Inr str_off"
    "scan_symbols r (unat sym_off) (unat (max es 16)) (unat str_off) 0
       (unat sym_size div unat (max es 16)) = Some res"
  shows "scan_sections r shoff esz i (Suc n) = res"
  using assms by (simp add: Let_def)

lemma parse_flat:
  assumes len: "length code + 0x1010 < 4294967296"
  shows "parse (build_flat_elf v code) = Inr \<lparr>prog_entry = v, prog_tohost = None,
    prog_segments = [\<lparr>seg_vaddr = v, seg_data = code, seg_memsz = of_nat (length code),
                      seg_perm = PERM_READ OR PERM_WRITE OR PERM_EXEC\<rparr>]\<rparr>"
proof -
  let ?n = "of_nat (length code) :: u32"
  define so where "so = align4 (0x1000 + ?n + of_nat (length flat_shstrtab))"
  have "unat (0x1000 + ?n + of_nat (length flat_shstrtab)) = 0x1000 + length code + 11"
    using unat_add_no_wrap [of "0x1000" "length code"] unat_add_no_wrap [of "0x1000 + ?n" 11] len
    by simp
  then have so: "0x1000 + length code + 11 \<le> unat so" unfolding so_def
    using align4_ge(1) [of "0x1000 + ?n + of_nat (length flat_shstrtab)"] len by simp
  define gap where "gap = (replicate (unat so - (0x1000 + length code + 11)) 0 :: u8 list)"
  define pre where "pre = elf_front v so ?n 2 1 @ replicate 4012 0 @ code @ flat_shstrtab @ gap"
  define secs where "secs = replicate 40 0 @
      shdr 1 3 (0x1000 + ?n) (of_nat (length flat_shstrtab)) 0 0 1 0"
  have "build_flat_elf v code = resize_vec (resize_vec (elf_front v so ?n 2 1) 0x1000 @ code @
      flat_shstrtab) (unat so) @ secs"
    by (simp only: build_flat_elf_def Let_def so_def secs_def)
  then have b: "build_flat_elf v code = pre @ secs" and pre: "length pre = unat so"
    using so by (simp_all add: resize_vec_grow pre_def gap_def)
  have data: "rd_slice (build_flat_elf v code) 0x1000 (unat ?n) = Inr code"
    using len unfolding b pre_def append_assoc
    by (simp add: rd_slice_def get_range_shift get_range_whole)
  have "find_tohost (build_flat_elf v code) = scan_sections (pre @ secs) (length pre) 40 0 (unat (2::u16))"
    unfolding b pre
    by (rule find_tohost_front) (use so in \<open>auto simp: pre_def simp flip: unat_eq_zero\<close>)
  also have "unat (2 :: u16) = Suc (Suc 0)" by simp
  also have "scan_sections (pre @ secs) (length pre) 40 0 (Suc (Suc 0)) = None"
    using shdr_reads(1) [of 1 3 "0x1000 + ?n" "of_nat (length flat_shstrtab)" 0 0 1 0 "[]"]
    by (simp add: rd_u32_shift rd_u32_zeros rd_u32_skip(3) SHT_SYMTAB_def Let_def secs_def)
  finally show ?thesis
    using parse_front [OF _ data] by (simp add: b pre_def)
qed

lemma sym_reads:
  "rd_u32 (elf_sym nm v @ q) 0 = Inr nm" "rd_u32 (elf_sym nm v @ q) 4 = Inr v"
  unfolding elf_sym_def append_assoc by (simp_all add: rd_fields)

text \<open>The symbol table of the differential-testing image, at its place in the file.\<close>

lemma scan_diff_symbols:
  assumes "b = pre @ replicate 16 0 @ elf_sym 1 v @ elf_sym 8 w @ diff_strtab @ q"
  shows "scan_symbols b (length pre) 16 (length pre + 48) 0 3 = Some (Some v)"
proof -
  have str: "cstr b (length pre + 48 + k) = cstr (diff_strtab @ q) k" for k
    using cstr_shift [of "pre @ replicate 16 0 @ elf_sym 1 v @ elf_sym 8 w" "diff_strtab @ q" k]
    by (simp add: assms ac_simps)
  have names: "cstr (diff_strtab @ q) 0 \<noteq> tohost_name" "cstr (diff_strtab @ q) 1 = tohost_name"
    by (simp_all add: cstr_def diff_strtab_def tohost_name_def)
  have null: "rd_u32 b (length pre) = Inr 0" "rd_u32 b (length pre + 4) = Inr 0"
    using rd_u32_shift(1) [of pre _ 0] by (simp_all add: assms rd_u32_shift rd_u32_zeros)
  have sym: "rd_u32 b (length pre + 16) = Inr 1" "rd_u32 b (20 + length pre) = Inr v"
    by (simp_all add: assms rd_u32_shift rd_u32_skip(3) sym_reads)
  have len: "length pre + 48 + 17 \<le> length b" by (simp add: assms)
  show ?thesis
    using null sym len names str [of 0] str [of 1]
    by (simp add: numeral_3_eq_3 Let_def)
qed

lemma parse_diff:
  assumes len: "length seg + 0x1100 < 4294967296"
  shows "parse (build_diff_elf e seg tohost) = Inr \<lparr>prog_entry = e, prog_tohost = Some tohost,
    prog_segments = [\<lparr>seg_vaddr = e, seg_data = seg, seg_memsz = of_nat (length seg),
                      seg_perm = PERM_READ OR PERM_WRITE OR PERM_EXEC\<rparr>]\<rparr>"
proof -
  let ?n = "of_nat (length seg) :: u32" and ?L = "length seg"
  define sy where "sy = align4 (0x1000 + ?n)"
  define st where "st = sy + 3 * 16"
  define so where "so = align4 (st + of_nat (length diff_strtab) + of_nat (length diff_shstrtab))"
  have n: "unat (0x1000 + ?n) = 0x1000 + ?L" using unat_add_no_wrap [of "0x1000" ?L] len by simp
  have sy: "0x1000 + ?L \<le> unat sy" "unat sy \<le> 0x1000 + ?L + 3"
    using align4_ge [of "0x1000 + ?n"] len n by (simp_all add: sy_def)
  have st: "unat st = unat sy + 48" using unat_add_no_wrap [of sy 48] sy len by (simp add: st_def)
  have "unat (st + of_nat (length diff_strtab) + of_nat (length diff_shstrtab)) = unat sy + 92"
    using unat_add_no_wrap [of st 44] st sy len by (simp add: add.commute)
  then have so: "unat sy + 92 \<le> unat so"
    using align4_ge(1) [of "st + of_nat (length diff_strtab) + of_nat (length diff_shstrtab)"] sy len
    by (simp add: so_def)
  define pre where "pre = elf_front e so ?n 4 3 @ replicate 4012 0 @ seg @
      replicate (unat sy - (0x1000 + ?L)) 0"
  define secs where "secs = replicate 40 0 @ shdr 1 2 sy (3 * 16) 2 1 4 16 @
      shdr 9 3 st (of_nat (length diff_strtab)) 0 0 1 0 @
      shdr 17 3 (st + of_nat (length diff_strtab)) (of_nat (length diff_shstrtab)) 0 0 1 0"
  define tabs where "tabs = replicate 16 0 @ elf_sym 1 tohost @ elf_sym 8 (tohost + 8) @
      diff_strtab @ diff_shstrtab @ replicate (unat so - (unat sy + 92)) 0"
  have pre: "length pre = unat sy" "length tabs = unat so - unat sy"
    using sy so by (simp_all add: pre_def tabs_def)
  have "build_diff_elf e seg tohost = resize_vec (resize_vec (resize_vec (elf_front e so ?n 4 3)
      0x1000 @ seg) (unat sy) @ replicate 16 0 @ elf_sym 1 tohost @ elf_sym 8 (tohost + 8) @
      diff_strtab @ diff_shstrtab) (unat so) @ secs"
    by (simp only: build_diff_elf_def Let_def so_def st_def sy_def secs_def)
  then have b: "build_diff_elf e seg tohost = pre @ tabs @ secs"
    using sy so by (simp add: resize_vec_grow pre_def tabs_def)
  have data: "rd_slice (pre @ tabs @ secs) 0x1000 (unat ?n) = Inr seg"
    using len unfolding pre_def append_assoc
    by (simp add: rd_slice_def get_range_shift get_range_whole)
  have at: "rd_u32 (pre @ tabs @ secs) (k + unat so) = rd_u32 secs k"
      "rd_u32 (pre @ tabs @ secs) (unat so + k) = rd_u32 secs k" for k
    using rd_u32_shift [of "pre @ tabs" secs k] pre sy so by simp_all
  have syms: "scan_symbols (pre @ tabs @ secs) (unat sy) 16 (unat st) 0 3 = Some (Some tohost)"
    unfolding st pre(1) [symmetric] by (rule scan_diff_symbols) (simp add: tabs_def)
  have secs: "rd_u32 secs 4 = Inr 0" "rd_u32 secs 44 = Inr 2" "rd_u32 secs 56 = Inr sy"
    "rd_u32 secs 60 = Inr 48" "rd_u32 secs 64 = Inr 2" "rd_u32 secs 76 = Inr 16"
    "rd_u32 secs 96 = Inr st"
    by (simp_all add: secs_def rd_u32_zeros rd_u32_skip(3) shdr_reads shdr_skip)
  have syms: "scan_symbols (pre @ tabs @ secs) (unat sy) (unat (max 16 (16 :: u32))) (unat st) 0
      (unat (48 :: u32) div unat (max 16 (16 :: u32))) = Some (Some tohost)"
    using syms by simp
  have "scan_sections (pre @ tabs @ secs) (unat so) 40 1 (Suc k) = Some tohost" for k
    by (rule scan_sections_symtab [where link = 2, OF refl _ _ _ _ _ _ syms])
      (simp_all add: at secs SHT_SYMTAB_def)
  then have scan: "scan_sections (pre @ tabs @ secs) (unat so) 40 0 (Suc (Suc k)) = Some tohost" for k
    using secs(1) by (simp add: at SHT_SYMTAB_def)
  have "find_tohost (pre @ tabs @ secs) = scan_sections (pre @ tabs @ secs) (unat so) 40 0 (unat (4 :: u16))"
    by (rule find_tohost_front) (use so in \<open>auto simp: pre_def simp flip: unat_eq_zero\<close>)
  also have "unat (4 :: u16) = Suc (Suc 2)" by simp
  also note scan
  finally show ?thesis
    using parse_front [OF _ data] by (simp add: b pre_def)
qed

section \<open>Memory after loading\<close>

definition mapped :: "u8 \<Rightarrow> view \<Rightarrow> u32 \<Rightarrow> u8 list \<Rightarrow> view" where
  "mapped perm v a0 ds = (\<lambda>a. let k = unat (a - a0) in
     if k < length ds then Some (ds ! k, perm) else v a)"

lemma mapped_Cons:
  assumes "length ds < 4294967296"
  shows "mapped perm v a0 (d # ds) = mapped perm (v(a0 \<mapsto> (d, perm))) (a0 + 1) ds"
proof
  fix a
  have "unat (- 1 :: u32) = 4294967295" by (simp add: unsigned_minus_1_eq_mask mask_eq_exp_minus_1)
  then show "mapped perm v a0 (d # ds) a = mapped perm (v(a0 \<mapsto> (d, perm))) (a0 + 1) ds a"
    using assms by (cases "a = a0") (simp_all add: mapped_def unat_diff_Suc)
qed

abbreviation (input) map_byte :: "nat \<Rightarrow> u8 \<Rightarrow> u8 \<Rightarrow> mmu \<Rightarrow> mmu" where
  "map_byte off b perm m \<equiv>
     m\<lparr>mmu_mem := (mmu_mem m)[off := b], mmu_perms := (mmu_perms m)[off := perm]\<rparr>"

lemma map_byte_peek:
  assumes "mmu_wf m" "offset m a = Some off"
  shows "mmu_peek (map_byte off b perm m) = (mmu_peek m)(a \<mapsto> (b, perm))"
proof
  fix x
  show "mmu_peek (map_byte off b perm m) x = ((mmu_peek m)(a \<mapsto> (b, perm))) x"
  proof (cases "x = a")
    case True
    with assms offset_less [OF assms(2)] show ?thesis by (simp add: mmu_peek_def mmu_wfD(1))
  next
    case False
    then have "offset m x \<noteq> Some off" using offset_inj assms(2) by blast
    with False show ?thesis by (cases "offset m x") (auto simp: mmu_peek_def nth_list_update)
  qed
qed

lemma map_loop_step:
  "map_loop addr perm i (b # bs) m =
     (case offset m (addr + of_nat i) of
        None \<Rightarrow> (Inl (mk_fault (addr + of_nat i) 1 Write Unmapped), m)
      | Some off \<Rightarrow> map_loop addr perm (Suc i) bs (map_byte off b perm m))"
  by (simp add: Let_def)

lemma map_loop_frame:
  "length (mmu_mem (snd (map_loop addr perm i bs m))) = length (mmu_mem m)"
  "length (mmu_perms (snd (map_loop addr perm i bs m))) = length (mmu_perms m)"
  "mmu_base (snd (map_loop addr perm i bs m)) = mmu_base m"
  "mmu_track_dirty (snd (map_loop addr perm i bs m)) = mmu_track_dirty m"
  "mmu_dirty_bitmap (snd (map_loop addr perm i bs m)) = mmu_dirty_bitmap m"
  by (induction bs arbitrary: i m) (auto simp: map_loop_step split: option.splits simp del: map_loop.simps(2))

lemma mmu_map_wf [wf_intros]: "mmu_wf m \<Longrightarrow> mmu_wf (snd (mmu_map m addr ds perm))"
  by (simp add: mmu_wf_def mmu_map_def map_loop_frame)

lemma map_byte_wf [wf_intros]: "mmu_wf m \<Longrightarrow> mmu_wf (map_byte off b perm m)"
  by (simp add: mmu_wf_def)

lemma map_loop_ok_iff:
  "fst (map_loop addr perm i bs m) = Inr () \<longleftrightarrow>
     (\<forall>k<length bs. offset m (addr + of_nat (i + k)) \<noteq> None)"
proof (induction bs arbitrary: i m)
  case Nil
  then show ?case by simp
next
  case (Cons b bs)
  show ?case unfolding length_Cons All_less_Suc2 using Cons
    by (simp add: map_loop_step add_ac offset_def split: option.splits del: map_loop.simps(2))
qed

lemma map_loop_peek:
  assumes "mmu_wf m" "length bs \<le> 4294967296" "map_loop addr perm i bs m = (Inr (), m')"
  shows "mmu_peek m' = mapped perm (mmu_peek m) (addr + of_nat i) bs"
  using assms
proof (induction bs arbitrary: i m)
  case Nil
  then show ?case by (simp add: mapped_def)
next
  case (Cons b bs)
  then obtain off where off: "offset m (addr + of_nat i) = Some off"
    by (auto simp: map_loop_step split: option.splits simp del: map_loop.simps(2))
  have "mmu_peek m' = mapped perm (mmu_peek (map_byte off b perm m)) (addr + of_nat (Suc i)) bs"
    using Cons.prems off
    by (intro Cons.IH) (simp_all add: map_loop_step map_byte_wf del: map_loop.simps(2))
  with Cons.prems(2) show ?case
    by (simp add: map_byte_peek [OF Cons.prems(1) off] mapped_Cons add_ac)
qed

text \<open>The addresses a segment occupies, and the view after it was loaded.\<close>

definition seg_span :: "segment \<Rightarrow> u32 set" where
  "seg_span s = {a. unat (a - seg_vaddr s) < max (length (seg_data s)) (unat (seg_memsz s))}"

definition seg_view :: "segment \<Rightarrow> view \<Rightarrow> view" where
  "seg_view s v = (\<lambda>a. let k = unat (a - seg_vaddr s) in
     if k < length (seg_data s) then Some (seg_data s ! k, seg_perm s)
     else if k < unat (seg_memsz s)
     then map_option (apsnd (\<lambda>_. seg_perm s OR PERM_READ OR PERM_WRITE)) (v a)
     else v a)"

lemma offsets_span: "(\<forall>k<n. offset m (a0 + of_nat k) \<noteq> None) \<longleftrightarrow> (\<forall>a. unat (a - a0) < n \<longrightarrow> offset m a \<noteq> None)"
  if "n \<le> 4294967296"
proof (intro iffI allI impI)
  fix a assume "\<forall>k<n. offset m (a0 + of_nat k) \<noteq> None" "unat (a - a0) < n"
  then have "offset m (a0 + of_nat (unat (a - a0))) \<noteq> None" by blast
  then show "offset m a \<noteq> None" by simp
next
  fix k assume "\<forall>a. unat (a - a0) < n \<longrightarrow> offset m a \<noteq> None" "k < n"
  then show "offset m (a0 + of_nat k) \<noteq> None" using that by simp
qed

lemma offset_frame:
  "offset (snd (mmu_map m addr ds perm)) = offset m" "offset (snd (protect m addr len p)) = offset m"
  by (auto simp: fun_eq_iff offset_def mmu_map_def map_loop_frame protect_def perms_loop_frame)

lemma load_segment_wf: "mmu_wf m \<Longrightarrow> mmu_wf (snd (load_segment s m))"
  using mmu_map_wf [of m "seg_vaddr s" "seg_data s" "seg_perm s"]
  by (cases "mmu_map m (seg_vaddr s) (seg_data s) (seg_perm s)"; cases "fst (mmu_map m (seg_vaddr s) (seg_data s) (seg_perm s))")
    (auto simp: load_segment_def Let_def protect_wf)

lemma load_segment_offset: "offset (snd (load_segment s m)) = offset m"
  using offset_frame(1) [of m "seg_vaddr s" "seg_data s" "seg_perm s"]
  by (cases "mmu_map m (seg_vaddr s) (seg_data s) (seg_perm s)"; cases "fst (mmu_map m (seg_vaddr s) (seg_data s) (seg_perm s))")
    (auto simp: load_segment_def Let_def offset_frame)

lemma bss_span:
  assumes "length (seg_data s) < 4294967296" "of_nat (length (seg_data s)) < seg_memsz s"
  shows "unat (a - (seg_vaddr s + of_nat (length (seg_data s)))) <
      unat (seg_memsz s - of_nat (length (seg_data s))) \<longleftrightarrow>
    length (seg_data s) \<le> unat (a - seg_vaddr s) \<and> unat (a - seg_vaddr s) < unat (seg_memsz s)"
  using tail_span [of "of_nat (length (seg_data s))" "seg_memsz s" "a - seg_vaddr s"] assms
  by (simp add: diff_diff_eq word_le_nat_alt word_less_nat_alt)

lemma load_segment_ok_iff:
  assumes "length (seg_data s) < 4294967296"
  shows "fst (load_segment s m) = Inr () \<longleftrightarrow> (\<forall>a \<in> seg_span s. offset m a \<noteq> None)"
proof -
  let ?n = "of_nat (length (seg_data s)) :: u32"
  obtain r m1 where map: "mmu_map m (seg_vaddr s) (seg_data s) (seg_perm s) = (r, m1)"
    by fastforce
  have off: "offset m1 = offset m"
    using offset_frame(1) [of m "seg_vaddr s" "seg_data s" "seg_perm s"] map by simp
  have r: "r = Inr () \<longleftrightarrow> (\<forall>a. unat (a - seg_vaddr s) < length (seg_data s) \<longrightarrow> offset m a \<noteq> None)"
    using map_loop_ok_iff [of "seg_vaddr s" "seg_perm s" 0 "seg_data s" m] map assms
    by (simp add: mmu_map_def offsets_span del: not_None_eq)
  have p: "fst (protect m1 (seg_vaddr s + ?n) (seg_memsz s - ?n) q) = Inr () \<longleftrightarrow>
      (\<forall>a. length (seg_data s) \<le> unat (a - seg_vaddr s) \<and> unat (a - seg_vaddr s) < unat (seg_memsz s)
         \<longrightarrow> offset m a \<noteq> None)" if "?n < seg_memsz s" for q
    using bss_span [OF assms that]
    by (simp add: protect_ok_iff offsets_span less_imp_le off del: not_None_eq)
  show ?thesis
  proof (cases "r = Inr () \<and> ?n < seg_memsz s")
    case True
    then have "fst (load_segment s m) = Inr () \<longleftrightarrow>
        fst (protect m1 (seg_vaddr s + ?n) (seg_memsz s - ?n)
               (seg_perm s OR PERM_READ OR PERM_WRITE)) = Inr ()"
      by (simp add: load_segment_def map Let_def)
    with True r p show ?thesis
      by (simp add: seg_span_def less_max_iff_disj del: not_None_eq) (meson not_less)
  next
    case False
    then have "fst (load_segment s m) = Inr () \<longleftrightarrow> r = Inr ()"
      by (cases r) (auto simp: load_segment_def map)
    moreover have "r = Inr () \<Longrightarrow> unat (seg_memsz s) \<le> length (seg_data s)"
      using False assms by (simp add: word_less_nat_alt)
    ultimately show ?thesis using r by (auto simp: seg_span_def less_max_iff_disj)
  qed
qed

lemma load_segment_peek:
  assumes wf: "mmu_wf m" and len: "length (seg_data s) < 4294967296"
    and ok: "load_segment s m = (Inr (), m')"
  shows "mmu_peek m' = seg_view s (mmu_peek m)"
proof -
  let ?n = "of_nat (length (seg_data s)) :: u32"
  obtain m1 where map: "mmu_map m (seg_vaddr s) (seg_data s) (seg_perm s) = (Inr (), m1)"
    using ok by (cases "mmu_map m (seg_vaddr s) (seg_data s) (seg_perm s)";
        cases "fst (mmu_map m (seg_vaddr s) (seg_data s) (seg_perm s))") (auto simp: load_segment_def)
  have wf1: "mmu_wf m1" using mmu_map_wf [OF wf] map by (metis snd_conv)
  have m1: "mmu_peek m1 = mapped (seg_perm s) (mmu_peek m) (seg_vaddr s) (seg_data s)"
    using map_loop_peek [OF wf less_imp_le [OF len], of "seg_vaddr s" "seg_perm s" 0] map
    by (simp add: mmu_map_def)
  show ?thesis
  proof (cases "?n < seg_memsz s")
    case True
    let ?p = "seg_perm s OR PERM_READ OR PERM_WRITE"
    have "protect m1 (seg_vaddr s + ?n) (seg_memsz s - ?n) ?p = (Inr (), m')"
      using ok True map by (cases "protect m1 (seg_vaddr s + ?n) (seg_memsz s - ?n) ?p")
        (auto simp: load_segment_def Let_def)
    from protect_peek [OF wf1 this] show ?thesis
      by (auto simp: fun_eq_iff m1 stamped_def bss_span [OF len True] mapped_def seg_view_def Let_def)
  next
    case False
    then have "m' = m1" using ok map by (simp add: load_segment_def Let_def)
    moreover have "unat (seg_memsz s) \<le> length (seg_data s)"
      using False len by (simp add: word_less_nat_alt)
    ultimately show ?thesis by (auto simp: fun_eq_iff m1 mapped_def seg_view_def Let_def)
  qed
qed

lemma load_segments_ok_iff:
  assumes "\<forall>s \<in> set ss. length (seg_data s) < 4294967296"
  shows "fst (load_segments ss m) = Inr () \<longleftrightarrow> (\<forall>s \<in> set ss. \<forall>a \<in> seg_span s. offset m a \<noteq> None)"
  using assms
proof (induction ss arbitrary: m)
  case Nil
  then show ?case by simp
next
  case (Cons s ss)
  obtain r m1 where 1: "load_segment s m = (r, m1)" by fastforce
  have off: "offset m1 = offset m" using load_segment_offset [of s m] 1 by simp
  have "r = Inr () \<longleftrightarrow> (\<forall>a \<in> seg_span s. offset m a \<noteq> None)"
    using load_segment_ok_iff [of s m] Cons.prems 1 by simp
  then show ?case using 1 off Cons by (cases r) (auto simp del: not_None_eq)
qed

lemma load_segments_peek:
  assumes "mmu_wf m" "\<forall>s \<in> set ss. length (seg_data s) < 4294967296"
    "load_segments ss m = (Inr (), m')"
  shows "mmu_peek m' = fold seg_view ss (mmu_peek m)"
  using assms
proof (induction ss arbitrary: m)
  case Nil
  then show ?case by simp
next
  case (Cons s ss)
  then obtain m1 where m1: "load_segment s m = (Inr (), m1)" "load_segments ss m1 = (Inr (), m')"
    by (auto simp: bindR_Inr_conv)
  have "mmu_wf m1" using load_segment_wf [OF Cons.prems(1), of s] m1(1) by simp
  with Cons m1 load_segment_peek [OF Cons.prems(1) _ m1(1)] show ?case by simp
qed

lemma seg_view_outside: "a \<notin> seg_span s \<Longrightarrow> seg_view s v a = v a"
  by (simp add: seg_span_def seg_view_def Let_def less_max_iff_disj)

lemma fold_seg_view_outside: "\<forall>s \<in> set ss. a \<notin> seg_span s \<Longrightarrow> fold seg_view ss v a = v a"
  by (induction ss arbitrary: v) (auto simp: seg_view_outside)

lemma fold_seg_view_inside:
  assumes "s \<in> set ss" "a \<in> seg_span s" "distinct ss"
    "\<forall>t \<in> set ss. t \<noteq> s \<longrightarrow> seg_span t \<inter> seg_span s = {}"
  shows "fold seg_view ss v a = seg_view s v a"
proof -
  obtain xs ys where ss: "ss = xs @ s # ys" using split_list [OF assms(1)] by blast
  with assms(2-4) have "\<forall>t \<in> set xs. a \<notin> seg_span t" "\<forall>t \<in> set ys. a \<notin> seg_span t"
    by fastforce+
  then have "fold seg_view ss v a = seg_view s (fold seg_view xs v) a" "fold seg_view xs v a = v a"
    by (simp_all add: ss fold_seg_view_outside)
  then show ?thesis by (simp add: seg_view_def Let_def)
qed

section \<open>What the loader promises\<close>

text \<open>
  C19.  The builders and the parser agree: the flat image of any code that fits a 32-bit file
  layout parses to one readable, writable and executable segment holding exactly the code, with the
  load address as entry point and no \<open>tohost\<close>; the differential-testing image additionally yields
  the \<open>tohost\<close> address through its symbol table.\<close>

theorem parse_inverts_build:
  assumes "length code + 0x1100 < 2 ^ 32"
  shows "parse (build_flat_elf v code) = Inr \<lparr>prog_entry = v, prog_tohost = None,
      prog_segments = [\<lparr>seg_vaddr = v, seg_data = code, seg_memsz = of_nat (length code),
                        seg_perm = PERM_READ OR PERM_WRITE OR PERM_EXEC\<rparr>]\<rparr> \<and>
    parse (build_diff_elf v code th) = Inr \<lparr>prog_entry = v, prog_tohost = Some th,
      prog_segments = [\<lparr>seg_vaddr = v, seg_data = code, seg_memsz = of_nat (length code),
                        seg_perm = PERM_READ OR PERM_WRITE OR PERM_EXEC\<rparr>]\<rparr>"
  using parse_flat [of code v] parse_diff [of code v th] assms by simp

theorem parse_inverts_build_witness:
  "parse (build_diff_elf 0x80000000 [0x13, 0, 0, 0] 0x80001000) =
     Inr \<lparr>prog_entry = 0x80000000, prog_tohost = Some 0x80001000,
       prog_segments = [\<lparr>seg_vaddr = 0x80000000, seg_data = [0x13, 0, 0, 0], seg_memsz = 4,
                         seg_perm = PERM_READ OR PERM_WRITE OR PERM_EXEC\<rparr>]\<rparr>"
  using parse_inverts_build [of "[0x13, 0, 0, 0]" "0x80000000" "0x80001000"] by simp

text \<open>
  C20.  Loading a program whose segments do not overlap succeeds exactly when every segment lies in
  the memory window, whatever the memory held.  Then each segment's file bytes are its contents with
  its permissions; the rest of its memory size keeps the bytes the memory had, opened for reading and
  writing besides (they are not cleared: they are zero when the memory was fresh); and every byte
  outside the segments is as before.\<close>

theorem load_into_memory:
  assumes wf: "mmu_wf m"
    and lens: "\<forall>s \<in> set (prog_segments p). length (seg_data s) < 2 ^ 32"
    and dist: "distinct (prog_segments p)"
      "\<forall>s \<in> set (prog_segments p). \<forall>t \<in> set (prog_segments p). t \<noteq> s \<longrightarrow> seg_span t \<inter> seg_span s = {}"
  shows "(fst (load_into p m) = Inr () \<longleftrightarrow>
      (\<forall>s \<in> set (prog_segments p). \<forall>a \<in> seg_span s. offset m a \<noteq> None)) \<and>
    (load_into p m = (Inr (), m') \<longrightarrow>
      (s \<in> set (prog_segments p) \<and> a \<in> seg_span s \<longrightarrow>
        mmu_peek m' a =
          (let k = unat (a - seg_vaddr s) in
           if k < length (seg_data s) then Some (seg_data s ! k, seg_perm s)
           else map_option (\<lambda>(old, _). (old, seg_perm s OR PERM_READ OR PERM_WRITE)) (mmu_peek m a))) \<and>
      ((\<forall>t \<in> set (prog_segments p). a \<notin> seg_span t) \<longrightarrow> mmu_peek m' a = mmu_peek m a)) \<and>
    (m = mmu_new base sz \<longrightarrow> offset m a \<noteq> None \<longrightarrow> mmu_peek m a = Some (0, 0))"
proof (intro conjI impI)
  show ok: "fst (load_into p m) = Inr () \<longleftrightarrow>
      (\<forall>s \<in> set (prog_segments p). \<forall>a \<in> seg_span s. offset m a \<noteq> None)"
    using load_segments_ok_iff [of "prog_segments p" m] lens by (simp add: load_into_def)
  have view: "mmu_peek m' = fold seg_view (prog_segments p) (mmu_peek m)" if "load_into p m = (Inr (), m')"
    using load_segments_peek [OF wf _ that [unfolded load_into_def]] lens by simp
  show "mmu_peek m' a = mmu_peek m a"
    if "load_into p m = (Inr (), m')" "\<forall>t \<in> set (prog_segments p). a \<notin> seg_span t"
    using view [OF that(1)] fold_seg_view_outside [OF that(2)] by simp
  show "mmu_peek m' a =
        (let k = unat (a - seg_vaddr s) in
         if k < length (seg_data s) then Some (seg_data s ! k, seg_perm s)
         else map_option (\<lambda>(old, _). (old, seg_perm s OR PERM_READ OR PERM_WRITE)) (mmu_peek m a))"
    if "load_into p m = (Inr (), m')" "s \<in> set (prog_segments p) \<and> a \<in> seg_span s"
  proof -
    have "mmu_peek m' a = seg_view s (mmu_peek m) a"
      using view [OF that(1)] fold_seg_view_inside [OF _ _ dist(1), of s a] dist(2) that(2) by simp
    moreover have "map_option (apsnd (\<lambda>_. q)) x = map_option (\<lambda>(old, _). (old, q)) x" for q and x :: "(u8 \<times> u8) option"
      by (cases x) auto
    ultimately show ?thesis
      using that(2) by (auto simp: seg_view_def Let_def seg_span_def less_max_iff_disj)
  qed
  assume "m = mmu_new base sz" "offset m a \<noteq> None"
  then obtain off where "offset m a = Some off" by auto
  then show "mmu_peek m a = Some (0, 0)"
    using offset_less [of m a off] \<open>m = mmu_new base sz\<close> by (simp add: mmu_peek_def) (simp add: mmu_new_def)
qed

definition sample_program :: program where
  "sample_program = \<lparr>prog_entry = 0x1000, prog_tohost = None,
     prog_segments = [\<lparr>seg_vaddr = 0x1000, seg_data = [1, 2], seg_memsz = 4, seg_perm = PERM_READ\<rparr>]\<rparr>"

theorem load_into_memory_witness:
  "mmu_peek (snd (load_into sample_program (mmu_new 0x1000 16))) 0x1000 = Some (1, PERM_READ) \<and>
   mmu_peek (snd (load_into sample_program (mmu_new 0x1000 16))) 0x1003 = Some (0, PERM_READ OR PERM_READ OR PERM_WRITE) \<and>
   mmu_peek (snd (load_into sample_program (mmu_new 0x1000 16))) 0x1004 = Some (0, 0)"
proof -
  let ?m = "mmu_new 0x1000 16"
  have "offset ?m 0x1000 = Some 0" "length (mmu_mem ?m) = 16"
    by (simp_all add: offset_def mmu_new_def)
  then have "\<forall>k<8. offset ?m (0x1000 + of_nat k) \<noteq> None"
    using offset_add [of ?m "0x1000" 0] by (simp add: mmu_wf_new)
  then have off: "offset ?m a \<noteq> None" if "unat (a - 0x1000) < 8" for a
    using offsets_span [of 8 ?m "0x1000"] that by (simp del: not_None_eq)
  have wf: "mmu_wf ?m" by (simp add: mmu_wf_new)
  note ld = load_into_memory [OF wf, of sample_program, where m' = "snd (load_into sample_program ?m)" and base = "0x1000" and sz = 16]
  have "fst (load_into sample_program ?m) = Inr ()"
    using ld off by (simp add: sample_program_def seg_span_def del: not_None_eq)
  then have l: "load_into sample_program ?m = (Inr (), snd (load_into sample_program ?m))" by (simp add: prod_eq_iff)
  note at = ld [where s = "hd (prog_segments sample_program)"]
  show ?thesis
    using at [where a = "0x1000"] at [where a = "0x1003"] at [where a = "0x1004"] l off [of "0x1003"] off [of "0x1004"]
    by (simp add: sample_program_def seg_span_def Let_def del: not_None_eq)
qed

end
