(* ===== verification/Sanitizer.thy ===== *)
theory Sanitizer
  imports Mmu
begin

text \<open>
  The allocation sanitizers of \<open>crates/fs-san/src\<close>: the redzone and quarantine bookkeeping of
  \<open>Sanitizer\<close> (\<open>alloc.rs\<close>), the page-granular \<open>PageSanitizer\<close> (\<open>pages.rs\<close>) and the hypercall
  dispatcher (\<open>hypercall.rs\<close>).  The fields the two sanitizers share are the record \<open>tracker\<close>;
  a \<open>HashMap\<close> is a partial map, the quarantine queue a list, oldest first.  Every operation takes
  and returns the sanitizer and the memory it annotates, on every path: a failing one may leave
  either changed.  The lemmas give the bookkeeping invariant for any sequence of operations, as
  the locale \<open>tracking\<close> with both sanitizers as interpretations, and what memory permits after
  an allocation, a free and a slack re-opening.
\<close>

section \<open>Bookkeeping\<close>

definition DEFAULT_REDZONE :: u32 where "DEFAULT_REDZONE = 16"
definition DEFAULT_QUARANTINE_CAP :: nat where "DEFAULT_QUARANTINE_CAP = 4096"

record live_alloc =
  la_size :: u32
  la_redzone :: u32
  la_slack :: "(u32 \<times> u32) option"
  la_free_poisons :: bool

datatype san_error =
    DoubleAlloc u32
  | InvalidFree u32
  | UnknownPointer u32
  | SanMmu fault
  | InvalidPageOrder u32 u32

record 'a tracker =
  quarantine_cap :: nat
  live :: "u32 \<rightharpoonup> 'a"
  quarantine_order :: "u32 list"
  quarantined :: "u32 \<rightharpoonup> 'a"

record sanitizer = "live_alloc tracker" +
  redzone :: u32

definition with_quarantine_cap :: "u32 \<Rightarrow> nat \<Rightarrow> sanitizer" where
  "with_quarantine_cap rz cap =
     \<lparr>quarantine_cap = cap, live = Map.empty, quarantine_order = [], quarantined = Map.empty,
      redzone = rz\<rparr>"

definition sanitizer_new :: "u32 \<Rightarrow> sanitizer" where
  "sanitizer_new rz = with_quarantine_cap rz DEFAULT_QUARANTINE_CAP"

definition is_live :: "('a, 'm) tracker_scheme \<Rightarrow> u32 \<Rightarrow> bool" where
  "is_live s addr \<longleftrightarrow> live s addr \<noteq> None"

definition live_size :: "sanitizer \<Rightarrow> u32 \<Rightarrow> u32 option" where
  "live_size s addr = map_option la_size (live s addr)"

definition is_quarantined :: "('a, 'm) tracker_scheme \<Rightarrow> u32 \<Rightarrow> bool" where
  "is_quarantined s addr \<longleftrightarrow> quarantined s addr \<noteq> None"

definition evict_quarantine :: "u32 \<Rightarrow> ('a, 'm) tracker_scheme \<Rightarrow> ('a, 'm) tracker_scheme" where
  "evict_quarantine addr s =
     (if quarantined s addr \<noteq> None
      then s\<lparr>quarantined := (quarantined s)(addr := None),
             quarantine_order := filter (\<lambda>a. a \<noteq> addr) (quarantine_order s)\<rparr>
      else s)"

definition quarantine_push :: "u32 \<Rightarrow> 'a \<Rightarrow> ('a, 'm) tracker_scheme \<Rightarrow> ('a, 'm) tracker_scheme" where
  "quarantine_push addr a s =
     (let s1 = (if quarantine_cap s \<le> length (quarantine_order s)
                then case quarantine_order s of
                       [] \<Rightarrow> s
                     | oldest # rest \<Rightarrow>
                         s\<lparr>quarantine_order := rest, quarantined := (quarantined s)(oldest := None)\<rparr>
                else s)
      in s1\<lparr>quarantine_order := quarantine_order s1 @ [addr],
            quarantined := (quarantined s1)(addr \<mapsto> a)\<rparr>)"

section \<open>Stamping memory\<close>

definition u32_checked_add :: "u32 \<Rightarrow> u32 \<Rightarrow> u32 option" where
  "u32_checked_add a b = (if unat a + unat b < 2 ^ 32 then Some (a + b) else None)"

definition poison_guard_before :: "sanitizer \<Rightarrow> u32 \<Rightarrow> mmu \<Rightarrow> (san_error + unit) \<times> mmu" where
  "poison_guard_before s addr m =
     (if redzone s = 0 then (Inr (), m)
      else let start = addr - redzone s in
        if start \<le> addr \<and> in_bounds m start (redzone s)
        then apfst (map_err SanMmu) (poison m start (redzone s))
        else (Inr (), m))"

definition poison_guard_after :: "sanitizer \<Rightarrow> u32 \<Rightarrow> u32 \<Rightarrow> mmu \<Rightarrow> (san_error + unit) \<times> mmu" where
  "poison_guard_after s addr sz m =
     (if redzone s = 0 then (Inr (), m)
      else case u32_checked_add addr sz of
        None \<Rightarrow> (Inr (), m)
      | Some start \<Rightarrow>
          if in_bounds m start (redzone s)
          then apfst (map_err SanMmu) (poison m start (redzone s))
          else (Inr (), m))"

definition poison_slack :: "mmu \<Rightarrow> u32 \<Rightarrow> u32 \<Rightarrow> u32 \<Rightarrow> (san_error + unit) \<times> mmu" where
  "poison_slack m addr req_size bucket_size =
     (let slack_len = bucket_size - req_size in
      if slack_len = 0 then (Inr (), m)
      else case u32_checked_add addr req_size of
        None \<Rightarrow> (Inr (), m)
      | Some slack_start \<Rightarrow>
          if in_bounds m slack_start slack_len
          then apfst (map_err SanMmu) (poison m slack_start slack_len)
          else (Inr (), m))"

section \<open>The byte-granular sanitizer\<close>

definition san_alloc :: "u32 \<Rightarrow> u32 \<Rightarrow> sanitizer \<times> mmu \<Rightarrow> (san_error + unit) \<times> sanitizer \<times> mmu" where
  "san_alloc addr sz sm = (case sm of (s, m) \<Rightarrow>
     if live s addr \<noteq> None then (Inl (DoubleAlloc addr), s, m)
     else case bindR (poison_guard_before s addr m) (\<lambda>_ m1.
               bindR (poison_guard_after s addr sz m1) (\<lambda>_ m2.
               apfst (map_err SanMmu) (protect m2 addr sz (PERM_WRITE OR PERM_RAW)))) of
       (Inl e, m') \<Rightarrow> (Inl e, s, m')
     | (Inr _, m') \<Rightarrow>
         let s1 = evict_quarantine addr s in
         (Inr (), s1\<lparr>live := (live s1)(addr \<mapsto>
            \<lparr>la_size = sz, la_redzone = redzone s, la_slack = None, la_free_poisons = True\<rparr>)\<rparr>, m'))"

definition alloc_with_slack ::
    "u32 \<Rightarrow> u32 \<Rightarrow> u32 \<Rightarrow> sanitizer \<times> mmu \<Rightarrow> (san_error + unit) \<times> sanitizer \<times> mmu" where
  "alloc_with_slack addr req_size bucket_size0 sm = (case sm of (s, m) \<Rightarrow>
     if live s addr \<noteq> None then (Inl (DoubleAlloc addr), s, m)
     else let bucket_size = max bucket_size0 req_size in
       case bindR (apfst (map_err SanMmu) (protect m addr req_size (PERM_WRITE OR PERM_RAW))) (\<lambda>_ m1.
            poison_slack m1 addr req_size bucket_size) of
         (Inl e, m') \<Rightarrow> (Inl e, s, m')
       | (Inr _, m') \<Rightarrow>
           let s1 = evict_quarantine addr s in
           (Inr (), s1\<lparr>live := (live s1)(addr \<mapsto>
              \<lparr>la_size = bucket_size, la_redzone = 0, la_slack = Some (req_size, bucket_size),
               la_free_poisons = True\<rparr>)\<rparr>, m'))"

definition alloc_exact_no_uaf_guard ::
    "u32 \<Rightarrow> u32 \<Rightarrow> sanitizer \<times> mmu \<Rightarrow> (san_error + unit) \<times> sanitizer \<times> mmu" where
  "alloc_exact_no_uaf_guard addr sz sm = (case sm of (s, m) \<Rightarrow>
     if live s addr \<noteq> None then (Inl (DoubleAlloc addr), s, m)
     else case apfst (map_err SanMmu) (protect m addr sz (PERM_WRITE OR PERM_RAW)) of
       (Inl e, m') \<Rightarrow> (Inl e, s, m')
     | (Inr _, m') \<Rightarrow>
         let s1 = evict_quarantine addr s in
         (Inr (), s1\<lparr>live := (live s1)(addr \<mapsto>
            \<lparr>la_size = sz, la_redzone = 0, la_slack = None, la_free_poisons = False\<rparr>)\<rparr>, m'))"

definition reopen_slack :: "u32 \<Rightarrow> sanitizer \<times> mmu \<Rightarrow> (san_error + unit) \<times> sanitizer \<times> mmu" where
  "reopen_slack addr sm = (case sm of (s, m) \<Rightarrow>
     case live s addr of
       None \<Rightarrow> (Inl (UnknownPointer addr), s, m)
     | Some a \<Rightarrow>
         (case la_slack a of
            None \<Rightarrow> (Inr (), s, m)
          | Some (req_size, bucket_size) \<Rightarrow>
              let slack_len = bucket_size - req_size in
              if slack_len = 0 then (Inr (), s, m)
              else case u32_checked_add addr req_size of
                None \<Rightarrow> (Inr (), s, m)
              | Some slack_start \<Rightarrow>
                  (case apfst (map_err SanMmu)
                          (protect m slack_start slack_len (PERM_WRITE OR PERM_RAW)) of
                     (r, m') \<Rightarrow> (r, s, m'))))"

definition san_free :: "u32 \<Rightarrow> sanitizer \<times> mmu \<Rightarrow> (san_error + unit) \<times> sanitizer \<times> mmu" where
  "san_free addr sm = (case sm of (s, m) \<Rightarrow>
     case live s addr of
       None \<Rightarrow> (Inl (InvalidFree addr), s, m)
     | Some a \<Rightarrow>
         let s1 = s\<lparr>live := (live s)(addr := None)\<rparr> in
         if \<not> la_free_poisons a then (Inr (), s1, m)
         else case apfst (map_err SanMmu) (poison m addr (la_size a)) of
           (Inl e, m') \<Rightarrow> (Inl e, s1, m')
         | (Inr _, m') \<Rightarrow> (Inr (), quarantine_push addr a s1, m'))"

section \<open>The hypercall protocol\<close>

definition CMD_MALLOC :: u32 where "CMD_MALLOC = 0x5A4E0001"
definition CMD_FREE :: u32 where "CMD_FREE = 0x5A4E0002"

definition dispatch ::
    "u32 \<Rightarrow> u32 \<Rightarrow> u32 \<Rightarrow> sanitizer \<times> mmu \<Rightarrow> (san_error + unit) option \<times> sanitizer \<times> mmu" where
  "dispatch cmd a1 a2 sm =
     (if cmd = CMD_MALLOC then apfst Some (san_alloc a1 a2 sm)
      else if cmd = CMD_FREE then apfst Some (san_free a1 sm)
      else (None, sm))"

section \<open>The page-granular sanitizer\<close>

definition PAGE :: u32 where "PAGE = 4096"
definition DEFAULT_PAGE_QUARANTINE_CAP :: nat where "DEFAULT_PAGE_QUARANTINE_CAP = 4096"

record live_page_range =
  lpr_order :: u32

type_synonym page_sanitizer = "live_page_range tracker"

definition page_with_quarantine_cap :: "nat \<Rightarrow> page_sanitizer" where
  "page_with_quarantine_cap cap =
     \<lparr>quarantine_cap = cap, live = Map.empty, quarantine_order = [], quarantined = Map.empty\<rparr>"

definition page_sanitizer_new :: page_sanitizer where
  "page_sanitizer_new = page_with_quarantine_cap DEFAULT_PAGE_QUARANTINE_CAP"

definition live_order :: "page_sanitizer \<Rightarrow> u32 \<Rightarrow> u32 option" where
  "live_order s base_pa = map_option lpr_order (live s base_pa)"

definition page_range_len :: "u32 \<Rightarrow> u32 option" where
  "page_range_len order = (if 19 < order then None else Some (push_bit (unat order) PAGE))"

definition alloc_pages ::
    "u32 \<Rightarrow> u32 \<Rightarrow> page_sanitizer \<times> mmu \<Rightarrow> (san_error + unit) \<times> page_sanitizer \<times> mmu" where
  "alloc_pages base_pa order sm = (case sm of (s, m) \<Rightarrow>
     if live s base_pa \<noteq> None then (Inl (DoubleAlloc base_pa), s, m)
     else case page_range_len order of
       None \<Rightarrow> (Inl (InvalidPageOrder base_pa order), s, m)
     | Some len \<Rightarrow>
         (case apfst (map_err SanMmu) (protect m base_pa len (PERM_READ OR PERM_WRITE)) of
            (Inl e, m') \<Rightarrow> (Inl e, s, m')
          | (Inr _, m') \<Rightarrow>
              let s1 = evict_quarantine base_pa s in
              (Inr (), s1\<lparr>live := (live s1)(base_pa \<mapsto> \<lparr>lpr_order = order\<rparr>)\<rparr>, m')))"

definition free_pages ::
    "u32 \<Rightarrow> u32 \<Rightarrow> page_sanitizer \<times> mmu \<Rightarrow> (san_error + unit) \<times> page_sanitizer \<times> mmu" where
  "free_pages base_pa order sm = (case sm of (s, m) \<Rightarrow>
     case live s base_pa of
       None \<Rightarrow> (Inl (InvalidFree base_pa), s, m)
     | Some _ \<Rightarrow>
         let s1 = s\<lparr>live := (live s)(base_pa := None)\<rparr> in
         case page_range_len order of
           None \<Rightarrow> (Inl (InvalidPageOrder base_pa order), s1, m)
         | Some len \<Rightarrow>
             (case apfst (map_err SanMmu) (poison m base_pa len) of
                (Inl e, m') \<Rightarrow> (Inl e, s1, m')
              | (Inr _, m') \<Rightarrow> (Inr (), quarantine_push base_pa \<lparr>lpr_order = order\<rparr> s1, m')))"

section \<open>The bookkeeping invariant\<close>

text \<open>
  The queue lists each quarantined address once, no address is both live and quarantined, and the
  queue stays within its bound (a bound of 0 still keeps the most recent entry).
\<close>

definition tracker_inv :: "('a, 'm) tracker_scheme \<Rightarrow> bool" where
  "tracker_inv s \<longleftrightarrow> distinct (quarantine_order s) \<and> set (quarantine_order s) = dom (quarantined s) \<and>
     dom (live s) \<inter> dom (quarantined s) = {} \<and> length (quarantine_order s) \<le> max 1 (quarantine_cap s)"

lemma tracker_inv_new:
  "tracker_inv (with_quarantine_cap rz cap)" "tracker_inv (page_with_quarantine_cap cap)"
  by (simp_all add: tracker_inv_def with_quarantine_cap_def page_with_quarantine_cap_def)

lemma evict_then_insert:
  assumes "tracker_inv s"
  shows "tracker_inv (evict_quarantine addr s\<lparr>live := (live (evict_quarantine addr s))(addr \<mapsto> a)\<rparr>)"
  using assms le_trans [OF length_filter_le]
  by (auto simp: tracker_inv_def evict_quarantine_def domIff)

lemma remove_live:
  "tracker_inv s \<Longrightarrow> tracker_inv (s\<lparr>live := (live s)(addr := None)\<rparr>)"
  by (auto simp: tracker_inv_def)

lemma quarantine_push_inv:
  assumes "tracker_inv s" "live s addr = None" "quarantined s addr = None"
  shows "tracker_inv (quarantine_push addr a s)"
proof (cases "quarantine_order s")
  case Nil
  with assms show ?thesis by (auto simp: tracker_inv_def quarantine_push_def Let_def domIff)
next
  case (Cons x xs)
  with assms show ?thesis
    by (auto simp: tracker_inv_def quarantine_push_def Let_def domIff)
qed

lemma live_not_quarantined:
  "tracker_inv s \<Longrightarrow> live s addr = Some a \<Longrightarrow> quarantined s addr = None"
  by (auto simp: tracker_inv_def)

lemma free_then_push:
  assumes "tracker_inv s" "live s addr = Some b"
  shows "tracker_inv (quarantine_push addr a (s\<lparr>live := (live s)(addr := None)\<rparr>))"
  using quarantine_push_inv [OF remove_live [OF assms(1)]] live_not_quarantined [OF assms] by simp

section \<open>The contract shared by the sanitizers\<close>

definition ops_run :: "('op \<Rightarrow> 's \<Rightarrow> (san_error + unit) \<times> 's) \<Rightarrow> 'op list \<Rightarrow> 's \<Rightarrow> 's" where
  "ops_run step ops sm = fold (\<lambda>op sm. snd (step op sm)) ops sm"

locale tracking =
  fixes step :: "'op \<Rightarrow> ('a, 'm) tracker_scheme \<times> mmu \<Rightarrow>
      (san_error + unit) \<times> ('a, 'm) tracker_scheme \<times> mmu"
    and free_op :: "u32 \<Rightarrow> 'op \<Rightarrow> bool"
  assumes step_inv: "tracker_inv (fst sm) \<Longrightarrow> tracker_inv (fst (snd (step op sm)))"
    and step_wf: "mmu_wf (snd sm) \<Longrightarrow> mmu_wf (snd (snd (step op sm)))"
    and step_window: "offset (snd (snd (step op sm))) = offset (snd sm)"
    and free_dead: "free_op a op \<Longrightarrow> live (fst sm) a = None \<Longrightarrow> step op sm = (Inl (InvalidFree a), sm)"
    and free_removes: "free_op a op \<Longrightarrow> live (fst (snd (step op sm))) a = None"
begin

lemma run_ok:
  "tracker_inv (fst sm) \<Longrightarrow> mmu_wf (snd sm) \<Longrightarrow>
     tracker_inv (fst (ops_run step ops sm)) \<and> mmu_wf (snd (ops_run step ops sm)) \<and>
     offset (snd (ops_run step ops sm)) = offset (snd sm)"
  unfolding ops_run_def
  by (induction ops arbitrary: sm) (simp_all add: step_inv step_wf step_window)

lemma double_free:
  assumes "free_op a op" "free_op a op'"
  shows "step op' (snd (step op sm)) = (Inl (InvalidFree a), snd (step op sm))"
  using free_dead [OF assms(2) free_removes [OF assms(1)]] .

end

datatype san_op =
    AllocOp u32 u32
  | SlackOp u32 u32 u32
  | ExactOp u32 u32
  | ReopenOp u32
  | FreeOp u32

fun san_step :: "san_op \<Rightarrow> sanitizer \<times> mmu \<Rightarrow> (san_error + unit) \<times> sanitizer \<times> mmu" where
  "san_step (AllocOp a n) = san_alloc a n"
| "san_step (SlackOp a n b) = alloc_with_slack a n b"
| "san_step (ExactOp a n) = alloc_exact_no_uaf_guard a n"
| "san_step (ReopenOp a) = reopen_slack a"
| "san_step (FreeOp a) = san_free a"

datatype page_op = PageAllocOp u32 u32 | PageFreeOp u32 u32

fun page_step :: "page_op \<Rightarrow> page_sanitizer \<times> mmu \<Rightarrow> (san_error + unit) \<times> page_sanitizer \<times> mmu" where
  "page_step (PageAllocOp a n) = alloc_pages a n"
| "page_step (PageFreeOp a n) = free_pages a n"

text \<open>Every stamping of memory keeps it well formed and its window in place.\<close>

definition stamps :: "mmu \<Rightarrow> mmu \<Rightarrow> bool" where
  "stamps m m' \<longleftrightarrow> (mmu_wf m \<longrightarrow> mmu_wf m') \<and> offset m' = offset m \<and> mmu_mem m' = mmu_mem m"

lemma stamps_refl: "stamps m m"
  by (simp add: stamps_def)

lemma stamps_trans: "stamps m m1 \<Longrightarrow> stamps m1 m2 \<Longrightarrow> stamps m m2"
  by (simp add: stamps_def)

lemma protect_stamps: "stamps m (snd (protect m addr len p))"
  by (simp add: stamps_def perms_loop_wf fun_eq_iff offset_def protect_def perms_loop_frame)

lemma guard_stamps:
  "stamps m (snd (poison_guard_before s addr m))"
  "stamps m (snd (poison_guard_after s addr n m))"
  "stamps m (snd (poison_slack m addr r b))"
  by (simp_all add: poison_guard_before_def poison_guard_after_def poison_slack_def poison_def Let_def
      stamps_refl protect_stamps split: option.split)

lemma bindR_stamps:
  "stamps m (snd x) \<Longrightarrow> (\<And>a m1. x = (Inr a, m1) \<Longrightarrow> stamps m1 (snd (f a m1))) \<Longrightarrow>
     stamps m (snd (bindR x f))"
  by (cases x; cases "fst x") (auto intro: stamps_trans)

lemma alloc_stamping:
  "stamps m (snd (bindR (poison_guard_before s addr m) (\<lambda>_ m1.
     bindR (poison_guard_after s addr sz m1) (\<lambda>_ m2.
     apfst (map_err SanMmu) (protect m2 addr sz p)))))"
  "stamps m (snd (bindR (apfst (map_err SanMmu) (protect m addr sz p)) (\<lambda>_ m1.
     poison_slack m1 addr sz bucket)))"
  by (auto intro!: bindR_stamps guard_stamps simp: protect_stamps)

lemma san_step_stamps: "stamps (snd sm) (snd (snd (san_step op sm)))"
proof (cases sm; cases op)
  fix s m a n assume [simp]: "sm = (s, m)" "op = AllocOp a n"
  show ?thesis using alloc_stamping(1) [of m s a n "PERM_WRITE OR PERM_RAW"]
    by (auto simp: san_alloc_def Let_def stamps_refl split: prod.split sum.split)
next
  fix s m a n b assume [simp]: "sm = (s, m)" "op = SlackOp a n b"
  show ?thesis using alloc_stamping(2) [of m a n "PERM_WRITE OR PERM_RAW" "max b n"]
    by (auto simp: alloc_with_slack_def Let_def stamps_refl split: prod.split sum.split)
next
  fix s m a n assume [simp]: "sm = (s, m)" "op = ExactOp a n"
  show ?thesis using protect_stamps [of m a n "PERM_WRITE OR PERM_RAW"]
    by (auto simp: alloc_exact_no_uaf_guard_def Let_def stamps_refl case_prod_beta split: sum.split)
next
  fix s m a assume [simp]: "sm = (s, m)" "op = ReopenOp a"
  show ?thesis
    by (auto simp: reopen_slack_def Let_def stamps_refl case_prod_beta protect_stamps
        split: option.split)
next
  fix s m a assume [simp]: "sm = (s, m)" "op = FreeOp a"
  have "stamps m (snd (poison m a n))" for n by (simp add: poison_def protect_stamps)
  then show ?thesis
    by (auto simp: san_free_def Let_def stamps_refl case_prod_beta split: option.split sum.split)
qed

lemma page_step_stamps: "stamps (snd sm) (snd (snd (page_step op sm)))"
proof (cases sm; cases op)
  fix s m a n assume "sm = (s, m)" "op = PageAllocOp a n"
  then show ?thesis
    by (auto simp: alloc_pages_def Let_def stamps_refl case_prod_beta protect_stamps
        split: option.split sum.split)
next
  fix s m a n assume "sm = (s, m)" "op = PageFreeOp a n"
  moreover have "stamps m (snd (poison m a n))" for n by (simp add: poison_def protect_stamps)
  ultimately show ?thesis
    by (auto simp: free_pages_def Let_def stamps_refl case_prod_beta split: option.split sum.split)
qed

lemma san_step_inv: "tracker_inv (fst sm) \<Longrightarrow> tracker_inv (fst (snd (san_step op sm)))"
  by (cases sm; cases op)
    (auto simp: san_alloc_def alloc_with_slack_def alloc_exact_no_uaf_guard_def reopen_slack_def
      san_free_def Let_def case_prod_beta evict_then_insert remove_live free_then_push
      split: option.split sum.split)

lemma page_step_inv: "tracker_inv (fst sm) \<Longrightarrow> tracker_inv (fst (snd (page_step op sm)))"
  by (cases sm; cases op)
    (auto simp: alloc_pages_def free_pages_def Let_def case_prod_beta evict_then_insert remove_live
      free_then_push split: option.split sum.split)

lemma quarantine_push_live [simp]: "live (quarantine_push addr a s) = live s"
  by (simp add: quarantine_push_def Let_def split: list.split)

fun frees :: "u32 \<Rightarrow> san_op \<Rightarrow> bool" where
  "frees a (FreeOp b) \<longleftrightarrow> a = b"
| "frees a _ \<longleftrightarrow> False"

fun page_frees :: "u32 \<Rightarrow> page_op \<Rightarrow> bool" where
  "page_frees a (PageFreeOp b n) \<longleftrightarrow> a = b"
| "page_frees a (PageAllocOp b n) \<longleftrightarrow> False"

interpretation san: tracking san_step frees
proof (unfold_locales, goal_cases)
  case (1 sm op) then show ?case by (rule san_step_inv)
next
  case (2 sm op) then show ?case using san_step_stamps [of sm op] by (simp add: stamps_def)
next
  case (3 op sm) then show ?case using san_step_stamps [of sm op] by (simp add: stamps_def)
next
  case (4 a op sm) then show ?case by (cases op) (auto simp: san_free_def split: prod.split)
next
  case (5 a op sm) then show ?case
    by (cases op) (auto simp: san_free_def Let_def case_prod_beta split: option.split sum.split)
qed

interpretation pages: tracking page_step page_frees
proof (unfold_locales, goal_cases)
  case (1 sm op) then show ?case by (rule page_step_inv)
next
  case (2 sm op) then show ?case using page_step_stamps [of sm op] by (simp add: stamps_def)
next
  case (3 op sm) then show ?case using page_step_stamps [of sm op] by (simp add: stamps_def)
next
  case (4 a op sm) then show ?case by (cases op) (auto simp: free_pages_def split: prod.split)
next
  case (5 a op sm) then show ?case
    by (cases op) (auto simp: free_pages_def Let_def case_prod_beta split: option.split sum.split)
qed

section \<open>What memory permits afterwards\<close>

abbreviation (input) stamp :: "u8 \<Rightarrow> u32 \<Rightarrow> nat \<Rightarrow> view \<Rightarrow> view" where
  "stamp p a0 n v \<equiv> stamped (\<lambda>_. p) v a0 n"

lemma stamped_perm:
  "stamped (\<lambda>_. p) v a0 n a = (if unat (a - a0) < n then map_option (\<lambda>(b, _). (b, p)) (v a) else v a)"
  by (simp add: stamped_def apsnd_def map_prod_def id_def case_prod_beta)

lemma apfst_Inr_conv: "apfst (map_err f) x = (Inr a, m') \<longleftrightarrow> x = (Inr a, m')"
  by (cases x) simp

lemma in_bounds_cong: "offset m' = offset m \<Longrightarrow> mmu_base m' = mmu_base m \<Longrightarrow> mmu_end m' = mmu_end m \<Longrightarrow>
    in_bounds m' a n = in_bounds m a n"
  by (simp only: in_bounds_def)

lemma in_bounds_protect [simp]: "in_bounds (snd (protect m addr len p)) a n = in_bounds m a n"
  using protect_stamps [of m addr len p]
  by (intro in_bounds_cong) (simp_all add: stamps_def mmu_end_def protect_def perms_loop_frame)

definition guards_before :: "sanitizer \<Rightarrow> u32 \<Rightarrow> mmu \<Rightarrow> bool" where
  "guards_before s addr m \<longleftrightarrow>
     redzone s \<noteq> 0 \<and> addr - redzone s \<le> addr \<and> in_bounds m (addr - redzone s) (redzone s)"

definition guards_after :: "sanitizer \<Rightarrow> u32 \<Rightarrow> u32 \<Rightarrow> mmu \<Rightarrow> bool" where
  "guards_after s addr n m \<longleftrightarrow>
     redzone s \<noteq> 0 \<and> unat addr + unat n < 4294967296 \<and> in_bounds m (addr + n) (redzone s)"

lemma poison_guard_before_peek:
  assumes "mmu_wf m" "poison_guard_before s addr m = (Inr (), m')"
  shows "mmu_peek m' = (if guards_before s addr m
      then stamp 0 (addr - redzone s) (unat (redzone s)) (mmu_peek m) else mmu_peek m)"
    and "in_bounds m' a n = in_bounds m a n"
  using assms protect_peek [OF assms(1), of "addr - redzone s" "redzone s" 0 m']
    in_bounds_protect [of m "addr - redzone s" "redzone s" 0 a n]
  by (cases "protect m (addr - redzone s) (redzone s) 0";
      auto simp: poison_guard_before_def guards_before_def poison_def Let_def split: if_splits)+

lemma poison_guard_after_peek:
  assumes "mmu_wf m" "poison_guard_after s addr n m = (Inr (), m')"
  shows "mmu_peek m' = (if guards_after s addr n m
      then stamp 0 (addr + n) (unat (redzone s)) (mmu_peek m) else mmu_peek m)"
  using assms protect_peek [OF assms(1), of "addr + n" "redzone s" 0 m']
  by (cases "protect m (addr + n) (redzone s) 0";
      auto simp: poison_guard_after_def guards_after_def poison_def Let_def u32_checked_add_def
        split: if_splits)

lemma san_alloc_peek:
  assumes wf: "mmu_wf m" and ok: "san_alloc addr n (s, m) = (Inr (), s', m')"
  shows "mmu_wf m'"
    and "mmu_peek m' = stamp (PERM_WRITE OR PERM_RAW) addr (unat n)
      ((if guards_after s addr n m then stamp 0 (addr + n) (unat (redzone s)) else id)
      ((if guards_before s addr m then stamp 0 (addr - redzone s) (unat (redzone s)) else id)
        (mmu_peek m)))"
    and "unat (a - addr) < unat n \<Longrightarrow> offset m a \<noteq> None"
proof -
  obtain m1 m2 where 1: "poison_guard_before s addr m = (Inr (), m1)"
    and 2: "poison_guard_after s addr n m1 = (Inr (), m2)"
    and 3: "protect m2 addr n (PERM_WRITE OR PERM_RAW) = (Inr (), m')"
  proof -
    have "bindR (poison_guard_before s addr m) (\<lambda>_ m1. bindR (poison_guard_after s addr n m1) (\<lambda>_ m2.
        apfst (map_err SanMmu) (protect m2 addr n (PERM_WRITE OR PERM_RAW)))) = (Inr (), m')"
      using ok by (simp add: san_alloc_def Let_def split: if_splits prod.splits sum.splits)
    then show ?thesis using that by (auto simp: bindR_Inr_conv apfst_Inr_conv)
  qed
  have wf1: "mmu_wf m1" using guard_stamps(1) [of m s addr] 1 wf by (simp add: stamps_def)
  have wf2: "mmu_wf m2" using guard_stamps(2) [of m1 s addr n] 2 wf1 by (simp add: stamps_def)
  show "mmu_wf m'" using protect_wf [OF wf2] 3 by (metis snd_conv)
  have "guards_after s addr n m1 = guards_after s addr n m"
    by (simp add: guards_after_def poison_guard_before_peek(2) [OF wf 1])
  then show "mmu_peek m' = stamp (PERM_WRITE OR PERM_RAW) addr (unat n)
      ((if guards_after s addr n m then stamp 0 (addr + n) (unat (redzone s)) else id)
      ((if guards_before s addr m then stamp 0 (addr - redzone s) (unat (redzone s)) else id)
        (mmu_peek m)))"
    by (simp add: protect_peek [OF wf2 3] poison_guard_after_peek [OF wf1 2]
        poison_guard_before_peek(1) [OF wf 1])
  show "offset m a \<noteq> None" if "unat (a - addr) < unat n"
    using protect_in_window [OF 3 that] guard_stamps(1) [of m s addr] guard_stamps(2) [of m1 s addr n] 1 2
    by (simp add: stamps_def)
qed

lemma san_free_peek:
  assumes wf: "mmu_wf m" and live: "live s addr = Some a" "la_free_poisons a"
    and ok: "san_free addr (s, m) = (Inr (), s', m')"
  shows "mmu_wf m'" "mmu_peek m' = stamp 0 addr (unat (la_size a)) (mmu_peek m)"
    and "unat (x - addr) < unat (la_size a) \<Longrightarrow> offset m x \<noteq> None"
    and "quarantined s' addr = Some a" "live s' addr = None"
proof -
  have "apfst (map_err SanMmu) (poison m addr (la_size a)) = (Inr (), m')"
    and s': "s' = quarantine_push addr a (s\<lparr>live := (live s)(addr := None)\<rparr>)"
    using ok live by (simp_all add: san_free_def Let_def split: prod.splits sum.splits)
  then have p: "protect m addr (la_size a) 0 = (Inr (), m')" by (simp add: apfst_Inr_conv poison_def)
  show "mmu_wf m'" using protect_wf [OF wf] p by (metis snd_conv)
  show "mmu_peek m' = stamp 0 addr (unat (la_size a)) (mmu_peek m)" by (rule protect_peek [OF wf p])
  show "unat (x - addr) < unat (la_size a) \<Longrightarrow> offset m x \<noteq> None" by (rule protect_in_window [OF p])
  show "quarantined s' addr = Some a" by (simp add: s' quarantine_push_def Let_def)
  show "live s' addr = None" by (simp add: s')
qed

definition slack_poisoned :: "u32 \<Rightarrow> u32 \<Rightarrow> u32 \<Rightarrow> mmu \<Rightarrow> bool" where
  "slack_poisoned addr r b m \<longleftrightarrow>
     r < b \<and> unat addr + unat r < 4294967296 \<and> in_bounds m (addr + r) (b - r)"

lemma poison_slack_peek:
  assumes "mmu_wf m" "r \<le> b" "poison_slack m addr r b = (Inr (), m')"
  shows "mmu_peek m' = (if slack_poisoned addr r b m
      then stamp 0 (addr + r) (unat (b - r)) (mmu_peek m) else mmu_peek m)"
  using assms protect_peek [OF assms(1), of "addr + r" "b - r" 0 m']
  by (cases "protect m (addr + r) (b - r) 0")
    (auto simp: poison_slack_def slack_poisoned_def poison_def Let_def u32_checked_add_def
        split: if_splits)

lemma alloc_with_slack_peek:
  assumes wf: "mmu_wf m" and b: "b = max b0 r"
    and ok: "alloc_with_slack addr r b0 (s, m) = (Inr (), s', m')"
  shows "mmu_wf m'"
    and "mmu_peek m' = (if slack_poisoned addr r b m then stamp 0 (addr + r) (unat (b - r)) else id)
      (stamp (PERM_WRITE OR PERM_RAW) addr (unat r) (mmu_peek m))"
    and "unat (x - addr) < unat r \<Longrightarrow> offset m x \<noteq> None"
    and "live s' addr = Some \<lparr>la_size = b, la_redzone = 0, la_slack = Some (r, b), la_free_poisons = True\<rparr>"
    and "offset m' = offset m"
proof -
  have "bindR (apfst (map_err SanMmu) (protect m addr r (PERM_WRITE OR PERM_RAW))) (\<lambda>_ m1.
      poison_slack m1 addr r b) = (Inr (), m')"
    and live: "live s' addr = Some \<lparr>la_size = b, la_redzone = 0, la_slack = Some (r, b), la_free_poisons = True\<rparr>"
    using ok by (auto simp: alloc_with_slack_def Let_def b split: if_splits prod.splits sum.splits)
  then obtain m1 where 1: "protect m addr r (PERM_WRITE OR PERM_RAW) = (Inr (), m1)"
    and 2: "poison_slack m1 addr r b = (Inr (), m')"
    by (auto simp: bindR_Inr_conv apfst_Inr_conv)
  have st: "stamps m m1" "stamps m1 m'"
    using protect_stamps [of m addr r "PERM_WRITE OR PERM_RAW"] guard_stamps(3) [of m1 addr r b] 1 2
    by simp_all
  then have wf1: "mmu_wf m1" using wf by (simp add: stamps_def)
  then show "mmu_wf m'" "offset m' = offset m" using st by (simp_all add: stamps_def)
  have "slack_poisoned addr r b m1 = slack_poisoned addr r b m"
    using in_bounds_protect [of m addr r "PERM_WRITE OR PERM_RAW"] 1 by (simp add: slack_poisoned_def)
  then show "mmu_peek m' = (if slack_poisoned addr r b m then stamp 0 (addr + r) (unat (b - r)) else id)
      (stamp (PERM_WRITE OR PERM_RAW) addr (unat r) (mmu_peek m))"
    using poison_slack_peek [OF wf1 _ 2] by (simp add: b protect_peek [OF wf 1])
  show "unat (x - addr) < unat r \<Longrightarrow> offset m x \<noteq> None" by (rule protect_in_window [OF 1])
  show "live s' addr = Some \<lparr>la_size = b, la_redzone = 0, la_slack = Some (r, b), la_free_poisons = True\<rparr>"
    by (rule live)
qed

lemma reopen_slack_peek:
  assumes wf: "mmu_wf m" and "live s addr = Some a" "la_slack a = Some (r, b)" "r < b"
    and "unat addr + unat r < 4294967296" "reopen_slack addr (s, m) = (Inr (), s', m')"
  shows "s' = s" "mmu_peek m' = stamp (PERM_WRITE OR PERM_RAW) (addr + r) (unat (b - r)) (mmu_peek m)"
    and "unat (x - (addr + r)) < unat (b - r) \<Longrightarrow> offset m x \<noteq> None"
proof -
  have p: "protect m (addr + r) (b - r) (PERM_WRITE OR PERM_RAW) = (Inr (), m')" and "s' = s"
    using assms by (auto simp: reopen_slack_def Let_def u32_checked_add_def apfst_Inr_conv
        split: prod.splits if_splits)
  then show "s' = s" "mmu_peek m' = stamp (PERM_WRITE OR PERM_RAW) (addr + r) (unat (b - r)) (mmu_peek m)"
    using protect_peek [OF wf p] by simp_all
  show "unat (x - (addr + r)) < unat (b - r) \<Longrightarrow> offset m x \<noteq> None" by (rule protect_in_window [OF p])
qed

section \<open>Denied bytes stay denied\<close>

context soft_mmu
begin

lemma write_keeps_denied:
  assumes "inv s" "length d \<le> 4294967296" "\<not> allows PERM_WRITE (peek s) a"
  shows "peek (snd (wr s addr d)) a = peek s a"
proof -
  have a: "addr + of_nat (unat (a - addr)) = a" by simp
  show ?thesis
  proof (cases "\<forall>k<length d. allows PERM_WRITE (peek s) (addr + of_nat k)")
    case True
    then have "length d \<le> unat (a - addr)"
      using assms(3) by (metis a not_less)
    then show ?thesis by (rule write_frame [OF assms(1,2)])
  next
    case False
    then obtain k where k: "k < length d" "\<not> allows PERM_WRITE (peek s) (addr + of_nat k)"
      "\<forall>j<k. allows PERM_WRITE (peek s) (addr + of_nat j)" by (rule first_failure)
    then have "k \<le> unat (a - addr)"
      using assms(3) by (metis a not_less)
    then show ?thesis using write_fault(2) [OF assms(1,2) k] by (simp add: stored_def)
  qed
qed

lemma denied_access_faults:
  assumes "inv s" "peek s (p + of_nat i) = Some (b, 0)"
  shows "i < length buf \<Longrightarrow> fst (rd s p buf) \<noteq> Inr ()"
    and "i < length d \<Longrightarrow> length d \<le> 4294967296 \<Longrightarrow> fst (wr s p d) \<noteq> Inr ()"
  using assms read_ok_iff [of s p buf] write_ok_iff [of s d p] by (auto simp: allows_def)

end

end
