(* ===== verification/San_Results.thy ===== *)
theory San_Results
  imports Sanitizer Memory_Results
begin

text \<open>
  The promises of the allocation sanitizers: the bookkeeping invariant and double-free reports for
  any sequence of operations, use-after-free detection, the oracles around a fresh allocation,
  and the confinement of slack poisoning to an allocation's own bucket.
\<close>

text \<open>
  C29.  Bookkeeping of both sanitizers, from any bound and after any sequence of operations on any
  memory, successful or not: the quarantine queue holds each quarantined address once, none of them
  is live, and the queue exceeds its bound only by keeping one entry under a bound of zero; and
  freeing an address that was just freed (or failed to be) is always reported as an invalid free
  and changes nothing.\<close>

theorem sanitizers_bookkeeping:
  assumes "mmu_wf m"
  shows "tracker_inv (fst (ops_run san_step ops (with_quarantine_cap rz cap, m))) \<and>
    tracker_inv (fst (ops_run page_step pops (page_with_quarantine_cap cap, m))) \<and>
    san_free a (snd (san_free a sm)) = (Inl (InvalidFree a), snd (san_free a sm)) \<and>
    free_pages a n' (snd (free_pages a n pm)) = (Inl (InvalidFree a), snd (free_pages a n pm))"
  using san.run_ok [of "(with_quarantine_cap rz cap, m)" ops] tracker_inv_new(1) assms
    pages.run_ok [of "(page_with_quarantine_cap cap, m)" pops] tracker_inv_new(2)
    san.double_free [of a "FreeOp a" "FreeOp a" sm]
    pages.double_free [of a "PageFreeOp a n" "PageFreeOp a n'" pm]
  by simp

theorem sanitizers_bookkeeping_witness:
  "tracker_inv (fst (ops_run san_step [AllocOp 0x1000 4, FreeOp 0x1000, FreeOp 0x1000]
     (with_quarantine_cap 0 1, sample_mmu)))"
  using sanitizers_bookkeeping [OF sample_wf] by blast

lemma writes_keep_denied:
  assumes "mmu_wf m" "mmu_peek m a = Some (b, 0)" "\<forall>(x, d) \<in> set ws. length d \<le> 4294967296"
  shows "mmu_wf (writes ws m) \<and> mmu_peek (writes ws m) a = Some (b, 0)"
  using assms unfolding writes_def
proof (induction ws arbitrary: m)
  case (Cons w ws)
  have "\<not> allows PERM_WRITE (mmu_peek m) a" using Cons.prems(2) by (simp add: allows_def)
  then have "mmu_peek (snd (mmu_write m (fst w) (snd w))) a = Some (b, 0)"
    using flat.write_keeps_denied [of m "snd w" a "fst w"] Cons.prems by auto
  with Cons show ?case by (auto simp: case_prod_beta mmu_write_wf)
qed simp

text \<open>
  C17.  Use after free is caught: once \<open>free\<close> has succeeded on an ordinary allocation, then after any
  sequence of guest writes, every read and every write that touches one of its bytes faults, and
  the address is reported as quarantined.\<close>

theorem use_after_free_faults:
  assumes "mmu_wf m" "live s addr = Some al" "la_free_poisons al"
    and "san_free addr (s, m) = (Inr (), s', m')"
    and "\<forall>(x, d) \<in> set ws. length d \<le> 2 ^ 32"
    and "unat (p + of_nat i - addr) < unat (la_size al)"
  shows "(i < length buf \<longrightarrow> fst (mmu_read (writes ws m') p buf) \<noteq> Inr ()) \<and>
    (i < length d \<and> length d \<le> 2 ^ 32 \<longrightarrow> fst (mmu_write (writes ws m') p d) \<noteq> Inr ()) \<and>
    is_quarantined s' addr \<and> \<not> is_live s' addr"
proof -
  note free = san_free_peek [OF assms(1-4)]
  obtain off where "offset m (p + of_nat i) = Some off" using free(3) assms(6) by blast
  then obtain b where "mmu_peek m' (p + of_nat i) = Some (b, 0)"
    using assms(6) by (simp add: free(2) stamped_perm mmu_peek_def)
  then have "mmu_wf (writes ws m') \<and> mmu_peek (writes ws m') (p + of_nat i) = Some (b, 0)"
    using writes_keep_denied [OF free(1)] assms(5) by simp
  then show ?thesis
    using flat.denied_access_faults [of "writes ws m'" p i b] free(4,5)
    by (simp add: is_quarantined_def is_live_def)
qed

definition sample_heap :: sanitizer where
  "sample_heap = (with_quarantine_cap 1 4)\<lparr>live := [0x1002 \<mapsto>
     \<lparr>la_size = 2, la_redzone = 1, la_slack = None, la_free_poisons = True\<rparr>]\<rparr>"

theorem use_after_free_faults_witness:
  "fst (mmu_read (writes [(0x1000, [7, 7])] (snd (snd (san_free 0x1002 (sample_heap, sample_mmu))))) 0x1002 [0]) \<noteq> Inr ()"
proof -
  have "fst (san_free 0x1002 (sample_heap, sample_mmu)) = Inr ()" by code_simp
  then have "san_free 0x1002 (sample_heap, sample_mmu) =
      (Inr (), fst (snd (san_free 0x1002 (sample_heap, sample_mmu))),
       snd (snd (san_free 0x1002 (sample_heap, sample_mmu))))" by (simp add: prod_eq_iff)
  from use_after_free_faults [OF sample_wf _ _ this, where i = 0] show ?thesis
    by (simp add: sample_heap_def)
qed

lemma stamp_denies: "unat (a - a0) < n \<Longrightarrow> \<not> allows p (stamped (\<lambda>_. 0) v a0 n) a"
  by (cases "v a") (auto simp: allows_def stamped_perm)

lemma write_raw_writable: "(PERM_WRITE OR PERM_RAW) AND PERM_WRITE \<noteq> 0"
  by (simp add: perm_simps bit_or_iff)

lemma alloc_payload:
  assumes "mmu_wf m" "san_alloc addr n (s, m) = (Inr (), s', m')" "k < unat n"
  obtains b where "mmu_peek m' (addr + of_nat k) = Some (b, PERM_WRITE OR PERM_RAW)"
proof -
  have k: "unat (of_nat k :: u32) = k" using assms(3) unat_lt_u32 [of n] by (simp del: unat_lt_u32)
  then obtain off where "offset m (addr + of_nat k) = Some off"
    using san_alloc_peek(3) [OF assms(1,2), of "addr + of_nat k"] assms(3) by auto
  then show ?thesis using that k assms(3)
    by (auto simp: san_alloc_peek(2) [OF assms(1,2)] stamped_perm mmu_peek_def)
qed

text \<open>The guard bytes \<open>alloc\<close> poisons: those of the red zones that lie in the window, outside the payload.\<close>

definition guard_byte :: "sanitizer \<Rightarrow> u32 \<Rightarrow> u32 \<Rightarrow> mmu \<Rightarrow> u32 \<Rightarrow> bool" where
  "guard_byte s addr n m x \<longleftrightarrow> unat n \<le> unat (x - addr) \<and>
     (guards_after s addr n m \<and> unat (x - (addr + n)) < unat (redzone s) \<or>
      guards_before s addr m \<and> unat (x - (addr - redzone s)) < unat (redzone s))"

lemma alloc_guards:
  assumes "mmu_wf m" "san_alloc addr n (s, m) = (Inr (), s', m')" "guard_byte s addr n m x"
  shows "\<not> allows p (mmu_peek m') x"
  using assms(3) unfolding san_alloc_peek(2) [OF assms(1,2)]
  by (auto simp: guard_byte_def allows_def stamped_perm split: option.splits)

lemma untouchable:
  assumes "mmu_wf m" "\<And>p. \<not> allows p (mmu_peek m) (a + of_nat i)"
  shows "i < length buf \<Longrightarrow> fst (mmu_read m a buf) \<noteq> Inr ()"
    and "i < length d \<Longrightarrow> length d \<le> 2 ^ 32 \<Longrightarrow> fst (mmu_write m a d) \<noteq> Inr ()"
  using assms flat.read_ok_iff [OF assms(1), of a buf] flat.write_ok_iff [OF assms(1), of d a] by auto

lemma alloc_write_back:
  assumes wf: "mmu_wf m" and ok: "san_alloc addr n (s, m) = (Inr (), s', m')" and fits: "k + length d \<le> unat n"
  shows "\<exists>m''. mmu_write m' (addr + of_nat k) d = (Inr (), m'') \<and>
    mmu_read m'' (addr + of_nat k) (replicate (length d) 0) = (Inr (), d)"
proof -
  note wf' = san_alloc_peek(1) [OF wf ok]
  have len: "length d \<le> 4294967296" using fits unat_lt_u32 [of n] by linarith
  have "allows PERM_WRITE (mmu_peek m') (addr + of_nat k + of_nat j)" if "j < length d" for j
  proof -
    have "k + j < unat n" using that fits by simp
    then obtain b where "mmu_peek m' (addr + of_nat (k + j)) = Some (b, PERM_WRITE OR PERM_RAW)"
      by (rule alloc_payload [OF wf ok])
    then show ?thesis by (simp add: allows_def write_raw_writable add.assoc)
  qed
  then have "fst (mmu_write m' (addr + of_nat k) d) = Inr ()"
    using flat.write_ok_iff [OF wf' len] by simp
  then obtain m'' where "mmu_write m' (addr + of_nat k) d = (Inr (), m'')" by (metis prod.collapse)
  then show ?thesis using flat.read_back [OF wf' len] by auto
qed

text \<open>
  C18.  The oracles around a fresh allocation.  After \<open>alloc\<close> succeeded: a read that starts at a
  payload byte faults (uninitialised); a write inside the payload succeeds and is read back; every
  read and every write, of any length, that touches a guard byte before or behind the payload (a
  red zone lying in the window) faults; and no byte outside payload and guards changed.\<close>

theorem alloc_arms_oracles:
  assumes wf: "mmu_wf m" and ok: "san_alloc addr n (s, m) = (Inr (), s', m')"
  shows "(k < unat n \<and> buf \<noteq> [] \<longrightarrow> fst (mmu_read m' (addr + of_nat k) buf) =
        Inl (mk_fault (addr + of_nat k) (of_nat (length buf)) Read Permission)) \<and>
    (k + length d \<le> unat n \<longrightarrow> (\<exists>m''. mmu_write m' (addr + of_nat k) d = (Inr (), m'') \<and>
      mmu_read m'' (addr + of_nat k) (replicate (length d) 0) = (Inr (), d))) \<and>
    (guard_byte s addr n m (p + of_nat i) \<longrightarrow>
      (i < length buf \<longrightarrow> fst (mmu_read m' p buf) \<noteq> Inr ()) \<and>
      (i < length d \<and> length d \<le> 2 ^ 32 \<longrightarrow> fst (mmu_write m' p d) \<noteq> Inr ())) \<and>
    (unat (a - addr) \<ge> unat n \<and> unat (a - (addr + n)) \<ge> unat (redzone s) \<and>
      unat (a - (addr - redzone s)) \<ge> unat (redzone s) \<longrightarrow> mmu_peek m' a = mmu_peek m a)"
proof -
  note wf' = san_alloc_peek(1) [OF wf ok]
  have a1: "fst (mmu_read m' (addr + of_nat k) buf) =
      Inl (mk_fault (addr + of_nat k) (of_nat (length buf)) Read Permission)"
    if "k < unat n" "buf \<noteq> []"
  proof -
    obtain b where "mmu_peek m' (addr + of_nat k) = Some (b, PERM_WRITE OR PERM_RAW)"
      using alloc_payload [OF wf ok \<open>k < unat n\<close>] .
    then show ?thesis
      using flat.read_fault [OF wf', of 0 buf "addr + of_nat k"] \<open>buf \<noteq> []\<close>
      by (simp add: allows_def blame_def perm_simps bit_or_iff)
  qed
  have a2: "(i < length buf \<longrightarrow> fst (mmu_read m' p buf) \<noteq> Inr ()) \<and>
      (i < length d \<and> length d \<le> 2 ^ 32 \<longrightarrow> fst (mmu_write m' p d) \<noteq> Inr ())"
    if "guard_byte s addr n m (p + of_nat i)"
    using untouchable [OF wf' alloc_guards [OF wf ok that]] by blast
  have a3: "mmu_peek m' a = mmu_peek m a" if "unat (a - addr) \<ge> unat n" "unat (a - (addr + n)) \<ge> unat (redzone s)"
      "unat (a - (addr - redzone s)) \<ge> unat (redzone s)"
    using that by (simp add: san_alloc_peek(2) [OF wf ok] stamped_perm)
  show ?thesis using a1 alloc_write_back [OF wf ok] a2 a3 by blast
qed

theorem alloc_arms_oracles_witness:
  "fst (mmu_write (snd (snd (san_alloc 0x1002 1 (with_quarantine_cap 1 4, sample_mmu)))) 0x1002 [7, 7]) \<noteq> Inr ()"
proof -
  have "fst (san_alloc 0x1002 1 (with_quarantine_cap 1 4, sample_mmu)) = Inr ()"
    by (simp add: san_alloc_def with_quarantine_cap_def poison_guard_before_def poison_guard_after_def
        u32_checked_add_def poison_def protect_def perms_loop_step in_bounds_def offset_def
        sample_mmu_def mmu_new_def Let_def word_le_nat_alt)
  then have eq: "san_alloc 0x1002 1 (with_quarantine_cap 1 4, sample_mmu) =
      (Inr (), fst (snd (san_alloc 0x1002 1 (with_quarantine_cap 1 4, sample_mmu))),
       snd (snd (san_alloc 0x1002 1 (with_quarantine_cap 1 4, sample_mmu))))" by (simp add: prod_eq_iff)
  have "guard_byte (with_quarantine_cap 1 4) 0x1002 1 sample_mmu 0x1003"
    by (simp add: guard_byte_def guards_after_def in_bounds_def offset_def sample_mmu_def mmu_new_def with_quarantine_cap_def)
  with alloc_arms_oracles [OF sample_wf eq, of 0 "[]" "[7, 7]" "0x1002" 1] show ?thesis by simp
qed

text \<open>
  C28.  Slack poisoning is confined to the allocation's own bucket: \<open>alloc_with_slack\<close> changes the
  permissions of no byte outside it, so a neighbouring object keeps its own; inside, every read and
  every write that touches a byte of the rounding slack (lying in the window) faults, \<open>reopen_slack\<close>
  makes exactly the slack writable again, and the free of the allocation poisons the whole bucket,
  re-opened slack included.\<close>

theorem slack_stays_in_bucket:
  assumes wf: "mmu_wf m" and b: "b = max b0 r"
    and al: "alloc_with_slack addr r b0 (s, m) = (Inr (), s1, m1)"
  shows "(unat (x - addr) \<ge> unat b \<longrightarrow> mmu_peek m1 x = mmu_peek m x) \<and>
    (slack_poisoned addr r b m \<and> unat r \<le> unat (p + of_nat i - addr) \<and>
      unat (p + of_nat i - addr) < unat b \<longrightarrow>
      (i < length buf \<longrightarrow> fst (mmu_read m1 p buf) \<noteq> Inr ()) \<and>
      (i < length d \<and> length d \<le> 2 ^ 32 \<longrightarrow> fst (mmu_write m1 p d) \<noteq> Inr ())) \<and>
    (unat addr + unat r < 2 ^ 32 \<and> reopen_slack addr (s1, m1) = (Inr (), s2, m2) \<longrightarrow> s2 = s1 \<and>
      (\<forall>x. (if unat r \<le> unat (x - addr) \<and> unat (x - addr) < unat b
            then allows PERM_WRITE (mmu_peek m2) x else mmu_peek m2 x = mmu_peek m1 x))) \<and>
    (san_free addr (s1, m2) = (Inr (), s3, m3) \<and> mmu_wf m2 \<and> unat (x - addr) < unat b \<longrightarrow>
      (\<exists>c. mmu_peek m3 x = Some (c, 0)))"
proof -
  have rb: "r \<le> b" using b by simp
  note al' = alloc_with_slack_peek [OF wf b al]
  have slack: "unat (x - (addr + r)) < unat (b - r) \<longleftrightarrow> unat r \<le> unat (x - addr) \<and> unat (x - addr) < unat b" for x
    using tail_span [OF rb, of "x - addr"] by (simp add: diff_diff_eq word_le_nat_alt word_less_nat_alt)
  have a1: "mmu_peek m1 x = mmu_peek m x" if "unat (x - addr) \<ge> unat b"
    using that rb by (simp add: al'(2) stamped_perm slack word_le_nat_alt)
  have a2: "(i < length buf \<longrightarrow> fst (mmu_read m1 p buf) \<noteq> Inr ()) \<and>
      (i < length d \<and> length d \<le> 2 ^ 32 \<longrightarrow> fst (mmu_write m1 p d) \<noteq> Inr ())"
    if "slack_poisoned addr r b m" "unat r \<le> unat (p + of_nat i - addr)" "unat (p + of_nat i - addr) < unat b"
  proof -
    have "\<not> allows q (mmu_peek m1) (p + of_nat i)" for q
      using that stamp_denies [of "p + of_nat i" "addr + r" "unat (b - r)"] by (simp add: al'(2) slack)
    from untouchable [OF al'(1) this] show ?thesis by blast
  qed
  have a3: "s2 = s1 \<and> (\<forall>x. (if unat r \<le> unat (x - addr) \<and> unat (x - addr) < unat b
            then allows PERM_WRITE (mmu_peek m2) x else mmu_peek m2 x = mmu_peek m1 x))"
    if "unat addr + unat r < 2 ^ 32" and re: "reopen_slack addr (s1, m1) = (Inr (), s2, m2)"
  proof (cases "r < b")
    case True
    note re' = reopen_slack_peek [OF al'(1,4) _ True _ re]
    have "allows PERM_WRITE (mmu_peek m2) x" if x: "unat r \<le> unat (x - addr)" "unat (x - addr) < unat b" for x
    proof -
      have "offset m1 x \<noteq> None" using re'(3) [of x] x slack \<open>unat addr + unat r < 2 ^ 32\<close> by simp
      then show ?thesis using re'(2) x slack \<open>unat addr + unat r < 2 ^ 32\<close>
        by (auto simp: allows_def stamped_perm mmu_peek_def write_raw_writable)
    qed
    then show ?thesis using re'(1,2) slack \<open>unat addr + unat r < 2 ^ 32\<close> by (auto simp: stamped_perm)
  next
    case False
    then have "b = r" using rb by simp
    with re al'(4) show ?thesis by (auto simp: reopen_slack_def)
  qed
  have a4: "\<exists>c. mmu_peek m3 x = Some (c, 0)"
    if "san_free addr (s1, m2) = (Inr (), s3, m3)" "mmu_wf m2" "unat (x - addr) < unat b"
    using san_free_peek(2,3) [OF that(2) al'(4) _ that(1)] that(3)
    by (auto simp: stamped_perm mmu_peek_def)
  show ?thesis using a1 a2 a3 a4 by blast
qed

theorem slack_stays_in_bucket_witness:
  "fst (mmu_read (snd (snd (alloc_with_slack 0x1002 1 2 (with_quarantine_cap 1 4, sample_mmu)))) 0x1003 [0]) \<noteq> Inr ()"
proof -
  have "fst (alloc_with_slack 0x1002 1 2 (with_quarantine_cap 1 4, sample_mmu)) = Inr ()"
    by (simp add: alloc_with_slack_def with_quarantine_cap_def poison_slack_def poison_def u32_checked_add_def
        protect_def perms_loop_step offset_def in_bounds_def sample_mmu_def mmu_new_def Let_def)
  then have eq: "alloc_with_slack 0x1002 1 2 (with_quarantine_cap 1 4, sample_mmu) =
      (Inr (), fst (snd (alloc_with_slack 0x1002 1 2 (with_quarantine_cap 1 4, sample_mmu))),
       snd (snd (alloc_with_slack 0x1002 1 2 (with_quarantine_cap 1 4, sample_mmu))))"
    by (simp add: prod_eq_iff)
  have "slack_poisoned 0x1002 1 2 sample_mmu"
    by (simp add: slack_poisoned_def in_bounds_def offset_def sample_mmu_def mmu_new_def)
  then show ?thesis
    using slack_stays_in_bucket [OF sample_wf _ eq, where b = 2 and p = "0x1003" and i = 0 and buf = "[0]"] by simp
qed

end
