(* ===== verification/Hooks.thy ===== *)
theory Hooks
  imports Sanitizer
begin

text \<open>
  The program-counter hooks of \<open>crates/fs-san/src/hooks.rs\<close>: registration of allocator entry points
  and the four independent queries that turn a watched program counter and register file into
  allocation events.  Each pending stash, a \<open>HashMap\<close> from return address to a \<open>Vec\<close> used as a
  stack, is a partial map to lists whose last element is the top.  The lemmas show that a stash
  behaves as one stack per return address and that properly nested calls are paired with
  their own arguments.
\<close>

definition REG_RETURN_ADDR :: nat where "REG_RETURN_ADDR = 1"
definition REG_RETURN_VALUE :: nat where "REG_RETURN_VALUE = 10"
definition GFP_FLAGS_REG :: nat where "GFP_FLAGS_REG = 11"

record alloc_hook =
  ah_entry_pc :: u32
  ah_size_reg :: nat

record free_hook =
  fh_entry_pc :: u32
  fh_ptr_reg :: nat

record ksize_hook =
  kh_entry_pc :: u32
  kh_ptr_reg :: nat

datatype hook_event = EvAlloc u32 u32 | EvFree u32

record page_alloc_hook =
  pah_entry_pc :: u32
  pah_order_reg :: "nat option"

record page_free_hook =
  pfh_entry_pc :: u32
  pfh_addr_reg :: nat
  pfh_order_reg :: "nat option"

datatype page_hook_event = EvPageAlloc u32 u32 | EvPageFree u32 u32

record cache_alloc_hook =
  cah_entry_pc :: u32
  cah_cache_reg :: nat

datatype cache_alloc_event = EvCacheAlloc u32 u32

datatype kmsan_alloc_event =
    EvSized u32 u32 u32
  | EvCache u32 u32 u32

type_synonym 'a stash = "u32 \<rightharpoonup> 'a list"

record pc_hooks =
  allocs :: "u32 \<rightharpoonup> alloc_hook"
  hk_frees :: "u32 \<rightharpoonup> free_hook"
  ksizes :: "u32 \<rightharpoonup> ksize_hook"
  pending :: "u32 stash"
  pending_frees :: "u32 stash"
  page_allocs :: "u32 \<rightharpoonup> page_alloc_hook"
  page_frees_hk :: "u32 \<rightharpoonup> page_free_hook"
  page_pending :: "u32 stash"
  cache_allocs :: "u32 \<rightharpoonup> cache_alloc_hook"
  cache_pending :: "u32 stash"
  kmsan_alloc_pending :: "(u32 \<times> u32) stash"
  kmsan_cache_pending :: "(u32 \<times> u32) stash"

definition pc_hooks_new :: pc_hooks where
  "pc_hooks_new = \<lparr>allocs = Map.empty, hk_frees = Map.empty, ksizes = Map.empty, pending = Map.empty,
     pending_frees = Map.empty, page_allocs = Map.empty, page_frees_hk = Map.empty,
     page_pending = Map.empty, cache_allocs = Map.empty, cache_pending = Map.empty,
     kmsan_alloc_pending = Map.empty, kmsan_cache_pending = Map.empty\<rparr>"

section \<open>Registration\<close>

definition hook_alloc :: "alloc_hook \<Rightarrow> pc_hooks \<Rightarrow> pc_hooks" where
  "hook_alloc h s = s\<lparr>allocs := (allocs s)(ah_entry_pc h \<mapsto> h)\<rparr>"

definition hook_free :: "free_hook \<Rightarrow> pc_hooks \<Rightarrow> pc_hooks" where
  "hook_free h s = s\<lparr>hk_frees := (hk_frees s)(fh_entry_pc h \<mapsto> h)\<rparr>"

definition hook_ksize :: "ksize_hook \<Rightarrow> pc_hooks \<Rightarrow> pc_hooks" where
  "hook_ksize h s = s\<lparr>ksizes := (ksizes s)(kh_entry_pc h \<mapsto> h)\<rparr>"

definition hook_page_alloc :: "page_alloc_hook \<Rightarrow> pc_hooks \<Rightarrow> pc_hooks" where
  "hook_page_alloc h s = s\<lparr>page_allocs := (page_allocs s)(pah_entry_pc h \<mapsto> h)\<rparr>"

definition hook_page_free :: "page_free_hook \<Rightarrow> pc_hooks \<Rightarrow> pc_hooks" where
  "hook_page_free h s = s\<lparr>page_frees_hk := (page_frees_hk s)(pfh_entry_pc h \<mapsto> h)\<rparr>"

definition hook_cache_alloc :: "cache_alloc_hook \<Rightarrow> pc_hooks \<Rightarrow> pc_hooks" where
  "hook_cache_alloc h s = s\<lparr>cache_allocs := (cache_allocs s)(cah_entry_pc h \<mapsto> h)\<rparr>"

section \<open>Stashes\<close>

definition stash_push :: "u32 \<Rightarrow> 'a \<Rightarrow> 'a stash \<Rightarrow> 'a stash" where
  "stash_push k x st = st(k \<mapsto> (case st k of None \<Rightarrow> [] | Some v \<Rightarrow> v) @ [x])"

definition stash_pop :: "u32 \<Rightarrow> 'a stash \<Rightarrow> ('a \<times> 'a stash) option" where
  "stash_pop k st =
     (case st k of
        None \<Rightarrow> None
      | Some v \<Rightarrow>
          if v = [] then None
          else Some (last v, if butlast v = [] then st(k := None) else st(k \<mapsto> butlast v)))"

section \<open>Queries\<close>

definition ksize_hit :: "u32 \<Rightarrow> u32 list \<Rightarrow> pc_hooks \<Rightarrow> u32 option" where
  "ksize_hit pc regs s = map_option (\<lambda>h. regs ! kh_ptr_reg h) (ksizes s pc)"

definition on_pc :: "u32 \<Rightarrow> u32 list \<Rightarrow> pc_hooks \<Rightarrow> hook_event option \<times> pc_hooks" where
  "on_pc pc regs s =
     (case allocs s pc of
        Some h \<Rightarrow>
          (None, s\<lparr>pending := stash_push (regs ! REG_RETURN_ADDR) (regs ! ah_size_reg h) (pending s)\<rparr>)
      | None \<Rightarrow>
      case hk_frees s pc of
        Some h \<Rightarrow>
          (None, s\<lparr>pending_frees :=
             stash_push (regs ! REG_RETURN_ADDR) (regs ! fh_ptr_reg h) (pending_frees s)\<rparr>)
      | None \<Rightarrow>
      case stash_pop pc (pending s) of
        Some (sz, st) \<Rightarrow> (Some (EvAlloc (regs ! REG_RETURN_VALUE) sz), s\<lparr>pending := st\<rparr>)
      | None \<Rightarrow>
      case stash_pop pc (pending_frees s) of
        Some (addr, st) \<Rightarrow> (Some (EvFree addr), s\<lparr>pending_frees := st\<rparr>)
      | None \<Rightarrow> (None, s))"

definition order_of_reg :: "nat option \<Rightarrow> u32 list \<Rightarrow> u32" where
  "order_of_reg r regs = (case r of None \<Rightarrow> 0 | Some i \<Rightarrow> regs ! i)"

definition on_page_pc :: "u32 \<Rightarrow> u32 list \<Rightarrow> pc_hooks \<Rightarrow> page_hook_event option \<times> pc_hooks" where
  "on_page_pc pc regs s =
     (case page_allocs s pc of
        Some h \<Rightarrow>
          (None, s\<lparr>page_pending :=
             stash_push (regs ! REG_RETURN_ADDR) (order_of_reg (pah_order_reg h) regs) (page_pending s)\<rparr>)
      | None \<Rightarrow>
      case page_frees_hk s pc of
        Some h \<Rightarrow> (Some (EvPageFree (regs ! pfh_addr_reg h) (order_of_reg (pfh_order_reg h) regs)), s)
      | None \<Rightarrow>
      case stash_pop pc (page_pending s) of
        Some (order, st) \<Rightarrow> (Some (EvPageAlloc (regs ! REG_RETURN_VALUE) order), s\<lparr>page_pending := st\<rparr>)
      | None \<Rightarrow> (None, s))"

definition on_cache_alloc_pc :: "u32 \<Rightarrow> u32 list \<Rightarrow> pc_hooks \<Rightarrow> cache_alloc_event option \<times> pc_hooks" where
  "on_cache_alloc_pc pc regs s =
     (case cache_allocs s pc of
        Some h \<Rightarrow>
          (None, s\<lparr>cache_pending :=
             stash_push (regs ! REG_RETURN_ADDR) (regs ! cah_cache_reg h) (cache_pending s)\<rparr>)
      | None \<Rightarrow>
      case stash_pop pc (cache_pending s) of
        Some (cp, st) \<Rightarrow> (Some (EvCacheAlloc (regs ! REG_RETURN_VALUE) cp), s\<lparr>cache_pending := st\<rparr>)
      | None \<Rightarrow> (None, s))"

definition on_kmsan_alloc_pc :: "u32 \<Rightarrow> u32 list \<Rightarrow> pc_hooks \<Rightarrow> kmsan_alloc_event option \<times> pc_hooks" where
  "on_kmsan_alloc_pc pc regs s =
     (case allocs s pc of
        Some h \<Rightarrow>
          (None, s\<lparr>kmsan_alloc_pending := stash_push (regs ! REG_RETURN_ADDR)
             (regs ! ah_size_reg h, regs ! GFP_FLAGS_REG) (kmsan_alloc_pending s)\<rparr>)
      | None \<Rightarrow>
      case cache_allocs s pc of
        Some h \<Rightarrow>
          (None, s\<lparr>kmsan_cache_pending := stash_push (regs ! REG_RETURN_ADDR)
             (regs ! cah_cache_reg h, regs ! GFP_FLAGS_REG) (kmsan_cache_pending s)\<rparr>)
      | None \<Rightarrow>
      case stash_pop pc (kmsan_alloc_pending s) of
        Some ((sz, gfp_flags), st) \<Rightarrow>
          (Some (EvSized (regs ! REG_RETURN_VALUE) sz gfp_flags), s\<lparr>kmsan_alloc_pending := st\<rparr>)
      | None \<Rightarrow>
      case stash_pop pc (kmsan_cache_pending s) of
        Some ((cp, gfp_flags), st) \<Rightarrow>
          (Some (EvCache (regs ! REG_RETURN_VALUE) cp gfp_flags), s\<lparr>kmsan_cache_pending := st\<rparr>)
      | None \<Rightarrow> (None, s))"

definition clear_pending :: "pc_hooks \<Rightarrow> pc_hooks" where
  "clear_pending s = s\<lparr>pending := Map.empty, pending_frees := Map.empty, page_pending := Map.empty,
     cache_pending := Map.empty, kmsan_alloc_pending := Map.empty, kmsan_cache_pending := Map.empty\<rparr>"

definition stash_size :: "'a stash \<Rightarrow> nat" where
  "stash_size st = (\<Sum>k \<in> dom st. length (the (st k)))"

definition pending_returns :: "pc_hooks \<Rightarrow> nat" where
  "pending_returns s = stash_size (pending s)"

definition page_pending_returns :: "pc_hooks \<Rightarrow> nat" where
  "page_pending_returns s = stash_size (page_pending s)"

definition cache_alloc_pending_returns :: "pc_hooks \<Rightarrow> nat" where
  "cache_alloc_pending_returns s = stash_size (cache_pending s)"

definition kmsan_alloc_pending_returns :: "pc_hooks \<Rightarrow> nat" where
  "kmsan_alloc_pending_returns s = stash_size (kmsan_alloc_pending s) + stash_size (kmsan_cache_pending s)"

section \<open>Registering the kernel's allocator\<close>

text \<open>
  The conventions and the symbol table of \<open>crates/fs-san/src/linux.rs\<close>, registration from a symbol
  map, the linear map between kernel virtual and physical addresses, and the kmalloc size classes.
\<close>

datatype convention =
    AllocSizeReg nat
  | CacheAllocCacheReg nat
  | FreePtrReg nat
  | KsizePtrReg nat
  | PageAllocOrderReg "nat option"
  | PageFreeAddrOrderReg nat "nat option"
  | PageStructUnavailable

definition KNOWN_SYMBOLS :: "(string \<times> convention) list" where
  "KNOWN_SYMBOLS =
     [(''kmalloc'', AllocSizeReg 10), (''__kmalloc'', AllocSizeReg 10),
      (''__kmalloc_noprof'', AllocSizeReg 10), (''kmalloc_noprof'', AllocSizeReg 10),
      (''__kmalloc_node'', AllocSizeReg 10), (''kmalloc_trace'', AllocSizeReg 12),
      (''kmem_cache_alloc'', CacheAllocCacheReg 10), (''kmem_cache_alloc_noprof'', CacheAllocCacheReg 10),
      (''kfree'', FreePtrReg 10), (''kmem_cache_free'', FreePtrReg 11), (''kfree_sensitive'', FreePtrReg 10),
      (''ksize'', KsizePtrReg 10), (''__ksize'', KsizePtrReg 10),
      (''__get_free_pages'', PageAllocOrderReg (Some 11)), (''get_zeroed_page'', PageAllocOrderReg None),
      (''__get_free_page'', PageAllocOrderReg None), (''get_free_page'', PageAllocOrderReg None),
      (''free_pages'', PageFreeAddrOrderReg 10 (Some 11)), (''free_page'', PageFreeAddrOrderReg 10 None),
      (''alloc_pages'', PageStructUnavailable), (''__alloc_pages'', PageStructUnavailable),
      (''__free_pages'', PageStructUnavailable)]"

definition register_symbol :: "(string \<rightharpoonup> u32) \<Rightarrow> string \<times> convention \<Rightarrow> pc_hooks \<Rightarrow> pc_hooks" where
  "register_symbol syms sc hooks =
     (case syms (fst sc) of
        None \<Rightarrow> hooks
      | Some entry_pc \<Rightarrow>
          (case snd sc of
             AllocSizeReg size_reg \<Rightarrow> hook_alloc \<lparr>ah_entry_pc = entry_pc, ah_size_reg = size_reg\<rparr> hooks
           | CacheAllocCacheReg cache_reg \<Rightarrow>
               hook_cache_alloc \<lparr>cah_entry_pc = entry_pc, cah_cache_reg = cache_reg\<rparr> hooks
           | FreePtrReg ptr_reg \<Rightarrow> hook_free \<lparr>fh_entry_pc = entry_pc, fh_ptr_reg = ptr_reg\<rparr> hooks
           | KsizePtrReg ptr_reg \<Rightarrow> hook_ksize \<lparr>kh_entry_pc = entry_pc, kh_ptr_reg = ptr_reg\<rparr> hooks
           | PageAllocOrderReg order_reg \<Rightarrow>
               hook_page_alloc \<lparr>pah_entry_pc = entry_pc, pah_order_reg = order_reg\<rparr> hooks
           | PageFreeAddrOrderReg addr_reg order_reg \<Rightarrow>
               hook_page_free
                 \<lparr>pfh_entry_pc = entry_pc, pfh_addr_reg = addr_reg, pfh_order_reg = order_reg\<rparr> hooks
           | PageStructUnavailable \<Rightarrow> hooks))"

definition register_kernel_allocator_hooks :: "(string \<rightharpoonup> u32) \<Rightarrow> pc_hooks \<Rightarrow> pc_hooks" where
  "register_kernel_allocator_hooks syms hooks = fold (register_symbol syms) KNOWN_SYMBOLS hooks"

definition PAGE_OFFSET :: u32 where "PAGE_OFFSET = 0xc0000000"

record linear_map =
  va_pa_offset :: u32
  pa_lo :: u32
  pa_hi :: u32

definition linear_map_new :: "u32 \<Rightarrow> u32 \<Rightarrow> u32 \<Rightarrow> linear_map" where
  "linear_map_new kernel_load_pa ram_base ram_size =
     \<lparr>va_pa_offset = PAGE_OFFSET - kernel_load_pa, pa_lo = ram_base, pa_hi = ram_base + ram_size\<rparr>"

definition va_to_pa :: "linear_map \<Rightarrow> u32 \<Rightarrow> u32 option" where
  "va_to_pa l va =
     (if va < PAGE_OFFSET then None
      else let pa = va - va_pa_offset l in
           if pa_lo l \<le> pa \<and> pa < pa_hi l then Some pa else None)"

definition KMALLOC_BUCKETS :: "u32 list" where
  "KMALLOC_BUCKETS = [8, 16, 32, 64, 96, 128, 192, 256, 512, 1024, 2048, 4096, 8192]"

text \<open>
  \<open>u32::next_power_of_two\<close>; above \<open>2 ^ 31\<close> it panics in a checked build and gives 0 in a release
  build, the value taken here.
\<close>

function next_power_from :: "u32 \<Rightarrow> nat \<Rightarrow> u32" where
  "next_power_from n k = (if 32 \<le> k then 0 else if n \<le> 2 ^ k then 2 ^ k else next_power_from n (Suc k))"
  by auto
termination by (relation "measure (\<lambda>(n, k). 32 - k)") auto

declare next_power_from.simps [simp del]

definition next_power_of_two :: "u32 \<Rightarrow> u32" where
  "next_power_of_two n = next_power_from n 0"

definition kmalloc_bucket :: "u32 \<Rightarrow> u32" where
  "kmalloc_bucket sz =
     (case find (\<lambda>b. sz \<le> b) KMALLOC_BUCKETS of Some b \<Rightarrow> b | None \<Rightarrow> next_power_of_two sz)"

section \<open>A stash is a stack per return address\<close>

text \<open>No stash keeps an empty vector; then a push followed by a pop restores it exactly.\<close>

definition stash_ok :: "'a stash \<Rightarrow> bool" where
  "stash_ok st \<longleftrightarrow> (\<forall>k. st k \<noteq> Some [])"

lemma stash_ok_push: "stash_ok st \<Longrightarrow> stash_ok (stash_push k x st)"
  by (simp add: stash_ok_def stash_push_def)

lemma dom_stash_push: "dom (stash_push k x st) = insert k (dom st)"
  by (auto simp: stash_push_def)

lemma stash_pop_push: "stash_ok st \<Longrightarrow> stash_pop k (stash_push k x st) = Some (x, st)"
  by (cases "st k") (auto simp: stash_ok_def stash_push_def stash_pop_def fun_eq_iff)

lemma stash_pop_None: "stash_ok st \<Longrightarrow> stash_pop k st = None \<longleftrightarrow> st k = None"
  by (auto simp: stash_ok_def stash_pop_def split: option.split)

section \<open>Nested calls\<close>

text \<open>
  A guest call of a hooked function: its entry point, the registers at entry, the hooked calls made
  meanwhile, and the registers when control is back at the return address.
\<close>

datatype call = Call u32 "u32 list" "call list" "u32 list"

fun call_trace :: "call \<Rightarrow> (u32 \<times> u32 list) list" where
  "call_trace (Call e regs inner regs') =
     (e, regs) # concat (map call_trace inner) @ [(regs ! REG_RETURN_ADDR, regs')]"

definition call_event :: "pc_hooks \<Rightarrow> u32 \<Rightarrow> u32 list \<Rightarrow> u32 list \<Rightarrow> hook_event" where
  "call_event s e regs regs' =
     (case allocs s e of
        Some h \<Rightarrow> EvAlloc (regs' ! REG_RETURN_VALUE) (regs ! ah_size_reg h)
      | None \<Rightarrow> EvFree (case hk_frees s e of None \<Rightarrow> 0 | Some h \<Rightarrow> regs ! fh_ptr_reg h))"

fun call_events :: "pc_hooks \<Rightarrow> call \<Rightarrow> hook_event list" where
  "call_events s (Call e regs inner regs') =
     concat (map (call_events s) inner) @ [call_event s e regs regs']"

text \<open>
  The calls this pairing is about: entries are hooked, return addresses are not hooked entries, and
  the return addresses of allocations (the set \<open>A\<close>) and of frees are different.
\<close>

fun call_ok :: "u32 set \<Rightarrow> pc_hooks \<Rightarrow> call \<Rightarrow> bool" where
  "call_ok A s (Call e regs inner regs') \<longleftrightarrow>
     (allocs s e \<noteq> None \<or> hk_frees s e \<noteq> None) \<and>
     allocs s (regs ! REG_RETURN_ADDR) = None \<and> hk_frees s (regs ! REG_RETURN_ADDR) = None \<and>
     (allocs s e \<noteq> None \<longleftrightarrow> regs ! REG_RETURN_ADDR \<in> A) \<and> (\<forall>c \<in> set inner. call_ok A s c)"

fun feed :: "(u32 \<times> u32 list) list \<Rightarrow> pc_hooks \<Rightarrow> hook_event list \<times> pc_hooks" where
  "feed [] s = ([], s)"
| "feed ((pc, regs) # ps) s =
     (let (ev, s1) = on_pc pc regs s; (evs, s2) = feed ps s1
      in ((case ev of None \<Rightarrow> evs | Some x \<Rightarrow> x # evs), s2))"

definition stashes_ok :: "u32 set \<Rightarrow> pc_hooks \<Rightarrow> bool" where
  "stashes_ok A s \<longleftrightarrow> stash_ok (pending s) \<and> stash_ok (pending_frees s) \<and> dom (pending s) \<subseteq> A"

lemma feed_append:
  "feed (xs @ ys) s = (let (e1, s1) = feed xs s; (e2, s2) = feed ys s1 in (e1 @ e2, s2))"
  by (induction xs arbitrary: s) (auto simp: Let_def case_prod_beta split: option.split)

lemma same_registry:
  assumes "allocs s' = allocs s" "hk_frees s' = hk_frees s"
  shows "call_ok A s' c \<longleftrightarrow> call_ok A s c" "call_events s' c = call_events s c"
proof (induction c)
  case (Call e regs inner regs')
  { case 1 from Call(1) assms show ?case by auto }
  { case 2 have "map (call_events s') inner = map (call_events s) inner" using Call(2) by simp
    with assms show ?case by (simp add: call_event_def del: map_eq_conv split: option.split) }
qed

lemma feed_inner:
  assumes "\<And>c s. c \<in> set cs \<Longrightarrow> stashes_ok A s \<Longrightarrow> call_ok A s c \<Longrightarrow>
      feed (call_trace c) s = (call_events s c, s)"
    and "stashes_ok A s" "\<forall>c \<in> set cs. call_ok A s c"
  shows "feed (concat (map call_trace cs)) s = (concat (map (call_events s) cs), s)"
  using assms by (induction cs) (auto simp: feed_append)

lemma feed_call:
  "stashes_ok A s \<Longrightarrow> call_ok A s c \<Longrightarrow> feed (call_trace c) s = (call_events s c, s)"
proof (induction c arbitrary: s)
  case (Call e regs inner regs')
  let ?ret = "regs ! REG_RETURN_ADDR"
  have inner: "feed (concat (map call_trace inner)) s1 = (concat (map (call_events s) inner), s1)"
    if "stashes_ok A s1" "allocs s1 = allocs s" "hk_frees s1 = hk_frees s" for s1
  proof -
    have "\<forall>c \<in> set inner. call_ok A s1 c" using Call.prems(2) same_registry(1) [OF that(2,3)] by simp
    then have "feed (concat (map call_trace inner)) s1 = (concat (map (call_events s1) inner), s1)"
      using feed_inner [OF Call.IH that(1)] by blast
    moreover have "call_events s1 = call_events s" using same_registry(2) [OF that(2,3)] by (rule ext)
    ultimately show ?thesis by simp
  qed
  have ok: "stash_ok (pending s)" "stash_ok (pending_frees s)"
    using Call.prems(1) by (simp_all add: stashes_ok_def)
  have none: "allocs s ?ret = None" "hk_frees s ?ret = None" using Call.prems(2) by simp_all
  show ?case
  proof (cases "allocs s e")
    case (Some h)
    let ?s1 = "s\<lparr>pending := stash_push ?ret (regs ! ah_size_reg h) (pending s)\<rparr>"
    have "stashes_ok A ?s1"
      using Call.prems Some by (simp add: stashes_ok_def stash_ok_push dom_stash_push)
    then have "feed (concat (map call_trace inner)) ?s1 = (concat (map (call_events s) inner), ?s1)"
      by (rule inner) simp_all
    moreover have "on_pc e regs s = (None, ?s1)" by (simp add: on_pc_def Some)
    moreover have "on_pc ?ret regs' ?s1 = (Some (call_event s e regs regs'), s)"
      using Call.prems(1) none by (simp add: on_pc_def stash_pop_push stashes_ok_def call_event_def Some)
    ultimately show ?thesis by (simp add: feed_append)
  next
    case None
    then obtain h where h: "hk_frees s e = Some h" using Call.prems(2) by auto
    let ?s1 = "s\<lparr>pending_frees := stash_push ?ret (regs ! fh_ptr_reg h) (pending_frees s)\<rparr>"
    have "stashes_ok A ?s1" using Call.prems by (simp add: stashes_ok_def stash_ok_push)
    then have "feed (concat (map call_trace inner)) ?s1 = (concat (map (call_events s) inner), ?s1)"
      by (rule inner) simp_all
    moreover have "on_pc e regs s = (None, ?s1)" by (simp add: on_pc_def None h)
    moreover have "pending s ?ret = None" using Call.prems None by (auto simp: stashes_ok_def)
    then have "on_pc ?ret regs' ?s1 = (Some (call_event s e regs regs'), s)"
      using none stash_pop_None [OF ok(1), of ?ret]
      by (simp add: on_pc_def stash_pop_push ok call_event_def None h)
    ultimately show ?thesis by (simp add: feed_append)
  qed
qed

section \<open>What the hooks promise\<close>

text \<open>
  C21.  Allocation events carry the arguments of their own call: for every tree of hooked calls, of
  any depth and also through one call site, watching its program counters yields exactly one event
  per call, in the order the calls return, with the size or pointer captured at that call's entry
  and the pointer returned at its return; afterwards nothing of them is left pending.\<close>

theorem hooks_pair_nested_calls:
  assumes "stashes_ok A s" "call_ok A s c"
  shows "feed (call_trace c) s = (call_events s c, s)"
  using assms by (rule feed_call)

definition sample_hooks :: pc_hooks where
  "sample_hooks = hook_free \<lparr>fh_entry_pc = 0x200, fh_ptr_reg = 10\<rparr>
     (hook_alloc \<lparr>ah_entry_pc = 0x100, ah_size_reg = 10\<rparr> pc_hooks_new)"

definition regs_with :: "u32 \<Rightarrow> u32 \<Rightarrow> u32 list" where
  "regs_with ra a0 = (replicate 32 0)[1 := ra, 10 := a0]"

theorem hooks_pair_nested_calls_witness:
  "fst (feed (call_trace (Call 0x100 (regs_with 0x500 64)
      [Call 0x100 (regs_with 0x500 32) [] (regs_with 0 0x9000), Call 0x200 (regs_with 0x600 0x9000) [] (regs_with 0 0)]
      (regs_with 0 0xa000))) sample_hooks) = [EvAlloc 0x9000 32, EvFree 0x9000, EvAlloc 0xa000 64]"
proof -
  have "stashes_ok {0x500} sample_hooks"
    by (simp add: stashes_ok_def stash_ok_def sample_hooks_def hook_free_def hook_alloc_def pc_hooks_new_def)
  from hooks_pair_nested_calls [OF this] show ?thesis
    by (simp del: call_trace.simps add: sample_hooks_def hook_free_def hook_alloc_def pc_hooks_new_def
        regs_with_def REG_RETURN_ADDR_def REG_RETURN_VALUE_def call_event_def)
qed

end
