(* ===== verification/Cov.thy ===== *)
theory Cov
  imports Prelude
begin

text \<open>
  Coverage feedback (\<open>crates/fs-cov/src/lib.rs\<close>): the exact edge and block sets of \<open>Coverage\<close>,
  the fixed-size hashed counters of \<open>CovBitmap\<close> and the accumulated hit-count classes of
  \<open>VirginMap\<close>.  A \<open>BTreeSet\<close> is a set, a boxed byte slice a list of bytes; \<open>usize\<close> indices are
  natural numbers.  The lemmas give the counters in closed form (saturated numbers of recorded
  edges per bucket), relate them to the exact sets, and describe folding a run into the virgin map
  as a pointwise maximum.
\<close>

section \<open>Exact coverage\<close>

record coverage =
  cov_edges :: "(u32 \<times> u32) set"
  cov_blocks :: "u32 set"

definition coverage_new :: coverage where
  "coverage_new = \<lparr>cov_edges = {}, cov_blocks = {}\<rparr>"

definition coverage_record_edge :: "u32 \<Rightarrow> u32 \<Rightarrow> coverage \<Rightarrow> coverage" where
  "coverage_record_edge frm to c =
     c\<lparr>cov_edges := insert (frm, to) (cov_edges c), cov_blocks := insert to (cov_blocks c)\<rparr>"

definition seed_block :: "u32 \<Rightarrow> coverage \<Rightarrow> coverage" where
  "seed_block pc c = c\<lparr>cov_blocks := insert pc (cov_blocks c)\<rparr>"

definition num_edges :: "coverage \<Rightarrow> nat" where
  "num_edges c = card (cov_edges c)"

definition num_blocks :: "coverage \<Rightarrow> nat" where
  "num_blocks c = card (cov_blocks c)"

section \<open>The hashed bitmap\<close>

definition MAP_SIZE :: nat where "MAP_SIZE = 65536"

definition hash_edge :: "u32 \<Rightarrow> u32 \<Rightarrow> nat" where
  "hash_edge prev_pc cur_pc = unat (drop_bit 1 prev_pc XOR cur_pc) AND (MAP_SIZE - 1)"

definition classify_count :: "u8 \<Rightarrow> u8" where
  "classify_count count =
     (if count = 0 then 0 else if count = 1 then 1 else if count = 2 then 2
      else if count = 3 then 3 else if 4 \<le> count \<and> count \<le> 7 then 4
      else if 8 \<le> count \<and> count \<le> 15 then 5 else if 16 \<le> count \<and> count \<le> 31 then 6
      else if 32 \<le> count \<and> count \<le> 127 then 7 else 8)"

definition u8_saturating_add :: "u8 \<Rightarrow> u8 \<Rightarrow> u8" where
  "u8_saturating_add a b = (if unat a + unat b < 256 then a + b else 255)"

record cov_bitmap =
  bm_hits :: "u8 list"

definition bitmap_new :: cov_bitmap where
  "bitmap_new = \<lparr>bm_hits = replicate MAP_SIZE 0\<rparr>"

definition bitmap_record_edge :: "u32 \<Rightarrow> u32 \<Rightarrow> cov_bitmap \<Rightarrow> cov_bitmap" where
  "bitmap_record_edge prev_pc cur_pc b =
     (let idx = hash_edge prev_pc cur_pc in
      b\<lparr>bm_hits := (bm_hits b)[idx := u8_saturating_add (bm_hits b ! idx) 1]\<rparr>)"

definition hit :: "cov_bitmap \<Rightarrow> nat \<Rightarrow> u8" where
  "hit b idx = bm_hits b ! idx"

definition bitmap_covered_buckets :: "cov_bitmap \<Rightarrow> nat" where
  "bitmap_covered_buckets b = length (filter (\<lambda>h. h \<noteq> 0) (bm_hits b))"

definition bitmap_clear :: "cov_bitmap \<Rightarrow> cov_bitmap" where
  "bitmap_clear b = b\<lparr>bm_hits := map (\<lambda>_. 0) (bm_hits b)\<rparr>"

section \<open>The virgin map\<close>

record virgin_map =
  vm_classes :: "u8 list"

definition virgin_new :: virgin_map where
  "virgin_new = \<lparr>vm_classes = replicate MAP_SIZE 0\<rparr>"

definition fold_bucket :: "cov_bitmap \<Rightarrow> nat \<Rightarrow> bool \<times> u8 list \<Rightarrow> bool \<times> u8 list" where
  "fold_bucket run_map i s =
     (let run_class = classify_count (hit run_map i) in
      if snd s ! i < run_class then (True, (snd s)[i := run_class]) else s)"

definition has_new_bits :: "virgin_map \<Rightarrow> cov_bitmap \<Rightarrow> bool \<times> virgin_map" where
  "has_new_bits v run_map =
     (let (found_new, cs) = fold (fold_bucket run_map) [0 ..< MAP_SIZE] (False, vm_classes v)
      in (found_new, v\<lparr>vm_classes := cs\<rparr>))"

definition virgin_covered_buckets :: "virgin_map \<Rightarrow> nat" where
  "virgin_covered_buckets v = length (filter (\<lambda>c. c \<noteq> 0) (vm_classes v))"

section \<open>Well-formedness\<close>

definition bitmap_wf :: "cov_bitmap \<Rightarrow> bool" where
  "bitmap_wf b \<longleftrightarrow> length (bm_hits b) = MAP_SIZE"

definition virgin_wf :: "virgin_map \<Rightarrow> bool" where
  "virgin_wf v \<longleftrightarrow> length (vm_classes v) = MAP_SIZE"

lemma hash_edge_lt: "hash_edge p c < MAP_SIZE"
proof -
  have "(65535 :: nat) = mask 16" by (simp add: mask_eq_exp_minus_1)
  then have "hash_edge p c = take_bit 16 (unat (drop_bit 1 p XOR c))"
    by (simp add: hash_edge_def MAP_SIZE_def take_bit_eq_mask)
  also have "\<dots> < 2 ^ 16" by (rule take_bit_nat_less_exp)
  finally show ?thesis by (simp add: MAP_SIZE_def)
qed

lemma bitmap_wf_intros [wf_intros]:
  "bitmap_wf bitmap_new"
  "bitmap_wf b \<Longrightarrow> bitmap_wf (bitmap_record_edge p c b)"
  "bitmap_wf b \<Longrightarrow> bitmap_wf (bitmap_clear b)"
  by (simp_all add: bitmap_wf_def bitmap_new_def bitmap_record_edge_def bitmap_clear_def Let_def)

lemma bitmap_clear_new: "bitmap_wf b \<Longrightarrow> bitmap_clear b = bitmap_new"
  by (simp add: bitmap_wf_def bitmap_new_def bitmap_clear_def map_replicate_const)

section \<open>The counters in closed form\<close>

definition record_edges :: "(u32 \<times> u32) list \<Rightarrow> cov_bitmap \<Rightarrow> cov_bitmap" where
  "record_edges es = fold (\<lambda>(p, c). bitmap_record_edge p c) es"

definition exact_edges :: "(u32 \<times> u32) list \<Rightarrow> coverage \<Rightarrow> coverage" where
  "exact_edges es = fold (\<lambda>(p, c). coverage_record_edge p c) es"

definition bucket_count :: "(u32 \<times> u32) list \<Rightarrow> nat \<Rightarrow> nat" where
  "bucket_count es idx = length (filter (\<lambda>(p, c). hash_edge p c = idx) es)"

lemma saturating_succ: "unat (u8_saturating_add a 1) = min 255 (unat a + 1)"
proof -
  have "unat a < 256" using unsigned_less [of a, where ?'a = nat] by simp
  then show ?thesis
    by (auto simp: u8_saturating_add_def unat_word_ariths)
qed

lemma record_edge_hit:
  assumes "bitmap_wf b" "idx < MAP_SIZE"
  shows "unat (hit (bitmap_record_edge p c b) idx) =
    (if hash_edge p c = idx then min 255 (unat (hit b idx) + 1) else unat (hit b idx))"
  using assms by (simp add: hit_def bitmap_record_edge_def bitmap_wf_def Let_def saturating_succ)

lemma record_edges_wf [wf_intros]: "bitmap_wf b \<Longrightarrow> bitmap_wf (record_edges es b)"
  by (induction es arbitrary: b) (auto simp: record_edges_def bitmap_wf_intros)

lemma record_edges_hit:
  assumes "bitmap_wf b" "idx < MAP_SIZE"
  shows "unat (hit (record_edges es b) idx) = min 255 (unat (hit b idx) + bucket_count es idx)"
  using assms(1)
proof (induction es arbitrary: b)
  case Nil
  have "unat (hit b idx) < 256" using unsigned_less [of "hit b idx", where ?'a = nat] by simp
  then show ?case by (simp add: record_edges_def bucket_count_def)
next
  case (Cons e es)
  obtain p c where e: "e = (p, c)" by (cases e)
  have "unat (hit (record_edges (e # es) b) idx) =
      min 255 (unat (hit (bitmap_record_edge p c b) idx) + bucket_count es idx)"
    using Cons.IH [of "bitmap_record_edge p c b"] Cons.prems
    by (simp add: record_edges_def e bitmap_wf_intros)
  then show ?case
    by (auto simp: record_edge_hit [OF Cons.prems assms(2)] bucket_count_def e)
qed

lemma exact_edges_sets:
  "cov_edges (exact_edges es c) = cov_edges c \<union> set es"
  "cov_blocks (exact_edges es c) = cov_blocks c \<union> snd ` set es"
  by (induction es arbitrary: c) (auto simp: exact_edges_def coverage_record_edge_def)

lemma bucket_count_pos: "0 < bucket_count es idx \<longleftrightarrow> (\<exists>(p, c) \<in> set es. hash_edge p c = idx)"
  by (induction es) (auto simp: bucket_count_def)

section \<open>Folding a run into the virgin map\<close>


definition run_class :: "cov_bitmap \<Rightarrow> nat \<Rightarrow> u8" where
  "run_class r i = classify_count (hit r i)"

definition join_to :: "nat \<Rightarrow> cov_bitmap \<Rightarrow> u8 list \<Rightarrow> u8 list" where
  "join_to n r cs = map (\<lambda>i. if i < n then max (cs ! i) (run_class r i) else cs ! i) [0 ..< length cs]"

lemma join_to_Suc:
  assumes "n < length cs"
  shows "join_to (Suc n) r cs = (join_to n r cs)[n := max (cs ! n) (run_class r n)]"
  using assms by (intro nth_equalityI) (auto simp: join_to_def nth_list_update less_Suc_eq)

lemma fold_bucket_upto:
  assumes "n \<le> length cs"
  shows "fold (fold_bucket r) [0 ..< n] (f, cs) =
    (f \<or> (\<exists>i<n. cs ! i < run_class r i), join_to n r cs)"
  using assms
proof (induction n)
  case 0
  then show ?case by (simp add: join_to_def map_nth)
next
  case (Suc n)
  then have n: "n < length cs" "join_to n r cs ! n = cs ! n" "length (join_to n r cs) = length cs"
    by (simp_all add: join_to_def)
  have "fold (fold_bucket r) [0 ..< Suc n] (f, cs) =
      fold_bucket r n (f \<or> (\<exists>i<n. cs ! i < run_class r i), join_to n r cs)"
    using Suc by simp
  also have "\<dots> = (f \<or> (\<exists>i<Suc n. cs ! i < run_class r i), join_to (Suc n) r cs)"
  proof (cases "cs ! n < run_class r n")
    case True
    with n show ?thesis
      by (auto simp: fold_bucket_def Let_def join_to_Suc run_class_def max_def)
  next
    case False
    then have "join_to (Suc n) r cs = join_to n r cs"
      using n list_update_id [of "join_to n r cs" n] by (simp add: join_to_Suc max_def)
    with False n show ?thesis
      by (auto simp: fold_bucket_def Let_def run_class_def less_Suc_eq)
  qed
  finally show ?case .
qed

lemma has_new_bits_eq:
  assumes "virgin_wf v"
  shows "has_new_bits v r =
    ((\<exists>i<MAP_SIZE. vm_classes v ! i < run_class r i),
     v\<lparr>vm_classes := join_to MAP_SIZE r (vm_classes v)\<rparr>)"
  using assms fold_bucket_upto [of MAP_SIZE "vm_classes v" r False]
  by (simp add: has_new_bits_def virgin_wf_def Let_def)

lemma virgin_wf_intros [wf_intros]:
  "virgin_wf virgin_new"
  "virgin_wf v \<Longrightarrow> virgin_wf (snd (has_new_bits v r))"
  by (simp_all add: virgin_wf_def virgin_new_def has_new_bits_eq [unfolded virgin_wf_def] join_to_def)

lemma nth_join_to:
  "i < length cs \<Longrightarrow> i < n \<Longrightarrow> join_to n r cs ! i = max (cs ! i) (run_class r i)"
  by (simp add: join_to_def)

lemma classify_count_eq_0: "classify_count a = 0 \<longleftrightarrow> a = 0"
  by (simp add: classify_count_def)

text \<open>The virgin map after a sequence of runs, and which of them were reported as interesting.\<close>

fun fold_runs :: "virgin_map \<Rightarrow> cov_bitmap list \<Rightarrow> bool list \<times> virgin_map" where
  "fold_runs v [] = ([], v)"
| "fold_runs v (r # rs) =
     (let (b, v1) = has_new_bits v r; (bs, v2) = fold_runs v1 rs in (b # bs, v2))"

lemma fold_runs_wf: "virgin_wf v \<Longrightarrow> virgin_wf (snd (fold_runs v rs))"
  by (induction rs arbitrary: v) (auto simp: Let_def case_prod_beta virgin_wf_intros)

lemma fold_runs_class:
  assumes "virgin_wf v" "i < MAP_SIZE"
  shows "vm_classes (snd (fold_runs v rs)) ! i =
    Max (insert (vm_classes v ! i) ((\<lambda>r. run_class r i) ` set rs))"
  using assms(1)
proof (induction rs arbitrary: v)
  case Nil
  then show ?case by simp
next
  case (Cons r rs)
  let ?v = "snd (has_new_bits v r)"
  have "vm_classes ?v ! i = max (vm_classes v ! i) (run_class r i)"
    using Cons.prems assms(2) by (simp add: has_new_bits_eq nth_join_to virgin_wf_def)
  with Cons.IH [of ?v] Cons.prems show ?case
    by (cases "rs = []") (simp_all add: Let_def case_prod_beta virgin_wf_intros max.assoc)
qed

lemma fold_runs_nth:
  "k < length rs \<Longrightarrow>
     fst (fold_runs v rs) ! k = fst (has_new_bits (snd (fold_runs v (take k rs))) (rs ! k))"
proof (induction rs arbitrary: v k)
  case Nil
  then show ?case by simp
next
  case (Cons r rs)
  then show ?case by (cases k) (simp_all add: Let_def case_prod_beta)
qed

section \<open>What the feedback promises\<close>

text \<open>
  The hashed map is a sound abstraction of the exact coverage: after a \<open>clear\<close>, recording any
  sequence of edges leaves in every bucket the number of recorded edges that hash to it, saturated
  at 255, so a bucket is hit exactly when the exact edge set holds an edge of that bucket.\<close>

lemma bitmap_counts_edges:
  assumes "bitmap_wf b" "idx < MAP_SIZE"
  shows "unat (hit (record_edges es (bitmap_clear b)) idx) = min 255 (bucket_count es idx) \<and>
    (hit (record_edges es (bitmap_clear b)) idx \<noteq> 0 \<longleftrightarrow>
      (\<exists>(p, c) \<in> cov_edges (exact_edges es coverage_new). hash_edge p c = idx))"
proof -
  have "unat (hit bitmap_new idx) = 0" using assms(2) by (simp add: hit_def bitmap_new_def)
  then have *: "unat (hit (record_edges es (bitmap_clear b)) idx) = min 255 (bucket_count es idx)"
    using record_edges_hit [OF bitmap_wf_intros(1) assms(2)] by (simp add: bitmap_clear_new [OF assms(1)])
  then have "hit (record_edges es (bitmap_clear b)) idx \<noteq> 0 \<longleftrightarrow> 0 < bucket_count es idx"
    by (auto simp flip: unat_eq_zero)
  with * show ?thesis
    by (simp add: bucket_count_pos exact_edges_sets coverage_new_def)
qed

text \<open>
  C22.  \<open>has_new_bits\<close> is the corpus signal it documents: folding the runs \<open>rs\<close> one after the other
  into a fresh virgin map reports run \<open>k\<close> as interesting exactly when in some bucket its hit-count
  class exceeds the classes all earlier runs reached there; the map holds the maximal class of
  every bucket, and folding a run a second time reports nothing and changes nothing.\<close>

theorem has_new_bits_signals_progress:
  assumes "k < length rs" "i < MAP_SIZE"
  shows "(fst (fold_runs virgin_new rs) ! k \<longleftrightarrow>
      (\<exists>b<MAP_SIZE. run_class (rs ! k) b \<noteq> 0 \<and>
         (\<forall>j<k. run_class (rs ! j) b < run_class (rs ! k) b))) \<and>
    vm_classes (snd (fold_runs virgin_new rs)) ! i =
      Max (insert 0 ((\<lambda>r. run_class r i) ` set rs)) \<and>
    has_new_bits (snd (fold_runs virgin_new rs)) (rs ! k) =
      (False, snd (fold_runs virgin_new rs))"
proof -
  note cls = fold_runs_class [OF virgin_wf_intros(1)]
  have new: "vm_classes virgin_new ! b = 0" if "b < MAP_SIZE" for b
    using that by (simp add: virgin_new_def)
  have "fst (fold_runs virgin_new rs) ! k \<longleftrightarrow>
      (\<exists>b<MAP_SIZE. Max (insert 0 ((\<lambda>r. run_class r b) ` set (take k rs))) < run_class (rs ! k) b)"
    using assms(1) new
    by (auto simp: fold_runs_nth has_new_bits_eq fold_runs_wf virgin_wf_intros(1) cls)
  moreover have "set (take k rs) = (!) rs ` {..<k}" using assms(1)
    by (auto simp: nth_image [symmetric] atLeast0LessThan)
  ultimately have new_k: "fst (fold_runs virgin_new rs) ! k \<longleftrightarrow>
      (\<exists>b<MAP_SIZE. run_class (rs ! k) b \<noteq> 0 \<and>
         (\<forall>j<k. run_class (rs ! j) b < run_class (rs ! k) b))"
    by (auto simp: word_neq_0_conv)
  have top: "vm_classes (snd (fold_runs virgin_new rs)) ! i =
      Max (insert 0 ((\<lambda>r. run_class r i) ` set rs))"
    using cls [OF assms(2)] new [OF assms(2)] by simp
  have le: "run_class (rs ! k) b \<le> vm_classes (snd (fold_runs virgin_new rs)) ! b"
    if "b < MAP_SIZE" for b
    using cls [OF that] assms(1) by simp
  let ?v = "snd (fold_runs virgin_new rs)"
  have wf: "virgin_wf ?v" by (simp add: fold_runs_wf virgin_wf_intros)
  then have "join_to MAP_SIZE (rs ! k) (vm_classes ?v) = vm_classes ?v"
    using le by (intro nth_equalityI) (simp_all add: join_to_def virgin_wf_def max.absorb1)
  moreover have "\<not> (\<exists>b<MAP_SIZE. vm_classes ?v ! b < run_class (rs ! k) b)"
    using le by (meson not_less)
  ultimately have "has_new_bits ?v (rs ! k) = (False, ?v)"
    by (simp only: has_new_bits_eq [OF wf]) simp
  with new_k top show ?thesis by blast
qed

theorem has_new_bits_signals_progress_witness:
  "fst (fold_runs virgin_new [bitmap_new, bitmap_record_edge 0x1000 0x1004 bitmap_new]) ! 1"
proof -
  have bucket: "hash_edge 0x1000 0x1004 = 0x1804" by (simp add: hash_edge_def MAP_SIZE_def)
  let ?r = "bitmap_record_edge 0x1000 0x1004 bitmap_new"
  have "hit ?r 0x1804 = 1" "hit bitmap_new 0x1804 = 0"
    by (simp_all add: hit_def bitmap_record_edge_def bucket bitmap_new_def MAP_SIZE_def
        u8_saturating_add_def)
  then have "run_class ?r 0x1804 = 1" "run_class bitmap_new 0x1804 = 0"
    by (simp_all add: run_class_def classify_count_def)
  then show ?thesis
    using has_new_bits_signals_progress [of 1 "[bitmap_new, ?r]" 0]
    by (auto simp: MAP_SIZE_def intro!: exI [of _ "0x1804"])
qed

end
