(* ===== verification/Prog.thy ===== *)
theory Prog
  imports Prelude "HOL-Library.State_Monad"
begin

text \<open>
  System-call programs (\<open>crates/fs-prog/src\<close>: \<open>rng.rs\<close>, \<open>types.rs\<close>, \<open>resource.rs\<close>, \<open>dict.rs\<close>,
  \<open>prog.rs\<close>): the xorshift generator, the type vocabulary of arguments, resource kinds and their
  subtyping, the constant dictionary, and typed programs with the threading invariant
  \<open>is_well_formed\<close>.  A function that takes \<open>&mut Rng\<close> is a computation in the
  state monad over the generator's word.
  \<open>Rng::pick\<close> panics on an empty slice; where it is used on a table, the table's non-emptiness is
  part of \<open>table_ok\<close>.
\<close>

section \<open>Random numbers\<close>

type_synonym rng = u32

type_synonym 'a gen = "(rng, 'a) state"

abbreviation ret :: "'a \<Rightarrow> 'a gen" where
  "ret \<equiv> State_Monad.return"

definition rng_new :: "u32 \<Rightarrow> rng" where
  "rng_new seed = max seed 1"

definition rng_next :: "u32 gen" where
  "rng_next = do {
     x \<leftarrow> State_Monad.get;
     let x = x XOR push_bit 13 x;
     let x = x XOR drop_bit 17 x;
     let x = x XOR push_bit 5 x;
     State_Monad.set x;
     ret x
   }"

definition next_u64 :: "u64 gen" where
  "next_u64 = do {
     a \<leftarrow> rng_next;
     b \<leftarrow> rng_next;
     ret (push_bit 32 (ucast a) OR ucast b)
   }"

definition below :: "nat \<Rightarrow> nat gen" where
  "below n = (if n = 0 then ret 0 else do { x \<leftarrow> rng_next; ret (unat x mod n) })"

definition chance :: "u32 \<Rightarrow> bool gen" where
  "chance pct = do { x \<leftarrow> rng_next; ret (x mod 100 < pct) }"

definition pick :: "'a list \<Rightarrow> 'a gen" where
  "pick s = do { i \<leftarrow> below (length s); ret (s ! i) }"

definition rng_bool :: "bool gen" where
  "rng_bool = do { x \<leftarrow> rng_next; ret (x mod 2 = 0) }"

section \<open>Resource kinds\<close>

type_synonym resource_kind = string

definition FD :: resource_kind where "FD = ''fd''"
definition SOCK :: resource_kind where "SOCK = ''sock''"
definition EPOLL :: resource_kind where "EPOLL = ''epoll_fd''"
definition VMA :: resource_kind where "VMA = ''vma''"
definition KEY :: resource_kind where "KEY = ''key''"

lemmas kind_defs = FD_def SOCK_def EPOLL_def VMA_def KEY_def

record resource_def =
  rd_kind :: resource_kind
  subtype_of :: "resource_kind option"
  seeds :: "64 word list"

definition RESOURCES :: "resource_def list" where
  "RESOURCES =
     [\<lparr>rd_kind = FD, subtype_of = None, seeds = [-1, -100, 0, 1, 2]\<rparr>,
      \<lparr>rd_kind = SOCK, subtype_of = Some FD, seeds = [-1]\<rparr>,
      \<lparr>rd_kind = EPOLL, subtype_of = Some FD, seeds = [-1, 0]\<rparr>,
      \<lparr>rd_kind = VMA, subtype_of = None, seeds = [0, -1]\<rparr>,
      \<lparr>rd_kind = KEY, subtype_of = None, seeds = [-1, -3, -4]\<rparr>]"

definition parent_of :: "resource_kind \<Rightarrow> resource_kind option" where
  "parent_of k =
     (case find (\<lambda>d. rd_kind d = k) RESOURCES of None \<Rightarrow> None | Some d \<Rightarrow> subtype_of d)"

lemma parent_of_parent: "parent_of k = Some p \<Longrightarrow> parent_of p = None"
  by (auto simp: parent_of_def RESOURCES_def kind_defs split: if_splits)

function kind_compat :: "resource_kind \<Rightarrow> resource_kind \<Rightarrow> bool" where
  "kind_compat want have_kind =
     (if want = have_kind then True
      else case parent_of have_kind of None \<Rightarrow> False | Some p \<Rightarrow> kind_compat want p)"
  by auto
termination
  by (relation "measure (\<lambda>(w, h). if parent_of h = None then 0 else 1)") (auto dest: parent_of_parent)

declare kind_compat.simps [simp del]

definition seeds_for :: "resource_kind \<Rightarrow> 64 word list" where
  "seeds_for k = (case find (\<lambda>d. rd_kind d = k) RESOURCES of None \<Rightarrow> [] | Some d \<Rightarrow> seeds d)"

section \<open>Argument types and descriptions\<close>

datatype dir = In | Out | InOut

datatype len_spec = Fixed u16 | Range u16 u16

datatype arg_type =
    TConst u32
  | TInt u8 bool
  | TFlags "u32 list" bool
  | TRes resource_kind
  | TLen u8
  | TPtr dir arg_type bool
  | TBuffer len_spec
  | TStruct "(string \<times> arg_type) list"
  | TStringConst "string list"

datatype produces =
    ProducesNone
  | ProducesRet resource_kind
  | OutArray u8 resource_kind u8

fun slot_count :: "produces \<Rightarrow> u8" where
  "slot_count ProducesNone = 0"
| "slot_count (ProducesRet k) = 1"
| "slot_count (OutArray arg_idx k count) = count"

fun kind_at :: "produces \<Rightarrow> u8 \<Rightarrow> resource_kind option" where
  "kind_at ProducesNone slot = None"
| "kind_at (ProducesRet k) slot = (if slot = 0 then Some k else None)"
| "kind_at (OutArray arg_idx k count) slot = (if slot < count then Some k else None)"

record syscall_desc =
  sd_name :: string
  sd_nr :: u32
  sd_args :: "arg_type list"
  sd_produces :: produces

section \<open>Programs\<close>

definition MAX_CALLS :: nat where "MAX_CALLS = 8"

datatype res_ref = Seed "64 word" | Produced u16 u8

datatype arg_value =
    VImm u64
  | VRes res_ref
  | VBytes "u8 list"
  | VStruct "arg_value list"
  | VPtr arg_value

record typed_call =
  tc_desc :: syscall_desc
  tc_args :: "arg_value list"

type_synonym prog = "typed_call list"

fun ref_ok :: "prog \<Rightarrow> nat \<Rightarrow> resource_kind \<Rightarrow> res_ref \<Rightarrow> bool" where
  "ref_ok calls i want (Seed s) = True"
| "ref_ok calls i want (Produced call_idx slot) =
     (if i \<le> unat call_idx then False
      else case kind_at (sd_produces (tc_desc (calls ! unat call_idx))) slot of
             None \<Rightarrow> False
           | Some have_kind \<Rightarrow> kind_compat want have_kind)"

fun arg_ok :: "prog \<Rightarrow> nat \<Rightarrow> arg_type \<Rightarrow> arg_value \<Rightarrow> bool" where
  "arg_ok calls i (TRes want) av = (case av of VRes rref \<Rightarrow> ref_ok calls i want rref | _ \<Rightarrow> False)"
| "arg_ok calls i _ av = True"

definition prog_call_ok :: "prog \<Rightarrow> nat \<Rightarrow> typed_call \<Rightarrow> bool" where
  "prog_call_ok calls i c \<longleftrightarrow>
     length (tc_args c) = length (sd_args (tc_desc c)) \<and>
     list_all (\<lambda>(aty, av). arg_ok calls i aty av) (zip (sd_args (tc_desc c)) (tc_args c))"

definition is_well_formed :: "prog \<Rightarrow> bool" where
  "is_well_formed p \<longleftrightarrow> list_all (\<lambda>(i, c). prog_call_ok p i c) (enumerate 0 p)"

section \<open>The dictionary\<close>

definition IOCTL_REQCODES :: "u32 list" where
  "IOCTL_REQCODES = [0x5401, 0x5402, 0x5413, 0x5414, 0x541B, 0x5421, 0x540F, 0x5410, 0x5450, 0x5451,
     0x5452, 0x8912, 0x8913, 0x8914, 0x8927]"

definition NETLINK_CONSTS :: "u32 list" where
  "NETLINK_CONSTS = [1, 2, 3, 4, 16, 18, 20, 22, 24, 26, 0x1, 0x2, 0x4, 0x8, 0x100, 0x200, 0x400,
     0x300, 0x800]"

definition SOCKOPT_CONSTS :: "u32 list" where
  "SOCKOPT_CONSTS = [1, 2, 16, 1, 2, 3, 6, 17, 1, 270, 2, 4, 6, 7, 8, 9]"

definition ERRNO_CONSTS :: "u32 list" where
  "ERRNO_CONSTS = [1, 2, 3, 4, 5, 6, 7, 9, 11, 12, 13, 14, 16, 17, 19, 20, 21, 22, 23, 24, 25, 27, 28,
     29, 30, 32, 34, 38, 39, 40]"

definition FCNTL_PRCTL_CONSTS :: "u32 list" where
  "FCNTL_PRCTL_CONSTS = [0, 1, 2, 3, 4, 5, 6, 7, 8, 9, 10, 11, 1030, 15, 16, 38, 4, 1, 2, 3, 22, 23,
     24, 21, 29, 30, 47]"

definition EPOLL_EVENTFD_TIMERFD_CONSTS :: "u32 list" where
  "EPOLL_EVENTFD_TIMERFD_CONSTS = [0x1, 0x4, 0x8, 0x10, 0x2000, 0x40000000, 0x80000000, 1]"

definition BOUNDARY_CONSTS :: "u32 list" where
  "BOUNDARY_CONSTS = [0, 1, 2, 4095, 4096, 4097, 0xFFFF, 0x10000, 0x7FFFFFFF, 0x80000000, 0xFFFFFFFF]"

definition DICTIONARY_GROUPS :: "u32 list list" where
  "DICTIONARY_GROUPS = [IOCTL_REQCODES, NETLINK_CONSTS, SOCKOPT_CONSTS, ERRNO_CONSTS,
     FCNTL_PRCTL_CONSTS, EPOLL_EVENTFD_TIMERFD_CONSTS, BOUNDARY_CONSTS]"

definition dictionary_len :: nat where
  "dictionary_len = sum_list (map length DICTIONARY_GROUPS)"

definition pick_dict_const :: "u32 gen" where
  "pick_dict_const = do { g \<leftarrow> pick DICTIONARY_GROUPS; pick g }"

section \<open>The generator does not get stuck\<close>

lemma xor_shift_eq_0:
  fixes x :: "'a::len word"
  assumes "0 < k" "x XOR push_bit k x = 0"
  shows "x = 0"
proof (rule bit_word_eqI)
  fix n assume "n < LENGTH('a)"
  then show "bit x n = bit 0 n"
  proof (induction n rule: less_induct)
    case (less n)
    have "bit (x XOR push_bit k x) n = False" using assms(2) by simp
    then have "bit x n \<longleftrightarrow> k \<le> n \<and> bit x (n - k)" using less.prems by (auto simp: bit_simps)
    with less assms(1) show ?case by auto
  qed
qed

lemma xor_drop_eq_0:
  fixes x :: "'a::len word"
  assumes "0 < k" "x XOR drop_bit k x = 0"
  shows "x = 0"
proof (rule bit_word_eqI)
  fix n assume "n < LENGTH('a)"
  then show "bit x n = bit 0 n"
  proof (induction "LENGTH('a) - n" arbitrary: n rule: less_induct)
    case less
    have "bit (x XOR drop_bit k x) n = False" using assms(2) by simp
    then have "bit x n \<longleftrightarrow> bit x (n + k)" using less.prems by (auto simp: bit_simps add.commute)
    moreover have "\<not> bit x (n + k)" if "LENGTH('a) \<le> n + k" using that bit_imp_le_length by fastforce
    ultimately show ?case using less assms(1) by (cases "n + k < LENGTH('a)") auto
  qed
qed

lemma rng_next_nonzero: "r \<noteq> 0 \<Longrightarrow> snd (run_state rng_next r) \<noteq> 0"
  using xor_shift_eq_0 [of 13 r] xor_drop_eq_0 [of 17 "r XOR push_bit 13 r"]
    xor_shift_eq_0 [of 5 "(r XOR push_bit 13 r) XOR drop_bit 17 (r XOR push_bit 13 r)"]
  by (auto simp: rng_next_def Let_def)

section \<open>Properties of every outcome\<close>

text \<open>
  \<open>pred_state P m\<close> says that \<open>P\<close> holds of every value \<open>m\<close> can return, whatever the generator state.
  The rules below prove it along the structure of \<open>m\<close>.
\<close>

lemma pred_ret [simp]: "pred_state P (ret x) \<longleftrightarrow> P x"
  by (auto dest: pred_stateD [where s = undefined])

lemma pred_bind:
  assumes "pred_state Q m" "\<And>x. Q x \<Longrightarrow> pred_state P (f x)"
  shows "pred_state P (State_Monad.bind m f)"
  using assms by (intro bind_predI) (auto elim!: pred_stateD intro: assms(2) dest: pred_stateD)

lemma pred_any: "pred_state (\<lambda>x. True) m"
  by auto

lemma pred_mono: "pred_state Q m \<Longrightarrow> (\<And>x. Q x \<Longrightarrow> P x) \<Longrightarrow> pred_state P m"
  by (auto dest: pred_stateD)

lemma pred_bind_any: "(\<And>x. pred_state P (f x)) \<Longrightarrow> pred_state P (State_Monad.bind m f)"
  by (rule pred_bind [OF pred_any])

lemma pred_if:
  "(c \<Longrightarrow> pred_state P m) \<Longrightarrow> (\<not> c \<Longrightarrow> pred_state P m') \<Longrightarrow> pred_state P (if c then m else m')"
  by simp

lemma pred_below: "0 < n \<Longrightarrow> pred_state (\<lambda>i. i < n) (below n)"
  by (simp add: below_def pred_bind_any)

lemma pred_pick: "s \<noteq> [] \<Longrightarrow> pred_state (\<lambda>x. x \<in> set s) (pick s)"
  unfolding pick_def by (rule pred_bind [OF pred_below]) auto

lemma pred_stateE: "pred_state P m \<Longrightarrow> P (fst (run_state m r))"
  by (rule pred_state_run_state)

lemma kind_compat_refl: "kind_compat k k"
  by (simp add: kind_compat.simps [of k k])

end
