(* ===== verification/Syscalls.thy ===== *)
theory Syscalls
  imports Prog
begin

text \<open>
  The table of system-call descriptions (\<open>crates/fs-prog/src/syscalls.rs\<close>): flag and string pools,
  structure layouts and one description per call, in the order of the source.  A struct is the list
  of its fields with their names; octal literals are written in hexadecimal.  The last section
  states what the generator, the mutator and the lowering rely on, as a checked property of the
  whole table.
\<close>

unbundle bit_operations_syntax

section \<open>Flag and constant tables\<close>

definition OPEN_FLAGS :: "u32 list" where
  "OPEN_FLAGS =
    [0x0, 0x1, 0x2, 0x80, 0x40, 0x200, 0x400, 0x4000, 0x10000, 0x80000, 0x800, 0x20000, 0x200000,
    0x410000]"

definition OPEN_MODE :: "u32 list" where
  "OPEN_MODE = [0x180, 0x1a4, 0x1ed, 0x1ff, 0]"

definition AF_FAMILY :: "u32 list" where
  "AF_FAMILY = [1, 2]"

definition SOCK_TYPE :: "u32 list" where
  "SOCK_TYPE = [1, 2]"

definition SEND_FLAGS :: "u32 list" where
  "SEND_FLAGS = [0, 0x40, 0x4000]"

definition SEEK_WHENCE :: "u32 list" where
  "SEEK_WHENCE = [0, 1, 2]"

definition O_FLAGS_SETFL :: "u32 list" where
  "O_FLAGS_SETFL = [0x400, 0x800, 0x1000]"

definition MEMFD_FLAGS :: "u32 list" where
  "MEMFD_FLAGS = [0, 1, 2, 3]"

definition PRCTL_OPTION :: "u32 list" where
  "PRCTL_OPTION = [15, 16, 38, 4, 1, 2, 3, 22, 23, 24]"

definition IOCTL_CMD :: "u32 list" where
  "IOCTL_CMD = [0x541B, 0x5421, 0x5401]"

definition FACCESSAT_MODE :: "u32 list" where
  "FACCESSAT_MODE = [0, 1, 2, 4]"

definition STATX_MASK :: "u32 list" where
  "STATX_MASK = [0x7ff, 0x800]"

definition PATH_POOL :: "string list" where
  "PATH_POOL = [''/'', ''/dev/null'', ''/proc/self/maps'', ''/tmp/x'']"

definition MEMFD_NAMES :: "string list" where
  "MEMFD_NAMES = [''a'', ''fuzz'', '''']"

definition MMAP_PROT :: "u32 list" where
  "MMAP_PROT = [0, 1, 2, 4, (1 OR 2), (1 OR 4)]"

definition MMAP_FLAGS :: "u32 list" where
  "MMAP_FLAGS = [0x01, 0x02, 0x10, 0x20, 0x4000, 0x8000, 0x20000, (0x02 OR 0x20)]"

definition MADV_ADVICE :: "u32 list" where
  "MADV_ADVICE = [0, 1, 4, 8]"

definition EFD_FLAGS :: "u32 list" where
  "EFD_FLAGS = [0, 1, 0x80000, 0x800]"

definition EPOLL_CREATE_FLAGS :: "u32 list" where
  "EPOLL_CREATE_FLAGS = [0, 0x80000]"

definition EPOLL_OP :: "u32 list" where
  "EPOLL_OP = [1, 2, 3]"

definition EPOLL_EVENTS :: "u32 list" where
  "EPOLL_EVENTS = [0x00000001, 0x00000004, 0x00000008, 0x00000010, 0x00002000, 0x40000000, 0x80000000]"

definition IN_INIT_FLAGS :: "u32 list" where
  "IN_INIT_FLAGS = [0, 0x80000, 0x800]"

definition IN_MASK :: "u32 list" where
  "IN_MASK =
    [0x00000001, 0x00000002, 0x00000004, 0x00000008, 0x00000020, 0x00000100, 0x00000200, 0x40000000]"

definition FLOCK_OP :: "u32 list" where
  "FLOCK_OP = [1, 2, 4, 8]"

definition CLOCKIDS :: "u32 list" where
  "CLOCKIDS = [0, 1, 7]"

definition TFD_FLAGS :: "u32 list" where
  "TFD_FLAGS = [0, 0x80000, 0x800]"

definition TFD_SETTIME_FLAGS :: "u32 list" where
  "TFD_SETTIME_FLAGS = [0, 1]"

definition SFD_FLAGS :: "u32 list" where
  "SFD_FLAGS = [0, 0x80000, 0x800]"

definition SOCKOPT_LEVEL :: "u32 list" where
  "SOCKOPT_LEVEL = [1]"

definition SOCKOPT_NAME :: "u32 list" where
  "SOCKOPT_NAME = [2, 4, 6, 7, 8, 9]"

definition SHUTDOWN_HOW :: "u32 list" where
  "SHUTDOWN_HOW = [0, 1, 2]"

definition ACCEPT4_FLAGS :: "u32 list" where
  "ACCEPT4_FLAGS = [0, 0x80000, 0x800]"

definition FALLOCATE_MODE :: "u32 list" where
  "FALLOCATE_MODE = [0x00, 0x01, 0x02, 0x10]"

definition CLOSE_RANGE_FLAGS :: "u32 list" where
  "CLOSE_RANGE_FLAGS = [0, 2, 4]"

definition FD_FLAGS :: "u32 list" where
  "FD_FLAGS = [0, 1]"

definition RWF_FLAGS :: "u32 list" where
  "RWF_FLAGS = [0x00, 0x01, 0x02, 0x04, 0x08]"

definition F_DUPFD_CLOEXEC :: u32 where
  "F_DUPFD_CLOEXEC = 1030"

definition TCGETS :: u32 where
  "TCGETS = 0x5401"

definition TCSETS :: u32 where
  "TCSETS = 0x5402"

definition TIOCGWINSZ :: u32 where
  "TIOCGWINSZ = 0x5413"

definition TIOCSWINSZ :: u32 where
  "TIOCSWINSZ = 0x5414"

definition FIONREAD :: u32 where
  "FIONREAD = 0x541B"

definition FIONBIO :: u32 where
  "FIONBIO = 0x5421"

definition SIOCGIFCONF :: u32 where
  "SIOCGIFCONF = 0x8912"

definition SIOCGIFFLAGS :: u32 where
  "SIOCGIFFLAGS = 0x8913"

definition AF_NETLINK :: u32 where
  "AF_NETLINK = 16"

definition AF_INET_ONLY :: "u32 list" where
  "AF_INET_ONLY = [2]"

definition AF_UNIX_ONLY :: "u32 list" where
  "AF_UNIX_ONLY = [1]"

definition NETLINK_SOCK_TYPE :: "u32 list" where
  "NETLINK_SOCK_TYPE = [2, 3]"

definition NETLINK_PROTO :: "u32 list" where
  "NETLINK_PROTO = [0, 4]"

definition SUN_PATHS :: "string list" where
  "SUN_PATHS = [''/tmp/s'', ''/tmp/y'', '''']"

definition IPPROTO_TCP :: u32 where
  "IPPROTO_TCP = 6"

definition SOL_SOCKET :: u32 where
  "SOL_SOCKET = 1"

definition SO_REUSEADDR :: u32 where
  "SO_REUSEADDR = 2"

definition TCP_NODELAY :: u32 where
  "TCP_NODELAY = 1"

definition TIOCGPGRP :: u32 where
  "TIOCGPGRP = 0x540F"

definition TIOCSPGRP :: u32 where
  "TIOCSPGRP = 0x5410"

definition FIONCLEX :: u32 where
  "FIONCLEX = 0x5450"

definition FIOCLEX :: u32 where
  "FIOCLEX = 0x5451"

definition FIOASYNC :: u32 where
  "FIOASYNC = 0x5452"

definition SIOCSIFFLAGS :: u32 where
  "SIOCSIFFLAGS = 0x8914"

definition SIOCGIFHWADDR :: u32 where
  "SIOCGIFHWADDR = 0x8927"

definition SO_SNDBUF :: u32 where
  "SO_SNDBUF = 7"

definition SOL_NETLINK :: u32 where
  "SOL_NETLINK = 270"

definition NETLINK_ADD_MEMBERSHIP :: u32 where
  "NETLINK_ADD_MEMBERSHIP = 1"

definition FAIL_NTH_PATH :: "string list" where
  "FAIL_NTH_PATH = [''/proc/self/fail-nth'']"

definition FAIL_NTH_COUNTS :: "string list" where
  "FAIL_NTH_COUNTS = [''0'', ''1'', ''2'', ''3'', ''5'', ''8'', ''16'']"

definition NLMSG_TYPE :: "u32 list" where
  "NLMSG_TYPE = [1, 2, 3, 16, 18, 22, 26]"

definition NLM_F_FLAGS :: "u32 list" where
  "NLM_F_FLAGS = [0x1, 0x2, 0x4, 0x100, 0x200, 0x300]"

definition SPLICE_FLAGS :: "u32 list" where
  "SPLICE_FLAGS = [0, 0x01, 0x02, 0x04, 0x08]"

definition UNSHARE_FLAGS :: "u32 list" where
  "UNSHARE_FLAGS =
    [0x00000200, 0x00000400, 0x00000080, 0x00010000, 0x00020000, 0x00040000, 0x02000000, 0x04000000,
    0x08000000, 0x10000000, 0x20000000, 0x40000000]"

definition NSTYPE_FLAGS :: "u32 list" where
  "NSTYPE_FLAGS =
    [0, 0x00000080, 0x00020000, 0x02000000, 0x04000000, 0x08000000, 0x10000000, 0x20000000, 0x40000000]"

definition NS_PATHS :: "string list" where
  "NS_PATHS =
    [''/proc/self/ns/mnt'', ''/proc/self/ns/uts'', ''/proc/self/ns/ipc'', ''/proc/self/ns/user'',
    ''/proc/self/ns/pid'', ''/proc/self/ns/net'', ''/proc/self/ns/time'']"

definition KEY_TYPES :: "string list" where
  "KEY_TYPES = [''user'', ''keyring'', ''logon'']"

definition KEY_DESCRIPTIONS :: "string list" where
  "KEY_DESCRIPTIONS = [''fuzzkey'', ''a'', '''']"

definition KEY_CALLOUT_INFO :: "string list" where
  "KEY_CALLOUT_INFO = [''-'', ''fuzz'']"

definition KEYRING_SPECIAL :: "u32 list" where
  "KEYRING_SPECIAL = [0xffffffff, 0xfffffffe, 0xfffffffd, 0xfffffffc, 0xfffffffb]"

definition KEYCTL_GET_KEYRING_ID :: u32 where
  "KEYCTL_GET_KEYRING_ID = 0"

definition KEYCTL_REVOKE :: u32 where
  "KEYCTL_REVOKE = 3"

definition KEYCTL_UNLINK :: u32 where
  "KEYCTL_UNLINK = 9"

definition KEYCTL_READ :: u32 where
  "KEYCTL_READ = 11"

definition KEYCTL_DESCRIBE :: u32 where
  "KEYCTL_DESCRIBE = 6"

section \<open>Structures\<close>

definition REMOTE_IOVEC_FIELDS :: "(string \<times> arg_type) list" where
  "REMOTE_IOVEC_FIELDS = [(''iov_base'', (TInt 32 False)), (''iov_len'', (TInt 32 False))]"

definition REMOTE_IOVEC :: arg_type where
  "REMOTE_IOVEC = TStruct REMOTE_IOVEC_FIELDS"

definition REMOTE_IOVEC2_FIELDS :: "(string \<times> arg_type) list" where
  "REMOTE_IOVEC2_FIELDS = [(''iov0'', REMOTE_IOVEC), (''iov1'', REMOTE_IOVEC)]"

definition REMOTE_IOVEC2 :: arg_type where
  "REMOTE_IOVEC2 = TStruct REMOTE_IOVEC2_FIELDS"

definition SOCKADDR_FIELDS :: "(string \<times> arg_type) list" where
  "SOCKADDR_FIELDS = [(''family'', (TFlags AF_FAMILY False)), (''data'', (TBuffer (Fixed 14)))]"

definition SOCKADDR :: arg_type where
  "SOCKADDR = TStruct SOCKADDR_FIELDS"

definition STATX_BUF :: arg_type where
  "STATX_BUF = TBuffer (Fixed 256)"

definition IOVEC_FIELDS :: "(string \<times> arg_type) list" where
  "IOVEC_FIELDS =
    [(''iov_base'', (TPtr In (TBuffer (Range 0 64)) False)), (''iov_len'', (TInt 32 False))]"

definition IOVEC :: arg_type where
  "IOVEC = TStruct IOVEC_FIELDS"

definition IOVEC2_FIELDS :: "(string \<times> arg_type) list" where
  "IOVEC2_FIELDS = [(''iov0'', IOVEC), (''iov1'', IOVEC)]"

definition IOVEC2 :: arg_type where
  "IOVEC2 = TStruct IOVEC2_FIELDS"

definition MSGHDR_FIELDS :: "(string \<times> arg_type) list" where
  "MSGHDR_FIELDS =
    [(''msg_name'', (TPtr In SOCKADDR True)), (''msg_namelen'', (TInt 32 False)), (''msg_iov'',
    (TPtr In IOVEC2 False)), (''msg_iovlen'', (TConst 2)), (''msg_control'',
    (TPtr In (TBuffer (Fixed 16)) True)), (''msg_controllen'', (TInt 32 False)), (''msg_flags'',
    (TInt 32 False))]"

definition MSGHDR :: arg_type where
  "MSGHDR = TStruct MSGHDR_FIELDS"

definition EPOLL_EVENT_FIELDS :: "(string \<times> arg_type) list" where
  "EPOLL_EVENT_FIELDS =
    [(''events'', (TFlags EPOLL_EVENTS True)), (''data_lo'', (TInt 32 False)), (''data_hi'',
    (TInt 32 False))]"

definition EPOLL_EVENT :: arg_type where
  "EPOLL_EVENT = TStruct EPOLL_EVENT_FIELDS"

definition TIMESPEC64_FIELDS :: "(string \<times> arg_type) list" where
  "TIMESPEC64_FIELDS = [(''tv_sec'', (TInt 64 True)), (''tv_nsec'', (TInt 64 True))]"

definition TIMESPEC64 :: arg_type where
  "TIMESPEC64 = TStruct TIMESPEC64_FIELDS"

definition ITIMERSPEC64_FIELDS :: "(string \<times> arg_type) list" where
  "ITIMERSPEC64_FIELDS = [(''it_interval'', TIMESPEC64), (''it_value'', TIMESPEC64)]"

definition ITIMERSPEC64 :: arg_type where
  "ITIMERSPEC64 = TStruct ITIMERSPEC64_FIELDS"

definition OPEN_HOW_FIELDS :: "(string \<times> arg_type) list" where
  "OPEN_HOW_FIELDS =
    [(''flags'', (TInt 64 False)), (''mode'', (TInt 64 False)), (''resolve'', (TInt 64 False))]"

definition OPEN_HOW :: arg_type where
  "OPEN_HOW = TStruct OPEN_HOW_FIELDS"

definition WINSIZE_FIELDS :: "(string \<times> arg_type) list" where
  "WINSIZE_FIELDS =
    [(''ws_row'', (TInt 16 False)), (''ws_col'', (TInt 16 False)), (''ws_xpixel'', (TInt 16 False)),
    (''ws_ypixel'', (TInt 16 False))]"

definition WINSIZE :: arg_type where
  "WINSIZE = TStruct WINSIZE_FIELDS"

definition TERMIOS_FIELDS :: "(string \<times> arg_type) list" where
  "TERMIOS_FIELDS =
    [(''c_iflag'', (TInt 32 False)), (''c_oflag'', (TInt 32 False)), (''c_cflag'', (TInt 32 False)),
    (''c_lflag'', (TInt 32 False)), (''c_line'', (TInt 8 False)), (''c_cc'', (TBuffer (Fixed 19)))]"

definition TERMIOS :: arg_type where
  "TERMIOS = TStruct TERMIOS_FIELDS"

definition IFREQ_FIELDS :: "(string \<times> arg_type) list" where
  "IFREQ_FIELDS = [(''ifr_name'', (TBuffer (Fixed 16))), (''ifr_ifru'', (TBuffer (Fixed 16)))]"

definition IFREQ :: arg_type where
  "IFREQ = TStruct IFREQ_FIELDS"

definition IFCONF_FIELDS :: "(string \<times> arg_type) list" where
  "IFCONF_FIELDS =
    [(''ifc_len'', (TInt 32 False)), (''ifc_buf'', (TPtr Out (TBuffer (Fixed 128)) False))]"

definition IFCONF :: arg_type where
  "IFCONF = TStruct IFCONF_FIELDS"

definition SOCKADDR_IN_FIELDS :: "(string \<times> arg_type) list" where
  "SOCKADDR_IN_FIELDS =
    [(''sin_family'', (TConst 2)), (''sin_port'', (TInt 16 False)), (''sin_addr'', (TInt 32 False)),
    (''sin_zero'', (TBuffer (Fixed 8)))]"

definition SOCKADDR_IN :: arg_type where
  "SOCKADDR_IN = TStruct SOCKADDR_IN_FIELDS"

definition SOCKADDR_UN_FIELDS :: "(string \<times> arg_type) list" where
  "SOCKADDR_UN_FIELDS = [(''sun_family'', (TConst 1)), (''sun_path'', (TStringConst SUN_PATHS))]"

definition SOCKADDR_UN :: arg_type where
  "SOCKADDR_UN = TStruct SOCKADDR_UN_FIELDS"

definition SOCKADDR_NL_FIELDS :: "(string \<times> arg_type) list" where
  "SOCKADDR_NL_FIELDS =
    [(''nl_family'', (TConst AF_NETLINK)), (''nl_pad'', (TConst 0)), (''nl_pid'', (TInt 32 False)),
    (''nl_groups'', (TInt 32 False))]"

definition SOCKADDR_NL :: arg_type where
  "SOCKADDR_NL = TStruct SOCKADDR_NL_FIELDS"

definition NLMSG_FIELDS :: "(string \<times> arg_type) list" where
  "NLMSG_FIELDS =
    [(''nlmsg_len'', (TInt 32 False)), (''nlmsg_type'', (TInt 16 False)), (''nlmsg_flags'',
    (TInt 16 False)), (''nlmsg_seq'', (TInt 32 False)), (''nlmsg_pid'', (TInt 32 False)), (''payload'',
    (TBuffer (Fixed 16)))]"

definition NLMSG :: arg_type where
  "NLMSG = TStruct NLMSG_FIELDS"

definition IOVEC_NL_FIELDS :: "(string \<times> arg_type) list" where
  "IOVEC_NL_FIELDS = [(''iov_base'', (TPtr In NLMSG False)), (''iov_len'', (TInt 32 False))]"

definition IOVEC_NL :: arg_type where
  "IOVEC_NL = TStruct IOVEC_NL_FIELDS"

definition MSGHDR_NL_FIELDS :: "(string \<times> arg_type) list" where
  "MSGHDR_NL_FIELDS =
    [(''msg_name'', (TPtr In SOCKADDR_NL True)), (''msg_namelen'', (TInt 32 False)), (''msg_iov'',
    (TPtr In IOVEC_NL False)), (''msg_iovlen'', (TConst 1)), (''msg_control'',
    (TPtr In (TBuffer (Fixed 16)) True)), (''msg_controllen'', (TInt 32 False)), (''msg_flags'',
    (TInt 32 False))]"

definition MSGHDR_NL :: arg_type where
  "MSGHDR_NL = TStruct MSGHDR_NL_FIELDS"

section \<open>Descriptions\<close>

definition sys_openat :: syscall_desc where
  "sys_openat =
    \<lparr>sd_name = ''openat'', sd_nr = 56,
     sd_args = [(TRes FD), (TPtr In (TStringConst PATH_POOL) False), (TFlags OPEN_FLAGS True),
     (TFlags OPEN_MODE False)],
     sd_produces = ProducesRet FD\<rparr>"

definition sys_read :: syscall_desc where
  "sys_read =
    \<lparr>sd_name = ''read'', sd_nr = 63,
     sd_args = [(TRes FD), (TPtr Out (TBuffer (Range 0 256)) False), (TLen 1)],
     sd_produces = ProducesNone\<rparr>"

definition sys_write :: syscall_desc where
  "sys_write =
    \<lparr>sd_name = ''write'', sd_nr = 64,
     sd_args = [(TRes FD), (TPtr In (TBuffer (Range 0 256)) False), (TLen 1)],
     sd_produces = ProducesNone\<rparr>"

definition sys_close :: syscall_desc where
  "sys_close =
    \<lparr>sd_name = ''close'', sd_nr = 57,
     sd_args = [(TRes FD)],
     sd_produces = ProducesNone\<rparr>"

definition sys_llseek :: syscall_desc where
  "sys_llseek =
    \<lparr>sd_name = ''llseek'', sd_nr = 62,
     sd_args = [(TRes FD), (TInt 32 True), (TInt 32 True), (TPtr Out (TInt 64 True) False),
     (TFlags SEEK_WHENCE False)],
     sd_produces = ProducesNone\<rparr>"

definition sys_ioctl_generic :: syscall_desc where
  "sys_ioctl_generic =
    \<lparr>sd_name = ''ioctl$generic'', sd_nr = 29,
     sd_args = [(TRes FD), (TFlags IOCTL_CMD False), (TPtr InOut (TBuffer (Fixed 64)) True)],
     sd_produces = ProducesNone\<rparr>"

definition sys_dup :: syscall_desc where
  "sys_dup =
    \<lparr>sd_name = ''dup'', sd_nr = 23,
     sd_args = [(TRes FD)],
     sd_produces = ProducesRet FD\<rparr>"

definition sys_dup3 :: syscall_desc where
  "sys_dup3 =
    \<lparr>sd_name = ''dup3'', sd_nr = 24,
     sd_args = [(TRes FD), (TInt 32 False), (TFlags [0x80000] True)],
     sd_produces = ProducesRet FD\<rparr>"

definition sys_fcntl64_dupfd :: syscall_desc where
  "sys_fcntl64_dupfd =
    \<lparr>sd_name = ''fcntl64$dupfd'', sd_nr = 25,
     sd_args = [(TRes FD), (TConst 0), (TInt 32 False)],
     sd_produces = ProducesRet FD\<rparr>"

definition sys_fcntl64_setfl :: syscall_desc where
  "sys_fcntl64_setfl =
    \<lparr>sd_name = ''fcntl64$setfl'', sd_nr = 25,
     sd_args = [(TRes FD), (TConst 4), (TFlags O_FLAGS_SETFL True)],
     sd_produces = ProducesNone\<rparr>"

definition sys_pipe2 :: syscall_desc where
  "sys_pipe2 =
    \<lparr>sd_name = ''pipe2'', sd_nr = 59,
     sd_args = [(TPtr Out (TBuffer (Fixed 8)) False), (TFlags OPEN_FLAGS True)],
     sd_produces = OutArray 0 FD 2\<rparr>"

definition sys_socket :: syscall_desc where
  "sys_socket =
    \<lparr>sd_name = ''socket'', sd_nr = 198,
     sd_args = [(TFlags AF_FAMILY False), (TFlags SOCK_TYPE False), (TConst 0)],
     sd_produces = ProducesRet SOCK\<rparr>"

definition sys_bind :: syscall_desc where
  "sys_bind =
    \<lparr>sd_name = ''bind'', sd_nr = 200,
     sd_args = [(TRes SOCK), (TPtr In SOCKADDR False), (TLen 1)],
     sd_produces = ProducesNone\<rparr>"

definition sys_sendto :: syscall_desc where
  "sys_sendto =
    \<lparr>sd_name = ''sendto'', sd_nr = 206,
     sd_args = [(TRes SOCK), (TPtr In (TBuffer (Range 0 128)) False), (TLen 1),
     (TFlags SEND_FLAGS True), (TPtr In SOCKADDR True), (TLen 4)],
     sd_produces = ProducesNone\<rparr>"

definition sys_getcwd :: syscall_desc where
  "sys_getcwd =
    \<lparr>sd_name = ''getcwd'', sd_nr = 17,
     sd_args = [(TPtr Out (TBuffer (Range 0 256)) False), (TLen 0)],
     sd_produces = ProducesNone\<rparr>"

definition sys_faccessat :: syscall_desc where
  "sys_faccessat =
    \<lparr>sd_name = ''faccessat'', sd_nr = 48,
     sd_args = [(TRes FD), (TPtr In (TStringConst PATH_POOL) False), (TFlags FACCESSAT_MODE True),
     (TConst 0)],
     sd_produces = ProducesNone\<rparr>"

definition sys_statx :: syscall_desc where
  "sys_statx =
    \<lparr>sd_name = ''statx'', sd_nr = 291,
     sd_args = [(TRes FD), (TPtr In (TStringConst PATH_POOL) False), (TFlags [0, 0x1000] True),
     (TFlags STATX_MASK True), (TPtr Out STATX_BUF False)],
     sd_produces = ProducesNone\<rparr>"

definition sys_getdents64 :: syscall_desc where
  "sys_getdents64 =
    \<lparr>sd_name = ''getdents64'', sd_nr = 61,
     sd_args = [(TRes FD), (TPtr Out (TBuffer (Range 32 512)) False), (TLen 1)],
     sd_produces = ProducesNone\<rparr>"

definition sys_memfd_create :: syscall_desc where
  "sys_memfd_create =
    \<lparr>sd_name = ''memfd_create'', sd_nr = 279,
     sd_args = [(TPtr In (TStringConst MEMFD_NAMES) False), (TFlags MEMFD_FLAGS True)],
     sd_produces = ProducesRet FD\<rparr>"

definition sys_prctl :: syscall_desc where
  "sys_prctl =
    \<lparr>sd_name = ''prctl'', sd_nr = 167,
     sd_args = [(TFlags PRCTL_OPTION False), (TInt 32 False), (TInt 32 False), (TInt 32 False),
     (TInt 32 False)],
     sd_produces = ProducesNone\<rparr>"

definition sys_eventfd2 :: syscall_desc where
  "sys_eventfd2 =
    \<lparr>sd_name = ''eventfd2'', sd_nr = 19,
     sd_args = [(TInt 32 False), (TFlags EFD_FLAGS True)],
     sd_produces = ProducesRet FD\<rparr>"

definition sys_epoll_create1 :: syscall_desc where
  "sys_epoll_create1 =
    \<lparr>sd_name = ''epoll_create1'', sd_nr = 20,
     sd_args = [(TFlags EPOLL_CREATE_FLAGS True)],
     sd_produces = ProducesRet EPOLL\<rparr>"

definition sys_epoll_ctl :: syscall_desc where
  "sys_epoll_ctl =
    \<lparr>sd_name = ''epoll_ctl'', sd_nr = 21,
     sd_args = [(TRes EPOLL), (TFlags EPOLL_OP False), (TRes FD), (TPtr In EPOLL_EVENT True)],
     sd_produces = ProducesNone\<rparr>"

definition sys_epoll_pwait :: syscall_desc where
  "sys_epoll_pwait =
    \<lparr>sd_name = ''epoll_pwait'', sd_nr = 22,
     sd_args = [(TRes EPOLL), (TPtr Out EPOLL_EVENT False), (TInt 32 False), (TInt 32 True),
     (TPtr In (TBuffer (Fixed 8)) True), (TLen 4)],
     sd_produces = ProducesNone\<rparr>"

definition sys_inotify_init1 :: syscall_desc where
  "sys_inotify_init1 =
    \<lparr>sd_name = ''inotify_init1'', sd_nr = 26,
     sd_args = [(TFlags IN_INIT_FLAGS True)],
     sd_produces = ProducesRet FD\<rparr>"

definition sys_inotify_add_watch :: syscall_desc where
  "sys_inotify_add_watch =
    \<lparr>sd_name = ''inotify_add_watch'', sd_nr = 27,
     sd_args = [(TRes FD), (TPtr In (TStringConst PATH_POOL) False), (TFlags IN_MASK True)],
     sd_produces = ProducesNone\<rparr>"

definition sys_inotify_rm_watch :: syscall_desc where
  "sys_inotify_rm_watch =
    \<lparr>sd_name = ''inotify_rm_watch'', sd_nr = 28,
     sd_args = [(TRes FD), (TInt 32 False)],
     sd_produces = ProducesNone\<rparr>"

definition sys_flock :: syscall_desc where
  "sys_flock =
    \<lparr>sd_name = ''flock'', sd_nr = 32,
     sd_args = [(TRes FD), (TFlags FLOCK_OP True)],
     sd_produces = ProducesNone\<rparr>"

definition sys_timerfd_create :: syscall_desc where
  "sys_timerfd_create =
    \<lparr>sd_name = ''timerfd_create'', sd_nr = 85,
     sd_args = [(TFlags CLOCKIDS False), (TFlags TFD_FLAGS True)],
     sd_produces = ProducesRet FD\<rparr>"

definition sys_timerfd_settime64 :: syscall_desc where
  "sys_timerfd_settime64 =
    \<lparr>sd_name = ''timerfd_settime64'', sd_nr = 411,
     sd_args = [(TRes FD), (TFlags TFD_SETTIME_FLAGS True), (TPtr In ITIMERSPEC64 False),
     (TPtr Out ITIMERSPEC64 True)],
     sd_produces = ProducesNone\<rparr>"

definition sys_signalfd4 :: syscall_desc where
  "sys_signalfd4 =
    \<lparr>sd_name = ''signalfd4'', sd_nr = 74,
     sd_args = [(TRes FD), (TPtr In (TBuffer (Fixed 8)) False), (TLen 1), (TFlags SFD_FLAGS True)],
     sd_produces = ProducesRet FD\<rparr>"

definition sys_socketpair :: syscall_desc where
  "sys_socketpair =
    \<lparr>sd_name = ''socketpair'', sd_nr = 199,
     sd_args = [(TFlags AF_FAMILY False), (TFlags SOCK_TYPE False), (TConst 0),
     (TPtr Out (TBuffer (Fixed 8)) False)],
     sd_produces = OutArray 3 SOCK 2\<rparr>"

definition sys_listen :: syscall_desc where
  "sys_listen =
    \<lparr>sd_name = ''listen'', sd_nr = 201,
     sd_args = [(TRes SOCK), (TInt 32 False)],
     sd_produces = ProducesNone\<rparr>"

definition sys_accept4 :: syscall_desc where
  "sys_accept4 =
    \<lparr>sd_name = ''accept4'', sd_nr = 242,
     sd_args = [(TRes SOCK), (TPtr Out SOCKADDR True), (TPtr InOut (TInt 32 False) True),
     (TFlags ACCEPT4_FLAGS True)],
     sd_produces = ProducesRet SOCK\<rparr>"

definition sys_connect :: syscall_desc where
  "sys_connect =
    \<lparr>sd_name = ''connect'', sd_nr = 203,
     sd_args = [(TRes SOCK), (TPtr In SOCKADDR False), (TLen 1)],
     sd_produces = ProducesNone\<rparr>"

definition sys_getsockname :: syscall_desc where
  "sys_getsockname =
    \<lparr>sd_name = ''getsockname'', sd_nr = 204,
     sd_args = [(TRes SOCK), (TPtr Out SOCKADDR False), (TPtr InOut (TInt 32 False) True)],
     sd_produces = ProducesNone\<rparr>"

definition sys_getpeername :: syscall_desc where
  "sys_getpeername =
    \<lparr>sd_name = ''getpeername'', sd_nr = 205,
     sd_args = [(TRes SOCK), (TPtr Out SOCKADDR False), (TPtr InOut (TInt 32 False) True)],
     sd_produces = ProducesNone\<rparr>"

definition sys_setsockopt :: syscall_desc where
  "sys_setsockopt =
    \<lparr>sd_name = ''setsockopt'', sd_nr = 208,
     sd_args = [(TRes SOCK), (TFlags SOCKOPT_LEVEL False), (TFlags SOCKOPT_NAME False),
     (TPtr In (TBuffer (Fixed 4)) False), (TLen 3)],
     sd_produces = ProducesNone\<rparr>"

definition sys_getsockopt :: syscall_desc where
  "sys_getsockopt =
    \<lparr>sd_name = ''getsockopt'', sd_nr = 209,
     sd_args = [(TRes SOCK), (TFlags SOCKOPT_LEVEL False), (TFlags SOCKOPT_NAME False),
     (TPtr Out (TBuffer (Fixed 4)) False), (TPtr InOut (TInt 32 False) False)],
     sd_produces = ProducesNone\<rparr>"

definition sys_shutdown :: syscall_desc where
  "sys_shutdown =
    \<lparr>sd_name = ''shutdown'', sd_nr = 210,
     sd_args = [(TRes SOCK), (TFlags SHUTDOWN_HOW False)],
     sd_produces = ProducesNone\<rparr>"

definition sys_recvfrom :: syscall_desc where
  "sys_recvfrom =
    \<lparr>sd_name = ''recvfrom'', sd_nr = 207,
     sd_args = [(TRes SOCK), (TPtr Out (TBuffer (Range 0 128)) False), (TLen 1),
     (TFlags SEND_FLAGS True), (TPtr Out SOCKADDR True), (TPtr InOut (TInt 32 False) True)],
     sd_produces = ProducesNone\<rparr>"

definition sys_sendmsg :: syscall_desc where
  "sys_sendmsg =
    \<lparr>sd_name = ''sendmsg'', sd_nr = 211,
     sd_args = [(TRes SOCK), (TPtr In MSGHDR False), (TFlags SEND_FLAGS True)],
     sd_produces = ProducesNone\<rparr>"

definition sys_recvmsg :: syscall_desc where
  "sys_recvmsg =
    \<lparr>sd_name = ''recvmsg'', sd_nr = 212,
     sd_args = [(TRes SOCK), (TPtr Out MSGHDR False), (TFlags SEND_FLAGS True)],
     sd_produces = ProducesNone\<rparr>"

definition sys_mmap2 :: syscall_desc where
  "sys_mmap2 =
    \<lparr>sd_name = ''mmap2'', sd_nr = 222,
     sd_args = [(TInt 32 False), (TInt 32 False), (TFlags MMAP_PROT True), (TFlags MMAP_FLAGS True),
     (TRes FD), (TInt 32 False)],
     sd_produces = ProducesRet VMA\<rparr>"

definition sys_munmap :: syscall_desc where
  "sys_munmap =
    \<lparr>sd_name = ''munmap'', sd_nr = 215,
     sd_args = [(TRes VMA), (TInt 32 False)],
     sd_produces = ProducesNone\<rparr>"

definition sys_mprotect :: syscall_desc where
  "sys_mprotect =
    \<lparr>sd_name = ''mprotect'', sd_nr = 226,
     sd_args = [(TRes VMA), (TInt 32 False), (TFlags MMAP_PROT True)],
     sd_produces = ProducesNone\<rparr>"

definition sys_madvise :: syscall_desc where
  "sys_madvise =
    \<lparr>sd_name = ''madvise'', sd_nr = 233,
     sd_args = [(TRes VMA), (TInt 32 False), (TFlags MADV_ADVICE False)],
     sd_produces = ProducesNone\<rparr>"

definition sys_ftruncate64 :: syscall_desc where
  "sys_ftruncate64 =
    \<lparr>sd_name = ''ftruncate64'', sd_nr = 46,
     sd_args = [(TRes FD), (TInt 32 False), (TInt 32 False)],
     sd_produces = ProducesNone\<rparr>"

definition sys_fallocate :: syscall_desc where
  "sys_fallocate =
    \<lparr>sd_name = ''fallocate'', sd_nr = 47,
     sd_args = [(TRes FD), (TFlags FALLOCATE_MODE True), (TInt 32 False), (TInt 32 False),
     (TInt 32 False), (TInt 32 False)],
     sd_produces = ProducesNone\<rparr>"

definition sys_pread64 :: syscall_desc where
  "sys_pread64 =
    \<lparr>sd_name = ''pread64'', sd_nr = 67,
     sd_args = [(TRes FD), (TPtr Out (TBuffer (Range 0 256)) False), (TLen 1), (TInt 32 False),
     (TInt 32 False)],
     sd_produces = ProducesNone\<rparr>"

definition sys_pwrite64 :: syscall_desc where
  "sys_pwrite64 =
    \<lparr>sd_name = ''pwrite64'', sd_nr = 68,
     sd_args = [(TRes FD), (TPtr In (TBuffer (Range 0 256)) False), (TLen 1), (TInt 32 False),
     (TInt 32 False)],
     sd_produces = ProducesNone\<rparr>"

definition sys_readv :: syscall_desc where
  "sys_readv =
    \<lparr>sd_name = ''readv'', sd_nr = 65,
     sd_args = [(TRes FD), (TPtr Out IOVEC2 False), (TConst 2)],
     sd_produces = ProducesNone\<rparr>"

definition sys_writev :: syscall_desc where
  "sys_writev =
    \<lparr>sd_name = ''writev'', sd_nr = 66,
     sd_args = [(TRes FD), (TPtr In IOVEC2 False), (TConst 2)],
     sd_produces = ProducesNone\<rparr>"

definition sys_preadv :: syscall_desc where
  "sys_preadv =
    \<lparr>sd_name = ''preadv'', sd_nr = 69,
     sd_args = [(TRes FD), (TPtr Out IOVEC2 False), (TConst 2), (TInt 32 False), (TInt 32 False)],
     sd_produces = ProducesNone\<rparr>"

definition sys_pwritev :: syscall_desc where
  "sys_pwritev =
    \<lparr>sd_name = ''pwritev'', sd_nr = 70,
     sd_args = [(TRes FD), (TPtr In IOVEC2 False), (TConst 2), (TInt 32 False), (TInt 32 False)],
     sd_produces = ProducesNone\<rparr>"

definition sys_preadv2 :: syscall_desc where
  "sys_preadv2 =
    \<lparr>sd_name = ''preadv2'', sd_nr = 286,
     sd_args = [(TRes FD), (TPtr Out IOVEC2 False), (TConst 2), (TInt 32 False), (TInt 32 False),
     (TFlags RWF_FLAGS True)],
     sd_produces = ProducesNone\<rparr>"

definition sys_pwritev2 :: syscall_desc where
  "sys_pwritev2 =
    \<lparr>sd_name = ''pwritev2'', sd_nr = 287,
     sd_args = [(TRes FD), (TPtr In IOVEC2 False), (TConst 2), (TInt 32 False), (TInt 32 False),
     (TFlags RWF_FLAGS True)],
     sd_produces = ProducesNone\<rparr>"

definition sys_openat2 :: syscall_desc where
  "sys_openat2 =
    \<lparr>sd_name = ''openat2'', sd_nr = 437,
     sd_args = [(TRes FD), (TPtr In (TStringConst PATH_POOL) False), (TPtr In OPEN_HOW False),
     (TLen 2)],
     sd_produces = ProducesRet FD\<rparr>"

definition sys_close_range :: syscall_desc where
  "sys_close_range =
    \<lparr>sd_name = ''close_range'', sd_nr = 436,
     sd_args = [(TRes FD), (TRes FD), (TFlags CLOSE_RANGE_FLAGS True)],
     sd_produces = ProducesNone\<rparr>"

definition sys_pidfd_open :: syscall_desc where
  "sys_pidfd_open =
    \<lparr>sd_name = ''pidfd_open'', sd_nr = 434,
     sd_args = [(TInt 32 False), (TConst 0)],
     sd_produces = ProducesRet FD\<rparr>"

definition sys_pidfd_getfd :: syscall_desc where
  "sys_pidfd_getfd =
    \<lparr>sd_name = ''pidfd_getfd'', sd_nr = 438,
     sd_args = [(TRes FD), (TInt 32 False), (TConst 0)],
     sd_produces = ProducesRet FD\<rparr>"

definition sys_fcntl64_getfl :: syscall_desc where
  "sys_fcntl64_getfl =
    \<lparr>sd_name = ''fcntl64$getfl'', sd_nr = 25,
     sd_args = [(TRes FD), (TConst 3)],
     sd_produces = ProducesNone\<rparr>"

definition sys_fcntl64_getfd :: syscall_desc where
  "sys_fcntl64_getfd =
    \<lparr>sd_name = ''fcntl64$getfd'', sd_nr = 25,
     sd_args = [(TRes FD), (TConst 1)],
     sd_produces = ProducesNone\<rparr>"

definition sys_fcntl64_setfd :: syscall_desc where
  "sys_fcntl64_setfd =
    \<lparr>sd_name = ''fcntl64$setfd'', sd_nr = 25,
     sd_args = [(TRes FD), (TConst 2), (TFlags FD_FLAGS True)],
     sd_produces = ProducesNone\<rparr>"

definition sys_fcntl64_dupfd_cloexec :: syscall_desc where
  "sys_fcntl64_dupfd_cloexec =
    \<lparr>sd_name = ''fcntl64$dupfd_cloexec'', sd_nr = 25,
     sd_args = [(TRes FD), (TConst F_DUPFD_CLOEXEC), (TInt 32 False)],
     sd_produces = ProducesRet FD\<rparr>"

definition sys_ioctl_TIOCGWINSZ :: syscall_desc where
  "sys_ioctl_TIOCGWINSZ =
    \<lparr>sd_name = ''ioctl$TIOCGWINSZ'', sd_nr = 29,
     sd_args = [(TRes FD), (TConst TIOCGWINSZ), (TPtr Out WINSIZE False)],
     sd_produces = ProducesNone\<rparr>"

definition sys_ioctl_TIOCSWINSZ :: syscall_desc where
  "sys_ioctl_TIOCSWINSZ =
    \<lparr>sd_name = ''ioctl$TIOCSWINSZ'', sd_nr = 29,
     sd_args = [(TRes FD), (TConst TIOCSWINSZ), (TPtr In WINSIZE False)],
     sd_produces = ProducesNone\<rparr>"

definition sys_ioctl_TCGETS :: syscall_desc where
  "sys_ioctl_TCGETS =
    \<lparr>sd_name = ''ioctl$TCGETS'', sd_nr = 29,
     sd_args = [(TRes FD), (TConst TCGETS), (TPtr Out TERMIOS False)],
     sd_produces = ProducesNone\<rparr>"

definition sys_ioctl_TCSETS :: syscall_desc where
  "sys_ioctl_TCSETS =
    \<lparr>sd_name = ''ioctl$TCSETS'', sd_nr = 29,
     sd_args = [(TRes FD), (TConst TCSETS), (TPtr In TERMIOS False)],
     sd_produces = ProducesNone\<rparr>"

definition sys_ioctl_FIONREAD :: syscall_desc where
  "sys_ioctl_FIONREAD =
    \<lparr>sd_name = ''ioctl$FIONREAD'', sd_nr = 29,
     sd_args = [(TRes FD), (TConst FIONREAD), (TPtr Out (TInt 32 False) False)],
     sd_produces = ProducesNone\<rparr>"

definition sys_ioctl_FIONBIO :: syscall_desc where
  "sys_ioctl_FIONBIO =
    \<lparr>sd_name = ''ioctl$FIONBIO'', sd_nr = 29,
     sd_args = [(TRes FD), (TConst FIONBIO), (TPtr In (TInt 32 False) False)],
     sd_produces = ProducesNone\<rparr>"

definition sys_ioctl_SIOCGIFFLAGS :: syscall_desc where
  "sys_ioctl_SIOCGIFFLAGS =
    \<lparr>sd_name = ''ioctl$SIOCGIFFLAGS'', sd_nr = 29,
     sd_args = [(TRes SOCK), (TConst SIOCGIFFLAGS), (TPtr InOut IFREQ False)],
     sd_produces = ProducesNone\<rparr>"

definition sys_ioctl_SIOCGIFCONF :: syscall_desc where
  "sys_ioctl_SIOCGIFCONF =
    \<lparr>sd_name = ''ioctl$SIOCGIFCONF'', sd_nr = 29,
     sd_args = [(TRes SOCK), (TConst SIOCGIFCONF), (TPtr InOut IFCONF False)],
     sd_produces = ProducesNone\<rparr>"

definition sys_socket_netlink :: syscall_desc where
  "sys_socket_netlink =
    \<lparr>sd_name = ''socket$netlink'', sd_nr = 198,
     sd_args = [(TConst AF_NETLINK), (TFlags NETLINK_SOCK_TYPE False), (TFlags NETLINK_PROTO False)],
     sd_produces = ProducesRet SOCK\<rparr>"

definition sys_bind_inet :: syscall_desc where
  "sys_bind_inet =
    \<lparr>sd_name = ''bind$inet'', sd_nr = 200,
     sd_args = [(TRes SOCK), (TPtr In SOCKADDR_IN False), (TLen 1)],
     sd_produces = ProducesNone\<rparr>"

definition sys_bind_un :: syscall_desc where
  "sys_bind_un =
    \<lparr>sd_name = ''bind$un'', sd_nr = 200,
     sd_args = [(TRes SOCK), (TPtr In SOCKADDR_UN False), (TLen 1)],
     sd_produces = ProducesNone\<rparr>"

definition sys_bind_nl :: syscall_desc where
  "sys_bind_nl =
    \<lparr>sd_name = ''bind$nl'', sd_nr = 200,
     sd_args = [(TRes SOCK), (TPtr In SOCKADDR_NL False), (TLen 1)],
     sd_produces = ProducesNone\<rparr>"

definition sys_connect_inet :: syscall_desc where
  "sys_connect_inet =
    \<lparr>sd_name = ''connect$inet'', sd_nr = 203,
     sd_args = [(TRes SOCK), (TPtr In SOCKADDR_IN False), (TLen 1)],
     sd_produces = ProducesNone\<rparr>"

definition sys_connect_un :: syscall_desc where
  "sys_connect_un =
    \<lparr>sd_name = ''connect$un'', sd_nr = 203,
     sd_args = [(TRes SOCK), (TPtr In SOCKADDR_UN False), (TLen 1)],
     sd_produces = ProducesNone\<rparr>"

definition sys_sendto_inet :: syscall_desc where
  "sys_sendto_inet =
    \<lparr>sd_name = ''sendto$inet'', sd_nr = 206,
     sd_args = [(TRes SOCK), (TPtr In (TBuffer (Range 0 128)) False), (TLen 1),
     (TFlags SEND_FLAGS True), (TPtr In SOCKADDR_IN True), (TLen 4)],
     sd_produces = ProducesNone\<rparr>"

definition sys_setsockopt_so_reuseaddr :: syscall_desc where
  "sys_setsockopt_so_reuseaddr =
    \<lparr>sd_name = ''setsockopt$so_reuseaddr'', sd_nr = 208,
     sd_args = [(TRes SOCK), (TConst SOL_SOCKET), (TConst SO_REUSEADDR),
     (TPtr In (TInt 32 False) False), (TLen 3)],
     sd_produces = ProducesNone\<rparr>"

definition sys_setsockopt_tcp_nodelay :: syscall_desc where
  "sys_setsockopt_tcp_nodelay =
    \<lparr>sd_name = ''setsockopt$tcp_nodelay'', sd_nr = 208,
     sd_args = [(TRes SOCK), (TConst IPPROTO_TCP), (TConst TCP_NODELAY),
     (TPtr In (TInt 32 False) False), (TLen 3)],
     sd_produces = ProducesNone\<rparr>"

definition sys_ioctl_TIOCGPGRP :: syscall_desc where
  "sys_ioctl_TIOCGPGRP =
    \<lparr>sd_name = ''ioctl$TIOCGPGRP'', sd_nr = 29,
     sd_args = [(TRes FD), (TConst TIOCGPGRP), (TPtr Out (TInt 32 True) False)],
     sd_produces = ProducesNone\<rparr>"

definition sys_ioctl_TIOCSPGRP :: syscall_desc where
  "sys_ioctl_TIOCSPGRP =
    \<lparr>sd_name = ''ioctl$TIOCSPGRP'', sd_nr = 29,
     sd_args = [(TRes FD), (TConst TIOCSPGRP), (TPtr In (TInt 32 True) False)],
     sd_produces = ProducesNone\<rparr>"

definition sys_ioctl_FIOASYNC :: syscall_desc where
  "sys_ioctl_FIOASYNC =
    \<lparr>sd_name = ''ioctl$FIOASYNC'', sd_nr = 29,
     sd_args = [(TRes FD), (TConst FIOASYNC), (TPtr In (TInt 32 False) False)],
     sd_produces = ProducesNone\<rparr>"

definition sys_ioctl_SIOCSIFFLAGS :: syscall_desc where
  "sys_ioctl_SIOCSIFFLAGS =
    \<lparr>sd_name = ''ioctl$SIOCSIFFLAGS'', sd_nr = 29,
     sd_args = [(TRes SOCK), (TConst SIOCSIFFLAGS), (TPtr In IFREQ False)],
     sd_produces = ProducesNone\<rparr>"

definition sys_ioctl_SIOCGIFHWADDR :: syscall_desc where
  "sys_ioctl_SIOCGIFHWADDR =
    \<lparr>sd_name = ''ioctl$SIOCGIFHWADDR'', sd_nr = 29,
     sd_args = [(TRes SOCK), (TConst SIOCGIFHWADDR), (TPtr InOut IFREQ False)],
     sd_produces = ProducesNone\<rparr>"

definition sys_setsockopt_so_sndbuf :: syscall_desc where
  "sys_setsockopt_so_sndbuf =
    \<lparr>sd_name = ''setsockopt$so_sndbuf'', sd_nr = 208,
     sd_args = [(TRes SOCK), (TConst SOL_SOCKET), (TConst SO_SNDBUF), (TPtr In (TInt 32 False) False),
     (TLen 3)],
     sd_produces = ProducesNone\<rparr>"

definition sys_setsockopt_netlink_add_membership :: syscall_desc where
  "sys_setsockopt_netlink_add_membership =
    \<lparr>sd_name = ''setsockopt$netlink_add_membership'', sd_nr = 208,
     sd_args = [(TRes SOCK), (TConst SOL_NETLINK), (TConst NETLINK_ADD_MEMBERSHIP),
     (TPtr In (TInt 32 False) False), (TLen 3)],
     sd_produces = ProducesNone\<rparr>"

definition sys_sendmsg_nl :: syscall_desc where
  "sys_sendmsg_nl =
    \<lparr>sd_name = ''sendmsg$nl'', sd_nr = 211,
     sd_args = [(TRes SOCK), (TPtr In MSGHDR_NL False), (TFlags SEND_FLAGS True)],
     sd_produces = ProducesNone\<rparr>"

definition sys_openat_fail_nth :: syscall_desc where
  "sys_openat_fail_nth =
    \<lparr>sd_name = ''openat$fail_nth'', sd_nr = 56,
     sd_args = [(TRes FD), (TPtr In (TStringConst FAIL_NTH_PATH) False), (TConst 1), (TConst 0)],
     sd_produces = ProducesRet FD\<rparr>"

definition sys_write_fail_nth :: syscall_desc where
  "sys_write_fail_nth =
    \<lparr>sd_name = ''write$fail_nth'', sd_nr = 64,
     sd_args = [(TRes FD), (TPtr In (TStringConst FAIL_NTH_COUNTS) False), (TLen 1)],
     sd_produces = ProducesNone\<rparr>"

definition sys_vmsplice :: syscall_desc where
  "sys_vmsplice =
    \<lparr>sd_name = ''vmsplice'', sd_nr = 75,
     sd_args = [(TRes FD), (TPtr In IOVEC2 False), (TConst 2), (TFlags SPLICE_FLAGS True)],
     sd_produces = ProducesNone\<rparr>"

definition sys_splice :: syscall_desc where
  "sys_splice =
    \<lparr>sd_name = ''splice'', sd_nr = 76,
     sd_args = [(TRes FD), (TPtr InOut (TInt 64 True) True), (TRes FD),
     (TPtr InOut (TInt 64 True) True), (TInt 32 False), (TFlags SPLICE_FLAGS True)],
     sd_produces = ProducesNone\<rparr>"

definition sys_tee :: syscall_desc where
  "sys_tee =
    \<lparr>sd_name = ''tee'', sd_nr = 77,
     sd_args = [(TRes FD), (TRes FD), (TInt 32 False), (TFlags SPLICE_FLAGS True)],
     sd_produces = ProducesNone\<rparr>"

definition sys_unshare :: syscall_desc where
  "sys_unshare =
    \<lparr>sd_name = ''unshare'', sd_nr = 97,
     sd_args = [(TFlags UNSHARE_FLAGS True)],
     sd_produces = ProducesNone\<rparr>"

definition sys_openat_ns :: syscall_desc where
  "sys_openat_ns =
    \<lparr>sd_name = ''openat$ns'', sd_nr = 56,
     sd_args = [(TRes FD), (TPtr In (TStringConst NS_PATHS) False), (TConst 0), (TConst 0)],
     sd_produces = ProducesRet FD\<rparr>"

definition sys_setns :: syscall_desc where
  "sys_setns =
    \<lparr>sd_name = ''setns'', sd_nr = 268,
     sd_args = [(TRes FD), (TFlags NSTYPE_FLAGS False)],
     sd_produces = ProducesNone\<rparr>"

definition sys_add_key :: syscall_desc where
  "sys_add_key =
    \<lparr>sd_name = ''add_key'', sd_nr = 217,
     sd_args = [(TPtr In (TStringConst KEY_TYPES) False),
     (TPtr In (TStringConst KEY_DESCRIPTIONS) False), (TPtr In (TBuffer (Range 0 64)) True), (TLen 2),
     (TFlags KEYRING_SPECIAL False)],
     sd_produces = ProducesRet KEY\<rparr>"

definition sys_request_key :: syscall_desc where
  "sys_request_key =
    \<lparr>sd_name = ''request_key'', sd_nr = 218,
     sd_args = [(TPtr In (TStringConst KEY_TYPES) False),
     (TPtr In (TStringConst KEY_DESCRIPTIONS) False), (TPtr In (TStringConst KEY_CALLOUT_INFO) True),
     (TFlags KEYRING_SPECIAL False)],
     sd_produces = ProducesRet KEY\<rparr>"

definition sys_keyctl_get_keyring_id :: syscall_desc where
  "sys_keyctl_get_keyring_id =
    \<lparr>sd_name = ''keyctl$get_keyring_id'', sd_nr = 219,
     sd_args = [(TConst KEYCTL_GET_KEYRING_ID), (TFlags KEYRING_SPECIAL False), (TInt 32 False)],
     sd_produces = ProducesRet KEY\<rparr>"

definition sys_keyctl_describe :: syscall_desc where
  "sys_keyctl_describe =
    \<lparr>sd_name = ''keyctl$describe'', sd_nr = 219,
     sd_args = [(TConst KEYCTL_DESCRIBE), (TRes KEY), (TPtr Out (TBuffer (Range 0 256)) False),
     (TLen 2)],
     sd_produces = ProducesNone\<rparr>"

definition sys_keyctl_read :: syscall_desc where
  "sys_keyctl_read =
    \<lparr>sd_name = ''keyctl$read'', sd_nr = 219,
     sd_args = [(TConst KEYCTL_READ), (TRes KEY), (TPtr Out (TBuffer (Range 0 256)) False), (TLen 2)],
     sd_produces = ProducesNone\<rparr>"

definition sys_keyctl_revoke :: syscall_desc where
  "sys_keyctl_revoke =
    \<lparr>sd_name = ''keyctl$revoke'', sd_nr = 219,
     sd_args = [(TConst KEYCTL_REVOKE), (TRes KEY)],
     sd_produces = ProducesNone\<rparr>"

definition sys_keyctl_unlink :: syscall_desc where
  "sys_keyctl_unlink =
    \<lparr>sd_name = ''keyctl$unlink'', sd_nr = 219,
     sd_args = [(TConst KEYCTL_UNLINK), (TRes KEY), (TFlags KEYRING_SPECIAL False)],
     sd_produces = ProducesNone\<rparr>"

definition sys_process_vm_readv :: syscall_desc where
  "sys_process_vm_readv =
    \<lparr>sd_name = ''process_vm_readv'', sd_nr = 270,
     sd_args = [(TInt 32 True), (TPtr Out IOVEC2 False), (TConst 2), (TPtr In REMOTE_IOVEC2 False),
     (TConst 2), (TInt 32 False)],
     sd_produces = ProducesNone\<rparr>"

definition sys_process_vm_writev :: syscall_desc where
  "sys_process_vm_writev =
    \<lparr>sd_name = ''process_vm_writev'', sd_nr = 271,
     sd_args = [(TInt 32 True), (TPtr In IOVEC2 False), (TConst 2), (TPtr In REMOTE_IOVEC2 False),
     (TConst 2), (TInt 32 False)],
     sd_produces = ProducesNone\<rparr>"

lemmas sys_defs =
    sys_openat_def sys_read_def sys_write_def sys_close_def sys_llseek_def sys_ioctl_generic_def
    sys_dup_def sys_dup3_def sys_fcntl64_dupfd_def sys_fcntl64_setfl_def sys_pipe2_def
    sys_socket_def sys_bind_def sys_sendto_def sys_getcwd_def sys_faccessat_def sys_statx_def
    sys_getdents64_def sys_memfd_create_def sys_prctl_def sys_eventfd2_def sys_epoll_create1_def
    sys_epoll_ctl_def sys_epoll_pwait_def sys_inotify_init1_def sys_inotify_add_watch_def
    sys_inotify_rm_watch_def sys_flock_def sys_timerfd_create_def sys_timerfd_settime64_def
    sys_signalfd4_def sys_socketpair_def sys_listen_def sys_accept4_def sys_connect_def
    sys_getsockname_def sys_getpeername_def sys_setsockopt_def sys_getsockopt_def sys_shutdown_def
    sys_recvfrom_def sys_sendmsg_def sys_recvmsg_def sys_mmap2_def sys_munmap_def
    sys_mprotect_def sys_madvise_def sys_ftruncate64_def sys_fallocate_def sys_pread64_def
    sys_pwrite64_def sys_readv_def sys_writev_def sys_preadv_def sys_pwritev_def sys_preadv2_def
    sys_pwritev2_def sys_openat2_def sys_close_range_def sys_pidfd_open_def sys_pidfd_getfd_def
    sys_fcntl64_getfl_def sys_fcntl64_getfd_def sys_fcntl64_setfd_def sys_fcntl64_dupfd_cloexec_def
    sys_ioctl_TIOCGWINSZ_def sys_ioctl_TIOCSWINSZ_def sys_ioctl_TCGETS_def sys_ioctl_TCSETS_def
    sys_ioctl_FIONREAD_def sys_ioctl_FIONBIO_def sys_ioctl_SIOCGIFFLAGS_def
    sys_ioctl_SIOCGIFCONF_def sys_socket_netlink_def sys_bind_inet_def sys_bind_un_def
    sys_bind_nl_def sys_connect_inet_def sys_connect_un_def sys_sendto_inet_def
    sys_setsockopt_so_reuseaddr_def sys_setsockopt_tcp_nodelay_def sys_ioctl_TIOCGPGRP_def
    sys_ioctl_TIOCSPGRP_def sys_ioctl_FIOASYNC_def sys_ioctl_SIOCSIFFLAGS_def
    sys_ioctl_SIOCGIFHWADDR_def sys_setsockopt_so_sndbuf_def
    sys_setsockopt_netlink_add_membership_def sys_sendmsg_nl_def sys_openat_fail_nth_def
    sys_write_fail_nth_def sys_vmsplice_def sys_splice_def sys_tee_def sys_unshare_def
    sys_openat_ns_def sys_setns_def sys_add_key_def sys_request_key_def
    sys_keyctl_get_keyring_id_def sys_keyctl_describe_def sys_keyctl_read_def sys_keyctl_revoke_def
    sys_keyctl_unlink_def sys_process_vm_readv_def sys_process_vm_writev_def

definition SYSCALLS :: "syscall_desc list" where
  "SYSCALLS =
    [sys_openat, sys_read, sys_write, sys_close, sys_llseek, sys_ioctl_generic, sys_dup, sys_dup3,
    sys_fcntl64_dupfd, sys_fcntl64_setfl, sys_pipe2, sys_socket, sys_bind, sys_sendto, sys_getcwd,
    sys_faccessat, sys_statx, sys_getdents64, sys_memfd_create, sys_prctl, sys_eventfd2,
    sys_epoll_create1, sys_epoll_ctl, sys_epoll_pwait, sys_inotify_init1, sys_inotify_add_watch,
    sys_inotify_rm_watch, sys_flock, sys_timerfd_create, sys_timerfd_settime64, sys_signalfd4,
    sys_socketpair, sys_listen, sys_accept4, sys_connect, sys_getsockname, sys_getpeername,
    sys_setsockopt, sys_getsockopt, sys_shutdown, sys_recvfrom, sys_sendmsg, sys_recvmsg, sys_mmap2,
    sys_munmap, sys_mprotect, sys_madvise, sys_ftruncate64, sys_fallocate, sys_pread64, sys_pwrite64,
    sys_readv, sys_writev, sys_preadv, sys_pwritev, sys_preadv2, sys_pwritev2, sys_openat2,
    sys_close_range, sys_pidfd_open, sys_pidfd_getfd, sys_fcntl64_getfl, sys_fcntl64_getfd,
    sys_fcntl64_setfd, sys_fcntl64_dupfd_cloexec, sys_ioctl_TIOCGWINSZ, sys_ioctl_TIOCSWINSZ,
    sys_ioctl_TCGETS, sys_ioctl_TCSETS, sys_ioctl_FIONREAD, sys_ioctl_FIONBIO, sys_ioctl_SIOCGIFFLAGS,
    sys_ioctl_SIOCGIFCONF, sys_socket_netlink, sys_bind_inet, sys_bind_un, sys_bind_nl,
    sys_connect_inet, sys_connect_un, sys_sendto_inet, sys_setsockopt_so_reuseaddr,
    sys_setsockopt_tcp_nodelay, sys_ioctl_TIOCGPGRP, sys_ioctl_TIOCSPGRP, sys_ioctl_FIOASYNC,
    sys_ioctl_SIOCSIFFLAGS, sys_ioctl_SIOCGIFHWADDR, sys_setsockopt_so_sndbuf,
    sys_setsockopt_netlink_add_membership, sys_sendmsg_nl, sys_openat_fail_nth, sys_write_fail_nth,
    sys_vmsplice, sys_splice, sys_tee, sys_unshare, sys_openat_ns, sys_setns, sys_add_key,
    sys_request_key, sys_keyctl_get_keyring_id, sys_keyctl_describe, sys_keyctl_read,
    sys_keyctl_revoke, sys_keyctl_unlink, sys_process_vm_readv, sys_process_vm_writev]"

section \<open>What the other components rely on\<close>

text \<open>
  Types below a pointer or inside a struct hold no resource and no length; every pool to pick from
  is non-empty; integer widths are those of C types.
\<close>

fun inner_ok :: "arg_type \<Rightarrow> bool" where
  "inner_ok (TConst c) = True"
| "inner_ok (TInt bits signd) = (bits \<in> {8, 16, 32, 64})"
| "inner_ok (TFlags vals bitmask) = (vals \<noteq> [])"
| "inner_ok (TRes k) = False"
| "inner_ok (TLen n) = False"
| "inner_ok (TPtr d inner nullable) = inner_ok inner"
| "inner_ok (TBuffer l) = True"
| "inner_ok (TStruct flds) = list_all (\<lambda>(name, ty). inner_ok ty) flds"
| "inner_ok (TStringConst ss) = (ss \<noteq> [])"

fun top_ok :: "arg_type list \<Rightarrow> nat \<Rightarrow> arg_type \<Rightarrow> bool" where
  "top_ok args j (TRes k) = (k \<in> {FD, SOCK, EPOLL, VMA, KEY})"
| "top_ok args j (TLen n) = (unat n < j)"
| "top_ok args j ty = inner_ok ty"

text \<open>An out-array is a mandatory pointer argument to a buffer with room for its words.\<close>

fun produces_ok :: "arg_type list \<Rightarrow> produces \<Rightarrow> bool" where
  "produces_ok args ProducesNone = True"
| "produces_ok args (ProducesRet k) = True"
| "produces_ok args (OutArray arg_idx k count) =
     (unat arg_idx < length args \<and>
      (case args ! unat arg_idx of
         TPtr d (TBuffer (Fixed n)) nullable \<Rightarrow> \<not> nullable \<and> 4 * unat count \<le> unat n
       | _ \<Rightarrow> False))"

definition desc_ok :: "syscall_desc \<Rightarrow> bool" where
  "desc_ok d \<longleftrightarrow>
     length (sd_args d) \<le> 6 \<and>
     list_all (\<lambda>(j, ty). top_ok (sd_args d) j ty) (enumerate 0 (sd_args d)) \<and>
     produces_ok (sd_args d) (sd_produces d)"

lemma SYSCALLS_ok: "list_all desc_ok SYSCALLS"
  by code_simp

lemma SYSCALLS_len: "length SYSCALLS = 107"
  by code_simp

lemma SYSCALLS_distinct: "distinct (map sd_name SYSCALLS)"
  by code_simp

end
