(* ===== verification/Lower.thy ===== *)
theory Lower
  imports Prog
begin

text \<open>
  Lowering of typed programs (\<open>crates/fs-prog/src/lower.rs\<close>): sizes and C layout of values, their
  serialisation into the scratch region by a bump allocator, the resource-fixup table, and the wire
  buffer the guest agent reads.  Layout arithmetic is at the code's 32 bits.  \<open>args[j]\<close> panics for
  a description with more than six arguments; \<open>desc_ok\<close> (in \<open>Syscalls\<close>) excludes those.
\<close>

section \<open>The scratch region\<close>

record scratch_writer =
  sw_bytes :: "u8 list"
  sw_cursor :: u32
  sw_cap :: u32

definition round_up :: "u32 \<Rightarrow> u32 \<Rightarrow> u32" where
  "round_up x align0 =
     (let align = max align0 1 in (x div align + (if x mod align > 0 then 1 else 0)) * align)"

definition scratch_new :: "u32 \<Rightarrow> scratch_writer" where
  "scratch_new cap = \<lparr>sw_bytes = [], sw_cursor = 0, sw_cap = cap\<rparr>"

definition scratch_write :: "scratch_writer \<Rightarrow> u8 list \<Rightarrow> u32 \<Rightarrow> u32 \<times> scratch_writer" where
  "scratch_write w data align =
     (let off = round_up (sw_cursor w) align in
      if sw_cap w \<le> off then (sw_cap w, w)
      else
        let bytes = (if (of_nat (length (sw_bytes w)) :: u32) < off
                     then sw_bytes w @ replicate (unat off - length (sw_bytes w)) 0 else sw_bytes w);
            room = unat (sw_cap w - off);
            n = min (length data) room
        in (off, w\<lparr>sw_bytes := bytes @ take n data, sw_cursor := off + of_nat n\<rparr>))"

section \<open>Sizes and layout\<close>

definition int_bytes :: "u8 \<Rightarrow> u32" where
  "int_bytes bits = ucast (max bits 8) div 8"

definition int_align :: "u8 \<Rightarrow> u32" where
  "int_align bits = (if bits = 64 then 8 else if bits = 32 then 4 else if bits = 16 then 2 else 1)"

text \<open>
  \<open>struct_fields\<close> is the loop of \<open>struct_layout\<close>: it threads the running offset, the offsets so far
  and the maximal alignment.
\<close>

fun value_size_align :: "arg_type \<Rightarrow> arg_value \<Rightarrow> u32 \<times> u32"
  and struct_fields :: "(string \<times> arg_type) list \<Rightarrow> arg_value list \<Rightarrow> u32 \<Rightarrow> u32 list \<Rightarrow> u32 \<Rightarrow>
    u32 list \<times> u32 \<times> u32" where
  "value_size_align (TConst c) val = (4, 4)"
| "value_size_align (TInt bits signd) val = (int_bytes bits, int_align bits)"
| "value_size_align (TFlags vals bm) val = (4, 4)"
| "value_size_align (TRes k) val = (4, 4)"
| "value_size_align (TLen n) val = (4, 4)"
| "value_size_align (TPtr d inner nullable) val = (4, 4)"
| "value_size_align (TBuffer l) val =
     (case val of VBytes b \<Rightarrow> (of_nat (length b), 1) | _ \<Rightarrow> (0, 1))"
| "value_size_align (TStringConst ss) val =
     (case val of VBytes b \<Rightarrow> (of_nat (length b), 1) | _ \<Rightarrow> (0, 1))"
| "value_size_align (TStruct flds) val =
     (case val of
        VStruct vals \<Rightarrow>
          (case struct_fields flds vals 0 [] 1 of (offsets, off, max_align) \<Rightarrow>
             (round_up off max_align, max_align))
      | _ \<Rightarrow> (0, 1))"
| "struct_fields [] vals off offsets max_align = (offsets, off, max_align)"
| "struct_fields (f # fs) [] off offsets max_align = (offsets, off, max_align)"
| "struct_fields ((name, ty) # fs) (v # vs) off offsets max_align =
     (case value_size_align ty v of (sz, align0) \<Rightarrow>
        let align = max align0 1;
            off1 = round_up off align
        in struct_fields fs vs (off1 + sz) (offsets @ [off1]) (max max_align align))"

definition struct_layout :: "(string \<times> arg_type) list \<Rightarrow> arg_value list \<Rightarrow> u32 list \<times> u32 \<times> u32" where
  "struct_layout flds vals =
     (case struct_fields flds vals 0 [] 1 of (offsets, off, max_align) \<Rightarrow>
        (offsets, round_up off max_align, max_align))"

definition ptr_size_of :: "arg_type \<Rightarrow> arg_value \<Rightarrow> u32" where
  "ptr_size_of ty val = fst (value_size_align ty val)"

section \<open>Serialisation\<close>

definition u64_to_le :: "u64 \<Rightarrow> u8 list" where
  "u64_to_le v = map (\<lambda>i. ucast (drop_bit (8 * i) v)) [0 ..< 8]"

definition place_field :: "u8 list \<Rightarrow> nat \<Rightarrow> u8 list \<Rightarrow> u8 list" where
  "place_field buf off fb = (let n = min (length fb) (length buf - off) in blit buf off (take n fb))"

fun build_bytes :: "scratch_writer \<Rightarrow> u32 \<Rightarrow> arg_type \<Rightarrow> arg_value \<Rightarrow> u8 list \<times> scratch_writer"
  and build_fields :: "scratch_writer \<Rightarrow> u32 \<Rightarrow> (string \<times> arg_type) list \<Rightarrow> arg_value list \<Rightarrow> u32 list \<Rightarrow>
    u8 list \<Rightarrow> u8 list \<times> scratch_writer" where
  "build_bytes w va (TConst c) val = (case val of VImm v \<Rightarrow> (u32_to_le (ucast v), w) | _ \<Rightarrow> ([], w))"
| "build_bytes w va (TInt bits signd) val =
     (case val of VImm v \<Rightarrow> (take (min (unat (int_bytes bits)) 8) (u64_to_le v), w) | _ \<Rightarrow> ([], w))"
| "build_bytes w va (TFlags vals bm) val = (case val of VImm v \<Rightarrow> (u32_to_le (ucast v), w) | _ \<Rightarrow> ([], w))"
| "build_bytes w va (TRes k) val =
     (case val of
        VRes (Seed s) \<Rightarrow> (u32_to_le (ucast s), w)
      | VRes (Produced c slot) \<Rightarrow> (u32_to_le 0, w)
      | _ \<Rightarrow> ([], w))"
| "build_bytes w va (TLen n) val = ([], w)"
| "build_bytes w va (TBuffer l) val = (case val of VBytes b \<Rightarrow> (b, w) | _ \<Rightarrow> ([], w))"
| "build_bytes w va (TStringConst ss) val = (case val of VBytes b \<Rightarrow> (b, w) | _ \<Rightarrow> ([], w))"
| "build_bytes w va (TPtr d inner nullable) val =
     (case val of
        VImm v \<Rightarrow> (if v = 0 \<and> nullable then (u32_to_le 0, w) else ([], w))
      | VPtr pointee \<Rightarrow>
          (case build_bytes w va inner pointee of (bytes, w1) \<Rightarrow>
           case scratch_write w1 bytes (snd (value_size_align inner pointee)) of (off, w2) \<Rightarrow>
             (u32_to_le (va + off), w2))
      | _ \<Rightarrow> ([], w))"
| "build_bytes w va (TStruct flds) val =
     (case val of
        VStruct vals \<Rightarrow>
          (case struct_layout flds vals of (offsets, tot, max_align) \<Rightarrow>
             build_fields w va flds vals offsets (replicate (unat tot) 0))
      | _ \<Rightarrow> ([], w))"
| "build_fields w va ((name, ty) # fs) (v # vs) (off # offs) buf =
     (case build_bytes w va ty v of (fb, w1) \<Rightarrow>
        build_fields w1 va fs vs offs (place_field buf (unat off) fb))"
| "build_fields w va _ _ _ buf = (buf, w)"

definition serialize_into :: "scratch_writer \<Rightarrow> u32 \<Rightarrow> arg_type \<Rightarrow> arg_value \<Rightarrow> u32 \<times> scratch_writer" where
  "serialize_into w va ty val =
     (case build_bytes w va ty val of (bytes, w1) \<Rightarrow>
        scratch_write w1 bytes (snd (value_size_align ty val)))"

section \<open>Lowering\<close>

datatype fixup_src = FixReg u16 | FixMem u32

record fixup =
  dst_call :: u8
  dst_arg :: u8
  source_call_index :: u16
  source_slot :: u8
  fix_src :: fixup_src

record concrete_call =
  cc_nr :: u32
  cc_args :: "u32 list"

record lowered =
  lo_calls :: "concrete_call list"
  lo_fixups :: "fixup list"
  lo_scratch :: "u8 list"

definition DEFAULT_SCRATCH_CAP :: u32 where "DEFAULT_SCRATCH_CAP = 32 * 1024"

text \<open>The state the lowering loop mutates: scratch writer, fixups, offsets of out-arrays.\<close>

record lower_state =
  ls_w :: scratch_writer
  ls_fixups :: "fixup list"
  ls_out :: "u32 option list"

definition fixup_source :: "prog \<Rightarrow> u32 option list \<Rightarrow> u16 \<Rightarrow> u8 \<Rightarrow> fixup_src" where
  "fixup_source p out call_idx slot =
     (let src_call = unat call_idx in
      case (if src_call < length p then Some (sd_produces (tc_desc (p ! src_call))) else None) of
        Some (OutArray ai k n) \<Rightarrow>
          (let base = (case out ! src_call of None \<Rightarrow> 0 | Some b \<Rightarrow> b)
           in FixMem (base + 4 * ucast slot))
      | _ \<Rightarrow> FixReg call_idx)"

definition lower_arg :: "prog \<Rightarrow> u32 \<Rightarrow> nat \<Rightarrow> produces \<Rightarrow> nat \<Rightarrow> arg_type \<Rightarrow> arg_value \<Rightarrow> lower_state \<Rightarrow>
    u32 \<times> lower_state" where
  "lower_arg p va call_i produced arg_j ty val st =
     (case val of
        VRes rref \<Rightarrow>
          (case ty of
             TRes k \<Rightarrow>
               (case rref of
                  Seed s \<Rightarrow> (ucast s, st)
                | Produced call_idx slot \<Rightarrow>
                    (0, st\<lparr>ls_fixups := ls_fixups st @
                       [\<lparr>dst_call = of_nat call_i, dst_arg = of_nat arg_j, source_call_index = call_idx,
                         source_slot = slot, fix_src = fixup_source p (ls_out st) call_idx slot\<rparr>]\<rparr>))
           | _ \<Rightarrow> (0, st))
      | VPtr pointee \<Rightarrow>
          (case ty of
             TPtr d inner nullable \<Rightarrow>
               (case serialize_into (ls_w st) va inner pointee of (off, w1) \<Rightarrow>
                  (va + off,
                   st\<lparr>ls_w := w1, ls_out :=
                        (case produced of
                           OutArray arg_idx k n \<Rightarrow>
                             if unat arg_idx = arg_j then (ls_out st)[call_i := Some off] else ls_out st
                         | _ \<Rightarrow> ls_out st)\<rparr>))
           | _ \<Rightarrow> (0, st))
      | VImm v \<Rightarrow> (ucast v, st)
      | _ \<Rightarrow> (0, st))"

fun lower_args :: "prog \<Rightarrow> u32 \<Rightarrow> nat \<Rightarrow> produces \<Rightarrow> nat \<Rightarrow> (arg_type \<times> arg_value) list \<Rightarrow> u32 list \<Rightarrow>
    lower_state \<Rightarrow> u32 list \<times> lower_state" where
  "lower_args p va call_i produced j [] args st = (args, st)"
| "lower_args p va call_i produced j ((ty, v) # rest) args st =
     (case lower_arg p va call_i produced j ty v st of (x, st1) \<Rightarrow>
        lower_args p va call_i produced (Suc j) rest (args[j := x]) st1)"

fun lower_calls :: "prog \<Rightarrow> u32 \<Rightarrow> nat \<Rightarrow> typed_call list \<Rightarrow> concrete_call list \<Rightarrow> lower_state \<Rightarrow>
    concrete_call list \<times> lower_state" where
  "lower_calls p va i [] acc st = (acc, st)"
| "lower_calls p va i (tc # tcs) acc st =
     (case lower_args p va i (sd_produces (tc_desc tc)) 0 (zip (sd_args (tc_desc tc)) (tc_args tc))
             (replicate 6 0) st of (args, st1) \<Rightarrow>
        lower_calls p va (Suc i) tcs (acc @ [\<lparr>cc_nr = sd_nr (tc_desc tc), cc_args = args\<rparr>]) st1)"

definition lower_with_cap :: "prog \<Rightarrow> u32 \<Rightarrow> u32 \<Rightarrow> lowered" where
  "lower_with_cap p va scratch_cap =
     (let st0 = \<lparr>ls_w = scratch_new scratch_cap, ls_fixups = [], ls_out = replicate (length p) None\<rparr>
      in case lower_calls p va 0 p [] st0 of (calls, st) \<Rightarrow>
           \<lparr>lo_calls = calls, lo_fixups = ls_fixups st, lo_scratch = sw_bytes (ls_w st)\<rparr>)"

definition lower :: "prog \<Rightarrow> u32 \<Rightarrow> lowered" where
  "lower p va = lower_with_cap p va DEFAULT_SCRATCH_CAP"

section \<open>The wire buffer\<close>

definition MAX_FIXUPS :: nat where "MAX_FIXUPS = 32"
definition CALL_WORDS :: nat where "CALL_WORDS = 7"
definition FIXUP_WORDS :: nat where "FIXUP_WORDS = 4"
definition WIRE_WORDS :: nat where "WIRE_WORDS = 1 + MAX_CALLS * CALL_WORDS + 1 + MAX_FIXUPS * FIXUP_WORDS"

definition wire_call :: "u32 list \<Rightarrow> nat \<times> concrete_call \<Rightarrow> u32 list" where
  "wire_call buf ic =
     (let base = 1 + fst ic * CALL_WORDS
      in blit (buf[base := cc_nr (snd ic)]) (base + 1) (cc_args (snd ic)))"

fun wire_src :: "fixup_src \<Rightarrow> u32 \<times> u32" where
  "wire_src (FixReg c) = (0, ucast c)"
| "wire_src (FixMem off) = (1, off)"

definition wire_fixup :: "u32 list \<Rightarrow> nat \<times> fixup \<Rightarrow> u32 list" where
  "wire_fixup buf kf =
     (let base = 1 + MAX_CALLS * CALL_WORDS + 1 + fst kf * FIXUP_WORDS;
          f = snd kf;
          (kind, val) = wire_src (fix_src f)
      in buf[base := ucast (dst_call f), base + 1 := ucast (dst_arg f), base + 2 := kind,
             base + 3 := val])"

definition to_wire :: "lowered \<Rightarrow> u32 list" where
  "to_wire l =
     (let buf = replicate WIRE_WORDS 0;
          n = min (length (lo_calls l)) MAX_CALLS;
          buf = buf[0 := of_nat n];
          buf = foldl wire_call buf (enumerate 0 (take MAX_CALLS (lo_calls l)));
          fixup_base = 1 + MAX_CALLS * CALL_WORDS;
          nfix = min (length (lo_fixups l)) MAX_FIXUPS;
          buf = buf[fixup_base := of_nat nfix]
      in foldl wire_fixup buf (enumerate 0 (take MAX_FIXUPS (lo_fixups l))))"

end
