(* ===== verification/Genr.thy ===== *)
theory Genr
  imports Syscalls Lower
begin

text \<open>
  Generation of programs (\<open>crates/fs-prog/src/genr.rs\<close>): the pool of live resources, biased picks of
  descriptions and resources, type-directed argument values, recipes, forced resource rings and the
  fault-injection preamble.  Indices that the code casts to \<open>u16\<close> are cast here too.
\<close>

section \<open>The resource pool\<close>

definition DICT_BIAS_PCT :: u32 where "DICT_BIAS_PCT = 15"
definition CROSS_REF_BIAS_PCT :: u32 where "CROSS_REF_BIAS_PCT = 55"
definition RING_FORCE_PCT :: u32 where "RING_FORCE_PCT = 10"

record pool_entry =
  pe_call :: u16
  pe_slot :: u8
  pe_kind :: resource_kind

definition pool_of_call :: "nat \<Rightarrow> typed_call \<Rightarrow> pool_entry list" where
  "pool_of_call i c =
     List.map_filter
       (\<lambda>slot. map_option (\<lambda>kind. \<lparr>pe_call = of_nat i, pe_slot = of_nat slot, pe_kind = kind\<rparr>)
          (kind_at (sd_produces (tc_desc c)) (of_nat slot)))
       [0 ..< unat (slot_count (sd_produces (tc_desc c)))]"

definition build_pool :: "typed_call list \<Rightarrow> pool_entry list" where
  "build_pool calls = concat (map (\<lambda>(i, c). pool_of_call i c) (enumerate 0 calls))"

section \<open>Scalars\<close>

definition mask_to_bits :: "u64 \<Rightarrow> u8 \<Rightarrow> u64" where
  "mask_to_bits v bits = (if 64 \<le> bits then v else v AND (push_bit (unat bits) 1 - 1))"

definition INTERESTING_INTS :: "u64 list" where
  "INTERESTING_INTS = [0, 1, 2, -1, 4096, -4096, 0x7FFFFFFF, -0x80000000, 0xFFFF]"

definition pick_interesting_int :: "u8 \<Rightarrow> u64 gen" where
  "pick_interesting_int bits = do { v \<leftarrow> pick INTERESTING_INTS; ret (mask_to_bits v bits) }"

definition gen_int_raw :: "u8 \<Rightarrow> bool \<Rightarrow> nat \<Rightarrow> u64 gen" where
  "gen_int_raw bits signd sel =
     (if sel = 0 then ret 0
      else if sel = 1 then ret 1
      else if sel = 2 then ret 2
      else if sel = 3 then ret (-1)
      else if sel = 4 then
        ret (if 64 \<le> bits then (if signd then 0x7FFFFFFFFFFFFFFF else -1)
             else if signd then push_bit (unat (bits - 1)) 1 - 1
             else push_bit (unat bits) 1 - 1)
      else if sel = 5 then do { x \<leftarrow> rng_next; ret (ucast x mod 256) }
      else next_u64)"

definition gen_int :: "u8 \<Rightarrow> bool \<Rightarrow> u64 gen" where
  "gen_int bits signd = do {
     sel \<leftarrow> below 7;
     raw \<leftarrow> gen_int_raw bits signd sel;
     ret (mask_to_bits raw bits)
   }"

fun fold_flags :: "u32 list \<Rightarrow> u32 \<Rightarrow> u32 gen" where
  "fold_flags [] acc = ret acc"
| "fold_flags (v # vs) acc = do { b \<leftarrow> rng_bool; fold_flags vs (if b then acc OR v else acc) }"

definition gen_flags :: "u32 list \<Rightarrow> bool \<Rightarrow> u32 gen" where
  "gen_flags vals bitmask =
     (if \<not> bitmask then pick vals
      else do { b \<leftarrow> rng_bool; if b then pick vals else fold_flags vals 0 })"

fun gen_len :: "len_spec \<Rightarrow> u32 gen" where
  "gen_len (Fixed n) = ret (ucast n)"
| "gen_len (Range lo hi) =
     (if hi \<le> lo then ret (ucast lo)
      else do { x \<leftarrow> below (unat (ucast hi - ucast lo + 1 :: u32)); ret (ucast lo + of_nat x) })"

fun gen_bytes :: "nat \<Rightarrow> u8 list gen" where
  "gen_bytes 0 = ret []"
| "gen_bytes (Suc n) = do { x \<leftarrow> rng_next; bs \<leftarrow> gen_bytes n; ret (ucast x # bs) }"

definition as_bytes :: "string \<Rightarrow> u8 list" where
  "as_bytes s = map (\<lambda>ch. of_nat (of_char ch)) s"

section \<open>Resources\<close>

definition pick_seed :: "resource_kind \<Rightarrow> res_ref gen" where
  "pick_seed want =
     (let ss = seeds_for want in
      if ss = [] then ret (Seed (-1)) else do { s \<leftarrow> pick ss; ret (Seed s) })"

definition produced_ref :: "pool_entry \<Rightarrow> res_ref" where
  "produced_ref e = Produced (pe_call e) (pe_slot e)"

definition pick_res :: "resource_kind \<Rightarrow> pool_entry list \<Rightarrow> res_ref gen" where
  "pick_res want pool = do {
     c \<leftarrow> chance 70;
     let compatible = (if c then filter (\<lambda>e. kind_compat want (pe_kind e)) pool else []);
     if compatible = [] then pick_seed want
     else do {
       recent \<leftarrow> (if 1 < length compatible then chance 60 else ret False);
       e \<leftarrow> (if recent then ret (compatible ! (length compatible - 1)) else pick compatible);
       ret (produced_ref e)
     }
   }"

fun same_call_anchors_from :: "nat \<Rightarrow> pool_entry list \<Rightarrow> arg_value list \<Rightarrow> nat option \<Rightarrow> pool_entry list" where
  "same_call_anchors_from i pool [] excl = []"
| "same_call_anchors_from i pool (av # avs) excl =
     (case (if excl = Some i then None
            else case av of
                   VRes (Produced call_idx slot) \<Rightarrow>
                     find (\<lambda>e. pe_call e = call_idx \<and> pe_slot e = slot) pool
                 | _ \<Rightarrow> None) of
        None \<Rightarrow> same_call_anchors_from (Suc i) pool avs excl
      | Some e \<Rightarrow> e # same_call_anchors_from (Suc i) pool avs excl)"

definition same_call_anchors :: "pool_entry list \<Rightarrow> arg_value list \<Rightarrow> nat option \<Rightarrow> pool_entry list" where
  "same_call_anchors pool call_args exclude_idx = same_call_anchors_from 0 pool call_args exclude_idx"

definition siblings_of :: "pool_entry list \<Rightarrow> pool_entry \<Rightarrow> pool_entry list" where
  "siblings_of pool anchor =
     filter (\<lambda>e. pe_kind e = pe_kind anchor \<and> \<not> (pe_call e = pe_call anchor \<and> pe_slot e = pe_slot anchor)) pool"

fun pick_sibling :: "resource_kind \<Rightarrow> pool_entry list \<Rightarrow> pool_entry list \<Rightarrow> res_ref option gen" where
  "pick_sibling want pool [] = ret None"
| "pick_sibling want pool (anchor # rest) =
     (if \<not> kind_compat want (pe_kind anchor) then pick_sibling want pool rest
      else if siblings_of pool anchor = [] then pick_sibling want pool rest
      else do { e \<leftarrow> pick (siblings_of pool anchor); ret (Some (produced_ref e)) })"

definition pick_res_biased :: "resource_kind \<Rightarrow> pool_entry list \<Rightarrow> pool_entry list \<Rightarrow> res_ref gen" where
  "pick_res_biased want pool anchors = do {
     bias \<leftarrow> (if anchors = [] then ret False else chance CROSS_REF_BIAS_PCT);
     sib \<leftarrow> (if bias then pick_sibling want pool anchors else ret None);
     (case sib of Some rref \<Rightarrow> ret rref | None \<Rightarrow> pick_res want pool)
   }"

section \<open>Arguments\<close>

fun len_of_arg :: "arg_type \<Rightarrow> arg_value \<Rightarrow> u32" where
  "len_of_arg (TPtr d inner nullable) (VImm v) = 0"
| "len_of_arg (TPtr d inner nullable) (VPtr pointee) = ptr_size_of inner pointee"
| "len_of_arg (TBuffer l) (VBytes b) = of_nat (length b)"
| "len_of_arg (TStringConst ss) (VBytes b) = of_nat (length b)"
| "len_of_arg _ _ = 0"

fun gen_arg_value :: "arg_type \<Rightarrow> pool_entry list \<Rightarrow> arg_value gen"
  and gen_struct_fields :: "(string \<times> arg_type) list \<Rightarrow> pool_entry list \<Rightarrow> arg_value list gen" where
  "gen_arg_value (TConst v) pool = ret (VImm (ucast v))"
| "gen_arg_value (TInt bits signd) pool = do {
     dict \<leftarrow> chance DICT_BIAS_PCT;
     if dict then do { v \<leftarrow> pick_dict_const; ret (VImm (mask_to_bits (ucast v) bits)) }
     else do { v \<leftarrow> gen_int bits signd; ret (VImm v) }
   }"
| "gen_arg_value (TFlags vals bitmask) pool = do {
     dict \<leftarrow> chance DICT_BIAS_PCT;
     if dict then do {
       v \<leftarrow> pick_dict_const;
       w \<leftarrow> (if bitmask then do { f \<leftarrow> gen_flags vals bitmask; ret (v OR f) } else ret v);
       ret (VImm (ucast w))
     } else do { f \<leftarrow> gen_flags vals bitmask; ret (VImm (ucast f)) }
   }"
| "gen_arg_value (TRes kind) pool = do { rref \<leftarrow> pick_res kind pool; ret (VRes rref) }"
| "gen_arg_value (TLen n) pool = ret (VImm 0)"
| "gen_arg_value (TPtr d inner nullable) pool = do {
     null \<leftarrow> (if nullable then chance 20 else ret False);
     if null then ret (VImm 0) else do { v \<leftarrow> gen_arg_value inner pool; ret (VPtr v) }
   }"
| "gen_arg_value (TBuffer len) pool = do {
     n \<leftarrow> gen_len len;
     bytes \<leftarrow> gen_bytes (unat n);
     ret (VBytes bytes)
   }"
| "gen_arg_value (TStruct flds) pool = do { vs \<leftarrow> gen_struct_fields flds pool; ret (VStruct vs) }"
| "gen_arg_value (TStringConst pool_strs) pool = do {
     s \<leftarrow> pick pool_strs;
     ret (VBytes (as_bytes s @ [0]))
   }"
| "gen_struct_fields [] pool = ret []"
| "gen_struct_fields ((name, ty) # fs) pool = do {
     v \<leftarrow> gen_arg_value ty pool;
     vs \<leftarrow> gen_struct_fields fs pool;
     ret (v # vs)
   }"

fun generate_arg :: "syscall_desc \<Rightarrow> pool_entry list \<Rightarrow> arg_value list \<Rightarrow> arg_type \<Rightarrow> arg_value gen" where
  "generate_arg desc pool args (TLen n) =
     ret (VImm (if unat n < length (sd_args desc) \<and> unat n < length args
                then ucast (len_of_arg (sd_args desc ! unat n) (args ! unat n)) else 0))"
| "generate_arg desc pool args (TRes kind) = do {
     rref \<leftarrow> pick_res_biased kind pool (same_call_anchors pool args None);
     ret (VRes rref)
   }"
| "generate_arg desc pool args aty = gen_arg_value aty pool"

fun generate_args_loop ::
  "syscall_desc \<Rightarrow> pool_entry list \<Rightarrow> arg_type list \<Rightarrow> arg_value list \<Rightarrow> arg_value list gen" where
  "generate_args_loop desc pool [] args = ret args"
| "generate_args_loop desc pool (aty # atys) args = do {
     av \<leftarrow> generate_arg desc pool args aty;
     generate_args_loop desc pool atys (args @ [av])
   }"

definition generate_args :: "syscall_desc \<Rightarrow> typed_call list \<Rightarrow> arg_value list gen" where
  "generate_args desc existing = generate_args_loop desc (build_pool existing) (sd_args desc) []"

section \<open>Descriptions and recipes\<close>

definition RECIPES :: "string list list" where
  "RECIPES =
    [[''memfd_create'', ''ftruncate64'', ''mmap2'', ''mprotect'', ''madvise'', ''munmap''],
     [''openat'', ''read'', ''pwrite64'', ''fcntl64$setfl'', ''close''],
     [''socket'', ''setsockopt$tcp_nodelay'', ''connect$inet'', ''getsockopt'', ''close''],
     [''socket'', ''bind$inet'', ''listen'', ''getsockname'', ''close''],
     [''socketpair'', ''sendmsg'', ''recvmsg'', ''shutdown''],
     [''pipe2'', ''write'', ''read'', ''close'', ''close''],
     [''epoll_create1'', ''eventfd2'', ''epoll_ctl'', ''epoll_pwait'', ''close''],
     [''openat'', ''dup3'', ''fcntl64$getfd'', ''flock'', ''close''],
     [''pidfd_open'', ''pidfd_getfd'', ''close''],
     [''memfd_create'', ''mmap2'', ''readv'', ''writev'', ''munmap''],
     [''pipe2'', ''pipe2'', ''vmsplice'', ''tee'', ''splice'', ''close'', ''close''],
     [''openat$ns'', ''setns'', ''unshare''],
     [''add_key'', ''keyctl$describe'', ''keyctl$read'', ''keyctl$revoke''],
     [''process_vm_writev'', ''process_vm_readv''],
     [''epoll_create1'', ''epoll_create1'', ''epoll_create1'', ''epoll_ctl'', ''epoll_ctl'', ''epoll_ctl'']]"

definition find_desc :: "string \<Rightarrow> syscall_desc option" where
  "find_desc name = find (\<lambda>d. sd_name d = name) SYSCALLS"

definition pick_desc :: "syscall_desc gen" where
  "pick_desc = pick SYSCALLS"

definition consumes_from :: "pool_entry list \<Rightarrow> syscall_desc \<Rightarrow> bool" where
  "consumes_from pool d \<longleftrightarrow>
     list_ex (\<lambda>aty. case aty of TRes want \<Rightarrow> list_ex (\<lambda>e. kind_compat want (pe_kind e)) pool | _ \<Rightarrow> False)
       (sd_args d)"

definition pick_desc_biased :: "typed_call list \<Rightarrow> syscall_desc gen" where
  "pick_desc_biased existing = do {
     bias \<leftarrow> (if existing = [] then ret False else chance 55);
     let pool = build_pool existing;
     let consumers = (if bias \<and> pool \<noteq> [] then filter (consumes_from pool) SYSCALLS else []);
     if consumers = [] then pick_desc
     else do { i \<leftarrow> below (length consumers); ret (consumers ! i) }
   }"

definition generate_call :: "syscall_desc \<Rightarrow> typed_call list \<Rightarrow> typed_call gen" where
  "generate_call desc existing = do {
     args \<leftarrow> generate_args desc existing;
     ret \<lparr>tc_desc = desc, tc_args = args\<rparr>
   }"

fun recipe_loop :: "string list \<Rightarrow> typed_call list \<Rightarrow> prog option gen" where
  "recipe_loop [] calls = ret (Some calls)"
| "recipe_loop (name # names) calls =
     (case find_desc name of
        None \<Rightarrow> ret None
      | Some desc \<Rightarrow> do {
          c \<leftarrow> generate_call desc calls;
          recipe_loop names (calls @ [c])
        })"

definition generate_from_recipe :: "string list \<Rightarrow> prog option gen" where
  "generate_from_recipe recipe = recipe_loop (take MAX_CALLS recipe) []"

section \<open>Forced rings\<close>

record ring_link_spec =
  anchor_arg_idx :: nat
  target_arg_idx :: nat
  fixed_args :: "(nat \<times> arg_value) list"
  force_nonnull_ptr_idx :: "nat option"

fun repeat_call :: "nat \<Rightarrow> syscall_desc \<Rightarrow> typed_call list \<Rightarrow> typed_call list gen" where
  "repeat_call 0 desc calls = ret calls"
| "repeat_call (Suc n) desc calls = do {
     c \<leftarrow> generate_call desc calls;
     repeat_call n desc (calls @ [c])
   }"

definition link_args :: "ring_link_spec \<Rightarrow> nat \<Rightarrow> nat \<Rightarrow> arg_value list \<Rightarrow> arg_value list" where
  "link_args link n i args =
     foldl (\<lambda>as (idx, val). as[idx := val])
       (args[anchor_arg_idx link := VRes (Produced (of_nat i) 0),
             target_arg_idx link := VRes (Produced (of_nat ((i + 1) mod n)) 0)])
       (fixed_args link)"

definition force_nonnull :: "ring_link_spec \<Rightarrow> syscall_desc \<Rightarrow> typed_call list \<Rightarrow> arg_value list \<Rightarrow>
    arg_value list gen" where
  "force_nonnull link desc calls args =
     (case force_nonnull_ptr_idx link of
        None \<Rightarrow> ret args
      | Some idx \<Rightarrow>
          (case sd_args desc ! idx of
             TPtr d inner nullable \<Rightarrow> do {
               v \<leftarrow> gen_arg_value inner (build_pool calls);
               ret (args[idx := VPtr v])
             }
           | _ \<Rightarrow> ret args))"

fun ring_links :: "nat list \<Rightarrow> ring_link_spec \<Rightarrow> syscall_desc \<Rightarrow> nat \<Rightarrow> typed_call list \<Rightarrow> typed_call list gen" where
  "ring_links [] link desc n calls = ret calls"
| "ring_links (i # idxs) link desc n calls = do {
     args0 \<leftarrow> generate_args desc calls;
     args \<leftarrow> force_nonnull link desc calls (link_args link n i args0);
     ring_links idxs link desc n (calls @ [\<lparr>tc_desc = desc, tc_args = args\<rparr>])
   }"

definition build_same_kind_ring :: "string \<Rightarrow> string \<Rightarrow> ring_link_spec \<Rightarrow> nat \<Rightarrow> prog option gen" where
  "build_same_kind_ring producer_name linker_name link n =
     (if n < 2 \<or> MAX_CALLS < 2 * n then ret None
      else case find_desc producer_name of
        None \<Rightarrow> ret None
      | Some producer_desc \<Rightarrow>
          (case find_desc linker_name of
             None \<Rightarrow> ret None
           | Some linker_desc \<Rightarrow>
               if length (sd_args linker_desc) \<le> anchor_arg_idx link \<or>
                  length (sd_args linker_desc) \<le> target_arg_idx link then ret None
               else do {
                 calls \<leftarrow> repeat_call n producer_desc [];
                 calls \<leftarrow> ring_links [0 ..< n] link linker_desc n calls;
                 ret (Some calls)
               }))"

definition epoll_link :: ring_link_spec where
  "epoll_link = \<lparr>anchor_arg_idx = 0, target_arg_idx = 2, fixed_args = [(1, VImm 1)],
     force_nonnull_ptr_idx = Some 3\<rparr>"

definition build_epoll_ring :: "nat \<Rightarrow> prog option gen" where
  "build_epoll_ring n0 =
     (let n = max 3 (min n0 (MAX_CALLS div 2))
      in build_same_kind_ring ''epoll_create1'' ''epoll_ctl'' epoll_link n)"

section \<open>Whole programs\<close>

fun generate_calls :: "nat \<Rightarrow> typed_call list \<Rightarrow> prog gen" where
  "generate_calls 0 calls = ret calls"
| "generate_calls (Suc n) calls = do {
     desc \<leftarrow> pick_desc_biased calls;
     c \<leftarrow> generate_call desc calls;
     generate_calls n (calls @ [c])
   }"

definition generate :: "prog gen" where
  "generate = do {
     force \<leftarrow> chance RING_FORCE_PCT;
     ring \<leftarrow> (if force then do { k \<leftarrow> below (MAX_CALLS div 2 - 2); build_epoll_ring (3 + k) } else ret None);
     (case ring of Some p \<Rightarrow> ret p
      | None \<Rightarrow> do {
          use_recipe \<leftarrow> chance 20;
          recipe \<leftarrow> (if use_recipe then do { i \<leftarrow> below (length RECIPES); generate_from_recipe (RECIPES ! i) }
                     else ret None);
          (case recipe of Some p \<Rightarrow> ret p
           | None \<Rightarrow> do { n \<leftarrow> below MAX_CALLS; generate_calls (1 + n) [] })
        })
   }"

section \<open>The fault-injection preamble\<close>

fun shift_produced_call_idx :: "u16 \<Rightarrow> arg_value \<Rightarrow> arg_value" where
  "shift_produced_call_idx shift (VRes (Produced call_idx slot)) = VRes (Produced (call_idx + shift) slot)"
| "shift_produced_call_idx shift (VStruct vs) = VStruct (map (shift_produced_call_idx shift) vs)"
| "shift_produced_call_idx shift (VPtr v) = VPtr (shift_produced_call_idx shift v)"
| "shift_produced_call_idx shift v = v"

definition shift_call :: "u16 \<Rightarrow> typed_call \<Rightarrow> typed_call" where
  "shift_call shift c = c\<lparr>tc_args := map (shift_produced_call_idx shift) (tc_args c)\<rparr>"

text \<open>\<open>None\<close> is the panic of \<open>expect\<close> when a description of the preamble is missing.\<close>

definition prepend_fail_inject :: "prog \<Rightarrow> prog option gen" where
  "prepend_fail_inject p =
     (case (find_desc ''openat$fail_nth'', find_desc ''write$fail_nth'') of
        (Some openat_desc, Some write_desc) \<Rightarrow> do {
          openat_call \<leftarrow> generate_call openat_desc [];
          write_args \<leftarrow> generate_args write_desc [openat_call];
          let write_call = \<lparr>tc_desc = write_desc, tc_args = write_args[0 := VRes (Produced 0 0)]\<rparr>;
          ret (Some (take MAX_CALLS (openat_call # write_call # map (shift_call 2) p)))
        }
      | _ \<Rightarrow> ret None)"

end
