(* ===== verification/Prog_Invariant.thy ===== *)
theory Prog_Invariant
  imports Genr
begin

text \<open>
  What makes a program usable, and that the generator only builds such programs.  \<open>val_ok\<close> is the
  correspondence of argument values with their types that the comments of \<open>prog.rs\<close> describe: the
  right shape at every depth, integers within their width, NULL only where the pointer is nullable.
  \<open>prog_ok\<close> adds the threading invariant \<open>is_well_formed\<close> and that every description is of the table.
\<close>

section \<open>Values of a type\<close>

definition int_fits :: "u8 \<Rightarrow> u64 \<Rightarrow> bool" where
  "int_fits bits v \<longleftrightarrow> mask_to_bits v bits = v"

fun val_ok :: "arg_type \<Rightarrow> arg_value \<Rightarrow> bool"
  and fields_ok :: "(string \<times> arg_type) list \<Rightarrow> arg_value list \<Rightarrow> bool" where
  "val_ok (TInt bits signd) av = (case av of VImm v \<Rightarrow> int_fits bits v | _ \<Rightarrow> False)"
| "val_ok (TRes k) av = (case av of VRes rref \<Rightarrow> True | _ \<Rightarrow> False)"
| "val_ok (TPtr d inner nullable) av =
     (case av of VPtr v \<Rightarrow> val_ok inner v | VImm v \<Rightarrow> nullable \<and> v = 0 | _ \<Rightarrow> False)"
| "val_ok (TBuffer l) av = (case av of VBytes b \<Rightarrow> True | _ \<Rightarrow> False)"
| "val_ok (TStringConst ss) av = (case av of VBytes b \<Rightarrow> True | _ \<Rightarrow> False)"
| "val_ok (TStruct flds) av = (case av of VStruct vs \<Rightarrow> fields_ok flds vs | _ \<Rightarrow> False)"
| "val_ok (TConst c) av = (case av of VImm v \<Rightarrow> True | _ \<Rightarrow> False)"
| "val_ok (TFlags vals bitmask) av = (case av of VImm v \<Rightarrow> True | _ \<Rightarrow> False)"
| "val_ok (TLen n) av = (case av of VImm v \<Rightarrow> True | _ \<Rightarrow> False)"
| "fields_ok [] vs = (vs = [])"
| "fields_ok ((name, ty) # fs) vs = (case vs of [] \<Rightarrow> False | v # vs' \<Rightarrow> val_ok ty v \<and> fields_ok fs vs')"

lemma int_fits_mask [simp]: "int_fits bits (mask_to_bits v bits)"
  by (simp add: int_fits_def mask_to_bits_def and.assoc)

section \<open>The threading invariant\<close>

lemma ref_ok_cong:
  assumes "\<And>k. k < i \<Longrightarrow> sd_produces (tc_desc (p ! k)) = sd_produces (tc_desc (q ! k))"
  shows "ref_ok p i want rref = ref_ok q i want rref"
  using assms by (cases rref) (auto split: option.splits)

lemma arg_ok_cong:
  assumes "\<And>k. k < i \<Longrightarrow> sd_produces (tc_desc (p ! k)) = sd_produces (tc_desc (q ! k))"
  shows "arg_ok p i ty av = arg_ok q i ty av"
  by (cases ty) (auto split: arg_value.splits simp: ref_ok_cong [OF assms])

definition args_threaded :: "prog \<Rightarrow> nat \<Rightarrow> typed_call \<Rightarrow> bool" where
  "args_threaded p i c \<longleftrightarrow> list_all2 (arg_ok p i) (sd_args (tc_desc c)) (tc_args c)"

lemma prog_call_ok_iff: "prog_call_ok p i c \<longleftrightarrow> args_threaded p i c"
  by (auto simp: prog_call_ok_def args_threaded_def list_all2_iff list_all_iff)

lemma args_threaded_cong:
  assumes "\<And>k. k < i \<Longrightarrow> sd_produces (tc_desc (p ! k)) = sd_produces (tc_desc (q ! k))"
  shows "args_threaded p i c = args_threaded q i c"
  by (simp add: args_threaded_def arg_ok_cong [OF assms] cong: list.rel_cong)

lemma is_well_formed_iff: "is_well_formed p \<longleftrightarrow> (\<forall>i < length p. args_threaded p i (p ! i))"
  by (auto simp: is_well_formed_def prog_call_ok_iff list_all_length enumerate_eq_zip)

lemma is_well_formed_Nil [simp]: "is_well_formed []"
  by (simp add: is_well_formed_iff)

lemma is_well_formed_snoc:
  "is_well_formed (p @ [c]) \<longleftrightarrow> is_well_formed p \<and> args_threaded p (length p) c"
proof -
  have 1: "args_threaded (p @ [c]) i d = args_threaded p i d" if "i \<le> length p" for i d
    using that by (intro args_threaded_cong) (simp add: nth_append)
  then show ?thesis
    by (auto simp: is_well_formed_iff nth_append less_Suc_eq)
qed

lemma is_well_formed_take: "is_well_formed p \<Longrightarrow> is_well_formed (take n p)"
proof -
  assume wf: "is_well_formed p"
  have "args_threaded (take n p) i c = args_threaded p i c" if "i < n" for i c
    using that by (intro args_threaded_cong) simp
  with wf show ?thesis by (auto simp: is_well_formed_iff)
qed

section \<open>Usable programs\<close>

definition shape_ok :: "typed_call \<Rightarrow> bool" where
  "shape_ok c \<longleftrightarrow> tc_desc c \<in> set SYSCALLS \<and> list_all2 val_ok (sd_args (tc_desc c)) (tc_args c)"

definition prog_ok :: "prog \<Rightarrow> bool" where
  "prog_ok p \<longleftrightarrow> is_well_formed p \<and> list_all shape_ok p"

lemma prog_ok_Nil [simp]: "prog_ok []"
  by (simp add: prog_ok_def)

lemma prog_ok_snoc:
  "prog_ok (p @ [c]) \<longleftrightarrow> prog_ok p \<and> args_threaded p (length p) c \<and> shape_ok c"
  by (auto simp: prog_ok_def is_well_formed_snoc)

lemma prog_ok_take: "prog_ok p \<Longrightarrow> prog_ok (take n p)"
  by (auto simp: prog_ok_def is_well_formed_take list_all_iff dest: in_set_takeD)

lemma desc_in_table: "d \<in> set SYSCALLS \<Longrightarrow> desc_ok d"
  using SYSCALLS_ok by (simp add: list_all_iff)

lemma desc_ok_arg: "desc_ok d \<Longrightarrow> j < length (sd_args d) \<Longrightarrow> top_ok (sd_args d) j (sd_args d ! j)"
  by (auto simp: desc_ok_def list_all_length enumerate_eq_zip)

section \<open>The pool\<close>

definition pool_ok :: "typed_call list \<Rightarrow> pool_entry list \<Rightarrow> bool" where
  "pool_ok calls pool \<longleftrightarrow>
     (\<forall>e \<in> set pool. unat (pe_call e) < length calls \<and>
        kind_at (sd_produces (tc_desc (calls ! unat (pe_call e)))) (pe_slot e) = Some (pe_kind e))"

lemma build_pool_ok: "length calls \<le> 2 ^ 16 \<Longrightarrow> pool_ok calls (build_pool calls)"
  by (auto simp: pool_ok_def build_pool_def pool_of_call_def List.map_filter_def enumerate_eq_zip
      set_zip unat_of_nat take_bit_nat_eq_self)

lemma pool_ref_ok:
  "pool_ok calls pool \<Longrightarrow> e \<in> set pool \<Longrightarrow> kind_compat want (pe_kind e) \<Longrightarrow>
    ref_ok calls (length calls) want (produced_ref e)"
  by (auto simp: pool_ok_def produced_ref_def)

lemma pick_seed_ok: "pred_state (ref_ok calls i want) (pick_seed want)"
  by (auto simp: pick_seed_def Let_def intro!: pred_bind_any)

lemma pick_res_ok:
  assumes "pool_ok calls pool"
  shows "pred_state (ref_ok calls (length calls) want) (pick_res want pool)"
proof -
  let ?comp = "filter (\<lambda>e. kind_compat want (pe_kind e)) pool"
  have *: "pred_state (ref_ok calls (length calls) want) (do {
      recent \<leftarrow> (if 1 < length ?comp then chance 60 else ret False);
      e \<leftarrow> (if recent then ret (?comp ! (length ?comp - 1)) else pick ?comp);
      ret (produced_ref e)})" if "?comp \<noteq> []"
  proof (rule pred_bind_any, rule pred_bind [where Q = "\<lambda>e. e \<in> set ?comp"])
    show "pred_state (\<lambda>e. e \<in> set ?comp)
        (if recent then ret (?comp ! (length ?comp - 1)) else pick ?comp)" for recent
      using that pred_pick [of ?comp] nth_mem [of "length ?comp - 1" ?comp] by auto
  qed (use assms pool_ref_ok in auto)
  show ?thesis
    unfolding pick_res_def Let_def
    by (intro pred_bind_any) (use * in \<open>auto simp: pick_seed_ok\<close>)
qed

lemma pick_sibling_ok:
  assumes "pool_ok calls pool"
  shows "pred_state (\<lambda>s. \<forall>rref. s = Some rref \<longrightarrow> ref_ok calls (length calls) want rref)
    (pick_sibling want pool anchors)"
proof (induction anchors)
  case (Cons a as)
  have "pred_state (\<lambda>s. \<forall>rref. s = Some rref \<longrightarrow> ref_ok calls (length calls) want rref)
      (do { e \<leftarrow> pick (siblings_of pool a); ret (Some (produced_ref e)) })"
    if "siblings_of pool a \<noteq> []" "kind_compat want (pe_kind a)"
    by (rule pred_bind [OF pred_pick [OF that(1)]])
      (use assms that(2) pool_ref_ok in \<open>auto simp: siblings_of_def\<close>)
  with Cons show ?case by simp
qed simp

lemma pick_res_biased_ok:
  assumes "pool_ok calls pool"
  shows "pred_state (ref_ok calls (length calls) want) (pick_res_biased want pool anchors)"
  unfolding pick_res_biased_def
  by (rule pred_bind_any, rule pred_bind
      [where Q = "\<lambda>s. \<forall>rref. s = Some rref \<longrightarrow> ref_ok calls (length calls) want rref"])
    (use pick_sibling_ok [OF assms] pick_res_ok [OF assms] in \<open>auto split: option.splits\<close>)

section \<open>Generated arguments\<close>

lemma gen_value_ok:
  "inner_ok ty \<Longrightarrow> pred_state (val_ok ty) (gen_arg_value ty pool)"
  "list_all (\<lambda>(name, ty). inner_ok ty) flds \<Longrightarrow> pred_state (fields_ok flds) (gen_struct_fields flds pool)"
proof (induction ty pool and flds pool rule: gen_arg_value_gen_struct_fields.induct)
  case (2 bits signd pool)
  show ?case by (auto simp: gen_int_def intro!: pred_bind_any)
next
  case (6 d inner nullable pool)
  show ?case
    unfolding gen_arg_value.simps
  proof (rule pred_bind [where Q = "\<lambda>null. null \<longrightarrow> nullable"])
    show "pred_state (val_ok (TPtr d inner nullable))
        (if null then ret (VImm 0) else do { v \<leftarrow> gen_arg_value inner pool; ret (VPtr v) })"
      if "null \<longrightarrow> nullable" for null
      using 6 that by (auto intro!: pred_bind [where Q = "val_ok inner"])
  qed auto
next
  case (8 flds pool)
  then show ?case by (auto intro!: pred_bind [where Q = "fields_ok flds"])
next
  case (11 name ty fs pool)
  then have "pred_state (fields_ok ((name, ty) # fs)) (do { vs \<leftarrow> gen_struct_fields fs pool; ret (v # vs) })"
    if "val_ok ty v" for v
    using that by (intro pred_bind [where Q = "fields_ok fs"]) auto
  with 11 show ?case by (auto intro!: pred_bind [where Q = "val_ok ty"])
qed (auto intro!: pred_bind_any)

definition arg_good :: "typed_call list \<Rightarrow> syscall_desc \<Rightarrow> arg_value list \<Rightarrow> nat \<Rightarrow> bool" where
  "arg_good calls d args j \<longleftrightarrow>
     val_ok (sd_args d ! j) (args ! j) \<and> arg_ok calls (length calls) (sd_args d ! j) (args ! j) \<and>
     (\<forall>n. sd_args d ! j = TLen n \<longrightarrow>
        args ! j = VImm (ucast (len_of_arg (sd_args d ! unat n) (args ! unat n))))"

definition args_good :: "typed_call list \<Rightarrow> syscall_desc \<Rightarrow> arg_value list \<Rightarrow> bool" where
  "args_good calls d args \<longleftrightarrow>
     length args = length (sd_args d) \<and> (\<forall>j < length args. arg_good calls d args j)"

lemma arg_ok_inner: "inner_ok ty \<Longrightarrow> arg_ok calls i ty av"
  by (cases ty) auto

lemma generate_arg_ok:
  assumes "desc_ok d" "pool_ok calls pool" "length args < length (sd_args d)"
  shows "pred_state (\<lambda>av. arg_good calls d (args @ [av]) (length args))
    (generate_arg d pool args (sd_args d ! length args))"
proof -
  let ?ty = "sd_args d ! length args"
  have top: "top_ok (sd_args d) (length args) ?ty" by (rule desc_ok_arg) (use assms in auto)
  consider (len) n where "?ty = TLen n" | (res) k where "?ty = TRes k" | (inner) "inner_ok ?ty" "\<forall>n. ?ty \<noteq> TLen n"
    "generate_arg d pool args ?ty = gen_arg_value ?ty pool"
    using top by (cases ?ty) auto
  then show ?thesis
  proof cases
    case len
    with top assms(3) show ?thesis by (simp add: arg_good_def nth_append)
  next
    case res
    show ?thesis
      unfolding res generate_arg.simps
      by (rule pred_bind [OF pick_res_biased_ok [OF assms(2)]]) (simp add: arg_good_def nth_append res)
  next
    case inner
    then show ?thesis
      by (auto simp: arg_good_def nth_append arg_ok_inner intro!: pred_mono [OF gen_value_ok(1)])
  qed
qed

lemma arg_good_append:
  assumes "desc_ok d" "j < length args" "j < length (sd_args d)"
  shows "arg_good calls d (args @ avs) j = arg_good calls d args j"
  using assms desc_ok_arg [OF assms(1,3)] by (auto simp: arg_good_def nth_append)

lemma generate_args_loop_ok:
  assumes "desc_ok d" "pool_ok calls pool"
  shows "sd_args d = pre @ atys \<Longrightarrow> length args = length pre \<Longrightarrow>
    \<forall>j < length args. arg_good calls d args j \<Longrightarrow>
    pred_state (args_good calls d) (generate_args_loop d pool atys args)"
proof (induction atys arbitrary: pre args)
  case (Cons aty atys)
  have aty: "aty = sd_args d ! length args" using Cons.prems by simp
  show ?case
    unfolding generate_args_loop.simps
  proof (rule pred_bind)
    show "pred_state (\<lambda>av. arg_good calls d (args @ [av]) (length args)) (generate_arg d pool args aty)"
      unfolding aty by (rule generate_arg_ok) (use assms Cons.prems in auto)
    show "pred_state (args_good calls d) (generate_args_loop d pool atys (args @ [av]))"
      if "arg_good calls d (args @ [av]) (length args)" for av
      by (rule Cons.IH [where pre = "pre @ [aty]"])
        (use Cons.prems that arg_good_append [OF assms(1)] in \<open>auto simp: less_Suc_eq\<close>)
  qed
qed (auto simp: args_good_def)

lemma generate_args_ok:
  assumes "desc_ok d" "length calls \<le> 2 ^ 16"
  shows "pred_state (args_good calls d) (generate_args d calls)"
  unfolding generate_args_def
  by (rule generate_args_loop_ok [where pre = "[]"]) (use assms build_pool_ok in auto)

lemma args_good_call:
  assumes "args_good calls d args" "d \<in> set SYSCALLS"
  shows "args_threaded calls (length calls) \<lparr>tc_desc = d, tc_args = args\<rparr>"
    and "shape_ok \<lparr>tc_desc = d, tc_args = args\<rparr>"
  using assms by (auto simp: args_good_def arg_good_def args_threaded_def shape_ok_def list_all2_conv_all_nth)

lemma generate_call_ok:
  assumes "d \<in> set SYSCALLS" "length calls \<le> 2 ^ 16"
  shows "pred_state (\<lambda>c. tc_desc c = d \<and> args_good calls d (tc_args c)) (generate_call d calls)"
  unfolding generate_call_def
  by (rule pred_bind [OF generate_args_ok]) (use assms desc_in_table in auto)

lemma prog_ok_generate:
  assumes "prog_ok calls" "tc_desc c = d" "args_good calls d (tc_args c)" "d \<in> set SYSCALLS"
  shows "prog_ok (calls @ [c])"
  using args_good_call [OF assms(3,4)] assms(1,2) by (cases c) (simp add: prog_ok_snoc)

lemma pick_desc_biased_ok: "pred_state (\<lambda>d. d \<in> set SYSCALLS) (pick_desc_biased existing)"
proof -
  have "pred_state (\<lambda>d. d \<in> set SYSCALLS) (do { i \<leftarrow> below (length (filter P SYSCALLS)); ret (filter P SYSCALLS ! i) })"
    if "filter P SYSCALLS \<noteq> []" for P
    by (rule pred_bind [OF pred_below]) (use that nth_mem [of _ "filter P SYSCALLS"] in auto)
  moreover have "pred_state (\<lambda>d. d \<in> set SYSCALLS) pick_desc"
    unfolding pick_desc_def by (rule pred_pick) (simp add: SYSCALLS_def)
  ultimately show ?thesis
    unfolding pick_desc_biased_def Let_def by (intro pred_bind_any) auto
qed

lemma find_desc_in: "find_desc name = Some d \<Longrightarrow> d \<in> set SYSCALLS"
  by (auto simp: find_desc_def find_Some_iff)

section \<open>Generated programs\<close>

lemma generate_calls_ok:
  "prog_ok calls \<Longrightarrow> length calls + n \<le> 2 ^ 16 \<Longrightarrow>
    pred_state (\<lambda>p. prog_ok p \<and> length p = length calls + n) (generate_calls n calls)"
proof (induction n arbitrary: calls)
  case (Suc n)
  show ?case
    unfolding generate_calls.simps
  proof (rule pred_bind [OF pick_desc_biased_ok], rule pred_bind [OF generate_call_ok])
    fix d and c :: typed_call assume "d \<in> set SYSCALLS" "tc_desc c = d \<and> args_good calls d (tc_args c)"
    then show "pred_state (\<lambda>p. prog_ok p \<and> length p = length calls + Suc n) (generate_calls n (calls @ [c]))"
      using Suc.IH [of "calls @ [c]"] Suc.prems prog_ok_generate by auto
  qed (use Suc.prems in auto)
qed simp

lemma recipe_loop_ok:
  "prog_ok calls \<Longrightarrow> length calls + length names \<le> 2 ^ 16 \<Longrightarrow>
    pred_state (\<lambda>q. \<forall>p. q = Some p \<longrightarrow> prog_ok p \<and> length p = length calls + length names) (recipe_loop names calls)"
proof (induction names arbitrary: calls)
  case (Cons name names)
  show ?case
  proof (cases "find_desc name")
    case (Some d)
    show ?thesis
      unfolding recipe_loop.simps Some option.simps
    proof (rule pred_bind [OF generate_call_ok])
      fix c :: typed_call assume "tc_desc c = d \<and> args_good calls d (tc_args c)"
      then show "pred_state (\<lambda>q. \<forall>p. q = Some p \<longrightarrow> prog_ok p \<and> length p = length calls + length (name # names))
          (recipe_loop names (calls @ [c]))"
        using Cons.IH [of "calls @ [c]"] Cons.prems prog_ok_generate find_desc_in [OF Some] by auto
    qed (use Cons.prems find_desc_in [OF Some] in auto)
  qed simp
qed simp

lemma ex_append_Cons:
  "(\<exists>cs. p = (xs @ [c]) @ cs \<and> P cs) \<Longrightarrow> (\<And>cs. P cs \<Longrightarrow> Q (c # cs)) \<Longrightarrow> \<exists>cs. p = xs @ cs \<and> Q cs"
  by force

lemma repeat_call_ok:
  "d \<in> set SYSCALLS \<Longrightarrow> prog_ok calls \<Longrightarrow> length calls + n \<le> 2 ^ 16 \<Longrightarrow>
    pred_state (\<lambda>p. prog_ok p \<and> (\<exists>cs. p = calls @ cs \<and> map tc_desc cs = replicate n d)) (repeat_call n d calls)"
proof (induction n arbitrary: calls)
  case (Suc n)
  show ?case
    unfolding repeat_call.simps
  proof (rule pred_bind [OF generate_call_ok])
    fix c :: typed_call assume c: "tc_desc c = d \<and> args_good calls d (tc_args c)"
    have "pred_state (\<lambda>p. prog_ok p \<and> (\<exists>cs. p = (calls @ [c]) @ cs \<and> map tc_desc cs = replicate n d))
        (repeat_call n d (calls @ [c]))"
      using Suc.prems c prog_ok_generate by (intro Suc.IH) auto
    then show "pred_state (\<lambda>p. prog_ok p \<and> (\<exists>cs. p = calls @ cs \<and> map tc_desc cs = replicate (Suc n) d))
        (repeat_call n d (calls @ [c]))"
      by (rule pred_mono) (use c in \<open>auto elim!: ex_append_Cons simp del: append_assoc\<close>)
  qed (use Suc.prems in auto)
qed simp

section \<open>Rings\<close>

lemma find_epoll:
  "find_desc ''epoll_create1'' = Some sys_epoll_create1" "find_desc ''epoll_ctl'' = Some sys_epoll_ctl"
  by code_simp+

lemma epoll_shapes:
  "sys_epoll_create1 \<in> set SYSCALLS" "sys_epoll_ctl \<in> set SYSCALLS"
  "sd_produces sys_epoll_create1 = ProducesRet EPOLL"
  "sd_args sys_epoll_ctl = [TRes EPOLL, TFlags EPOLL_OP False, TRes FD, TPtr In EPOLL_EVENT True]"
  by (rule find_desc_in, rule find_epoll)+ (simp_all add: sys_epoll_create1_def sys_epoll_ctl_def)

lemma kind_compat_fd: "kind_compat FD EPOLL" "kind_compat EPOLL EPOLL" "kind_compat FD FD"
  by code_simp+

definition ring_link :: "nat \<Rightarrow> nat \<Rightarrow> typed_call \<Rightarrow> bool" where
  "ring_link n i c \<longleftrightarrow>
     tc_desc c = sys_epoll_ctl \<and>
     (\<exists>v. tc_args c = [VRes (Produced (of_nat i) 0), VImm 1, VRes (Produced (of_nat ((i + 1) mod n)) 0), VPtr v])"

lemma inner_ok_epoll_event: "inner_ok EPOLL_EVENT"
  by code_simp

lemma ring_link_args:
  assumes "args_good calls sys_epoll_ctl args0"
  shows "pred_state (\<lambda>args. \<exists>v. val_ok EPOLL_EVENT v \<and>
      args = [VRes (Produced (of_nat i) 0), VImm 1, VRes (Produced (of_nat ((i + 1) mod n)) 0), VPtr v])
    (force_nonnull epoll_link sys_epoll_ctl calls (link_args epoll_link n i args0))"
proof -
  have "length args0 = Suc (Suc (Suc (Suc 0)))" using assms by (simp add: args_good_def epoll_shapes)
  then obtain a b c d where "args0 = [a, b, c, d]" by (auto simp: length_Suc_conv)
  then show ?thesis
    by (auto simp: force_nonnull_def link_args_def epoll_link_def epoll_shapes
        intro!: pred_bind [OF gen_value_ok(1) [OF inner_ok_epoll_event]])
qed

lemma ring_link_ok:
  assumes "n \<le> length calls" "n \<le> 2 ^ 16" "i < n" "\<forall>k < n. tc_desc (calls ! k) = sys_epoll_create1"
    "val_ok EPOLL_EVENT v" "prog_ok calls"
  shows "prog_ok (calls @ [\<lparr>tc_desc = sys_epoll_ctl, tc_args = [VRes (Produced (of_nat i) 0), VImm 1,
      VRes (Produced (of_nat ((i + 1) mod n)) 0), VPtr v]\<rparr>])"
proof -
  have "(i + 1) mod n < length calls" "(i + 1) mod n < n"
    using assms(1,3) mod_less_divisor [of n "i + 1"] by linarith+
  moreover have "unat (of_nat k :: u16) = k" if "k < n" for k
    using that assms(2) by (simp add: unat_of_nat take_bit_nat_eq_self)
  ultimately show ?thesis
    using assms by (simp add: prog_ok_snoc args_threaded_def shape_ok_def epoll_shapes kind_compat_fd)
qed

lemma ring_links_ok:
  "prog_ok calls \<Longrightarrow> n \<le> length calls \<Longrightarrow> length calls + length idxs \<le> 2 ^ 16 \<Longrightarrow>
    \<forall>k < n. tc_desc (calls ! k) = sys_epoll_create1 \<Longrightarrow> \<forall>i \<in> set idxs. i < n \<Longrightarrow>
    pred_state (\<lambda>p. prog_ok p \<and> (\<exists>cs. p = calls @ cs \<and> list_all2 (ring_link n) idxs cs))
      (ring_links idxs epoll_link sys_epoll_ctl n calls)"
proof (induction idxs arbitrary: calls)
  case (Cons i idxs)
  show ?case
    unfolding ring_links.simps
  proof (rule pred_bind [OF generate_args_ok], rule_tac [3] pred_bind [OF ring_link_args])
    fix args0 args
    assume "\<exists>v. val_ok EPOLL_EVENT v \<and>
      args = [VRes (Produced (of_nat i) 0), VImm 1, VRes (Produced (of_nat ((i + 1) mod n)) 0), VPtr v]"
    then obtain v where v: "val_ok EPOLL_EVENT v"
      "args = [VRes (Produced (of_nat i) 0), VImm 1, VRes (Produced (of_nat ((i + 1) mod n)) 0), VPtr v]" by blast
    let ?c = "\<lparr>tc_desc = sys_epoll_ctl, tc_args = args\<rparr>"
    have "pred_state (\<lambda>p. prog_ok p \<and> (\<exists>cs. p = (calls @ [?c]) @ cs \<and> list_all2 (ring_link n) idxs cs))
        (ring_links idxs epoll_link sys_epoll_ctl n (calls @ [?c]))"
      using Cons.prems v ring_link_ok [of n calls i v] by (intro Cons.IH) (auto simp: nth_append)
    then show "pred_state (\<lambda>p. prog_ok p \<and> (\<exists>cs. p = calls @ cs \<and> list_all2 (ring_link n) (i # idxs) cs))
        (ring_links idxs epoll_link sys_epoll_ctl n (calls @ [?c]))"
      by (rule pred_mono) (use v in \<open>auto simp: ring_link_def elim!: ex_append_Cons simp del: append_assoc\<close>)
  qed (use Cons.prems desc_in_table epoll_shapes in auto)
qed simp

lemma epoll_link_idx: "anchor_arg_idx epoll_link = 0" "target_arg_idx epoll_link = 2"
  by (simp_all add: epoll_link_def)

lemma build_epoll_ring_ok:
  defines "n k \<equiv> max 3 (min k (MAX_CALLS div 2))"
  shows "pred_state (\<lambda>q. \<exists>p cs ls. q = Some p \<and> prog_ok p \<and> p = cs @ ls \<and>
      map tc_desc cs = replicate (n k) sys_epoll_create1 \<and> list_all2 (ring_link (n k)) [0 ..< n k] ls)
    (build_epoll_ring k)"
proof -
  have n: "3 \<le> n k" "n k \<le> 4" by (auto simp: n_def MAX_CALLS_def)
  have "build_same_kind_ring ''epoll_create1'' ''epoll_ctl'' epoll_link m = do {
      calls \<leftarrow> repeat_call m sys_epoll_create1 [];
      calls \<leftarrow> ring_links [0 ..< m] epoll_link sys_epoll_ctl m calls;
      ret (Some calls)}" if "3 \<le> m" "m \<le> 4" for m
    using that by (simp add: build_same_kind_ring_def find_epoll epoll_shapes epoll_link_idx MAX_CALLS_def)
  from this [OF n] have eq: "build_epoll_ring k = do {
      calls \<leftarrow> repeat_call (n k) sys_epoll_create1 [];
      calls \<leftarrow> ring_links [0 ..< n k] epoll_link sys_epoll_ctl (n k) calls;
      ret (Some calls)}"
    by (simp only: build_epoll_ring_def Let_def n_def)
  show ?thesis
    unfolding eq
  proof (rule pred_bind [OF repeat_call_ok])
    fix calls assume "prog_ok calls \<and> (\<exists>cs. calls = [] @ cs \<and> map tc_desc cs = replicate (n k) sys_epoll_create1)"
    then have calls: "prog_ok calls" "map tc_desc calls = replicate (n k) sys_epoll_create1" by auto
    have len: "length calls = n k" using calls(2) by (metis length_map length_replicate)
    have "tc_desc (calls ! i) = sys_epoll_create1" if "i < n k" for i
      using that len calls(2) by (metis nth_map nth_replicate)
    then have *: "pred_state (\<lambda>p. prog_ok p \<and> (\<exists>cs. p = calls @ cs \<and> list_all2 (ring_link (n k)) [0 ..< n k] cs))
        (ring_links [0 ..< n k] epoll_link sys_epoll_ctl (n k) calls)"
      using calls len n by (intro ring_links_ok) auto
    show "pred_state (\<lambda>q. \<exists>p cs ls. q = Some p \<and> prog_ok p \<and> p = cs @ ls \<and>
        map tc_desc cs = replicate (n k) sys_epoll_create1 \<and> list_all2 (ring_link (n k)) [0 ..< n k] ls)
      (do { calls \<leftarrow> ring_links [0 ..< n k] epoll_link sys_epoll_ctl (n k) calls; ret (Some calls) })"
      by (rule pred_bind [OF *]) (use calls in auto)
  qed (use n epoll_shapes in auto)
qed

lemma RECIPES_len: "list_all (\<lambda>r. 0 < length r \<and> length r \<le> MAX_CALLS) RECIPES"
  by code_simp

lemma RECIPES_ne: "RECIPES \<noteq> []"
  by (simp add: RECIPES_def)

definition gen_ok :: "prog \<Rightarrow> bool" where
  "gen_ok p \<longleftrightarrow> prog_ok p \<and> 0 < length p \<and> length p \<le> MAX_CALLS"

lemma generate_from_recipe_ok:
  assumes "recipe \<in> set RECIPES"
  shows "pred_state (\<lambda>q. \<forall>p. q = Some p \<longrightarrow> gen_ok p) (generate_from_recipe recipe)"
proof -
  have "0 < length recipe" "length recipe \<le> MAX_CALLS" using assms RECIPES_len by (auto simp: list_all_iff)
  then show ?thesis
    unfolding generate_from_recipe_def
    by (intro pred_mono [OF recipe_loop_ok]) (auto simp: gen_ok_def MAX_CALLS_def)
qed

lemma generate_ok: "pred_state gen_ok generate"
proof -
  have ring: "pred_state (\<lambda>q. \<forall>p. q = Some p \<longrightarrow> gen_ok p) (build_epoll_ring k)" for k
  proof (rule pred_mono [OF build_epoll_ring_ok [of k]], clarsimp)
    fix cs ls assume "prog_ok (cs @ ls)"
      "map tc_desc cs = replicate (max 3 (min k (MAX_CALLS div 2))) sys_epoll_create1"
      "list_all2 (ring_link (max 3 (min k (MAX_CALLS div 2)))) [0..<max 3 (min k (MAX_CALLS div 2))] ls"
    moreover from this have "length cs = max 3 (min k (MAX_CALLS div 2))" "length ls = max 3 (min k (MAX_CALLS div 2))"
      by (metis length_map length_replicate, auto dest: list_all2_lengthD)
    ultimately show "gen_ok (cs @ ls)" by (auto simp: gen_ok_def MAX_CALLS_def)
  qed
  have recipe: "pred_state (\<lambda>q. \<forall>p. q = Some p \<longrightarrow> gen_ok p)
      (do { i \<leftarrow> below (length RECIPES); generate_from_recipe (RECIPES ! i) })"
    by (rule pred_bind [OF pred_below]) (use generate_from_recipe_ok in \<open>auto simp: RECIPES_ne\<close>)
  have fresh: "pred_state gen_ok (do { n \<leftarrow> below MAX_CALLS; generate_calls (1 + n) [] })"
  proof (rule pred_bind [OF pred_below])
    show "pred_state gen_ok (generate_calls (1 + n) [])" if "n < MAX_CALLS" for n
      using that by (intro pred_mono [OF generate_calls_ok]) (auto simp: gen_ok_def MAX_CALLS_def)
  qed (simp add: MAX_CALLS_def)
  let ?Q = "\<lambda>q. \<forall>p. q = Some p \<longrightarrow> gen_ok p"
  show ?thesis
    unfolding generate_def
  proof (rule pred_bind_any, rule pred_bind [where Q = ?Q])
    show "pred_state ?Q (if force then do { k \<leftarrow> below (MAX_CALLS div 2 - 2); build_epoll_ring (3 + k) }
        else ret None)" for force
      by (simp add: ring pred_bind_any)
    have *: "pred_state gen_ok (do { use_recipe \<leftarrow> chance 20;
        recipe \<leftarrow> (if use_recipe then do { i \<leftarrow> below (length RECIPES); generate_from_recipe (RECIPES ! i) }
                   else ret None);
        (case recipe of Some p \<Rightarrow> ret p
         | None \<Rightarrow> do { n \<leftarrow> below MAX_CALLS; generate_calls (1 + n) [] }) })"
      by (rule pred_bind_any, rule pred_bind [where Q = ?Q]) (use recipe fresh in \<open>simp_all split: option.split\<close>)
    show "pred_state gen_ok (case ring of Some p \<Rightarrow> ret p
       | None \<Rightarrow> do { use_recipe \<leftarrow> chance 20;
          recipe \<leftarrow> (if use_recipe then do { i \<leftarrow> below (length RECIPES); generate_from_recipe (RECIPES ! i) }
                     else ret None);
          (case recipe of Some p \<Rightarrow> ret p
           | None \<Rightarrow> do { n \<leftarrow> below MAX_CALLS; generate_calls (1 + n) [] }) })" if "?Q ring" for ring
      using * that by (cases ring) (simp_all only: option.case pred_ret option.inject simp_thms)
  qed
qed

section \<open>Chains of mutations\<close>

text \<open>
  What every mutation operator promises, and what follows for a corpus: a program reached from a
  usable one by any number of applications is usable.
\<close>

primrec op_chain :: "(prog \<Rightarrow> prog gen) \<Rightarrow> nat \<Rightarrow> prog \<Rightarrow> prog gen" where
  "op_chain f 0 p = ret p"
| "op_chain f (Suc n) p = do { q \<leftarrow> f p; op_chain f n q }"

locale prog_operator =
  fixes mut_op :: "prog \<Rightarrow> prog gen"
  assumes op_ok: "gen_ok p \<Longrightarrow> pred_state gen_ok (mut_op p)"
begin

lemma chain_ok: "gen_ok p \<Longrightarrow> pred_state gen_ok (op_chain mut_op n p)"
  by (induction n arbitrary: p) (auto intro!: pred_bind [OF op_ok])

lemma chain_run: "gen_ok p \<Longrightarrow> gen_ok (fst (run_state (op_chain mut_op n p) r))"
  by (rule pred_stateE [OF chain_ok])

end

end
