(* ===== verification/Mutate.thy ===== *)
theory Mutate
  imports Prog_Invariant
begin

text \<open>
  Mutation of programs (\<open>crates/fs-prog/src/mutate.rs\<close>): inserting and removing calls with the
  renumbering of resource references, and the operators that change one argument.  The in-place
  loops over a call's arguments are maps over the zipped lists; an index that the code would panic
  on is one a well-formed program does not have.
\<close>

section \<open>Renumbering\<close>

fun renumber_arg_insert :: "nat \<Rightarrow> arg_type \<Rightarrow> arg_value \<Rightarrow> arg_value" where
  "renumber_arg_insert at (TRes k) (VRes (Produced call_idx slot)) =
     VRes (Produced (if at \<le> unat call_idx then call_idx + 1 else call_idx) slot)"
| "renumber_arg_insert at aty av = av"

definition map_args :: "(arg_type \<Rightarrow> arg_value \<Rightarrow> arg_value) \<Rightarrow> typed_call \<Rightarrow> typed_call" where
  "map_args f c = c\<lparr>tc_args := map2 f (sd_args (tc_desc c)) (tc_args c) @ drop (length (sd_args (tc_desc c))) (tc_args c)\<rparr>"

definition renumber_after_insert :: "nat \<Rightarrow> prog \<Rightarrow> prog" where
  "renumber_after_insert at p = map (map_args (renumber_arg_insert at)) p"

fun renumber_arg_remove :: "nat \<Rightarrow> arg_type \<Rightarrow> arg_value \<Rightarrow> arg_value gen" where
  "renumber_arg_remove at (TRes want) (VRes (Produced call_idx slot)) =
     (if unat call_idx = at then do { rref \<leftarrow> pick_seed want; ret (VRes rref) }
      else if at < unat call_idx then ret (VRes (Produced (call_idx - 1) slot))
      else ret (VRes (Produced call_idx slot)))"
| "renumber_arg_remove at aty av = ret av"

fun renumber_args_remove :: "nat \<Rightarrow> arg_type list \<Rightarrow> arg_value list \<Rightarrow> arg_value list gen" where
  "renumber_args_remove at (aty # atys) (av # avs) = do {
     av' \<leftarrow> renumber_arg_remove at aty av;
     avs' \<leftarrow> renumber_args_remove at atys avs;
     ret (av' # avs')
   }"
| "renumber_args_remove at atys avs = ret avs"

fun renumber_after_remove :: "nat \<Rightarrow> prog \<Rightarrow> prog gen" where
  "renumber_after_remove at [] = ret []"
| "renumber_after_remove at (c # cs) = do {
     args \<leftarrow> renumber_args_remove at (sd_args (tc_desc c)) (tc_args c);
     cs' \<leftarrow> renumber_after_remove at cs;
     ret (c\<lparr>tc_args := args\<rparr> # cs')
   }"

section \<open>Inserting and removing calls\<close>

definition insert_at :: "nat \<Rightarrow> 'a \<Rightarrow> 'a list \<Rightarrow> 'a list" where
  "insert_at pos x xs = take pos xs @ x # drop pos xs"

definition remove_at :: "nat \<Rightarrow> 'a list \<Rightarrow> 'a list" where
  "remove_at idx xs = take idx xs @ drop (Suc idx) xs"

definition insert_call :: "prog \<Rightarrow> prog gen" where
  "insert_call p = do {
     pos \<leftarrow> below (length p + 1);
     desc \<leftarrow> pick_desc_biased (take pos p);
     args \<leftarrow> generate_args desc (take pos p);
     ret (insert_at pos \<lparr>tc_desc = desc, tc_args = args\<rparr> (renumber_after_insert pos p))
   }"

definition remove_call :: "prog \<Rightarrow> prog gen" where
  "remove_call p = do {
     idx \<leftarrow> below (length p);
     renumber_after_remove idx (remove_at idx p)
   }"

section \<open>Changing one argument\<close>

definition set_arg :: "prog \<Rightarrow> nat \<Rightarrow> nat \<Rightarrow> arg_value \<Rightarrow> prog" where
  "set_arg p i j v = p[i := (p ! i)\<lparr>tc_args := (tc_args (p ! i))[j := v]\<rparr>]"

definition desync_len :: "u64 \<Rightarrow> u64 gen" where
  "desync_len v = do {
     sel \<leftarrow> below 3;
     x \<leftarrow> rng_next;
     ret (if sel = 0 then v XOR push_bit (unat (x mod 32)) 1
          else if sel = 1 then ucast x
          else v + ucast (x mod 17))
   }"

definition mutate_one_arg :: "typed_call \<Rightarrow> nat \<Rightarrow> pool_entry list \<Rightarrow> typed_call gen" where
  "mutate_one_arg c j pool =
     (case sd_args (tc_desc c) ! j of
        TRes kind \<Rightarrow> do {
          rref \<leftarrow> pick_res_biased kind pool (same_call_anchors pool (tc_args c) (Some j));
          ret (c\<lparr>tc_args := (tc_args c)[j := VRes rref]\<rparr>)
        }
      | TLen n \<Rightarrow> do {
          resync \<leftarrow> chance 70;
          if resync then
            ret (if unat n < length (sd_args (tc_desc c)) \<and> unat n < length (tc_args c)
                 then c\<lparr>tc_args := (tc_args c)[j :=
                        VImm (ucast (len_of_arg (sd_args (tc_desc c) ! unat n) (tc_args c ! unat n)))]\<rparr>
                 else c)
          else (case tc_args c ! j of
                  VImm v \<Rightarrow> do { nv \<leftarrow> desync_len v; ret (c\<lparr>tc_args := (tc_args c)[j := VImm nv]\<rparr>) }
                | _ \<Rightarrow> ret c)
        }
      | aty \<Rightarrow> do {
          v \<leftarrow> gen_arg_value aty pool;
          ret (c\<lparr>tc_args := (tc_args c)[j := v]\<rparr>)
        })"

definition mutate_random_arg :: "prog \<Rightarrow> prog gen" where
  "mutate_random_arg p =
     (let candidates = filter (\<lambda>i. tc_args (p ! i) \<noteq> []) [0 ..< length p] in
      if candidates = [] then ret p
      else do {
        idx \<leftarrow> pick candidates;
        let pool = build_pool (take idx p);
        j \<leftarrow> below (length (tc_args (p ! idx)));
        c \<leftarrow> mutate_one_arg (p ! idx) j pool;
        ret (p[idx := c])
      })"

text \<open>
  The positions of the arguments whose type \<open>f\<close> selects, with what it selects: the nested loops
  that open the operators below.
\<close>

definition sites :: "(arg_type \<Rightarrow> arg_value \<Rightarrow> 'a option) \<Rightarrow> prog \<Rightarrow> (nat \<times> nat \<times> 'a) list" where
  "sites f p =
     concat (map (\<lambda>(i, c).
       List.map_filter (\<lambda>(j, aty). map_option (\<lambda>x. (i, j, x)) (f aty (tc_args c ! j)))
         (enumerate 0 (sd_args (tc_desc c)))) (enumerate 0 p))"

fun res_site :: "arg_type \<Rightarrow> arg_value \<Rightarrow> resource_kind option" where
  "res_site (TRes k) av = Some k"
| "res_site aty av = None"

definition compatible_in :: "pool_entry list \<Rightarrow> resource_kind \<Rightarrow> pool_entry list" where
  "compatible_in pool kind = filter (\<lambda>e. kind_compat kind (pe_kind e)) pool"

definition slots_of :: "produces \<Rightarrow> u8 list" where
  "slots_of pr = map of_nat [0 ..< unat (slot_count pr)]"

definition makes_kind :: "produces \<Rightarrow> resource_kind \<Rightarrow> u8 \<Rightarrow> bool" where
  "makes_kind pr kind s = (case kind_at pr s of None \<Rightarrow> False | Some k \<Rightarrow> kind_compat kind k)"

definition producer_descs :: "resource_kind \<Rightarrow> syscall_desc list" where
  "producer_descs kind =
     filter (\<lambda>d. list_ex (makes_kind (sd_produces d) kind) (slots_of (sd_produces d))) SYSCALLS"

definition wire_fresh :: "prog \<Rightarrow> nat \<Rightarrow> nat \<Rightarrow> resource_kind \<Rightarrow> prog gen" where
  "wire_fresh p idx j kind = do {
     desc \<leftarrow> pick (producer_descs kind);
     pos \<leftarrow> below (idx + 1);
     args \<leftarrow> generate_args desc (take pos p);
     let q = insert_at pos \<lparr>tc_desc = desc, tc_args = args\<rparr> (renumber_after_insert pos p);
     let slot = (case find (makes_kind (sd_produces desc) kind) (slots_of (sd_produces desc)) of
                   None \<Rightarrow> 0 | Some s \<Rightarrow> s);
     ret (set_arg q (idx + 1) j (VRes (Produced (of_nat pos) slot)))
   }"

definition wire_producer :: "prog \<Rightarrow> prog gen" where
  "wire_producer p =
     (let positions = sites res_site p in
      if positions = [] then ret p
      else do {
        (idx, j, kind) \<leftarrow> pick positions;
        let compatible = compatible_in (build_pool (take idx p)) kind;
        if compatible \<noteq> [] then do {
          e \<leftarrow> pick compatible;
          ret (set_arg p idx j (VRes (produced_ref e)))
        }
        else if MAX_CALLS \<le> length p then ret p
        else if producer_descs kind = [] then ret p
        else wire_fresh p idx j kind
      })"

definition splice_resource_use :: "prog \<Rightarrow> prog gen" where
  "splice_resource_use p =
     (let positions = sites res_site p in
      if positions = [] then ret p
      else do {
        (idx, j, kind) \<leftarrow> pick positions;
        let compatible = compatible_in (build_pool (take idx p)) kind;
        if compatible = [] then ret p
        else do {
          e \<leftarrow> pick compatible;
          ret (set_arg p idx j (VRes (produced_ref e)))
        }
      })"

fun flags_site :: "arg_type \<Rightarrow> arg_value \<Rightarrow> u32 list option" where
  "flags_site (TFlags vals bitmask) av = (if vals = [] then None else Some vals)"
| "flags_site aty av = None"

definition toggle_flag_bit :: "prog \<Rightarrow> prog gen" where
  "toggle_flag_bit p =
     (let candidates = sites flags_site p in
      if candidates = [] then ret p
      else do {
        (i, j, vals) \<leftarrow> pick candidates;
        bit \<leftarrow> pick vals;
        ret (case tc_args (p ! i) ! j of
               VImm v \<Rightarrow> set_arg p i j (VImm (v XOR ucast bit))
             | _ \<Rightarrow> p)
      })"

fun buffer_site :: "arg_type \<Rightarrow> arg_value \<Rightarrow> unit option" where
  "buffer_site (TPtr d (TBuffer l) nullable) (VPtr (VBytes b)) = Some ()"
| "buffer_site aty av = None"

definition resize_bytes :: "u8 list \<Rightarrow> u8 list gen" where
  "resize_bytes b = do {
     grow \<leftarrow> (if b = [] then ret True else rng_bool);
     if grow then do {
       n \<leftarrow> below 16;
       more \<leftarrow> gen_bytes (1 + n);
       ret (take 4096 (b @ more))
     } else do {
       cut \<leftarrow> below (length b);
       ret (take (length b - (1 + cut)) b)
     }
   }"

definition resize_buffer :: "prog \<Rightarrow> prog gen" where
  "resize_buffer p =
     (let candidates = sites buffer_site p in
      if candidates = [] then ret p
      else do {
        (i, j, u) \<leftarrow> pick candidates;
        (case tc_args (p ! i) ! j of
           VPtr (VBytes b) \<Rightarrow> do { b' \<leftarrow> resize_bytes b; ret (set_arg p i j (VPtr (VBytes b'))) }
         | _ \<Rightarrow> ret p)
      })"

fun int_site :: "arg_type \<Rightarrow> arg_value \<Rightarrow> u8 option" where
  "int_site (TInt bits signd) av = Some bits"
| "int_site aty av = None"

definition mutate_interesting_int :: "prog \<Rightarrow> prog gen" where
  "mutate_interesting_int p =
     (let candidates = sites int_site p in
      if candidates = [] then ret p
      else do {
        (i, j, bits) \<leftarrow> pick candidates;
        v \<leftarrow> pick_interesting_int bits;
        ret (set_arg p i j (VImm v))
      })"

fun dict_site :: "arg_type \<Rightarrow> arg_value \<Rightarrow> u8 option" where
  "dict_site (TInt bits signd) av = Some bits"
| "dict_site (TFlags vals bitmask) av = Some 32"
| "dict_site (TConst c) av = Some 32"
| "dict_site aty av = None"

definition mutate_dict_const :: "prog \<Rightarrow> prog gen" where
  "mutate_dict_const p =
     (let candidates = sites dict_site p in
      if candidates = [] then ret p
      else do {
        (i, j, bits) \<leftarrow> pick candidates;
        v \<leftarrow> pick_dict_const;
        ret (set_arg p i j (VImm (mask_to_bits (ucast v) bits)))
      })"

section \<open>One mutation\<close>

definition mutate_op :: "nat \<Rightarrow> prog \<Rightarrow> prog gen" where
  "mutate_op sel p =
     (if sel = 0 \<and> length p < MAX_CALLS then insert_call p
      else if sel = 1 \<and> 1 < length p then remove_call p
      else if sel = 2 then mutate_random_arg p
      else if sel = 3 then wire_producer p
      else if sel = 4 then splice_resource_use p
      else if sel = 5 then toggle_flag_bit p
      else if sel = 6 then resize_buffer p
      else if sel = 7 then mutate_interesting_int p
      else mutate_dict_const p)"

definition mutate :: "prog \<Rightarrow> prog gen" where
  "mutate base =
     (if base = [] then generate
      else do {
        sel \<leftarrow> below 9;
        p \<leftarrow> mutate_op sel base;
        if p = [] then generate else ret p
      })"

text \<open>
  From here on: every operator keeps programs usable.
\<close>

section \<open>Replacing one argument\<close>

lemma prog_ok_nth:
  assumes "prog_ok p" "i < length p"
  shows "args_threaded p i (p ! i)" "shape_ok (p ! i)" "length (tc_args (p ! i)) = length (sd_args (tc_desc (p ! i)))"
    "tc_desc (p ! i) \<in> set SYSCALLS"
  using assms by (auto simp: prog_ok_def is_well_formed_iff list_all_length shape_ok_def list_all2_lengthD)

lemma prog_ok_update:
  assumes "prog_ok p" "i < length p" "tc_desc c = tc_desc (p ! i)" "args_threaded p i c" "shape_ok c"
  shows "prog_ok (p[i := c])"
proof -
  have "args_threaded (p[i := c]) k d = args_threaded p k d" for k d
    by (rule args_threaded_cong) (use assms(2,3) in \<open>simp add: nth_list_update\<close>)
  then show ?thesis
    using assms by (auto simp: prog_ok_def is_well_formed_iff list_all_length nth_list_update)
qed

lemma set_arg_ok:
  assumes "prog_ok p" "i < length p" "j < length (sd_args (tc_desc (p ! i)))"
    "val_ok (sd_args (tc_desc (p ! i)) ! j) v" "arg_ok p i (sd_args (tc_desc (p ! i)) ! j) v"
  shows "prog_ok (set_arg p i j v)"
  unfolding set_arg_def
  using assms prog_ok_nth [OF assms(1,2)]
  by (intro prog_ok_update) (auto simp: args_threaded_def shape_ok_def list_all2_conv_all_nth nth_list_update)

lemma length_set_arg [simp]: "length (set_arg p i j v) = length p"
  by (simp add: set_arg_def)

lemma arg_ok_prefix: "i \<le> length p \<Longrightarrow> arg_ok (take i p) i ty av = arg_ok p i ty av"
  by (rule arg_ok_cong) simp

lemma ref_ok_prefix: "i \<le> length p \<Longrightarrow> ref_ok (take i p) i want rref = ref_ok p i want rref"
  by (rule ref_ok_cong) simp

lemma in_sites:
  assumes "(i, j, x) \<in> set (sites f p)"
  shows "i < length p" "j < length (sd_args (tc_desc (p ! i)))"
    "f (sd_args (tc_desc (p ! i)) ! j) (tc_args (p ! i) ! j) = Some x"
  using assms by (auto simp: sites_def List.map_filter_def enumerate_eq_zip set_zip)

lemma prefix_pool_ok:
  assumes "length p \<le> 2 ^ 16" "i \<le> length p"
  shows "pool_ok (take i p) (build_pool (take i p))"
  using assms by (intro build_pool_ok) simp

definition mut_ok :: "nat \<Rightarrow> prog \<Rightarrow> bool" where
  "mut_ok n p \<longleftrightarrow> prog_ok p \<and> length p = n"

lemma set_res_ok:
  assumes "prog_ok p" "length p \<le> 2 ^ 16" "(i, j, kind) \<in> set (sites res_site p)"
    "e \<in> set (compatible_in (build_pool (take i p)) kind)"
  shows "mut_ok (length p) (set_arg p i j (VRes (produced_ref e)))"
proof -
  note s = in_sites [OF assms(3)]
  then have ty: "sd_args (tc_desc (p ! i)) ! j = TRes kind"
    by (cases "sd_args (tc_desc (p ! i)) ! j") auto
  have "ref_ok (take i p) (length (take i p)) kind (produced_ref e)"
    using assms s(1) prefix_pool_ok by (intro pool_ref_ok) (auto simp: compatible_in_def)
  then have "ref_ok p i kind (produced_ref e)"
    using s(1) by (simp add: ref_ok_prefix min_def)
  then show ?thesis
    unfolding mut_ok_def using assms(1) s ty by (intro conjI set_arg_ok) auto
qed

lemma at_site:
  assumes "prog_ok p" "\<And>i j x. (i, j, x) \<in> set (sites f p) \<Longrightarrow> pred_state (mut_ok (length p)) (body (i, j, x))"
  shows "pred_state (mut_ok (length p)) (if sites f p = [] then ret p else State_Monad.bind (pick (sites f p)) body)"
  using assms by (auto simp: mut_ok_def intro!: pred_bind [OF pred_pick] split: prod.splits)

lemma splice_resource_use_ok:
  assumes "prog_ok p" "length p \<le> 2 ^ 16"
  shows "pred_state (mut_ok (length p)) (splice_resource_use p)"
  unfolding splice_resource_use_def Let_def
  by (rule at_site [OF assms(1)])
    (use assms in \<open>auto simp: mut_ok_def intro!: pred_bind [OF pred_pick] set_res_ok [unfolded mut_ok_def, THEN conjunct1]\<close>)

text \<open>The operators that put a new immediate into a scalar slot.\<close>

lemma set_imm_ok:
  assumes "prog_ok p" "(i, j, x) \<in> set (sites f p)"
    "\<And>ty av. f ty av = Some x \<Longrightarrow> val_ok ty av \<Longrightarrow> val_ok ty v \<and> (\<forall>k. ty \<noteq> TRes k)"
  shows "mut_ok (length p) (set_arg p i j v)"
proof -
  note s = in_sites [OF assms(2)]
  have "val_ok (sd_args (tc_desc (p ! i)) ! j) (tc_args (p ! i) ! j)"
    using prog_ok_nth [OF assms(1) s(1)] s(2) by (simp add: shape_ok_def list_all2_conv_all_nth)
  with assms(3) [OF s(3)] have "val_ok (sd_args (tc_desc (p ! i)) ! j) v"
    "\<forall>k. sd_args (tc_desc (p ! i)) ! j \<noteq> TRes k" by blast+
  then show ?thesis
    unfolding mut_ok_def using assms(1) s
    by (intro conjI set_arg_ok) (cases "sd_args (tc_desc (p ! i)) ! j"; simp)+
qed

lemma int_site_ok:
  "int_site ty av = Some bits \<Longrightarrow> val_ok ty av \<Longrightarrow> val_ok ty (VImm (mask_to_bits v bits)) \<and> (\<forall>k. ty \<noteq> TRes k)"
  by (cases ty) auto

lemma dict_site_ok:
  "dict_site ty av = Some bits \<Longrightarrow> val_ok ty av \<Longrightarrow> val_ok ty (VImm (mask_to_bits v bits)) \<and> (\<forall>k. ty \<noteq> TRes k)"
  by (cases ty) auto

lemma flags_site_ok:
  "flags_site ty av = Some vals \<Longrightarrow> val_ok ty av \<Longrightarrow> val_ok ty (VImm v) \<and> (\<forall>k. ty \<noteq> TRes k)"
  by (cases ty) auto

lemma buffer_site_ok:
  "buffer_site ty av = Some u \<Longrightarrow> val_ok ty av \<Longrightarrow> val_ok ty (VPtr (VBytes b)) \<and> (\<forall>k. ty \<noteq> TRes k)"
  by (induction ty av rule: buffer_site.induct) auto

lemma mutate_interesting_int_ok: "prog_ok p \<Longrightarrow> pred_state (mut_ok (length p)) (mutate_interesting_int p)"
  unfolding mutate_interesting_int_def Let_def pick_interesting_int_def
  by (rule at_site) (auto intro!: pred_bind_any set_imm_ok [where f = int_site] dest: int_site_ok)

lemma mutate_dict_const_ok: "prog_ok p \<Longrightarrow> pred_state (mut_ok (length p)) (mutate_dict_const p)"
  unfolding mutate_dict_const_def Let_def
  by (rule at_site) (auto intro!: pred_bind_any set_imm_ok [where f = dict_site] dest: dict_site_ok)

lemma toggle_flag_bit_ok: "prog_ok p \<Longrightarrow> pred_state (mut_ok (length p)) (toggle_flag_bit p)"
  unfolding toggle_flag_bit_def Let_def
  by (rule at_site) (auto split: arg_value.split intro!: pred_bind_any set_imm_ok [where f = flags_site]
      simp: mut_ok_def [of _ p] dest: flags_site_ok)

lemma resize_buffer_ok: "prog_ok p \<Longrightarrow> pred_state (mut_ok (length p)) (resize_buffer p)"
  unfolding resize_buffer_def Let_def
  by (rule at_site) (auto split: arg_value.split intro!: pred_bind_any set_imm_ok [where f = buffer_site]
      simp: mut_ok_def [of _ p] dest: buffer_site_ok)

section \<open>Re-rolling an argument\<close>

lemma mutate_one_arg_ok:
  assumes "prog_ok p" "i < length p" "j < length (tc_args (p ! i))" "length p \<le> 2 ^ 16"
  shows "pred_state (\<lambda>c. mut_ok (length p) (p[i := c]))
    (mutate_one_arg (p ! i) j (build_pool (take i p)))"
proof -
  let ?c = "p ! i" and ?ty = "sd_args (tc_desc (p ! i)) ! j" and ?pool = "build_pool (take i p)"
  note nth = prog_ok_nth [OF assms(1,2)]
  have j: "j < length (sd_args (tc_desc ?c))" using assms(3) nth(3) by simp
  have top: "top_ok (sd_args (tc_desc ?c)) j ?ty"
    using j desc_in_table [OF nth(4)] by (rule desc_ok_arg [rotated])
  have upd: "mut_ok (length p) (p[i := ?c\<lparr>tc_args := (tc_args ?c)[j := v]\<rparr>])"
    if "val_ok ?ty v" "arg_ok p i ?ty v" for v
    using set_arg_ok [OF assms(1,2) j that] by (simp add: mut_ok_def set_arg_def)
  have same: "mut_ok (length p) (p[i := ?c])" using assms(1) by (simp add: mut_ok_def)
  have res: "pred_state (ref_ok p i k) (pick_res_biased k ?pool anchors)" for k anchors
    using pick_res_biased_ok [OF prefix_pool_ok [OF assms(4)], of i k anchors] assms(2)
      ref_ok_prefix [of i p k] by (simp add: min_def cong: state.pred_cong)
  consider (len) n where "?ty = TLen n" | (res) k where "?ty = TRes k" | (inner) "inner_ok ?ty"
    "mutate_one_arg ?c j ?pool =
       do { v \<leftarrow> gen_arg_value ?ty ?pool; ret (?c\<lparr>tc_args := (tc_args ?c)[j := v]\<rparr>) }"
    using top by (cases ?ty) (auto simp: mutate_one_arg_def)
  then show ?thesis
  proof cases
    case len
    with upd same show ?thesis
      by (auto simp: mutate_one_arg_def desync_len_def intro!: pred_bind_any split: arg_value.split)
  next
    case (res k)
    with upd show ?thesis
      by (auto simp: mutate_one_arg_def intro!: pred_bind [OF \<open>\<And>k anchors. pred_state (ref_ok p i k) (pick_res_biased k ?pool anchors)\<close>])
  next
    case inner
    then show ?thesis
      using upd by (auto intro!: pred_bind [OF gen_value_ok(1)] simp: arg_ok_inner)
  qed
qed

lemma mutate_random_arg_ok:
  assumes "prog_ok p" "length p \<le> 2 ^ 16"
  shows "pred_state (mut_ok (length p)) (mutate_random_arg p)"
proof -
  let ?cands = "filter (\<lambda>i. tc_args (p ! i) \<noteq> []) [0 ..< length p]"
  have "pred_state (mut_ok (length p)) (do { j \<leftarrow> below (length (tc_args (p ! idx)));
        c \<leftarrow> mutate_one_arg (p ! idx) j (build_pool (take idx p)); ret (p[idx := c]) })"
    if "idx \<in> set ?cands" for idx
    by (rule pred_bind [OF pred_below], use that in simp, rule pred_bind [OF mutate_one_arg_ok])
      (use that assms in auto)
  moreover have "mut_ok (length p) p" using assms by (simp add: mut_ok_def)
  ultimately show ?thesis
    unfolding mutate_random_arg_def Let_def
    by (cases "?cands = []") (simp, simp only: if_False, rule pred_bind [OF pred_pick], assumption, blast)
qed

section \<open>Relocating calls\<close>

text \<open>
  A call keeps its references valid when it moves to index \<open>i'\<close> of a program \<open>q\<close>, if every reference
  becomes a seed or follows its producer.
\<close>

definition ref_moved :: "prog \<Rightarrow> nat \<Rightarrow> prog \<Rightarrow> nat \<Rightarrow> res_ref \<Rightarrow> res_ref \<Rightarrow> bool" where
  "ref_moved p i q i' rref rref' \<longleftrightarrow>
     (\<exists>s. rref' = Seed s) \<or>
     (\<exists>k k' slot. rref = Produced k slot \<and> rref' = Produced k' slot \<and>
        (unat k < i \<longrightarrow> unat k' < i' \<and>
           sd_produces (tc_desc (q ! unat k')) = sd_produces (tc_desc (p ! unat k))))"

lemma ref_ok_moved: "ref_ok p i want rref \<Longrightarrow> ref_moved p i q i' rref rref' \<Longrightarrow> ref_ok q i' want rref'"
  by (auto simp: ref_moved_def split: if_splits)

definition arg_moved :: "prog \<Rightarrow> nat \<Rightarrow> prog \<Rightarrow> nat \<Rightarrow> arg_type \<Rightarrow> arg_value \<Rightarrow> arg_value \<Rightarrow> bool" where
  "arg_moved p i q i' ty av av' \<longleftrightarrow>
     (val_ok ty av \<longrightarrow> val_ok ty av') \<and>
     (\<forall>k rref. ty = TRes k \<longrightarrow> av = VRes rref \<longrightarrow> (\<exists>rref'. av' = VRes rref' \<and> ref_moved p i q i' rref rref'))"

lemma arg_ok_moved: "arg_ok p i ty av \<Longrightarrow> arg_moved p i q i' ty av av' \<Longrightarrow> arg_ok q i' ty av'"
  by (cases ty) (auto simp: arg_moved_def ref_ok_moved split: arg_value.splits)

definition call_moved :: "prog \<Rightarrow> nat \<Rightarrow> prog \<Rightarrow> nat \<Rightarrow> typed_call \<Rightarrow> typed_call \<Rightarrow> bool" where
  "call_moved p i q i' c c' \<longleftrightarrow>
     tc_desc c' = tc_desc c \<and> length (tc_args c') = length (tc_args c) \<and>
     (\<forall>j < length (tc_args c). j < length (sd_args (tc_desc c)) \<longrightarrow>
        arg_moved p i q i' (sd_args (tc_desc c) ! j) (tc_args c ! j) (tc_args c' ! j))"

lemma call_moved_ok:
  assumes "call_moved p i q i' c c'" "args_threaded p i c" "shape_ok c"
  shows "args_threaded q i' c'" "shape_ok c'"
  using assms arg_ok_moved
  by (auto simp: call_moved_def args_threaded_def shape_ok_def list_all2_conv_all_nth arg_moved_def)

lemma prog_ok_moved:
  assumes "prog_ok p"
    "\<And>i'. i' < length q \<Longrightarrow> (args_threaded q i' (q ! i') \<and> shape_ok (q ! i')) \<or>
       (\<exists>i < length p. call_moved p i q i' (p ! i) (q ! i'))"
  shows "prog_ok q"
proof -
  have "args_threaded q i' (q ! i') \<and> shape_ok (q ! i')" if "i' < length q" for i'
    using assms(2) [OF that] prog_ok_nth [OF assms(1)] call_moved_ok by blast
  then show ?thesis by (auto simp: prog_ok_def is_well_formed_iff list_all_length)
qed

section \<open>Inserting a call\<close>

lemma length_insert_at [simp]: "length (insert_at pos x xs) = Suc (length xs)"
  by (simp add: insert_at_def)

lemma nth_insert_at:
  "pos \<le> length xs \<Longrightarrow> insert_at pos x xs ! i = (if i < pos then xs ! i else if i = pos then x else xs ! (i - 1))"
  by (auto simp: insert_at_def nth_append nth_Cons' min_def)

lemma tc_desc_map_args [simp]: "tc_desc (map_args f c) = tc_desc c"
  by (simp add: map_args_def)

lemma length_map_args [simp]: "length (tc_args (map_args f c)) = length (tc_args c)"
  by (simp add: map_args_def)

lemma nth_map_args:
  "j < length (tc_args c) \<Longrightarrow> j < length (sd_args (tc_desc c)) \<Longrightarrow>
    tc_args (map_args f c) ! j = f (sd_args (tc_desc c) ! j) (tc_args c ! j)"
  by (simp add: map_args_def nth_append)

lemma call_moved_map_args:
  assumes "\<And>ty av. arg_moved p i q i' ty av (f ty av)"
  shows "call_moved p i q i' c (map_args f c)"
  using assms by (simp add: call_moved_def nth_map_args)

lemma renumber_arg_insert_other: "\<forall>k. ty \<noteq> TRes k \<Longrightarrow> renumber_arg_insert pos ty av = av"
  by (cases ty) auto

lemma renumber_arg_insert_moved:
  assumes "\<And>k slot. unat k < i \<Longrightarrow>
      (let k' = (if pos \<le> unat k then k + 1 else (k :: u16))
       in unat k' < i' \<and> sd_produces (tc_desc (q ! unat k')) = sd_produces (tc_desc (p ! unat k)))"
  shows "arg_moved p i q i' ty av (renumber_arg_insert pos ty av)"
proof (cases "\<exists>k. ty = TRes k")
  case True
  then obtain k where "ty = TRes k" by blast
  moreover have "\<exists>rref'. renumber_arg_insert pos (TRes k) (VRes rref) = VRes rref' \<and> ref_moved p i q i' rref rref'"
    for rref
    using assms by (cases rref) (auto simp: ref_moved_def Let_def)
  moreover have "arg_moved p i q i' (TRes k) (VRes rref) (renumber_arg_insert pos (TRes k) (VRes rref))" for rref
    using calculation(2) [of rref] by (auto simp: arg_moved_def)
  ultimately show ?thesis by (cases av) (simp_all add: arg_moved_def)
next
  case False
  then show ?thesis by (auto simp: arg_moved_def renumber_arg_insert_other)
qed

lemma insert_at_ok:
  assumes "prog_ok p" "pos \<le> length p" "length p < 2 ^ 16"
    "args_good (take pos p) d args" "d \<in> set SYSCALLS"
  shows "prog_ok (insert_at pos \<lparr>tc_desc = d, tc_args = args\<rparr> (renumber_after_insert pos p))"
    (is "prog_ok ?q")
proof (rule prog_ok_moved [OF assms(1)])
  let ?c = "\<lparr>tc_desc = d, tc_args = args\<rparr>"
  have q: "?q ! i' = (if i' < pos then map_args (renumber_arg_insert pos) (p ! i') else if i' = pos then ?c
      else map_args (renumber_arg_insert pos) (p ! (i' - 1)))" if "i' < Suc (length p)" for i'
    using that assms(2) by (simp add: nth_insert_at renumber_after_insert_def)
  fix i' assume "i' < length ?q"
  then have i': "i' < Suc (length p)" by (simp add: renumber_after_insert_def)
  consider "i' < pos" | "i' = pos" | "pos < i'" by linarith
  then show "(args_threaded ?q i' (?q ! i') \<and> shape_ok (?q ! i')) \<or> (\<exists>i < length p. call_moved p i ?q i' (p ! i) (?q ! i'))"
  proof cases
    case 1
    have "call_moved p i' ?q i' (p ! i') (map_args (renumber_arg_insert pos) (p ! i'))"
      using 1 assms(2) q by (intro call_moved_map_args renumber_arg_insert_moved) (simp add: Let_def)
    then show ?thesis using 1 assms(2) q [OF i'] by auto
  next
    case 2
    have "args_threaded ?q pos ?c = args_threaded (take pos p) pos ?c"
      by (rule args_threaded_cong) (use q assms(2) in simp)
    then show ?thesis using args_good_call [OF assms(4,5)] 2 q [OF i'] assms(2) by (simp add: min_absorb2)
  next
    case 3
    have "call_moved p (i' - 1) ?q i' (p ! (i' - 1)) (map_args (renumber_arg_insert pos) (p ! (i' - 1)))"
    proof (intro call_moved_map_args renumber_arg_insert_moved)
      fix k :: u16 assume k: "unat k < i' - 1"
      have "unat (k + 1) = unat k + 1"
        using k i' assms(3) by (subst unat_add_lem [THEN iffD1]) auto
      then show "let k' = (if pos \<le> unat k then k + 1 else k)
          in unat k' < i' \<and> sd_produces (tc_desc (?q ! unat k')) = sd_produces (tc_desc (p ! unat k))"
        using k 3 i' q by (auto simp: Let_def)
    qed
    then show ?thesis using 3 i' q [OF i'] by (intro disjI2 exI [of _ "i' - 1"]) auto
  qed
qed

lemma insert_call_ok:
  assumes "prog_ok p" "length p < 2 ^ 16"
  shows "pred_state (mut_ok (Suc (length p))) (insert_call p)"
  unfolding insert_call_def
proof (rule pred_bind [OF pred_below], simp, rule pred_bind [OF pick_desc_biased_ok], rule pred_bind [OF generate_args_ok])
  show "pred_state (mut_ok (Suc (length p)))
      (ret (insert_at pos \<lparr>tc_desc = d, tc_args = args\<rparr> (renumber_after_insert pos p)))"
    if "pos < length p + 1" "d \<in> set SYSCALLS" "args_good (take pos p) d args" for pos d args
    using that assms insert_at_ok by (simp add: mut_ok_def) (simp add: renumber_after_insert_def)
qed (use assms desc_in_table in auto)

section \<open>Removing a call\<close>

lemma renumber_arg_remove_moved:
  assumes "\<And>k. unat (k :: u16) < i \<Longrightarrow> at < unat k \<Longrightarrow>
      unat (k - 1) < i' \<and> sd_produces (tc_desc (q ! unat (k - 1))) = sd_produces (tc_desc (p ! unat k))"
    and "\<And>k. unat (k :: u16) < i \<Longrightarrow> unat k < at \<Longrightarrow>
      unat k < i' \<and> sd_produces (tc_desc (q ! unat k)) = sd_produces (tc_desc (p ! unat k))"
  shows "pred_state (arg_moved p i q i' ty av) (renumber_arg_remove at ty av)"
proof (cases "\<exists>k rref. ty = TRes k \<and> av = VRes rref")
  case True
  then obtain k rref where eq: "ty = TRes k" "av = VRes rref" by blast
  have "pred_state (\<lambda>r. \<exists>s. r = Seed s) (pick_seed k)"
    by (auto simp: pick_seed_def Let_def intro!: pred_bind_any)
  then show ?thesis
    using assms unfolding eq
    by (cases rref) (auto simp: arg_moved_def ref_moved_def intro!: pred_bind)
next
  case False
  then have "renumber_arg_remove at ty av = ret av" by (cases ty; cases av) auto
  with False show ?thesis by (auto simp: arg_moved_def)
qed

lemma renumber_args_remove_rel:
  assumes "\<And>ty av. pred_state (R ty av) (renumber_arg_remove at ty av)"
  shows "pred_state (\<lambda>avs'. length avs' = length avs \<and>
      (\<forall>j < length avs. j < length atys \<longrightarrow> R (atys ! j) (avs ! j) (avs' ! j)))
    (renumber_args_remove at atys avs)"
proof (induction atys arbitrary: avs)
  case (Cons aty atys)
  show ?case
  proof (cases avs)
    case (Cons av avs')
    have "pred_state (\<lambda>ws. length ws = length avs \<and>
        (\<forall>j < length avs. j < length (aty # atys) \<longrightarrow> R ((aty # atys) ! j) (avs ! j) (ws ! j)))
      (do { vs \<leftarrow> renumber_args_remove at atys avs'; ret (v # vs) })" if "R aty av v" for v
      by (rule pred_bind [OF Cons.IH [of avs']]) (use that Cons in \<open>auto simp: nth_Cons' less_Suc_eq_0_disj\<close>)
    then show ?thesis
      unfolding Cons renumber_args_remove.simps by (intro pred_bind [OF assms [of aty av]])
  qed simp
qed simp

definition call_rel :: "(arg_type \<Rightarrow> arg_value \<Rightarrow> arg_value \<Rightarrow> bool) \<Rightarrow> typed_call \<Rightarrow> typed_call \<Rightarrow> bool" where
  "call_rel R c c' \<longleftrightarrow>
     tc_desc c' = tc_desc c \<and> length (tc_args c') = length (tc_args c) \<and>
     (\<forall>j < length (tc_args c). j < length (sd_args (tc_desc c)) \<longrightarrow>
        R (sd_args (tc_desc c) ! j) (tc_args c ! j) (tc_args c' ! j))"

lemma call_moved_rel: "call_moved p i q i' = call_rel (arg_moved p i q i')"
  by (simp add: call_moved_def call_rel_def fun_eq_iff)

lemma renumber_after_remove_rel:
  assumes "\<And>i ty av. i < length cs \<Longrightarrow> pred_state (R i ty av) (renumber_arg_remove at ty av)"
  shows "pred_state (\<lambda>cs'. length cs' = length cs \<and> (\<forall>i < length cs. call_rel (R i) (cs ! i) (cs' ! i)))
    (renumber_after_remove at cs)"
  using assms
proof (induction cs arbitrary: R)
  case (Cons c cs)
  show ?case
    unfolding renumber_after_remove.simps
  proof (rule pred_bind [OF renumber_args_remove_rel [of "R 0"]], simp add: Cons.prems)
    fix args assume args: "length args = length (tc_args c) \<and> (\<forall>j < length (tc_args c).
        j < length (sd_args (tc_desc c)) \<longrightarrow> R 0 (sd_args (tc_desc c) ! j) (tc_args c ! j) (args ! j))"
    have IH: "pred_state (\<lambda>cs'. length cs' = length cs \<and> (\<forall>i < length cs. call_rel (R (Suc i)) (cs ! i) (cs' ! i)))
        (renumber_after_remove at cs)"
      using Cons.prems by (intro Cons.IH [of "\<lambda>i. R (Suc i)"]) simp
    show "pred_state (\<lambda>cs'. length cs' = length (c # cs) \<and> (\<forall>i < length (c # cs). call_rel (R i) ((c # cs) ! i) (cs' ! i)))
        (do { cs' \<leftarrow> renumber_after_remove at cs; ret (c\<lparr>tc_args := args\<rparr> # cs') })"
      by (rule pred_bind [OF IH]) (use args in \<open>auto simp: nth_Cons' less_Suc_eq_0_disj call_rel_def\<close>)
  qed
qed simp

lemma length_remove_at [simp]: "idx < length xs \<Longrightarrow> length (remove_at idx xs) = length xs - 1"
  by (simp add: remove_at_def)

lemma nth_remove_at:
  "idx < length xs \<Longrightarrow> remove_at idx xs ! i = (if i < idx then xs ! i else xs ! Suc i)"
  by (simp add: remove_at_def nth_append min_def)

lemma ref_moved_cong:
  assumes "\<And>k. k < i' \<Longrightarrow> sd_produces (tc_desc (q ! k)) = sd_produces (tc_desc (r ! k))"
  shows "ref_moved p i q i' = ref_moved p i r i'"
  using assms by (auto simp: ref_moved_def fun_eq_iff)

lemma remove_call_ok:
  assumes "prog_ok p" "1 < length p" "length p \<le> 2 ^ 16"
  shows "pred_state (mut_ok (length p - 1)) (remove_call p)"
  unfolding remove_call_def
proof (rule pred_bind [OF pred_below])
  fix idx assume idx: "idx < length p"
  let ?r = "remove_at idx p"
  define orig where "orig = (\<lambda>i'. if i' < idx then i' else Suc i')"
  have orig: "?r ! i' = p ! orig i'" "i' < length p - 1 \<Longrightarrow> orig i' < length p" for i'
    using idx by (auto simp: nth_remove_at orig_def)
  have moved: "pred_state (arg_moved p (orig i') ?r i' ty av) (renumber_arg_remove idx ty av)"
    if "i' < length p - 1" for i' ty av
  proof (rule renumber_arg_remove_moved)
    fix k :: u16 assume k: "unat k < orig i'" "idx < unat k"
    then have "unat (k - 1) = unat k - 1" by (intro unat_minus_one) auto
    then show "unat (k - 1) < i' \<and> sd_produces (tc_desc (?r ! unat (k - 1))) = sd_produces (tc_desc (p ! unat k))"
      using k idx by (auto simp: nth_remove_at orig_def split: if_splits)
  qed (use idx in \<open>auto simp: nth_remove_at orig_def split: if_splits\<close>)
  have "pred_state (\<lambda>cs'. length cs' = length ?r \<and> (\<forall>i < length ?r. call_rel (arg_moved p (orig i) ?r i) (?r ! i) (cs' ! i)))
      (renumber_after_remove idx ?r)"
    by (rule renumber_after_remove_rel) (use moved idx in auto)
  then show "pred_state (mut_ok (length p - 1)) (renumber_after_remove idx ?r)"
  proof (rule pred_mono, unfold mut_ok_def, intro conjI)
    fix q assume q: "length q = length ?r \<and> (\<forall>i < length ?r. call_rel (arg_moved p (orig i) ?r i) (?r ! i) (q ! i))"
    then show "length q = length p - 1" using idx by simp
    have "arg_moved p (orig i') q i' = arg_moved p (orig i') ?r i'" if "i' < length q" for i'
    proof -
      have "ref_moved p (orig i') q i' = ref_moved p (orig i') ?r i'"
        using q that by (intro ref_moved_cong) (simp add: call_rel_def)
      then show ?thesis by (simp add: arg_moved_def fun_eq_iff)
    qed
    then have "call_moved p (orig i') q i' (p ! orig i') (q ! i')" if "i' < length q" for i'
      using q that unfolding call_moved_rel orig(1) [of i', symmetric] by metis
    moreover have "orig i' < length p" if "i' < length q" for i' using q that idx orig(2) by simp
    ultimately show "prog_ok q" by (intro prog_ok_moved [OF assms(1)]) blast
  qed
qed (use assms(2) in linarith)

section \<open>Wiring a fresh producer\<close>

lemma producer_slot:
  assumes "d \<in> set (producer_descs kind)"
  obtains s k where "find (makes_kind (sd_produces d) kind) (slots_of (sd_produces d)) = Some s"
    "kind_at (sd_produces d) s = Some k" "kind_compat kind k" "d \<in> set SYSCALLS"
proof -
  have d: "d \<in> set SYSCALLS" "list_ex (makes_kind (sd_produces d) kind) (slots_of (sd_produces d))"
    using assms by (auto simp: producer_descs_def)
  then obtain s where s: "find (makes_kind (sd_produces d) kind) (slots_of (sd_produces d)) = Some s"
    by (cases "find (makes_kind (sd_produces d) kind) (slots_of (sd_produces d))") (auto simp: find_None_iff list_ex_iff)
  then have "makes_kind (sd_produces d) kind s" by (auto simp: find_Some_iff)
  then show thesis using that [OF s] d(1) by (auto simp: makes_kind_def split: option.splits)
qed

lemma wire_fresh_ok:
  assumes "prog_ok p" "length p < 2 ^ 16" "(idx, j, kind) \<in> set (sites res_site p)" "producer_descs kind \<noteq> []"
  shows "pred_state (mut_ok (Suc (length p))) (wire_fresh p idx j kind)"
  unfolding wire_fresh_def Let_def
proof (rule pred_bind [OF pred_pick [OF assms(4)]], rule pred_bind [OF pred_below], simp, rule pred_bind [OF generate_args_ok])
  note s = in_sites [OF assms(3)]
  then have ty: "sd_args (tc_desc (p ! idx)) ! j = TRes kind"
    by (cases "sd_args (tc_desc (p ! idx)) ! j") auto
  fix d pos args assume d: "d \<in> set (producer_descs kind)" and pos: "pos < idx + 1"
  then show "desc_ok d" "length (take pos p) \<le> 2 ^ 16"
    using assms(2) desc_in_table by (auto simp: producer_descs_def)
  assume args: "args_good (take pos p) d args"
  from d obtain sl k where sl: "find (makes_kind (sd_produces d) kind) (slots_of (sd_produces d)) = Some sl"
    "kind_at (sd_produces d) sl = Some k" "kind_compat kind k" "d \<in> set SYSCALLS" by (rule producer_slot)
  let ?q = "insert_at pos \<lparr>tc_desc = d, tc_args = args\<rparr> (renumber_after_insert pos p)"
  have len: "length ?q = Suc (length p)" by (simp add: renumber_after_insert_def)
  have q: "prog_ok ?q" using assms s pos args sl by (intro insert_at_ok) auto
  have nth: "?q ! pos = \<lparr>tc_desc = d, tc_args = args\<rparr>" "tc_desc (?q ! (idx + 1)) = tc_desc (p ! idx)"
    using pos s(1) by (simp_all add: nth_insert_at renumber_after_insert_def)
  have "unat (of_nat pos :: u16) = pos" using pos s(1) assms(2) by (simp add: unat_of_nat take_bit_nat_eq_self)
  then have "ref_ok ?q (idx + 1) kind (Produced (of_nat pos) sl)" using pos nth(1) sl by simp
  then have "prog_ok (set_arg ?q (idx + 1) j (VRes (Produced (of_nat pos) sl)))"
    using q len nth s ty by (intro set_arg_ok) auto
  then show "pred_state (mut_ok (Suc (length p))) (ret (set_arg ?q (idx + 1) j (VRes (Produced (of_nat pos)
      (case find (makes_kind (sd_produces d) kind) (slots_of (sd_produces d)) of None \<Rightarrow> 0 | Some s \<Rightarrow> s)))))"
    using len by (simp add: mut_ok_def sl)
qed

lemma mut_ok_self: "prog_ok p \<Longrightarrow> mut_ok (length p) p"
  by (simp add: mut_ok_def)

lemma wire_producer_ok:
  assumes "gen_ok p"
  shows "pred_state gen_ok (wire_producer p)"
proof -
  have p: "prog_ok p" "length p \<le> 2 ^ 16" "length p < 2 ^ 16" using assms by (auto simp: gen_ok_def MAX_CALLS_def)
  have keep: "pred_state gen_ok m" if "pred_state (mut_ok (length p)) m" for m
    by (rule pred_mono [OF that]) (use assms in \<open>auto simp: gen_ok_def mut_ok_def\<close>)
  have grow: "pred_state gen_ok m" if "pred_state (mut_ok (Suc (length p))) m" "length p < MAX_CALLS" for m
    by (rule pred_mono [OF that(1)]) (use that(2) in \<open>auto simp: gen_ok_def mut_ok_def\<close>)
  have "pred_state gen_ok (let compatible = compatible_in (build_pool (take idx p)) kind in
        if compatible \<noteq> [] then do { e \<leftarrow> pick compatible; ret (set_arg p idx j (VRes (produced_ref e))) }
        else if MAX_CALLS \<le> length p then ret p
        else if producer_descs kind = [] then ret p
        else wire_fresh p idx j kind)" if s: "(idx, j, kind) \<in> set (sites res_site p)" for idx j kind
  proof -
    have "pred_state gen_ok (do { e \<leftarrow> pick comp; ret (set_arg p idx j (VRes (produced_ref e))) })"
      if "comp = compatible_in (build_pool (take idx p)) kind" "comp \<noteq> []" for comp
      by (intro keep pred_bind [OF pred_pick [OF that(2)]]) (use set_res_ok [OF p(1,2) s] that(1) in simp)
    moreover have "pred_state gen_ok (wire_fresh p idx j kind)" if "length p < MAX_CALLS" "producer_descs kind \<noteq> []"
      by (rule grow [OF wire_fresh_ok]) (use p s that in auto)
    ultimately show ?thesis using assms by (simp add: Let_def)
  qed
  then show ?thesis
    unfolding wire_producer_def Let_def
    using assms by (auto intro!: pred_bind [OF pred_pick] split: prod.splits)
qed

lemma mutate_op_ok:
  assumes "gen_ok p"
  shows "pred_state gen_ok (mutate_op sel p)"
proof -
  have p: "prog_ok p" "length p \<le> 2 ^ 16" "length p < 2 ^ 16" using assms by (auto simp: gen_ok_def MAX_CALLS_def)
  have keep: "pred_state (mut_ok (length p)) m \<Longrightarrow> pred_state gen_ok m" for m
    by (erule pred_mono) (use assms in \<open>auto simp: gen_ok_def mut_ok_def\<close>)
  have "pred_state gen_ok (insert_call p)" if "length p < MAX_CALLS"
    by (rule pred_mono [OF insert_call_ok [OF p(1,3)]]) (use that in \<open>auto simp: gen_ok_def mut_ok_def\<close>)
  moreover have "pred_state gen_ok (remove_call p)" if "1 < length p"
    by (rule pred_mono [OF remove_call_ok [OF p(1) that p(2)]]) (use that assms in \<open>auto simp: gen_ok_def mut_ok_def\<close>)
  ultimately show ?thesis
    using wire_producer_ok [OF assms] keep [OF mutate_random_arg_ok [OF p(1,2)]]
      keep [OF splice_resource_use_ok [OF p(1,2)]] keep [OF toggle_flag_bit_ok [OF p(1)]]
      keep [OF resize_buffer_ok [OF p(1)]] keep [OF mutate_interesting_int_ok [OF p(1)]]
      keep [OF mutate_dict_const_ok [OF p(1)]]
    by (simp add: mutate_op_def)
qed

lemma mutate_ok: "base = [] \<or> gen_ok base \<Longrightarrow> pred_state gen_ok (mutate base)"
  unfolding mutate_def
  by (intro pred_if generate_ok pred_bind_any [of gen_ok "\<lambda>sel. State_Monad.bind (mutate_op sel base) _"]
      pred_bind [OF mutate_op_ok]) (auto simp: generate_ok)

section \<open>The preamble\<close>

lemma find_fail_nth:
  "find_desc ''openat$fail_nth'' = Some sys_openat_fail_nth" "find_desc ''write$fail_nth'' = Some sys_write_fail_nth"
  by code_simp+

lemma fail_nth_shapes:
  "sys_openat_fail_nth \<in> set SYSCALLS" "sys_write_fail_nth \<in> set SYSCALLS"
  "sd_produces sys_openat_fail_nth = ProducesRet FD" "sd_args sys_write_fail_nth ! 0 = TRes FD"
  "0 < length (sd_args sys_write_fail_nth)"
  by (rule find_desc_in, rule find_fail_nth)+ (simp_all add: sys_openat_fail_nth_def sys_write_fail_nth_def)

lemma shift_val_ok:
  "val_ok ty av \<Longrightarrow> val_ok ty (shift_produced_call_idx n av)"
  "fields_ok flds vs \<Longrightarrow> fields_ok flds (map (shift_produced_call_idx n) vs)"
proof (induction ty av and flds vs rule: val_ok_fields_ok.induct)
  case (2 k av)
  then show ?case by (cases av; cases "case av of VRes r \<Rightarrow> r | _ \<Rightarrow> Seed 0") auto
qed (auto split: arg_value.splits list.splits)

lemma shift_call_moved:
  assumes "length p + 2 \<le> 2 ^ 16" "i < length p"
    "\<And>k. k < i \<Longrightarrow> sd_produces (tc_desc (q ! (k + 2))) = sd_produces (tc_desc (p ! k))"
  shows "call_moved p i q (i + 2) c (shift_call 2 c)"
proof -
  have "unat (k + 2 :: u16) = unat k + 2" if "unat k < i" for k
    using that assms by (subst unat_add_lem [THEN iffD1]) auto
  then have "ref_moved p i q (i + 2) (Produced k slot) (Produced (k + 2) slot)" for k slot
    using assms(3) by (auto simp: ref_moved_def)
  moreover have "ref_moved p i q (i + 2) (Seed s) (Seed s)" for s by (simp add: ref_moved_def)
  ultimately have "\<exists>rref'. shift_produced_call_idx 2 (VRes rref) = VRes rref' \<and> ref_moved p i q (i + 2) rref rref'" for rref
    by (cases rref) auto
  then show ?thesis by (auto simp: call_moved_def shift_call_def arg_moved_def shift_val_ok)
qed

lemma armed_ok:
  assumes "gen_ok p"
    and oc: "tc_desc oc = sys_openat_fail_nth" "args_good [] sys_openat_fail_nth (tc_args oc)"
    and wargs: "args_good [oc] sys_write_fail_nth wargs"
  shows "prog_ok (oc # \<lparr>tc_desc = sys_write_fail_nth, tc_args = wargs[0 := VRes (Produced 0 0)]\<rparr> # map (shift_call 2) p)"
    (is "prog_ok (oc # ?wc # ?rest)")
proof -
  let ?q = "oc # ?wc # ?rest"
  have p: "prog_ok p" "length p + 2 \<le> 2 ^ 16" using assms(1) by (auto simp: gen_ok_def MAX_CALLS_def)
  have oc1: "prog_ok [oc]" using prog_ok_generate [OF prog_ok_Nil oc fail_nth_shapes(1)] by simp
  have "prog_ok ([oc] @ [\<lparr>tc_desc = sys_write_fail_nth, tc_args = wargs\<rparr>])"
    by (rule prog_ok_generate [OF oc1, where d = sys_write_fail_nth]) (use wargs fail_nth_shapes in auto)
  then have two: "prog_ok [oc, ?wc]"
    using set_arg_ok [of "[oc, \<lparr>tc_desc = sys_write_fail_nth, tc_args = wargs\<rparr>]" 1 0 "VRes (Produced 0 0)"]
      fail_nth_shapes oc(1) kind_compat_fd by (simp add: set_arg_def)
  show ?thesis
  proof (rule prog_ok_moved [OF p(1)])
    fix i' assume i': "i' < length ?q"
    consider "i' < 2" | i where "i' = i + 2" "i < length p" using i' by (cases "i' < 2") (auto simp: not_less le_iff_add)
    then show "(args_threaded ?q i' (?q ! i') \<and> shape_ok (?q ! i')) \<or>
        (\<exists>i < length p. call_moved p i ?q i' (p ! i) (?q ! i'))"
    proof cases
      case 1
      have "args_threaded ?q i' c = args_threaded [oc, ?wc] i' c" for c
        by (rule args_threaded_cong) (use 1 in \<open>auto simp: less_2_cases_iff nth_Cons'\<close>)
      moreover have "?q ! i' = [oc, ?wc] ! i'" using 1 by (auto simp: less_2_cases_iff)
      ultimately show ?thesis using prog_ok_nth [OF two, of i'] 1 by simp
    next
      case 2
      have "call_moved p i ?q (i + 2) (p ! i) (shift_call 2 (p ! i))"
        by (rule shift_call_moved) (use p 2 in \<open>auto simp: shift_call_def\<close>)
      then show ?thesis using 2 by auto
    qed
  qed
qed

lemma prepend_fail_inject_ok:
  assumes "gen_ok p"
  shows "pred_state (\<lambda>q. \<exists>oc wc. q = Some (take MAX_CALLS (oc # wc # map (shift_call 2) p)) \<and>
      tc_desc oc = sys_openat_fail_nth \<and> tc_desc wc = sys_write_fail_nth \<and>
      tc_args wc ! 0 = VRes (Produced 0 0) \<and> gen_ok (take MAX_CALLS (oc # wc # map (shift_call 2) p)))
    (prepend_fail_inject p)"
  unfolding prepend_fail_inject_def find_fail_nth prod.case option.case Let_def
proof (rule pred_bind [OF generate_call_ok], rule fail_nth_shapes, simp, rule pred_bind [OF generate_args_ok])
  fix oc :: typed_call and wargs
  assume oc: "tc_desc oc = sys_openat_fail_nth \<and> args_good [] sys_openat_fail_nth (tc_args oc)"
    and w: "args_good [oc] sys_write_fail_nth wargs"
  let ?wc = "\<lparr>tc_desc = sys_write_fail_nth, tc_args = wargs[0 := VRes (Produced 0 0)]\<rparr>"
  have "prog_ok (take MAX_CALLS (oc # ?wc # map (shift_call 2) p))"
    by (rule prog_ok_take, rule armed_ok [OF assms _ _ w]) (use oc in auto)
  then have "gen_ok (take MAX_CALLS (oc # ?wc # map (shift_call 2) p))"
    by (simp add: gen_ok_def MAX_CALLS_def)
  moreover have "tc_args ?wc ! 0 = VRes (Produced 0 0)"
    using w fail_nth_shapes(5) by (simp add: args_good_def)
  ultimately show "pred_state (\<lambda>q. \<exists>oc wc. q = Some (take MAX_CALLS (oc # wc # map (shift_call 2) p)) \<and>
      tc_desc oc = sys_openat_fail_nth \<and> tc_desc wc = sys_write_fail_nth \<and>
      tc_args wc ! 0 = VRes (Produced 0 0) \<and> gen_ok (take MAX_CALLS (oc # wc # map (shift_call 2) p)))
    (ret (Some (take MAX_CALLS (oc # ?wc # map (shift_call 2) p))))"
    using oc unfolding pred_ret by (intro exI [of _ oc] exI [of _ ?wc]) simp
qed (use desc_in_table fail_nth_shapes in auto)

interpretation mutator: prog_operator mutate
  by unfold_locales (simp add: mutate_ok)

end
