(* ===== verification/Batch.thy ===== *)
theory Batch
  imports Mutate "HOL-Library.Product_Lexorder"
begin

text \<open>
  Mutation of leaf data only: \<open>crates/fs-prog/src/batch.rs\<close> (siblings of one parent that share its
  control-flow skeleton) and \<open>crates/fs-prog/src/cmplog.rs\<close> (substitution of logged comparison
  operands).  A path names a leaf below an argument; \<open>&mut\<close> access along a path is
  \<open>modify_at\<close>, the update of the value the path leads to.  The early exits of the scans are written
  out: a scan stops once its output has reached \<open>MAX_CANDIDATES\<close>.
\<close>

section \<open>Paths\<close>

datatype path_step = PtrInner | StructField nat

text \<open>A step that does not match its value leaves the cursor where it is, as in the code.\<close>

fun navigate :: "path_step list \<Rightarrow> arg_value \<Rightarrow> arg_value" where
  "navigate [] av = av"
| "navigate (PtrInner # path) (VPtr v) = navigate path v"
| "navigate (StructField i # path) (VStruct vs) = navigate path (vs ! i)"
| "navigate (step # path) av = navigate path av"

fun modify_at :: "path_step list \<Rightarrow> (arg_value \<Rightarrow> arg_value) \<Rightarrow> arg_value \<Rightarrow> arg_value" where
  "modify_at [] f av = f av"
| "modify_at (PtrInner # path) f (VPtr v) = VPtr (modify_at path f v)"
| "modify_at (StructField i # path) f (VStruct vs) = VStruct (vs[i := modify_at path f (vs ! i)])"
| "modify_at (step # path) f av = modify_at path f av"

definition modify_arg :: "prog \<Rightarrow> nat \<Rightarrow> nat \<Rightarrow> path_step list \<Rightarrow> (arg_value \<Rightarrow> arg_value) \<Rightarrow> prog" where
  "modify_arg p ci ai path f =
     p[ci := (p ! ci)\<lparr>tc_args := (tc_args (p ! ci))[ai := modify_at path f (tc_args (p ! ci) ! ai)]\<rparr>]"

section \<open>Leaves\<close>

datatype leaf_kind = LeafFlags "u32 list" bool | LeafConst | LeafInt u8 | LeafLen | LeafBytes

record leaf_site =
  ls_call :: nat
  ls_arg :: nat
  ls_path :: "path_step list"
  ls_kind :: leaf_kind
  ls_weight :: nat

fun collect_leaves_in_value :: "arg_type \<Rightarrow> arg_value \<Rightarrow> path_step list \<Rightarrow> (path_step list \<times> leaf_kind \<times> nat) list"
  and collect_leaves_in_fields :: "(string \<times> arg_type) list \<Rightarrow> arg_value list \<Rightarrow> nat \<Rightarrow> path_step list \<Rightarrow>
    (path_step list \<times> leaf_kind \<times> nat) list" where
  "collect_leaves_in_value (TRes k) av path = []"
| "collect_leaves_in_value (TFlags vals bitmask) av path =
     (case av of VImm v \<Rightarrow> [(path, LeafFlags vals bitmask, 30)] | _ \<Rightarrow> [])"
| "collect_leaves_in_value (TConst c) av path = (case av of VImm v \<Rightarrow> [(path, LeafConst, 15)] | _ \<Rightarrow> [])"
| "collect_leaves_in_value (TInt bits signd) av path = (case av of VImm v \<Rightarrow> [(path, LeafInt bits, 20)] | _ \<Rightarrow> [])"
| "collect_leaves_in_value (TLen n) av path = (case av of VImm v \<Rightarrow> [(path, LeafLen, 20)] | _ \<Rightarrow> [])"
| "collect_leaves_in_value (TBuffer l) av path = (case av of VBytes b \<Rightarrow> [(path, LeafBytes, 25)] | _ \<Rightarrow> [])"
| "collect_leaves_in_value (TStringConst ss) av path = (case av of VBytes b \<Rightarrow> [(path, LeafBytes, 25)] | _ \<Rightarrow> [])"
| "collect_leaves_in_value (TPtr d inner nullable) av path =
     (case av of VPtr pointee \<Rightarrow> collect_leaves_in_value inner pointee (path @ [PtrInner]) | _ \<Rightarrow> [])"
| "collect_leaves_in_value (TStruct flds) av path =
     (case av of VStruct vals \<Rightarrow> collect_leaves_in_fields flds vals 0 path | _ \<Rightarrow> [])"
| "collect_leaves_in_fields [] vals i path = []"
| "collect_leaves_in_fields ((name, ty) # fs) vals i path =
     (case vals of
        [] \<Rightarrow> []
      | v # vs \<Rightarrow> collect_leaves_in_value ty v (path @ [StructField i]) @ collect_leaves_in_fields fs vs (Suc i) path)"

definition collect_all_leaves :: "prog \<Rightarrow> leaf_site list" where
  "collect_all_leaves p =
     concat (map (\<lambda>(ci, c).
       concat (map (\<lambda>(ai, aty, av).
         map (\<lambda>(path, kind, weight).
             \<lparr>ls_call = ci, ls_arg = ai, ls_path = path, ls_kind = kind, ls_weight = weight\<rparr>)
           (collect_leaves_in_value aty av []))
         (enumerate 0 (zip (sd_args (tc_desc c)) (tc_args c))))) (enumerate 0 p))"

section \<open>Perturbing a leaf\<close>

definition reroll_flags :: "u32 list \<Rightarrow> bool \<Rightarrow> u64 gen" where
  "reroll_flags vals bitmask =
     (if vals = [] then ret 0
      else if \<not> bitmask then do { v \<leftarrow> pick vals; ret (ucast v) }
      else do { v \<leftarrow> fold_flags vals 0; ret (ucast v) })"

definition mutate_scalar_bits :: "u64 \<Rightarrow> u8 \<Rightarrow> u64 gen" where
  "mutate_scalar_bits v bits = do {
     sel \<leftarrow> below 4;
     nv \<leftarrow> (if sel = 0 then pick_interesting_int bits
            else if sel = 1 then do { d \<leftarrow> pick_dict_const; ret (ucast d) }
            else if sel = 2 then do { x \<leftarrow> rng_next; ret (v XOR push_bit (min (unat (x mod ucast (max bits 1))) 63) 1) }
            else next_u64);
     ret (mask_to_bits nv bits)
   }"

definition mutate_bytes :: "u8 list \<Rightarrow> u8 list gen" where
  "mutate_bytes b =
     (if b = [] then ret b
      else do {
        let head = min 4 (length b);
        header \<leftarrow> (if head < length b then chance 70 else ret False);
        idx \<leftarrow> (if header then below head else below (length b));
        sel \<leftarrow> below 3;
        if sel = 0 then do { x \<leftarrow> rng_next; ret (b[idx := ucast x]) }
        else if sel = 1 then ret (b[idx := b ! idx XOR 0xFF])
        else ret (b[idx := b ! idx + 1])
      })"

definition apply_leaf_mutation :: "leaf_kind \<Rightarrow> arg_value \<Rightarrow> arg_value gen" where
  "apply_leaf_mutation kind av =
     (case (kind, av) of
        (LeafFlags vals bitmask, VImm v) \<Rightarrow>
          if vals = [] then ret av
          else do {
            toggle \<leftarrow> chance 60;
            if toggle then do { bit \<leftarrow> pick vals; ret (VImm (v XOR ucast bit)) }
            else do { nv \<leftarrow> reroll_flags vals bitmask; ret (VImm nv) }
          }
      | (LeafConst, VImm v) \<Rightarrow> do { nv \<leftarrow> mutate_scalar_bits v 32; ret (VImm nv) }
      | (LeafLen, VImm v) \<Rightarrow> do { nv \<leftarrow> mutate_scalar_bits v 32; ret (VImm nv) }
      | (LeafInt bits, VImm v) \<Rightarrow> do { nv \<leftarrow> mutate_scalar_bits v bits; ret (VImm nv) }
      | (LeafBytes, VBytes b) \<Rightarrow> do { nb \<leftarrow> mutate_bytes b; ret (VBytes nb) }
      | _ \<Rightarrow> ret av)"

text \<open>The weighted choice: the first site the running remainder falls into, else the last.\<close>

fun weighted_index :: "nat list \<Rightarrow> nat \<Rightarrow> nat \<Rightarrow> nat option" where
  "weighted_index [] r i = None"
| "weighted_index (w # ws) r i = (if r < w then Some i else weighted_index ws (r - w) (Suc i))"

definition mutate_data_in_place :: "prog \<Rightarrow> prog gen" where
  "mutate_data_in_place p =
     (let leaf_sites = collect_all_leaves p in
      if leaf_sites = [] then ret p
      else do {
        r \<leftarrow> below (max (sum_list (map ls_weight leaf_sites)) 1);
        let chosen = (case weighted_index (map ls_weight leaf_sites) r 0 of
                        None \<Rightarrow> length leaf_sites - 1 | Some i \<Rightarrow> i);
        let s = leaf_sites ! chosen;
        let av = tc_args (p ! ls_call s) ! ls_arg s;
        leaf \<leftarrow> apply_leaf_mutation (ls_kind s) (navigate (ls_path s) av);
        ret (modify_arg p (ls_call s) (ls_arg s) (ls_path s) (\<lambda>_. leaf))
      })"

definition mutate_data :: "prog \<Rightarrow> prog gen" where
  "mutate_data base = mutate_data_in_place base"

fun data_rounds :: "nat \<Rightarrow> prog \<Rightarrow> prog gen" where
  "data_rounds 0 p = ret p"
| "data_rounds (Suc n) p = do { q \<leftarrow> mutate_data_in_place p; data_rounds n q }"

fun mutate_batch :: "prog \<Rightarrow> nat \<Rightarrow> prog list gen" where
  "mutate_batch parent 0 = ret []"
| "mutate_batch parent (Suc n) = do {
     k \<leftarrow> below 3;
     sibling \<leftarrow> data_rounds (1 + k) parent;
     rest \<leftarrow> mutate_batch parent n;
     ret (sibling # rest)
   }"

section \<open>Comparison-guided substitution\<close>

definition MAX_CANDIDATES :: nat where "MAX_CANDIDATES = 256"
definition MAX_UNIQUE_PAIRS :: nat where "MAX_UNIQUE_PAIRS = 128"
definition BUFFER_SCAN_CAP :: nat where "BUFFER_SCAN_CAP = 256"

datatype replacement = ReplImm u32 | ReplBytes nat "u8 list"

record candidate =
  ca_call :: nat
  ca_arg :: nat
  ca_path :: "path_step list"
  ca_repl :: replacement

fun collect_leaves :: "arg_type \<Rightarrow> arg_value \<Rightarrow> path_step list \<Rightarrow> (path_step list \<times> bool) list"
  and collect_field_leaves :: "(string \<times> arg_type) list \<Rightarrow> arg_value list \<Rightarrow> nat \<Rightarrow> path_step list \<Rightarrow>
    (path_step list \<times> bool) list" where
  "collect_leaves (TRes k) av path = []"
| "collect_leaves (TPtr d inner nullable) av path =
     (case av of VPtr pointee \<Rightarrow> collect_leaves inner pointee (path @ [PtrInner])
      | VImm v \<Rightarrow> [(path, False)] | VBytes b \<Rightarrow> [(path, True)] | _ \<Rightarrow> [])"
| "collect_leaves (TStruct flds) av path =
     (case av of VStruct vals \<Rightarrow> collect_field_leaves flds vals 0 path
      | VImm v \<Rightarrow> [(path, False)] | VBytes b \<Rightarrow> [(path, True)] | _ \<Rightarrow> [])"
| "collect_leaves ty av path =
     (case av of VImm v \<Rightarrow> [(path, False)] | VBytes b \<Rightarrow> [(path, True)] | _ \<Rightarrow> [])"
| "collect_field_leaves [] vals i path = []"
| "collect_field_leaves ((name, ty) # fs) vals i path =
     (case vals of
        [] \<Rightarrow> []
      | v # vs \<Rightarrow> collect_leaves ty v (path @ [StructField i]) @ collect_field_leaves fs vs (Suc i) path)"

definition near :: "u32 \<Rightarrow> u32 list" where
  "near x = [x, x + 1, x - 1]"

definition near_masked :: "u32 \<Rightarrow> u32 \<Rightarrow> u32 list" where
  "near_masked x msk = map (\<lambda>v. v AND msk) (near x)"

text \<open>
  The candidates one pair gives for a value \<open>cur\<close>: the neighbours of the other side, for each side
  that matches.
\<close>

definition pair_values :: "(u32 \<Rightarrow> u32 list) \<Rightarrow> u32 \<Rightarrow> u32 \<Rightarrow> u32 \<Rightarrow> u32 list" where
  "pair_values nbrs cur a b =
     (if cur = a \<and> b \<noteq> a then nbrs b else []) @ (if cur = b \<and> a \<noteq> b then nbrs a else [])"

fun scan_imm :: "(u32 \<Rightarrow> candidate) \<Rightarrow> u32 \<Rightarrow> (u32 \<times> u32) list \<Rightarrow> candidate list \<Rightarrow> candidate list" where
  "scan_imm mk v32 [] out = out"
| "scan_imm mk v32 ((a, b) # pairs) out =
     (let out' = out @ map mk (pair_values near v32 a b) in
      if MAX_CANDIDATES \<le> length out' then out' else scan_imm mk v32 pairs out')"

definition window_value :: "u8 list \<Rightarrow> nat \<Rightarrow> nat \<Rightarrow> u32" where
  "window_value buf off width = foldl (\<lambda>cur k. cur OR push_bit (8 * k) (ucast (buf ! (off + k)))) 0 [0 ..< width]"

definition scan_window :: "(nat \<Rightarrow> u8 list \<Rightarrow> candidate) \<Rightarrow> u8 list \<Rightarrow> nat \<Rightarrow> nat \<Rightarrow> (u32 \<times> u32) list \<Rightarrow> candidate list" where
  "scan_window mk buf width off pairs =
     (let msk = (if width = 4 then -1 else push_bit (8 * width) 1 - 1 :: u32);
          cur = window_value buf off width
      in concat (map (\<lambda>(a, b). map (\<lambda>v. mk off (take width (u32_to_le v)))
                   (pair_values (\<lambda>x. near_masked x msk) cur (a AND msk) (b AND msk))) pairs))"

fun scan_offsets :: "(nat \<Rightarrow> u8 list \<Rightarrow> candidate) \<Rightarrow> u8 list \<Rightarrow> nat \<Rightarrow> nat list \<Rightarrow> (u32 \<times> u32) list \<Rightarrow> candidate list \<Rightarrow>
    candidate list" where
  "scan_offsets mk buf width [] pairs out = out"
| "scan_offsets mk buf width (off # offs) pairs out =
     (let out' = out @ scan_window mk buf width off pairs in
      if MAX_CANDIDATES \<le> length out' then out' else scan_offsets mk buf width offs pairs out')"

fun scan_widths :: "(nat \<Rightarrow> u8 list \<Rightarrow> candidate) \<Rightarrow> u8 list \<Rightarrow> nat list \<Rightarrow> (u32 \<times> u32) list \<Rightarrow> candidate list \<Rightarrow> candidate list" where
  "scan_widths mk buf [] pairs out = out"
| "scan_widths mk buf (width # widths) pairs out =
     (let scan_len = min (length buf) BUFFER_SCAN_CAP in
      if scan_len < width then scan_widths mk buf widths pairs out
      else let out' = scan_offsets mk buf width [0 ..< Suc (scan_len - width)] pairs out in
           if MAX_CANDIDATES \<le> length out' then out' else scan_widths mk buf widths pairs out')"

definition scan_bytes :: "(nat \<Rightarrow> u8 list \<Rightarrow> candidate) \<Rightarrow> u8 list \<Rightarrow> (u32 \<times> u32) list \<Rightarrow> candidate list \<Rightarrow> candidate list" where
  "scan_bytes mk buf pairs out = scan_widths mk buf [4, 2, 1] pairs out"

definition mk_candidate :: "nat \<Rightarrow> nat \<Rightarrow> path_step list \<Rightarrow> replacement \<Rightarrow> candidate" where
  "mk_candidate ci ai path repl = \<lparr>ca_call = ci, ca_arg = ai, ca_path = path, ca_repl = repl\<rparr>"

definition scan_leaf :: "nat \<Rightarrow> nat \<Rightarrow> arg_value \<Rightarrow> (u32 \<times> u32) list \<Rightarrow> path_step list \<times> bool \<Rightarrow> candidate list \<Rightarrow> candidate list" where
  "scan_leaf ci ai av pairs leaf out =
     (case leaf of (path, is_bytes) \<Rightarrow>
        (case navigate path av of
           VBytes b \<Rightarrow> if is_bytes then scan_bytes (\<lambda>off bs. mk_candidate ci ai path (ReplBytes off bs)) b pairs out else out
         | VImm v \<Rightarrow> if is_bytes then out else scan_imm (\<lambda>x. mk_candidate ci ai path (ReplImm x)) (ucast v) pairs out
         | _ \<Rightarrow> out))"

text \<open>\<open>scan_sites\<close> is the labelled loop nest: it ends once the cap is reached.\<close>

fun scan_sites :: "(nat \<times> nat \<times> arg_value \<times> path_step list \<times> bool) list \<Rightarrow> (u32 \<times> u32) list \<Rightarrow> candidate list \<Rightarrow> candidate list" where
  "scan_sites [] pairs out = out"
| "scan_sites ((ci, ai, av, leaf) # rest) pairs out =
     (let out' = scan_leaf ci ai av pairs leaf out in
      if MAX_CANDIDATES \<le> length out' then out' else scan_sites rest pairs out')"

definition cmplog_sites :: "prog \<Rightarrow> (nat \<times> nat \<times> arg_value \<times> path_step list \<times> bool) list" where
  "cmplog_sites p =
     concat (map (\<lambda>(ci, c).
       concat (map (\<lambda>(ai, aty, av). map (\<lambda>leaf. (ci, ai, av, leaf)) (collect_leaves aty av []))
         (enumerate 0 (zip (sd_args (tc_desc c)) (tc_args c))))) (enumerate 0 p))"

fun apply_replacement :: "replacement \<Rightarrow> arg_value \<Rightarrow> arg_value" where
  "apply_replacement (ReplImm v) (VImm cur) = VImm (ucast v)"
| "apply_replacement (ReplBytes off bytes) (VBytes buf) =
     (let n = min (off + length bytes) (length buf) - off in VBytes (blit buf off (take n bytes)))"
| "apply_replacement repl av = av"

definition cmplog_apply :: "prog \<Rightarrow> candidate \<Rightarrow> prog" where
  "cmplog_apply p cand = modify_arg p (ca_call cand) (ca_arg cand) (ca_path cand) (apply_replacement (ca_repl cand))"

text \<open>Sorting and removing repeated neighbours of the pair list.\<close>

definition unique_pairs :: "(u32 \<times> u32) list \<Rightarrow> (u32 \<times> u32) list" where
  "unique_pairs pairs = take MAX_UNIQUE_PAIRS (remdups_adj (sort pairs))"

definition cmplog_candidates :: "prog \<Rightarrow> (u32 \<times> u32) list \<Rightarrow> candidate list" where
  "cmplog_candidates base pairs = scan_sites (cmplog_sites base) (unique_pairs pairs) []"

definition mutate_cmplog :: "prog \<Rightarrow> (u32 \<times> u32) list \<Rightarrow> prog option gen" where
  "mutate_cmplog base pairs =
     (if pairs = [] then ret None
      else
        let candidates = cmplog_candidates base pairs in
        if candidates = [] then ret None
        else do {
          idx \<leftarrow> below (length candidates);
          ret (Some (cmplog_apply base (candidates ! idx)))
        })"

section \<open>Skeletons\<close>

text \<open>
  The skeleton of a value: scalars and buffer contents are erased, everything that decides control
  flow and layout (references, NULL, buffer lengths, nesting) is kept.
\<close>

fun skel :: "arg_type \<Rightarrow> arg_value \<Rightarrow> arg_value"
  and skel_fields :: "(string \<times> arg_type) list \<Rightarrow> arg_value list \<Rightarrow> arg_value list" where
  "skel (TRes k) av = av"
| "skel (TConst c) av = (case av of VImm v \<Rightarrow> VImm 0 | _ \<Rightarrow> av)"
| "skel (TInt bits signd) av = (case av of VImm v \<Rightarrow> VImm 0 | _ \<Rightarrow> av)"
| "skel (TFlags vals bitmask) av = (case av of VImm v \<Rightarrow> VImm 0 | _ \<Rightarrow> av)"
| "skel (TLen n) av = (case av of VImm v \<Rightarrow> VImm 0 | _ \<Rightarrow> av)"
| "skel (TBuffer l) av = (case av of VBytes b \<Rightarrow> VBytes (replicate (length b) 0) | _ \<Rightarrow> av)"
| "skel (TStringConst ss) av = (case av of VBytes b \<Rightarrow> VBytes (replicate (length b) 0) | _ \<Rightarrow> av)"
| "skel (TPtr d inner nullable) av = (case av of VPtr v \<Rightarrow> VPtr (skel inner v) | _ \<Rightarrow> av)"
| "skel (TStruct flds) av = (case av of VStruct vs \<Rightarrow> VStruct (skel_fields flds vs) | _ \<Rightarrow> av)"
| "skel_fields [] vs = vs"
| "skel_fields ((name, ty) # fs) vs = (case vs of [] \<Rightarrow> [] | v # vs' \<Rightarrow> skel ty v # skel_fields fs vs')"

definition skel_call :: "typed_call \<Rightarrow> typed_call" where
  "skel_call c = c\<lparr>tc_args := map2 skel (sd_args (tc_desc c)) (tc_args c) @ drop (length (sd_args (tc_desc c))) (tc_args c)\<rparr>"

definition skeleton :: "prog \<Rightarrow> prog" where
  "skeleton p = map skel_call p"

text \<open>What may replace a leaf of a kind.\<close>

fun leaf_ok :: "leaf_kind \<Rightarrow> arg_value \<Rightarrow> arg_value \<Rightarrow> bool" where
  "leaf_ok LeafBytes (VBytes b) (VBytes b') = (length b' = length b)"
| "leaf_ok (LeafInt bits) (VImm v) (VImm v') = int_fits bits v'"
| "leaf_ok (LeafFlags vals bm) (VImm v) (VImm v') = True"
| "leaf_ok LeafConst (VImm v) (VImm v') = True"
| "leaf_ok LeafLen (VImm v) (VImm v') = True"
| "leaf_ok _ _ _ = False"

definition leaf_there :: "leaf_kind \<Rightarrow> arg_value \<Rightarrow> bool" where
  "leaf_there k av \<longleftrightarrow> (case av of VBytes b \<Rightarrow> k = LeafBytes | VImm v \<Rightarrow> k \<noteq> LeafBytes | _ \<Rightarrow> False)"

definition keeps_skel :: "arg_type \<Rightarrow> arg_value \<Rightarrow> arg_value \<Rightarrow> bool" where
  "keeps_skel ty av av' \<longleftrightarrow> skel ty av' = skel ty av \<and> (val_ok ty av \<longrightarrow> val_ok ty av')"

lemma leaf_cases:
  "(case av of VImm v \<Rightarrow> [x] | _ \<Rightarrow> []) = (if \<exists>v. av = VImm v then [x] else [])"
  "(case av of VBytes b \<Rightarrow> [x] | _ \<Rightarrow> []) = (if \<exists>b. av = VBytes b then [x] else [])"
  by (auto split: arg_value.splits)

lemma leaf_ok_imm:
  assumes "leaf_ok k (VImm v) leaf" obtains v' where "leaf = VImm v'" "\<And>bits. k = LeafInt bits \<Longrightarrow> int_fits bits v'"
  using assms by (cases k; cases leaf) auto

lemma leaf_ok_bytes:
  assumes "leaf_ok k (VBytes b) leaf" obtains b' where "leaf = VBytes b'" "length b' = length b"
  using assms by (cases k; cases leaf) auto

lemma leaves_keep_skel:
  "(path, k, wt) \<in> set (collect_leaves_in_value ty av pre) \<Longrightarrow>
    \<exists>path'. path = pre @ path' \<and> leaf_there k (navigate path' av) \<and>
      (\<forall>leaf. leaf_ok k (navigate path' av) leaf \<longrightarrow> keeps_skel ty av (modify_at path' (\<lambda>_. leaf) av))"
  "(path, k, wt) \<in> set (collect_leaves_in_fields flds vals i pre) \<Longrightarrow>
    \<exists>n path'. n < length vals \<and> path = pre @ StructField (i + n) # path' \<and>
      leaf_there k (navigate path' (vals ! n)) \<and>
      (\<forall>leaf. leaf_ok k (navigate path' (vals ! n)) leaf \<longrightarrow>
         skel_fields flds (vals[n := modify_at path' (\<lambda>_. leaf) (vals ! n)]) = skel_fields flds vals \<and>
         (fields_ok flds vals \<longrightarrow> fields_ok flds (vals[n := modify_at path' (\<lambda>_. leaf) (vals ! n)])))"
proof (induction ty av pre and flds vals i pre rule: collect_leaves_in_value_collect_leaves_in_fields.induct)
  case (8 d inner nullable av pre)
  then obtain v where av: "av = VPtr v" and "(path, k, wt) \<in> set (collect_leaves_in_value inner v (pre @ [PtrInner]))"
    by (auto split: arg_value.splits)
  with 8(1) obtain path' where "path = (pre @ [PtrInner]) @ path'" "leaf_there k (navigate path' v)"
    "\<forall>leaf. leaf_ok k (navigate path' v) leaf \<longrightarrow> keeps_skel inner v (modify_at path' (\<lambda>_. leaf) v)" by blast
  then show ?case
    unfolding av by (intro exI [of _ "PtrInner # path'"]) (auto simp: keeps_skel_def)
next
  case (9 flds av pre)
  then obtain vs where av: "av = VStruct vs" and "(path, k, wt) \<in> set (collect_leaves_in_fields flds vs 0 pre)"
    by (auto split: arg_value.splits)
  with 9(1) obtain n path' where "path = pre @ StructField n # path'" "leaf_there k (navigate path' (vs ! n))"
    "\<forall>leaf. leaf_ok k (navigate path' (vs ! n)) leaf \<longrightarrow>
       skel_fields flds (vs[n := modify_at path' (\<lambda>_. leaf) (vs ! n)]) = skel_fields flds vs \<and>
       (fields_ok flds vs \<longrightarrow> fields_ok flds (vs[n := modify_at path' (\<lambda>_. leaf) (vs ! n)]))" by fastforce
  then show ?case
    unfolding av by (intro exI [of _ "StructField n # path'"]) (auto simp: keeps_skel_def)
next
  case (11 name ty fs vals i pre)
  then obtain v vs where vals: "vals = v # vs" by (auto split: list.splits)
  with 11(3) consider "(path, k, wt) \<in> set (collect_leaves_in_value ty v (pre @ [StructField i]))"
    | "(path, k, wt) \<in> set (collect_leaves_in_fields fs vs (Suc i) pre)" by auto
  then show ?case
  proof cases
    case 1
    with 11(1) [OF vals] obtain path' where "path = (pre @ [StructField i]) @ path'" "leaf_there k (navigate path' v)"
      "\<forall>leaf. leaf_ok k (navigate path' v) leaf \<longrightarrow> keeps_skel ty v (modify_at path' (\<lambda>_. leaf) v)" by blast
    then show ?thesis
      unfolding vals by (intro exI [of _ 0] exI [of _ path']) (auto simp: keeps_skel_def)
  next
    case 2
    with 11(2) [OF vals] obtain n path' where "n < length vs" "path = pre @ StructField (Suc i + n) # path'"
      "leaf_there k (navigate path' (vs ! n))"
      "\<forall>leaf. leaf_ok k (navigate path' (vs ! n)) leaf \<longrightarrow>
         skel_fields fs (vs[n := modify_at path' (\<lambda>_. leaf) (vs ! n)]) = skel_fields fs vs \<and>
         (fields_ok fs vs \<longrightarrow> fields_ok fs (vs[n := modify_at path' (\<lambda>_. leaf) (vs ! n)]))" by blast
    then show ?thesis
      unfolding vals by (intro exI [of _ "Suc n"] exI [of _ path']) auto
  qed
qed (auto simp: leaf_cases keeps_skel_def leaf_there_def split: if_splits elim!: leaf_ok_imm leaf_ok_bytes)

lemma mutate_bytes_length: "pred_state (\<lambda>b'. length b' = length b) (mutate_bytes b)"
  by (auto simp: mutate_bytes_def Let_def intro!: pred_bind_any)

lemma apply_leaf_mutation_ok:
  assumes "leaf_there kind av"
  shows "pred_state (leaf_ok kind av) (apply_leaf_mutation kind av)"
proof -
  have *: "pred_state (int_fits bits) (mutate_scalar_bits v bits)" for v bits
    unfolding mutate_scalar_bits_def by (intro pred_bind_any) simp
  show ?thesis
    using assms by (cases kind; cases av)
      (auto simp: apply_leaf_mutation_def leaf_there_def intro!: pred_bind_any pred_bind [OF *]
        pred_bind [OF mutate_bytes_length])
qed

lemma in_collect_all_leaves:
  assumes "s \<in> set (collect_all_leaves p)"
  shows "ls_call s < length p" "ls_arg s < length (sd_args (tc_desc (p ! ls_call s)))"
    "ls_arg s < length (tc_args (p ! ls_call s))"
    "(ls_path s, ls_kind s, ls_weight s) \<in> set (collect_leaves_in_value
       (sd_args (tc_desc (p ! ls_call s)) ! ls_arg s) (tc_args (p ! ls_call s) ! ls_arg s) [])"
  using assms by (auto simp: collect_all_leaves_def enumerate_eq_zip set_zip)

lemma skel_arg_ok: "skel ty av' = skel ty av \<Longrightarrow> arg_ok p i ty av' = arg_ok p i ty av"
  by (cases ty) auto

lemma map2_update_same:
  "j < length xs \<Longrightarrow> j < length ys \<Longrightarrow> f (xs ! j) v = f (xs ! j) (ys ! j) \<Longrightarrow> map2 f xs (ys[j := v]) = map2 f xs ys"
  by (rule nth_equalityI) (auto simp: nth_list_update)

lemma skel_call_update:
  assumes "j < length (sd_args (tc_desc c))" "j < length (tc_args c)"
    "skel (sd_args (tc_desc c) ! j) v = skel (sd_args (tc_desc c) ! j) (tc_args c ! j)"
  shows "skel_call (c\<lparr>tc_args := (tc_args c)[j := v]\<rparr>) = skel_call c"
  using assms by (simp add: skel_call_def map2_update_same)

lemma modify_arg_ok:
  assumes "i < length p" "j < length (sd_args (tc_desc (p ! i)))" "j < length (tc_args (p ! i))"
    "keeps_skel (sd_args (tc_desc (p ! i)) ! j) (tc_args (p ! i) ! j) (modify_at path f (tc_args (p ! i) ! j))"
  shows "skeleton (modify_arg p i j path f) = skeleton p \<and> (prog_ok p \<longrightarrow> prog_ok (modify_arg p i j path f))"
proof
  let ?v = "modify_at path f (tc_args (p ! i) ! j)"
  have eq: "modify_arg p i j path f = set_arg p i j ?v" by (simp add: modify_arg_def set_arg_def)
  have "skel_call ((p ! i)\<lparr>tc_args := (tc_args (p ! i))[j := ?v]\<rparr>) = skel_call (p ! i)"
    using assms(4) unfolding keeps_skel_def by (intro skel_call_update assms(2,3)) (rule conjunct1)
  then show "skeleton (modify_arg p i j path f) = skeleton p"
    unfolding eq set_arg_def skeleton_def map_update using assms(1)
    by (simp only: list_update_same_conv length_map nth_map)
  show "prog_ok p \<longrightarrow> prog_ok (modify_arg p i j path f)"
  proof
    assume "prog_ok p"
    then have "val_ok (sd_args (tc_desc (p ! i)) ! j) (tc_args (p ! i) ! j)"
      "arg_ok p i (sd_args (tc_desc (p ! i)) ! j) (tc_args (p ! i) ! j)"
      using prog_ok_nth(1,2) [OF _ assms(1)] assms(2,3)
      unfolding shape_ok_def args_threaded_def list_all2_conv_all_nth by blast+
    then show "prog_ok (modify_arg p i j path f)"
      unfolding eq using assms(4) skel_arg_ok unfolding keeps_skel_def
      by (intro set_arg_ok [OF \<open>prog_ok p\<close> assms(1,2)]) blast+
  qed
qed

definition same_skeleton :: "prog \<Rightarrow> prog \<Rightarrow> bool" where
  "same_skeleton p q \<longleftrightarrow> skeleton q = skeleton p \<and> (prog_ok p \<longrightarrow> prog_ok q)"

lemma weighted_index_lt: "weighted_index ws r i = Some n \<Longrightarrow> n < i + length ws"
  by (induction ws r i rule: weighted_index.induct) (auto split: if_splits)

lemma mutate_data_in_place_ok: "pred_state (same_skeleton p) (mutate_data_in_place p)"
proof (cases "collect_all_leaves p = []")
  case True
  then show ?thesis by (simp add: mutate_data_in_place_def same_skeleton_def)
next
  case False
  have "pred_state (same_skeleton p) (do {
      leaf \<leftarrow> apply_leaf_mutation (ls_kind s) (navigate (ls_path s) (tc_args (p ! ls_call s) ! ls_arg s));
      ret (modify_arg p (ls_call s) (ls_arg s) (ls_path s) (\<lambda>_. leaf)) })"
    if s: "s \<in> set (collect_all_leaves p)" for s
  proof -
    note i = in_collect_all_leaves [OF s]
    from leaves_keep_skel(1) [OF i(4)]
    have there: "leaf_there (ls_kind s) (navigate (ls_path s) (tc_args (p ! ls_call s) ! ls_arg s))"
      and keep: "\<And>leaf. leaf_ok (ls_kind s) (navigate (ls_path s) (tc_args (p ! ls_call s) ! ls_arg s)) leaf \<Longrightarrow>
        keeps_skel (sd_args (tc_desc (p ! ls_call s)) ! ls_arg s) (tc_args (p ! ls_call s) ! ls_arg s)
          (modify_at (ls_path s) (\<lambda>_. leaf) (tc_args (p ! ls_call s) ! ls_arg s))" by auto
    show ?thesis
      by (rule pred_bind [OF apply_leaf_mutation_ok [OF there]])
        (use modify_arg_ok [OF i(1-3) keep] in \<open>simp add: same_skeleton_def\<close>)
  qed
  moreover have "collect_all_leaves p ! (case weighted_index (map ls_weight (collect_all_leaves p)) r 0 of
      None \<Rightarrow> length (collect_all_leaves p) - 1 | Some i \<Rightarrow> i) \<in> set (collect_all_leaves p)" for r
    using False weighted_index_lt [of "map ls_weight (collect_all_leaves p)" r 0] by (auto split: option.split)
  ultimately show ?thesis
    unfolding mutate_data_in_place_def Let_def by (simp add: False pred_bind_any)
qed

lemma same_skeleton_refl: "same_skeleton p p" and same_skeleton_trans:
  "same_skeleton p q \<Longrightarrow> same_skeleton q r \<Longrightarrow> same_skeleton p r"
  by (auto simp: same_skeleton_def)

lemma data_rounds_ok: "pred_state (same_skeleton p) (data_rounds n p)"
proof (induction n arbitrary: p)
  case (Suc n)
  show ?case
    unfolding data_rounds.simps
    by (rule pred_bind [OF mutate_data_in_place_ok], rule pred_mono [OF Suc]) (rule same_skeleton_trans)
qed (simp add: same_skeleton_refl)

lemma mutate_batch_ok:
  "pred_state (\<lambda>qs. length qs = n \<and> (\<forall>q \<in> set qs. same_skeleton p q)) (mutate_batch p n)"
proof (induction n)
  case (Suc n)
  have "pred_state (\<lambda>qs. length qs = Suc n \<and> (\<forall>q \<in> set qs. same_skeleton p q))
      (do { rest \<leftarrow> mutate_batch p n; ret (q # rest) })" if "same_skeleton p q" for q
    by (rule pred_bind [OF Suc]) (use that in simp)
  then show ?case
    unfolding mutate_batch.simps by - (rule pred_bind_any, rule pred_bind [OF data_rounds_ok])
qed simp

lemma skeleton_length: "skeleton q = skeleton p \<Longrightarrow> length q = length p"
  by (metis skeleton_def length_map)

interpretation data_mutator: prog_operator mutate_data
proof
  fix p assume "gen_ok p"
  then show "pred_state gen_ok (mutate_data p)"
    unfolding mutate_data_def
    by (intro pred_mono [OF mutate_data_in_place_ok]) (auto simp: gen_ok_def same_skeleton_def dest!: skeleton_length)
qed

section \<open>Comparison-guided mutation\<close>

fun erase :: "arg_value \<Rightarrow> arg_value" where
  "erase (VImm v) = VImm 0"
| "erase (VRes rref) = VRes rref"
| "erase (VBytes b) = VBytes (replicate (length b) 0)"
| "erase (VStruct vs) = VStruct (map erase vs)"
| "erase (VPtr v) = VPtr (erase v)"

definition erase_prog :: "prog \<Rightarrow> (syscall_desc \<times> arg_value list) list" where
  "erase_prog p = map (\<lambda>c. (tc_desc c, map erase (tc_args c))) p"

lemma erase_replacement: "erase (apply_replacement repl av) = erase av"
  by (induction repl av rule: apply_replacement.induct) (auto simp: Let_def blit_def)

lemma erase_modify_at: "(\<And>v. erase (f v) = erase v) \<Longrightarrow> erase (modify_at path f av) = erase av"
proof (induction path f av rule: modify_at.induct)
  case (3 i path f vs)
  then show ?case
    by (cases "i < length vs") (auto simp: map_update list_update_same_conv list_update_beyond)
qed auto

lemma erase_cmplog_apply: "erase_prog (cmplog_apply p cand) = erase_prog p"
proof -
  let ?c = "p ! ca_call cand"
  have "map erase ((tc_args ?c)[ca_arg cand := modify_at (ca_path cand) (apply_replacement (ca_repl cand)) (tc_args ?c ! ca_arg cand)])
      = map erase (tc_args ?c)"
    by (cases "ca_arg cand < length (tc_args ?c)")
      (simp_all add: map_update list_update_same_conv list_update_beyond erase_modify_at erase_replacement)
  then show ?thesis
    by (cases "ca_call cand < length p")
      (simp_all add: cmplog_apply_def modify_arg_def erase_prog_def map_update list_update_same_conv list_update_beyond)
qed

lemma erase_arg_ok: "erase av' = erase av \<Longrightarrow> arg_ok p i ty av' = arg_ok p i ty av"
  by (cases ty; cases av; cases av') auto

lemma erase_well_formed:
  assumes "erase_prog q = erase_prog p" "is_well_formed p"
  shows "is_well_formed q"
proof -
  have len: "length q = length p" using assms(1) by (metis erase_prog_def length_map)
  have nth: "tc_desc (q ! i) = tc_desc (p ! i)" "map erase (tc_args (q ! i)) = map erase (tc_args (p ! i))"
    if "i < length p" for i
  proof -
    have "erase_prog q ! i = erase_prog p ! i" using assms(1) by simp
    then show "tc_desc (q ! i) = tc_desc (p ! i)" "map erase (tc_args (q ! i)) = map erase (tc_args (p ! i))"
      using that len by (simp_all add: erase_prog_def)
  qed
  have "args_threaded q i (q ! i)" if i: "i < length p" for i
  proof -
    have "args_threaded q i (q ! i) = args_threaded p i (q ! i)"
      using i nth(1) by (intro args_threaded_cong) simp
    moreover have "arg_ok p i ty (tc_args (q ! i) ! j) = arg_ok p i ty (tc_args (p ! i) ! j)"
      if "j < length (tc_args (p ! i))" for ty j
      using that nth(2) [OF i] by (intro erase_arg_ok) (metis length_map nth_map)
    moreover have "length (tc_args (q ! i)) = length (tc_args (p ! i))" using nth(2) [OF i] by (metis length_map)
    ultimately show ?thesis
      using assms(2) i nth(1) [OF i] by (auto simp: is_well_formed_iff args_threaded_def list_all2_conv_all_nth)
  qed
  then show ?thesis by (simp add: is_well_formed_iff len)
qed

lemma mutate_cmplog_outcomes:
  "pred_state (\<lambda>q. if cmplog_candidates p pairs = [] \<or> pairs = [] then q = None
     else \<exists>cand \<in> set (cmplog_candidates p pairs). q = Some (cmplog_apply p cand)) (mutate_cmplog p pairs)"
  unfolding mutate_cmplog_def Let_def
  by (auto intro!: pred_bind [OF pred_below]) (metis nth_mem)

text \<open>The scans only add to their output, and add everything while the cap is not reached.\<close>

lemma scan_imm_complete:
  "length (scan_imm mk v pairs out) < MAX_CANDIDATES \<Longrightarrow>
    scan_imm mk v pairs out = out @ concat (map (\<lambda>(a, b). map mk (pair_values near v a b)) pairs)"
  by (induction mk v pairs out rule: scan_imm.induct) (auto simp: Let_def split: if_splits)

lemma scan_offsets_complete:
  "length (scan_offsets mk buf width offs pairs out) < MAX_CANDIDATES \<Longrightarrow>
    scan_offsets mk buf width offs pairs out = out @ concat (map (\<lambda>off. scan_window mk buf width off pairs) offs)"
  by (induction mk buf width offs pairs out rule: scan_offsets.induct) (auto simp: Let_def split: if_splits)

lemma scan_widths_complete:
  "length (scan_widths mk buf widths pairs out) < MAX_CANDIDATES \<Longrightarrow>
    scan_widths mk buf widths pairs out = out @ concat (map (\<lambda>width.
      if min (length buf) BUFFER_SCAN_CAP < width then []
      else concat (map (\<lambda>off. scan_window mk buf width off pairs) [0 ..< Suc (min (length buf) BUFFER_SCAN_CAP - width)])) widths)"
proof (induction mk buf widths pairs out rule: scan_widths.induct)
  case (2 mk buf width widths pairs out)
  then show ?case
    using scan_offsets_complete [of mk buf width "[0 ..< Suc (min (length buf) BUFFER_SCAN_CAP - width)]" pairs out]
    by (auto simp: Let_def simp del: upt_Suc split: if_splits)
qed simp

definition leaf_candidates :: "nat \<Rightarrow> nat \<Rightarrow> arg_value \<Rightarrow> (u32 \<times> u32) list \<Rightarrow> path_step list \<times> bool \<Rightarrow> candidate list" where
  "leaf_candidates ci ai av pairs leaf =
     (case leaf of (path, is_bytes) \<Rightarrow>
        (case navigate path av of
           VBytes b \<Rightarrow>
             if is_bytes then
               concat (map (\<lambda>width. if min (length b) BUFFER_SCAN_CAP < width then []
                 else concat (map (\<lambda>off. scan_window (\<lambda>off bs. mk_candidate ci ai path (ReplBytes off bs)) b width off pairs)
                        [0 ..< Suc (min (length b) BUFFER_SCAN_CAP - width)])) [4, 2, 1])
             else []
         | VImm v \<Rightarrow>
             if is_bytes then []
             else concat (map (\<lambda>(a, b). map (\<lambda>x. mk_candidate ci ai path (ReplImm x)) (pair_values near (ucast v) a b)) pairs)
         | _ \<Rightarrow> []))"

lemma scan_leaf_complete:
  "length (scan_leaf ci ai av pairs leaf out) < MAX_CANDIDATES \<Longrightarrow>
    scan_leaf ci ai av pairs leaf out = out @ leaf_candidates ci ai av pairs leaf"
  by (cases leaf; cases "snd leaf"; cases "navigate (fst leaf) av")
    (simp_all only: scan_leaf_def leaf_candidates_def scan_bytes_def prod.case arg_value.case if_True if_False
      fst_conv snd_conv append_Nil2, (erule scan_imm_complete scan_widths_complete)+)

lemma scan_sites_complete:
  "length (scan_sites ss pairs out) < MAX_CANDIDATES \<Longrightarrow>
    scan_sites ss pairs out = out @ concat (map (\<lambda>(ci, ai, av, leaf). leaf_candidates ci ai av pairs leaf) ss)"
proof (induction ss pairs out rule: scan_sites.induct)
  case (2 ci ai av leaf rest pairs out)
  have "length (scan_leaf ci ai av pairs leaf out) < MAX_CANDIDATES"
    using 2(2) by (auto simp: Let_def split: if_splits)
  with 2 scan_leaf_complete [OF this] show ?case by (simp add: Let_def)
qed simp

text \<open>The cap is tested after a group of additions, so it can be passed, by one group at most.\<close>

lemma pair_values_len: "(\<And>x. length (nbrs x) = 3) \<Longrightarrow> length (pair_values nbrs cur a b) \<le> 6"
  by (simp add: pair_values_def)

lemma scan_window_len: "length (scan_window mk buf width off pairs) \<le> 6 * length pairs"
proof -
  have "length (near_masked x m) = 3" for x m by (simp add: near_masked_def near_def)
  then show ?thesis
    unfolding scan_window_def Let_def
    by (induction pairs) (auto simp: pair_values_len intro!: add_mono)
qed

definition cap_ok :: "nat \<Rightarrow> 'a list \<Rightarrow> bool" where
  "cap_ok n xs \<longleftrightarrow> length xs < MAX_CANDIDATES + 6 * n"

lemma scan_imm_len: "length out < MAX_CANDIDATES \<Longrightarrow> length pairs \<le> n \<Longrightarrow> cap_ok n (scan_imm mk v pairs out)"
proof (induction mk v pairs out rule: scan_imm.induct)
  case (2 mk v32 a b pairs out)
  have "length (pair_values near v32 a b) \<le> 6" by (rule pair_values_len) (simp add: near_def)
  then show ?case using 2 by (auto simp: Let_def cap_ok_def)
qed (simp add: cap_ok_def)

lemma scan_offsets_len:
  "length out < MAX_CANDIDATES \<Longrightarrow> length pairs \<le> n \<Longrightarrow> cap_ok n (scan_offsets mk buf width offs pairs out)"
proof (induction mk buf width offs pairs out rule: scan_offsets.induct)
  case (2 mk buf width off offs pairs out)
  then show ?case using scan_window_len [of mk buf width off pairs] by (auto simp: Let_def cap_ok_def)
qed (simp add: cap_ok_def)

lemma scan_widths_len:
  "length out < MAX_CANDIDATES \<Longrightarrow> length pairs \<le> n \<Longrightarrow> cap_ok n (scan_widths mk buf widths pairs out)"
proof (induction mk buf widths pairs out rule: scan_widths.induct)
  case (2 mk buf width widths pairs out)
  then show ?case
    using scan_offsets_len [OF 2(3,4), of mk buf width "[0 ..< Suc (min (length buf) BUFFER_SCAN_CAP - width)]"]
    by (auto simp: Let_def simp del: upt_Suc)
qed (simp add: cap_ok_def)

lemma scan_sites_len:
  "length out < MAX_CANDIDATES \<Longrightarrow> length pairs \<le> n \<Longrightarrow> cap_ok n (scan_sites ss pairs out)"
proof (induction ss pairs out rule: scan_sites.induct)
  case (2 ci ai av leaf rest pairs out)
  have "cap_ok n (scan_leaf ci ai av pairs leaf out)"
    using 2(2,3) by (auto simp: scan_leaf_def scan_bytes_def scan_imm_len scan_widths_len cap_ok_def [of n out]
        simp del: scan_widths.simps split: prod.splits arg_value.splits)
  then show ?case using 2 by (auto simp: Let_def)
qed (simp add: cap_ok_def)

lemma cmplog_candidates_len: "length (cmplog_candidates p pairs) < MAX_CANDIDATES + 6 * MAX_UNIQUE_PAIRS"
  unfolding cmplog_candidates_def
  by (rule scan_sites_len [unfolded cap_ok_def]) (auto simp: unique_pairs_def MAX_CANDIDATES_def)

end
