(* ===== verification/Lower_Results.thy ===== *)
theory Lower_Results
  imports Batch
begin

text \<open>
  What lowering promises.  Layout: alignments are powers of two, writes to the scratch region never
  overlap and end below its capacity.  Serialisation: a value takes as many bytes as its layout says.
  Lowering: \<open>arg_lowered\<close> says what the guest finds at an argument, \<open>expected_fixups\<close> which words the
  guest agent has to patch.  The wire buffer: \<open>from_wire\<close> is the reader the layout comment of
  \<open>to_wire\<close> describes.  Siblings with one skeleton lower to the same layout.
\<close>

section \<open>Layout\<close>

abbreviation aligns :: "u32 set" where "aligns \<equiv> {1, 2, 4, 8}"

lemma max_aligns: "a \<in> aligns \<Longrightarrow> b \<in> aligns \<Longrightarrow> max a b \<in> aligns"
  by (auto simp: max_def)

lemma value_align:
  "snd (value_size_align ty v) \<in> aligns"
  "m \<in> aligns \<Longrightarrow> snd (snd (struct_fields flds vs off offs m)) \<in> aligns"
proof (induction ty v and flds vs off offs m rule: value_size_align_struct_fields.induct)
  case (2 bits signd v)
  then show ?case by (simp add: int_align_def)
next
  case (12 name ty fs v vs off offsets max_align)
  have "snd (value_size_align ty v) \<in> aligns" by (rule 12(1))
  then have "max max_align (max (snd (value_size_align ty v)) 1) \<in> aligns"
    by (intro max_aligns 12) simp
  with 12(2) show ?case by (auto simp: Let_def split: prod.splits)
next
  case (9 flds val)
  show ?case
  proof (cases val)
    case (VStruct vals)
    have "snd (snd (struct_fields flds vals 0 [] 1)) \<in> aligns" by (rule 9 [OF VStruct]) simp
    then show ?thesis unfolding VStruct by (auto split: prod.split)
  qed simp_all
qed (simp_all split: arg_value.split)

lemma unat_aligns: "a \<in> aligns \<Longrightarrow> unat a \<in> {1, 2, 4, 8}"
  by auto

lemma round_up_unat:
  assumes "a \<in> aligns" "unat x + 8 \<le> 2 ^ 32"
  shows "unat x \<le> unat (round_up x a)" "unat (round_up x a) < unat x + unat a" "unat a dvd unat (round_up x a)"
proof -
  let ?q = "unat x div unat a + (if 0 < unat x mod unat a then 1 else 0)"
  have a: "0 < unat a" "unat a \<le> 8" "max a 1 = a" using assms(1) by (auto simp: max_def word_le_nat_alt)
  have "unat x div unat a * unat a + unat x mod unat a = unat x" "unat x mod unat a < unat a"
    using mod_less_divisor [OF a(1)] by (simp_all add: div_mult_mod_eq)
  then have b: "unat x \<le> ?q * unat a" "?q * unat a < unat x + unat a"
    unfolding distrib_right by (cases "0 < unat x mod unat a", simp_all del: div_mult_mod_eq, linarith+)
  have "x mod a > 0 \<longleftrightarrow> 0 < unat x mod unat a"
    by (metis unat_gt_0 unat_mod_distrib word_neq_0_conv)
  then have "round_up x a = of_nat (?q * unat a)"
    by (simp add: round_up_def Let_def a(3) word_arith_nat_div)
  moreover have "?q * unat a < 4294967296" using b(2) assms(2) a(2) by simp
  ultimately have "unat (round_up x a) = ?q * unat a"
    using unat_of_nat_u32 by metis
  then show "unat x \<le> unat (round_up x a)" "unat (round_up x a) < unat x + unat a" "unat a dvd unat (round_up x a)"
    using b by auto
qed

section \<open>The scratch writer\<close>

definition w_ok :: "scratch_writer \<Rightarrow> bool" where
  "w_ok w \<longleftrightarrow> length (sw_bytes w) = unat (sw_cursor w) \<and> sw_cursor w \<le> sw_cap w \<and> unat (sw_cap w) + 8 \<le> 2 ^ 32"

definition grows :: "scratch_writer \<Rightarrow> scratch_writer \<Rightarrow> bool" where
  "grows w w' \<longleftrightarrow> w_ok w' \<and> sw_cap w' = sw_cap w \<and> (\<exists>ext. sw_bytes w' = sw_bytes w @ ext)"

lemma grows_refl: "w_ok w \<Longrightarrow> grows w w"
  by (simp add: grows_def)

lemma grows_trans: "grows w w' \<Longrightarrow> grows w' w'' \<Longrightarrow> grows w w''"
  by (auto simp: grows_def)

lemma grows_ok: "grows w w' \<Longrightarrow> w_ok w'"
  by (simp add: grows_def)

text \<open>Where a write lands: at an aligned offset after everything before, or nowhere when full.\<close>

definition written :: "u8 list \<Rightarrow> u32 \<Rightarrow> u32 \<Rightarrow> u32 \<Rightarrow> u8 list \<Rightarrow> bool" where
  "written S cap align off bs \<longleftrightarrow>
     off \<le> cap \<and>
     (unat off + length bs \<le> unat cap \<longrightarrow> off < cap \<longrightarrow>
        unat align dvd unat off \<and> unat off + length bs \<le> length S \<and> take (length bs) (drop (unat off) S) = bs)"

lemma written_extend: "written S cap align off bs \<Longrightarrow> written (S @ ext) cap align off bs"
  by (auto simp: written_def)

lemma scratch_write_ok:
  assumes "w_ok w" "align \<in> aligns" "scratch_write w data align = (off, w')"
  shows "grows w w'" "written (sw_bytes w') (sw_cap w) align off data"
proof -
  let ?off = "round_up (sw_cursor w) align"
  have c: "unat (sw_cursor w) + 8 \<le> 2 ^ 32" using assms(1) by (simp add: w_ok_def word_le_nat_alt)
  note r = round_up_unat [OF assms(2) c]
  have "grows w w' \<and> written (sw_bytes w') (sw_cap w) align off data"
  proof (cases "sw_cap w \<le> ?off")
    case True
    then show ?thesis using assms by (auto simp: scratch_write_def Let_def grows_def written_def)
  next
    case False
    define n where "n = min (length data) (unat (sw_cap w - ?off))"
    define pad where "pad = replicate (unat ?off - length (sw_bytes w)) (0 :: u8)"
    have lt: "unat ?off < unat (sw_cap w)" using False by (simp add: word_le_nat_alt)
    have room: "unat (sw_cap w - ?off) = unat (sw_cap w) - unat ?off"
      using False by (intro unat_sub) simp
    have len: "length (sw_bytes w) = unat (sw_cursor w)" using assms(1) by (simp add: w_ok_def)
    have cap: "unat (sw_cap w) + 8 \<le> 2 ^ 32" using assms(1) by (simp add: w_ok_def)
    have "(of_nat (length (sw_bytes w)) :: u32) = sw_cursor w" by (simp add: len)
    then have bytes: "(if (of_nat (length (sw_bytes w)) :: u32) < ?off then sw_bytes w @ pad else sw_bytes w)
        = sw_bytes w @ pad"
      using len r(1) by (auto simp: pad_def word_less_nat_alt)
    have res: "off = ?off" "w' = w\<lparr>sw_bytes := (sw_bytes w @ pad) @ take n data, sw_cursor := ?off + of_nat n\<rparr>"
      using assms(3) False bytes by (auto simp: scratch_write_def Let_def n_def pad_def)
    have plen: "length (sw_bytes w @ pad) = unat ?off" using len r(1) by (simp add: pad_def)
    have n: "unat ?off + n \<le> unat (sw_cap w)" "n \<le> length data" using room lt by (auto simp: n_def)
    have "unat (?off + of_nat n) = unat ?off + n"
      using n cap by (subst unat_add_lem [THEN iffD1]) (auto simp: unat_of_nat take_bit_nat_eq_self)
    then have "w_ok w'" using plen n cap by (simp add: res w_ok_def word_le_nat_alt min_absorb2)
    then have "grows w w'" by (simp add: grows_def res)
    moreover have "written (sw_bytes w') (sw_cap w) align off data"
      unfolding written_def
    proof (intro conjI impI)
      show "off \<le> sw_cap w" using False res by simp
      assume fit: "unat off + length data \<le> unat (sw_cap w)"
      then have "n = length data" using room res by (simp add: n_def)
      then show "unat off + length data \<le> length (sw_bytes w')"
        "take (length data) (drop (unat off) (sw_bytes w')) = data"
        using plen by (auto simp: res)
      show "unat align dvd unat off" using r(3) res by simp
    qed
    ultimately show ?thesis ..
  qed
  then show "grows w w'" "written (sw_bytes w') (sw_cap w) align off data" by auto
qed

lemma build_grows:
  "w_ok w \<Longrightarrow> grows w (snd (build_bytes w va ty v))"
  "w_ok w \<Longrightarrow> grows w (snd (build_fields w va flds vs offs buf))"
proof (induction w va ty v and w va flds vs offs buf rule: build_bytes_build_fields.induct)
  case (8 w va d inner nullable val)
  show ?case
  proof (cases val)
    case (VPtr pointee)
    obtain bytes w1 where b: "build_bytes w va inner pointee = (bytes, w1)" by fastforce
    obtain off w2 where s: "scratch_write w1 bytes (snd (value_size_align inner pointee)) = (off, w2)" by fastforce
    have "grows w w1" using 8 b VPtr by simp
    moreover have "grows w1 w2" using scratch_write_ok(1) [OF grows_ok [OF calculation] value_align(1) s] .
    ultimately show ?thesis using b s VPtr by (auto intro: grows_trans)
  qed (use 8 in \<open>auto simp: grows_refl\<close>)
next
  case (10 w va name ty fs v vs off offs buf)
  obtain fb w1 where b: "build_bytes w va ty v = (fb, w1)" by fastforce
  have "grows w w1" using 10(1,3) b by simp
  moreover have "grows w1 (snd (build_fields w1 va fs vs offs (place_field buf (unat off) fb)))"
    using 10(2) b grows_ok [OF calculation] by simp
  ultimately show ?case using b by (auto intro: grows_trans)
qed (auto simp: grows_refl split: prod.splits arg_value.splits res_ref.splits)

section \<open>Sizes\<close>

lemma length_place_field [simp]: "length (place_field buf off fb) = length buf"
  by (cases "off \<le> length buf") (simp_all add: place_field_def Let_def)

lemma length_build_fields: "length (fst (build_fields w va flds vs offs buf)) = length buf"
proof (induction flds arbitrary: w vs offs buf)
  case (Cons f fs)
  then show ?case by (cases f; cases vs; cases offs) (auto split: prod.split)
qed simp

lemma length_u64_to_le [simp]: "length (u64_to_le v) = 8"
  by (simp add: u64_to_le_def)

text \<open>The number of bytes a value serialises to is the size that lengths are computed from.\<close>

lemma build_bytes_size:
  assumes "inner_ok ty" "val_ok ty v"
  shows "of_nat (length (fst (build_bytes w va ty v))) = fst (value_size_align ty v)"
proof (cases ty)
  case (TInt bits signd)
  with assms show ?thesis by (auto simp: int_bytes_def max_def split: arg_value.splits)
next
  case (TStruct flds)
  with assms show ?thesis
    by (auto simp: struct_layout_def length_build_fields split: arg_value.splits prod.splits)
qed (use assms in \<open>auto split: arg_value.splits prod.splits\<close>)

section \<open>Lowering the arguments of a call\<close>

text \<open>What the guest finds at a lowered argument, given the final scratch image.\<close>

definition arg_lowered :: "u32 \<Rightarrow> u32 \<Rightarrow> u8 list \<Rightarrow> arg_type \<Rightarrow> arg_value \<Rightarrow> u32 \<Rightarrow> bool" where
  "arg_lowered va cap S ty val x \<longleftrightarrow>
     (case val of
        VImm v \<Rightarrow> x = ucast v
      | VRes rref \<Rightarrow> (case ty of TRes k \<Rightarrow> x = (case rref of Seed s \<Rightarrow> ucast s | _ \<Rightarrow> 0) | _ \<Rightarrow> x = 0)
      | VPtr v \<Rightarrow>
          (case ty of
             TPtr d inner nullable \<Rightarrow>
               (\<exists>w. w_ok w \<and> written S cap (snd (value_size_align inner v)) (x - va) (fst (build_bytes w va inner v)))
           | _ \<Rightarrow> x = 0)
      | _ \<Rightarrow> x = 0)"

lemma arg_lowered_extend: "arg_lowered va cap S ty val x \<Longrightarrow> arg_lowered va cap (S @ ext) ty val x"
  by (auto simp: arg_lowered_def split: arg_value.splits arg_type.splits intro: written_extend)

definition st_grows :: "nat \<Rightarrow> lower_state \<Rightarrow> lower_state \<Rightarrow> bool" where
  "st_grows i st st' \<longleftrightarrow>
     grows (ls_w st) (ls_w st') \<and> length (ls_out st') = length (ls_out st) \<and>
     (\<forall>k. k \<noteq> i \<longrightarrow> ls_out st' ! k = ls_out st ! k)"

lemma st_grows_refl: "w_ok (ls_w st) \<Longrightarrow> st_grows i st st"
  by (simp add: st_grows_def grows_refl)

lemma st_grows_trans: "st_grows i st st' \<Longrightarrow> st_grows i st' st'' \<Longrightarrow> st_grows i st st''"
  by (auto simp: st_grows_def intro: grows_trans)

lemma serialize_into_ok:
  assumes "w_ok w" "serialize_into w va ty v = (off, w')"
  shows "grows w w'" "\<exists>w0. w_ok w0 \<and> written (sw_bytes w') (sw_cap w) (snd (value_size_align ty v)) off (fst (build_bytes w0 va ty v))"
proof -
  obtain bs w1 where b: "build_bytes w va ty v = (bs, w1)" by fastforce
  then have s: "scratch_write w1 bs (snd (value_size_align ty v)) = (off, w')"
    using assms(2) by (simp add: serialize_into_def)
  have g: "grows w w1" using build_grows(1) [OF assms(1), of va ty v] b by simp
  note ok = scratch_write_ok [OF grows_ok [OF g] value_align(1) s]
  show "grows w w'" using g ok(1) by (rule grows_trans)
  show "\<exists>w0. w_ok w0 \<and> written (sw_bytes w') (sw_cap w) (snd (value_size_align ty v)) off (fst (build_bytes w0 va ty v))"
    using ok(2) g assms(1) b by (intro exI [of _ w]) (simp add: grows_def)
qed

definition arg_fixups :: "prog \<Rightarrow> u32 option list \<Rightarrow> nat \<Rightarrow> nat \<Rightarrow> arg_type \<times> arg_value \<Rightarrow> fixup list" where
  "arg_fixups p out i j x =
     (case x of
        (TRes k, VRes (Produced call_idx slot)) \<Rightarrow>
          [\<lparr>dst_call = of_nat i, dst_arg = of_nat j, source_call_index = call_idx, source_slot = slot,
            fix_src = fixup_source p out call_idx slot\<rparr>]
      | _ \<Rightarrow> [])"

lemma lower_arg_ok:
  assumes "w_ok (ls_w st)" "lower_arg p va i produced j ty val st = (x, st')"
  shows "st_grows i st st'" "arg_lowered va (sw_cap (ls_w st)) (sw_bytes (ls_w st')) ty val x"
    "ls_fixups st' = ls_fixups st @ arg_fixups p (ls_out st) i j (ty, val)"
proof -
  have *: "st_grows i st st' \<and> arg_lowered va (sw_cap (ls_w st)) (sw_bytes (ls_w st')) ty val x \<and>
    ls_fixups st' = ls_fixups st @ arg_fixups p (ls_out st) i j (ty, val)"
  proof (cases "\<exists>d inner nl v. ty = TPtr d inner nl \<and> val = VPtr v")
    case True
    then obtain d inner nl v where eq: "ty = TPtr d inner nl" "val = VPtr v" by blast
    obtain off w1 where s: "serialize_into (ls_w st) va inner v = (off, w1)" by fastforce
    from assms(2) s have "x = va + off" "ls_w st' = w1" "ls_fixups st' = ls_fixups st"
      "length (ls_out st') = length (ls_out st)" "\<forall>k. k \<noteq> i \<longrightarrow> ls_out st' ! k = ls_out st ! k"
      by (auto simp: lower_arg_def eq split: produces.splits)
    with serialize_into_ok [OF assms(1) s] show ?thesis
      by (auto simp: st_grows_def arg_lowered_def arg_fixups_def eq)
  next
    case False
    with assms show ?thesis
      by (cases ty; cases val)
        (auto simp: lower_arg_def st_grows_def grows_refl arg_lowered_def arg_fixups_def split: res_ref.splits)
  qed
  then show "st_grows i st st'" "arg_lowered va (sw_cap (ls_w st)) (sw_bytes (ls_w st')) ty val x"
    "ls_fixups st' = ls_fixups st @ arg_fixups p (ls_out st) i j (ty, val)" by auto
qed

lemma lower_arg_out:
  assumes "lower_arg p va i (OutArray ai kd n) j (TPtr d inner nl) (VPtr v) st = (x, st')" "j = unat ai"
    "i < length (ls_out st)"
  shows "ls_out st' ! i = Some (x - va)"
  using assms by (auto simp: lower_arg_def split: prod.splits)

lemma lower_arg_out_other:
  assumes "lower_arg p va i produced j ty val st = (x, st')" "\<forall>ai kd n. produced = OutArray ai kd n \<longrightarrow> unat ai \<noteq> j"
  shows "ls_out st' = ls_out st"
  using assms by (auto simp: lower_arg_def split: prod.splits arg_value.splits arg_type.splits res_ref.splits produces.splits)

text \<open>
  A whole call: the arguments end as \<open>arg_lowered\<close> says, the fixups are those of its references
  (resolved against the out-arrays of earlier calls), and its own out-array is recorded.
\<close>

lemma fixup_source_cong:
  "(unat k < length p \<Longrightarrow> out ! unat k = out' ! unat k) \<Longrightarrow> fixup_source p out k s = fixup_source p out' k s"
  by (auto simp: fixup_source_def Let_def split: produces.split)

definition refs_before :: "nat \<Rightarrow> arg_type \<times> arg_value \<Rightarrow> bool" where
  "refs_before i x \<longleftrightarrow> (\<forall>k call_idx slot. x = (TRes k, VRes (Produced call_idx slot)) \<longrightarrow> unat call_idx < i)"

lemma arg_fixups_cong:
  "refs_before i x \<Longrightarrow> (\<And>k. k < i \<Longrightarrow> out ! k = out' ! k) \<Longrightarrow> arg_fixups p out i j x = arg_fixups p out' i j x"
  by (auto simp: arg_fixups_def refs_before_def intro: fixup_source_cong split: prod.splits arg_type.splits arg_value.splits res_ref.splits)

lemma lower_args_ok:
  "w_ok (ls_w st) \<Longrightarrow> j + length xs \<le> length args \<Longrightarrow> list_all (refs_before i) xs \<Longrightarrow>
    lower_args p va i produced j xs args st = (args', st') \<Longrightarrow>
    st_grows i st st' \<and> length args' = length args \<and> (\<forall>n < j. args' ! n = args ! n) \<and>
    (\<forall>n < length xs. arg_lowered va (sw_cap (ls_w st)) (sw_bytes (ls_w st')) (fst (xs ! n)) (snd (xs ! n)) (args' ! (j + n))) \<and>
    ls_fixups st' = ls_fixups st @ concat (map (\<lambda>(n, x). arg_fixups p (ls_out st) i n x) (enumerate j xs))"
proof (induction xs arbitrary: j args st)
  case (Cons x xs)
  obtain ty v where x: "x = (ty, v)" by fastforce
  obtain y st1 where l: "lower_arg p va i produced j ty v st = (y, st1)" by fastforce
  note ok = lower_arg_ok [OF Cons.prems(1) l]
  have w1: "w_ok (ls_w st1)" "sw_cap (ls_w st1) = sw_cap (ls_w st)" using ok(1) by (auto simp: st_grows_def grows_def)
  have rest: "lower_args p va i produced (Suc j) xs (args[j := y]) st1 = (args', st')"
    using Cons.prems(4) l x by simp
  have IH: "st_grows i st1 st'" "length args' = length args" "\<forall>n < Suc j. args' ! n = args[j := y] ! n"
    "\<forall>n < length xs. arg_lowered va (sw_cap (ls_w st)) (sw_bytes (ls_w st')) (fst (xs ! n)) (snd (xs ! n)) (args' ! (Suc j + n))"
    "ls_fixups st' = ls_fixups st1 @ concat (map (\<lambda>(n, x). arg_fixups p (ls_out st1) i n x) (enumerate (Suc j) xs))"
    using Cons.IH [OF w1(1) _ _ rest] Cons.prems(2,3) w1(2) by auto
  obtain ext where ext: "sw_bytes (ls_w st') = sw_bytes (ls_w st1) @ ext" using IH(1) by (auto simp: st_grows_def grows_def)
  have yj: "args' ! j = y" using IH(3) Cons.prems(2) by simp
  have "arg_lowered va (sw_cap (ls_w st)) (sw_bytes (ls_w st')) ty v (args' ! j)"
    unfolding ext yj using ok(2) by (rule arg_lowered_extend)
  then have all: "\<forall>n < length (x # xs). arg_lowered va (sw_cap (ls_w st)) (sw_bytes (ls_w st'))
      (fst ((x # xs) ! n)) (snd ((x # xs) ! n)) (args' ! (j + n))"
    using IH(4) x by (auto simp: nth_Cons' less_Suc_eq_0_disj)
  have "arg_fixups p (ls_out st1) i n z = arg_fixups p (ls_out st) i n z" if "z \<in> set xs" for n z
    using that Cons.prems(3) ok(1) by (intro arg_fixups_cong) (auto simp: list_all_iff st_grows_def)
  then have "concat (map (\<lambda>(n, x). arg_fixups p (ls_out st1) i n x) (enumerate (Suc j) xs)) =
      concat (map (\<lambda>(n, x). arg_fixups p (ls_out st) i n x) (enumerate (Suc j) xs))"
    by (intro arg_cong [where f = concat] map_cong) (auto simp: enumerate_eq_zip dest: set_zip_rightD)
  then have "ls_fixups st' = ls_fixups st @ concat (map (\<lambda>(n, x). arg_fixups p (ls_out st) i n x) (enumerate j (x # xs)))"
    using IH(5) ok(3) x by simp
  then show ?case
    using all IH(2,3) st_grows_trans [OF ok(1) IH(1)] Cons.prems(2) by auto
qed (simp add: st_grows_refl)

lemma lower_args_out:
  "w_ok (ls_w st) \<Longrightarrow> i < length (ls_out st) \<Longrightarrow> j + length xs \<le> length args \<Longrightarrow>
    (if unat ai < j then ls_out st ! i = Some (args ! unat ai - va)
     else unat ai < j + length xs \<and> (\<exists>d inner nl v. xs ! (unat ai - j) = (TPtr d inner nl, VPtr v))) \<Longrightarrow>
    lower_args p va i (OutArray ai kd n) j xs args st = (args', st') \<Longrightarrow>
    ls_out st' ! i = Some (args' ! unat ai - va)"
proof (induction xs arbitrary: j args st)
  case (Cons x xs)
  obtain ty v where x: "x = (ty, v)" by fastforce
  obtain y st1 where l: "lower_arg p va i (OutArray ai kd n) j ty v st = (y, st1)" by fastforce
  have rest: "lower_args p va i (OutArray ai kd n) (Suc j) xs (args[j := y]) st1 = (args', st')"
    using Cons.prems(5) l x by simp
  have g: "st_grows i st st1" by (rule lower_arg_ok(1) [OF Cons.prems(1) l])
  show ?case
  proof (rule Cons.IH [OF _ _ _ _ rest])
    show "w_ok (ls_w st1)" "i < length (ls_out st1)" using g Cons.prems(2) by (auto simp: st_grows_def grows_def)
    show "Suc j + length xs \<le> length (args[j := y])" using Cons.prems(3) by simp
    consider "unat ai < j" | "unat ai = j" | "j < unat ai" by linarith
    then show "if unat ai < Suc j then ls_out st1 ! i = Some (args[j := y] ! unat ai - va)
       else unat ai < Suc j + length xs \<and> (\<exists>d inner nl v. xs ! (unat ai - Suc j) = (TPtr d inner nl, VPtr v))"
    proof cases
      case 1
      then show ?thesis using lower_arg_out_other [OF l] Cons.prems(4) by auto
    next
      case 2
      then obtain d inner nl v' where x': "ty = TPtr d inner nl" "v = VPtr v'" using Cons.prems(4) x by auto
      have "ls_out st1 ! i = Some (y - va)"
        by (rule lower_arg_out [OF l [unfolded x']]) (use 2 Cons.prems(2) in simp_all)
      then show ?thesis using 2 Cons.prems(3) by simp
    next
      case 3
      then show ?thesis using Cons.prems(4) by (auto simp: nth_Cons')
    qed
  qed
qed (simp split: if_splits)

section \<open>Lowering a program\<close>

abbreviation typed_args :: "typed_call \<Rightarrow> (arg_type \<times> arg_value) list" where
  "typed_args c \<equiv> zip (sd_args (tc_desc c)) (tc_args c)"

definition call_lowered :: "u32 \<Rightarrow> u32 \<Rightarrow> u8 list \<Rightarrow> typed_call \<Rightarrow> concrete_call \<Rightarrow> bool" where
  "call_lowered va cap S c cc \<longleftrightarrow>
     cc_nr cc = sd_nr (tc_desc c) \<and> length (cc_args cc) = 6 \<and>
     (\<forall>n < length (typed_args c). arg_lowered va cap S (fst (typed_args c ! n)) (snd (typed_args c ! n)) (cc_args cc ! n))"

lemma call_lowered_extend: "call_lowered va cap S c cc \<Longrightarrow> call_lowered va cap (S @ ext) c cc"
  by (auto simp: call_lowered_def intro: arg_lowered_extend)

definition call_fixups :: "prog \<Rightarrow> u32 option list \<Rightarrow> nat \<Rightarrow> fixup list" where
  "call_fixups p out i = concat (map (\<lambda>(j, x). arg_fixups p out i j x) (enumerate 0 (typed_args (p ! i))))"

definition out_ok :: "u32 \<Rightarrow> typed_call \<Rightarrow> concrete_call \<Rightarrow> u32 option \<Rightarrow> bool" where
  "out_ok va c cc off \<longleftrightarrow> (\<forall>ai kd n. sd_produces (tc_desc c) = OutArray ai kd n \<longrightarrow> off = Some (cc_args cc ! unat ai - va))"

definition lower_ready :: "nat \<Rightarrow> typed_call \<Rightarrow> bool" where
  "lower_ready i c \<longleftrightarrow>
     length (typed_args c) \<le> 6 \<and> list_all (refs_before i) (typed_args c) \<and>
     (\<forall>ai kd n. sd_produces (tc_desc c) = OutArray ai kd n \<longrightarrow>
        unat ai < length (typed_args c) \<and> (\<exists>d inner nl v. typed_args c ! unat ai = (TPtr d inner nl, VPtr v)))"

definition lower_inv :: "prog \<Rightarrow> u32 \<Rightarrow> u32 \<Rightarrow> nat \<Rightarrow> concrete_call list \<Rightarrow> lower_state \<Rightarrow> bool" where
  "lower_inv p va cap i acc st \<longleftrightarrow>
     w_ok (ls_w st) \<and> sw_cap (ls_w st) = cap \<and> length (ls_out st) = length p \<and> length acc = i \<and>
     (\<forall>k < i. call_lowered va cap (sw_bytes (ls_w st)) (p ! k) (acc ! k) \<and> out_ok va (p ! k) (acc ! k) (ls_out st ! k)) \<and>
     ls_fixups st = concat (map (call_fixups p (ls_out st)) [0 ..< i])"

lemma enumerate_in: "(n, x) \<in> set (enumerate k xs) \<Longrightarrow> x \<in> set xs"
  by (simp add: enumerate_eq_zip) (erule set_zip_rightD)

lemma call_fixups_cong:
  assumes "list_all (refs_before i) (typed_args (p ! i))" "\<And>k. k < i \<Longrightarrow> out ! k = out' ! k"
  shows "call_fixups p out i = call_fixups p out' i"
  unfolding call_fixups_def
  by (intro arg_cong [where f = concat] map_cong)
    (use assms in \<open>auto simp: list_all_iff intro!: arg_fixups_cong dest: enumerate_in\<close>)

lemma lower_step:
  assumes "lower_inv p va cap i acc st" "i < length p" "\<And>k. k < length p \<Longrightarrow> lower_ready k (p ! k)"
    "lower_args p va i (sd_produces (tc_desc (p ! i))) 0 (typed_args (p ! i)) (replicate 6 0) st = (args, st')"
  shows "lower_inv p va cap (Suc i) (acc @ [\<lparr>cc_nr = sd_nr (tc_desc (p ! i)), cc_args = args\<rparr>]) st'"
proof -
  let ?c = "p ! i" and ?cc = "\<lparr>cc_nr = sd_nr (tc_desc (p ! i)), cc_args = args\<rparr>"
  have inv: "w_ok (ls_w st)" "sw_cap (ls_w st) = cap" "length (ls_out st) = length p" "length acc = i"
    "\<And>k. k < i \<Longrightarrow> call_lowered va cap (sw_bytes (ls_w st)) (p ! k) (acc ! k)"
    "\<And>k. k < i \<Longrightarrow> out_ok va (p ! k) (acc ! k) (ls_out st ! k)"
    "ls_fixups st = concat (map (call_fixups p (ls_out st)) [0 ..< i])"
    using assms(1) by (auto simp: lower_inv_def)
  have ready: "lower_ready i ?c" using assms(2,3) by simp
  have ok: "st_grows i st st'" "length args = 6"
    "\<forall>n < length (typed_args ?c). arg_lowered va cap (sw_bytes (ls_w st')) (fst (typed_args ?c ! n)) (snd (typed_args ?c ! n)) (args ! n)"
    "ls_fixups st' = ls_fixups st @ concat (map (\<lambda>(n, x). arg_fixups p (ls_out st) i n x) (enumerate 0 (typed_args ?c)))"
    using lower_args_ok [OF inv(1) _ _ assms(4)] ready inv(2) by (auto simp: lower_ready_def)
  obtain ext where g: "w_ok (ls_w st')" "sw_cap (ls_w st') = cap" "sw_bytes (ls_w st') = sw_bytes (ls_w st) @ ext"
    "length (ls_out st') = length p" "\<And>k. k \<noteq> i \<Longrightarrow> ls_out st' ! k = ls_out st ! k"
    using ok(1) inv(2,3) by (auto simp: st_grows_def grows_def)
  have out: "out_ok va ?c ?cc (ls_out st' ! i)"
    unfolding out_ok_def
  proof (intro allI impI)
    fix ai kd n assume o: "sd_produces (tc_desc ?c) = OutArray ai kd n"
    show "ls_out st' ! i = Some (cc_args ?cc ! unat ai - va)"
      unfolding concrete_call.select_convs
      by (rule lower_args_out [OF inv(1) _ _ _ assms(4) [unfolded o]])
        (use ready o assms(2) inv(3) in \<open>auto simp: lower_ready_def\<close>)
  qed
  have "call_fixups p (ls_out st') k = call_fixups p (ls_out st) k" if "k \<le> i" for k
    by (rule call_fixups_cong) (use that assms(2,3) g(5) in \<open>auto simp: lower_ready_def\<close>)
  then have map_eq: "map (call_fixups p (ls_out st')) [0 ..< Suc i] = map (call_fixups p (ls_out st)) [0 ..< Suc i]"
    by (intro map_cong) auto
  have fixes_eq: "ls_fixups st' = concat (map (call_fixups p (ls_out st')) [0 ..< Suc i])"
    unfolding map_eq using ok(4) inv(7) by (simp add: call_fixups_def [of p "ls_out st" i, symmetric])
  have "call_lowered va cap (sw_bytes (ls_w st')) (p ! k) ((acc @ [?cc]) ! k) \<and> out_ok va (p ! k) ((acc @ [?cc]) ! k) (ls_out st' ! k)"
    if "k < Suc i" for k
  proof (cases "k = i")
    case True
    then show ?thesis using ok(2,3) out inv(4) by (simp add: call_lowered_def nth_append)
  next
    case False
    then show ?thesis using that inv(4,5,6) g(3,5) by (simp add: nth_append call_lowered_extend)
  qed
  then show ?thesis using g inv(4) fixes_eq by (simp add: lower_inv_def del: upt_Suc)
qed

lemma lower_calls_ok:
  "lower_inv p va cap i acc st \<Longrightarrow> (\<And>k. k < length p \<Longrightarrow> lower_ready k (p ! k)) \<Longrightarrow> tcs = drop i p \<Longrightarrow> i \<le> length p \<Longrightarrow>
    lower_calls p va i tcs acc st = (calls, st') \<Longrightarrow> lower_inv p va cap (length p) calls st'"
proof (induction tcs arbitrary: i acc st)
  case Nil
  then show ?case by (simp add: drop_eq_Nil)
next
  case (Cons c cs)
  have i: "i < length p" "p ! i = c" "drop (Suc i) p = cs"
    using Cons.prems(3) by (metis drop_eq_Nil list.discI not_le, metis nth_via_drop, metis drop_Suc list.sel(3) tl_drop)
  obtain args st1 where a: "lower_args p va i (sd_produces (tc_desc c)) 0 (typed_args c) (replicate 6 0) st = (args, st1)"
    by fastforce
  have "lower_inv p va cap (Suc i) (acc @ [\<lparr>cc_nr = sd_nr (tc_desc c), cc_args = args\<rparr>]) st1"
    using lower_step [OF Cons.prems(1) i(1) Cons.prems(2)] a i(2) by simp
  then show ?case
    by (rule Cons.IH [OF _ Cons.prems(2)]) (use i Cons.prems(5) a in auto)
qed

lemma prog_ok_ready:
  assumes "prog_ok p" "i < length p"
  shows "lower_ready i (p ! i)"
proof -
  let ?c = "p ! i"
  note nth = prog_ok_nth [OF assms]
  have d: "desc_ok (tc_desc ?c)" by (rule desc_in_table [OF nth(4)])
  have "refs_before i x" if "x \<in> set (typed_args ?c)" for x
  proof -
    obtain j where "j < length (tc_args ?c)" "x = (sd_args (tc_desc ?c) ! j, tc_args ?c ! j)"
      using \<open>x \<in> set (typed_args ?c)\<close> nth(3) unfolding set_zip by auto
    then show ?thesis
      using nth(1,3) by (auto simp: refs_before_def args_threaded_def list_all2_conv_all_nth split: if_splits)
  qed
  moreover have "unat ai < length (typed_args ?c) \<and> (\<exists>d inner nl v. typed_args ?c ! unat ai = (TPtr d inner nl, VPtr v))"
    if pr: "sd_produces (tc_desc ?c) = OutArray ai kd n" for ai kd n
  proof -
    obtain d l where "unat ai < length (sd_args (tc_desc ?c))" "sd_args (tc_desc ?c) ! unat ai = TPtr d (TBuffer l) False"
      using d pr by (auto simp: desc_ok_def split: arg_type.splits len_spec.splits)
    moreover have "val_ok (sd_args (tc_desc ?c) ! unat ai) (tc_args ?c ! unat ai)"
      using nth(2) calculation(1) by (simp add: shape_ok_def list_all2_conv_all_nth)
    ultimately show ?thesis using nth(3) by (auto split: arg_value.splits)
  qed
  ultimately show ?thesis
    using d nth(3) by (auto simp: lower_ready_def list_all_iff desc_ok_def)
qed

text \<open>The fixups a program should have, given the lowered calls.\<close>

definition expected_src :: "prog \<Rightarrow> u32 \<Rightarrow> concrete_call list \<Rightarrow> u16 \<Rightarrow> u8 \<Rightarrow> fixup_src" where
  "expected_src p va calls k slot =
     (case sd_produces (tc_desc (p ! unat k)) of
        OutArray ai kd n \<Rightarrow> FixMem (cc_args (calls ! unat k) ! unat ai - va + 4 * ucast slot)
      | _ \<Rightarrow> FixReg k)"

definition expected_fixups :: "prog \<Rightarrow> u32 \<Rightarrow> concrete_call list \<Rightarrow> fixup list" where
  "expected_fixups p va calls =
     concat (map (\<lambda>(i, c). concat (map (\<lambda>(j, x).
       (case x of
          (TRes want, VRes (Produced k slot)) \<Rightarrow>
            [\<lparr>dst_call = of_nat i, dst_arg = of_nat j, source_call_index = k, source_slot = slot,
              fix_src = expected_src p va calls k slot\<rparr>]
        | _ \<Rightarrow> [])) (enumerate 0 (typed_args c)))) (enumerate 0 p))"

lemma lower_with_cap_ok:
  fixes va :: u32
  assumes "prog_ok p" "unat cap + 8 \<le> 2 ^ 32"
  defines "l \<equiv> lower_with_cap p va cap"
  shows "length (lo_scratch l) \<le> unat cap" "length (lo_calls l) = length p"
    "\<And>k. k < length p \<Longrightarrow> call_lowered va cap (lo_scratch l) (p ! k) (lo_calls l ! k)"
    "lo_fixups l = expected_fixups p va (lo_calls l)"
proof -
  let ?st0 = "\<lparr>ls_w = scratch_new cap, ls_fixups = [], ls_out = replicate (length p) None\<rparr>"
  obtain calls st where c: "lower_calls p va 0 p [] ?st0 = (calls, st)" by fastforce
  then have l: "l = \<lparr>lo_calls = calls, lo_fixups = ls_fixups st, lo_scratch = sw_bytes (ls_w st)\<rparr>"
    by (simp add: l_def lower_with_cap_def Let_def)
  have "lower_inv p va cap 0 [] ?st0" using assms(2) by (simp add: lower_inv_def scratch_new_def w_ok_def)
  then have inv: "lower_inv p va cap (length p) calls st"
    by (rule lower_calls_ok [OF _ prog_ok_ready [OF assms(1)] _ _ c]) auto
  show "length (lo_scratch l) \<le> unat cap"
    using inv by (auto simp: l lower_inv_def w_ok_def word_le_nat_alt)
  show "length (lo_calls l) = length p" using inv by (simp add: l lower_inv_def)
  show "call_lowered va cap (lo_scratch l) (p ! k) (lo_calls l ! k)" if "k < length p" for k
    using inv that by (simp add: l lower_inv_def)
  have src: "fixup_source p (ls_out st) k slot = expected_src p va calls k slot" if "unat k < length p" for k slot
    using inv that by (auto simp: fixup_source_def expected_src_def Let_def lower_inv_def out_ok_def split: produces.split)
  have "arg_fixups p (ls_out st) i j x = (case x of (TRes want, VRes (Produced k slot)) \<Rightarrow>
        [\<lparr>dst_call = of_nat i, dst_arg = of_nat j, source_call_index = k, source_slot = slot,
          fix_src = expected_src p va calls k slot\<rparr>] | _ \<Rightarrow> [])"
    if "refs_before i x" "i < length p" for i j x
    using that src by (auto simp: arg_fixups_def refs_before_def split: prod.splits arg_type.splits arg_value.splits res_ref.splits)
  then have "call_fixups p (ls_out st) i = concat (map (\<lambda>(j, x). (case x of (TRes want, VRes (Produced k slot)) \<Rightarrow>
        [\<lparr>dst_call = of_nat i, dst_arg = of_nat j, source_call_index = k, source_slot = slot,
          fix_src = expected_src p va calls k slot\<rparr>] | _ \<Rightarrow> [])) (enumerate 0 (typed_args (p ! i))))"
    if "i < length p" for i
    unfolding call_fixups_def
    using that prog_ok_ready [OF assms(1) that]
    by (intro arg_cong [where f = concat] map_cong)
      (auto simp: lower_ready_def list_all_iff simp del: split_paired_All dest!: enumerate_in)
  then have me: "map (call_fixups p (ls_out st)) [0 ..< length p] =
      map (\<lambda>i. concat (map (\<lambda>(j, x). (case x of (TRes want, VRes (Produced k slot)) \<Rightarrow>
        [\<lparr>dst_call = of_nat i, dst_arg = of_nat j, source_call_index = k, source_slot = slot,
          fix_src = expected_src p va calls k slot\<rparr>] | _ \<Rightarrow> [])) (enumerate 0 (typed_args (p ! i))))) [0 ..< length p]"
    by (intro map_cong) auto
  have en: "enumerate 0 p = map (\<lambda>i. (i, p ! i)) [0 ..< length p]"
    by (simp add: enumerate_eq_zip zip_eq_conv map_nth comp_def)
  have "ls_fixups st = concat (map (call_fixups p (ls_out st)) [0 ..< length p])"
    using inv by (simp add: lower_inv_def)
  then show "lo_fixups l = expected_fixups p va (lo_calls l)"
    unfolding me by (simp add: l expected_fixups_def en comp_def)
qed

section \<open>The wire buffer\<close>

text \<open>What the guest agent reads: the counts, then the slots they announce.\<close>

definition wire_slice :: "u32 list \<Rightarrow> nat \<Rightarrow> nat \<Rightarrow> u32 list" where
  "wire_slice buf off n = take n (drop off buf)"

definition read_call :: "u32 list \<Rightarrow> nat \<Rightarrow> concrete_call" where
  "read_call buf i =
     (let base = 1 + i * CALL_WORDS in \<lparr>cc_nr = buf ! base, cc_args = wire_slice buf (base + 1) 6\<rparr>)"

text \<open>
  The source of a fixup as documented beside \<open>to_wire\<close> and in the agent (\<open>boot/agent.c\<close>): kind 0 is the
  return register of the call in the value word, kind 1 the scratch word at the offset in it; any
  other kind is none.
\<close>

definition read_source :: "u32 \<Rightarrow> u32 \<Rightarrow> fixup_src option" where
  "read_source kind val =
     (if kind = 0 then Some (FixReg (ucast val)) else if kind = 1 then Some (FixMem val) else None)"

definition read_fixup :: "u32 list \<Rightarrow> nat \<Rightarrow> u32 \<times> u32 \<times> fixup_src option" where
  "read_fixup buf k =
     (let base = 1 + MAX_CALLS * CALL_WORDS + 1 + k * FIXUP_WORDS
      in (buf ! base, buf ! (base + 1), read_source (buf ! (base + 2)) (buf ! (base + 3))))"

definition from_wire :: "u32 list \<Rightarrow> concrete_call list \<times> (u32 \<times> u32 \<times> fixup_src option) list" where
  "from_wire buf =
     (map (read_call buf) [0 ..< unat (buf ! 0)],
      map (read_fixup buf) [0 ..< unat (buf ! (1 + MAX_CALLS * CALL_WORDS))])"

definition wire_view :: "fixup \<Rightarrow> u32 \<times> u32 \<times> fixup_src option" where
  "wire_view f = (ucast (dst_call f), ucast (dst_arg f), Some (fix_src f))"

lemma read_wire_src: "read_source (fst (wire_src src)) (snd (wire_src src)) = Some src"
proof (cases src)
  case (FixReg c)
  have "(ucast (ucast c :: u32) :: u16) = c" by (rule bit_word_eqI) (simp add: bit_simps)
  then show ?thesis by (simp add: FixReg read_source_def)
qed (simp add: read_source_def)

lemmas wire_sizes = MAX_CALLS_def CALL_WORDS_def MAX_FIXUPS_def FIXUP_WORDS_def WIRE_WORDS_def

lemma blit_append:
  assumes "off + length ys + length zs \<le> length xs"
  shows "blit (blit xs off ys) (off + length ys) zs = blit xs off (ys @ zs)"
  using assms by (intro nth_equalityI) (auto simp: nth_blit nth_append)

lemma blit_slice:
  assumes "off + length ys \<le> length xs" "k + n \<le> length ys"
  shows "wire_slice (blit xs off ys) (off + k) n = take n (drop k ys)"
  using assms by (simp add: wire_slice_def blit_def)

lemma blit_before: "off + length ys \<le> length xs \<Longrightarrow> i < off \<or> off + length ys \<le> i \<Longrightarrow> blit xs off ys ! i = xs ! i"
  by (auto simp: blit_def nth_append)

lemma slice_nth: "off + n \<le> length buf \<Longrightarrow> m < n \<Longrightarrow> buf ! (off + m) = wire_slice buf off n ! m"
  by (simp add: wire_slice_def)

lemma fold_slots:
  assumes "\<And>buf i x. base + (i + 1) * w \<le> length buf \<Longrightarrow> P x \<Longrightarrow> f buf (i, x) = blit buf (base + i * w) (enc x)"
    "\<And>x. P x \<Longrightarrow> length (enc x) = w"
  shows "list_all P xs \<Longrightarrow> base + (j + length xs) * w \<le> length buf \<Longrightarrow>
    foldl f buf (enumerate j xs) = blit buf (base + j * w) (concat (map enc xs))"
proof (induction xs arbitrary: j buf)
  case (Cons x xs)
  have len: "length (concat (map enc xs)) = length xs * w"
    using Cons.prems(1) assms(2) by (induction xs) auto
  have f: "f buf (j, x) = blit buf (base + j * w) (enc x)" "length (enc x) = w"
    using Cons.prems assms by (auto simp: algebra_simps)
  have "foldl f (f buf (j, x)) (enumerate (Suc j) xs) = blit (f buf (j, x)) (base + Suc j * w) (concat (map enc xs))"
    using Cons.prems f by (intro Cons.IH) (auto simp: algebra_simps)
  also have "\<dots> = blit buf (base + j * w) (enc x @ concat (map enc xs))"
    using blit_append [of "base + j * w" "enc x" "concat (map enc xs)" buf] f len Cons.prems(2)
    by (simp add: algebra_simps)
  finally show ?case by simp
qed simp

lemma concat_slot:
  assumes "\<And>x. x \<in> set xs \<Longrightarrow> length (enc x) = w" "i < length xs"
  shows "take w (drop (i * w) (concat (map enc xs))) = enc (xs ! i)"
  using assms
proof (induction xs arbitrary: i)
  case (Cons x xs)
  then show ?case by (cases i) auto
qed simp

definition enc_call :: "concrete_call \<Rightarrow> u32 list" where
  "enc_call c = cc_nr c # cc_args c"

definition enc_fixup :: "fixup \<Rightarrow> u32 list" where
  "enc_fixup f = [ucast (dst_call f), ucast (dst_arg f), fst (wire_src (fix_src f)), snd (wire_src (fix_src f))]"

lemma length_enc_fixup: "length (enc_fixup f) = 4"
  by (simp add: enc_fixup_def)

lemma wire_call_blit:
  assumes "1 + (i + 1) * 7 \<le> length buf" "length (cc_args c) = 6"
  shows "wire_call buf (i, c) = blit buf (1 + i * 7) (enc_call c)"
  using assms by (simp add: wire_call_def Let_def enc_call_def CALL_WORDS_def blit_Cons)

lemma wire_fixup_blit:
  assumes "58 + (k + 1) * 4 \<le> length buf"
  shows "wire_fixup buf (k, f) = blit buf (58 + k * 4) (enc_fixup f)"
  using assms by (simp add: wire_fixup_def Let_def enc_fixup_def wire_sizes blit_Cons case_prod_beta)

lemma length_concat_const: "(\<And>x. x \<in> set xs \<Longrightarrow> length (f x) = w) \<Longrightarrow> length (concat (map f xs)) = length xs * w"
  by (induction xs) auto

lemma to_wire_blits:
  assumes "length (lo_calls l) \<le> MAX_CALLS" "list_all (\<lambda>c. length (cc_args c) = 6) (lo_calls l)" "length (lo_fixups l) \<le> MAX_FIXUPS"
  shows "to_wire l = blit ((blit ((replicate 186 0)[0 := of_nat (length (lo_calls l))]) 1 (concat (map enc_call (lo_calls l))))
      [57 := of_nat (length (lo_fixups l))]) 58 (concat (map enc_fixup (lo_fixups l)))"
proof -
  have c: "foldl wire_call buf (enumerate 0 (lo_calls l)) = blit buf 1 (concat (map enc_call (lo_calls l)))"
    if "length buf = 186" for buf
    using fold_slots [of 1 7 "\<lambda>c. length (cc_args c) = 6" wire_call enc_call "lo_calls l" 0 buf] wire_call_blit assms that
    by (simp add: enc_call_def MAX_CALLS_def)
  have f: "foldl wire_fixup buf (enumerate 0 (lo_fixups l)) = blit buf 58 (concat (map enc_fixup (lo_fixups l)))"
    if "length buf = 186" for buf
    using fold_slots [of 58 4 "\<lambda>_. True" wire_fixup enc_fixup "lo_fixups l" 0 buf] wire_fixup_blit assms that
    by (simp add: enc_fixup_def MAX_FIXUPS_def list_all_iff)
  have "length (concat (map enc_call (lo_calls l))) = length (lo_calls l) * 7"
    using assms(2) by (intro length_concat_const) (auto simp: enc_call_def list_all_iff)
  then show ?thesis
    using assms(1,3) by (simp add: to_wire_def Let_def wire_sizes min_absorb1 c f)
qed

lemma from_to_wire:
  assumes "length (lo_calls l) \<le> MAX_CALLS" "list_all (\<lambda>c. length (cc_args c) = 6) (lo_calls l)" "length (lo_fixups l) \<le> MAX_FIXUPS"
  shows "length (to_wire l) = WIRE_WORDS" "from_wire (to_wire l) = (lo_calls l, map wire_view (lo_fixups l))"
proof -
  let ?nc = "length (lo_calls l)" and ?nf = "length (lo_fixups l)"
  let ?cs = "concat (map enc_call (lo_calls l))" and ?fs = "concat (map enc_fixup (lo_fixups l))"
  have enc: "length (enc_call c) = 7" if "c \<in> set (lo_calls l)" for c
    using that assms(2) by (auto simp: enc_call_def list_all_iff)
  have lc: "length ?cs = ?nc * 7" using enc by (rule length_concat_const)
  have lf: "length ?fs = ?nf * 4" by (rule length_concat_const) (simp add: enc_fixup_def)
  have n: "?nc \<le> 8" "?nf \<le> 32" using assms(1,3) by (simp_all add: wire_sizes)
  define b1 where "b1 = blit ((replicate 186 (0 :: u32))[0 := of_nat ?nc]) 1 ?cs"
  define b2 where "b2 = b1[57 := of_nat ?nf]"
  have b: "length b1 = 186" "length b2 = 186" using lc n by (simp_all add: b1_def b2_def)
  have w: "to_wire l = blit b2 58 ?fs" using to_wire_blits [OF assms] by (simp add: b1_def b2_def)
  show "length (to_wire l) = WIRE_WORDS" using b lf n by (simp add: w wire_sizes)
  have low: "to_wire l ! i = b2 ! i" if "i < 58" for i
    using that b lf n unfolding w by (intro blit_before) auto
  have b10: "b1 ! 0 = of_nat ?nc" using lc n unfolding b1_def by (subst blit_before) auto
  have "to_wire l ! 0 = of_nat ?nc" using low [of 0] b10 by (simp add: b2_def)
  moreover have "to_wire l ! 57 = of_nat ?nf" using low [of 57] b by (simp add: b2_def)
  ultimately have counts: "unat (to_wire l ! 0) = ?nc" "unat (to_wire l ! 57) = ?nf" using n by simp_all
  have "read_call (to_wire l) i = lo_calls l ! i" if i: "i < ?nc" for i
  proof -
    have e: "to_wire l ! (1 + i * 7 + m) = enc_call (lo_calls l ! i) ! m" if "m < 7" for m
    proof -
      have "1 + i * 7 + m < 57" using i that n by linarith
      then have "to_wire l ! (1 + i * 7 + m) = b1 ! (1 + i * 7 + m)" using low by (simp add: b2_def)
      also have "\<dots> = wire_slice b1 (1 + i * 7) 7 ! m"
        using b i that n by (intro slice_nth) linarith+
      also have "wire_slice b1 (1 + i * 7) 7 = enc_call (lo_calls l ! i)"
        unfolding b1_def using lc n i enc
        by (subst blit_slice) (auto intro!: concat_slot)
      finally show ?thesis .
    qed
    have six: "length (cc_args (lo_calls l ! i)) = 6" using assms(2) i by (simp add: list_all_length)
    have "wire_slice (to_wire l) (2 + i * 7) 6 = cc_args (lo_calls l ! i)"
    proof (rule nth_equalityI)
      show len: "length (wire_slice (to_wire l) (2 + i * 7) 6) = length (cc_args (lo_calls l ! i))"
        using b lf n i six by (simp add: wire_slice_def w)
      fix m assume m: "m < length (wire_slice (to_wire l) (2 + i * 7) 6)"
      then have "m < 6" using len six by simp
      then show "wire_slice (to_wire l) (2 + i * 7) 6 ! m = cc_args (lo_calls l ! i) ! m"
        using e [of "Suc m"] m by (simp add: wire_slice_def enc_call_def)
    qed
    then show ?thesis using e [of 0] by (simp add: read_call_def Let_def CALL_WORDS_def enc_call_def)
  qed
  moreover have "read_fixup (to_wire l) k = wire_view (lo_fixups l ! k)" if k: "k < ?nf" for k
  proof -
    have sl: "wire_slice (to_wire l) (58 + k * 4) 4 = enc_fixup (lo_fixups l ! k)"
      unfolding w using b lf n k
      by (subst blit_slice) (auto simp: length_enc_fixup intro!: concat_slot)
    have "to_wire l ! (58 + k * 4 + m) = enc_fixup (lo_fixups l ! k) ! m" if "m < 4" for m
      unfolding sl [symmetric] using b lf n k that by (intro slice_nth) (auto simp: w)
    from this [of 0] this [of 1] this [of 2] this [of 3] show ?thesis
      by (simp add: read_fixup_def Let_def wire_sizes enc_fixup_def wire_view_def read_wire_src)
  qed
  ultimately show "from_wire (to_wire l) = (lo_calls l, map wire_view (lo_fixups l))"
    using counts by (auto simp: from_wire_def wire_sizes intro!: nth_equalityI)
qed

section \<open>Siblings lower alike\<close>

definition same_layout :: "scratch_writer \<Rightarrow> scratch_writer \<Rightarrow> bool" where
  "same_layout w w' \<longleftrightarrow>
     length (sw_bytes w') = length (sw_bytes w) \<and> sw_cursor w' = sw_cursor w \<and> sw_cap w' = sw_cap w"

lemma scratch_write_same:
  "same_layout w w' \<Longrightarrow> length data' = length data \<Longrightarrow>
    fst (scratch_write w' data' al) = fst (scratch_write w data al) \<and>
    same_layout (snd (scratch_write w data al)) (snd (scratch_write w' data' al))"
  by (simp add: same_layout_def scratch_write_def Let_def)

lemma skel_fields_Nil [simp]: "skel_fields flds [] = []" "skel_fields flds vs = [] \<longleftrightarrow> vs = []"
  by (cases flds; cases "hd flds"; simp) (cases flds; cases "hd flds"; cases vs; simp)

lemma skel_layout:
  "skel ty v' = skel ty v \<Longrightarrow> value_size_align ty v' = value_size_align ty v"
  "skel_fields flds vs' = skel_fields flds vs \<Longrightarrow> struct_fields flds vs' off offs m = struct_fields flds vs off offs m"
proof (induction ty v and flds vs off offs m arbitrary: v' and vs' rule: value_size_align_struct_fields.induct)
  case (12 name ty fs v vs off offsets max_align)
  obtain u us where u: "vs' = u # us" "skel ty u = skel ty v" "skel_fields fs us = skel_fields fs vs"
    using 12(3) by (cases vs') auto
  obtain sz al where v: "value_size_align ty v = (sz, al)" by fastforce
  have "value_size_align ty u = (sz, al)" using 12(1) [OF u(2)] v by simp
  with 12(2) [OF v [symmetric] refl refl u(3)] v u(1) show ?case by (simp add: Let_def)
next
  case (9 flds val)
  show ?case
  proof (cases val)
    case (VStruct vs)
    then obtain vs' where v': "v' = VStruct vs'" "skel_fields flds vs' = skel_fields flds vs" using 9(2) by (cases v') auto
    show ?thesis using 9(1) [OF VStruct v'(2)] by (simp add: VStruct v'(1))
  qed (use 9(2) in \<open>cases v'; simp\<close>)+
next
  case (11 f fs off offsets max_align)
  then show ?case by (cases f; cases vs'; simp)
next
  case (7 l val)
  then show ?case by (cases val; cases v'; simp add: replicate_eq_replicate)
next
  case (8 l val)
  then show ?case by (cases val; cases v'; simp add: replicate_eq_replicate)
qed simp_all

lemma build_same:
  "skel ty v' = skel ty v \<Longrightarrow> same_layout w w' \<Longrightarrow>
    length (fst (build_bytes w' va ty v')) = length (fst (build_bytes w va ty v)) \<and>
    same_layout (snd (build_bytes w va ty v)) (snd (build_bytes w' va ty v'))"
  "skel_fields flds vs' = skel_fields flds vs \<Longrightarrow> same_layout w w' \<Longrightarrow> length buf' = length buf \<Longrightarrow>
    length (fst (build_fields w' va flds vs' offs buf')) = length (fst (build_fields w va flds vs offs buf)) \<and>
    same_layout (snd (build_fields w va flds vs offs buf)) (snd (build_fields w' va flds vs' offs buf'))"
proof (induction w va ty v and w va flds vs offs buf arbitrary: w' v' and w' vs' buf' rule: build_bytes_build_fields.induct)
  case (8 w va d inner nullable val)
  show ?case
  proof (cases val)
    case (VPtr pt)
    then obtain pt' where v': "v' = VPtr pt'" "skel inner pt' = skel inner pt" using 8(2) by (cases v') auto
    have "length (fst (build_bytes w' va inner pt')) = length (fst (build_bytes w va inner pt)) \<and>
        same_layout (snd (build_bytes w va inner pt)) (snd (build_bytes w' va inner pt'))"
      by (rule 8(1) [OF VPtr v'(2) 8(3)])
    then show ?thesis
      using skel_layout(1) [OF v'(2)]
        scratch_write_same [of "snd (build_bytes w va inner pt)" "snd (build_bytes w' va inner pt')"
          "fst (build_bytes w' va inner pt')" "fst (build_bytes w va inner pt)" "snd (value_size_align inner pt)"]
      by (auto simp: VPtr v' split: prod.split)
  qed (use 8(2,3) in \<open>cases v'; auto split: if_splits\<close>)+
next
  case (9 w va flds val)
  show ?case
  proof (cases val)
    case (VStruct vs)
    then obtain vs' where v': "v' = VStruct vs'" "skel_fields flds vs' = skel_fields flds vs" using 9(2) by (cases v') auto
    have "struct_layout flds vs' = struct_layout flds vs" using skel_layout(2) [OF v'(2)] by (simp add: struct_layout_def)
    with 9(1) [OF VStruct _ _ v'(2) 9(3)] show ?thesis by (auto simp: VStruct v' split: prod.split)
  qed (use 9(2,3) in \<open>cases v'; auto\<close>)+
next
  case (10 w va name ty fs v vs off offs buf)
  obtain u us where u: "vs' = u # us" "skel ty u = skel ty v" "skel_fields fs us = skel_fields fs vs"
    using 10(3) by (cases vs') auto
  obtain fb w1 fb' w1' where b: "build_bytes w va ty v = (fb, w1)" "build_bytes w' va ty u = (fb', w1')" by fastforce
  have "same_layout w1 w1'" using 10(1) [OF u(2) 10(4)] b by simp
  with 10(2) [OF b(1) [symmetric] u(3)] 10(5) show ?case by (simp add: u(1) b)
qed (auto split: arg_value.splits res_ref.splits dest: arg_cong [where f = length])


text \<open>The arguments whose lowered word is decided by the layout: pointers and references.\<close>

fun layout_slot :: "arg_type \<Rightarrow> bool" where
  "layout_slot (TPtr d inner nullable) = True"
| "layout_slot (TRes k) = True"
| "layout_slot ty = False"

definition same_state :: "lower_state \<Rightarrow> lower_state \<Rightarrow> bool" where
  "same_state st st' \<longleftrightarrow> same_layout (ls_w st) (ls_w st') \<and> ls_fixups st' = ls_fixups st \<and> ls_out st' = ls_out st"

lemma serialize_same:
  assumes "skel ty v' = skel ty v" "same_layout w w'"
  shows "fst (serialize_into w' va ty v') = fst (serialize_into w va ty v)"
    "same_layout (snd (serialize_into w va ty v)) (snd (serialize_into w' va ty v'))"
proof -
  have "fst (serialize_into w' va ty v') = fst (serialize_into w va ty v) \<and>
      same_layout (snd (serialize_into w va ty v)) (snd (serialize_into w' va ty v'))"
    unfolding serialize_into_def case_prod_beta skel_layout(1) [OF assms(1)]
    using build_same(1) [OF assms, of va] by (intro scratch_write_same) auto
  then show "fst (serialize_into w' va ty v') = fst (serialize_into w va ty v)"
    "same_layout (snd (serialize_into w va ty v)) (snd (serialize_into w' va ty v'))" by auto
qed

lemma lower_arg_data: "\<not> layout_slot ty \<Longrightarrow> snd (lower_arg p va i pr j ty v st) = st"
  by (cases ty; cases v; simp add: lower_arg_def)

lemma lower_arg_same:
  assumes "skel ty v' = skel ty v" "same_state st st'" "map tc_desc q = map tc_desc p"
    "lower_arg p va i pr j ty v st = (x, st1)" "lower_arg q va i pr j ty v' st' = (x', st1')"
  shows "same_state st1 st1'" "layout_slot ty \<longrightarrow> x' = x"
proof -
  have len: "length q = length p" using assms(3) by (metis length_map)
  have "tc_desc (q ! k) = tc_desc (p ! k)" if "k < length p" for k
    using assms(3) that len by (metis nth_map)
  then have src: "fixup_source q out k slot = fixup_source p out k slot" for out k slot
    by (auto simp: fixup_source_def Let_def len split: produces.split)
  have "same_state st1 st1' \<and> (layout_slot ty \<longrightarrow> x' = x)"
  proof (cases "\<exists>d inner nl u. ty = TPtr d inner nl \<and> v = VPtr u")
    case True
    then obtain d inner nl u where eq: "ty = TPtr d inner nl" "v = VPtr u" by blast
    then obtain u' where eq': "v' = VPtr u'" "skel inner u' = skel inner u" using assms(1) by (cases v') auto
    have w: "same_layout (ls_w st) (ls_w st')" "ls_fixups st' = ls_fixups st" "ls_out st' = ls_out st"
      using assms(2) by (auto simp: same_state_def)
    obtain off1 w1 off2 w2 where s: "serialize_into (ls_w st) va inner u = (off1, w1)"
      "serialize_into (ls_w st') va inner u' = (off2, w2)" by fastforce
    then have "off2 = off1" "same_layout w1 w2" using serialize_same [OF eq'(2) w(1), of va] by auto
    with assms(4,5) show ?thesis by (auto simp: lower_arg_def eq eq' s same_state_def w split: produces.split)
  next
    case no_ptr: False
    show ?thesis
    proof (cases "layout_slot ty")
      case True
      then have "v' = v" using assms(1) no_ptr by (cases ty; simp split: arg_value.splits)
      with True no_ptr assms(2,4,5) show ?thesis
        by (cases ty; cases v; auto simp: lower_arg_def src same_state_def split: res_ref.splits)
    next
      case False
      then show ?thesis
        using lower_arg_data [OF False, of p va i pr j v st] lower_arg_data [OF False, of q va i pr j v' st'] assms(2,4,5)
        by simp
    qed
  qed
  then show "same_state st1 st1'" "layout_slot ty \<longrightarrow> x' = x" by auto
qed

lemma lower_args_same:
  "list_all2 (\<lambda>(ty, v) (ty', v'). ty' = ty \<and> skel ty v' = skel ty v) xs xs' \<Longrightarrow> same_state st st' \<Longrightarrow>
    map tc_desc q = map tc_desc p \<Longrightarrow> length args' = length args \<Longrightarrow> j + length xs \<le> length args \<Longrightarrow>
    \<forall>n < length args. n < j \<longrightarrow> n < length tys \<longrightarrow> layout_slot (tys ! n) \<longrightarrow> args' ! n = args ! n \<Longrightarrow>
    drop j tys = map fst xs \<Longrightarrow>
    lower_args p va i pr j xs args st = (r, st1) \<Longrightarrow> lower_args q va i pr j xs' args' st' = (r', st1') \<Longrightarrow>
    same_state st1 st1' \<and> (\<forall>n < length tys. layout_slot (tys ! n) \<longrightarrow> r' ! n = r ! n)"
proof (induction xs xs' arbitrary: j args args' st st' rule: list_all2_induct)
  case Nil
  then have "length tys \<le> j" by simp
  then show ?case using Nil by auto
next
  case (Cons x xs x' xs')
  obtain ty v v' where x: "x = (ty, v)" "x' = (ty, v')" "skel ty v' = skel ty v" using Cons.hyps(1) by (cases x; cases x') auto
  obtain y s1 y' s1' where l: "lower_arg p va i pr j ty v st = (y, s1)" "lower_arg q va i pr j ty v' st' = (y', s1')" by fastforce
  note ok = lower_arg_same [OF x(3) Cons.prems(1,2) l]
  have ty: "j < length tys" "tys ! j = ty" "drop (Suc j) tys = map fst xs"
    using Cons.prems(6) x(1) by (metis drop_eq_Nil list.discI list.map(2) not_le, metis fst_conv list.simps(9) nth_via_drop,
      metis drop_Suc list.sel(3) list.simps(9) tl_drop)
  show ?case
  proof (rule Cons.IH)
    show "same_state s1 s1'" by (rule ok(1))
    show "lower_args p va i pr (Suc j) xs (args[j := y]) s1 = (r, st1)"
      "lower_args q va i pr (Suc j) xs' (args'[j := y']) s1' = (r', st1')"
      using Cons.prems(7,8) by (simp_all add: x l)
    show "\<forall>n < length (args[j := y]). n < Suc j \<longrightarrow> n < length tys \<longrightarrow> layout_slot (tys ! n) \<longrightarrow> args'[j := y'] ! n = args[j := y] ! n"
      using Cons.prems(3,5) ok(2) ty(2) by (auto simp: nth_list_update less_Suc_eq)
  qed (use Cons.prems ty in auto)
qed

definition calls_alike :: "typed_call \<Rightarrow> concrete_call \<Rightarrow> concrete_call \<Rightarrow> bool" where
  "calls_alike c cc cc' \<longleftrightarrow> cc_nr cc' = cc_nr cc \<and>
     (\<forall>n < length (typed_args c). layout_slot (fst (typed_args c ! n)) \<longrightarrow> cc_args cc' ! n = cc_args cc ! n)"

lemma skel_call_args:
  assumes "skel_call c' = skel_call c"
  shows "tc_desc c' = tc_desc c" "length (tc_args c') = length (tc_args c)"
    "list_all2 (\<lambda>(ty, v) (ty', v'). ty' = ty \<and> skel ty v' = skel ty v) (typed_args c) (typed_args c')"
proof -
  show d: "tc_desc c' = tc_desc c" using arg_cong [OF assms, of tc_desc] by (simp add: skel_call_def)
  let ?ts = "sd_args (tc_desc c)"
  have e: "map2 skel ?ts (tc_args c') @ drop (length ?ts) (tc_args c') = map2 skel ?ts (tc_args c) @ drop (length ?ts) (tc_args c)"
    using arg_cong [OF assms, of tc_args] by (simp add: skel_call_def d)
  from arg_cong [OF this, of length] show len: "length (tc_args c') = length (tc_args c)" by simp
  then have "map2 skel ?ts (tc_args c') = map2 skel ?ts (tc_args c)" using e by simp
  then show "list_all2 (\<lambda>(ty, v) (ty', v'). ty' = ty \<and> skel ty v' = skel ty v) (typed_args c) (typed_args c')"
    using len by (auto simp: d list_all2_conv_all_nth list_eq_iff_nth_eq)
qed

lemma lower_calls_same:
  "list_all2 (\<lambda>c c'. skel_call c' = skel_call c) cs cs' \<Longrightarrow> same_state st st' \<Longrightarrow> map tc_desc q = map tc_desc p \<Longrightarrow>
    \<forall>c \<in> set cs. length (typed_args c) \<le> 6 \<Longrightarrow> length acc' = length acc \<Longrightarrow>
    lower_calls p va i cs acc st = (r, st1) \<Longrightarrow> lower_calls q va i cs' acc' st' = (r', st1') \<Longrightarrow>
    same_state st1 st1' \<and> (\<exists>ext ext'. r = acc @ ext \<and> r' = acc' @ ext' \<and> length ext = length cs \<and> length ext' = length cs \<and>
      (\<forall>k < length cs. calls_alike (cs ! k) (ext ! k) (ext' ! k)))"
proof (induction cs cs' arbitrary: i acc acc' st st' rule: list_all2_induct)
  case (Cons c cs c' cs')
  note sk = skel_call_args [OF Cons.hyps(1)]
  obtain args s1 where l: "lower_args p va i (sd_produces (tc_desc c)) 0 (typed_args c) (replicate 6 0) st = (args, s1)" by fastforce
  obtain args' s1' where l': "lower_args q va i (sd_produces (tc_desc c)) 0 (typed_args c') (replicate 6 0) st' = (args', s1')" by fastforce
  let ?cc = "\<lparr>cc_nr = sd_nr (tc_desc c), cc_args = args\<rparr>" and ?cc' = "\<lparr>cc_nr = sd_nr (tc_desc c), cc_args = args'\<rparr>"
  have "same_state s1 s1' \<and> (\<forall>n < length (map fst (typed_args c)). layout_slot (map fst (typed_args c) ! n) \<longrightarrow> args' ! n = args ! n)"
    by (rule lower_args_same [OF sk(3) Cons.prems(1,2) _ _ _ _ l l']) (use Cons.prems(3) in auto)
  then have s: "same_state s1 s1'" "calls_alike c ?cc ?cc'" by (auto simp: calls_alike_def simp del: length_zip)
  have "same_state st1 st1' \<and> (\<exists>ext ext'. r = (acc @ [?cc]) @ ext \<and> r' = (acc' @ [?cc']) @ ext' \<and> length ext = length cs \<and>
      length ext' = length cs \<and> (\<forall>k < length cs. calls_alike (cs ! k) (ext ! k) (ext' ! k)))"
    by (rule Cons.IH [OF s(1) Cons.prems(2)]) (use Cons.prems l l' sk(1) in auto)
  then obtain ext ext' where "same_state st1 st1'" "r = acc @ (?cc # ext)" "r' = acc' @ (?cc' # ext')" "length ext = length cs"
    "length ext' = length cs" "\<forall>k < length cs. calls_alike (cs ! k) (ext ! k) (ext' ! k)" by auto
  then show ?case using s(2)
    by (intro conjI exI [of _ "?cc # ext"] exI [of _ "?cc' # ext'"]) (auto simp: less_Suc_eq_0_disj)
qed auto

lemma lower_siblings_alike:
  fixes va cap :: u32
  assumes "prog_ok p" "skeleton q = skeleton p"
  defines "l \<equiv> lower_with_cap p va cap" and "l' \<equiv> lower_with_cap q va cap"
  shows "lo_fixups l' = lo_fixups l" "length (lo_scratch l') = length (lo_scratch l)" "length (lo_calls l') = length (lo_calls l)"
    "\<And>k. k < length p \<Longrightarrow> calls_alike (p ! k) (lo_calls l ! k) (lo_calls l' ! k)"
proof -
  let ?st = "\<lparr>ls_w = scratch_new cap, ls_fixups = [], ls_out = replicate (length p) None\<rparr>"
  obtain r st where c: "lower_calls p va 0 p [] ?st = (r, st)" by fastforce
  obtain r' st' where c': "lower_calls q va 0 q [] ?st = (r', st')" by fastforce
  have len: "length q = length p" using assms(2) by (rule skeleton_length)
  have sk: "list_all2 (\<lambda>c c'. skel_call c' = skel_call c) p q"
    using assms(2) len by (auto simp: skeleton_def list_all2_conv_all_nth list_eq_iff_nth_eq)
  then have d: "map tc_desc q = map tc_desc p"
    by (auto simp: list_eq_iff_nth_eq list_all2_conv_all_nth dest: skel_call_args(1))
  have l: "l = \<lparr>lo_calls = r, lo_fixups = ls_fixups st, lo_scratch = sw_bytes (ls_w st)\<rparr>"
    "l' = \<lparr>lo_calls = r', lo_fixups = ls_fixups st', lo_scratch = sw_bytes (ls_w st')\<rparr>"
    using c c' by (simp_all add: l_def l'_def lower_with_cap_def Let_def len)
  have "\<forall>c \<in> set p. length (typed_args c) \<le> 6"
    using prog_ok_ready [OF assms(1)] by (auto simp: lower_ready_def in_set_conv_nth)
  then have *: "same_state st st' \<and> (\<exists>ext ext'. r = [] @ ext \<and> r' = [] @ ext' \<and> length ext = length p \<and>
      length ext' = length p \<and> (\<forall>k < length p. calls_alike (p ! k) (ext ! k) (ext' ! k)))"
    by (intro lower_calls_same [OF sk _ d _ _ c c']) (auto simp: same_state_def same_layout_def)
  show "lo_fixups l' = lo_fixups l" "length (lo_scratch l') = length (lo_scratch l)" "length (lo_calls l') = length (lo_calls l)"
    using * by (auto simp: l same_state_def same_layout_def)
  show "calls_alike (p ! k) (lo_calls l ! k) (lo_calls l' ! k)" if "k < length p" for k
    using * that by (auto simp: l)
qed

end
