(* ===== verification/Prog_Results.thy ===== *)
theory Prog_Results
  imports Lower_Results
begin

text \<open>
  The properties of \<open>fs-prog\<close>: generation and every mutation operator yield usable programs, batch
  siblings stay in lockstep, comparison-guided substitution is structure preserving and complete
  below its cap, and lowering hands the guest agent what the program says.
\<close>

section \<open>Facts about the table\<close>

definition res_args :: "syscall_desc \<Rightarrow> nat" where
  "res_args d = length (filter (\<lambda>ty. case ty of TRes k \<Rightarrow> True | _ \<Rightarrow> False) (sd_args d))"

lemma SYSCALLS_res_args: "list_all (\<lambda>d. res_args d \<le> 4) SYSCALLS"
  by code_simp

definition len_targets_ptr :: "syscall_desc \<Rightarrow> bool" where
  "len_targets_ptr d =
     list_all (\<lambda>ty. case ty of TLen n \<Rightarrow> (case sd_args d ! unat n of TPtr dr inner nl \<Rightarrow> inner_ok inner | _ \<Rightarrow> False) | _ \<Rightarrow> True)
       (sd_args d)"

lemma SYSCALLS_len_targets: "list_all len_targets_ptr SYSCALLS"
  by code_simp

text \<open>A program to evaluate the properties on: \<open>pipe2\<close>, then a \<open>write\<close> to the second descriptor.\<close>

definition demo_prog :: prog where
  "demo_prog =
     [\<lparr>tc_desc = sys_pipe2, tc_args = [VPtr (VBytes (replicate 8 0)), VImm 0]\<rparr>,
      \<lparr>tc_desc = sys_write, tc_args = [VRes (Produced 0 1), VPtr (VBytes [104, 105]), VImm 2]\<rparr>]"

lemma demo_ok: "gen_ok demo_prog" "prog_ok demo_prog"
proof -
  show "prog_ok demo_prog" unfolding prog_ok_def by (rule conjI) code_simp+
  then show "gen_ok demo_prog" by (simp add: gen_ok_def demo_prog_def MAX_CALLS_def)
qed

section \<open>The number of fixups\<close>

lemma fixups_of_args_len:
  "length (concat (map (\<lambda>(j, x).
       (case x of
          (TRes want, VRes (Produced k slot)) \<Rightarrow> [F i j k slot]
        | _ \<Rightarrow> [])) (enumerate m (zip ts vs)))) \<le> length (filter (\<lambda>ty. case ty of TRes k \<Rightarrow> True | _ \<Rightarrow> False) ts)"
proof (induction ts arbitrary: m vs)
  case (Cons t ts)
  show ?case
  proof (cases vs)
    case v: (Cons v vs')
    have "length (case (t, v) of (TRes want, VRes (Produced k slot)) \<Rightarrow> [F i m k slot] | _ \<Rightarrow> [])
        \<le> (case t of TRes k \<Rightarrow> 1 | _ \<Rightarrow> 0)"
      by (auto split: arg_type.split arg_value.split res_ref.split)
    with Cons.IH [of "Suc m" vs'] show ?thesis by (cases t; simp add: v)
  qed simp
qed simp

lemma length_concat_le:
  "(\<And>x. x \<in> set xs \<Longrightarrow> length (f x) \<le> w) \<Longrightarrow> length (concat (map f xs)) \<le> w * length xs"
  by (induction xs) (auto simp: add_mono)

lemma expected_fixups_len:
  assumes "prog_ok p"
  shows "length (expected_fixups p va calls) \<le> 4 * length p"
proof -
  let ?f = "\<lambda>(i, c). concat (map (\<lambda>(j, x).
       (case x of
          (TRes want, VRes (Produced k slot)) \<Rightarrow>
            [\<lparr>dst_call = of_nat i, dst_arg = of_nat j, source_call_index = k, source_slot = slot,
              fix_src = expected_src p va calls k slot\<rparr>]
        | _ \<Rightarrow> [])) (enumerate 0 (typed_args c)))"
  have "length (?f x) \<le> 4" if mem: "x \<in> set (enumerate 0 p)" for x
  proof -
    obtain i c where x: "x = (i, c)" by fastforce
    then have "c \<in> set p" using mem by (auto dest: enumerate_in)
    then have "tc_desc c \<in> set SYSCALLS" using assms by (auto simp: prog_ok_def shape_ok_def list_all_iff)
    then have "res_args (tc_desc c) \<le> 4" using SYSCALLS_res_args by (auto simp: list_all_iff)
    moreover have "length (?f x) \<le> res_args (tc_desc c)"
      unfolding x prod.case res_args_def
      by (rule fixups_of_args_len [where F = "\<lambda>i j k slot. \<lparr>dst_call = of_nat i, dst_arg = of_nat j, source_call_index = k,
          source_slot = slot, fix_src = expected_src p va calls k slot\<rparr>"])
    ultimately show ?thesis by (rule order_trans [rotated])
  qed
  then have "length (concat (map ?f (enumerate 0 p))) \<le> 4 * length (enumerate 0 p)"
    by (rule length_concat_le)
  then show ?thesis unfolding expected_fixups_def by simp
qed

section \<open>Generation\<close>

text \<open>
  C13.  From every random seed, \<open>generate\<close> returns between one and \<open>MAX_CALLS\<close> calls, each of the
  system-call table with arguments of the declared types, and every resource reference points to an
  earlier call that produces a compatible kind.\<close>

theorem generate_usable:
  "let p = fst (run_state generate r) in
     is_well_formed p \<and>
     list_all (\<lambda>c. tc_desc c \<in> set SYSCALLS \<and> list_all2 val_ok (sd_args (tc_desc c)) (tc_args c)) p \<and>
     0 < length p \<and> length p \<le> MAX_CALLS"
  using pred_stateE [OF generate_ok, of r] by (auto simp: gen_ok_def prog_ok_def shape_ok_def Let_def list_all_iff)

text \<open>
  C27.  The generator computes lengths the kernel will agree with: in freshly generated arguments of
  any described call, a length slot refers to a pointer argument and holds the number of bytes the
  pointee serialises to, or zero for a NULL pointer.\<close>

theorem generated_lengths:
  assumes "d \<in> set SYSCALLS" "length calls \<le> 2 ^ 16" "j < length (sd_args d)" "sd_args d ! j = TLen n"
  shows "let args = fst (run_state (generate_args d calls) r) in
    case sd_args d ! unat n of
      TPtr dr inner nullable \<Rightarrow>
        args ! j = VImm (case args ! unat n of
                           VPtr v \<Rightarrow> ucast (of_nat (length (fst (build_bytes w va inner v))) :: u32)
                         | _ \<Rightarrow> 0)
    | _ \<Rightarrow> False"
proof -
  let ?args = "fst (run_state (generate_args d calls) r)"
  have d: "desc_ok d" "len_targets_ptr d" using assms(1) desc_in_table SYSCALLS_len_targets by (auto simp: list_all_iff)
  have good: "args_good calls d ?args" by (rule pred_stateE [OF generate_args_ok [OF d(1) assms(2)]])
  have n: "unat n < length (sd_args d)" using desc_ok_arg [OF d(1) assms(3)] assms(3,4) by simp
  obtain dr inner nl where t: "sd_args d ! unat n = TPtr dr inner nl" "inner_ok inner"
    using d(2) [unfolded len_targets_ptr_def list_all_length, rule_format, OF assms(3)] assms(4)
    by (auto split: arg_type.splits)
  have "val_ok (TPtr dr inner nl) (?args ! unat n)" "?args ! j = VImm (ucast (len_of_arg (TPtr dr inner nl) (?args ! unat n)))"
    using good n t(1) assms(3,4) by (auto simp: args_good_def arg_good_def)
  then show ?thesis
    using build_bytes_size [OF t(2)] by (auto simp: t(1) Let_def ptr_size_of_def split: arg_value.splits)
qed

theorem generated_lengths_witness:
  "let args = fst (run_state (generate_args sys_write demo_prog) 7) in
    case sd_args sys_write ! 1 of
      TPtr dr inner nullable \<Rightarrow>
        args ! 2 = VImm (case args ! 1 of
                           VPtr v \<Rightarrow> ucast (of_nat (length (fst (build_bytes (scratch_new 64) 0 inner v))) :: u32)
                         | _ \<Rightarrow> 0)
    | _ \<Rightarrow> False"
proof -
  have "sys_write \<in> set SYSCALLS" by (simp add: SYSCALLS_def)
  from generated_lengths [OF this, of demo_prog 2 1 7 "scratch_new 64" 0] show ?thesis
    by (simp add: sys_write_def demo_prog_def)
qed

text \<open>
  \<open>build_epoll_ring\<close> closes a cycle: it creates between three and four epoll descriptors (the
  requested number, clamped) and then adds the descriptor of each call to the one before it, the
  first being added to the last.\<close>

lemma epoll_ring_closes:
  "let n = max 3 (min k (MAX_CALLS div 2)) in
   case fst (run_state (build_epoll_ring k) r) of
     None \<Rightarrow> False
   | Some p \<Rightarrow>
       is_well_formed p \<and> map tc_desc p = replicate n sys_epoll_create1 @ replicate n sys_epoll_ctl \<and>
       list_all (\<lambda>i. take 3 (tc_args (p ! (n + i))) =
           [VRes (Produced (of_nat i) 0), VImm 1, VRes (Produced (of_nat ((i + 1) mod n)) 0)]) [0 ..< n]"
proof -
  let ?n = "max 3 (min k (MAX_CALLS div 2))"
  obtain p cs ls where p: "fst (run_state (build_epoll_ring k) r) = Some p" "prog_ok p" "p = cs @ ls"
    "map tc_desc cs = replicate ?n sys_epoll_create1" "list_all2 (ring_link ?n) [0 ..< ?n] ls"
    using pred_stateE [OF build_epoll_ring_ok [of k], of r] by auto
  have len: "length cs = ?n" "length ls = ?n"
    using arg_cong [OF p(4), of length] list_all2_lengthD [OF p(5)] by simp_all
  have link: "ring_link ?n i (ls ! i)" if "i < ?n" for i
    using list_all2_nthD [OF p(5), of i] that by simp
  have "map tc_desc ls = replicate ?n sys_epoll_ctl"
    by (rule nth_equalityI) (use len link in \<open>auto simp: ring_link_def\<close>)
  moreover have "take 3 (tc_args (p ! (?n + i))) = [VRes (Produced (of_nat i) 0), VImm 1, VRes (Produced (of_nat ((i + 1) mod ?n)) 0)]"
    if "i < ?n" for i
    using link [OF that] by (auto simp: p(3) nth_append len(1) ring_link_def numeral_3_eq_3)
  ultimately show ?thesis
    using p(2,4) unfolding p(1) Let_def option.case by (simp add: p(3) prog_ok_def list_all_iff)
qed

section \<open>Mutation\<close>

text \<open>
  C12.  Any number of mutations, starting from a usable program, ends with a usable program: insertion
  and removal renumber every reference, and no operator breaks typing, threading or the size bound.\<close>

theorem mutation_keeps_usable:
  assumes "gen_ok p"
  shows "gen_ok (fst (run_state (op_chain mutate n p) r))"
  using assms by (rule mutator.chain_run)

theorem mutation_keeps_usable_witness: "gen_ok (fst (run_state (op_chain mutate 5 demo_prog) 1))"
  by (rule mutation_keeps_usable [OF demo_ok(1)])

text \<open>
  \<open>prepend_fail_inject\<close> arms fault injection before the program: it opens the control file,
  writes to the descriptor that call returns, and keeps the old calls behind with their references
  shifted by two, truncated to \<open>MAX_CALLS\<close>; the result is usable.\<close>

lemma fail_inject_arms:
  assumes "gen_ok p"
  shows "case fst (run_state (prepend_fail_inject p) r) of
      None \<Rightarrow> False
    | Some q \<Rightarrow>
        gen_ok q \<and> tc_desc (q ! 0) = sys_openat_fail_nth \<and> tc_desc (q ! 1) = sys_write_fail_nth \<and>
        tc_args (q ! 1) ! 0 = VRes (Produced 0 0) \<and> drop 2 q = take (MAX_CALLS - 2) (map (shift_call 2) p)"
proof -
  obtain oc wc where "fst (run_state (prepend_fail_inject p) r) = Some (take MAX_CALLS (oc # wc # map (shift_call 2) p))"
    "tc_desc oc = sys_openat_fail_nth" "tc_desc wc = sys_write_fail_nth" "tc_args wc ! 0 = VRes (Produced 0 0)"
    "gen_ok (take MAX_CALLS (oc # wc # map (shift_call 2) p))"
    using pred_stateE [OF prepend_fail_inject_ok [OF assms], of r] by auto
  then show ?thesis by (simp add: MAX_CALLS_def numeral_eq_Suc)
qed

text \<open>
  C14.  Siblings stay in lockstep: every program of \<open>mutate_batch\<close> is usable, has the parent's
  skeleton, and lowers to the same system-call numbers, the same pointer and resource words, the
  same fixups and a scratch image of the same length.\<close>

theorem batch_in_lockstep:
  assumes "gen_ok p"
  shows "let qs = fst (run_state (mutate_batch p n) r) in
    length qs = n \<and>
    list_all (\<lambda>q. gen_ok q \<and> skeleton q = skeleton p \<and>
      lo_fixups (lower_with_cap q va cap) = lo_fixups (lower_with_cap p va cap) \<and>
      length (lo_scratch (lower_with_cap q va cap)) = length (lo_scratch (lower_with_cap p va cap)) \<and>
      list_all (\<lambda>k. calls_alike (p ! k) (lo_calls (lower_with_cap p va cap) ! k) (lo_calls (lower_with_cap q va cap) ! k))
        [0 ..< length p]) qs"
    (is "let qs = _ in _ \<and> list_all ?P qs")
proof -
  have p: "prog_ok p" using assms by (simp add: gen_ok_def)
  have qs: "length (fst (run_state (mutate_batch p n) r)) = n \<and> (\<forall>q \<in> set (fst (run_state (mutate_batch p n) r)). same_skeleton p q)"
    by (rule pred_stateE [OF mutate_batch_ok])
  have "?P q" if q: "same_skeleton p q" for q
  proof -
    have sk: "skeleton q = skeleton p" using q by (simp add: same_skeleton_def)
    have "gen_ok q" using q assms skeleton_length [OF sk] by (simp add: same_skeleton_def gen_ok_def)
    then show ?thesis using sk lower_siblings_alike [OF p sk, where va = va and cap = cap] by (simp add: list_all_iff)
  qed
  with qs show ?thesis by (simp add: Let_def list_all_iff)
qed

theorem batch_in_lockstep_witness:
  "let qs = fst (run_state (mutate_batch demo_prog 4) 9) in
    length qs = 4 \<and>
    list_all (\<lambda>q. gen_ok q \<and> skeleton q = skeleton demo_prog \<and>
      lo_fixups (lower_with_cap q 0x1000 64) = lo_fixups (lower_with_cap demo_prog 0x1000 64) \<and>
      length (lo_scratch (lower_with_cap q 0x1000 64)) = length (lo_scratch (lower_with_cap demo_prog 0x1000 64)) \<and>
      list_all (\<lambda>k. calls_alike (demo_prog ! k) (lo_calls (lower_with_cap demo_prog 0x1000 64) ! k)
          (lo_calls (lower_with_cap q 0x1000 64) ! k)) [0 ..< length demo_prog]) qs"
  by (rule batch_in_lockstep [OF demo_ok(1)])

section \<open>Comparison-guided substitution\<close>

text \<open>
  C26.  \<open>mutate_cmplog\<close> returns nothing only when there are no pairs or no candidate, and otherwise a
  program that differs from the base in scalars and buffer contents only (same calls, references,
  nesting and buffer lengths), so it is still well formed.\<close>

theorem cmplog_keeps_structure:
  assumes "is_well_formed p"
  shows "case fst (run_state (mutate_cmplog p pairs) r) of
      None \<Rightarrow> pairs = [] \<or> cmplog_candidates p pairs = []
    | Some q \<Rightarrow> is_well_formed q \<and> erase_prog q = erase_prog p"
  using pred_stateE [OF mutate_cmplog_outcomes [of p pairs], of r] erase_cmplog_apply [of p] erase_well_formed [OF _ assms]
  by (auto split: if_splits)

theorem cmplog_keeps_structure_witness:
  "case fst (run_state (mutate_cmplog demo_prog [(2, 64)]) 5) of
      None \<Rightarrow> [(2, 64)] = ([] :: (u32 \<times> u32) list) \<or> cmplog_candidates demo_prog [(2, 64)] = []
    | Some q \<Rightarrow> is_well_formed q \<and> erase_prog q = erase_prog demo_prog"
proof -
  have "is_well_formed demo_prog" using demo_ok(2) by (simp add: prog_ok_def)
  then show ?thesis by (rule cmplog_keeps_structure)
qed

lemma modify_at_cong: "f (navigate path av) = g (navigate path av) \<Longrightarrow> modify_at path f av = modify_at path g av"
  by (induction path f av rule: modify_at.induct) auto

lemma set_unique_pairs:
  "length (remdups_adj (sort pairs)) \<le> MAX_UNIQUE_PAIRS \<Longrightarrow> set (unique_pairs pairs) = set pairs"
  by (simp add: unique_pairs_def)

text \<open>The low bytes of a word.\<close>

abbreviation low_bytes :: "nat \<Rightarrow> u32 \<Rightarrow> u8 list" where
  "low_bytes width v \<equiv> take width (u32_to_le v)"

lemma widths: "width \<in> {1, 2, 4} \<Longrightarrow> width = 1 \<or> width = 2 \<or> width = (4 :: nat)"
  by simp

lemma bit_window:
  assumes "width \<in> {1, 2, 4}" "k < 32"
  shows "bit (window_value buf off width) k \<longleftrightarrow> k < 8 * width \<and> bit (buf ! (off + k div 8)) (k mod 8)"
proof -
  consider "k < 8" | "8 \<le> k" "k < 16" | "16 \<le> k" "k < 24" | "24 \<le> k" "k < 32" using assms(2) by linarith
  then have "k div 8 = 0 \<and> k mod 8 = k \<or> k div 8 = 1 \<and> k mod 8 = k - 8 \<or> k div 8 = 2 \<and> k mod 8 = k - 16 \<or> k div 8 = 3 \<and> k mod 8 = k - 24"
    by cases (auto simp: div_nat_eqI mod_if le_mod_geq)
  moreover have "[0 ..< 1] = [0 :: nat]" "[0 ..< 2] = [0 :: nat, 1]" "[0 ..< 4] = [0 :: nat, 1, 2, 3]"
    by (simp_all add: upt_rec)
  ultimately show ?thesis
    using widths [OF assms(1)] assms(2)
    by (elim disjE; auto simp: window_value_def bit_simps dest: bit_imp_le_length)
qed

lemma u32_to_le_nth: "i < 4 \<Longrightarrow> u32_to_le v ! i = ucast (drop_bit (8 * i) v)"
  by (auto simp: u32_to_le_def less_Suc_eq numeral_eq_Suc)

lemma window_low_bytes:
  assumes "width \<in> {1, 2, 4}" "off + width \<le> length buf" "take width (drop off buf) = low_bytes width x"
  shows "window_value buf off width = take_bit (8 * width) x"
proof (rule bit_word_eqI)
  fix k assume k: "k < LENGTH(32)"
  have "buf ! (off + k div 8) = ucast (drop_bit (8 * (k div 8)) x)" if "k < 8 * width"
  proof -
    have i: "k div 8 < width" using that by (simp add: less_mult_imp_div_less mult.commute)
    then have "buf ! (off + k div 8) = take width (drop off buf) ! (k div 8)" using assms(2) by simp
    then show ?thesis using i assms(1,3) by (auto simp: u32_to_le_nth)
  qed
  moreover have "8 * (k div 8) + k mod 8 = k" by simp
  ultimately show "bit (window_value buf off width) k = bit (take_bit (8 * width) x) k"
    using k bit_window [OF assms(1), of k buf off] by (auto simp: bit_simps)
qed

lemma low_bytes_take_bit: "width \<in> {1, 2, 4} \<Longrightarrow> low_bytes width (take_bit (8 * width) v) = low_bytes width v"
proof -
  assume w: "width \<in> {1, 2, 4}"
  have "ucast (drop_bit (8 * i) (take_bit (8 * width) v)) = (ucast (drop_bit (8 * i) v) :: u8)" if "i < width" for i
    by (rule bit_word_eqI) (use that in \<open>auto simp: bit_simps\<close>)
  then show ?thesis using w by (intro nth_equalityI) (auto simp: u32_to_le_nth)
qed

lemma low_bytes_inj:
  assumes "width \<in> {1, 2, 4}" "take_bit (8 * width) x = take_bit (8 * width) (y :: u32)"
  shows "low_bytes width x = low_bytes width y"
  using low_bytes_take_bit [OF assms(1), of x] low_bytes_take_bit [OF assms(1), of y] assms(2) by simp

lemma scan_mask:
  assumes "width \<in> {1, 2, 4}"
  shows "x AND (if width = 4 then - 1 else push_bit (8 * width) 1 - 1 :: u32) = take_bit (8 * width) x"
proof (cases "width = 4")
  case True
  have "take_bit 32 x = x" by (rule bit_word_eqI) (simp add: bit_take_bit_iff)
  then show ?thesis using True by simp
qed (use assms in \<open>auto simp: take_bit_eq_mask mask_eq_exp_minus_1\<close>)

lemma take_bit_step:
  fixes y :: u32
  assumes "n \<le> 32"
  shows "take_bit n (take_bit n y + 1) = take_bit n (y + 1)" "take_bit n (take_bit n y - 1) = take_bit n (y - 1)"
proof -
  have u: "uint (take_bit n (v + w)) = take_bit n (uint v + uint w)" "uint (take_bit n (v - w)) = take_bit n (uint v - uint w)"
    for v w :: u32
    using assms by (simp_all add: unsigned_take_bit_eq uint_word_ariths take_bit_eq_mod [symmetric] min_def
        flip: take_bit_eq_mod [of 32 "_ :: int", simplified])
  show "take_bit n (take_bit n y + 1) = take_bit n (y + 1)" "take_bit n (take_bit n y - 1) = take_bit n (y - 1)"
    using take_bit_add [of n "take_bit n (uint y)" 1] take_bit_add [of n "uint y" 1]
      take_bit_diff [of n "take_bit n (uint y)" 1] take_bit_diff [of n "uint y" 1]
    by (simp_all add: word_uint_eq_iff u) (simp_all add: unsigned_take_bit_eq)
qed

lemma concat_map_pair: "(a, b) \<in> set ps \<Longrightarrow> x \<in> set (f a b) \<Longrightarrow> x \<in> set (concat (map (\<lambda>(a, b). f a b) ps))"
  by force

lemma pair_values_other:
  "x \<noteq> y \<Longrightarrow> (a, b) = (x, y) \<or> (a, b) = (y, x) \<Longrightarrow> set (nbrs y) \<subseteq> set (pair_values nbrs x a b)"
  unfolding pair_values_def by (elim disjE) simp_all

text \<open>What a window that shows one side of a pair is offered: the other side and its neighbours.\<close>

lemma scan_window_offers:
  assumes w: "width \<in> {1, 2, 4}" "off + width \<le> length buf" and win: "take width (drop off buf) = low_bytes width x"
    and pair: "(x, y) \<in> set pairs \<or> (y, x) \<in> set pairs" and diff: "low_bytes width x \<noteq> low_bytes width y"
    and z: "z \<in> {y, y + 1, y - 1}"
  shows "mk off (low_bytes width z) \<in> set (scan_window mk buf width off pairs)"
proof -
  let ?t = "take_bit (8 * width) :: u32 \<Rightarrow> u32"
  have ne: "?t x \<noteq> ?t y" using low_bytes_inj [OF w(1)] diff by blast
  have nb: "near_masked (?t y) (if width = 4 then - 1 else push_bit (8 * width) 1 - 1) = map ?t [?t y, ?t y + 1, ?t y - 1]"
    unfolding near_masked_def near_def by (simp only: scan_mask [OF w(1)])
  have "?t z \<in> set (map ?t [?t y, ?t y + 1, ?t y - 1])"
    using z w(1) by (auto simp: take_bit_step)
  then have v: "?t z \<in> set (near_masked (?t y) (if width = 4 then - 1 else push_bit (8 * width) 1 - 1))"
    unfolding nb .
  obtain a b where ab: "(a, b) \<in> set pairs" "(a, b) = (x, y) \<or> (a, b) = (y, x)" using pair by blast
  let ?vs = "pair_values (\<lambda>x. near_masked x (if width = 4 then - 1 else push_bit (8 * width) 1 - 1)) (?t x) (?t a) (?t b)"
  have "set (near_masked (?t y) (if width = 4 then - 1 else push_bit (8 * width) 1 - 1)) \<subseteq> set ?vs"
    using ab(2) by (intro pair_values_other [OF ne]) auto
  then have "mk off (low_bytes width (?t z)) \<in> set (map (\<lambda>v. mk off (low_bytes width v)) ?vs)"
    unfolding set_map using v by (intro imageI) blast
  then have "mk off (low_bytes width z) \<in> set (map (\<lambda>v. mk off (low_bytes width v)) ?vs)"
    unfolding low_bytes_take_bit [OF w(1)] .
  then show ?thesis
    unfolding scan_window_def Let_def window_low_bytes [OF w win] scan_mask [OF w(1)] by (rule concat_map_pair [OF ab(1)])
qed

text \<open>
  C25.  Input-to-state: when neither the pair limit nor the candidate cap is reached, every leaf that
  carries either side of a logged comparison is offered the other side and its two neighbours: a scalar
  whose low 32 bits are one side, and every window of one, two or four bytes among the first 256 bytes
  of a buffer that holds the low bytes of one side (where the low bytes of the two sides differ).\<close>

theorem cmplog_offers_other_side:
  assumes "length (remdups_adj (sort pairs)) \<le> MAX_UNIQUE_PAIRS" "length (cmplog_candidates p pairs) < MAX_CANDIDATES"
    "(ci, ai, tc_args (p ! ci) ! ai, path, is_bytes) \<in> set (cmplog_sites p)"
    "(x, y) \<in> set pairs \<or> (y, x) \<in> set pairs" "z \<in> {y, y + 1, y - 1}"
  shows "(\<not> is_bytes \<and> navigate path (tc_args (p ! ci) ! ai) = VImm v \<and> ucast v = x \<and> x \<noteq> y \<longrightarrow>
      modify_arg p ci ai path (\<lambda>_. VImm (ucast z)) \<in> cmplog_apply p ` set (cmplog_candidates p pairs)) \<and>
    (is_bytes \<and> navigate path (tc_args (p ! ci) ! ai) = VBytes b \<and> width \<in> {1, 2, 4} \<and>
      off + width \<le> min (length b) 256 \<and> take width (drop off b) = take width (u32_to_le x) \<and>
      take width (u32_to_le x) \<noteq> take width (u32_to_le y) \<longrightarrow>
      modify_arg p ci ai path (\<lambda>_. VBytes (take off b @ take width (u32_to_le z) @ drop (off + width) b))
        \<in> cmplog_apply p ` set (cmplog_candidates p pairs))"
proof -
  let ?av = "tc_args (p ! ci) ! ai"
  have up: "(x, y) \<in> set (unique_pairs pairs) \<or> (y, x) \<in> set (unique_pairs pairs)"
    using assms(4) set_unique_pairs [OF assms(1)] by simp
  have "cmplog_candidates p pairs =
      concat (map (\<lambda>(ci, ai, av, leaf). leaf_candidates ci ai av (unique_pairs pairs) leaf) (cmplog_sites p))"
    using scan_sites_complete [of "cmplog_sites p" "unique_pairs pairs" "[]"] assms(2) by (simp add: cmplog_candidates_def)
  then have leaf: "set (leaf_candidates ci ai ?av (unique_pairs pairs) (path, is_bytes)) \<subseteq> set (cmplog_candidates p pairs)"
    using assms(3) by force
  have offer: "modify_arg p ci ai path (\<lambda>_. av') \<in> cmplog_apply p ` set (cmplog_candidates p pairs)"
    if "mk_candidate ci ai path repl \<in> set (leaf_candidates ci ai ?av (unique_pairs pairs) (path, is_bytes))"
      "apply_replacement repl (navigate path ?av) = av'" for repl av'
  proof -
    have "cmplog_apply p (mk_candidate ci ai path repl) = modify_arg p ci ai path (\<lambda>_. av')"
      using modify_at_cong [of "apply_replacement repl" path ?av "\<lambda>_. av'"] that(2)
      by (simp add: cmplog_apply_def mk_candidate_def modify_arg_def)
    then show ?thesis using that(1) leaf by (metis image_eqI subsetD)
  qed
  have imm: "modify_arg p ci ai path (\<lambda>_. VImm (ucast z)) \<in> cmplog_apply p ` set (cmplog_candidates p pairs)"
    if "\<not> is_bytes" "navigate path ?av = VImm v" "ucast v = x" "x \<noteq> y"
  proof (rule offer [of "ReplImm z"])
    obtain a b where ab: "(a, b) \<in> set (unique_pairs pairs)" "(a, b) = (x, y) \<or> (a, b) = (y, x)" using up by blast
    have "z \<in> set (near y)" using assms(5) by (simp add: near_def)
    then have "z \<in> set (pair_values near x a b)" using pair_values_other [OF that(4) ab(2)] by blast
    then show "mk_candidate ci ai path (ReplImm z) \<in> set (leaf_candidates ci ai ?av (unique_pairs pairs) (path, is_bytes))"
      using ab(1) that(1-3) unfolding leaf_candidates_def by force
    show "apply_replacement (ReplImm z) (navigate path ?av) = VImm (ucast z)" using that(2) by simp
  qed
  have bytes: "modify_arg p ci ai path (\<lambda>_. VBytes (take off b @ low_bytes width z @ drop (off + width) b))
        \<in> cmplog_apply p ` set (cmplog_candidates p pairs)"
    if "is_bytes" "navigate path ?av = VBytes b" "width \<in> {1, 2, 4}" "off + width \<le> min (length b) 256"
      "take width (drop off b) = low_bytes width x" "low_bytes width x \<noteq> low_bytes width y"
  proof (rule offer [of "ReplBytes off (low_bytes width z)"])
    have "mk_candidate ci ai path (ReplBytes off (low_bytes width z))
        \<in> set (scan_window (\<lambda>off bs. mk_candidate ci ai path (ReplBytes off bs)) b width off (unique_pairs pairs))"
      using that(4) by (intro scan_window_offers [OF that(3) _ that(5) up that(6) assms(5)]) simp
    moreover have "\<not> min (length b) BUFFER_SCAN_CAP < width" "off \<in> set [0 ..< Suc (min (length b) BUFFER_SCAN_CAP - width)]"
      using that(4) by (auto simp: BUFFER_SCAN_CAP_def)
    ultimately show "mk_candidate ci ai path (ReplBytes off (low_bytes width z))
        \<in> set (leaf_candidates ci ai ?av (unique_pairs pairs) (path, is_bytes))"
      using that(1-3) unfolding leaf_candidates_def by (force simp del: upt_Suc)
    show "apply_replacement (ReplBytes off (low_bytes width z)) (navigate path ?av) =
        VBytes (take off b @ low_bytes width z @ drop (off + width) b)"
    proof -
      have "width \<le> 4" "off + width \<le> length b" using that(3,4) by auto
      then show ?thesis using that(2) by (simp add: Let_def blit_def)
    qed
  qed
  show ?thesis using imm bytes by blast
qed

text \<open>
  A scalar equal to the second side is offered the successor of the first, and the two bytes \<open>hi\<close> are
  replaced by the other side of a comparison of halfwords.
\<close>

theorem cmplog_offers_other_side_witness:
  "modify_arg demo_prog 1 2 [] (\<lambda>_. VImm 65) \<in> cmplog_apply demo_prog ` set (cmplog_candidates demo_prog [(64, 2), (0x6968, 0x4142)]) \<and>
   modify_arg demo_prog 1 1 [PtrInner] (\<lambda>_. VBytes [0x42, 0x41])
     \<in> cmplog_apply demo_prog ` set (cmplog_candidates demo_prog [(64, 2), (0x6968, 0x4142)])"
proof -
  let ?ps = "[(64, 2), (0x6968, 0x4142)] :: (u32 \<times> u32) list"
  have "length (cmplog_candidates demo_prog ?ps) < MAX_CANDIDATES" by code_simp
  moreover have "length (remdups_adj (sort ?ps)) \<le> MAX_UNIQUE_PAIRS" by code_simp
  moreover have "(1, 2, tc_args (demo_prog ! 1) ! 2, [], False) \<in> set (cmplog_sites demo_prog)"
    "(1, 1, tc_args (demo_prog ! 1) ! 1, [PtrInner], True) \<in> set (cmplog_sites demo_prog)" by code_simp+
  moreover have "take 2 (u32_to_le 0x6968) = [104, 105]" "take 2 (u32_to_le 0x4142) = [0x42, 0x41]" by code_simp+
  moreover have "navigate [] (tc_args (demo_prog ! 1) ! 2) = VImm 2"
    "navigate [PtrInner] (tc_args (demo_prog ! 1) ! 1) = VBytes [104, 105]" by (simp_all add: demo_prog_def)
  ultimately show ?thesis
    using cmplog_offers_other_side [of ?ps demo_prog 1 2 "[]" False 2 64 65 2]
      cmplog_offers_other_side [of ?ps demo_prog 1 1 "[PtrInner]" True "0x6968" "0x4142" "0x4142" _ "[104, 105]" 2 0]
    by simp
qed

text \<open>
  The scan is bounded: whatever the program and the log, fewer than \<open>MAX_CANDIDATES\<close> plus six per
  kept pair candidates are collected.  (The cap is tested after the additions of a whole buffer
  window, so \<open>MAX_CANDIDATES\<close> itself is not a bound.)\<close>

lemma cmplog_candidates_bounded:
  "length (cmplog_candidates p pairs) < MAX_CANDIDATES + 6 * MAX_UNIQUE_PAIRS"
  by (rule cmplog_candidates_len)

section \<open>Lowering\<close>

text \<open>
  C11.  Lowering hands over what the program says.  Every call keeps its number and gets six argument
  words: scalars and seeds truncated to 32 bits; pointers to an aligned place of the scratch image
  that holds the serialised pointee (if it fits); and the fixups are exactly one per reference to an
  earlier result, naming the return register of its producer or the slot of its out-array.\<close>

theorem lowering_faithful:
  assumes "prog_ok p" "unat cap + 8 \<le> 2 ^ 32"
  shows "let l = lower_with_cap p va cap in
    list_all2 (call_lowered va cap (lo_scratch l)) p (lo_calls l) \<and> lo_fixups l = expected_fixups p va (lo_calls l)"
  using lower_with_cap_ok [OF assms, where va = va] by (simp add: Let_def list_all2_conv_all_nth)

theorem lowering_faithful_witness:
  "let l = lower_with_cap demo_prog 0x1000 64 in
    list_all2 (call_lowered 0x1000 64 (lo_scratch l)) demo_prog (lo_calls l) \<and>
    lo_fixups l = expected_fixups demo_prog 0x1000 (lo_calls l)"
  by (rule lowering_faithful [OF demo_ok(2)]) simp

lemma default_cap: "unat DEFAULT_SCRATCH_CAP + 8 \<le> 2 ^ 32" "unat DEFAULT_SCRATCH_CAP = 32768"
  by (simp_all add: DEFAULT_SCRATCH_CAP_def)

text \<open>
  C24.  A usable program always fits: its scratch image is within the default capacity, and it has no
  more calls and fixups than the wire buffer has room for, so \<open>to_wire\<close> drops nothing.\<close>

theorem lowered_fits:
  assumes "gen_ok p"
  shows "let l = lower p va in
    length (lo_scratch l) \<le> 32768 \<and> length (lo_calls l) \<le> MAX_CALLS \<and> length (lo_fixups l) \<le> MAX_FIXUPS"
proof -
  have p: "prog_ok p" "length p \<le> MAX_CALLS" using assms by (auto simp: gen_ok_def)
  note l = lower_with_cap_ok [OF p(1) default_cap(1), where va = va, folded lower_def]
  show ?thesis
    using l(1,2) p(2) expected_fixups_len [OF p(1), of va "lo_calls (lower p va)"]
    by (simp add: Let_def default_cap l(4) wire_sizes)
qed

theorem lowered_fits_witness:
  "let l = lower demo_prog 0x1000 in
    length (lo_scratch l) \<le> 32768 \<and> length (lo_calls l) \<le> MAX_CALLS \<and> length (lo_fixups l) \<le> MAX_FIXUPS"
  by (rule lowered_fits [OF demo_ok(1)])

text \<open>
  C23.  Reading the wire buffer back gives the program: for every lowered program within the limits,
  the reader of the documented layout recovers all calls with their arguments, and all fixups with
  the call and argument they patch and their source, decoded by the documented kinds (0 a return
  register, 1 a scratch word).\<close>

theorem wire_roundtrip:
  assumes "length (lo_calls l) \<le> MAX_CALLS" "list_all (\<lambda>c. length (cc_args c) = 6) (lo_calls l)"
    "length (lo_fixups l) \<le> MAX_FIXUPS"
  shows "length (to_wire l) = WIRE_WORDS \<and> from_wire (to_wire l) = (lo_calls l, map wire_view (lo_fixups l))"
  using from_to_wire [OF assms] by simp

theorem wire_roundtrip_witness:
  "let l = lower_with_cap demo_prog 0x1000 64 in
    length (to_wire l) = WIRE_WORDS \<and> from_wire (to_wire l) = (lo_calls l, map wire_view (lo_fixups l)) \<and>
    length (lo_fixups l) = 1"
proof -
  let ?l = "lower_with_cap demo_prog 0x1000 64"
  have "length (lo_calls ?l) = 2" "list_all (\<lambda>c. length (cc_args c) = 6) (lo_calls ?l)" "length (lo_fixups ?l) = 1"
    by code_simp+
  then show ?thesis using wire_roundtrip [of ?l] by (simp add: wire_sizes)
qed

text \<open>
  The address structures do not have the layout of the kernel's: \<open>sockaddr_in\<close> takes 20 bytes
  with the port at offset 4, \<open>sockaddr_nl\<close> 16 bytes with the process id at offset 8, where the
  comments (and the kernel) have 16 bytes and offset 2, 12 bytes and offset 4, because a constant is
  always laid out as four bytes.\<close>

lemma sockaddr_layout:
  "struct_layout SOCKADDR_IN_FIELDS [VImm fam, VImm port, VImm addr, VBytes (replicate 8 z)] = ([0, 4, 8, 12], 20, 4) \<and>
   struct_layout SOCKADDR_NL_FIELDS [VImm fam, VImm pad, VImm pid, VImm groups] = ([0, 4, 8, 12], 16, 4)"
  by (simp add: struct_layout_def SOCKADDR_IN_FIELDS_def SOCKADDR_NL_FIELDS_def round_up_def int_bytes_def int_align_def
      Let_def max_def word_le_nat_alt)

end
