(* ===== verification/VecMmu.thy ===== *)
theory VecMmu
  imports Bus
begin

text \<open>
  The interleaved memory of the lane-parallel executor (\<open>crates/fs-vec/src/vec_mmu.rs\<close>): one store
  for all \<open>LANES\<close> lanes, in which lane \<open>l\<close>'s copy of guest word \<open>w\<close> is entry \<open>w * LANES + l\<close> of the
  content plane and of the permission plane.  A \<open>Simd\<close> value or a mask is a list with an entry per
  lane; a vector operation is \<open>lanewise\<close>.  Access sizes are 1, 2 or 4.
\<close>

section \<open>Vectors\<close>

definition LANES :: nat where "LANES = 16"

type_synonym simd = "u32 list"
type_synonym lane_mask = "bool list"

definition lanewise :: "(nat \<Rightarrow> 'a) \<Rightarrow> 'a list" where
  "lanewise f = map f [0 ..< LANES]"

definition any_lane :: "(nat \<Rightarrow> bool) \<Rightarrow> bool" where
  "any_lane P = list_ex P [0 ..< LANES]"

definition simd_select :: "lane_mask \<Rightarrow> 'a list \<Rightarrow> 'a list \<Rightarrow> 'a list" where
  "simd_select msk a b = lanewise (\<lambda>l. if msk ! l then a ! l else b ! l)"

definition gather_select :: "u32 list \<Rightarrow> lane_mask \<Rightarrow> nat list \<Rightarrow> simd \<Rightarrow> simd" where
  "gather_select xs enable idxs def =
     lanewise (\<lambda>l. if enable ! l \<and> idxs ! l < length xs then xs ! (idxs ! l) else def ! l)"

definition scatter_select :: "simd \<Rightarrow> u32 list \<Rightarrow> lane_mask \<Rightarrow> nat list \<Rightarrow> u32 list" where
  "scatter_select vals xs enable idxs =
     foldl (\<lambda>xs l. if enable ! l \<and> idxs ! l < length xs then xs[idxs ! l := vals ! l] else xs) xs [0 ..< LANES]"

lemma length_lanewise [simp]: "length (lanewise f) = LANES"
  by (simp add: lanewise_def)

lemma nth_lanewise [simp]: "l < LANES \<Longrightarrow> lanewise f ! l = f l"
  by (simp add: lanewise_def)

lemma any_lane_iff: "any_lane P \<longleftrightarrow> (\<exists>l < LANES. P l)"
  by (auto simp: any_lane_def list_ex_iff)

lemma nth_simd_select [simp]: "l < LANES \<Longrightarrow> simd_select msk a b ! l = (if msk ! l then a ! l else b ! l)"
  by (simp add: simd_select_def)

lemma length_simd_select [simp]: "length (simd_select msk a b) = LANES"
  by (simp add: simd_select_def)

section \<open>The store\<close>

record vec_mmu =
  vm_base :: u32
  vm_num_words :: nat
  vm_content :: "u32 list"
  vm_perms :: "u32 list"

text \<open>The assertions of \<open>new\<close> panic: no value.\<close>

definition vec_mmu_new :: "u32 \<Rightarrow> nat \<Rightarrow> vec_mmu option" where
  "vec_mmu_new base sz =
     (if base mod 4 \<noteq> 0 \<or> sz mod 4 \<noteq> 0 then None
      else let num_words = sz div 4 in
        Some \<lparr>vm_base = base, vm_num_words = num_words, vm_content = replicate (num_words * LANES) 0,
              vm_perms = replicate (num_words * LANES) 0\<rparr>)"

definition vm_size :: "vec_mmu \<Rightarrow> nat" where
  "vm_size m = vm_num_words m * 4"

definition word_off :: "vec_mmu \<Rightarrow> u32 \<Rightarrow> (nat \<times> u32) option" where
  "word_off m addr =
     (if addr < vm_base m then None
      else let rel = unat (addr - vm_base m); word = rel div 4 in
        if word < vm_num_words m then Some (word, of_nat (rel mod 4)) else None)"

definition region_mask :: "u32 \<Rightarrow> nat \<Rightarrow> u32" where
  "region_mask off sz =
     (let bits = sz * 8; unshifted = (if 32 \<le> bits then - 1 else push_bit bits 1 - 1)
      in push_bit (unat (off * 8)) unshifted)"

definition splat_byte :: "u8 \<Rightarrow> u32" where
  "splat_byte b = ucast b * 0x01010101"

definition put_word_byte :: "u32 \<Rightarrow> u32 \<Rightarrow> u8 \<Rightarrow> u32" where
  "put_word_byte w off b =
     (let shift = unat (off * 8) in (w AND NOT (push_bit shift 0xFF)) OR push_bit shift (ucast b))"

definition all_lanes_at :: "nat \<Rightarrow> (u32 \<Rightarrow> u32) \<Rightarrow> u32 list \<Rightarrow> u32 list" where
  "all_lanes_at word f xs = foldl (\<lambda>xs l. xs[word * LANES + l := f (xs ! (word * LANES + l))]) xs [0 ..< LANES]"

fun vm_map_from :: "nat \<Rightarrow> u32 \<Rightarrow> u8 list \<Rightarrow> u8 \<Rightarrow> vec_mmu \<Rightarrow> (fault + unit) \<times> vec_mmu" where
  "vm_map_from i addr [] perm m = (Inr (), m)"
| "vm_map_from i addr (b # bs) perm m =
     (let a = addr + of_nat i in
      case word_off m a of
        None \<Rightarrow> (Inl (mk_fault a 1 Write Unmapped), m)
      | Some (word, off) \<Rightarrow>
          vm_map_from (Suc i) addr bs perm
            (m\<lparr>vm_content := all_lanes_at word (\<lambda>w. put_word_byte w off b) (vm_content m),
               vm_perms := all_lanes_at word (\<lambda>w. put_word_byte w off perm) (vm_perms m)\<rparr>))"

definition vm_map :: "u32 \<Rightarrow> u8 list \<Rightarrow> u8 \<Rightarrow> vec_mmu \<Rightarrow> (fault + unit) \<times> vec_mmu" where
  "vm_map addr data perm m = vm_map_from 0 addr data perm m"

fun vm_protect_from :: "u32 list \<Rightarrow> u32 \<Rightarrow> u32 \<Rightarrow> u8 \<Rightarrow> vec_mmu \<Rightarrow> (fault + unit) \<times> vec_mmu" where
  "vm_protect_from [] addr len perm m = (Inr (), m)"
| "vm_protect_from (i # is) addr len perm m =
     (let a = addr + i in
      case word_off m a of
        None \<Rightarrow> (Inl (mk_fault a len Write Unmapped), m)
      | Some (word, off) \<Rightarrow>
          vm_protect_from is addr len perm
            (m\<lparr>vm_perms := all_lanes_at word (\<lambda>w. put_word_byte w off perm) (vm_perms m)\<rparr>))"

definition vm_protect :: "u32 \<Rightarrow> u32 \<Rightarrow> u8 \<Rightarrow> vec_mmu \<Rightarrow> (fault + unit) \<times> vec_mmu" where
  "vm_protect addr len perm m = vm_protect_from (map of_nat [0 ..< unat len]) addr len perm m"

section \<open>One lane\<close>

definition align_checked :: "u32 \<Rightarrow> nat \<Rightarrow> access \<Rightarrow> fault + unit" where
  "align_checked addr sz ac =
     (if sz = 2 then check_align addr 2 ac else if sz = 4 then check_align addr 4 ac else Inr ())"

definition load_lane :: "vec_mmu \<Rightarrow> nat \<Rightarrow> u32 \<Rightarrow> nat \<Rightarrow> fault + u32" where
  "load_lane m lane addr sz =
     bindE (align_checked addr sz Read) (\<lambda>_.
     bindE (ok_or (mk_fault addr (of_nat sz) Read Unmapped) (word_off m addr)) (\<lambda>(word, off).
       let region = region_mask off sz; need = splat_byte PERM_READ AND region; idx = word * LANES + lane in
       if vm_perms m ! idx AND need \<noteq> need then Inl (mk_fault addr (of_nat sz) Read Permission)
       else Inr (drop_bit (unat (off * 8)) (vm_content m ! idx AND region))))"

definition merge_word :: "u32 \<Rightarrow> u32 \<Rightarrow> u32 \<Rightarrow> u32 \<Rightarrow> u32" where
  "merge_word region off old val = (old AND NOT region) OR (push_bit (unat (off * 8)) val AND region)"

definition raw_cleared :: "u32 \<Rightarrow> u32 \<Rightarrow> u32" where
  "raw_cleared region p = (p OR (splat_byte PERM_READ AND region)) AND NOT (splat_byte PERM_RAW AND region)"

definition store_lane :: "vec_mmu \<Rightarrow> nat \<Rightarrow> u32 \<Rightarrow> nat \<Rightarrow> u32 \<Rightarrow> (fault + unit) \<times> vec_mmu" where
  "store_lane m lane addr sz val =
     (case bindE (align_checked addr sz Write) (\<lambda>_.
        ok_or (mk_fault addr (of_nat sz) Write Unmapped) (word_off m addr)) of
        Inl f \<Rightarrow> (Inl f, m)
      | Inr (word, off) \<Rightarrow>
          (let region = region_mask off sz; need = splat_byte PERM_WRITE AND region; idx = word * LANES + lane in
           if vm_perms m ! idx AND need \<noteq> need then (Inl (mk_fault addr (of_nat sz) Write Permission), m)
           else (Inr (), m\<lparr>vm_content := (vm_content m)[idx := merge_word region off (vm_content m ! idx) val],
                           vm_perms := (vm_perms m)[idx := raw_cleared region (vm_perms m ! idx)]\<rparr>)))"

definition ifetch16_lane :: "vec_mmu \<Rightarrow> nat \<Rightarrow> u32 \<Rightarrow> fault + u16" where
  "ifetch16_lane m lane addr =
     bindE (check_align addr 2 Exec) (\<lambda>_.
     bindE (ok_or (mk_fault addr 2 Exec Unmapped) (word_off m addr)) (\<lambda>(word, off).
       let region = region_mask off 2; need = splat_byte PERM_EXEC AND region; idx = word * LANES + lane in
       if vm_perms m ! idx AND need \<noteq> need then Inl (mk_fault addr 2 Exec Permission)
       else Inr (ucast (drop_bit (unat (off * 8)) (vm_content m ! idx AND region) AND 0xFFFF))))"

definition load_gather :: "vec_mmu \<Rightarrow> u32 list \<Rightarrow> nat \<Rightarrow> lane_mask \<Rightarrow> (fault + u32) list" where
  "load_gather m addrs sz active =
     lanewise (\<lambda>lane. if active ! lane then load_lane m lane (addrs ! lane) sz else Inr 0)"

fun store_scatter_from :: "nat list \<Rightarrow> vec_mmu \<Rightarrow> u32 list \<Rightarrow> nat \<Rightarrow> u32 list \<Rightarrow> lane_mask \<Rightarrow> (fault + unit) list \<times> vec_mmu" where
  "store_scatter_from [] m addrs sz vals active = ([], m)"
| "store_scatter_from (lane # ls) m addrs sz vals active =
     (case (if active ! lane then store_lane m lane (addrs ! lane) sz (vals ! lane) else (Inr (), m)) of (r, m1) \<Rightarrow>
      case store_scatter_from ls m1 addrs sz vals active of (rs, m2) \<Rightarrow> (r # rs, m2))"

definition store_scatter :: "vec_mmu \<Rightarrow> u32 list \<Rightarrow> nat \<Rightarrow> u32 list \<Rightarrow> lane_mask \<Rightarrow> (fault + unit) list \<times> vec_mmu" where
  "store_scatter m addrs sz vals active = store_scatter_from [0 ..< LANES] m addrs sz vals active"

section \<open>Gather and scatter\<close>

record addr_plan =
  ap_host_idx :: "nat list"
  ap_region :: simd
  ap_shift :: simd
  ap_valid :: lane_mask

definition gather_addr_plan :: "vec_mmu \<Rightarrow> simd \<Rightarrow> nat \<Rightarrow> lane_mask \<Rightarrow> addr_plan" where
  "gather_addr_plan m addrs sz active =
     (let rel = lanewise (\<lambda>l. addrs ! l - vm_base m);
          word = lanewise (\<lambda>l. drop_bit 2 (rel ! l));
          in_bounds = lanewise (\<lambda>l. vm_base m \<le> addrs ! l \<and> word ! l < of_nat (vm_num_words m));
          align_ok = lanewise (\<lambda>l. sz = 1 \<or> addrs ! l AND (of_nat sz - 1) = 0);
          valid = lanewise (\<lambda>l. active ! l \<and> in_bounds ! l \<and> align_ok ! l);
          word_clamped = simd_select valid word (lanewise (\<lambda>_. 0));
          host_idx = lanewise (\<lambda>l. unat (word_clamped ! l) * LANES + l);
          shift = lanewise (\<lambda>l. (addrs ! l AND 3) * 8);
          bits = sz * 8;
          unshifted = (if 32 \<le> bits then - 1 else push_bit bits 1 - 1);
          region = lanewise (\<lambda>l. push_bit (unat (shift ! l)) unshifted)
      in \<lparr>ap_host_idx = host_idx, ap_region = region, ap_shift = shift, ap_valid = valid\<rparr>)"

definition load_gather_fast :: "vec_mmu \<Rightarrow> simd \<Rightarrow> nat \<Rightarrow> lane_mask \<Rightarrow> simd \<times> lane_mask" where
  "load_gather_fast m addrs sz active =
     (let pl = gather_addr_plan m addrs sz active;
          need = lanewise (\<lambda>l. splat_byte PERM_READ AND ap_region pl ! l);
          perm_line = gather_select (vm_perms m) (ap_valid pl) (ap_host_idx pl) (lanewise (\<lambda>_. 0));
          ok = lanewise (\<lambda>l. ap_valid pl ! l \<and> perm_line ! l AND need ! l = need ! l);
          content_line = gather_select (vm_content m) ok (ap_host_idx pl) (lanewise (\<lambda>_. 0))
      in (lanewise (\<lambda>l. drop_bit (unat (ap_shift pl ! l)) (content_line ! l AND ap_region pl ! l)), ok))"

definition store_scatter_fast :: "vec_mmu \<Rightarrow> simd \<Rightarrow> nat \<Rightarrow> simd \<Rightarrow> lane_mask \<Rightarrow> lane_mask \<times> vec_mmu" where
  "store_scatter_fast m addrs sz vals active =
     (let pl = gather_addr_plan m addrs sz active;
          need = lanewise (\<lambda>l. splat_byte PERM_WRITE AND ap_region pl ! l);
          perm_line = gather_select (vm_perms m) (ap_valid pl) (ap_host_idx pl) (lanewise (\<lambda>_. 0));
          ok = lanewise (\<lambda>l. ap_valid pl ! l \<and> perm_line ! l AND need ! l = need ! l);
          content_line = gather_select (vm_content m) ok (ap_host_idx pl) (lanewise (\<lambda>_. 0));
          shifted = lanewise (\<lambda>l. push_bit (unat (ap_shift pl ! l)) (vals ! l) AND ap_region pl ! l);
          new_content = lanewise (\<lambda>l. (content_line ! l AND NOT (ap_region pl ! l)) OR shifted ! l);
          new_perm = lanewise (\<lambda>l. (perm_line ! l OR (splat_byte PERM_READ AND ap_region pl ! l))
                                AND NOT (splat_byte PERM_RAW AND ap_region pl ! l))
      in (ok, m\<lparr>vm_content := scatter_select new_content (vm_content m) ok (ap_host_idx pl),
                vm_perms := scatter_select new_perm (vm_perms m) ok (ap_host_idx pl)\<rparr>))"

section \<open>All lanes at one address\<close>

definition line_at :: "u32 list \<Rightarrow> nat \<Rightarrow> simd" where
  "line_at xs word = take LANES (drop (word * LANES) xs)"

definition same_declines :: "u32 \<Rightarrow> nat \<Rightarrow> bool" where
  "same_declines addr sz \<longleftrightarrow> sz = 2 \<and> addr mod 2 \<noteq> 0 \<or> sz = 4 \<and> addr mod 4 \<noteq> 0"

definition load_same :: "vec_mmu \<Rightarrow> u32 \<Rightarrow> nat \<Rightarrow> lane_mask \<Rightarrow> simd option" where
  "load_same m addr sz active =
     (if same_declines addr sz then None
      else case word_off m addr of
        None \<Rightarrow> None
      | Some (word, off) \<Rightarrow>
          (let region = region_mask off sz; need = splat_byte PERM_READ AND region;
               perm_line = line_at (vm_perms m) word in
           if any_lane (\<lambda>l. active ! l \<and> perm_line ! l AND need \<noteq> need) then None
           else let content_line = line_at (vm_content m) word in
             Some (lanewise (\<lambda>l. drop_bit (unat (off * 8)) (content_line ! l AND region)))))"

definition store_same :: "vec_mmu \<Rightarrow> u32 \<Rightarrow> nat \<Rightarrow> lane_mask \<Rightarrow> simd \<Rightarrow> bool \<times> vec_mmu" where
  "store_same m addr sz active vals =
     (if same_declines addr sz then (False, m)
      else case word_off m addr of
        None \<Rightarrow> (False, m)
      | Some (word, off) \<Rightarrow>
          (let region = region_mask off sz; need = splat_byte PERM_WRITE AND region;
               perm_line = line_at (vm_perms m) word in
           if any_lane (\<lambda>l. active ! l \<and> perm_line ! l AND need \<noteq> need) then (False, m)
           else
             let content_line = line_at (vm_content m) word;
                 shifted = lanewise (\<lambda>l. push_bit (unat (off * 8)) (vals ! l) AND region);
                 new_content = simd_select active
                   (lanewise (\<lambda>l. (content_line ! l AND NOT region) OR shifted ! l)) content_line;
                 new_perm = simd_select active
                   (lanewise (\<lambda>l. (perm_line ! l OR (splat_byte PERM_READ AND region))
                                AND NOT (splat_byte PERM_RAW AND region))) perm_line
             in (True, m\<lparr>vm_content := blit (vm_content m) (word * LANES) new_content,
                         vm_perms := blit (vm_perms m) (word * LANES) new_perm\<rparr>)))"

definition ifetch16_same :: "vec_mmu \<Rightarrow> u32 \<Rightarrow> lane_mask \<Rightarrow> simd option" where
  "ifetch16_same m addr active =
     (if addr mod 2 \<noteq> 0 then None
      else case word_off m addr of
        None \<Rightarrow> None
      | Some (word, off) \<Rightarrow>
          (let region = region_mask off 2; need = splat_byte PERM_EXEC AND region;
               perm_line = line_at (vm_perms m) word in
           if any_lane (\<lambda>l. active ! l \<and> perm_line ! l AND need \<noteq> need) then None
           else let content_line = line_at (vm_content m) word in
             Some (lanewise (\<lambda>l. drop_bit (unat (off * 8)) (content_line ! l AND region)))))"

end
