(* ===== verification/VecCpu.thy ===== *)
theory VecCpu
  imports VecMmu Cpu
begin

text \<open>
  The lane-parallel executor (\<open>crates/fs-vec/src/lib.rs\<close>): \<open>LANES\<close> user-mode harts in structure-of-
  arrays form over one interleaved memory.  \<open>vec_step\<close> first tries to run one instruction for all
  active lanes at once (\<open>try_simd_fast_step\<close> and the payload of each instruction class) and else
  runs \<open>step_lane\<close> for each active lane.  A payload returns whether it ran, with the new state.  The
  write of a destination vector under a mask, which every payload spells out, is \<open>masked_write\<close>.
  The step counters wrap at 64 bits.
\<close>

section \<open>State\<close>

datatype lane_exit = LaneEcall u32 | LaneEbreak | LaneFault fault | LaneIllegal u32 u32

record vec_cpu =
  vc_regs :: "u32 list list"
  vc_pc :: "u32 list"
  vc_active :: lane_mask
  vc_insns :: "u64 list"
  vc_exit :: "lane_exit option list"
  vc_resv :: "u32 option list"
  simd_alu_steps :: u64
  simd_mem_steps :: u64
  simd_branch_steps :: u64
  simd_gather_steps :: u64
  simd_muldiv_steps :: u64

definition vec_cpu_new :: "u32 \<Rightarrow> vec_cpu" where
  "vec_cpu_new entry =
     \<lparr>vc_regs = replicate 32 (replicate LANES 0), vc_pc = replicate LANES entry,
      vc_active = replicate LANES True, vc_insns = replicate LANES 0, vc_exit = replicate LANES None,
      vc_resv = replicate LANES None, simd_alu_steps = 0, simd_mem_steps = 0, simd_branch_steps = 0,
      simd_gather_steps = 0, simd_muldiv_steps = 0\<rparr>"

definition vec_rd_reg :: "vec_cpu \<Rightarrow> nat \<Rightarrow> u8 \<Rightarrow> u32" where
  "vec_rd_reg c lane i = (if i = 0 then 0 else vc_regs c ! unat i ! lane)"

definition vec_wr_reg :: "nat \<Rightarrow> u8 \<Rightarrow> u32 \<Rightarrow> vec_cpu \<Rightarrow> vec_cpu" where
  "vec_wr_reg lane i v c =
     (if i \<noteq> 0 then c\<lparr>vc_regs := (vc_regs c)[unat i := (vc_regs c ! unat i)[lane := v]]\<rparr> else c)"

definition vec_set_reg :: "nat \<Rightarrow> u8 \<Rightarrow> u32 \<Rightarrow> vec_cpu \<Rightarrow> vec_cpu" where
  "vec_set_reg lane i v c = vec_wr_reg lane i v c"

definition any_active :: "vec_cpu \<Rightarrow> bool" where
  "any_active c = list_ex (\<lambda>a. a) (vc_active c)"

definition lanes_converged :: "vec_cpu \<Rightarrow> bool" where
  "lanes_converged c =
     (case map snd (filter fst (zip (vc_active c) (vc_pc c))) of
        [] \<Rightarrow> True
      | first # pcs \<Rightarrow> list_all (\<lambda>p. p = first) pcs)"

definition first_active :: "lane_mask \<Rightarrow> nat option" where
  "first_active active = find (\<lambda>l. active ! l) [0 ..< LANES]"

section \<open>Arithmetic\<close>

text \<open>The executor's own copies of the scalar functions, and their packed twins.\<close>

fun vec_branch_taken :: "branch_op \<Rightarrow> u32 \<Rightarrow> u32 \<Rightarrow> bool" where
  "vec_branch_taken BEq a b = (a = b)"
| "vec_branch_taken BNe a b = (a \<noteq> b)"
| "vec_branch_taken BLt a b = (sint a < sint b)"
| "vec_branch_taken BGe a b = (sint a \<ge> sint b)"
| "vec_branch_taken BLtu a b = (a < b)"
| "vec_branch_taken BGeu a b = (a \<ge> b)"

fun simd_branch_taken :: "branch_op \<Rightarrow> simd \<Rightarrow> simd \<Rightarrow> lane_mask" where
  "simd_branch_taken BEq a b = lanewise (\<lambda>l. a ! l = b ! l)"
| "simd_branch_taken BNe a b = lanewise (\<lambda>l. a ! l \<noteq> b ! l)"
| "simd_branch_taken BLt a b = lanewise (\<lambda>l. sint (a ! l) < sint (b ! l))"
| "simd_branch_taken BGe a b = lanewise (\<lambda>l. sint (a ! l) \<ge> sint (b ! l))"
| "simd_branch_taken BLtu a b = lanewise (\<lambda>l. a ! l < b ! l)"
| "simd_branch_taken BGeu a b = lanewise (\<lambda>l. a ! l \<ge> b ! l)"

fun vec_alu :: "alu_op \<Rightarrow> u32 \<Rightarrow> u32 \<Rightarrow> u32" where
  "vec_alu AAdd a b = a + b"
| "vec_alu ASub a b = a - b"
| "vec_alu ASll a b = push_bit (unat (b AND 31)) a"
| "vec_alu ASlt a b = (if sint a < sint b then 1 else 0)"
| "vec_alu ASltu a b = (if a < b then 1 else 0)"
| "vec_alu AXor a b = a XOR b"
| "vec_alu ASrl a b = drop_bit (unat (b AND 31)) a"
| "vec_alu ASra a b = signed_drop_bit (unat (b AND 31)) a"
| "vec_alu AOr a b = a OR b"
| "vec_alu AAnd a b = a AND b"

definition simd_alu :: "alu_op \<Rightarrow> simd \<Rightarrow> simd \<Rightarrow> simd" where
  "simd_alu op a b =
     (let shamt = lanewise (\<lambda>l. b ! l AND 31) in
      case op of
        AAdd \<Rightarrow> lanewise (\<lambda>l. a ! l + b ! l)
      | ASub \<Rightarrow> lanewise (\<lambda>l. a ! l - b ! l)
      | ASll \<Rightarrow> lanewise (\<lambda>l. push_bit (unat (shamt ! l)) (a ! l))
      | ASlt \<Rightarrow> simd_select (lanewise (\<lambda>l. sint (a ! l) < sint (b ! l))) (lanewise (\<lambda>_. 1)) (lanewise (\<lambda>_. 0))
      | ASltu \<Rightarrow> simd_select (lanewise (\<lambda>l. a ! l < b ! l)) (lanewise (\<lambda>_. 1)) (lanewise (\<lambda>_. 0))
      | AXor \<Rightarrow> lanewise (\<lambda>l. a ! l XOR b ! l)
      | ASrl \<Rightarrow> lanewise (\<lambda>l. drop_bit (unat (shamt ! l)) (a ! l))
      | ASra \<Rightarrow> lanewise (\<lambda>l. signed_drop_bit (unat (shamt ! l)) (a ! l))
      | AOr \<Rightarrow> lanewise (\<lambda>l. a ! l OR b ! l)
      | AAnd \<Rightarrow> lanewise (\<lambda>l. a ! l AND b ! l))"

fun vec_muldiv :: "mul_op \<Rightarrow> u32 \<Rightarrow> u32 \<Rightarrow> u32" where
  "vec_muldiv MMul a b = a * b"
| "vec_muldiv MMulh a b = ucast (signed_drop_bit 32 ((scast a :: u64) * scast b))"
| "vec_muldiv MMulhsu a b = ucast (signed_drop_bit 32 ((scast a :: u64) * ucast b))"
| "vec_muldiv MMulhu a b = ucast (drop_bit 32 ((ucast a :: u64) * ucast b))"
| "vec_muldiv MDiv a b =
     (if b = 0 then 0xffffffff
      else if a = 0x80000000 \<and> b = 0xffffffff then 0x80000000
      else word_of_int (sint a sdiv sint b))"
| "vec_muldiv MDivu a b = (if b = 0 then 0xffffffff else a div b)"
| "vec_muldiv MRem a b =
     (if b = 0 then a
      else if a = 0x80000000 \<and> b = 0xffffffff then 0
      else word_of_int (sint a smod sint b))"
| "vec_muldiv MRemu a b = (if b = 0 then a else a mod b)"

definition sign_extend_simd :: "simd \<Rightarrow> nat \<Rightarrow> simd" where
  "sign_extend_simd v bits = lanewise (\<lambda>l. signed_drop_bit (32 - bits) (push_bit (32 - bits) (v ! l)))"

definition extend_raw :: "nat \<Rightarrow> bool \<Rightarrow> u32 \<Rightarrow> u32" where
  "extend_raw sz sgd raw =
     (if sgd then
        (if sz = 1 then scast (ucast raw :: u8) else if sz = 2 then scast (ucast raw :: u16) else raw)
      else raw)"

section \<open>The converged fast path\<close>

definition fetch_converged :: "vec_mmu \<Rightarrow> u32 \<Rightarrow> lane_mask \<Rightarrow> (u32 \<times> u32) option" where
  "fetch_converged m pc0 active =
     (case first_active active of
        None \<Rightarrow> None
      | Some first \<Rightarrow>
          (case ifetch16_same m pc0 active of
             None \<Rightarrow> None
           | Some lo_line \<Rightarrow>
               (let lo0 = lo_line ! first in
                if any_lane (\<lambda>l. active ! l \<and> lo_line ! l \<noteq> lo0) then None
                else if lo0 AND 0x3 \<noteq> 0x3 then Some (lo0, 2)
                else case ifetch16_same m (pc0 + 2) active of
                  None \<Rightarrow> None
                | Some hi_line \<Rightarrow>
                    (let hi0 = hi_line ! first in
                     if any_lane (\<lambda>l. active ! l \<and> hi_line ! l \<noteq> hi0) then None
                     else Some (lo0 OR push_bit 16 hi0, 4)))))"

definition advance_pc_converged :: "lane_mask \<Rightarrow> u32 \<Rightarrow> vec_cpu \<Rightarrow> vec_cpu" where
  "advance_pc_converged msk ilen c =
     c\<lparr>vc_pc := simd_select msk (lanewise (\<lambda>l. vc_pc c ! l + ilen)) (vc_pc c)\<rparr>"

definition retire_active :: "lane_mask \<Rightarrow> vec_cpu \<Rightarrow> vec_cpu" where
  "retire_active active c =
     c\<lparr>vc_insns := simd_select active (lanewise (\<lambda>l. vc_insns c ! l + 1)) (vc_insns c)\<rparr>"

definition masked_write :: "lane_mask \<Rightarrow> u8 \<Rightarrow> simd \<Rightarrow> vec_cpu \<Rightarrow> vec_cpu" where
  "masked_write msk rd v c =
     (if rd \<noteq> 0 then c\<lparr>vc_regs := (vc_regs c)[unat rd := simd_select msk v (vc_regs c ! unat rd)]\<rparr> else c)"

definition set_pcs :: "lane_mask \<Rightarrow> simd \<Rightarrow> vec_cpu \<Rightarrow> vec_cpu" where
  "set_pcs msk v c = c\<lparr>vc_pc := simd_select msk v (vc_pc c)\<rparr>"

definition try_simd_lui :: "u8 \<Rightarrow> u32 \<Rightarrow> u32 \<Rightarrow> lane_mask \<Rightarrow> vec_cpu \<Rightarrow> vec_cpu" where
  "try_simd_lui rd imm ilen active c =
     (let c1 = masked_write active rd (lanewise (\<lambda>_. imm)) c;
          c2 = retire_active active (advance_pc_converged active ilen c1)
      in c2\<lparr>simd_alu_steps := simd_alu_steps c2 + 1\<rparr>)"

definition try_simd_auipc :: "u8 \<Rightarrow> u32 \<Rightarrow> u32 \<Rightarrow> lane_mask \<Rightarrow> vec_cpu \<Rightarrow> vec_cpu" where
  "try_simd_auipc rd imm ilen active c =
     (let c1 = masked_write active rd (lanewise (\<lambda>l. vc_pc c ! l + imm)) c;
          c2 = retire_active active (advance_pc_converged active ilen c1)
      in c2\<lparr>simd_alu_steps := simd_alu_steps c2 + 1\<rparr>)"

definition try_simd_alu :: "alu_op \<Rightarrow> u8 \<Rightarrow> u8 \<Rightarrow> simd \<Rightarrow> u32 \<Rightarrow> lane_mask \<Rightarrow> vec_cpu \<Rightarrow> vec_cpu" where
  "try_simd_alu op rd rs1 b ilen active c =
     (let c1 = masked_write active rd (simd_alu op (vc_regs c ! unat rs1) b) c;
          c2 = retire_active active (advance_pc_converged active ilen c1)
      in c2\<lparr>simd_alu_steps := simd_alu_steps c2 + 1\<rparr>)"

definition try_simd_branch :: "branch_op \<Rightarrow> u8 \<Rightarrow> u8 \<Rightarrow> u32 \<Rightarrow> u32 \<Rightarrow> lane_mask \<Rightarrow> vec_cpu \<Rightarrow> vec_cpu" where
  "try_simd_branch op rs1 rs2 imm ilen active c =
     (let taken = simd_branch_taken op (vc_regs c ! unat rs1) (vc_regs c ! unat rs2);
          nxt = simd_select taken (lanewise (\<lambda>l. vc_pc c ! l + imm)) (lanewise (\<lambda>l. vc_pc c ! l + ilen));
          c2 = retire_active active (set_pcs active nxt c)
      in c2\<lparr>simd_branch_steps := simd_branch_steps c2 + 1\<rparr>)"

definition try_simd_jal :: "u8 \<Rightarrow> u32 \<Rightarrow> u32 \<Rightarrow> lane_mask \<Rightarrow> vec_cpu \<Rightarrow> vec_cpu" where
  "try_simd_jal rd imm ilen active c =
     (let target = lanewise (\<lambda>l. vc_pc c ! l + imm);
          link = lanewise (\<lambda>l. vc_pc c ! l + ilen);
          c2 = retire_active active (set_pcs active target (masked_write active rd link c))
      in c2\<lparr>simd_branch_steps := simd_branch_steps c2 + 1\<rparr>)"

definition try_simd_jalr :: "u8 \<Rightarrow> u8 \<Rightarrow> u32 \<Rightarrow> u32 \<Rightarrow> lane_mask \<Rightarrow> vec_cpu \<Rightarrow> vec_cpu" where
  "try_simd_jalr rd rs1 imm ilen active c =
     (let target = lanewise (\<lambda>l. (vc_regs c ! unat rs1 ! l + imm) AND NOT 1);
          link = lanewise (\<lambda>l. vc_pc c ! l + ilen);
          c2 = retire_active active (set_pcs active target (masked_write active rd link c))
      in c2\<lparr>simd_branch_steps := simd_branch_steps c2 + 1\<rparr>)"

definition vec_halt :: "nat \<Rightarrow> lane_exit \<Rightarrow> vec_cpu \<Rightarrow> vec_cpu" where
  "vec_halt lane ex c = c\<lparr>vc_active := (vc_active c)[lane := False], vc_exit := (vc_exit c)[lane := Some ex]\<rparr>"

text \<open>The loop over the lanes: re-services the lanes the gather could not, collecting the values.\<close>

fun gather_load_lanes :: "nat list \<Rightarrow> lane_mask \<Rightarrow> u32 list \<Rightarrow> nat \<Rightarrow> bool \<Rightarrow> vec_mmu \<Rightarrow> simd \<times> lane_mask \<Rightarrow>
    vec_cpu \<times> u32 list \<times> lane_mask \<Rightarrow> vec_cpu \<times> u32 list \<times> lane_mask" where
  "gather_load_lanes [] active addrs sz sgd m fast st = st"
| "gather_load_lanes (lane # ls) active addrs sz sgd m fast (c, values, succeeded) =
     gather_load_lanes ls active addrs sz sgd m fast
       (if \<not> active ! lane then (c, values, succeeded)
        else case (if snd fast ! lane then Inr (fst fast ! lane) else load_lane m lane (addrs ! lane) sz) of
          Inl f \<Rightarrow> (vec_halt lane (LaneFault f) c, values, succeeded[lane := False])
        | Inr raw \<Rightarrow> (c, values[lane := extend_raw sz sgd raw], succeeded))"

definition try_simd_gather_load :: "u8 \<Rightarrow> u32 \<Rightarrow> lane_mask \<Rightarrow> u32 list \<Rightarrow> nat \<Rightarrow> bool \<Rightarrow> vec_mmu \<Rightarrow> vec_cpu \<Rightarrow> vec_cpu" where
  "try_simd_gather_load rd ilen active addrs sz sgd m c =
     (case gather_load_lanes [0 ..< LANES] active addrs sz sgd m (load_gather_fast m addrs sz active)
             (c, replicate LANES 0, active) of (c1, values, succeeded) \<Rightarrow>
        let c2 = retire_active succeeded (advance_pc_converged succeeded ilen (masked_write succeeded rd values c1))
        in c2\<lparr>simd_gather_steps := simd_gather_steps c2 + 1\<rparr>)"

definition try_simd_load :: "load_op \<Rightarrow> u8 \<Rightarrow> u8 \<Rightarrow> u32 \<Rightarrow> u32 \<Rightarrow> lane_mask \<Rightarrow> nat \<Rightarrow> vec_mmu \<Rightarrow> vec_cpu \<Rightarrow> vec_cpu" where
  "try_simd_load op rd rs1 imm ilen active first m c =
     (let addrs = lanewise (\<lambda>l. vc_regs c ! unat rs1 ! l + imm);
          addr0 = addrs ! first;
          sz = fst (load_shape op); sgd = snd (load_shape op) in
      if any_lane (\<lambda>l. active ! l \<and> addrs ! l \<noteq> addr0) then try_simd_gather_load rd ilen active addrs sz sgd m c
      else case load_same m addr0 sz active of
        None \<Rightarrow> try_simd_gather_load rd ilen active addrs sz sgd m c
      | Some raw \<Rightarrow>
          (let v = (if sgd then (if sz = 1 then sign_extend_simd raw 8 else if sz = 2 then sign_extend_simd raw 16 else raw)
                    else raw);
               c2 = retire_active active (advance_pc_converged active ilen (masked_write active rd v c))
           in c2\<lparr>simd_mem_steps := simd_mem_steps c2 + 1\<rparr>))"

fun gather_store_lanes :: "nat list \<Rightarrow> lane_mask \<Rightarrow> u32 list \<Rightarrow> nat \<Rightarrow> u32 list \<Rightarrow> lane_mask \<Rightarrow>
    vec_cpu \<times> vec_mmu \<times> lane_mask \<Rightarrow> vec_cpu \<times> vec_mmu \<times> lane_mask" where
  "gather_store_lanes [] active addrs sz vals ok st = st"
| "gather_store_lanes (lane # ls) active addrs sz vals ok (c, m, succeeded) =
     gather_store_lanes ls active addrs sz vals ok
       (if \<not> active ! lane \<or> ok ! lane then (c, m, succeeded)
        else case store_lane m lane (addrs ! lane) sz (vals ! lane) of
          (Inl f, m1) \<Rightarrow> (vec_halt lane (LaneFault f) c, m1, succeeded[lane := False])
        | (Inr _, m1) \<Rightarrow> (c, m1, succeeded))"

definition try_simd_gather_store :: "u32 \<Rightarrow> lane_mask \<Rightarrow> u32 list \<Rightarrow> nat \<Rightarrow> u32 list \<Rightarrow> vec_mmu \<Rightarrow> vec_cpu \<Rightarrow>
    vec_cpu \<times> vec_mmu" where
  "try_simd_gather_store ilen active addrs sz vals m c =
     (case store_scatter_fast m addrs sz vals active of (ok, m1) \<Rightarrow>
      case gather_store_lanes [0 ..< LANES] active addrs sz vals ok (c, m1, active) of (c1, m2, succeeded) \<Rightarrow>
        let c2 = retire_active succeeded (advance_pc_converged succeeded ilen c1)
        in (c2\<lparr>simd_gather_steps := simd_gather_steps c2 + 1\<rparr>, m2))"

definition try_simd_store :: "store_op \<Rightarrow> u8 \<Rightarrow> u8 \<Rightarrow> u32 \<Rightarrow> u32 \<Rightarrow> lane_mask \<Rightarrow> nat \<Rightarrow> vec_mmu \<Rightarrow> vec_cpu \<Rightarrow>
    vec_cpu \<times> vec_mmu" where
  "try_simd_store op rs1 rs2 imm ilen active first m c =
     (let addrs = lanewise (\<lambda>l. vc_regs c ! unat rs1 ! l + imm);
          addr0 = addrs ! first;
          sz = store_size op;
          vals = vc_regs c ! unat rs2 in
      if any_lane (\<lambda>l. active ! l \<and> addrs ! l \<noteq> addr0) then try_simd_gather_store ilen active addrs sz vals m c
      else case store_same m addr0 sz active vals of
        (False, m1) \<Rightarrow> try_simd_gather_store ilen active addrs sz vals m1 c
      | (True, m1) \<Rightarrow>
          (let c2 = retire_active active (advance_pc_converged active ilen c)
           in (c2\<lparr>simd_mem_steps := simd_mem_steps c2 + 1\<rparr>, m1)))"

definition try_simd_mul :: "mul_op \<Rightarrow> u8 \<Rightarrow> u8 \<Rightarrow> u8 \<Rightarrow> u32 \<Rightarrow> lane_mask \<Rightarrow> vec_cpu \<Rightarrow> vec_cpu" where
  "try_simd_mul op rd rs1 rs2 ilen active c =
     (let a = vc_regs c ! unat rs1; b = vc_regs c ! unat rs2;
          res = lanewise (\<lambda>l. if active ! l then vec_muldiv op (a ! l) (b ! l) else 0);
          c2 = retire_active active (advance_pc_converged active ilen (masked_write active rd res c))
      in c2\<lparr>simd_muldiv_steps := simd_muldiv_steps c2 + 1\<rparr>)"

text \<open>\<open>None\<close> is the decline, which has changed nothing.\<close>

definition try_simd_fast_step :: "vec_cpu \<Rightarrow> vec_mmu \<Rightarrow> (vec_cpu \<times> vec_mmu) option" where
  "try_simd_fast_step c m =
     (let active = vc_active c in
      if \<not> lanes_converged c then None
      else case first_active active of
        None \<Rightarrow> None
      | Some first \<Rightarrow>
          (case fetch_converged m (vc_pc c ! first) active of
             None \<Rightarrow> None
           | Some (iword, ilen) \<Rightarrow>
               (case (if ilen = 2 then decode_compressed (ucast iword) else decode iword) of
                  Lui rd imm \<Rightarrow> Some (try_simd_lui rd imm ilen active c, m)
                | Auipc rd imm \<Rightarrow> Some (try_simd_auipc rd imm ilen active c, m)
                | OpImm op rd rs1 imm \<Rightarrow> Some (try_simd_alu op rd rs1 (lanewise (\<lambda>_. imm)) ilen active c, m)
                | Op op rd rs1 rs2 \<Rightarrow> Some (try_simd_alu op rd rs1 (vc_regs c ! unat rs2) ilen active c, m)
                | Branch op rs1 rs2 imm \<Rightarrow> Some (try_simd_branch op rs1 rs2 imm ilen active c, m)
                | Jal rd imm \<Rightarrow> Some (try_simd_jal rd imm ilen active c, m)
                | Jalr rd rs1 imm \<Rightarrow> Some (try_simd_jalr rd rs1 imm ilen active c, m)
                | Load op rd rs1 imm \<Rightarrow> Some (try_simd_load op rd rs1 imm ilen active first m c, m)
                | Store op rs1 rs2 imm \<Rightarrow> Some (try_simd_store op rs1 rs2 imm ilen active first m c)
                | Mul op rd rs1 rs2 \<Rightarrow> Some (try_simd_mul op rd rs1 rs2 ilen active c, m)
                | _ \<Rightarrow> None)))"

section \<open>One lane at a time\<close>

definition vec_finish :: "nat \<Rightarrow> u32 \<Rightarrow> vec_cpu \<Rightarrow> vec_cpu" where
  "vec_finish lane nxt c =
     c\<lparr>vc_pc := (vc_pc c)[lane := nxt], vc_insns := (vc_insns c)[lane := vc_insns c ! lane + 1]\<rparr>"

definition vec_mem :: "nat \<Rightarrow> fault + 'a \<Rightarrow> vec_cpu \<Rightarrow> vec_mmu \<Rightarrow> ('a \<Rightarrow> vec_cpu \<times> vec_mmu) \<Rightarrow> vec_cpu \<times> vec_mmu" where
  "vec_mem lane r c m k = (case r of Inl f \<Rightarrow> (vec_halt lane (LaneFault f) c, m) | Inr v \<Rightarrow> k v)"

fun vec_amo :: "amo_op \<Rightarrow> u32 \<Rightarrow> u32 \<Rightarrow> u32" where
  "vec_amo AmoSwap old src = src"
| "vec_amo AmoAdd old src = old + src"
| "vec_amo AmoXor old src = old XOR src"
| "vec_amo AmoAnd old src = old AND src"
| "vec_amo AmoOr old src = old OR src"
| "vec_amo AmoMin old src = (if sint src < sint old then src else old)"
| "vec_amo AmoMax old src = (if sint src \<ge> sint old then src else old)"
| "vec_amo AmoMinu old src = min old src"
| "vec_amo AmoMaxu old src = max old src"

fun step_lane_inst :: "nat \<Rightarrow> inst \<Rightarrow> u32 \<Rightarrow> u32 \<Rightarrow> u32 \<Rightarrow> vec_cpu \<Rightarrow> vec_mmu \<Rightarrow> vec_cpu \<times> vec_mmu" where
  "step_lane_inst l (Lui rd imm) ipc nxt iword c m = (vec_finish l nxt (vec_wr_reg l rd imm c), m)"
| "step_lane_inst l (Auipc rd imm) ipc nxt iword c m = (vec_finish l nxt (vec_wr_reg l rd (ipc + imm) c), m)"
| "step_lane_inst l (Jal rd imm) ipc nxt iword c m = (vec_finish l (ipc + imm) (vec_wr_reg l rd nxt c), m)"
| "step_lane_inst l (Jalr rd rs1 imm) ipc nxt iword c m =
     (vec_finish l ((vec_rd_reg c l rs1 + imm) AND NOT 1) (vec_wr_reg l rd nxt c), m)"
| "step_lane_inst l (Branch op rs1 rs2 imm) ipc nxt iword c m =
     (vec_finish l (if vec_branch_taken op (vec_rd_reg c l rs1) (vec_rd_reg c l rs2) then ipc + imm else nxt) c, m)"
| "step_lane_inst l (Load op rd rs1 imm) ipc nxt iword c m =
     (let addr = vec_rd_reg c l rs1 + imm; sz = fst (load_shape op) in
      vec_mem l (load_lane m l addr sz) c m (\<lambda>raw.
        (vec_finish l nxt (vec_wr_reg l rd (extend_raw sz (snd (load_shape op)) raw) c), m)))"
| "step_lane_inst l (Store op rs1 rs2 imm) ipc nxt iword c m =
     (case store_lane m l (vec_rd_reg c l rs1 + imm) (store_size op) (vec_rd_reg c l rs2) of (r, m1) \<Rightarrow>
        vec_mem l r c m1 (\<lambda>_. (vec_finish l nxt c, m1)))"
| "step_lane_inst l (OpImm op rd rs1 imm) ipc nxt iword c m =
     (vec_finish l nxt (vec_wr_reg l rd (vec_alu op (vec_rd_reg c l rs1) imm) c), m)"
| "step_lane_inst l (Op op rd rs1 rs2) ipc nxt iword c m =
     (vec_finish l nxt (vec_wr_reg l rd (vec_alu op (vec_rd_reg c l rs1) (vec_rd_reg c l rs2)) c), m)"
| "step_lane_inst l (Mul op rd rs1 rs2) ipc nxt iword c m =
     (vec_finish l nxt (vec_wr_reg l rd (vec_muldiv op (vec_rd_reg c l rs1) (vec_rd_reg c l rs2)) c), m)"
| "step_lane_inst l (LrW rd rs1 aq rl) ipc nxt iword c m =
     (let addr = vec_rd_reg c l rs1 in
      vec_mem l (load_lane m l addr 4) c m (\<lambda>v.
        (vec_finish l nxt (vec_wr_reg l rd v (c\<lparr>vc_resv := (vc_resv c)[l := Some addr]\<rparr>)), m)))"
| "step_lane_inst l (ScW rd rs1 rs2 aq rl) ipc nxt iword c m =
     (let addr = vec_rd_reg c l rs1; success = (vc_resv c ! l = Some addr) in
      case (if success then store_lane m l addr 4 (vec_rd_reg c l rs2) else (Inr (), m)) of (r, m1) \<Rightarrow>
        vec_mem l r c m1 (\<lambda>_.
          (vec_finish l nxt (vec_wr_reg l rd (if success then 0 else 1) (c\<lparr>vc_resv := (vc_resv c)[l := None]\<rparr>)), m1)))"
| "step_lane_inst l (AmoW op rd rs1 rs2 aq rl) ipc nxt iword c m =
     (let addr = vec_rd_reg c l rs1 in
      vec_mem l (load_lane m l addr 4) c m (\<lambda>old.
        case store_lane m l addr 4 (vec_amo op old (vec_rd_reg c l rs2)) of (r, m1) \<Rightarrow>
          vec_mem l r c m1 (\<lambda>_.
            (vec_finish l nxt (vec_wr_reg l rd old (c\<lparr>vc_resv := (vc_resv c)[l := None]\<rparr>)), m1))))"
| "step_lane_inst l Fence ipc nxt iword c m = (vec_finish l nxt c, m)"
| "step_lane_inst l Ecall ipc nxt iword c m = (vec_halt l (LaneEcall (vec_rd_reg c l 10)) c, m)"
| "step_lane_inst l Ebreak ipc nxt iword c m = (vec_halt l LaneEbreak c, m)"
| "step_lane_inst l (Illegal raw) ipc nxt iword c m = (vec_halt l (LaneIllegal ipc raw) c, m)"
| "step_lane_inst l _ ipc nxt iword c m = (vec_halt l (LaneIllegal ipc iword) c, m)"

definition step_lane :: "nat \<Rightarrow> vec_cpu \<times> vec_mmu \<Rightarrow> vec_cpu \<times> vec_mmu" where
  "step_lane l cm =
     (case cm of (c, m) \<Rightarrow>
      let ipc = vc_pc c ! l in
      vec_mem l (ifetch16_lane m l ipc) c m (\<lambda>lo.
        if lo AND 0x3 \<noteq> 0x3 then step_lane_inst l (decode_compressed lo) ipc (ipc + 2) (ucast lo) c m
        else vec_mem l (ifetch16_lane m l (ipc + 2)) c m (\<lambda>hi.
          let w = ucast lo OR push_bit 16 (ucast hi) in step_lane_inst l (decode w) ipc (ipc + 4) w c m)))"

definition step_all_lanes :: "vec_cpu \<times> vec_mmu \<Rightarrow> vec_cpu \<times> vec_mmu" where
  "step_all_lanes cm = foldl (\<lambda>cm l. if vc_active (fst cm) ! l then step_lane l cm else cm) cm [0 ..< LANES]"

definition vec_step :: "vec_cpu \<times> vec_mmu \<Rightarrow> vec_cpu \<times> vec_mmu" where
  "vec_step cm =
     (case try_simd_fast_step (fst cm) (snd cm) of
        Some cm' \<Rightarrow> cm'
      | None \<Rightarrow> step_all_lanes cm)"

end
