(* ===== verification/Vec_Lanes.thy ===== *)
theory Vec_Lanes
  imports VecCpu Core
begin

text \<open>
  What one lane of the lane-parallel executor sees.  A lane's memory (\<open>lane_mem\<close>) is its column of the
  interleaved store; every access of the store, lane by lane, gathered, scattered or packed, is shown
  to be that lane's own access and to leave the other columns alone.  The reference machine of one
  lane is \<open>lane_step\<close>; \<open>lane_view\<close> is the abstraction function from the executor's state, and
  \<open>step_all_lanes\<close>, the loop over the lanes, steps each active lane's view.
\<close>

section \<open>The memory of one lane\<close>

record lane_mem =
  lm_base :: u32
  lm_content :: "u32 list"
  lm_perms :: "u32 list"

definition lm_word_off :: "lane_mem \<Rightarrow> u32 \<Rightarrow> (nat \<times> u32) option" where
  "lm_word_off m addr =
     (if addr < lm_base m then None
      else let rel = unat (addr - lm_base m) in
        if rel div 4 < length (lm_content m) then Some (rel div 4, of_nat (rel mod 4)) else None)"

definition lm_get :: "u8 \<Rightarrow> access \<Rightarrow> lane_mem \<Rightarrow> u32 \<Rightarrow> nat \<Rightarrow> fault + u32" where
  "lm_get perm ac m addr sz =
     bindE (align_checked addr sz ac) (\<lambda>_.
     bindE (ok_or (mk_fault addr (of_nat sz) ac Unmapped) (lm_word_off m addr)) (\<lambda>(word, off).
       let region = region_mask off sz; need = splat_byte perm AND region in
       if lm_perms m ! word AND need \<noteq> need then Inl (mk_fault addr (of_nat sz) ac Permission)
       else Inr (drop_bit (unat (off * 8)) (lm_content m ! word AND region))))"

definition lm_load :: "lane_mem \<Rightarrow> u32 \<Rightarrow> nat \<Rightarrow> fault + u32" where
  "lm_load = lm_get PERM_READ Read"

definition lm_ifetch :: "lane_mem \<Rightarrow> u32 \<Rightarrow> fault + u16" where
  "lm_ifetch m addr = map_ok (\<lambda>w. ucast (w AND 0xFFFF)) (lm_get PERM_EXEC Exec m addr 2)"

definition lm_store :: "lane_mem \<Rightarrow> u32 \<Rightarrow> nat \<Rightarrow> u32 \<Rightarrow> (fault + unit) \<times> lane_mem" where
  "lm_store m addr sz val =
     (case bindE (align_checked addr sz Write) (\<lambda>_.
        ok_or (mk_fault addr (of_nat sz) Write Unmapped) (lm_word_off m addr)) of
        Inl f \<Rightarrow> (Inl f, m)
      | Inr (word, off) \<Rightarrow>
          (let region = region_mask off sz; need = splat_byte PERM_WRITE AND region in
           if lm_perms m ! word AND need \<noteq> need then (Inl (mk_fault addr (of_nat sz) Write Permission), m)
           else (Inr (), m\<lparr>lm_content := (lm_content m)[word := merge_word region off (lm_content m ! word) val],
                           lm_perms := (lm_perms m)[word := raw_cleared region (lm_perms m ! word)]\<rparr>)))"

section \<open>The lanes of the interleaved store\<close>

definition vm_wf :: "vec_mmu \<Rightarrow> bool" where
  "vm_wf m \<longleftrightarrow> vm_base m AND 3 = 0 \<and> vm_num_words m < 2 ^ 32 \<and>
     length (vm_content m) = vm_num_words m * LANES \<and> length (vm_perms m) = vm_num_words m * LANES"

definition lane_col :: "nat \<Rightarrow> u32 list \<Rightarrow> nat \<Rightarrow> u32 list" where
  "lane_col n xs l = map (\<lambda>w. xs ! (w * LANES + l)) [0 ..< n]"

definition lane_mem_of :: "vec_mmu \<Rightarrow> nat \<Rightarrow> lane_mem" where
  "lane_mem_of m l =
     \<lparr>lm_base = vm_base m, lm_content = lane_col (vm_num_words m) (vm_content m) l,
      lm_perms = lane_col (vm_num_words m) (vm_perms m) l\<rparr>"

lemma length_lane_col [simp]: "length (lane_col n xs l) = n"
  by (simp add: lane_col_def)

lemma nth_lane_col [simp]: "w < n \<Longrightarrow> lane_col n xs l ! w = xs ! (w * LANES + l)"
  by (simp add: lane_col_def)

lemma lane_mem_of_sel [simp]:
  "lm_base (lane_mem_of m l) = vm_base m"
  "lm_content (lane_mem_of m l) = lane_col (vm_num_words m) (vm_content m) l"
  "lm_perms (lane_mem_of m l) = lane_col (vm_num_words m) (vm_perms m) l"
  by (simp_all add: lane_mem_of_def)

lemma slot_div [simp]: "l < LANES \<Longrightarrow> (w * LANES + l) div LANES = w" "l < LANES \<Longrightarrow> (w * LANES + l) mod LANES = l"
  by simp_all

lemma slot_eq: "l < LANES \<Longrightarrow> k < LANES \<Longrightarrow> w * LANES + l = w' * LANES + k \<longleftrightarrow> w = w' \<and> l = k"
  by (metis slot_div)

lemma line_le: "w < n \<Longrightarrow> w * LANES + LANES \<le> n * LANES"
  by (metis Suc_leI add.commute mult_Suc mult_le_mono1)

lemma slot_lt: "w < n \<Longrightarrow> l < LANES \<Longrightarrow> w * LANES + l < n * LANES"
  by (rule less_le_trans [OF _ line_le]) simp_all

lemma lane_col_update:
  "l < LANES \<Longrightarrow> k < LANES \<Longrightarrow> w < n \<Longrightarrow> length xs = n * LANES \<Longrightarrow>
    lane_col n (xs[w * LANES + l := v]) k = (if k = l then (lane_col n xs k)[w := v] else lane_col n xs k)"
  by (rule nth_equalityI) (auto simp: nth_list_update slot_eq slot_lt)

lemma word_off_lane: "lm_word_off (lane_mem_of m l) addr = word_off m addr"
  by (simp add: lm_word_off_def word_off_def Let_def)

lemma word_off_lt: "word_off m addr = Some (w, off) \<Longrightarrow> w < vm_num_words m"
  by (auto simp: word_off_def Let_def split: if_splits)

lemma ok_or_Inr: "ok_or e x = Inr v \<longleftrightarrow> x = Some v"
  by (auto simp: ok_or_def split: option.split)

lemma load_lane_is: "load_lane m l addr sz = lm_load (lane_mem_of m l) addr sz"
  unfolding load_lane_def lm_load_def lm_get_def word_off_lane
  by (cases "align_checked addr sz Read"; cases "word_off m addr") (auto simp: ok_or_def Let_def dest: word_off_lt)

lemma ifetch16_lane_is: "ifetch16_lane m l addr = lm_ifetch (lane_mem_of m l) addr"
  unfolding ifetch16_lane_def lm_ifetch_def lm_get_def word_off_lane align_checked_def
  by (cases "check_align addr 2 Exec"; cases "word_off m addr") (auto simp: ok_or_def Let_def dest: word_off_lt)

lemma lm_store_Some:
  assumes "align_checked addr sz Write = Inr ()" "word_off m addr = Some (w, off)"
  defines "region \<equiv> region_mask off sz"
  shows "lm_store (lane_mem_of m l) addr sz val =
    (if vm_perms m ! (w * LANES + l) AND (splat_byte PERM_WRITE AND region) = splat_byte PERM_WRITE AND region
     then (Inr (), \<lparr>lm_base = vm_base m,
       lm_content = (lane_col (vm_num_words m) (vm_content m) l)[w := merge_word region off (vm_content m ! (w * LANES + l)) val],
       lm_perms = (lane_col (vm_num_words m) (vm_perms m) l)[w := raw_cleared region (vm_perms m ! (w * LANES + l))]\<rparr>)
     else (Inl (mk_fault addr (of_nat sz) Write Permission), lane_mem_of m l))"
  using word_off_lt [OF assms(2)]
  by (simp add: lm_store_def word_off_lane assms ok_or_def Let_def)

lemma store_lane_is:
  assumes "vm_wf m" "l < LANES" "store_lane m l addr sz val = (r, m')"
  shows "vm_wf m'" "r = fst (lm_store (lane_mem_of m l) addr sz val)"
    "\<And>k. k < LANES \<Longrightarrow> lane_mem_of m' k = (if k = l then snd (lm_store (lane_mem_of m l) addr sz val) else lane_mem_of m k)"
proof -
  consider f where "align_checked addr sz Write = Inl f" | "align_checked addr sz Write = Inr ()" "word_off m addr = None"
    | w off where "align_checked addr sz Write = Inr ()" "word_off m addr = Some (w, off)"
    by (cases "align_checked addr sz Write"; cases "word_off m addr") auto
  then have "vm_wf m' \<and> r = fst (lm_store (lane_mem_of m l) addr sz val) \<and>
    (\<forall>k < LANES. lane_mem_of m' k = (if k = l then snd (lm_store (lane_mem_of m l) addr sz val) else lane_mem_of m k))"
  proof cases
    case (3 w off)
    note lt = word_off_lt [OF 3(2)]
    show ?thesis
      using assms lt unfolding lm_store_Some [OF 3]
      by (auto simp: store_lane_def 3 ok_or_def Let_def vm_wf_def lane_mem_of_def lane_col_update split: if_splits)
  next
    case 2
    then show ?thesis
      using assms by (simp add: store_lane_def lm_store_def word_off_lane ok_or_def)
  next
    case (1 f)
    then have "r = Inl f" "m' = m" using assms(3) by (simp_all add: store_lane_def)
    then show ?thesis using assms(1) by (simp add: lm_store_def 1)
  qed
  then show "vm_wf m'" "r = fst (lm_store (lane_mem_of m l) addr sz val)"
    "\<And>k. k < LANES \<Longrightarrow> lane_mem_of m' k = (if k = l then snd (lm_store (lane_mem_of m l) addr sz val) else lane_mem_of m k)"
    by auto
qed

section \<open>One address for all lanes\<close>

lemma nth_line_at: "length xs = n * LANES \<Longrightarrow> w < n \<Longrightarrow> l < LANES \<Longrightarrow> line_at xs w ! l = xs ! (w * LANES + l)"
proof -
  assume a: "length xs = n * LANES" "w < n" "l < LANES"
  then have "w * LANES + LANES \<le> n * LANES" by (intro line_le)
  then show ?thesis using a by (simp add: line_at_def)
qed

lemma same_declines_iff: "same_declines addr sz \<longleftrightarrow> align_checked addr sz ac \<noteq> Inr ()"
  by (auto simp: same_declines_def align_checked_def check_align_def)

lemma align_checked_Inr: "\<not> same_declines addr sz \<Longrightarrow> align_checked addr sz ac = Inr ()"
  using same_declines_iff [of addr sz ac] by simp

lemma load_same_lane:
  assumes "vm_wf m" "load_same m addr sz active = Some v" "l < LANES" "active ! l"
  shows "lm_load (lane_mem_of m l) addr sz = Inr (v ! l)"
proof -
  obtain w off where w: "\<not> same_declines addr sz" "word_off m addr = Some (w, off)"
    using assms(2) by (auto simp: load_same_def split: if_splits option.splits)
  show ?thesis
    using assms w word_off_lt [OF w(2)]
    by (auto simp: lm_load_def lm_get_def align_checked_Inr word_off_lane ok_or_def Let_def load_same_def any_lane_iff
        nth_line_at vm_wf_def split: if_splits)
qed

lemma ifetch16_same_lane:
  assumes "vm_wf m" "ifetch16_same m addr active = Some v" "l < LANES" "active ! l"
  shows "lm_get PERM_EXEC Exec (lane_mem_of m l) addr 2 = Inr (v ! l)"
proof -
  obtain w off where w: "addr mod 2 = 0" "word_off m addr = Some (w, off)"
    using assms(2) by (auto simp: ifetch16_same_def split: if_splits option.splits)
  show ?thesis
    using assms w word_off_lt [OF w(2)]
    by (auto simp: lm_get_def align_checked_def check_align_def word_off_lane ok_or_def Let_def ifetch16_same_def any_lane_iff
        nth_line_at vm_wf_def split: if_splits)
qed

lemma lane_col_blit:
  assumes "length xs = n * LANES" "w < n" "k < LANES" "length ys = LANES"
  shows "lane_col n (blit xs (w * LANES) ys) k = (lane_col n xs k)[w := ys ! k]"
proof (rule nth_equalityI)
  have le: "w * LANES + LANES \<le> n * LANES" using assms(2) by (rule line_le)
  fix i assume i: "i < length (lane_col n (blit xs (w * LANES) ys) k)"
  have "i = w" if "w * LANES \<le> i * LANES + k" "i * LANES + k < w * LANES + LANES"
    using div_le_mono [OF that(1), of LANES] less_mult_imp_div_less [of "i * LANES + k" "Suc w" LANES] that(2)
      slot_div(1) [OF assms(3), of i] slot_div(1) [of 0 w] assms(3) by simp
  then have "w * LANES \<le> i * LANES + k \<and> i * LANES + k < w * LANES + LANES \<longleftrightarrow> i = w"
    using assms(3) by auto
  then show "lane_col n (blit xs (w * LANES) ys) k ! i = (lane_col n xs k)[w := ys ! k] ! i"
    using i le assms slot_lt [of i n k] by (auto simp: nth_blit nth_list_update)
qed simp

lemma store_same_lane:
  assumes "vm_wf m" "store_same m addr sz active vals = (True, m')"
  shows "vm_wf m'" "\<And>k. k < LANES \<Longrightarrow> active ! k \<Longrightarrow> fst (lm_store (lane_mem_of m k) addr sz (vals ! k)) = Inr ()"
    "\<And>k. k < LANES \<Longrightarrow> lane_mem_of m' k =
       (if active ! k then snd (lm_store (lane_mem_of m k) addr sz (vals ! k)) else lane_mem_of m k)"
proof -
  obtain w off where w: "\<not> same_declines addr sz" "word_off m addr = Some (w, off)"
    using assms(2) by (auto simp: store_same_def split: if_splits option.splits)
  have lt: "w < vm_num_words m" by (rule word_off_lt [OF w(2)])
  have le: "w * LANES + LANES \<le> vm_num_words m * LANES" using lt by (rule line_le)
  have len: "length (vm_content m) = vm_num_words m * LANES" "length (vm_perms m) = vm_num_words m * LANES"
    using assms(1) by (simp_all add: vm_wf_def)
  note st = assms(2) [unfolded store_same_def, simplified w, simplified, unfolded Let_def]
  show "vm_wf m'" using st assms(1) le by (auto simp: vm_wf_def split: if_splits)
  note lm = lm_store_Some [OF align_checked_Inr [OF w(1)] w(2)]
  have perm: "vm_perms m ! (w * LANES + k) AND (splat_byte PERM_WRITE AND region_mask off sz) = splat_byte PERM_WRITE AND region_mask off sz"
    if "k < LANES" "active ! k" for k
    using st that lt len by (auto simp: any_lane_iff nth_line_at split: if_splits)
  show "fst (lm_store (lane_mem_of m k) addr sz (vals ! k)) = Inr ()" if "k < LANES" "active ! k" for k
    using perm [OF that] by (simp add: lm)
  show "lane_mem_of m' k = (if active ! k then snd (lm_store (lane_mem_of m k) addr sz (vals ! k)) else lane_mem_of m k)"
    if "k < LANES" for k
    using st that lt len perm [OF that] unfolding lm
    by (auto simp: lane_mem_of_def lane_col_blit nth_line_at merge_word_def raw_cleared_def list_update_same_conv split: if_splits)
qed

lemma store_same_declined: "store_same m addr sz active vals = (False, m') \<Longrightarrow> m' = m"
  by (auto simp: store_same_def Let_def split: if_splits option.splits)

section \<open>Gather and scatter\<close>

lemma low2: "(x :: u32) AND 3 = x mod 4" "(x :: u32) AND 1 = x mod 2"
proof -
  have "x AND mask 2 = x mod 4" by (simp add: take_bit_eq_mask [symmetric] take_bit_eq_mod)
  then show "x AND 3 = x mod 4" by (simp add: mask_numeral)
qed (rule and_one_eq)

lemma word_off_plan:
  assumes "vm_wf m" "vm_base m \<le> addr" "drop_bit 2 (addr - vm_base m) < of_nat (vm_num_words m)"
  shows "word_off m addr = Some (unat (drop_bit 2 (addr - vm_base m)), addr AND 3)"
proof -
  let ?rel = "addr - vm_base m"
  have "vm_base m mod 4 = 0" using assms(1) by (simp add: vm_wf_def low2)
  then have "unat (vm_base m) mod 4 = 0" using unat_mod_distrib [of "vm_base m" 4] by simp
  then obtain q where "unat (vm_base m) = 4 * q" by auto
  moreover have "unat addr = unat ?rel + unat (vm_base m)" using assms(2) by (simp add: unat_sub word_le_nat_alt)
  ultimately have "unat ?rel mod 4 = unat addr mod 4" by simp
  then have "of_nat (unat ?rel mod 4) = addr AND 3" by (simp add: low2 word_arith_nat_mod)
  moreover have "unat (drop_bit 2 ?rel) = unat ?rel div 4" by (simp add: drop_bit_eq_div unat_div_distrib)
  moreover have "unat (drop_bit 2 ?rel) < vm_num_words m"
    using assms(1,3) by (simp add: vm_wf_def word_less_nat_alt unat_of_nat take_bit_nat_eq_self)
  ultimately show ?thesis
    using assms(1,2) by (simp add: word_off_def Let_def not_less vm_wf_def)
qed

lemma natural_direct:
  assumes "unat a mod sz = 0" "sz \<in> {1, 2, 4}"
  shows "\<not> misaligned a sz" "\<not> crosses_page a sz"
proof -
  show "\<not> misaligned a sz"
    using assms unat_mod_distrib [of a 2] unat_mod_distrib [of a 4] by (auto simp: misaligned_def low2 word_unat_eq_iff)
  have "a AND mask 12 = a mod 4096" by (simp add: take_bit_eq_mask [symmetric] take_bit_eq_mod)
  then have "unat (a AND 0xfff) = unat a mod 4096" by (simp add: mask_eq_exp_minus_1 unat_mod_distrib)
  moreover have "x mod 4096 + sz \<le> 4096" if "x mod sz = 0" for x :: nat
  proof -
    have "x mod 4096 mod sz = 0" using that assms(2) by (auto simp: mod_mod_cancel)
    moreover have "y + sz \<le> 4096" if "y < 4096" "y mod sz = 0" for y :: nat
      using that assms(2) by (auto; presburger)
    ultimately show ?thesis by simp
  qed
  ultimately show "\<not> crosses_page a sz" using assms(1) by (simp add: crosses_page_def not_less)
qed

lemma plan_valid:
  assumes "vm_wf m" "l < LANES" "ap_valid (gather_addr_plan m addrs sz active) ! l" "sz \<in> {1, 2, 4}"
  obtains w off where "active ! l" "align_checked (addrs ! l) sz ac = Inr ()" "word_off m (addrs ! l) = Some (w, off)"
    "ap_host_idx (gather_addr_plan m addrs sz active) ! l = w * LANES + l"
    "ap_region (gather_addr_plan m addrs sz active) ! l = region_mask off sz"
    "ap_shift (gather_addr_plan m addrs sz active) ! l = off * 8"
proof
  let ?addr = "addrs ! l"
  let ?w = "unat (drop_bit 2 (?addr - vm_base m))" and ?off = "?addr AND 3"
  have v: "active ! l" "vm_base m \<le> ?addr" "drop_bit 2 (?addr - vm_base m) < of_nat (vm_num_words m)"
    "sz = 1 \<or> ?addr AND (of_nat sz - 1) = 0"
    using assms(2,3) by (simp_all add: gather_addr_plan_def Let_def)
  show "active ! l" by (rule v(1))
  show "align_checked ?addr sz ac = Inr ()"
    using v(4) assms(4) by (auto simp: align_checked_def check_align_def low2)
  show "word_off m ?addr = Some (?w, ?off)" by (rule word_off_plan [OF assms(1) v(2,3)])
  show "ap_host_idx (gather_addr_plan m addrs sz active) ! l = ?w * LANES + l"
    "ap_region (gather_addr_plan m addrs sz active) ! l = region_mask ?off sz"
    "ap_shift (gather_addr_plan m addrs sz active) ! l = ?off * 8"
    using assms(2) v by (simp_all add: gather_addr_plan_def Let_def region_mask_def)
qed

lemma load_gather_fast_lane:
  assumes "vm_wf m" "load_gather_fast m addrs sz active = (v, ok)" "l < LANES" "ok ! l" "sz \<in> {1, 2, 4}"
  shows "lm_load (lane_mem_of m l) (addrs ! l) sz = Inr (v ! l)"
proof -
  let ?p = "gather_addr_plan m addrs sz active"
  have ok: "ap_valid ?p ! l" using assms(2,3,4) by (auto simp: load_gather_fast_def Let_def)
  obtain w off where p: "align_checked (addrs ! l) sz Read = Inr ()" "word_off m (addrs ! l) = Some (w, off)"
    "ap_host_idx ?p ! l = w * LANES + l" "ap_region ?p ! l = region_mask off sz" "ap_shift ?p ! l = off * 8"
    by (rule plan_valid [OF assms(1,3) ok assms(5)])
  have "w * LANES + l < length (vm_perms m)" "w * LANES + l < length (vm_content m)"
    using word_off_lt [OF p(2)] assms(1,3) by (simp_all add: vm_wf_def slot_lt)
  with assms(2,3,4) ok show ?thesis
    by (auto simp: load_gather_fast_def Let_def gather_select_def p lm_load_def lm_get_def word_off_lane ok_or_def word_off_lt [OF p(2)])
qed

lemma scatter_lanes:
  assumes "\<And>l. l < LANES \<Longrightarrow> enable ! l \<Longrightarrow> idxs ! l = w l * LANES + l \<and> w l < n" "k < LANES"
  shows "length xs = n * LANES \<Longrightarrow> distinct ls \<Longrightarrow> \<forall>l \<in> set ls. l < LANES \<Longrightarrow>
    length (foldl (\<lambda>xs l. if enable ! l \<and> idxs ! l < length xs then xs[idxs ! l := vals ! l] else xs) xs ls) = n * LANES \<and>
    lane_col n (foldl (\<lambda>xs l. if enable ! l \<and> idxs ! l < length xs then xs[idxs ! l := vals ! l] else xs) xs ls) k =
      (if k \<in> set ls \<and> enable ! k then (lane_col n xs k)[w k := vals ! k] else lane_col n xs k)"
proof (induction ls arbitrary: xs)
  case (Cons l ls)
  let ?xs = "if enable ! l \<and> idxs ! l < length xs then xs[idxs ! l := vals ! l] else xs"
  have l: "l < LANES" using Cons.prems by simp
  have "lane_col n ?xs k = (if k = l \<and> enable ! l then (lane_col n xs k)[w k := vals ! k] else lane_col n xs k)"
    using assms(1) [OF l] assms(2) l Cons.prems(1) slot_lt [of "w l" n l] by (auto simp: lane_col_update)
  moreover have "length ?xs = n * LANES" using Cons.prems(1) by simp
  ultimately show ?case using Cons.IH [of ?xs] Cons.prems by (cases "k = l") auto
qed simp

lemma lane_col_scatter:
  assumes "\<And>l. l < LANES \<Longrightarrow> enable ! l \<Longrightarrow> idxs ! l = w l * LANES + l \<and> w l < n" "length xs = n * LANES"
  shows "length (scatter_select vals xs enable idxs) = n * LANES"
    "\<And>k. k < LANES \<Longrightarrow> lane_col n (scatter_select vals xs enable idxs) k =
       (if enable ! k then (lane_col n xs k)[w k := vals ! k] else lane_col n xs k)"
proof -
  note sc = scatter_lanes [of enable idxs w n _ xs "[0 ..< LANES]" vals, OF assms(1) _ assms(2), folded scatter_select_def]
  show "length (scatter_select vals xs enable idxs) = n * LANES" using sc [of 0] by (simp add: LANES_def)
  show "lane_col n (scatter_select vals xs enable idxs) k =
       (if enable ! k then (lane_col n xs k)[w k := vals ! k] else lane_col n xs k)" if "k < LANES" for k
    using sc [of k] that by simp
qed

lemma store_scatter_fast_lane:
  assumes "vm_wf m" "store_scatter_fast m addrs sz vals active = (ok, m')" "sz \<in> {1, 2, 4}"
  shows "vm_wf m'" "\<And>k. k < LANES \<Longrightarrow> ok ! k \<Longrightarrow> active ! k \<and> fst (lm_store (lane_mem_of m k) (addrs ! k) sz (vals ! k)) = Inr ()"
    "\<And>k. k < LANES \<Longrightarrow> lane_mem_of m' k = (if ok ! k then snd (lm_store (lane_mem_of m k) (addrs ! k) sz (vals ! k)) else lane_mem_of m k)"
proof -
  let ?p = "gather_addr_plan m addrs sz active"
  define w where "w l = fst (the (word_off m (addrs ! l)))" for l
  define off where "off l = snd (the (word_off m (addrs ! l)))" for l
  have valid: "ap_valid ?p ! l" if "l < LANES" "ok ! l" for l
    using that assms(2) by (auto simp: store_scatter_fast_def Let_def)
  have p: "active ! l" "align_checked (addrs ! l) sz Write = Inr ()" "word_off m (addrs ! l) = Some (w l, off l)"
    "ap_host_idx ?p ! l = w l * LANES + l" "ap_region ?p ! l = region_mask (off l) sz" "ap_shift ?p ! l = off l * 8"
    if "l < LANES" "ok ! l" for l
    by (rule plan_valid [OF assms(1) that(1) valid [OF that] assms(3), where ac = Write], simp add: w_def off_def)+
  have idx: "ap_host_idx ?p ! l = w l * LANES + l \<and> w l < vm_num_words m" if "l < LANES" "ok ! l" for l
    using p(3,4) [OF that] word_off_lt by blast
  have len: "length (vm_content m) = vm_num_words m * LANES" "length (vm_perms m) = vm_num_words m * LANES"
    using assms(1) by (simp_all add: vm_wf_def)
  have gather: "gather_select xs en (ap_host_idx ?p) d ! l = xs ! (w l * LANES + l)"
    if "length xs = vm_num_words m * LANES" "l < LANES" "ok ! l" "en ! l" for xs en d l
    using that idx [OF that(2,3)] slot_lt [of "w l" "vm_num_words m" l] by (simp add: gather_select_def)
  define pl where "pl = gather_select (vm_perms m) (ap_valid ?p) (ap_host_idx ?p) (lanewise (\<lambda>_. 0))"
  define cl where "cl = gather_select (vm_content m) ok (ap_host_idx ?p) (lanewise (\<lambda>_. 0))"
  define nc where "nc = lanewise (\<lambda>l. (cl ! l AND NOT (ap_region ?p ! l)) OR
      lanewise (\<lambda>l. push_bit (unat (ap_shift ?p ! l)) (vals ! l) AND ap_region ?p ! l) ! l)"
  define np where "np = lanewise (\<lambda>l. (pl ! l OR (splat_byte PERM_READ AND ap_region ?p ! l))
      AND NOT (splat_byte PERM_RAW AND ap_region ?p ! l))"
  have m': "m' = m\<lparr>vm_content := scatter_select nc (vm_content m) ok (ap_host_idx ?p),
        vm_perms := scatter_select np (vm_perms m) ok (ap_host_idx ?p)\<rparr>"
    and ok: "ok = lanewise (\<lambda>l. ap_valid ?p ! l \<and> pl ! l AND lanewise (\<lambda>l. splat_byte PERM_WRITE AND ap_region ?p ! l) ! l =
        lanewise (\<lambda>l. splat_byte PERM_WRITE AND ap_region ?p ! l) ! l)"
    using assms(2) unfolding nc_def np_def pl_def cl_def by (auto simp: store_scatter_fast_def Let_def)
  have at: "pl ! l = vm_perms m ! (w l * LANES + l)" "cl ! l = vm_content m ! (w l * LANES + l)" if "l < LANES" "ok ! l" for l
    unfolding pl_def cl_def using gather [OF len(2) that valid [OF that]] gather [OF len(1) that that(2)] by auto
  have nc: "nc ! l = merge_word (region_mask (off l) sz) (off l) (vm_content m ! (w l * LANES + l)) (vals ! l)"
    and np: "np ! l = raw_cleared (region_mask (off l) sz) (vm_perms m ! (w l * LANES + l))"
    if "l < LANES" "ok ! l" for l
    using at [OF that] p(5,6) [OF that] that(1) by (simp_all add: nc_def np_def merge_word_def raw_cleared_def)
  have perm: "vm_perms m ! (w l * LANES + l) AND (splat_byte PERM_WRITE AND region_mask (off l) sz)
        = splat_byte PERM_WRITE AND region_mask (off l) sz" if "l < LANES" "ok ! l" for l
    using that(2) at(1) [OF that] p(5) [OF that] that(1) by (simp add: ok)
  show "vm_wf m'" using assms(1) lane_col_scatter(1) [OF idx] len by (simp add: m' vm_wf_def)
  have lm: "lm_store (lane_mem_of m k) (addrs ! k) sz (vals ! k) = (Inr (), \<lparr>lm_base = vm_base m,
       lm_content = (lane_col (vm_num_words m) (vm_content m) k)[w k := nc ! k],
       lm_perms = (lane_col (vm_num_words m) (vm_perms m) k)[w k := np ! k]\<rparr>)" if "k < LANES" "ok ! k" for k
    using lm_store_Some [OF p(2,3) [OF that], of k "vals ! k"] perm [OF that] nc [OF that] np [OF that] by simp
  show "active ! k \<and> fst (lm_store (lane_mem_of m k) (addrs ! k) sz (vals ! k)) = Inr ()" if "k < LANES" "ok ! k" for k
    using lm [OF that] p(1) [OF that] by simp
  show "lane_mem_of m' k = (if ok ! k then snd (lm_store (lane_mem_of m k) (addrs ! k) sz (vals ! k)) else lane_mem_of m k)"
    if "k < LANES" for k
    using lm [OF that] that lane_col_scatter(2) [OF idx] len by (simp add: m' lane_mem_of_def)
qed

section \<open>The reference machine: one lane\<close>

record lane =
  ln_regs :: "u32 list"
  ln_pc :: u32
  ln_active :: bool
  ln_insns :: u64
  ln_exit :: "lane_exit option"
  ln_resv :: "u32 option"

definition ln_rd :: "lane \<Rightarrow> u8 \<Rightarrow> u32" where
  "ln_rd n i = (if i = 0 then 0 else ln_regs n ! unat i)"

definition ln_wr :: "u8 \<Rightarrow> u32 \<Rightarrow> lane \<Rightarrow> lane" where
  "ln_wr i v n = (if i \<noteq> 0 then n\<lparr>ln_regs := (ln_regs n)[unat i := v]\<rparr> else n)"

definition ln_halt :: "lane_exit \<Rightarrow> lane \<Rightarrow> lane" where
  "ln_halt ex n = n\<lparr>ln_active := False, ln_exit := Some ex\<rparr>"

definition ln_finish :: "u32 \<Rightarrow> lane \<Rightarrow> lane" where
  "ln_finish nxt n = n\<lparr>ln_pc := nxt, ln_insns := ln_insns n + 1\<rparr>"

definition ln_mem :: "fault + 'a \<Rightarrow> lane \<Rightarrow> lane_mem \<Rightarrow> ('a \<Rightarrow> lane \<times> lane_mem) \<Rightarrow> lane \<times> lane_mem" where
  "ln_mem r n m k = (case r of Inl f \<Rightarrow> (ln_halt (LaneFault f) n, m) | Inr v \<Rightarrow> k v)"

fun ln_inst :: "inst \<Rightarrow> u32 \<Rightarrow> u32 \<Rightarrow> u32 \<Rightarrow> lane \<Rightarrow> lane_mem \<Rightarrow> lane \<times> lane_mem" where
  "ln_inst (Lui rd imm) ipc nxt iword n m = (ln_finish nxt (ln_wr rd imm n), m)"
| "ln_inst (Auipc rd imm) ipc nxt iword n m = (ln_finish nxt (ln_wr rd (ipc + imm) n), m)"
| "ln_inst (Jal rd imm) ipc nxt iword n m = (ln_finish (ipc + imm) (ln_wr rd nxt n), m)"
| "ln_inst (Jalr rd rs1 imm) ipc nxt iword n m = (ln_finish ((ln_rd n rs1 + imm) AND NOT 1) (ln_wr rd nxt n), m)"
| "ln_inst (Branch op rs1 rs2 imm) ipc nxt iword n m =
     (ln_finish (if branch_taken op (ln_rd n rs1) (ln_rd n rs2) then ipc + imm else nxt) n, m)"
| "ln_inst (Load op rd rs1 imm) ipc nxt iword n m =
     ln_mem (lm_load m (ln_rd n rs1 + imm) (fst (load_shape op))) n m (\<lambda>raw.
       (ln_finish nxt (ln_wr rd (sign_extend (fst (load_shape op)) (snd (load_shape op)) raw) n), m))"
| "ln_inst (Store op rs1 rs2 imm) ipc nxt iword n m =
     (case lm_store m (ln_rd n rs1 + imm) (store_size op) (ln_rd n rs2) of (r, m1) \<Rightarrow>
        ln_mem r n m1 (\<lambda>_. (ln_finish nxt n, m1)))"
| "ln_inst (OpImm op rd rs1 imm) ipc nxt iword n m = (ln_finish nxt (ln_wr rd (alu op (ln_rd n rs1) imm) n), m)"
| "ln_inst (Op op rd rs1 rs2) ipc nxt iword n m = (ln_finish nxt (ln_wr rd (alu op (ln_rd n rs1) (ln_rd n rs2)) n), m)"
| "ln_inst (Mul op rd rs1 rs2) ipc nxt iword n m = (ln_finish nxt (ln_wr rd (muldiv op (ln_rd n rs1) (ln_rd n rs2)) n), m)"
| "ln_inst (LrW rd rs1 aq rl) ipc nxt iword n m =
     ln_mem (lm_load m (ln_rd n rs1) 4) n m (\<lambda>v.
       (ln_finish nxt (ln_wr rd v (n\<lparr>ln_resv := Some (ln_rd n rs1)\<rparr>)), m))"
| "ln_inst (ScW rd rs1 rs2 aq rl) ipc nxt iword n m =
     (let success = (ln_resv n = Some (ln_rd n rs1)) in
      case (if success then lm_store m (ln_rd n rs1) 4 (ln_rd n rs2) else (Inr (), m)) of (r, m1) \<Rightarrow>
        ln_mem r n m1 (\<lambda>_. (ln_finish nxt (ln_wr rd (if success then 0 else 1) (n\<lparr>ln_resv := None\<rparr>)), m1)))"
| "ln_inst (AmoW op rd rs1 rs2 aq rl) ipc nxt iword n m =
     ln_mem (lm_load m (ln_rd n rs1) 4) n m (\<lambda>old.
       case lm_store m (ln_rd n rs1) 4 (amo_result op old (ln_rd n rs2)) of (r, m1) \<Rightarrow>
         ln_mem r n m1 (\<lambda>_. (ln_finish nxt (ln_wr rd old (n\<lparr>ln_resv := None\<rparr>)), m1)))"
| "ln_inst Fence ipc nxt iword n m = (ln_finish nxt n, m)"
| "ln_inst Ecall ipc nxt iword n m = (ln_halt (LaneEcall (ln_rd n 10)) n, m)"
| "ln_inst Ebreak ipc nxt iword n m = (ln_halt LaneEbreak n, m)"
| "ln_inst (Illegal raw) ipc nxt iword n m = (ln_halt (LaneIllegal ipc raw) n, m)"
| "ln_inst _ ipc nxt iword n m = (ln_halt (LaneIllegal ipc iword) n, m)"

definition lane_step :: "lane \<times> lane_mem \<Rightarrow> lane \<times> lane_mem" where
  "lane_step nm =
     (case nm of (n, m) \<Rightarrow>
      let ipc = ln_pc n in
      ln_mem (lm_ifetch m ipc) n m (\<lambda>lo.
        if lo AND 0x3 \<noteq> 0x3 then ln_inst (decode_compressed lo) ipc (ipc + 2) (ucast lo) n m
        else ln_mem (lm_ifetch m (ipc + 2)) n m (\<lambda>hi.
          let w = ucast lo OR push_bit 16 (ucast hi) in ln_inst (decode w) ipc (ipc + 4) w n m)))"

section \<open>The lanes of the executor\<close>

definition lane_of :: "vec_cpu \<Rightarrow> nat \<Rightarrow> lane" where
  "lane_of c l =
     \<lparr>ln_regs = map (\<lambda>row. row ! l) (vc_regs c), ln_pc = vc_pc c ! l, ln_active = vc_active c ! l,
      ln_insns = vc_insns c ! l, ln_exit = vc_exit c ! l, ln_resv = vc_resv c ! l\<rparr>"

definition vc_wf :: "vec_cpu \<Rightarrow> bool" where
  "vc_wf c \<longleftrightarrow> length (vc_regs c) = 32 \<and> list_all (\<lambda>row. length row = LANES) (vc_regs c) \<and>
     list_all (\<lambda>x. x = 0) (vc_regs c ! 0) \<and>
     length (vc_pc c) = LANES \<and> length (vc_active c) = LANES \<and> length (vc_insns c) = LANES \<and>
     length (vc_exit c) = LANES \<and> length (vc_resv c) = LANES"

text \<open>The machine state seen from one lane.\<close>

definition lane_view :: "vec_cpu \<times> vec_mmu \<Rightarrow> nat \<Rightarrow> lane \<times> lane_mem" where
  "lane_view cm l = (lane_of (fst cm) l, lane_mem_of (snd cm) l)"

definition vec_wf :: "vec_cpu \<times> vec_mmu \<Rightarrow> bool" where
  "vec_wf cm \<longleftrightarrow> vc_wf (fst cm) \<and> vm_wf (snd cm)"

lemma copies [simp]:
  "vec_branch_taken = branch_taken" "vec_alu = alu" "vec_muldiv = muldiv" "vec_amo = amo_result" "extend_raw = sign_extend"
proof -
  show "vec_branch_taken = branch_taken" "vec_alu = alu" "vec_muldiv = muldiv" "vec_amo = amo_result"
    by (intro ext; case_tac x; simp)+
  show "extend_raw = sign_extend" by (intro ext) (simp add: extend_raw_def sign_extend_def)
qed

lemma vc_wf_row: "vc_wf c \<Longrightarrow> i < 32 \<Longrightarrow> length (vc_regs c ! i) = LANES"
  by (simp add: vc_wf_def list_all_length)

lemma rd_lane: "vc_wf c \<Longrightarrow> unat i < 32 \<Longrightarrow> vec_rd_reg c l i = ln_rd (lane_of c l) i"
  by (simp add: vec_rd_reg_def ln_rd_def lane_of_def vc_wf_def)

lemma row_lane: "vc_wf c \<Longrightarrow> unat i < 32 \<Longrightarrow> l < LANES \<Longrightarrow> vc_regs c ! unat i ! l = ln_rd (lane_of c l) i"
  by (auto simp: ln_rd_def lane_of_def vc_wf_def list_all_length)

lemma vc_wf_ops:
  assumes "vc_wf c"
  shows "unat i < 32 \<Longrightarrow> vc_wf (vec_wr_reg l i v c)" "vc_wf (vec_halt l ex c)" "vc_wf (vec_finish l nxt c)"
    "vc_wf (c\<lparr>vc_resv := (vc_resv c)[l := r]\<rparr>)" "vc_wf (advance_pc_converged msk ilen c)" "vc_wf (retire_active msk c)"
    "unat i < 32 \<Longrightarrow> vc_wf (masked_write msk i w c)" "vc_wf (set_pcs msk w c)"
  using assms
  by (auto simp: vc_wf_def vec_wr_reg_def vec_halt_def vec_finish_def advance_pc_converged_def retire_active_def masked_write_def
      set_pcs_def list_all_length nth_list_update unat_eq_zero)

lemma lane_ops:
  assumes "vc_wf c" "l < LANES" "k < LANES"
  shows "unat i < 32 \<Longrightarrow> lane_of (vec_wr_reg l i v c) k = (if k = l then ln_wr i v (lane_of c k) else lane_of c k)"
    "lane_of (vec_halt l ex c) k = (if k = l then ln_halt ex (lane_of c k) else lane_of c k)"
    "lane_of (vec_finish l nxt c) k = (if k = l then ln_finish nxt (lane_of c k) else lane_of c k)"
    "lane_of (c\<lparr>vc_resv := (vc_resv c)[l := r]\<rparr>) k = (if k = l then (lane_of c k)\<lparr>ln_resv := r\<rparr> else lane_of c k)"
proof -
  show "lane_of (vec_wr_reg l i v c) k = (if k = l then ln_wr i v (lane_of c k) else lane_of c k)" if "unat i < 32"
  proof -
    have "map (\<lambda>row. row ! k) ((vc_regs c)[unat i := (vc_regs c ! unat i)[l := v]]) =
        (if k = l then (map (\<lambda>row. row ! k) (vc_regs c))[unat i := v] else map (\<lambda>row. row ! k) (vc_regs c))"
      using assms that vc_wf_row [OF assms(1) that]
      by (auto simp: map_update list_update_same_conv vc_wf_def)
    then show ?thesis by (auto simp: lane_of_def vec_wr_reg_def ln_wr_def split: if_splits)
  qed
qed (use assms in \<open>auto simp: lane_of_def vec_halt_def vec_finish_def ln_halt_def ln_finish_def vc_wf_def\<close>)

lemma lane_vector_ops:
  assumes "vc_wf c" "k < LANES"
  shows "unat i < 32 \<Longrightarrow> lane_of (masked_write msk i w c) k = (if msk ! k then ln_wr i (w ! k) (lane_of c k) else lane_of c k)"
    "lane_of (retire_active msk2 (set_pcs msk2 w c)) k = (if msk2 ! k then ln_finish (w ! k) (lane_of c k) else lane_of c k)"
    "lane_of (retire_active msk2 (advance_pc_converged msk2 ilen c)) k =
       (if msk2 ! k then ln_finish (vc_pc c ! k + ilen) (lane_of c k) else lane_of c k)"
proof -
  show "lane_of (masked_write msk i w c) k = (if msk ! k then ln_wr i (w ! k) (lane_of c k) else lane_of c k)" if "unat i < 32"
    using assms that by (auto simp: lane_of_def masked_write_def ln_wr_def map_update list_update_same_conv vc_wf_def)
qed (use assms in \<open>auto simp: lane_of_def retire_active_def set_pcs_def advance_pc_converged_def ln_finish_def\<close>)

section \<open>Operands of decoded instructions\<close>

fun inst_regs :: "inst \<Rightarrow> u8 list" where
  "inst_regs (Lui rd imm) = [rd]"
| "inst_regs (Auipc rd imm) = [rd]"
| "inst_regs (Jal rd imm) = [rd]"
| "inst_regs (Jalr rd rs1 imm) = [rd, rs1]"
| "inst_regs (Branch op rs1 rs2 imm) = [rs1, rs2]"
| "inst_regs (Load op rd rs1 imm) = [rd, rs1]"
| "inst_regs (Store op rs1 rs2 imm) = [rs1, rs2]"
| "inst_regs (OpImm op rd rs1 imm) = [rd, rs1]"
| "inst_regs (Op op rd rs1 rs2) = [rd, rs1, rs2]"
| "inst_regs (Mul op rd rs1 rs2) = [rd, rs1, rs2]"
| "inst_regs (LrW rd rs1 aq rl) = [rd, rs1]"
| "inst_regs (ScW rd rs1 rs2 aq rl) = [rd, rs1, rs2]"
| "inst_regs (AmoW op rd rs1 rs2 aq rl) = [rd, rs1, rs2]"
| "inst_regs _ = []"

definition regs_in_file :: "inst \<Rightarrow> bool" where
  "regs_in_file i \<longleftrightarrow> list_all (\<lambda>r. unat r < 32) (inst_regs i)"

lemma encodable_regs: "encodable i \<Longrightarrow> regs_in_file i"
  by (cases i) (auto simp: regs_in_file_def word_less_nat_alt)

lemma decoded_regs: "regs_in_file (decode w)" "regs_in_file (decode_compressed h)"
proof -
  show "regs_in_file (decode w)"
    using decode_encodable [of w] encodable_regs by (auto simp: regs_in_file_def)
  have "long_shift i \<Longrightarrow> regs_in_file i" for i
    by (auto simp: long_shift_def regs_in_file_def word_less_nat_alt)
  then show "regs_in_file (decode_compressed h)"
    using decode_compressed_legal [of h] encodable_regs by (auto simp: c_legal_def regs_in_file_def)
qed

section \<open>Stepping one lane touches that lane only\<close>

lemma vec_mem_halt:
  assumes "vec_wf (c, m)" "l < LANES" "k < LANES" "r = r'"
    "\<And>v. r = Inr v \<Longrightarrow> vec_wf (f v) \<and> lane_view (f v) k = (if k = l then g v else lane_view (c, m) k)"
  shows "vec_wf (vec_mem l r c m f) \<and>
    lane_view (vec_mem l r c m f) k = (if k = l then ln_mem r' (lane_of c l) (lane_mem_of m l) g else lane_view (c, m) k)"
proof (cases r)
  case (Inl e)
  then show ?thesis
    using assms(1-4) by (auto simp: vec_mem_def ln_mem_def vec_wf_def lane_view_def vc_wf_ops lane_ops)
next
  case (Inr v)
  then show ?thesis using assms(4) assms(5) [OF Inr] by (auto simp: vec_mem_def ln_mem_def)
qed

lemma vec_store_view:
  assumes "vec_wf (c, m)" "l < LANES" "k < LANES" "vc_wf c'" "lane_of c' k = (if k = l then n' else lane_of c k)"
  shows "vec_wf (case store_lane m l a sz v of (r, m1) \<Rightarrow> vec_mem l r c m1 (\<lambda>_. (c', m1))) \<and>
    lane_view (case store_lane m l a sz v of (r, m1) \<Rightarrow> vec_mem l r c m1 (\<lambda>_. (c', m1))) k =
      (if k = l then (case lm_store (lane_mem_of m l) a sz v of (r, m1) \<Rightarrow> ln_mem r (lane_of c l) m1 (\<lambda>_. (n', m1)))
       else lane_view (c, m) k)"
proof -
  obtain r m1 where s: "store_lane m l a sz v = (r, m1)" by fastforce
  have wf: "vc_wf c" "vm_wf m" using assms(1) by (simp_all add: vec_wf_def)
  note st = store_lane_is [OF wf(2) assms(2) s]
  obtain m2 where lm: "lm_store (lane_mem_of m l) a sz v = (r, m2)"
    using st(2) by (cases "lm_store (lane_mem_of m l) a sz v") simp
  show ?thesis
    using st(1) st(3) [OF assms(3)] assms wf
    by (cases r) (auto simp: s lm vec_mem_def ln_mem_def vec_wf_def lane_view_def vc_wf_ops lane_ops split: prod.split)
qed

lemma step_lane_inst_view:
  assumes "vec_wf (c, m)" "l < LANES" "k < LANES" "regs_in_file i"
  shows "vec_wf (step_lane_inst l i ipc nxt iword c m) \<and>
    lane_view (step_lane_inst l i ipc nxt iword c m) k =
      (if k = l then ln_inst i ipc nxt iword (lane_of c l) (lane_mem_of m l) else lane_view (c, m) k)"
proof -
  have wf: "vc_wf c" "vm_wf m" using assms(1) by (simp_all add: vec_wf_def)
  note simps = vec_wf_def lane_view_def vc_wf_ops lane_ops rd_lane load_lane_is wf assms
  have regs: "list_all (\<lambda>r. unat r < 32) (inst_regs i)" using assms(4) by (simp add: regs_in_file_def)
  show ?thesis
  proof (cases i)
    case (Load op rd rs1 imm)
    show ?thesis
      unfolding Load step_lane_inst.simps ln_inst.simps Let_def
      by (rule vec_mem_halt [OF assms(1-3)]) (use regs in \<open>auto simp: Load simps\<close>)
  next
    case (Store op rs1 rs2 imm)
    then have rd: "vec_rd_reg c l rs1 = ln_rd (lane_of c l) rs1" "vec_rd_reg c l rs2 = ln_rd (lane_of c l) rs2"
      using regs by (simp_all add: rd_lane wf)
    show ?thesis
      unfolding Store step_lane_inst.simps ln_inst.simps rd
      by (rule vec_store_view [OF assms(1-3)]) (simp_all add: simps)
  next
    case (LrW rd rs1 aq rl)
    show ?thesis
      unfolding LrW step_lane_inst.simps ln_inst.simps Let_def
      by (rule vec_mem_halt [OF assms(1-3)]) (use regs in \<open>auto simp: LrW simps\<close>)
  next
    case (ScW rd rs1 rs2 aq rl)
    then have rd: "vec_rd_reg c l rs1 = ln_rd (lane_of c l) rs1" "vec_rd_reg c l rs2 = ln_rd (lane_of c l) rs2" "unat rd < 32"
      using regs by (simp_all add: rd_lane wf)
    have resv: "vc_resv c ! l = ln_resv (lane_of c l)" by (simp add: lane_of_def)
    show ?thesis
    proof (cases "ln_resv (lane_of c l) = Some (ln_rd (lane_of c l) rs1)")
      case True
      show ?thesis
        unfolding ScW step_lane_inst.simps ln_inst.simps Let_def rd(1,2) resv if_P [OF True]
        by (rule vec_store_view [OF assms(1-3)]) (simp_all add: simps rd)
    next
      case False
      then show ?thesis
        unfolding ScW step_lane_inst.simps ln_inst.simps Let_def rd(1,2) resv if_not_P [OF False] prod.case
        by (auto simp: vec_mem_def ln_mem_def simps rd)
    qed
  next
    case (AmoW op rd rs1 rs2 aq rl)
    then have rd: "vec_rd_reg c l rs1 = ln_rd (lane_of c l) rs1" "vec_rd_reg c l rs2 = ln_rd (lane_of c l) rs2" "unat rd < 32"
      using regs by (simp_all add: rd_lane wf)
    show ?thesis
      unfolding AmoW step_lane_inst.simps ln_inst.simps Let_def rd(1,2) copies load_lane_is
      by (rule vec_mem_halt [OF assms(1-3) refl], rule vec_store_view [OF assms(1-3)]) (simp_all add: simps rd)
  qed (use regs in \<open>auto simp: simps\<close>)
qed

lemma step_lane_view:
  assumes "vec_wf (c, m)" "l < LANES" "k < LANES"
  shows "vec_wf (step_lane l (c, m)) \<and>
    lane_view (step_lane l (c, m)) k = (if k = l then lane_step (lane_view (c, m) l) else lane_view (c, m) k)"
proof -
  have view: "lane_view (c, m) l = (lane_of c l, lane_mem_of m l)" by (simp add: lane_view_def)
  have ipc: "vc_pc c ! l = ln_pc (lane_of c l)" by (simp add: lane_of_def)
  note inst = step_lane_inst_view [OF assms]
  show ?thesis
    unfolding step_lane_def lane_step_def view prod.case Let_def ipc ifetch16_lane_is
  proof (rule vec_mem_halt [OF assms refl])
    fix lo :: u16
    let ?s = "\<lambda>hi. ucast lo OR push_bit 16 (ucast (hi :: u16)) :: u32" and ?pc = "ln_pc (lane_of c l)"
    show "vec_wf (if lo AND 3 \<noteq> 3 then step_lane_inst l (decode_compressed lo) ?pc (?pc + 2) (ucast lo) c m
         else vec_mem l (lm_ifetch (lane_mem_of m l) (?pc + 2)) c m
           (\<lambda>hi. step_lane_inst l (decode (?s hi)) ?pc (?pc + 4) (?s hi) c m)) \<and>
      lane_view (if lo AND 3 \<noteq> 3 then step_lane_inst l (decode_compressed lo) ?pc (?pc + 2) (ucast lo) c m
         else vec_mem l (lm_ifetch (lane_mem_of m l) (?pc + 2)) c m
           (\<lambda>hi. step_lane_inst l (decode (?s hi)) ?pc (?pc + 4) (?s hi) c m)) k =
      (if k = l then (if lo AND 3 \<noteq> 3
           then ln_inst (decode_compressed lo) ?pc (?pc + 2) (ucast lo) (lane_of c l) (lane_mem_of m l)
           else ln_mem (lm_ifetch (lane_mem_of m l) (?pc + 2)) (lane_of c l) (lane_mem_of m l)
             (\<lambda>hi. ln_inst (decode (?s hi)) ?pc (?pc + 4) (?s hi) (lane_of c l) (lane_mem_of m l)))
       else lane_view (c, m) k)"
    proof (cases "lo AND 3 \<noteq> 3")
      case True
      show ?thesis unfolding if_P [OF True] by (rule inst, rule decoded_regs)
    next
      case False
      show ?thesis unfolding if_not_P [OF False] by (rule vec_mem_halt [OF assms refl], rule inst, rule decoded_regs)
    qed
  qed
qed

lemma step_lanes_view:
  "vec_wf cm \<Longrightarrow> distinct ls \<Longrightarrow> \<forall>l \<in> set ls. l < LANES \<Longrightarrow>
    vec_wf (foldl (\<lambda>cm l. if vc_active (fst cm) ! l then step_lane l cm else cm) cm ls) \<and>
    (\<forall>k < LANES. lane_view (foldl (\<lambda>cm l. if vc_active (fst cm) ! l then step_lane l cm else cm) cm ls) k =
      (if k \<in> set ls \<and> ln_active (fst (lane_view cm k)) then lane_step (lane_view cm k) else lane_view cm k))"
proof (induction ls arbitrary: cm)
  case (Cons l ls)
  let ?cm = "if vc_active (fst cm) ! l then step_lane l cm else cm"
  have l: "l < LANES" using Cons.prems by simp
  have v: "vec_wf ?cm" "k < LANES \<Longrightarrow>
      lane_view ?cm k = (if k = l \<and> ln_active (fst (lane_view cm k)) then lane_step (lane_view cm k) else lane_view cm k)" for k
    using step_lane_view [of "fst cm" "snd cm" l l] step_lane_view [of "fst cm" "snd cm" l k] Cons.prems(1) l
    by (auto simp: lane_view_def lane_of_def)
  define r where "r = foldl (\<lambda>cm l. if vc_active (fst cm) ! l then step_lane l cm else cm) ?cm ls"
  have IH: "vec_wf r" "\<And>k. k < LANES \<Longrightarrow> lane_view r k =
      (if k \<in> set ls \<and> ln_active (fst (lane_view ?cm k)) then lane_step (lane_view ?cm k) else lane_view ?cm k)"
    using Cons.IH [OF v(1)] Cons.prems unfolding r_def by auto
  have "lane_view r k = (if k \<in> set (l # ls) \<and> ln_active (fst (lane_view cm k)) then lane_step (lane_view cm k) else lane_view cm k)"
    if k: "k < LANES" for k
    unfolding IH(2) [OF k] v(2) [OF k] using Cons.prems(2) by (cases "k = l") auto
  with IH(1) show ?case by (simp add: r_def)
qed simp

lemma step_all_lanes_view:
  assumes "vec_wf cm"
  shows "vec_wf (step_all_lanes cm)"
    "\<And>k. k < LANES \<Longrightarrow> lane_view (step_all_lanes cm) k =
      (if ln_active (fst (lane_view cm k)) then lane_step (lane_view cm k) else lane_view cm k)"
  using step_lanes_view [OF assms, of "[0 ..< LANES]"] by (auto simp: step_all_lanes_def)

end
