(* ===== verification/Vec_Engine.thy ===== *)
theory Vec_Engine
  imports Vec_Lanes
begin

text \<open>
  The converged fast path does what the loop over the lanes does: the shared fetch gives each active
  lane the instruction it would fetch itself, and each payload does to every active lane what the
  instruction does to that lane and nothing to the others (\<open>runs_lanes\<close>); so \<open>vec_step\<close> steps
  every active lane's view by \<open>lane_step\<close>.
\<close>

section \<open>The converged fetch\<close>

lemma first_active_Some: "first_active active = Some l \<Longrightarrow> l < LANES \<and> active ! l"
  by (auto simp: first_active_def find_Some_iff)

lemma converged_pc:
  assumes "lanes_converged c" "vc_wf c" "k < LANES" "vc_active c ! k" "l < LANES" "vc_active c ! l"
  shows "vc_pc c ! k = vc_pc c ! l"
proof -
  let ?ps = "map snd (filter fst (zip (vc_active c) (vc_pc c)))"
  have mem: "vc_pc c ! i \<in> set ?ps" if "i < LANES" "vc_active c ! i" for i
    using that assms(2) by (force simp: vc_wf_def set_zip)
  from mem [OF assms(3,4)] obtain p ps where ps: "?ps = p # ps" by (cases ?ps) auto
  then have "list_all (\<lambda>q. q = p) ps" using assms(1) by (simp add: lanes_converged_def)
  with mem [OF assms(3,4)] mem [OF assms(5,6)] show ?thesis unfolding ps list_all_iff by (metis set_ConsD)
qed

lemma bit_region_mask:
  "bit (region_mask off sz) n \<longleftrightarrow> n < 32 \<and> unat (off * 8) \<le> n \<and> n < unat (off * 8) + sz * 8"
proof -
  have "(if 32 \<le> sz * 8 then - 1 else push_bit (sz * 8) 1 - 1 :: u32) = mask (sz * 8)"
  proof (cases "32 \<le> sz * 8")
    case True
    then show ?thesis by (intro bit_word_eqI) (auto simp: bit_mask_iff)
  next
    case False
    then show ?thesis by (simp add: mask_eq_exp_minus_1 push_bit_eq_mult)
  qed
  then have "region_mask off sz = push_bit (unat (off * 8)) (mask (sz * 8))" by (simp only: region_mask_def Let_def)
  then show ?thesis by (auto simp: bit_push_bit_iff bit_mask_iff)
qed

text \<open>A halfword fetched by the vector path is one the lane fetches.\<close>

lemma fetch_half:
  assumes "vm_wf m" "ifetch16_same m addr active = Some line" "l < LANES" "active ! l"
  shows "lm_ifetch (lane_mem_of m l) addr = Inr (ucast (line ! l))" "ucast (ucast (line ! l) :: u16) = line ! l"
proof -
  have g: "lm_get PERM_EXEC Exec (lane_mem_of m l) addr 2 = Inr (line ! l)" by (rule ifetch16_same_lane [OF assms])
  have "line ! l AND 0xFFFF = take_bit 16 (line ! l)" by (simp add: take_bit_eq_mask mask_eq_exp_minus_1)
  moreover have "ucast (take_bit 16 (line ! l)) = (ucast (line ! l) :: u16)" by (rule bit_word_eqI) (auto simp: bit_simps)
  ultimately have "ucast (line ! l AND 0xFFFF) = (ucast (line ! l) :: u16)" by simp
  then show "lm_ifetch (lane_mem_of m l) addr = Inr (ucast (line ! l))" by (simp add: lm_ifetch_def g)
  obtain w off where "line = lanewise (\<lambda>l. drop_bit (unat (off * 8)) (line_at (vm_content m) w ! l AND region_mask off 2))"
    using assms(2) by (auto simp: ifetch16_same_def Let_def split: if_splits option.splits)
  then have "line ! l = drop_bit (unat (off * 8)) (line_at (vm_content m) w ! l AND region_mask off 2)" using assms(3) by simp
  then show "ucast (ucast (line ! l) :: u16) = line ! l"
    by (simp only:) (rule bit_word_eqI, auto simp: bit_simps bit_region_mask)
qed

text \<open>What a converged fetch gives each active lane: the same instruction at the same address.\<close>

lemma fetch_converged_lane:
  assumes "vec_wf (c, m)" "lanes_converged c" "first_active (vc_active c) = Some fst_l"
    "fetch_converged m (vc_pc c ! fst_l) (vc_active c) = Some (iword, ilen)" "l < LANES" "vc_active c ! l"
  defines "i \<equiv> if ilen = 2 then decode_compressed (ucast iword) else decode iword"
  shows "lane_step (lane_view (c, m) l) =
    ln_inst i (vc_pc c ! l) (vc_pc c ! l + ilen) iword (lane_of c l) (lane_mem_of m l)"
proof -
  have f: "fst_l < LANES" "vc_active c ! fst_l" using first_active_Some [OF assms(3)] by auto
  have wf: "vc_wf c" "vm_wf m" using assms(1) by (simp_all add: vec_wf_def)
  let ?pc = "vc_pc c ! fst_l" and ?a = "vc_active c"
  have pc: "vc_pc c ! l = ?pc" by (rule converged_pc [OF assms(2) wf(1) assms(5,6) f])
  obtain lo where lo: "ifetch16_same m ?pc ?a = Some lo" "\<not> any_lane (\<lambda>l. ?a ! l \<and> lo ! l \<noteq> lo ! fst_l)"
    using assms(4) by (auto simp: fetch_converged_def assms(3) Let_def split: option.splits if_splits)
  have lol: "lo ! fst_l = lo ! l" using lo(2) assms(5,6) by (auto simp: any_lane_iff)
  note half = fetch_half [OF wf(2) lo(1) assms(5,6)]
  have low: "ucast (lo ! l) AND (3 :: u16) = 3 \<longleftrightarrow> lo ! l AND 3 = 3"
  proof -
    have e: "ucast (ucast (lo ! l) AND (3 :: u16)) = lo ! l AND 3" using half(2) by (simp add: unsigned_and_eq)
    have "ucast (x :: u16) = (3 :: u32) \<longleftrightarrow> x = 3" for x
    proof -
      have "unat x < 2 ^ LENGTH(16)" by (rule unsigned_less)
      then have "unat x < 2 ^ 32" by simp
      then have "unat (ucast x :: u32) = unat x" by (simp add: unsigned_ucast_eq take_bit_nat_eq_self)
      then show ?thesis by (simp add: word_unat_eq_iff)
    qed
    then show ?thesis using e by metis
  qed
  show ?thesis
  proof (cases "lo ! l AND 3 = 3")
    case False
    then have "iword = lo ! l" "ilen = 2" using assms(4) lo lol by (auto simp: fetch_converged_def assms(3) Let_def split: if_splits)
    then show ?thesis
      using False half low pc by (simp add: i_def lane_step_def lane_view_def Let_def ln_mem_def lane_of_def)
  next
    case True
    then obtain hi where hi: "ifetch16_same m (?pc + 2) ?a = Some hi" "\<not> any_lane (\<lambda>l. ?a ! l \<and> hi ! l \<noteq> hi ! fst_l)"
      "iword = lo ! l OR push_bit 16 (hi ! fst_l)" "ilen = 4"
      using assms(4) lo lol by (auto simp: fetch_converged_def assms(3) Let_def split: option.splits if_splits)
    have hil: "hi ! fst_l = hi ! l" using hi(2) assms(5,6) by (auto simp: any_lane_iff)
    note half2 = fetch_half [OF wf(2) hi(1) assms(5,6)]
    show ?thesis
      using True half half2 low pc hi(3,4) hil by (simp add: i_def lane_step_def lane_view_def Let_def ln_mem_def lane_of_def)
  qed
qed

section \<open>The payloads\<close>

lemma nth_simd_alu: "l < LANES \<Longrightarrow> simd_alu op a b ! l = alu op (a ! l) (b ! l)"
  by (cases op) (simp_all add: simd_alu_def Let_def)

lemma nth_simd_branch: "l < LANES \<Longrightarrow> simd_branch_taken op a b ! l = branch_taken op (a ! l) (b ! l)"
  by (cases op) simp_all

lemma sign_extend_shift:
  "signed_drop_bit 24 (push_bit 24 x) = (scast (ucast x :: u8) :: u32)"
  "signed_drop_bit 16 (push_bit 16 x) = (scast (ucast x :: u16) :: u32)"
proof -
  show "signed_drop_bit 24 (push_bit 24 x) = (scast (ucast x :: u8) :: u32)"
  proof (rule bit_word_eqI)
    show "bit (signed_drop_bit 24 (push_bit 24 x)) n = bit (scast (ucast x :: u8) :: u32) n" if "n < LENGTH(32)" for n
      using that by (cases "n = 7") (auto simp: bit_simps bit_signed_drop_bit_iff bit_signed_iff min_def)
  qed
  show "signed_drop_bit 16 (push_bit 16 x) = (scast (ucast x :: u16) :: u32)"
  proof (rule bit_word_eqI)
    show "bit (signed_drop_bit 16 (push_bit 16 x)) n = bit (scast (ucast x :: u16) :: u32) n" if "n < LENGTH(32)" for n
      using that by (cases "n = 15") (auto simp: bit_simps bit_signed_drop_bit_iff bit_signed_iff min_def)
  qed
qed

lemma nth_sign_extend_simd:
  "l < LANES \<Longrightarrow> (if sgd then (if sz = 1 then sign_extend_simd raw 8 else if sz = 2 then sign_extend_simd raw 16 else raw) else raw) ! l
    = sign_extend sz sgd (raw ! l)"
  by (auto simp: sign_extend_simd_def sign_extend_def sign_extend_shift)

lemma counter_views [simp]:
  "lane_of (c\<lparr>simd_alu_steps := x\<rparr>) k = lane_of c k" "vc_wf (c\<lparr>simd_alu_steps := x\<rparr>) = vc_wf c"
  "lane_of (c\<lparr>simd_mem_steps := x\<rparr>) k = lane_of c k" "vc_wf (c\<lparr>simd_mem_steps := x\<rparr>) = vc_wf c"
  "lane_of (c\<lparr>simd_branch_steps := x\<rparr>) k = lane_of c k" "vc_wf (c\<lparr>simd_branch_steps := x\<rparr>) = vc_wf c"
  "lane_of (c\<lparr>simd_gather_steps := x\<rparr>) k = lane_of c k" "vc_wf (c\<lparr>simd_gather_steps := x\<rparr>) = vc_wf c"
  "lane_of (c\<lparr>simd_muldiv_steps := x\<rparr>) k = lane_of c k" "vc_wf (c\<lparr>simd_muldiv_steps := x\<rparr>) = vc_wf c"
  by (simp_all add: lane_of_def vc_wf_def)

lemma pc_masked_write [simp]: "vc_pc (masked_write msk i w c) = vc_pc c"
  by (simp add: masked_write_def)

text \<open>A payload does to every active lane what the instruction does to that lane, and nothing else.\<close>

definition runs_lanes :: "inst \<Rightarrow> u32 \<Rightarrow> u32 \<Rightarrow> vec_cpu \<times> vec_mmu \<Rightarrow> vec_cpu \<times> vec_mmu \<Rightarrow> bool" where
  "runs_lanes i ilen iword cm cm' \<longleftrightarrow>
     vec_wf cm' \<and>
     (\<forall>k < LANES. lane_view cm' k =
        (if vc_active (fst cm) ! k
         then ln_inst i (vc_pc (fst cm) ! k) (vc_pc (fst cm) ! k + ilen) iword (lane_of (fst cm) k) (lane_mem_of (snd cm) k)
         else lane_view cm k))"

lemmas payload_simps = runs_lanes_def vec_wf_def lane_view_def vc_wf_ops lane_vector_ops row_lane nth_simd_alu nth_simd_branch

lemma simple_payloads:
  assumes "vec_wf (c, m)"
  defines "a \<equiv> vc_active c"
  shows "regs_in_file (Lui rd imm) \<Longrightarrow> runs_lanes (Lui rd imm) ilen iword (c, m) (try_simd_lui rd imm ilen a c, m)"
    "regs_in_file (Auipc rd imm) \<Longrightarrow> runs_lanes (Auipc rd imm) ilen iword (c, m) (try_simd_auipc rd imm ilen a c, m)"
    "regs_in_file (OpImm op rd rs1 imm) \<Longrightarrow>
      runs_lanes (OpImm op rd rs1 imm) ilen iword (c, m) (try_simd_alu op rd rs1 (lanewise (\<lambda>_. imm)) ilen a c, m)"
    "regs_in_file (Op op rd rs1 rs2) \<Longrightarrow>
      runs_lanes (Op op rd rs1 rs2) ilen iword (c, m) (try_simd_alu op rd rs1 (vc_regs c ! unat rs2) ilen a c, m)"
    "regs_in_file (Branch bop rs1 rs2 imm) \<Longrightarrow>
      runs_lanes (Branch bop rs1 rs2 imm) ilen iword (c, m) (try_simd_branch bop rs1 rs2 imm ilen a c, m)"
    "regs_in_file (Jal rd imm) \<Longrightarrow> runs_lanes (Jal rd imm) ilen iword (c, m) (try_simd_jal rd imm ilen a c, m)"
    "regs_in_file (Jalr rd rs1 imm) \<Longrightarrow> runs_lanes (Jalr rd rs1 imm) ilen iword (c, m) (try_simd_jalr rd rs1 imm ilen a c, m)"
    "regs_in_file (Mul mop rd rs1 rs2) \<Longrightarrow>
      runs_lanes (Mul mop rd rs1 rs2) ilen iword (c, m) (try_simd_mul mop rd rs1 rs2 ilen a c, m)"
proof -
  have wf: "vc_wf c" "vm_wf m" using assms(1) by (simp_all add: vec_wf_def)
  note simps = payload_simps wf Let_def regs_in_file_def a_def
  show "regs_in_file (Lui rd imm) \<Longrightarrow> runs_lanes (Lui rd imm) ilen iword (c, m) (try_simd_lui rd imm ilen a c, m)"
    by (simp add: try_simd_lui_def simps)
  show "regs_in_file (Auipc rd imm) \<Longrightarrow> runs_lanes (Auipc rd imm) ilen iword (c, m) (try_simd_auipc rd imm ilen a c, m)"
    by (simp add: try_simd_auipc_def simps)
  show "regs_in_file (OpImm op rd rs1 imm) \<Longrightarrow>
      runs_lanes (OpImm op rd rs1 imm) ilen iword (c, m) (try_simd_alu op rd rs1 (lanewise (\<lambda>_. imm)) ilen a c, m)"
    by (simp add: try_simd_alu_def simps)
  show "regs_in_file (Op op rd rs1 rs2) \<Longrightarrow>
      runs_lanes (Op op rd rs1 rs2) ilen iword (c, m) (try_simd_alu op rd rs1 (vc_regs c ! unat rs2) ilen a c, m)"
    by (simp add: try_simd_alu_def simps)
  show "regs_in_file (Branch bop rs1 rs2 imm) \<Longrightarrow>
      runs_lanes (Branch bop rs1 rs2 imm) ilen iword (c, m) (try_simd_branch bop rs1 rs2 imm ilen a c, m)"
    by (simp add: try_simd_branch_def simps)
  show "regs_in_file (Jal rd imm) \<Longrightarrow> runs_lanes (Jal rd imm) ilen iword (c, m) (try_simd_jal rd imm ilen a c, m)"
    by (simp add: try_simd_jal_def simps)
  show "regs_in_file (Jalr rd rs1 imm) \<Longrightarrow> runs_lanes (Jalr rd rs1 imm) ilen iword (c, m) (try_simd_jalr rd rs1 imm ilen a c, m)"
    by (simp add: try_simd_jalr_def simps)
  show "regs_in_file (Mul mop rd rs1 rs2) \<Longrightarrow>
      runs_lanes (Mul mop rd rs1 rs2) ilen iword (c, m) (try_simd_mul mop rd rs1 rs2 ilen a c, m)"
    by (simp add: try_simd_mul_def simps)
qed

section \<open>Memory payloads\<close>

lemma shape_sizes: "fst (load_shape op) \<in> {1, 2, 4}" "store_size sop \<in> {1, 2, 4}"
  by (cases op; simp) (cases sop; simp)

lemma pc_halt [simp]: "vc_pc (vec_halt l ex c) = vc_pc c"
  by (simp add: vec_halt_def)

lemma runs_lanesI:
  assumes "vec_wf (c', m')"
    "\<And>k. k < LANES \<Longrightarrow> vc_active c ! k \<Longrightarrow> (lane_of c' k, lane_mem_of m' k) =
      ln_inst i (vc_pc c ! k) (vc_pc c ! k + ilen) iword (lane_of c k) (lane_mem_of m k)"
    "\<And>k. k < LANES \<Longrightarrow> \<not> vc_active c ! k \<Longrightarrow> lane_of c' k = lane_of c k \<and> lane_mem_of m' k = lane_mem_of m k"
  shows "runs_lanes i ilen iword (c, m) (c', m')"
  using assms by (simp add: runs_lanes_def lane_view_def)

text \<open>The loop that re-services lanes of a gather: every active lane gets its own load.\<close>

definition gather_loaded :: "lane_mask \<Rightarrow> u32 list \<Rightarrow> nat \<Rightarrow> bool \<Rightarrow> vec_mmu \<Rightarrow> vec_cpu \<times> u32 list \<times> lane_mask \<Rightarrow> nat \<Rightarrow>
    vec_cpu \<times> u32 list \<times> lane_mask \<Rightarrow> bool" where
  "gather_loaded active addrs sz sgd m st k st' \<longleftrightarrow>
     (case (st, st') of ((c, vs, ss), (c', vs', ss')) \<Rightarrow>
      case lm_load (lane_mem_of m k) (addrs ! k) sz of
        Inl f \<Rightarrow> lane_of c' k = ln_halt (LaneFault f) (lane_of c k) \<and> \<not> ss' ! k
      | Inr raw \<Rightarrow> lane_of c' k = lane_of c k \<and> vs' ! k = sign_extend sz sgd raw \<and> ss' ! k = ss ! k)"

lemma gather_load_lanes_ok:
  assumes "vm_wf m" "sz \<in> {1, 2, 4}" "fast = load_gather_fast m addrs sz active"
  shows "vc_wf c \<Longrightarrow> length vs = LANES \<Longrightarrow> length ss = LANES \<Longrightarrow> distinct ls \<Longrightarrow> \<forall>l \<in> set ls. l < LANES \<Longrightarrow>
    gather_load_lanes ls active addrs sz sgd m fast (c, vs, ss) = (c', vs', ss') \<Longrightarrow>
    vc_wf c' \<and> vc_pc c' = vc_pc c \<and>
    (\<forall>k < LANES. if k \<in> set ls \<and> active ! k then gather_loaded active addrs sz sgd m (c, vs, ss) k (c', vs', ss')
      else lane_of c' k = lane_of c k \<and> ss' ! k = ss ! k \<and> vs' ! k = vs ! k)"
proof (induction ls arbitrary: c vs ss)
  case (Cons l ls)
  have l: "l < LANES" "l \<notin> set ls" using Cons.prems by auto
  define st1 where "st1 = (if \<not> active ! l then (c, vs, ss)
        else case (if snd fast ! l then Inr (fst fast ! l) else load_lane m l (addrs ! l) sz) of
          Inl f \<Rightarrow> (vec_halt l (LaneFault f) c, vs, ss[l := False])
        | Inr raw \<Rightarrow> (c, vs[l := extend_raw sz sgd raw], ss))"
  obtain c1 vs1 ss1 where st: "st1 = (c1, vs1, ss1)" by (cases st1) auto
  have load: "(if snd fast ! l then Inr (fst fast ! l) else load_lane m l (addrs ! l) sz) = lm_load (lane_mem_of m l) (addrs ! l) sz"
    using load_gather_fast_lane [OF assms(1), of addrs sz active "fst fast" "snd fast" l] assms(2,3) l by (auto simp: load_lane_is)
  have one: "vc_wf c1" "vc_pc c1 = vc_pc c" "length vs1 = LANES" "length ss1 = LANES"
    "\<And>k. k < LANES \<Longrightarrow> if k = l \<and> active ! k then gather_loaded active addrs sz sgd m (c, vs, ss) k (c1, vs1, ss1)
      else lane_of c1 k = lane_of c k \<and> ss1 ! k = ss ! k \<and> vs1 ! k = vs ! k"
    using st Cons.prems(1,2,3) l unfolding st1_def load
    by (auto simp: gather_loaded_def vc_wf_ops lane_ops split: if_splits sum.splits)
  have rest: "vc_wf c'" "vc_pc c' = vc_pc c1" "\<And>k. k < LANES \<Longrightarrow>
      if k \<in> set ls \<and> active ! k then gather_loaded active addrs sz sgd m (c1, vs1, ss1) k (c', vs', ss')
      else lane_of c' k = lane_of c1 k \<and> ss' ! k = ss1 ! k \<and> vs' ! k = vs1 ! k"
    using Cons.IH [OF one(1,3,4)] Cons.prems(4,5,6) st by (auto simp: st1_def)
  have "if k \<in> set (l # ls) \<and> active ! k then gather_loaded active addrs sz sgd m (c, vs, ss) k (c', vs', ss')
      else lane_of c' k = lane_of c k \<and> ss' ! k = ss ! k \<and> vs' ! k = vs ! k" if "k < LANES" for k
    using one(5) [OF that] rest(3) [OF that] l(2) by (cases "k = l") (auto simp: gather_loaded_def split: if_splits sum.splits)
  then show ?case using rest(1,2) one(2) by simp
qed simp

lemma gather_load_payload:
  assumes "vec_wf (c, m)" "regs_in_file (Load op rd rs1 imm)" "length addrs = LANES"
    "\<And>k. k < LANES \<Longrightarrow> addrs ! k = ln_rd (lane_of c k) rs1 + imm"
  shows "runs_lanes (Load op rd rs1 imm) ilen iword (c, m)
    (try_simd_gather_load rd ilen (vc_active c) addrs (fst (load_shape op)) (snd (load_shape op)) m c, m)"
proof -
  have wf: "vc_wf c" "vm_wf m" using assms(1) by (simp_all add: vec_wf_def)
  let ?sz = "fst (load_shape op)" and ?sgd = "snd (load_shape op)" and ?a = "vc_active c"
  obtain c1 vs ss where g: "gather_load_lanes [0 ..< LANES] ?a addrs ?sz ?sgd m (load_gather_fast m addrs ?sz ?a)
      (c, replicate LANES 0, ?a) = (c1, vs, ss)" by (metis prod_cases3)
  have ok: "vc_wf c1" "vc_pc c1 = vc_pc c" "\<And>k. k < LANES \<Longrightarrow>
      if ?a ! k then gather_loaded ?a addrs ?sz ?sgd m (c, replicate LANES 0, ?a) k (c1, vs, ss)
      else lane_of c1 k = lane_of c k \<and> ss ! k = ?a ! k"
    using gather_load_lanes_ok [OF wf(2) shape_sizes(1) refl wf(1) _ _ _ _ g] wf(1) by (auto simp: vc_wf_def)
  have rd: "unat rd < 32" using assms(2) by (simp add: regs_in_file_def)
  let ?c2 = "retire_active ss (advance_pc_converged ss ilen (masked_write ss rd vs c1))"
  have res: "try_simd_gather_load rd ilen ?a addrs ?sz ?sgd m c = ?c2\<lparr>simd_gather_steps := simd_gather_steps ?c2 + 1\<rparr>"
    by (simp add: try_simd_gather_load_def g Let_def)
  have view: "lane_of ?c2 k = (if ss ! k then ln_finish (vc_pc c ! k + ilen) (ln_wr rd (vs ! k) (lane_of c1 k)) else lane_of c1 k)"
    if "k < LANES" for k
    using that by (simp add: lane_vector_ops vc_wf_ops ok(1,2) rd)
  show ?thesis
    unfolding res
  proof (rule runs_lanesI)
    show "vec_wf (?c2\<lparr>simd_gather_steps := simd_gather_steps ?c2 + 1\<rparr>, m)"
      by (simp add: vec_wf_def vc_wf_ops ok(1) rd wf)
  next
    fix k assume k: "k < LANES" "vc_active c ! k"
    show "(lane_of (?c2\<lparr>simd_gather_steps := simd_gather_steps ?c2 + 1\<rparr>) k, lane_mem_of m k) =
        ln_inst (Load op rd rs1 imm) (vc_pc c ! k) (vc_pc c ! k + ilen) iword (lane_of c k) (lane_mem_of m k)"
      using ok(3) [OF k(1)] view [OF k(1)] assms(4) [OF k(1)] k(2)
      by (auto simp: gather_loaded_def ln_mem_def split: sum.splits)
  next
    fix k assume k: "k < LANES" "\<not> vc_active c ! k"
    show "lane_of (?c2\<lparr>simd_gather_steps := simd_gather_steps ?c2 + 1\<rparr>) k = lane_of c k \<and> lane_mem_of m k = lane_mem_of m k"
      using ok(3) [OF k(1)] view [OF k(1)] k(2) by simp
  qed
qed

lemma load_payload:
  assumes "vec_wf (c, m)" "regs_in_file (Load op rd rs1 imm)" "first_active (vc_active c) = Some first"
  shows "runs_lanes (Load op rd rs1 imm) ilen iword (c, m) (try_simd_load op rd rs1 imm ilen (vc_active c) first m c, m)"
proof -
  have wf: "vc_wf c" "vm_wf m" using assms(1) by (simp_all add: vec_wf_def)
  let ?sz = "fst (load_shape op)" and ?sgd = "snd (load_shape op)" and ?a = "vc_active c"
  let ?addrs = "lanewise (\<lambda>l. vc_regs c ! unat rs1 ! l + imm)"
  have rd: "unat rd < 32" "unat rs1 < 32" using assms(2) by (simp_all add: regs_in_file_def)
  have addrs: "?addrs ! k = ln_rd (lane_of c k) rs1 + imm" if "k < LANES" for k
    using that by (simp add: row_lane wf rd)
  note gather = gather_load_payload [OF assms(1,2) _ addrs, of ilen iword]
  show ?thesis
  proof (cases "any_lane (\<lambda>l. ?a ! l \<and> ?addrs ! l \<noteq> ?addrs ! first) \<or> load_same m (?addrs ! first) ?sz ?a = None")
    case True
    then show ?thesis using gather by (auto simp: try_simd_load_def Let_def split: option.split)
  next
    case False
    then obtain raw where same: "\<And>k. k < LANES \<Longrightarrow> ?a ! k \<Longrightarrow> ?addrs ! k = ?addrs ! first" "load_same m (?addrs ! first) ?sz ?a = Some raw"
      by (auto simp: any_lane_iff)
    have ld: "lm_load (lane_mem_of m k) (ln_rd (lane_of c k) rs1 + imm) ?sz = Inr (raw ! k)" if "k < LANES" "?a ! k" for k
      using load_same_lane [OF wf(2) same(2) that] same(1) [OF that] addrs [OF that(1)] by simp
    define v where "v = (if ?sgd then (if ?sz = 1 then sign_extend_simd raw 8 else if ?sz = 2 then sign_extend_simd raw 16 else raw) else raw)"
    have v: "v ! k = sign_extend ?sz ?sgd (raw ! k)" if "k < LANES" for k
      unfolding v_def by (rule nth_sign_extend_simd [OF that])
    let ?c2 = "retire_active ?a (advance_pc_converged ?a ilen (masked_write ?a rd v c))"
    have eq: "try_simd_load op rd rs1 imm ilen ?a first m c = ?c2\<lparr>simd_mem_steps := simd_mem_steps ?c2 + 1\<rparr>"
      using False same(2) unfolding try_simd_load_def Let_def v_def by simp
    show ?thesis
      unfolding eq by (rule runs_lanesI) (simp_all add: vec_wf_def vc_wf_ops lane_vector_ops wf rd v ln_mem_def ld)
  qed
qed

text \<open>The loop after a scatter: every active lane it missed gets its own store.\<close>

definition missed_store :: "u32 list \<Rightarrow> nat \<Rightarrow> u32 list \<Rightarrow> vec_cpu \<times> vec_mmu \<times> lane_mask \<Rightarrow> nat \<Rightarrow>
    vec_cpu \<times> vec_mmu \<times> lane_mask \<Rightarrow> bool" where
  "missed_store addrs sz vals st k st' \<longleftrightarrow>
     (case (st, st') of ((c, m, ss), (c', m', ss')) \<Rightarrow>
      case lm_store (lane_mem_of m k) (addrs ! k) sz (vals ! k) of
        (Inl f, mk) \<Rightarrow> lane_of c' k = ln_halt (LaneFault f) (lane_of c k) \<and> lane_mem_of m' k = mk \<and> \<not> ss' ! k
      | (Inr _, mk) \<Rightarrow> lane_of c' k = lane_of c k \<and> lane_mem_of m' k = mk \<and> ss' ! k = ss ! k)"

lemma gather_store_lanes_ok:
  "vec_wf (c, m) \<Longrightarrow> length ss = LANES \<Longrightarrow> distinct ls \<Longrightarrow> \<forall>l \<in> set ls. l < LANES \<Longrightarrow>
    gather_store_lanes ls active addrs sz vals ok (c, m, ss) = (c', m', ss') \<Longrightarrow>
    vec_wf (c', m') \<and> vc_pc c' = vc_pc c \<and>
    (\<forall>k < LANES. if k \<in> set ls \<and> active ! k \<and> \<not> ok ! k then missed_store addrs sz vals (c, m, ss) k (c', m', ss')
      else lane_of c' k = lane_of c k \<and> ss' ! k = ss ! k \<and> lane_mem_of m' k = lane_mem_of m k)"
proof (induction ls arbitrary: c m ss)
  case (Cons l ls)
  have l: "l < LANES" "l \<notin> set ls" using Cons.prems by auto
  have wf: "vc_wf c" "vm_wf m" using Cons.prems(1) by (simp_all add: vec_wf_def)
  obtain r ml where sl: "store_lane m l (addrs ! l) sz (vals ! l) = (r, ml)" by fastforce
  note st = store_lane_is [OF wf(2) l(1) sl]
  obtain mk where lm: "lm_store (lane_mem_of m l) (addrs ! l) sz (vals ! l) = (r, mk)"
    using st(2) by (cases "lm_store (lane_mem_of m l) (addrs ! l) sz (vals ! l)") simp
  define st1 where "st1 = (if \<not> active ! l \<or> ok ! l then (c, m, ss)
        else case store_lane m l (addrs ! l) sz (vals ! l) of
          (Inl f, m1) \<Rightarrow> (vec_halt l (LaneFault f) c, m1, ss[l := False])
        | (Inr _, m1) \<Rightarrow> (c, m1, ss))"
  obtain c1 m1 ss1 where s1: "st1 = (c1, m1, ss1)" by (cases st1) auto
  have one: "vec_wf (c1, m1)" "vc_pc c1 = vc_pc c" "length ss1 = LANES"
    "\<And>k. k < LANES \<Longrightarrow> if k = l \<and> active ! k \<and> \<not> ok ! k then missed_store addrs sz vals (c, m, ss) k (c1, m1, ss1)
      else lane_of c1 k = lane_of c k \<and> ss1 ! k = ss ! k \<and> lane_mem_of m1 k = lane_mem_of m k"
    using s1 Cons.prems(1,2) l wf st(1,3) unfolding st1_def sl
    by (auto simp: missed_store_def vec_wf_def vc_wf_ops lane_ops lm split: if_splits sum.splits)
  have rest: "vec_wf (c', m')" "vc_pc c' = vc_pc c1" "\<And>k. k < LANES \<Longrightarrow>
      if k \<in> set ls \<and> active ! k \<and> \<not> ok ! k then missed_store addrs sz vals (c1, m1, ss1) k (c', m', ss')
      else lane_of c' k = lane_of c1 k \<and> ss' ! k = ss1 ! k \<and> lane_mem_of m' k = lane_mem_of m1 k"
    using Cons.IH [OF one(1,3)] Cons.prems(3,4,5) s1 by (auto simp: st1_def)
  have "if k \<in> set (l # ls) \<and> active ! k \<and> \<not> ok ! k then missed_store addrs sz vals (c, m, ss) k (c', m', ss')
      else lane_of c' k = lane_of c k \<and> ss' ! k = ss ! k \<and> lane_mem_of m' k = lane_mem_of m k" if "k < LANES" for k
    using one(4) [OF that] rest(3) [OF that] l(2)
    by (cases "k = l") (auto simp: missed_store_def split: if_splits sum.splits prod.splits)
  then show ?case using rest(1,2) one(2) by simp
qed simp

lemma gather_store_payload:
  assumes "vec_wf (c, m)" "\<And>k. k < LANES \<Longrightarrow> addrs ! k = ln_rd (lane_of c k) rs1 + imm"
    "\<And>k. k < LANES \<Longrightarrow> vals ! k = ln_rd (lane_of c k) rs2"
  shows "runs_lanes (Store op rs1 rs2 imm) ilen iword (c, m)
    (try_simd_gather_store ilen (vc_active c) addrs (store_size op) vals m c)"
proof -
  have wf: "vc_wf c" "vm_wf m" using assms(1) by (simp_all add: vec_wf_def)
  let ?sz = "store_size op" and ?a = "vc_active c"
  obtain ok m1 where sc: "store_scatter_fast m addrs ?sz vals ?a = (ok, m1)" by fastforce
  note fast = store_scatter_fast_lane [OF wf(2) sc shape_sizes(2)]
  obtain c1 m2 ss where g: "gather_store_lanes [0 ..< LANES] ?a addrs ?sz vals ok (c, m1, ?a) = (c1, m2, ss)" by (metis prod_cases3)
  have ok: "vec_wf (c1, m2)" "vc_pc c1 = vc_pc c" "\<And>k. k < LANES \<Longrightarrow>
      if ?a ! k \<and> \<not> ok ! k then missed_store addrs ?sz vals (c, m1, ?a) k (c1, m2, ss)
      else lane_of c1 k = lane_of c k \<and> ss ! k = ?a ! k \<and> lane_mem_of m2 k = lane_mem_of m1 k"
    using gather_store_lanes_ok [OF _ _ _ _ g] wf(1) fast(1) by (auto simp: vc_wf_def vec_wf_def)
  let ?c2 = "retire_active ss (advance_pc_converged ss ilen c1)"
  have res: "try_simd_gather_store ilen ?a addrs ?sz vals m c = (?c2\<lparr>simd_gather_steps := simd_gather_steps ?c2 + 1\<rparr>, m2)"
    by (simp add: try_simd_gather_store_def sc g Let_def)
  have c1: "vc_wf c1" "vm_wf m2" using ok(1) by (simp_all add: vec_wf_def)
  have view: "lane_of ?c2 k = (if ss ! k then ln_finish (vc_pc c ! k + ilen) (lane_of c1 k) else lane_of c1 k)"
    if "k < LANES" for k
    using that by (simp add: lane_vector_ops c1 ok(2))
  show ?thesis
    unfolding res
  proof (rule runs_lanesI)
    show "vec_wf (?c2\<lparr>simd_gather_steps := simd_gather_steps ?c2 + 1\<rparr>, m2)"
      by (simp add: vec_wf_def vc_wf_ops c1)
  next
    fix k assume k: "k < LANES" "vc_active c ! k"
    obtain r mk where lm: "lm_store (lane_mem_of m k) (addrs ! k) ?sz (vals ! k) = (r, mk)" by fastforce
    have hit: "r = Inr () \<and> lane_mem_of m1 k = mk" if "ok ! k"
      using fast(2,3) [OF k(1)] that lm by simp
    have miss: "lane_mem_of m1 k = lane_mem_of m k" if "\<not> ok ! k"
      using fast(3) [OF k(1)] that by simp
    show "(lane_of (?c2\<lparr>simd_gather_steps := simd_gather_steps ?c2 + 1\<rparr>) k, lane_mem_of m2 k) =
        ln_inst (Store op rs1 rs2 imm) (vc_pc c ! k) (vc_pc c ! k + ilen) iword (lane_of c k) (lane_mem_of m k)"
      using ok(3) [OF k(1)] view [OF k(1)] k(2) lm hit miss
      by (cases "ok ! k"; cases r) (auto simp: missed_store_def ln_mem_def assms(2,3) [OF k(1), symmetric])
  next
    fix k assume k: "k < LANES" "\<not> vc_active c ! k"
    then have "\<not> ok ! k" using fast(2) [OF k(1)] by auto
    then show "lane_of (?c2\<lparr>simd_gather_steps := simd_gather_steps ?c2 + 1\<rparr>) k = lane_of c k \<and> lane_mem_of m2 k = lane_mem_of m k"
      using ok(3) [OF k(1)] view [OF k(1)] k fast(3) [OF k(1)] by simp
  qed
qed

lemma store_payload:
  assumes "vec_wf (c, m)" "regs_in_file (Store op rs1 rs2 imm)" "first_active (vc_active c) = Some first"
  shows "runs_lanes (Store op rs1 rs2 imm) ilen iword (c, m) (try_simd_store op rs1 rs2 imm ilen (vc_active c) first m c)"
proof -
  have wf: "vc_wf c" "vm_wf m" using assms(1) by (simp_all add: vec_wf_def)
  let ?sz = "store_size op" and ?a = "vc_active c" and ?vals = "vc_regs c ! unat rs2"
  let ?addrs = "lanewise (\<lambda>l. vc_regs c ! unat rs1 ! l + imm)"
  have rs: "unat rs1 < 32" "unat rs2 < 32" using assms(2) by (simp_all add: regs_in_file_def)
  have addrs: "?addrs ! k = ln_rd (lane_of c k) rs1 + imm" "?vals ! k = ln_rd (lane_of c k) rs2" if "k < LANES" for k
    using that by (simp_all add: row_lane wf rs)
  note gather = gather_store_payload [OF assms(1) addrs, of op ilen iword]
  obtain b m1 where sm: "store_same m (?addrs ! first) ?sz ?a ?vals = (b, m1)" by fastforce
  show ?thesis
  proof (cases "any_lane (\<lambda>l. ?a ! l \<and> ?addrs ! l \<noteq> ?addrs ! first) \<or> \<not> b")
    case True
    then show ?thesis
      using gather sm store_same_declined [of m "?addrs ! first" ?sz ?a ?vals m1]
      by (auto simp: try_simd_store_def Let_def split: bool.split)
  next
    case False
    then have same: "\<And>k. k < LANES \<Longrightarrow> ?a ! k \<Longrightarrow> ?addrs ! k = ?addrs ! first" and b: "b" by (auto simp: any_lane_iff)
    note sl = store_same_lane [OF wf(2) sm [unfolded eqTrueI [OF b]]]
    let ?c2 = "retire_active ?a (advance_pc_converged ?a ilen c)"
    have eq: "try_simd_store op rs1 rs2 imm ilen ?a first m c = (?c2\<lparr>simd_mem_steps := simd_mem_steps ?c2 + 1\<rparr>, m1)"
      using False sm b unfolding try_simd_store_def Let_def by simp
    show ?thesis
      unfolding eq
    proof (rule runs_lanesI)
      show "vec_wf (?c2\<lparr>simd_mem_steps := simd_mem_steps ?c2 + 1\<rparr>, m1)" by (simp add: vec_wf_def vc_wf_ops wf sl(1))
    next
      fix k assume k: "k < LANES" "?a ! k"
      then have "lm_store (lane_mem_of m k) (ln_rd (lane_of c k) rs1 + imm) ?sz (ln_rd (lane_of c k) rs2) = (Inr (), lane_mem_of m1 k)"
        using sl(2,3) [OF k(1)] same [OF k] addrs [OF k(1)] by (simp add: prod_eq_iff)
      then show "(lane_of (?c2\<lparr>simd_mem_steps := simd_mem_steps ?c2 + 1\<rparr>) k, lane_mem_of m1 k) =
        ln_inst (Store op rs1 rs2 imm) (vc_pc c ! k) (vc_pc c ! k + ilen) iword (lane_of c k) (lane_mem_of m k)"
        using k by (simp add: lane_vector_ops wf ln_mem_def)
    next
      fix k assume k: "k < LANES" "\<not> ?a ! k"
      then show "lane_of (?c2\<lparr>simd_mem_steps := simd_mem_steps ?c2 + 1\<rparr>) k = lane_of c k \<and> lane_mem_of m1 k = lane_mem_of m k"
        using sl(3) [OF k(1)] by (simp add: lane_vector_ops wf)
    qed
  qed
qed

section \<open>The vector step\<close>

lemma runs_lanes_step:
  assumes "vec_wf (c, m)" "lanes_converged c" "first_active (vc_active c) = Some first"
    "fetch_converged m (vc_pc c ! first) (vc_active c) = Some (iword, ilen)"
    "runs_lanes (if ilen = 2 then decode_compressed (ucast iword) else decode iword) ilen iword (c, m) cm'"
  shows "vec_wf cm'" "\<And>k. k < LANES \<Longrightarrow> lane_view cm' k =
    (if ln_active (fst (lane_view (c, m) k)) then lane_step (lane_view (c, m) k) else lane_view (c, m) k)"
proof -
  show "vec_wf cm'" using assms(5) by (simp add: runs_lanes_def)
  have act: "ln_active (fst (lane_view (c, m) k)) = vc_active c ! k" for k by (simp add: lane_view_def lane_of_def)
  show "lane_view cm' k = (if ln_active (fst (lane_view (c, m) k)) then lane_step (lane_view (c, m) k) else lane_view (c, m) k)"
    if k: "k < LANES" for k
    unfolding act using assms(5) fetch_converged_lane [OF assms(1-4) k] k by (simp add: runs_lanes_def)
qed

lemma fast_step_runs:
  assumes "vec_wf (c, m)" "try_simd_fast_step c m = Some cm'"
  obtains first iword ilen where "lanes_converged c" "first_active (vc_active c) = Some first"
    "fetch_converged m (vc_pc c ! first) (vc_active c) = Some (iword, ilen)"
    "runs_lanes (if ilen = 2 then decode_compressed (ucast iword) else decode iword) ilen iword (c, m) cm'"
proof -
  obtain first iword ilen where f: "lanes_converged c" "first_active (vc_active c) = Some first"
    "fetch_converged m (vc_pc c ! first) (vc_active c) = Some (iword, ilen)"
    using assms(2) by (auto simp: try_simd_fast_step_def Let_def split: if_splits option.splits)
  define i where "i = (if ilen = 2 then decode_compressed (ucast iword) else decode iword)"
  have regs: "regs_in_file i" by (simp add: i_def decoded_regs)
  note run = assms(2) [unfolded try_simd_fast_step_def Let_def f(2,3) option.case prod.case, folded i_def]
  have "runs_lanes i ilen iword (c, m) cm'"
    using run f(1) regs simple_payloads [OF assms(1)] load_payload [OF assms(1) _ f(2)] store_payload [OF assms(1) _ f(2)]
    by (cases i) auto
  with f show thesis unfolding i_def by (rule that)
qed

lemma vec_step_lanes:
  assumes "vec_wf cm"
  shows "vec_wf (vec_step cm)" "\<And>k. k < LANES \<Longrightarrow> lane_view (vec_step cm) k =
    (if ln_active (fst (lane_view cm k)) then lane_step (lane_view cm k) else lane_view cm k)"
proof -
  obtain c m where cm: "cm = (c, m)" by fastforce
  have "vec_wf (vec_step cm) \<and> (\<forall>k < LANES. lane_view (vec_step cm) k =
    (if ln_active (fst (lane_view cm k)) then lane_step (lane_view cm k) else lane_view cm k))"
  proof (cases "try_simd_fast_step c m")
    case None
    then show ?thesis using step_all_lanes_view [OF assms] by (simp add: vec_step_def cm)
  next
    case (Some cm')
    obtain first iword ilen where f: "lanes_converged c" "first_active (vc_active c) = Some first"
      "fetch_converged m (vc_pc c ! first) (vc_active c) = Some (iword, ilen)"
      "runs_lanes (if ilen = 2 then decode_compressed (ucast iword) else decode iword) ilen iword (c, m) cm'"
      by (rule fast_step_runs [OF assms [unfolded cm] Some])
    show ?thesis using runs_lanes_step [OF assms [unfolded cm] f] by (simp add: vec_step_def cm Some)
  qed
  then show "vec_wf (vec_step cm)" "\<And>k. k < LANES \<Longrightarrow> lane_view (vec_step cm) k =
    (if ln_active (fst (lane_view cm k)) then lane_step (lane_view cm k) else lane_view cm k)" by auto
qed

end
