(* ===== verification/Vec_Scalar.thy ===== *)
theory Vec_Scalar
  imports Vec_Engine
begin

text \<open>
  A lane against the scalar core.  The words of a lane's memory read as bytes (\<open>lane_peek\<close>) meet the
  byte contract of \<open>Bus\<close>, and inside the locale \<open>byte_bus\<close> a lane that keeps running is followed
  step by step by \<open>Cpu::step\<close> on any memory showing the same bytes, for a hart without translation
  and taint tracking.  A misaligned access is where the two part: it stops a lane, the scalar core
  splits it into bytes.
\<close>

section \<open>A lane's memory as bytes\<close>

definition byte_of :: "u32 \<Rightarrow> nat \<Rightarrow> u8" where
  "byte_of w k = ucast (drop_bit (8 * k) w)"

definition lane_peek :: "lane_mem \<Rightarrow> view" where
  "lane_peek m a =
     (case lm_word_off m a of
        None \<Rightarrow> None
      | Some (w, off) \<Rightarrow> Some (byte_of (lm_content m ! w) (unat off), byte_of (lm_perms m ! w) (unat off)))"

definition lm_wf :: "lane_mem \<Rightarrow> bool" where
  "lm_wf m \<longleftrightarrow> unat (lm_base m) mod 4 = 0 \<and> length (lm_perms m) = length (lm_content m)"

lemma bit_byte_of [simp]: "bit (byte_of w k) j \<longleftrightarrow> j < 8 \<and> bit w (8 * k + j)"
  by (auto simp: byte_of_def bit_simps add.commute)

lemma lane_mem_wf: "vm_wf m \<Longrightarrow> lm_wf (lane_mem_of m l)"
  using unat_mod_distrib [of "vm_base m" 4] by (simp add: vm_wf_def lm_wf_def low2)

lemma lm_word_off_Some:
  "lm_word_off m a = Some (w, off) \<longleftrightarrow>
     lm_base m \<le> a \<and> w < length (lm_content m) \<and> unat (a - lm_base m) = 4 * w + unat off \<and> unat off < 4"
proof -
  have "off = of_nat (r mod 4) \<longleftrightarrow> unat off = r mod 4" for r :: nat
    by (simp add: word_unat_eq_iff unat_of_nat take_bit_nat_eq_self)
  then show ?thesis
    by (auto simp: lm_word_off_def Let_def not_less)
qed

lemma unat_add_small: "unat (a :: u32) mod sz = 0 \<Longrightarrow> k < sz \<Longrightarrow> sz \<in> {1, 2, 4} \<Longrightarrow> unat (a + of_nat k) = unat a + k"
proof -
  assume a: "unat a mod sz = 0" "k < sz" "sz \<in> {1, 2, 4}"
  have gen: "x < 4294967296 \<Longrightarrow> x mod sz = 0 \<Longrightarrow> x + k < 4294967296" for x :: nat
    using a(2,3) by (auto; presburger)
  have "unat a < 2 ^ LENGTH(32)" by (rule unsigned_less)
  then have "unat a + k < 4294967296" using a(1) by (intro gen) simp_all
  then show ?thesis by (simp add: unat_word_ariths unat_of_nat take_bit_nat_eq_self)
qed

lemma word_span:
  assumes "lm_wf m" "lm_word_off m a = Some (w, off)" "unat a mod sz = 0" "sz \<in> {1, 2, 4}"
  shows "unat off + sz \<le> 4" "k < sz \<Longrightarrow> lm_word_off m (a + of_nat k) = Some (w, off + of_nat k)"
    "k < sz \<Longrightarrow> unat (off + of_nat k) = unat off + k"
proof -
  let ?b = "unat (lm_base m)"
  have le: "?b \<le> unat a" and rel: "unat a - ?b = 4 * w + unat off" "unat off < 4" and w: "w < length (lm_content m)"
    using assms(2) by (auto simp: lm_word_off_Some unat_sub word_le_nat_alt)
  have b: "?b mod 4 = 0" using assms(1) by (simp add: lm_wf_def)
  show sp: "unat off + sz \<le> 4" using le rel b assms(3,4) by (auto; presburger)
  show u: "unat (off + of_nat k) = unat off + k" if "k < sz" for k
    using that sp rel(2) by (simp add: unat_word_ariths unat_of_nat take_bit_nat_eq_self)
  show "lm_word_off m (a + of_nat k) = Some (w, off + of_nat k)" if "k < sz" for k
    using unat_add_small [OF assms(3) that assms(4)] le rel w u [OF that] sp that
    by (simp add: lm_word_off_Some unat_sub word_le_nat_alt)
qed

lemma align_checked_natural:
  assumes "sz \<in> {1, 2, 4}"
  shows "align_checked a sz ac = (if unat a mod sz = 0 then Inr () else Inl (mk_fault a (of_nat sz) ac Unaligned))"
  using assms unat_mod_distrib [of a 2] unat_mod_distrib [of a 4]
  by (auto simp: align_checked_def check_align_def word_unat_eq_iff)

lemma lane_peek_span:
  assumes "lm_wf m" "lm_word_off m a = Some (w, off)" "unat a mod sz = 0" "sz \<in> {1, 2, 4}" "k < sz"
  shows "lane_peek m (a + of_nat k) = Some (byte_of (lm_content m ! w) (unat off + k), byte_of (lm_perms m ! w) (unat off + k))"
  using word_span [OF assms(1-4)] assms(5) by (simp add: lane_peek_def)

lemma bit_splat:
  "n < 32 \<Longrightarrow> bit (splat_byte PERM_READ) n \<longleftrightarrow> n mod 8 = 0" "n < 32 \<Longrightarrow> bit (splat_byte PERM_WRITE) n \<longleftrightarrow> n mod 8 = 1"
  "n < 32 \<Longrightarrow> bit (splat_byte PERM_EXEC) n \<longleftrightarrow> n mod 8 = 2" "n < 32 \<Longrightarrow> bit (splat_byte PERM_RAW) n \<longleftrightarrow> n mod 8 = 3"
proof -
  have "list_all (\<lambda>n. bit (splat_byte PERM_READ) n = (n mod 8 = 0) \<and> bit (splat_byte PERM_WRITE) n = (n mod 8 = 1) \<and>
      bit (splat_byte PERM_EXEC) n = (n mod 8 = 2) \<and> bit (splat_byte PERM_RAW) n = (n mod 8 = 3)) [0 ..< 32]"
    by code_simp
  then show "n < 32 \<Longrightarrow> bit (splat_byte PERM_READ) n \<longleftrightarrow> n mod 8 = 0" "n < 32 \<Longrightarrow> bit (splat_byte PERM_WRITE) n \<longleftrightarrow> n mod 8 = 1"
    "n < 32 \<Longrightarrow> bit (splat_byte PERM_EXEC) n \<longleftrightarrow> n mod 8 = 2" "n < 32 \<Longrightarrow> bit (splat_byte PERM_RAW) n \<longleftrightarrow> n mod 8 = 3"
    by (simp_all add: list_all_iff)
qed

lemma off8: "unat (off :: u32) < 4 \<Longrightarrow> unat (off * 8) = 8 * unat off"
  by (simp add: unat_word_ariths)

text \<open>The packed permission test is the conjunction of the byte tests.\<close>

lemma need_iff:
  assumes "unat off + sz \<le> 4" "0 < sz" "j < 8" "\<And>n. n < 32 \<Longrightarrow> bit (splat_byte perm) n \<longleftrightarrow> n mod 8 = j"
    "\<And>p :: u8. p AND perm = 0 \<longleftrightarrow> \<not> bit p j"
  shows "p AND (splat_byte perm AND region_mask off sz) = splat_byte perm AND region_mask off sz \<longleftrightarrow>
    (\<forall>k < sz. byte_of p (unat off + k) AND perm \<noteq> 0)"
proof -
  have o: "unat (off * 8) = 8 * unat off" using assms(1,2) by (intro off8) simp
  have need: "bit (splat_byte perm AND region_mask off sz) n \<longleftrightarrow> (\<exists>k < sz. n = 8 * (unat off + k) + j)" for n
  proof
    assume "bit (splat_byte perm AND region_mask off sz) n"
    then have n: "n < 32" "n mod 8 = j" "8 * unat off \<le> n" "n < 8 * unat off + sz * 8"
      using assms(4) by (auto simp: bit_and_iff bit_region_mask o)
    then have "n = 8 * (unat off + (n div 8 - unat off)) + j" "n div 8 - unat off < sz" by auto
    then show "\<exists>k < sz. n = 8 * (unat off + k) + j" by blast
  next
    assume "\<exists>k < sz. n = 8 * (unat off + k) + j"
    then obtain k where k: "k < sz" "n = 8 * (unat off + k) + j" by blast
    moreover have "8 * (unat off + k) + j < 32" using k(1) assms(1,3) by presburger
    moreover have "(8 * unat off + 8 * k + j) mod 8 = j" using assms(3) by presburger
    ultimately show "bit (splat_byte perm AND region_mask off sz) n"
      using assms(3,4) by (auto simp: bit_and_iff bit_region_mask o)
  qed
  have "p AND (splat_byte perm AND region_mask off sz) = splat_byte perm AND region_mask off sz \<longleftrightarrow>
      (\<forall>n. bit (splat_byte perm AND region_mask off sz) n \<longrightarrow> bit p n)"
    by (auto simp: bit_eq_iff bit_and_iff bit_region_mask)
  also have "\<dots> \<longleftrightarrow> (\<forall>k < sz. bit p (8 * (unat off + k) + j))" unfolding need by blast
  finally show ?thesis using assms(3) by (simp add: assms(5))
qed

lemma need_perm:
  assumes "unat off + sz \<le> 4" "0 < sz" "perm \<in> {PERM_READ, PERM_WRITE, PERM_EXEC}"
  shows "p AND (splat_byte perm AND region_mask off sz) = splat_byte perm AND region_mask off sz \<longleftrightarrow>
    (\<forall>k < sz. byte_of p (unat off + k) AND perm \<noteq> 0)"
  using assms(3) need_iff [OF assms(1,2) _ bit_splat(1) perm_clear(1)] need_iff [OF assms(1,2) _ bit_splat(2) perm_clear(2)]
    need_iff [OF assms(1,2) _ bit_splat(3) perm_clear(3)] by auto

lemma gather_iff:
  "gather ac need v addr n = Inr b \<longleftrightarrow>
     (\<forall>k < n. allows need v (addr + of_nat k)) \<and> b = map (\<lambda>k. content v (addr + of_nat k)) [0 ..< n]"
proof (cases "\<forall>k < n. allows need v (addr + of_nat k)")
  case True
  then have "spec_read ac need v addr (of_nat n) 0 (replicate n 0) = (Inr (), map (\<lambda>k. content v (addr + of_nat k)) [0 ..< n])"
    using spec_read_ok [of "replicate n 0" need v addr 0 ac "of_nat n"] by simp
  then show ?thesis using True by (auto simp: gather_def)
next
  case False
  then obtain k where "k < n" "\<not> allows need v (addr + of_nat k)" "\<forall>j < k. allows need v (addr + of_nat j)"
    by (rule first_failure)
  then have "fst (spec_read ac need v addr (of_nat n) 0 (replicate n 0)) =
      Inl (mk_fault (addr + of_nat k) (of_nat n) ac (blame v (addr + of_nat k)))"
    using spec_read_err [of k "replicate n 0" need v addr 0 ac "of_nat n"] by simp
  then have "gather ac need v addr n \<noteq> Inr b"
    by (cases "spec_read ac need v addr (of_nat n) 0 (replicate n 0)") (simp add: gather_def)
  then show ?thesis using False by simp
qed

lemma region_value:
  assumes "unat off + sz \<le> 4" "0 < sz"
  shows "bit (drop_bit (unat (off * 8)) (w AND region_mask off sz)) n \<longleftrightarrow> n < sz * 8 \<and> bit w (8 * unat off + n)"
proof -
  have o: "unat (off * 8) = 8 * unat off" using assms by (intro off8) simp
  show ?thesis using bit_imp_le_length [of w "8 * unat off + n"]
    by (auto simp: bit_drop_bit_eq bit_and_iff bit_region_mask o)
qed

text \<open>The value of a packed access is the little-endian value of its bytes.\<close>

lemma region_bytes:
  fixes w :: u32
  assumes "unat off + sz \<le> 4" "sz \<in> {1, 2, 4}"
  defines "v \<equiv> drop_bit (unat (off * 8)) (w AND region_mask off sz)" and "b \<equiv> map (\<lambda>k. byte_of w (unat off + k)) [0 ..< sz]"
  shows "sz = 1 \<Longrightarrow> v = ucast (b ! 0)" "sz = 2 \<Longrightarrow> v = ucast (u16_from_le b)"
    "sz = 2 \<Longrightarrow> ucast (v AND 0xFFFF) = u16_from_le b" "sz = 4 \<Longrightarrow> v = u32_from_le b"
proof -
  have bit: "bit v n \<longleftrightarrow> n < sz * 8 \<and> bit w (8 * unat off + n)" for n
    unfolding v_def by (rule region_value) (use assms(1,2) in auto)
  show "v = ucast (b ! 0)" if "sz = 1"
    by (rule bit_word_eqI) (auto simp: bit that b_def bit_simps)
  have two: "b ! 0 = byte_of w (unat off)" "b ! Suc 0 = byte_of w (unat off + 1)" if "sz = 2" using that by (simp_all add: b_def)
  have b2: "bit (u16_from_le b) n \<longleftrightarrow> n < 16 \<and> bit w (8 * unat off + n)" if "sz = 2" for n
  proof -
    consider "n < 8" | "8 \<le> n" "n < 16" | "16 \<le> n" by linarith
    then show ?thesis by cases (auto simp: u16_from_le_def two [OF that] bit_simps)
  qed
  show h: "v = ucast (u16_from_le b)" if "sz = 2"
    by (rule bit_word_eqI) (auto simp: bit b2 [OF that] that bit_simps)
  show "ucast (v AND 0xFFFF) = u16_from_le b" if "sz = 2"
  proof -
    have "(v AND 0xFFFF) = take_bit 16 v" by (simp add: take_bit_eq_mask mask_eq_exp_minus_1)
    then show ?thesis unfolding h [OF that] by (simp only:) (rule bit_word_eqI, auto simp: bit_simps)
  qed
  show "v = u32_from_le b" if "sz = 4"
  proof (rule bit_word_eqI)
    have four: "b ! 0 = byte_of w 0" "b ! Suc 0 = byte_of w 1" "b ! 2 = byte_of w 2" "b ! 3 = byte_of w 3"
      using that assms(1) by (simp_all add: b_def numeral_2_eq_2 numeral_3_eq_3)
    fix n assume "n < LENGTH(32)"
    then consider "n < 8" | "8 \<le> n" "n < 16" | "16 \<le> n" "n < 24" | "24 \<le> n" "n < 32" by fastforce
    then show "bit v n = bit (u32_from_le b) n"
      using assms(1) that by cases (auto simp: u32_from_le_def four bit bit_simps)
  qed
qed

lemma allows_span:
  assumes "lm_wf m" "lm_word_off m a = Some (w, off)" "unat a mod sz = 0" "sz \<in> {1, 2, 4}"
  shows "(\<forall>k < sz. allows perm (lane_peek m) (a + of_nat k)) \<longleftrightarrow> (\<forall>k < sz. byte_of (lm_perms m ! w) (unat off + k) AND perm \<noteq> 0)"
    "map (\<lambda>k. content (lane_peek m) (a + of_nat k)) [0 ..< sz] = map (\<lambda>k. byte_of (lm_content m ! w) (unat off + k)) [0 ..< sz]"
  using lane_peek_span [OF assms] by (auto simp: allows_def content_def)

lemma gather_lane:
  assumes "lm_wf m" "unat a mod sz = 0" "sz \<in> {1, 2, 4}"
    "perm \<in> {PERM_READ, PERM_WRITE, PERM_EXEC}"
  shows "lm_get perm ac m a sz = Inr v \<longleftrightarrow> (\<exists>w off. lm_word_off m a = Some (w, off) \<and>
      v = drop_bit (unat (off * 8)) (lm_content m ! w AND region_mask off sz) \<and> unat off + sz \<le> 4 \<and>
      gather ac perm (lane_peek m) a sz = Inr (map (\<lambda>k. byte_of (lm_content m ! w) (unat off + k)) [0 ..< sz]))"
proof (cases "lm_word_off m a")
  case (Some p)
  then obtain w off where w: "lm_word_off m a = Some (w, off)" by (cases p) auto
  note sp = word_span(1) [OF assms(1) w assms(2,3)]
  have pos: "0 < sz" using assms(3) by auto
  show ?thesis
    using assms(2) sp
    by (auto simp: lm_get_def align_checked_natural [OF assms(3)] w ok_or_def Let_def gather_iff allows_span [OF assms(1) w assms(2,3)]
        need_perm [OF sp pos assms(4)])
qed (simp add: lm_get_def ok_or_def align_checked_natural [OF assms(3)])

lemma gather_unmapped: "lm_word_off m a = None \<Longrightarrow> 0 < n \<Longrightarrow> \<forall>b. gather ac perm (lane_peek m) a n \<noteq> Inr b"
  unfolding gather_iff by (auto simp: allows_def lane_peek_def intro!: exI [of _ 0])

lemma lm_load_view:
  assumes "lm_wf m" "sz \<in> {1, 2, 4}"
  shows "lm_load m a sz = Inr v \<longleftrightarrow> view_load (lane_peek m) a sz = Inr v"
proof (cases "unat a mod sz = 0")
  case True
  note al = align_checked_natural [OF assms(2)]
  note g = gather_lane [OF assms(1) True assms(2), of PERM_READ Read, simplified]
  have ck: "sz = 2 \<Longrightarrow> check_align a 2 Read = Inr ()" "sz = 4 \<Longrightarrow> check_align a 4 Read = Inr ()"
    using al [of a Read] True by (auto simp: align_checked_def split: if_splits)
  show ?thesis
  proof (cases "lm_word_off m a")
    case None
    then show ?thesis
      using gather_unmapped [OF None, of sz Read PERM_READ] assms(2) ck unfolding lm_load_def g
      by (auto simp: view_load_def map_ok_Inr_conv)
  next
    case (Some p)
    then obtain w off where w: "lm_word_off m a = Some (w, off)" by (cases p) auto
    note r = region_bytes [OF word_span(1) [OF assms(1) w True assms(2)] assms(2), of "lm_content m ! w"]
    have "gather Read PERM_READ (lane_peek m) a sz = Inr b \<Longrightarrow> b = map (\<lambda>k. byte_of (lm_content m ! w) (unat off + k)) [0 ..< sz]" for b
      by (simp add: gather_iff allows_span(2) [OF assms(1) w True assms(2)])
    then show ?thesis
      using r w assms(2) ck word_span(1) [OF assms(1) w True assms(2)] unfolding lm_load_def g
      by (auto simp: view_load_def map_ok_Inr_conv)
  qed
next
  case False
  then have "sz = 2 \<and> check_align a 2 Read = Inl (mk_fault a 2 Read Unaligned) \<or> sz = 4 \<and> check_align a 4 Read = Inl (mk_fault a 4 Read Unaligned)"
    using align_checked_natural [OF assms(2), of a Read] assms(2) by (auto simp: align_checked_def split: if_splits)
  then show ?thesis by (auto simp: lm_load_def lm_get_def align_checked_def view_load_def)
qed

lemma lm_ifetch_view:
  assumes "lm_wf m"
  shows "lm_ifetch m a = Inr h \<longleftrightarrow> view_ifetch16 (lane_peek m) a = Inr h"
proof (cases "unat a mod 2 = 0")
  case True
  have two: "(2 :: nat) \<in> {1, 2, 4}" by simp
  note al = align_checked_natural [OF two, of a Exec]
  note g = gather_lane [OF assms True two, of PERM_EXEC Exec, simplified]
  have ck: "check_align a 2 Exec = Inr ()" using al True by (simp add: align_checked_def)
  show ?thesis
  proof (cases "lm_word_off m a")
    case None
    then show ?thesis
      using gather_unmapped [OF None, of 2 Exec PERM_EXEC] ck
      by (auto simp: lm_ifetch_def map_ok_Inr_conv g view_ifetch16_def)
  next
    case (Some p)
    then obtain w off where w: "lm_word_off m a = Some (w, off)" by (cases p) auto
    note sp = word_span(1) [OF assms w True two]
    note r = region_bytes(3) [OF sp two refl, of "lm_content m ! w"]
    have "gather Exec PERM_EXEC (lane_peek m) a 2 = Inr b \<Longrightarrow> b = map (\<lambda>k. byte_of (lm_content m ! w) (unat off + k)) [0 ..< 2]" for b
      unfolding gather_iff allows_span(2) [OF assms w True two] by blast
    then show ?thesis
      using r w ck sp by (auto simp: lm_ifetch_def map_ok_Inr_conv g view_ifetch16_def)
  qed
next
  case False
  then have "check_align a 2 Exec = Inl (mk_fault a 2 Exec Unaligned)"
    using align_checked_natural [of 2 a Exec] by (simp add: align_checked_def)
  then show ?thesis by (simp add: lm_ifetch_def lm_get_def align_checked_def view_ifetch16_def)
qed

lemma byte_merge:
  assumes "unat off + sz \<le> 4" "0 < sz" "j < 4"
  shows "byte_of (merge_word (region_mask off sz) off old v) j =
      (if unat off \<le> j \<and> j < unat off + sz then byte_of v (j - unat off) else byte_of old j)"
    "byte_of (raw_cleared (region_mask off sz) p) j =
      (if unat off \<le> j \<and> j < unat off + sz then raw_to_read (byte_of p j) else byte_of p j)"
proof -
  have o: "unat (off * 8) = 8 * unat off" using assms by (intro off8) simp
  have reg: "bit (region_mask off sz) (8 * j + n) \<longleftrightarrow> unat off \<le> j \<and> j < unat off + sz" if "n < 8" for n
    using that assms(3) unfolding bit_region_mask o by linarith
  have sp: "8 * j + n < 32" "(8 * j + n) mod 8 = n" if "n < 8" for n using that assms(3) by simp_all
  show "byte_of (merge_word (region_mask off sz) off old v) j =
      (if unat off \<le> j \<and> j < unat off + sz then byte_of v (j - unat off) else byte_of old j)"
  proof (rule bit_word_eqI)
    fix n assume "n < LENGTH(8)"
    then have n: "n < 8" by simp
    have "unat off \<le> j \<Longrightarrow> 8 * unat off \<le> 8 * j + n" "unat off \<le> j \<Longrightarrow> 8 * j + n - 8 * unat off = 8 * (j - unat off) + n" by simp_all
    then show "bit (byte_of (merge_word (region_mask off sz) off old v) j) n =
        bit (if unat off \<le> j \<and> j < unat off + sz then byte_of v (j - unat off) else byte_of old j) n"
      using n sp(1) [OF n]
      by (auto simp: merge_word_def bit_or_iff bit_and_iff bit_not_iff_eq bit_push_bit_iff reg [OF n] o split: if_split)
  qed
  show "byte_of (raw_cleared (region_mask off sz) p) j =
      (if unat off \<le> j \<and> j < unat off + sz then raw_to_read (byte_of p j) else byte_of p j)"
  proof (rule bit_word_eqI)
    fix n assume "n < LENGTH(8)"
    then have n: "n < 8" by simp
    show "bit (byte_of (raw_cleared (region_mask off sz) p) j) n =
        bit (if unat off \<le> j \<and> j < unat off + sz then raw_to_read (byte_of p j) else byte_of p j) n"
      using n sp [OF n]
      by (auto simp: raw_cleared_def bit_or_iff bit_and_iff bit_not_iff_eq reg [OF n] bit_splat bit_raw_to_read split: if_split)
  qed
qed

text \<open>The addresses of an access are the bytes of its region.\<close>

lemma span_addr:
  assumes "lm_wf m" "lm_word_off m a = Some (w, off)" "unat a mod sz = 0" "sz \<in> {1, 2, 4}"
  shows "unat (x - a) < sz \<Longrightarrow> lm_word_off m x = Some (w, off + of_nat (unat (x - a)))"
    "lm_word_off m x = Some (w, off') \<Longrightarrow> unat off \<le> unat off' \<Longrightarrow> unat (x - a) = unat off' - unat off"
proof -
  show "lm_word_off m x = Some (w, off + of_nat (unat (x - a)))" if "unat (x - a) < sz"
    using word_span(2) [OF assms that] by simp
  assume x: "lm_word_off m x = Some (w, off')" "unat off \<le> unat off'"
  have "lm_base m \<le> a" "lm_base m \<le> x" "unat (a - lm_base m) = 4 * w + unat off" "unat (x - lm_base m) = 4 * w + unat off'"
    using assms(2) x(1) by (simp_all add: lm_word_off_Some)
  then have "a \<le> x" "unat x - unat a = unat off' - unat off" using x(2) by (simp_all add: unat_sub word_le_nat_alt)
  then show "unat (x - a) = unat off' - unat off" by (simp add: unat_sub)
qed

definition store_bytes_of :: "nat \<Rightarrow> u32 \<Rightarrow> u8 list" where
  "store_bytes_of sz v = map (byte_of v) [0 ..< sz]"

lemma view_store_aligned:
  assumes "unat a mod sz = 0" "sz \<in> {1, 2, 4}"
  shows "view_store v a sz val = spec_write v a (of_nat sz) 0 (store_bytes_of sz val)"
proof -
  have b: "byte_of val 0 = ucast val" "byte_of val (Suc 0) = ucast (drop_bit 8 val)"
    "ucast (ucast val :: u16) = (ucast val :: u8)" "ucast (drop_bit 8 (ucast val :: u16)) = (ucast (drop_bit 8 val) :: u8)"
    by (rule bit_word_eqI, auto simp: byte_of_def bit_simps)+
  have c: "byte_of val 2 = ucast (drop_bit 16 val)" "byte_of val 3 = ucast (drop_bit 24 val)" by (simp_all add: byte_of_def)
  have "[0 ..< 2] = [0, Suc 0]" "[0 ..< 4] = [0, Suc 0, 2, 3]" by (simp_all add: upt_rec)
  moreover have "sz = 2 \<Longrightarrow> check_align a 2 Write = Inr ()" "sz = 4 \<Longrightarrow> check_align a 4 Write = Inr ()"
    using align_checked_natural [OF assms(2), of a Write] assms(1) by (auto simp: align_checked_def split: if_splits)
  ultimately show ?thesis
    using assms(2) b c by (auto simp: view_store_def store_bytes_of_def u16_to_le_def u32_to_le_def)
qed

lemma lm_store_wf: "lm_wf m \<Longrightarrow> lm_wf (snd (lm_store m a sz v))"
  by (auto simp: lm_store_def lm_wf_def Let_def split: sum.split prod.split)

text \<open>A lane's store succeeds exactly when the bytewise store does, and then leaves the same bytes.\<close>

lemma lm_store_view:
  assumes "lm_wf m" "sz \<in> {1, 2, 4}" "lm_store m a sz v = (Inr (), m')"
  shows "view_store (lane_peek m) a sz v = (Inr (), lane_peek m')"
proof -
  have al: "unat a mod sz = 0" using assms(2,3) by (auto simp: lm_store_def align_checked_natural split: if_splits)
  obtain w off where w: "lm_word_off m a = Some (w, off)"
    using assms(2,3) al by (cases "lm_word_off m a") (auto simp: lm_store_def align_checked_natural ok_or_def)
  have pos: "0 < sz" using assms(2) by auto
  note sp = word_span(1) [OF assms(1) w al assms(2)]
  let ?r = "region_mask off sz"
  have m': "m' = m\<lparr>lm_content := (lm_content m)[w := merge_word ?r off (lm_content m ! w) v],
                   lm_perms := (lm_perms m)[w := raw_cleared ?r (lm_perms m ! w)]\<rparr>"
    and ok: "\<forall>k < sz. allows PERM_WRITE (lane_peek m) (a + of_nat k)"
    using assms(3) al w allows_span(1) [OF assms(1) w al assms(2), of PERM_WRITE] need_perm [OF sp pos, of PERM_WRITE]
    by (auto simp: lm_store_def align_checked_natural [OF assms(2)] ok_or_def Let_def split: if_splits)
  have wl: "w < length (lm_content m)" "w < length (lm_perms m)" using w assms(1) by (simp_all add: lm_word_off_Some lm_wf_def)
  have off': "lm_word_off m' x = lm_word_off m x" for x by (simp add: m' lm_word_off_def)
  have sel: "lm_content m' = (lm_content m)[w := merge_word ?r off (lm_content m ! w) v]"
    "lm_perms m' = (lm_perms m)[w := raw_cleared ?r (lm_perms m ! w)]" by (simp_all add: m')
  have "lane_peek m' x = stored (lane_peek m) a (store_bytes_of sz v) x" for x
  proof (cases "unat (x - a) < sz")
    case True
    have x: "lm_word_off m x = Some (w, off + (x - a))" using span_addr(1) [OF assms(1) w al assms(2) True] by simp
    have u: "unat (off + (x - a)) = unat off + unat (x - a)" using word_span(3) [OF assms(1) w al assms(2) True] by simp
    show ?thesis
      using True wl sp pos by (simp add: stored_def Let_def store_bytes_of_def lane_peek_def off' x u sel byte_merge [OF sp pos])
  next
    case False
    show ?thesis
    proof (cases "lm_word_off m x")
      case (Some p)
      then obtain w' o' where x: "lm_word_off m x = Some (w', o')" by (cases p) auto
      then have "unat o' < 4" by (simp add: lm_word_off_Some)
      moreover have "w' = w \<Longrightarrow> \<not> (unat off \<le> unat o' \<and> unat o' < unat off + sz)"
        using span_addr(2) [OF assms(1) w al assms(2), of x o'] x False by auto
      ultimately show ?thesis
        using False wl sp pos x
        by (cases "w' = w") (auto simp: stored_def Let_def store_bytes_of_def lane_peek_def off' sel byte_merge [OF sp pos])
    qed (use False in \<open>simp add: stored_def store_bytes_of_def lane_peek_def off'\<close>)
  qed
  then show ?thesis
    using spec_write_ok [of "store_bytes_of sz v" "lane_peek m" a 0 "of_nat sz"] ok assms(2)
    by (auto simp: view_store_aligned [OF al assms(2)] store_bytes_of_def fun_eq_iff)
qed

section \<open>A lane and the scalar core\<close>

text \<open>A hart that the user-mode engine corresponds to: machine mode, no translation, no taint tracking, no exit port.\<close>

definition plain_hart :: "cpu \<Rightarrow> bool" where
  "plain_hart c \<longleftrightarrow> \<not> kmsan_enabled c \<and> htif_tohost c = None \<and> privilege c = M \<and> mstatus (csr c) AND MSTATUS_MPRV = 0"

definition lane_hart :: "lane \<Rightarrow> cpu \<Rightarrow> bool" where
  "lane_hart n c \<longleftrightarrow> regs c = ln_regs n \<and> pc c = ln_pc n \<and> insns_retired c = ln_insns n \<and> reservation c = ln_resv n \<and> plain_hart c"

lemma plain_updates [simp]:
  "plain_hart (wr_reg i v c) = plain_hart c" "plain_hart (c\<lparr>reservation := r\<rparr>) = plain_hart c"
  "plain_hart (c\<lparr>pc := a\<rparr>) = plain_hart c" "plain_hart (c\<lparr>insns_retired := k\<rparr>) = plain_hart c"
  "plain_hart (cmplog_push x y c) = plain_hart c" "plain_hart (ubsan_push p c) = plain_hart c"
  "plain_hart (c\<lparr>regs := rs\<rparr>) = plain_hart c"
  by (simp_all add: plain_hart_def kmsan_enabled_def wr_reg_def cmplog_push_def ubsan_push_def split: option.split)

lemma plain_reads:
  assumes "plain_hart c"
  shows "\<not> kmsan_enabled c" "clear_taint i c = c" "htif_tohost c = None" "untranslated c ac"
  using assms by (simp_all add: plain_hart_def clear_taint_def untranslated_def effective_priv_def)

lemma log_fields [simp]:
  "regs (cmplog_push x y c) = regs c" "pc (cmplog_push x y c) = pc c" "insns_retired (cmplog_push x y c) = insns_retired c"
  "reservation (cmplog_push x y c) = reservation c" "regs (ubsan_push p c) = regs c" "pc (ubsan_push p c) = pc c"
  "insns_retired (ubsan_push p c) = insns_retired c" "reservation (ubsan_push p c) = reservation c"
  by (simp_all add: cmplog_push_def ubsan_push_def split: option.split)

lemma lane_hart_ops:
  assumes "lane_hart n c"
  shows "lane_hart (ln_wr i v n) (wr_reg i v c)" "lane_hart (n\<lparr>ln_resv := r\<rparr>) (c\<lparr>reservation := r\<rparr>)"
    "lane_hart (ln_finish a n) (c\<lparr>pc := a, insns_retired := insns_retired c + 1\<rparr>)"
    "lane_hart n (cmplog_push x y c)" "lane_hart n (ubsan_push p c)" "rd_reg c i = ln_rd n i" "reservation c = ln_resv n"
    "plain_hart c"
  using assms by (simp_all add: lane_hart_def ln_wr_def wr_reg_def ln_finish_def rd_reg_def ln_rd_def)

lemma lane_active_ops [simp]:
  "ln_active (ln_wr i v n) = ln_active n" "ln_active (ln_finish a n) = ln_active n" "\<not> ln_active (ln_halt ex n)"
  by (simp_all add: ln_wr_def ln_finish_def ln_halt_def)

lemma lm_get_aligned: "lm_get perm ac m a sz = Inr v \<Longrightarrow> sz \<in> {1, 2, 4} \<Longrightarrow> unat a mod sz = 0"
  by (auto simp: lm_get_def align_checked_natural split: if_splits)

lemma lm_store_aligned: "lm_store m a sz v = (Inr (), m') \<Longrightarrow> sz \<in> {1, 2, 4} \<Longrightarrow> unat a mod sz = 0"
  by (auto simp: lm_store_def align_checked_natural split: if_splits)

definition lane_sim :: "('s \<Rightarrow> view) \<Rightarrow> ('s \<Rightarrow> bool) \<Rightarrow> lane \<times> lane_mem \<Rightarrow> 's hart \<Rightarrow> bool" where
  "lane_sim pk ok nm h \<longleftrightarrow> lane_hart (fst nm) (fst h) \<and> lm_wf (snd nm) \<and> ok (snd h) \<and> pk (snd h) = lane_peek (snd nm)"

context byte_bus
begin

lemma plain_xlate: "plain_hart c \<Longrightarrow> xlate B va ac (c, s) = (Inr va, (c, s))"
  by (simp add: xlate_def Let_def plain_reads)

lemma plain_load:
  assumes "lane_sim peek inv (n, m) (c, s)" "lm_load m a sz = Inr v" "sz \<in> {1, 2, 4}"
  shows "bus_ld B TMem a sz (c, s) = (Inr v, (c, s))" "load_impl B a sz sg (c, s) = (Inr (sign_extend sz sg v), (c, s))"
proof -
  have v: "view_load (peek s) a sz = Inr v" and inv: "inv s" and p: "plain_hart c"
    using assms lm_load_view [of m sz a v] by (auto simp: lane_sim_def lane_hart_def)
  show b: "bus_ld B TMem a sz (c, s) = (Inr v, (c, s))" using v by (simp add: bus_ld_def load_spec [OF inv])
  note al = lm_get_aligned [OF assms(2) [unfolded lm_load_def] assms(3)]
  show "load_impl B a sz sg (c, s) = (Inr (sign_extend sz sg v), (c, s))"
    by (simp add: load_impl_def natural_direct [OF al assms(3)] plain_xlate p b)
qed

lemma plain_store:
  assumes "lane_sim peek inv (n, m) (c, s)" "lm_store m a sz v = (Inr (), m')" "sz \<in> {1, 2, 4}"
  obtains s' where "bus_st B TMem a sz v (c, s) = (Inr (), (c, s'))" "store_impl B a sz v (c, s) = (Inr (), (c, s'))"
    "lane_sim peek inv (n, m') (c, s')"
proof
  let ?s = "snd (bus_store B s a sz v)"
  have wf: "lm_wf m" and inv: "inv s" and p: "plain_hart c" and pk: "peek s = lane_peek m"
    using assms(1) by (auto simp: lane_sim_def lane_hart_def)
  note vs = lm_store_view [OF wf assms(3,2)]
  have b: "bus_store B s a sz v = (Inr (), ?s)" using store_res [OF inv, of a sz v] vs pk by (simp add: prod_eq_iff)
  then show st: "bus_st B TMem a sz v (c, s) = (Inr (), (c, ?s))"
    by (cases "bus_store B s a sz v") (simp add: bus_st_def)
  show "store_impl B a sz v (c, s) = (Inr (), (c, ?s))"
    using natural_direct [OF lm_store_aligned [OF assms(2,3)] assms(3)] by (simp add: store_impl_def plain_xlate p st)
  show "lane_sim peek inv (n, m') (c, ?s)"
    using assms(1) store_inv [OF inv] store_peek [OF inv, of a sz v] vs pk lm_store_wf [OF wf, of a sz v] assms(2)
    by (simp add: lane_sim_def)
qed

lemma plain_fetch:
  assumes "lane_sim peek inv (n, m) (c, s)" "lm_ifetch m a = Inr h"
  shows "fetch16 B a (c, s) = (Inr h, (c, s))"
  using assms lm_ifetch_view [of m a h]
  by (auto simp: lane_sim_def lane_hart_def fetch16_def plain_xlate bus_if_def ifetch_spec)

lemma lane_sim_ops:
  assumes "lane_sim peek inv (n, m) (c, s)"
  shows "lane_sim peek inv (ln_wr i v n, m) (wr_reg i v c, s)"
    "lane_sim peek inv (n\<lparr>ln_resv := r\<rparr>, m) (c\<lparr>reservation := r\<rparr>, s)"
    "lane_sim peek inv (ln_finish a n, m) (c\<lparr>pc := a, insns_retired := insns_retired c + 1\<rparr>, s)"
    "lane_sim peek inv (n, m) (cmplog_push x y c, s)" "lane_sim peek inv (n, m) (ubsan_push p c, s)"
    "rd_reg c i = ln_rd n i" "reservation c = ln_resv n" "plain_hart c"
  using assms lane_hart_ops [of n c] by (simp_all add: lane_sim_def)

lemma tracks_finish:
  assumes "lane_sim peek inv (n, m) (c, s)" "exec_inst B i ipc (ipc + ilen) iword h = (Inr (EContinue, a), (c, s))"
  shows "\<exists>h'. exec_one B i ipc ilen iword h = (Inr EContinue, h') \<and> lane_sim peek inv (ln_finish a n, m) h'"
  using lane_sim_ops(3) [OF assms(1)] by (simp add: exec_one_def assms(2))

lemma lane_inst_tracks:
  assumes sim: "lane_sim peek inv (n, m) (c, s)" and run: "ln_inst i ipc (ipc + ilen) iword n m = (n', m')"
    and act: "ln_active n'"
  shows "\<exists>h'. exec_one B i ipc ilen iword (c, s) = (Inr EContinue, h') \<and> lane_sim peek inv (n', m') h'"
proof -
  note rd = lane_sim_ops(6) [OF sim] and p = plain_reads [OF lane_sim_ops(8) [OF sim]]
  have res: "reservation c = ln_resv n" by (rule lane_sim_ops(7) [OF sim])
  have wr: ?thesis if "exec_inst B i ipc (ipc + ilen) iword (c, s) = (Inr (EContinue, a), (wr_reg r v c, s))"
    "n' = ln_finish a (ln_wr r v n)" "m' = m" for a r v
    using tracks_finish [OF lane_sim_ops(1) [OF sim] that(1)] that(2,3) by simp
  note pure = exec_lui_def exec_auipc_def exec_jal_def exec_jalr_def exec_op_imm_def Let_def rd plain_reads lane_sim_ops(8) [OF sim]
  show ?thesis
  proof (cases i)
    case (Lui r1 imm)
    then show ?thesis using run by (intro wr) (auto simp: pure)
  next
    case (Auipc r1 imm)
    then show ?thesis using run by (intro wr) (auto simp: pure)
  next
    case (Jal r1 imm)
    then show ?thesis using run by (intro wr) (auto simp: pure)
  next
    case (Jalr r1 rs1 imm)
    then show ?thesis using run by (intro wr) (auto simp: pure)
  next
    case (OpImm op r1 rs1 imm)
    then show ?thesis using run by (intro wr) (auto simp: pure)
  next
    case (Load op r1 rs1 imm)
    then obtain v where ld: "lm_load m (ln_rd n rs1 + imm) (fst (load_shape op)) = Inr v"
      and n': "n' = ln_finish (ipc + ilen) (ln_wr r1 (sign_extend (fst (load_shape op)) (snd (load_shape op)) v) n)" "m' = m"
      using run act by (auto simp: ln_mem_def split: sum.splits)
    show ?thesis
      unfolding n' using plain_load(2) [OF sim ld load_size_natural]
      by (intro tracks_finish [OF lane_sim_ops(1) [OF sim]]) (simp add: Load exec_load_def Let_def rd p)
  next
    case (Store op rs1 rs2 imm)
    then obtain m1 where st: "lm_store m (ln_rd n rs1 + imm) (store_size op) (ln_rd n rs2) = (Inr (), m1)"
      and n': "n' = ln_finish (ipc + ilen) n" "m' = m1"
      using run act by (auto simp: ln_mem_def split: sum.splits prod.splits)
    obtain s' where s': "store_impl B (ln_rd n rs1 + imm) (store_size op) (ln_rd n rs2) (c, s) = (Inr (), (c, s'))"
      "lane_sim peek inv (n, m1) (c, s')"
      by (rule plain_store [OF sim st store_size_natural])
    show ?thesis
      unfolding n' using s'(1) by (intro tracks_finish [OF s'(2)]) (simp add: Store exec_store_def Let_def rd p)
  next
    case (LrW r1 rs1 aq rl)
    then obtain v where ld: "lm_load m (ln_rd n rs1) 4 = Inr v"
      and n': "n' = ln_finish (ipc + ilen) (ln_wr r1 v (n\<lparr>ln_resv := Some (ln_rd n rs1)\<rparr>))" "m' = m"
      using run act by (auto simp: ln_mem_def split: sum.splits)
    show ?thesis
      unfolding n' using plain_load(2) [OF sim ld, of False]
      by (intro tracks_finish [OF lane_sim_ops(1) [OF lane_sim_ops(2) [OF sim]]]) (simp add: LrW exec_lr_def Let_def rd p sign_extend_def)
  next
    case (ScW r1 rs1 rs2 aq rl)
    show ?thesis
    proof (cases "ln_resv n = Some (ln_rd n rs1)")
      case True
      then obtain m1 where st: "lm_store m (ln_rd n rs1) 4 (ln_rd n rs2) = (Inr (), m1)"
        and n': "n' = ln_finish (ipc + ilen) (ln_wr r1 0 (n\<lparr>ln_resv := None\<rparr>))" "m' = m1"
        using run act ScW by (auto simp: ln_mem_def split: sum.splits prod.splits)
      obtain s' where s': "store_impl B (ln_rd n rs1) 4 (ln_rd n rs2) (c, s) = (Inr (), (c, s'))" "lane_sim peek inv (n, m1) (c, s')"
        by (rule plain_store [OF sim st]) simp_all
      show ?thesis
        unfolding n' using s'(1) True
        by (intro tracks_finish [OF lane_sim_ops(1) [OF lane_sim_ops(2) [OF s'(2)]]])
          (simp add: ScW exec_sc_def Let_def rd p res plain_reads(2) lane_sim_ops(8) [OF sim])
    next
      case False
      then have n': "n' = ln_finish (ipc + ilen) (ln_wr r1 1 (n\<lparr>ln_resv := None\<rparr>))" "m' = m"
        using run ScW by (auto simp: ln_mem_def)
      show ?thesis
        unfolding n' using False
        by (intro tracks_finish [OF lane_sim_ops(1) [OF lane_sim_ops(2) [OF sim]]])
          (simp add: ScW exec_sc_def Let_def rd p res plain_reads(2) lane_sim_ops(8) [OF sim])
    qed
  next
    case (AmoW op r1 rs1 rs2 aq rl)
    then obtain old m1 where ld: "lm_load m (ln_rd n rs1) 4 = Inr old"
      and st: "lm_store m (ln_rd n rs1) 4 (amo_result op old (ln_rd n rs2)) = (Inr (), m1)"
      and n': "n' = ln_finish (ipc + ilen) (ln_wr r1 old (n\<lparr>ln_resv := None\<rparr>))" "m' = m1"
      using run act by (auto simp: ln_mem_def split: sum.splits prod.splits)
    obtain s' where s': "bus_st B TMem (ln_rd n rs1) 4 (amo_result op old (ln_rd n rs2)) (c, s) = (Inr (), (c, s'))"
      "lane_sim peek inv (n, m1) (c, s')"
      by (rule plain_store [OF sim st]) simp_all
    show ?thesis
      unfolding n' using s'(1) plain_load(1) [OF sim ld]
      by (intro tracks_finish [OF lane_sim_ops(1) [OF lane_sim_ops(2) [OF s'(2)]]])
        (simp add: AmoW exec_amo_def Let_def rd p plain_xlate lane_sim_ops(8) [OF sim])
  next
    case (Branch op rs1 rs2 imm)
    then have n': "n' = ln_finish (if branch_taken op (ln_rd n rs1) (ln_rd n rs2) then ipc + imm else ipc + ilen) n" "m' = m"
      using run by auto
    show ?thesis
      unfolding n' by (rule tracks_finish [OF lane_sim_ops(4) [OF sim]])
        (simp add: Branch exec_branch_def Let_def rd plain_reads(1) lane_sim_ops(8) [OF sim])
  next
    case (Op op r1 rs1 rs2)
    then have n': "n' = ln_finish (ipc + ilen) (ln_wr r1 (alu op (ln_rd n rs1) (ln_rd n rs2)) n)" "m' = m" using run by auto
    have s1: "lane_sim peek inv (n, m) (if op = ASub \<or> op = AXor then cmplog_push (ln_rd n rs1) (ln_rd n rs2) c else c, s)"
      using lane_sim_ops(4) [OF sim] sim by simp
    show ?thesis
      unfolding n' by (rule tracks_finish [OF lane_sim_ops(1) [OF s1]])
        (simp add: Op exec_op_def Let_def rd plain_reads(1) lane_sim_ops(8) [OF sim])
  next
    case (Mul op r1 rs1 rs2)
    then have n': "n' = ln_finish (ipc + ilen) (ln_wr r1 (muldiv op (ln_rd n rs1) (ln_rd n rs2)) n)" "m' = m" using run by auto
    have s1: "lane_sim peek inv (n, m) (if is_div op \<and> ln_rd n rs2 = 0 then ubsan_push ipc c else c, s)"
      using lane_sim_ops(5) [OF sim] sim by simp
    show ?thesis
      unfolding n' by (rule tracks_finish [OF lane_sim_ops(1) [OF s1]])
        (simp add: Mul exec_mul_def Let_def rd plain_reads(1) lane_sim_ops(8) [OF sim])
  next
    case Fence
    then show ?thesis using run tracks_finish [OF sim, of Fence ipc ilen iword "(c, s)" "ipc + ilen"] by auto
  qed (use run act in auto)
qed

lemma lane_step_tracks:
  assumes sim: "lane_sim peek inv (n, m) (c, s)" and run: "lane_step (n, m) = (n', m')" and act: "ln_active n'"
  shows "\<exists>h'. step B (c, s) = (Inr EContinue, h') \<and> lane_sim peek inv (n', m') h'"
proof -
  have pc: "pc c = ln_pc n" using sim by (simp add: lane_sim_def lane_hart_def)
  obtain lo where lo: "lm_ifetch m (ln_pc n) = Inr lo"
    using run act by (auto simp: lane_step_def Let_def ln_mem_def split: sum.splits)
  show ?thesis
  proof (cases "lo AND 3 = 3")
    case True
    then obtain hi where hi: "lm_ifetch m (ln_pc n + 2) = Inr hi"
      using run act lo by (auto simp: lane_step_def Let_def ln_mem_def split: sum.splits)
    show ?thesis
      using lane_inst_tracks [OF sim _ act] run True lo hi plain_fetch [OF sim lo] plain_fetch [OF sim hi]
      by (simp add: lane_step_def step_def Let_def ln_mem_def pc)
  next
    case False
    show ?thesis
      using lane_inst_tracks [OF sim _ act] run False lo plain_fetch [OF sim lo]
      by (simp add: lane_step_def step_def Let_def ln_mem_def pc)
  qed
qed

end

section \<open>Runs\<close>

text \<open>Steps of the scalar core, as long as each one says to continue.\<close>

fun continue_steps :: "'s bus \<Rightarrow> nat \<Rightarrow> 's hart \<Rightarrow> 's hart option" where
  "continue_steps B 0 h = Some h"
| "continue_steps B (Suc k) h = (case step B h of (Inr EContinue, h') \<Rightarrow> continue_steps B k h' | _ \<Rightarrow> None)"

fun vec_steps :: "nat \<Rightarrow> vec_cpu \<times> vec_mmu \<Rightarrow> vec_cpu \<times> vec_mmu" where
  "vec_steps 0 cm = cm"
| "vec_steps (Suc k) cm = vec_steps k (vec_step cm)"

definition lane_active :: "vec_cpu \<times> vec_mmu \<Rightarrow> nat \<Rightarrow> bool" where
  "lane_active cm l \<longleftrightarrow> vc_active (fst cm) ! l"

lemma lane_active_view: "ln_active (fst (lane_view cm l)) = lane_active cm l"
  by (simp add: lane_view_def lane_of_def lane_active_def)

lemma lane_active_steps:
  "vec_wf cm \<Longrightarrow> l < LANES \<Longrightarrow> lane_active (vec_steps k cm) l \<Longrightarrow> lane_active cm l"
proof (induction k arbitrary: cm)
  case (Suc k)
  then have "lane_active (vec_step cm) l" using vec_step_lanes(1) by simp
  then show ?case
    using vec_step_lanes(2) [OF Suc.prems(1,2)] lane_active_view [of cm l] lane_active_view [of "vec_step cm" l] by auto
qed simp

context byte_bus
begin

lemma vec_steps_track:
  "vec_wf cm \<Longrightarrow> l < LANES \<Longrightarrow> lane_sim peek inv (lane_view cm l) h \<Longrightarrow> lane_active (vec_steps k cm) l \<Longrightarrow>
    \<exists>h'. continue_steps B k h = Some h' \<and> lane_sim peek inv (lane_view (vec_steps k cm) l) h'"
proof (induction k arbitrary: cm h)
  case (Suc k)
  note wf' = vec_step_lanes(1) [OF Suc.prems(1)]
  have act: "lane_active (vec_step cm) l" "lane_active cm l"
    using lane_active_steps [OF wf' Suc.prems(2)] lane_active_steps [OF Suc.prems(1,2), of "Suc k"] Suc.prems(4) by auto
  have view: "lane_view (vec_step cm) l = lane_step (lane_view cm l)"
    using vec_step_lanes(2) [OF Suc.prems(1,2)] act(2) by (simp add: lane_active_view)
  obtain n m where nm: "lane_view cm l = (n, m)" by fastforce
  obtain n' m' where nm': "lane_step (n, m) = (n', m')" by fastforce
  obtain c s where h: "h = (c, s)" by fastforce
  have "ln_active n'" using act(1) lane_active_view [of "vec_step cm" l] by (simp add: view nm nm')
  from lane_step_tracks [OF Suc.prems(3) [unfolded nm h] nm' this]
  obtain h' where h': "step B h = (Inr EContinue, h')" "lane_sim peek inv (lane_view (vec_step cm) l) h'"
    by (auto simp: view nm nm' h)
  show ?case using Suc.IH [OF wf' Suc.prems(2) h'(2)] Suc.prems(4) h'(1) by simp
qed simp

end

end
