(* ===== verification/Vec_Results.thy ===== *)
theory Vec_Results
  imports Vec_Scalar
begin

text \<open>
  The properties of the lane-parallel executor of \<open>crates/fs-vec/src/lib.rs\<close> and
  \<open>crates/fs-vec/src/vec_mmu.rs\<close>: its step is the step of every lane, and a lane runs as the scalar
  core does.
\<close>

section \<open>The constructors establish the invariant\<close>

lemma all_lanes_at_length [simp]: "length (all_lanes_at w f xs) = length xs"
proof -
  have "length (foldl (\<lambda>xs l. xs[w * LANES + l := f (xs ! (w * LANES + l))]) xs ls) = length xs" for ls
    by (induction ls arbitrary: xs) simp_all
  then show ?thesis by (simp add: all_lanes_at_def)
qed

lemma vec_mmu_new_wf: "vec_mmu_new base sz = Some m \<Longrightarrow> sz < 2 ^ 32 \<Longrightarrow> vm_wf m"
proof -
  assume m: "vec_mmu_new base sz = Some m" "sz < 2 ^ 32"
  have "base AND 3 = 0" unfolding low2 by (rule ccontr) (use m in \<open>simp add: vec_mmu_new_def\<close>)
  then show "vm_wf m" using m by (auto simp: vec_mmu_new_def vm_wf_def Let_def split: if_splits)
qed

lemma vm_map_wf: "vm_wf m \<Longrightarrow> vm_wf (snd (vm_map_from i addr bs perm m))"
  by (induction bs arbitrary: i m) (auto simp: vm_wf_def Let_def split: option.split)

lemma vm_protect_wf: "vm_wf m \<Longrightarrow> vm_wf (snd (vm_protect_from is addr len perm m))"
  by (induction "is" arbitrary: m) (auto simp: vm_wf_def Let_def split: option.split)

lemma vec_cpu_new_wf: "vc_wf (vec_cpu_new entry)"
  by (simp add: vc_wf_def vec_cpu_new_def list_all_length)

text \<open>Two instructions in a word of executable memory, for the examples: \<open>c.addi a0, 1\<close> twice.\<close>

definition sample_mmu :: vec_mmu where
  "sample_mmu = snd (vm_map 0x1000 [0x05, 0x05, 0x05, 0x05] (PERM_READ OR PERM_EXEC) (the (vec_mmu_new 0x1000 8)))"

definition sample_batch :: "vec_cpu \<times> vec_mmu" where
  "sample_batch = (vec_set_reg 3 10 41 (vec_cpu_new 0x1000), sample_mmu)"

lemma sample_batch_wf: "vec_wf sample_batch"
proof -
  have "vm_wf (the (vec_mmu_new 0x1000 8))"
    by (rule vec_mmu_new_wf [of "0x1000" 8]) (simp_all add: vec_mmu_new_def)
  then have "vm_wf sample_mmu" unfolding sample_mmu_def vm_map_def by (rule vm_map_wf)
  then show ?thesis
    by (simp add: vec_wf_def sample_batch_def vec_set_reg_def vc_wf_ops vec_cpu_new_wf)
qed

section \<open>The step of every lane\<close>

text \<open>
  C7.  One \<open>step\<close> of the executor, whichever of its paths runs, steps every active lane exactly as the
  single-lane machine steps that lane's registers, program counter, reservation, counter, exit reason
  and memory; it leaves every other lane untouched; and it leaves every lane where the plain loop over
  the lanes would.
\<close>

theorem vec_step_is_lane_step:
  assumes "vec_wf cm"
  shows "vec_wf (vec_step cm) \<and>
    list_all (\<lambda>l. lane_view (vec_step cm) l = (if lane_active cm l then lane_step (lane_view cm l) else lane_view cm l) \<and>
                  lane_view (vec_step cm) l = lane_view (step_all_lanes cm) l) [0 ..< LANES]"
  using vec_step_lanes [OF assms] step_all_lanes_view(2) [OF assms] by (auto simp: list_all_iff lane_active_view)

lemma sample_lane_step:
  "ln_regs (fst (lane_step (lane_view sample_batch 3))) ! 10 = 42 \<and> ln_active (fst (lane_step (lane_view sample_batch 3)))"
  by code_simp

lemma sample_lane_active: "lane_active sample_batch 3"
  by (simp add: lane_active_def sample_batch_def vec_set_reg_def vec_wr_reg_def vec_cpu_new_def LANES_def)

theorem vec_step_is_lane_step_witness:
  "vec_wf sample_batch \<and> lane_active sample_batch 3 \<and>
   lane_view (vec_step sample_batch) 3 = lane_step (lane_view sample_batch 3) \<and>
   ln_regs (fst (lane_view (vec_step sample_batch) 3)) ! 10 = 42"
  using vec_step_is_lane_step [OF sample_batch_wf] sample_batch_wf sample_lane_step sample_lane_active
  by (simp add: list_all_iff LANES_def)

section \<open>A lane runs as the scalar core\<close>

text \<open>
  C8.  Give the scalar core one lane's registers and a flat memory showing the same bytes.  As long as
  the lane stays active through \<open>k\<close> steps of the executor, the scalar core continues through \<open>k\<close> steps
  too, and then holds the lane's registers, program counter, retired-instruction count and
  reservation, in a memory that shows the lane's bytes and permissions.
\<close>

theorem lane_runs_as_scalar:
  assumes "vec_wf cm" "l < LANES" "lane_sim mmu_peek mmu_wf (lane_view cm l) h" "lane_active (vec_steps k cm) l"
  shows "\<exists>h'. continue_steps mmu_bus k h = Some h' \<and> lane_sim mmu_peek mmu_wf (lane_view (vec_steps k cm) l) h'"
  using assms by (rule flat_bus.vec_steps_track)

text \<open>The scalar start of a lane: a fresh machine-mode hart with its state, over its bytes in a flat memory.\<close>

definition flat_bytes :: "u32 list \<Rightarrow> u8 list" where
  "flat_bytes ws = map (\<lambda>i. byte_of (ws ! (i div 4)) (i mod 4)) [0 ..< 4 * length ws]"

definition scalar_of :: "lane \<times> lane_mem \<Rightarrow> mmu hart" where
  "scalar_of nm = (case nm of (n, m) \<Rightarrow>
     ((cpu_new (ln_pc n))\<lparr>regs := ln_regs n, insns_retired := ln_insns n, reservation := ln_resv n\<rparr>,
      \<lparr>mmu_base = lm_base m, mmu_mem = flat_bytes (lm_content m), mmu_perms = flat_bytes (lm_perms m),
       mmu_track_dirty = False, mmu_dirty = [], mmu_dirty_bitmap = []\<rparr>))"

lemma scalar_of_sim:
  assumes "lm_wf m" "unat (lm_base m) + 4 * length (lm_content m) \<le> 4294967296"
  shows "lane_sim mmu_peek mmu_wf (n, m) (scalar_of (n, m))"
proof -
  let ?f = "snd (scalar_of (n, m))"
  have "lm_word_off m a = map_option (\<lambda>off. (off div 4, of_nat (off mod 4))) (offset ?f a)" for a
    by (auto simp: lm_word_off_def offset_def scalar_of_def flat_bytes_def Let_def)
  moreover have "off < 4 * length (lm_content m)" if "offset ?f a = Some off" for a off
    using that by (simp add: offset_Some_iff scalar_of_def flat_bytes_def)
  ultimately have "mmu_peek ?f a = lane_peek m a" for a
    using assms(1) by (cases "offset ?f a")
      (auto simp: mmu_peek_def lane_peek_def scalar_of_def flat_bytes_def lm_wf_def unat_of_nat take_bit_nat_eq_self)
  then have "mmu_peek ?f = lane_peek m" by blast
  then show ?thesis
    using assms by (simp add: lane_sim_def lane_hart_def plain_hart_def scalar_of_def cpu_new_def kmsan_enabled_def csr_default_def
        mmu_wf_def flat_bytes_def lm_wf_def)
qed

theorem lane_runs_as_scalar_witness:
  "\<exists>h'. continue_steps mmu_bus 1 (scalar_of (lane_view sample_batch 3)) = Some h' \<and>
    lane_sim mmu_peek mmu_wf (lane_view (vec_steps 1 sample_batch) 3) h'"
proof (rule lane_runs_as_scalar [OF sample_batch_wf])
  have m: "vm_num_words sample_mmu = 2" "vm_base sample_mmu = 0x1000" by code_simp+
  have "lm_wf (lane_mem_of sample_mmu 3)"
    using sample_batch_wf by (intro lane_mem_wf) (simp add: vec_wf_def sample_batch_def)
  then show "lane_sim mmu_peek mmu_wf (lane_view sample_batch 3) (scalar_of (lane_view sample_batch 3))"
    unfolding lane_view_def by (intro scalar_of_sim) (simp_all add: sample_batch_def m)
  show "lane_active (vec_steps 1 sample_batch) 3"
    using sample_lane_active vec_step_lanes(2) [OF sample_batch_wf, of 3] sample_lane_step
    by (simp add: lane_active_view [symmetric] LANES_def)
qed (simp add: LANES_def)

end
