(* ===== verification/VecSystem.thy ===== *)
theory VecSystem
  imports VecCpu Machines Core Cov
begin

text \<open>
  The full-system batch of \<open>crates/fs-vec/src/system.rs\<close>: \<open>LANES\<close> harts, each with its own
  copy-on-write machine over one shared golden image.  \<open>vs_step\<close> syncs the timers, tries the
  converged fast path (one translation and fetch against the golden image for all lanes, packed ALU
  or one shared load) and else runs \<open>step_system\<close> lane by lane; then it records edges.  Loops over the
  lanes are folds over lane numbers.  The cross-checks the code compiles only under debug
  assertions are left out (the one on \<open>done_code\<close> at the end of \<open>run_batch\<close> too); lane numbers
  are below \<open>LANES\<close>; the step counters wrap at 64 bits.
\<close>

section \<open>State\<close>

datatype sys_lane_exit = LHalt u32 | LHypercall u32 | LBudget

record vec_system =
  vs_lanes :: "cpu list"
  vs_bus :: "cow_machine list"
  vs_golden :: golden
  vs_active :: lane_mask
  vs_exit :: "sys_lane_exit option list"
  vs_cov :: "cov_bitmap list"
  vs_simd_steps :: u64
  vs_scalar_steps :: u64
  vs_shared_fetch_steps :: u64

definition vs_from_golden_cpu :: "golden \<Rightarrow> cpu \<Rightarrow> u32 \<Rightarrow> u32 \<Rightarrow> vec_system" where
  "vs_from_golden_cpu g c ram_base ram_size =
     \<lparr>vs_lanes = replicate LANES c, vs_bus = replicate LANES (cow_machine_from_golden g ram_base ram_size),
      vs_golden = g, vs_active = replicate LANES True, vs_exit = replicate LANES None,
      vs_cov = replicate LANES bitmap_new, vs_simd_steps = 0, vs_scalar_steps = 0, vs_shared_fetch_steps = 0\<rparr>"

definition vs_from_template :: "cpu \<Rightarrow> flat_machine \<Rightarrow> vec_system" where
  "vs_from_template c m =
     (let ram_base = mmu_base (m_ram m); ram_size = of_nat (length (mmu_mem (m_ram m))) in
      vs_from_golden_cpu (from_mmu (m_ram m)) c ram_base ram_size)"

definition vs_total_overlay_pages :: "vec_system \<Rightarrow> nat" where
  "vs_total_overlay_pages s = sum_list (map (\<lambda>b. length (cow_dirty (m_ram b))) (vs_bus s))"

definition vs_golden_pages :: "vec_system \<Rightarrow> nat" where
  "vs_golden_pages s = num_pages (vs_golden s)"

definition vs_set_reg :: "nat \<Rightarrow> u8 \<Rightarrow> u32 \<Rightarrow> vec_system \<Rightarrow> vec_system" where
  "vs_set_reg l i v s =
     (if i \<noteq> 0 then s\<lparr>vs_lanes := (vs_lanes s)[l := (vs_lanes s ! l)\<lparr>regs := (regs (vs_lanes s ! l))[unat i := v]\<rparr>]\<rparr>
      else s)"

definition vs_any_active :: "vec_system \<Rightarrow> bool" where
  "vs_any_active s = list_ex (\<lambda>a. a) (vs_active s)"

definition vs_halt :: "nat \<Rightarrow> sys_lane_exit \<Rightarrow> vec_system \<Rightarrow> vec_system" where
  "vs_halt l ex s = s\<lparr>vs_active := (vs_active s)[l := False], vs_exit := (vs_exit s)[l := Some ex]\<rparr>"

definition for_lanes :: "(nat \<Rightarrow> 'a \<Rightarrow> 'a) \<Rightarrow> 'a \<Rightarrow> 'a" where
  "for_lanes f s = foldl (\<lambda>s l. f l s) s [0 ..< LANES]"

section \<open>Injection\<close>

definition lane_store :: "nat \<Rightarrow> u32 \<Rightarrow> u32 \<Rightarrow> vec_system \<Rightarrow> vec_system" where
  "lane_store l pa w s = s\<lparr>vs_bus := (vs_bus s)[l := snd (bus_store cow_machine_bus (vs_bus s ! l) pa 4 w)]\<rparr>"

definition inject_lane :: "nat \<Rightarrow> u32 list \<Rightarrow> u32 list \<Rightarrow> vec_system \<Rightarrow> vec_system" where
  "inject_lane l prog_pas words s = foldl (\<lambda>s (pa, w). lane_store l pa w s) s (zip prog_pas words)"

definition scratch_word :: "u8 list \<Rightarrow> nat \<Rightarrow> u32" where
  "scratch_word bytes i =
     u32_from_le (map (\<lambda>b. if i * 4 + b < length bytes then bytes ! (i * 4 + b) else 0) [0, 1, 2, 3])"

definition inject_scratch :: "nat \<Rightarrow> u32 list \<Rightarrow> u8 list \<Rightarrow> vec_system \<Rightarrow> vec_system" where
  "inject_scratch l scratch_pas bytes s =
     foldl (\<lambda>s (i, pa). lane_store l pa (scratch_word bytes i) s) s (zip [0 ..< length scratch_pas] scratch_pas)"

section \<open>The converged fast path\<close>

text \<open>The module's own copies of the core's private helpers.\<close>

definition vs_rd_reg :: "cpu \<Rightarrow> u8 \<Rightarrow> u32" where
  "vs_rd_reg c i = (if i = 0 then 0 else regs c ! unat i)"

definition vs_update_timers :: "cpu \<Rightarrow> cpu" where
  "vs_update_timers c =
     (let t = virtual_time c; f = csr c;
          m1 = (if t \<ge> stimecmp f then mip f OR push_bit 5 1 else mip f AND NOT (push_bit 5 1));
          m2 = (if t \<ge> mtimecmp f then m1 OR push_bit 7 1 else m1 AND NOT (push_bit 7 1))
      in c\<lparr>csr := f\<lparr>mip := m2\<rparr>\<rparr>)"

definition vs_pending_interrupt :: "cpu \<Rightarrow> bool" where
  "vs_pending_interrupt c =
     (let pending = mip (csr c) AND mie (csr c) in
      pending \<noteq> 0 \<and>
      list_ex (\<lambda>code. pending AND push_bit code 1 \<noteq> 0 \<and>
        (if drop_bit code (mideleg (csr c)) AND 1 \<noteq> 0
         then privilege c = U \<or> (privilege c = S \<and> mstatus (csr c) AND MSTATUS_SIE \<noteq> 0)
         else privilege c \<noteq> M \<or> mstatus (csr c) AND MSTATUS_MIE \<noteq> 0)) [11, 3, 7, 9, 1, 5])"

definition vs_overlaid :: "vec_system \<Rightarrow> u32 \<Rightarrow> bool" where
  "vs_overlaid s = any_lane_overlaid (vs_golden s) (map m_ram (vs_bus s))"

definition shared_fetch16 :: "vec_system \<Rightarrow> nat \<Rightarrow> u32 \<Rightarrow> u16 option" where
  "shared_fetch16 s first va =
     (case xlate_golden_readonly (vs_lanes s ! first) (vs_golden s) va Exec (vs_overlaid s) of
        Inl _ \<Rightarrow> None
      | Inr pa \<Rightarrow> if vs_overlaid s pa then None else golden_fetch_u16 (vs_golden s) pa)"

text \<open>What both payloads do to one active lane: write \<open>rd\<close>, advance, count.\<close>

definition retire_lane :: "u8 \<Rightarrow> u32 \<Rightarrow> u32 \<Rightarrow> cpu \<Rightarrow> cpu" where
  "retire_lane rd v ilen c =
     (let c1 = (if rd \<noteq> 0 then c\<lparr>regs := (regs c)[unat rd := v]\<rparr> else c)
      in c1\<lparr>pc := pc c1 + ilen, insns_retired := insns_retired c1 + 1\<rparr>)"

definition try_shared_load :: "lane_mask \<Rightarrow> load_op \<Rightarrow> u8 \<Rightarrow> u8 \<Rightarrow> u32 \<Rightarrow> u32 \<Rightarrow> vec_system \<Rightarrow> bool \<times> vec_system" where
  "try_shared_load active op rd rs1 imm ilen s =
     (case first_active active of
        None \<Rightarrow> (False, s)
      | Some first \<Rightarrow>
          (let addr0 = vs_rd_reg (vs_lanes s ! first) rs1 + imm;
               sz = fst (load_shape op); sgd = snd (load_shape op) in
           if any_lane (\<lambda>l. active ! l \<and> vs_rd_reg (vs_lanes s ! l) rs1 + imm \<noteq> addr0) then (False, s)
           else if addr0 mod of_nat sz \<noteq> 0 then (False, s)
           else case xlate_golden_readonly (vs_lanes s ! first) (vs_golden s) addr0 Read (vs_overlaid s) of
             Inl _ \<Rightarrow> (False, s)
           | Inr pa \<Rightarrow>
               if vs_overlaid s pa then (False, s)
               else case golden_read_sized (vs_golden s) pa sz of
                 None \<Rightarrow> (False, s)
               | Some raw \<Rightarrow>
                   (let v = extend_raw sz sgd raw in
                    (True, for_lanes (\<lambda>l s. if active ! l
                       then s\<lparr>vs_lanes := (vs_lanes s)[l := retire_lane rd v ilen (vs_lanes s ! l)]\<rparr> else s) s))))"

record alu_dispatch =
  ad_op :: alu_op
  ad_rd :: u8
  ad_rs1 :: u8
  ad_rs2 :: "u8 option"
  ad_imm :: u32

definition dispatch_simd_alu :: "lane_mask \<Rightarrow> alu_dispatch \<Rightarrow> u32 \<Rightarrow> vec_system \<Rightarrow> vec_system" where
  "dispatch_simd_alu active d ilen s =
     (let a = lanewise (\<lambda>l. if active ! l then vs_rd_reg (vs_lanes s ! l) (ad_rs1 d) else 0);
          b = lanewise (\<lambda>l. if active ! l
                then (case ad_rs2 d of Some rs2 \<Rightarrow> vs_rd_reg (vs_lanes s ! l) rs2 | None \<Rightarrow> ad_imm d) else 0);
          result = simd_alu (ad_op d) a b
      in for_lanes (\<lambda>l s. if active ! l
           then s\<lparr>vs_lanes := (vs_lanes s)[l := retire_lane (ad_rd d) (result ! l) ilen (vs_lanes s ! l)]\<rparr> else s) s)"

text \<open>The timer refresh stops at the first lane with a pending interrupt.\<close>

fun refresh_timers :: "nat list \<Rightarrow> lane_mask \<Rightarrow> vec_system \<Rightarrow> bool \<times> vec_system" where
  "refresh_timers [] active s = (True, s)"
| "refresh_timers (l # ls) active s =
     (if \<not> active ! l then refresh_timers ls active s
      else let s1 = s\<lparr>vs_lanes := (vs_lanes s)[l := vs_update_timers (vs_lanes s ! l)]\<rparr> in
        if vs_pending_interrupt (vs_lanes s1 ! l) then (False, s1) else refresh_timers ls active s1)"

definition sys_converged :: "lane_mask \<Rightarrow> nat \<Rightarrow> vec_system \<Rightarrow> bool" where
  "sys_converged active first s \<longleftrightarrow>
     \<not> any_lane (\<lambda>l. active ! l \<and>
        (pc (vs_lanes s ! l) \<noteq> pc (vs_lanes s ! first) \<or> privilege (vs_lanes s ! l) \<noteq> privilege (vs_lanes s ! first) \<or>
         satp (csr (vs_lanes s ! l)) \<noteq> satp (csr (vs_lanes s ! first))))"

definition shared_decode :: "vec_system \<Rightarrow> nat \<Rightarrow> u32 \<Rightarrow> (inst \<times> u32) option" where
  "shared_decode s first pc0 =
     (case shared_fetch16 s first pc0 of
        None \<Rightarrow> None
      | Some lo0 \<Rightarrow>
          if lo0 AND 0x3 \<noteq> 0x3 then Some (decode_compressed lo0, 2)
          else case shared_fetch16 s first (pc0 + 2) of
            None \<Rightarrow> None
          | Some hi0 \<Rightarrow> Some (decode (ucast lo0 OR push_bit 16 (ucast hi0)), 4))"

definition try_converged_fast_path :: "vec_system \<Rightarrow> bool \<times> vec_system" where
  "try_converged_fast_path s =
     (let active = vs_active s in
      case first_active active of
        None \<Rightarrow> (False, s)
      | Some first \<Rightarrow>
          (let pc0 = pc (vs_lanes s ! first) in
           if \<not> sys_converged active first s then (False, s)
           else case refresh_timers [0 ..< LANES] active s of
             (False, s1) \<Rightarrow> (False, s1)
           | (True, s1) \<Rightarrow>
               (case shared_decode s1 first pc0 of
                  None \<Rightarrow> (False, s1)
                | Some (i, ilen) \<Rightarrow>
                    (let s2 = s1\<lparr>vs_shared_fetch_steps := vs_shared_fetch_steps s1 + 1\<rparr> in
                     case i of
                       OpImm op rd rs1 imm \<Rightarrow>
                         (True, dispatch_simd_alu active \<lparr>ad_op = op, ad_rd = rd, ad_rs1 = rs1, ad_rs2 = None, ad_imm = imm\<rparr> ilen s2)
                     | Op op rd rs1 rs2 \<Rightarrow>
                         (True, dispatch_simd_alu active \<lparr>ad_op = op, ad_rd = rd, ad_rs1 = rs1, ad_rs2 = Some rs2, ad_imm = 0\<rparr> ilen s2)
                     | Load op rd rs1 imm \<Rightarrow> try_shared_load active op rd rs1 imm ilen s2
                     | _ \<Rightarrow> (False, s2)))))"

section \<open>The step\<close>

definition sync_lane :: "nat \<Rightarrow> vec_system \<Rightarrow> vec_system" where
  "sync_lane l s =
     (if \<not> vs_active s ! l then s
      else let c = vs_lanes s ! l;
               m = (vs_bus s ! l)\<lparr>m_clint := (m_clint (vs_bus s ! l))\<lparr>cl_mtime := virtual_time c\<rparr>\<rparr>
        in s\<lparr>vs_bus := (vs_bus s)[l := m], vs_lanes := (vs_lanes s)[l := apply_clint c (m_clint m)]\<rparr>)"

definition record_lane :: "nat \<Rightarrow> u32 \<Rightarrow> vec_system \<Rightarrow> vec_system" where
  "record_lane l prev s =
     (let cur = pc (vs_lanes s ! l) in
      if cur \<noteq> prev + 4 \<and> cur \<noteq> prev + 2
      then s\<lparr>vs_cov := (vs_cov s)[l := bitmap_record_edge prev cur (vs_cov s ! l)]\<rparr> else s)"

definition scalar_lane :: "u32 list \<Rightarrow> nat \<Rightarrow> vec_system \<Rightarrow> vec_system" where
  "scalar_lane prev_pc l s =
     (case step_system cow_machine_bus (vs_lanes s ! l, vs_bus s ! l) of (ex, (c, m)) \<Rightarrow>
        let s1 = s\<lparr>vs_lanes := (vs_lanes s)[l := c], vs_bus := (vs_bus s)[l := m]\<rparr> in
        case ex of
          SContinue \<Rightarrow> record_lane l (prev_pc ! l) s1
        | SHalt code \<Rightarrow> vs_halt l (LHalt code) s1
        | SHypercall code \<Rightarrow> vs_halt l (LHypercall code) s1)"

definition vs_step :: "vec_system \<Rightarrow> vec_system" where
  "vs_step s =
     (let s1 = for_lanes sync_lane s;
          active_before = vs_active s1;
          prev_pc = map pc (vs_lanes s1)
      in case try_converged_fast_path s1 of
           (True, s2) \<Rightarrow>
             for_lanes (\<lambda>l s. if active_before ! l then record_lane l (prev_pc ! l) s else s)
               (s2\<lparr>vs_simd_steps := vs_simd_steps s2 + 1\<rparr>)
         | (False, s2) \<Rightarrow>
             for_lanes (\<lambda>l s. if active_before ! l then scalar_lane prev_pc l s else s)
               (s2\<lparr>vs_scalar_steps := vs_scalar_steps s2 + 1\<rparr>))"

section \<open>Batches\<close>

definition budget_lane :: "u64 list \<Rightarrow> u64 \<Rightarrow> nat \<Rightarrow> vec_system \<Rightarrow> vec_system" where
  "budget_lane start_insns budget l s =
     (if vs_active s ! l \<and> insns_retired (vs_lanes s ! l) - start_insns ! l \<ge> budget then vs_halt l LBudget s else s)"

text \<open>\<open>None\<close> is a batch that never ends: the loop counts retired instructions only.\<close>

partial_function (option) run_batch_loop :: "u64 list \<Rightarrow> u64 \<Rightarrow> vec_system \<Rightarrow> vec_system option" where
  "run_batch_loop start_insns budget s =
     (if \<not> vs_any_active s then Some s
      else let s1 = for_lanes (budget_lane start_insns budget) s in
        if \<not> vs_any_active s1 then Some s1 else run_batch_loop start_insns budget (vs_step s1))"

definition run_batch :: "u64 \<Rightarrow> vec_system \<Rightarrow> vec_system option" where
  "run_batch budget s = run_batch_loop (map insns_retired (vs_lanes s)) budget s"

definition reset_lane :: "cpu \<Rightarrow> clint \<Rightarrow> nat \<Rightarrow> nat \<Rightarrow> vec_system \<Rightarrow> vec_system" where
  "reset_lane c cl base_uart l s =
     (let b = vs_bus s ! l in
      s\<lparr>vs_lanes := (vs_lanes s)[l := c],
        vs_bus := (vs_bus s)[l := b\<lparr>m_ram := cow_reset (m_ram b), m_clint := cl,
          m_uart := (m_uart b)\<lparr>ua_out := take base_uart (ua_out (m_uart b))\<rparr>\<rparr>],
        vs_active := (vs_active s)[l := True], vs_exit := (vs_exit s)[l := None],
        vs_cov := (vs_cov s)[l := bitmap_clear (vs_cov s ! l)]\<rparr>)"

definition reset_batch :: "cpu \<Rightarrow> clint \<Rightarrow> nat \<Rightarrow> vec_system \<Rightarrow> vec_system" where
  "reset_batch c cl base_uart s = for_lanes (reset_lane c cl base_uart) s"

end
