(* ===== verification/Sys_Lanes.thy ===== *)
theory Sys_Lanes
  imports Vec_Engine VecSystem
begin

text \<open>
  The batch of \<open>VecSystem\<close> lane by lane: the state of one lane, its contract (\<open>lane_drive\<close>, an iteration of
  the scalar driver loop with the edge recorded), loops over the lanes as changes of one lane each, and
  the timer refresh of the fast path.
\<close>

section \<open>The lanes of a batch\<close>

type_synonym sys_lane_state = "cpu \<times> cow_machine \<times> bool \<times> sys_lane_exit option \<times> cov_bitmap"

definition sys_lane :: "vec_system \<Rightarrow> nat \<Rightarrow> sys_lane_state" where
  "sys_lane s l = (vs_lanes s ! l, vs_bus s ! l, vs_active s ! l, vs_exit s ! l, vs_cov s ! l)"

definition sys_wf :: "vec_system \<Rightarrow> bool" where
  "sys_wf s \<longleftrightarrow> length (vs_lanes s) = LANES \<and> length (vs_bus s) = LANES \<and> length (vs_active s) = LANES \<and>
     length (vs_exit s) = LANES \<and> length (vs_cov s) = LANES"

text \<open>The contract of one lane: an iteration of the driver loop, with the edge recorded.\<close>

definition lane_drive :: "sys_lane_state \<Rightarrow> sys_lane_state" where
  "lane_drive x = (case x of (c, m, a, e, v) \<Rightarrow>
     if \<not> a then x
     else case drive cow_machine_bus (c, m) of (ex, (c', m')) \<Rightarrow>
       (case ex of
          SContinue \<Rightarrow> (c', m', a, e, if pc c' \<noteq> pc c + 4 \<and> pc c' \<noteq> pc c + 2 then bitmap_record_edge (pc c) (pc c') v else v)
        | SHalt k \<Rightarrow> (c', m', False, Some (LHalt k), v)
        | SHypercall k \<Rightarrow> (c', m', False, Some (LHypercall k), v)))"

text \<open>A change of one lane.\<close>

definition lane_local :: "(sys_lane_state \<Rightarrow> sys_lane_state) \<Rightarrow> nat \<Rightarrow> vec_system \<Rightarrow> vec_system \<Rightarrow> bool" where
  "lane_local g l s s' \<longleftrightarrow> sys_wf s' \<and> vs_golden s' = vs_golden s \<and>
     (\<forall>k < LANES. sys_lane s' k = (if k = l then g (sys_lane s l) else sys_lane s k))"

lemma fold_lanes_local:
  assumes "\<And>l s. l < LANES \<Longrightarrow> sys_wf s \<Longrightarrow> lane_local (g l) l s (f l s)"
  shows "sys_wf s \<Longrightarrow> distinct ls \<Longrightarrow> \<forall>l \<in> set ls. l < LANES \<Longrightarrow>
    sys_wf (foldl (\<lambda>s l. f l s) s ls) \<and> vs_golden (foldl (\<lambda>s l. f l s) s ls) = vs_golden s \<and>
    (\<forall>k < LANES. sys_lane (foldl (\<lambda>s l. f l s) s ls) k = (if k \<in> set ls then g k (sys_lane s k) else sys_lane s k))"
proof (induction ls arbitrary: s)
  case (Cons l ls)
  have one: "lane_local (g l) l s (f l s)" using Cons.prems by (intro assms) auto
  then have wf: "sys_wf (f l s)" by (simp add: lane_local_def)
  have IH: "sys_wf (foldl (\<lambda>s l. f l s) (f l s) ls) \<and> vs_golden (foldl (\<lambda>s l. f l s) (f l s) ls) = vs_golden (f l s) \<and>
    (\<forall>k < LANES. sys_lane (foldl (\<lambda>s l. f l s) (f l s) ls) k = (if k \<in> set ls then g k (sys_lane (f l s) k) else sys_lane (f l s) k))"
    by (rule Cons.IH [OF wf]) (use Cons.prems in auto)
  then show ?case using one Cons.prems(2) by (auto simp: lane_local_def)
qed simp

lemma for_lanes_local:
  assumes "\<And>l s. l < LANES \<Longrightarrow> sys_wf s \<Longrightarrow> lane_local (g l) l s (f l s)" "sys_wf s"
  shows "sys_wf (for_lanes f s)" "vs_golden (for_lanes f s) = vs_golden s"
    "\<And>k. k < LANES \<Longrightarrow> sys_lane (for_lanes f s) k = g k (sys_lane s k)"
  using fold_lanes_local [of g f s "[0 ..< LANES]", OF assms(1)] assms(2) by (auto simp: for_lanes_def)

definition on_cpu :: "(cpu \<Rightarrow> cpu) \<Rightarrow> sys_lane_state \<Rightarrow> sys_lane_state" where
  "on_cpu f x = (case x of (c, r) \<Rightarrow> (f c, r))"

lemma on_cpu_sys [simp]: "on_cpu f (sys_lane s l) = (f (vs_lanes s ! l), snd (sys_lane s l))"
  by (simp add: on_cpu_def sys_lane_def)

lemma set_lane_local:
  assumes "sys_wf s" "l < LANES"
  shows "lane_local (on_cpu f) l s (s\<lparr>vs_lanes := (vs_lanes s)[l := f (vs_lanes s ! l)]\<rparr>)"
  using assms by (auto simp: lane_local_def sys_wf_def sys_lane_def on_cpu_def)

lemma lane_local_if:
  "sys_wf s \<Longrightarrow> (b \<Longrightarrow> lane_local g l s s') \<Longrightarrow> lane_local (\<lambda>x. if b then g x else x) l s (if b then s' else s)"
  by (auto simp: lane_local_def)

section \<open>Syncing and the loop over the lanes\<close>

definition synced :: "sys_lane_state \<Rightarrow> sys_lane_state" where
  "synced x = (case x of (c, m, a, r) \<Rightarrow>
     if \<not> a then x
     else let m1 = m\<lparr>m_clint := (m_clint m)\<lparr>cl_mtime := virtual_time c\<rparr>\<rparr> in (apply_clint c (m_clint m1), m1, a, r))"

lemma sync_lane_local: "l < LANES \<Longrightarrow> sys_wf s \<Longrightarrow> lane_local synced l s (sync_lane l s)"
  by (auto simp: lane_local_def sync_lane_def synced_def sys_wf_def sys_lane_def Let_def)

definition scalar_stepped :: "u32 \<Rightarrow> sys_lane_state \<Rightarrow> sys_lane_state" where
  "scalar_stepped prev x = (case x of (c, m, a, e, v) \<Rightarrow>
     case step_system cow_machine_bus (c, m) of (ex, (c', m')) \<Rightarrow>
       (case ex of
          SContinue \<Rightarrow> (c', m', a, e, if pc c' \<noteq> prev + 4 \<and> pc c' \<noteq> prev + 2 then bitmap_record_edge prev (pc c') v else v)
        | SHalt k \<Rightarrow> (c', m', False, Some (LHalt k), v)
        | SHypercall k \<Rightarrow> (c', m', False, Some (LHypercall k), v)))"

lemma scalar_lane_local: "l < LANES \<Longrightarrow> sys_wf s \<Longrightarrow> lane_local (scalar_stepped (prevs ! l)) l s (scalar_lane prevs l s)"
  by (auto simp: lane_local_def scalar_lane_def scalar_stepped_def sys_wf_def sys_lane_def Let_def record_lane_def vs_halt_def
      split: prod.split sys_exit.split)

lemma record_lane_local:
  "l < LANES \<Longrightarrow> sys_wf s \<Longrightarrow>
   lane_local (\<lambda>(c, m, a, e, v). (c, m, a, e, if pc c \<noteq> prev + 4 \<and> pc c \<noteq> prev + 2 then bitmap_record_edge prev (pc c) v else v)) l s
     (record_lane l prev s)"
  by (auto simp: lane_local_def record_lane_def sys_wf_def sys_lane_def Let_def)

lemma pc_apply_clint [simp]: "pc (apply_clint c cl) = pc c"
  by (simp add: apply_clint_def set_clint_def)

lemma lane_drive_synced: "lane_drive (c, m, True, r) = scalar_stepped (pc c) (synced (c, m, True, r))"
  by (cases r) (simp add: lane_drive_def scalar_stepped_def synced_def drive_def Let_def)

section \<open>Timers\<close>

lemma vs_copies [simp]:
  "vs_rd_reg = rd_reg" "vs_update_timers = update_timers" "vs_pending_interrupt c \<longleftrightarrow> pending_interrupt c \<noteq> None"
proof -
  show "vs_rd_reg = rd_reg" by (intro ext) (simp add: vs_rd_reg_def rd_reg_def)
  show "vs_update_timers = update_timers" by (intro ext) (simp add: vs_update_timers_def update_timers_def)
  have find_ex: "list_ex P xs \<longleftrightarrow> find P xs \<noteq> None" for P :: "nat \<Rightarrow> bool" and xs by (induction xs) auto
  show "vs_pending_interrupt c \<longleftrightarrow> pending_interrupt c \<noteq> None"
    unfolding vs_pending_interrupt_def pending_interrupt_def Let_def interrupt_enabled_def find_ex
    by (cases "mip (csr c) AND mie (csr c) = 0") (simp_all only: if_True if_False simp_thms)
qed

lemma update_timers_idem [simp]: "update_timers (update_timers c) = update_timers c"
proof -
  have "(((x OR a) OR b) OR a) OR b = (x OR a) OR b" "((x OR a) AND b OR a) AND b = (x OR a) AND b"
    "(x AND a OR b) AND a OR b = x AND a OR b" "(((x AND a) AND b) AND a) AND b = (x AND a) AND b" for x a b :: u32
    by (auto simp: bit_eq_iff bit_or_iff bit_and_iff)
  then show ?thesis by (simp add: update_timers_def virtual_time_def Let_def)
qed

lemma step_system_timers: "step_system B (update_timers c, m) = step_system B (c, m)"
  by (simp only: step_system_def poll_interrupt_def Let_def prod.case update_timers_idem)

lemma refresh_timers_lanes:
  "sys_wf s \<Longrightarrow> \<forall>l \<in> set ls. l < LANES \<Longrightarrow> distinct ls \<Longrightarrow> refresh_timers ls active s = (b, s') \<Longrightarrow>
    sys_wf s' \<and> vs_golden s' = vs_golden s \<and> vs_bus s' = vs_bus s \<and>
    (\<forall>k < LANES. (sys_lane s' k = sys_lane s k \<or> (k \<in> set ls \<and> active ! k \<and> sys_lane s' k = on_cpu update_timers (sys_lane s k))) \<and>
       (b \<longrightarrow> k \<in> set ls \<longrightarrow> active ! k \<longrightarrow> sys_lane s' k = on_cpu update_timers (sys_lane s k) \<and> pending_interrupt (vs_lanes s' ! k) = None))"
proof (induction ls arbitrary: s)
  case (Cons l ls)
  let ?s = "s\<lparr>vs_lanes := (vs_lanes s)[l := update_timers (vs_lanes s ! l)]\<rparr>"
  have l: "l < LANES" using Cons.prems by simp
  have loc: "lane_local (on_cpu update_timers) l s ?s" by (rule set_lane_local [OF Cons.prems(1) l])
  then have wf: "sys_wf ?s" by (simp add: lane_local_def)
  show ?case
  proof (cases "\<not> active ! l")
    case True
    then have r: "refresh_timers ls active s = (b, s')" using Cons.prems(4) by simp
    show ?thesis using Cons.IH [OF Cons.prems(1) _ _ r] Cons.prems(2,3) True by auto
  next
    case act: False
    show ?thesis
    proof (cases "pending_interrupt (update_timers (vs_lanes s ! l)) = None")
      case True
      have len: "length (vs_lanes s) = LANES" using Cons.prems(1) by (simp add: sys_wf_def)
      have r: "refresh_timers ls active ?s = (b, s')" using Cons.prems(4) act True l len by (simp add: Let_def)
      have IH: "sys_wf s' \<and> vs_golden s' = vs_golden ?s \<and> vs_bus s' = vs_bus ?s \<and>
        (\<forall>k < LANES. (sys_lane s' k = sys_lane ?s k \<or> (k \<in> set ls \<and> active ! k \<and> sys_lane s' k = on_cpu update_timers (sys_lane ?s k))) \<and>
         (b \<longrightarrow> k \<in> set ls \<longrightarrow> active ! k \<longrightarrow> sys_lane s' k = on_cpu update_timers (sys_lane ?s k) \<and> pending_interrupt (vs_lanes s' ! k) = None))"
        by (rule Cons.IH [OF wf _ _ r]) (use Cons.prems(2,3) in auto)
      have "l \<notin> set ls" using Cons.prems(3) by simp
      moreover have "sys_lane s' l = on_cpu update_timers (sys_lane s l)" using IH l \<open>l \<notin> set ls\<close> loc by (auto simp: lane_local_def)
      moreover from this have "pending_interrupt (vs_lanes s' ! l) = None" using True by (simp add: sys_lane_def on_cpu_def)
      ultimately show ?thesis using IH loc act by (auto simp: lane_local_def)
    next
      case False
      then have "b = False" "s' = ?s" using Cons.prems(1,4) act l by (auto simp: Let_def sys_wf_def)
      then show ?thesis using loc act by (auto simp: lane_local_def)
    qed
  qed
qed simp

end
