(* ===== verification/Sys_Translation.thy ===== *)
theory Sys_Translation
  imports Sys_Lanes
begin

text \<open>
  What a lane's own bus and \<open>xlate\<close> give where the shared path reads the golden image: the same bytes on
  pages no lane has copied, and the same physical address for a TLB in agreement with the page tables.
\<close>

section \<open>Memory a lane shares with the image\<close>

text \<open>The RAM window of a lane covers the image and lies above the devices.\<close>

definition window_ok :: "golden \<Rightarrow> cow_machine \<Rightarrow> bool" where
  "window_ok g m \<longleftrightarrow> cow_wf (m_ram m) \<and> cow_golden (m_ram m) = g \<and> m_ram_base m \<le> g_base g \<and>
     unat (g_base g) + g_size g \<le> unat (m_ram_end m) \<and> UART_BASE + UART_SIZE \<le> g_base g"

lemma golden_offset_iff:
  "golden_offset g x = Some off \<longleftrightarrow> g_base g \<le> x \<and> off = unat (x - g_base g) \<and> off < g_size g"
  by (auto simp: golden_offset_def g_size_def Let_def not_less)

lemma window_routes:
  assumes "window_ok g m" "golden_offset g x = Some off"
  shows "in_ram x (m_ram_base m) (m_ram_end m)" "\<not> in_clint x" "\<not> in_uart x"
proof -
  have x: "g_base g \<le> x" "unat (x - g_base g) < g_size g" using assms(2) by (auto simp: golden_offset_iff)
  have ux: "unat x = unat (g_base g) + unat (x - g_base g)" using x(1) by (simp add: unat_sub word_le_nat_alt)
  have "unat x < unat (m_ram_end m)" using assms(1) x(2) ux by (simp add: window_ok_def)
  then show "in_ram x (m_ram_base m) (m_ram_end m)"
    using assms(1) x(1) by (auto simp: in_ram_def window_ok_def word_less_nat_alt)
  have "0x10000100 \<le> g_base g" using assms(1) by (simp add: window_ok_def UART_BASE_def UART_SIZE_def)
  then have dev: "0x10000100 \<le> x" using x(1) by (rule order_trans)
  then show "\<not> in_uart x" by (simp add: in_uart_def UART_BASE_def UART_SIZE_def not_less)
  have "\<not> x < 0x02010000" using order_trans [OF _ dev, of "0x02010000"] by (simp add: not_less)
  then show "\<not> in_clint x" by (simp add: in_clint_def CLINT_BASE_def CLINT_SIZE_def)
qed

lemma span_in_page:
  fixes off n i :: nat
  assumes "n \<in> {1, 2, 4}" "off mod n = 0" "i < n"
  shows "(off + i) div PAGE_SIZE = off div PAGE_SIZE"
proof -
  have "(off + i) div n = off div n" using assms(2,3) by (auto simp: div_add1_eq [of off i n])
  moreover obtain k where "PAGE_SIZE = n * k" using assms(1) by (auto simp: PAGE_SIZE_def intro: that [of 4096] that [of 2048] that [of 1024])
  ultimately show ?thesis using div_mult2_eq [of "off + i" n k] div_mult2_eq [of off n k] by presburger
qed

lemma cow_shared_peek:
  assumes wf: "cow_wf r" and g: "cow_golden r = g" and n: "n \<in> {1, 2, 4}" "unat x mod n = 0"
    and off: "golden_offset g x = Some off" "off + n \<le> g_size g" and ov: "\<not> is_overlaid r (off div PAGE_SIZE)" and i: "i < n"
  shows "cow_peek r (x + of_nat i) = cow_peek (cow_new g) (x + of_nat i)"
proof -
  have gwf: "golden_wf g" using wf g by (simp add: cow_wf_def)
  have x: "g_base g \<le> x" "off = unat (x - g_base g)" using off(1) by (auto simp: golden_offset_iff)
  have ux: "unat x = unat (g_base g) + off" using x by (simp add: unat_sub word_le_nat_alt)
  have sm: "unat x + i < 4294967296" using gwf off(2) i ux by (simp add: golden_wf_def g_size_def)
  have xi: "unat (x + of_nat i) = unat x + i" by (rule unat_add_no_wrap [OF sm])
  have ge: "g_base g \<le> x + of_nat i" using xi ux by (simp add: word_le_nat_alt)
  have "unat (x + of_nat i - g_base g) = off + i" using xi ux ge by (simp add: unat_sub)
  then have o: "cow_offset r (x + of_nat i) = Some (off + i)"
    using ge off(2) i g by (simp add: cow_offset_def Let_def not_less)
  have "unat (g_base g) mod n = 0"
    using gwf n(1) by (elim insertE emptyE) (simp_all add: golden_wf_def mod_eq_0_iff_dvd, presburger)
  then have "off mod n = 0" using n(2) ux by (metis add_0 mod_add_left_eq)
  then have "\<not> is_overlaid r ((off + i) div PAGE_SIZE)" using span_in_page [OF n(1) _ i] ov by simp
  then show ?thesis using golden_page_peek [OF wf o] g by simp
qed

lemma golden_fetch_span: "golden_fetch_u16 g x = Some hw \<Longrightarrow> \<exists>off. golden_offset g x = Some off \<and> off + 2 \<le> g_size g \<and> unat x mod 2 = 0"
  using align_natural(1) [of x]
  by (auto simp: golden_fetch_u16_def g_size_def natural_access_def not_less split: if_splits option.splits)

lemma golden_read_span:
  assumes "golden_read_sized g x sz = Some v" "sz \<in> {1, 2, 4}"
  shows "\<exists>off. golden_offset g x = Some off \<and> off + sz \<le> g_size g \<and> unat x mod sz = 0"
  using assms(2)
proof (elim insertE emptyE)
  assume "sz = 1"
  then show ?thesis using assms(1)
    by (auto simp: golden_read_sized_def golden_read_u8_def golden_offset_iff split: option.splits)
next
  assume sz: "sz = 2"
  then obtain h where "golden_read_u16 g x = Some h" using assms(1) by (auto simp: golden_read_sized_def)
  then show ?thesis using align_natural(1) [of x] unfolding sz
    by (auto simp: golden_read_u16_def g_size_def natural_access_def not_less split: if_splits option.splits)
next
  assume sz: "sz = 4"
  then have "golden_read_u32 g x = Some v" using assms(1) by (simp add: golden_read_sized_def)
  then show ?thesis using align_natural(2) [of x] unfolding sz
    by (auto simp: golden_read_u32_def g_size_def natural_access_def not_less split: if_splits option.splits)
qed

lemma cow_shared_gather:
  assumes "cow_wf r" "cow_golden r = g" "\<not> is_overlaid r (unat (x - g_base g) div PAGE_SIZE)" "n \<in> {1, 2, 4}"
    "golden_offset g x = Some off \<and> off + n \<le> g_size g \<and> unat x mod n = 0"
  shows "gather ac need (cow_peek r) x n = gather ac need (cow_peek (cow_new g)) x n"
proof (rule gather_cong)
  fix i assume i: "i < n"
  have "off = unat (x - g_base g)" using assms(5) by (simp add: golden_offset_iff)
  then show "cow_peek r (x + of_nat i) = cow_peek (cow_new g) (x + of_nat i)"
    using assms(3,5) by (intro cow_shared_peek [OF assms(1,2,4) _ _ _ _ i]) simp_all
qed

lemma golden_image_access:
  assumes "golden_wf g"
  shows "golden_fetch_u16 g x = Some hw \<Longrightarrow> view_ifetch16 (cow_peek (cow_new g)) x = Inr hw"
    "golden_read_sized g x sz = Some v \<Longrightarrow> view_load (cow_peek (cow_new g)) x sz = Inr v"
proof -
  have "bus_ifetch16 cow_bus (cow_new g) x = (view_ifetch16 (cow_peek (cow_new g)) x, cow_new g)"
    "bus_load cow_bus (cow_new g) x sz = (view_load (cow_peek (cow_new g)) x sz, cow_new g)"
    by (rule cow_bus.ifetch_spec cow_bus.load_spec, rule cow_new_wf [OF assms])+
  then have "cow_ifetch16 (cow_new g) x = view_ifetch16 (cow_peek (cow_new g)) x"
    "cow_load (cow_new g) x sz = view_load (cow_peek (cow_new g)) x sz" by (simp_all add: cow_bus_def)
  then show "golden_fetch_u16 g x = Some hw \<Longrightarrow> view_ifetch16 (cow_peek (cow_new g)) x = Inr hw"
    "golden_read_sized g x sz = Some v \<Longrightarrow> view_load (cow_peek (cow_new g)) x sz = Inr v"
    by (simp_all only: golden_fetch_ifetch [OF assms] golden_read_sized_load [OF assms])
qed

lemma cow_shared_fetch:
  assumes wf: "cow_wf r" and g: "cow_golden r = g" and ov: "\<not> is_overlaid r (unat (x - g_base g) div PAGE_SIZE)"
    and f: "golden_fetch_u16 g x = Some hw"
  shows "bus_ifetch16 cow_bus r x = (Inr hw, r)"
proof -
  have gwf: "golden_wf g" using wf g by (simp add: cow_wf_def)
  obtain off where off: "golden_offset g x = Some off \<and> off + 2 \<le> g_size g \<and> unat x mod 2 = 0"
    using golden_fetch_span [OF f] by (elim exE)
  have two: "(2 :: nat) \<in> {1, 2, 4}" by simp
  show ?thesis
    by (simp only: cow_bus.ifetch_spec [OF wf] view_ifetch16_def cow_shared_gather [OF wf g ov two off])
      (simp only: view_ifetch16_def [symmetric] golden_image_access(1) [OF gwf f])
qed

lemma cow_shared_load:
  assumes wf: "cow_wf r" and g: "cow_golden r = g" and ov: "\<not> is_overlaid r (unat (x - g_base g) div PAGE_SIZE)"
    and f: "golden_read_sized g x sz = Some v" and sz: "sz \<in> {1, 2, 4}"
  shows "bus_load cow_bus r x sz = (Inr v, r)"
proof -
  have gwf: "golden_wf g" using wf g by (simp add: cow_wf_def)
  obtain off where off: "golden_offset g x = Some off \<and> off + sz \<le> g_size g \<and> unat x mod sz = 0"
    using golden_read_span [OF f sz] by (elim exE)
  note gat = cow_shared_gather [OF wf g ov sz off]
  have ne: "(2 :: nat) = 1 \<longleftrightarrow> False" "(4 :: nat) = 1 \<longleftrightarrow> False" "(4 :: nat) = 2 \<longleftrightarrow> False" by simp_all
  have "view_load (cow_peek r) x sz = view_load (cow_peek (cow_new g)) x sz"
    using sz
  proof (elim insertE emptyE)
    assume n: "sz = 1" show ?thesis by (simp only: n view_load_def gat [unfolded n] if_True refl)
  next
    assume n: "sz = 2" show ?thesis by (simp only: n view_load_def gat [unfolded n] ne if_True if_False simp_thms)
  next
    assume n: "sz = 4" show ?thesis by (simp only: n view_load_def gat [unfolded n] ne if_True if_False simp_thms)
  qed
  then show ?thesis by (simp only: cow_bus.load_spec [OF wf] golden_image_access(2) [OF gwf f])
qed

text \<open>What a lane's bus answers where no lane has a private page.\<close>

lemma shared_bus:
  assumes w: "window_ok g m" and m: "m \<in> set bs" and ov: "\<not> any_lane_overlaid g (map m_ram bs) x"
  shows "golden_fetch_u16 g x = Some hw \<Longrightarrow> bus_ifetch16 cow_machine_bus m x = (Inr hw, m)"
    "golden_read_sized g x sz = Some v \<Longrightarrow> sz \<in> {1, 2, 4} \<Longrightarrow> bus_load cow_machine_bus m x sz = (Inr v, m)"
    "golden_read_u32 g x = Some v \<Longrightarrow> bus_load cow_machine_bus m x 4 = (Inr v, m)"
proof -
  have r: "cow_wf (m_ram m)" "cow_golden (m_ram m) = g" using w by (auto simp: window_ok_def)
  have no: "\<not> is_overlaid (m_ram m) (unat (x - g_base g) div PAGE_SIZE)"
    using ov m by (auto simp: any_lane_overlaid_def Let_def list_ex_iff split: if_splits)
  show "bus_ifetch16 cow_machine_bus m x = (Inr hw, m)" if f: "golden_fetch_u16 g x = Some hw"
    using golden_fetch_span [OF f] window_routes [OF w, of x] cow_shared_fetch [OF r no f]
    by (auto simp: cow_machine_bus_def dev_bus_def dev_ifetch16_def)
  have ld: "bus_load cow_machine_bus m x sz = (Inr v, m)" if f: "golden_read_sized g x sz = Some v" "sz \<in> {1, 2, 4}" for sz
    using golden_read_span [OF f] window_routes [OF w, of x] cow_shared_load [OF r no f]
    by (auto simp: cow_machine_bus_def dev_bus_def dev_load_def)
  show "golden_read_sized g x sz = Some v \<Longrightarrow> sz \<in> {1, 2, 4} \<Longrightarrow> bus_load cow_machine_bus m x sz = (Inr v, m)" by (rule ld)
  show "golden_read_u32 g x = Some v \<Longrightarrow> bus_load cow_machine_bus m x 4 = (Inr v, m)" by (rule ld) (simp_all add: golden_read_sized_def)
qed

section \<open>Translation\<close>

text \<open>
  A TLB is trusted over the image when each entry gives what the current golden walk gives: the guest
  has fenced since it last changed a mapping that the shared walk would follow.
\<close>

definition tlb_trusted :: "golden \<Rightarrow> (u32 \<Rightarrow> bool) \<Rightarrow> cpu \<Rightarrow> bool" where
  "tlb_trusted g ov c \<longleftrightarrow> length (tlb c) = TLB_SIZE \<and>
     (\<forall>va ac pa e. ac \<noteq> Write \<longrightarrow> \<not> untranslated c ac \<longrightarrow> tlb_get (tlb c) (drop_bit 12 va) = Some e \<longrightarrow>
        xlate_golden_readonly c g va ac ov = Inr pa \<longrightarrow>
        leaf_perm_priv_ok ac (effective_priv c ac) (sum_bit c) (mxr_bit c) (tlb_leaf e) \<and> te_ppn e = drop_bit 12 pa)"

lemma same_page_index:
  fixes va va' :: u32
  assumes "drop_bit 12 va' = drop_bit 12 va"
  shows "vpn_index va' lvl = vpn_index va lvl" "drop_bit 12 (leaf_pa va' pte lvl) = drop_bit 12 (leaf_pa va pte lvl)"
proof -
  have "drop_bit 22 va' = drop_bit 22 va"
    using arg_cong [OF assms, of "drop_bit 10"] by (simp add: drop_bit_drop_bit)
  then show "vpn_index va' lvl = vpn_index va lvl" using assms by (simp add: vpn_index_def)
  have low: "drop_bit 12 (x AND 0xfff) = 0" for x :: u32
    by (simp only: and_low_mask) (rule bit_word_eqI, auto simp: bit_simps)
  show "drop_bit 12 (leaf_pa va' pte lvl) = drop_bit 12 (leaf_pa va pte lvl)"
    using assms by (simp add: leaf_pa_def low drop_bit_or)
qed

text \<open>One level of the golden walk.\<close>

definition golden_level ::
  "golden \<Rightarrow> (u32 \<Rightarrow> bool) \<Rightarrow> u32 \<Rightarrow> access \<Rightarrow> priv \<Rightarrow> bool \<Rightarrow> bool \<Rightarrow> nat \<Rightarrow> u32 \<Rightarrow> u32 \<Rightarrow> bool" where
  "golden_level g ov va ac p sm mxr lvl pte pa \<longleftrightarrow> \<not> pte_invalid pte \<and>
     (if pte_is_leaf pte then leaf_perm_priv_ok ac p sm mxr (pte_leaf pte) \<and>
        \<not> (lvl = 1 \<and> drop_bit 10 pte AND 0x3ff \<noteq> 0) \<and> \<not> pte_needs_ad ac pte \<and> pa = leaf_pa va pte lvl
      else golden_walk g ov va ac p sm mxr lvl (pte_next pte) = Inr pa)"

lemma golden_walk_level:
  assumes "golden_walk g ov va ac p sm mxr (Suc lvl) a = Inr pa"
  shows "\<not> ov (a + vpn_index va lvl * 4)"
    "\<exists>pte. golden_read_u32 g (a + vpn_index va lvl * 4) = Some pte \<and> golden_level g ov va ac p sm mxr lvl pte pa"
  using assms
  by (auto simp: Let_def bindE_Inr_conv ok_or_def pte_needs_ad_def golden_level_def split: if_splits option.splits)

definition level_entry :: "u32 \<Rightarrow> access \<Rightarrow> nat \<Rightarrow> u32 \<Rightarrow> tlb_entry" where
  "level_entry va ac lvl pte = \<lparr>te_vpn = drop_bit 12 va, te_ppn = drop_bit 12 (leaf_pa va pte lvl), te_r = lf_r (pte_leaf pte),
     te_w = lf_w (pte_leaf pte), te_x = lf_x (pte_leaf pte), te_u = lf_u (pte_leaf pte),
     te_d_set = (ac = Write \<or> drop_bit 7 pte AND 1 = 1)\<rparr>"

lemma level_entry_leaf [simp]:
  "tlb_leaf (level_entry va ac lvl pte) = pte_leaf pte" "te_vpn (level_entry va ac lvl pte) = drop_bit 12 va"
  "te_ppn (level_entry va ac lvl pte) = drop_bit 12 (leaf_pa va pte lvl)"
  by (simp_all add: level_entry_def tlb_leaf_def)

lemma xlate_walk_level:
  assumes ld: "bus_load B s (a + vpn_index va lvl * 4) 4 = (Inr pte, s)" and lv: "golden_level g ov va ac p sm mxr lvl pte pa"
  shows "xlate_walk B va ac p sm mxr (Suc lvl) a (c, s) =
    (if pte_is_leaf pte then (Inr pa, (c\<lparr>tlb := tlb_insert (level_entry va ac lvl pte) (tlb c)\<rparr>, s))
     else xlate_walk B va ac p sm mxr lvl (pte_next pte) (c, s))"
proof -
  have ld': "bus_ld B f (a + vpn_index va lvl * 4) 4 (c, s) = (Inr pte, (c, s))" for f using ld by (simp add: bus_ld_def)
  have "xlate_leaf B va ac p sm mxr lvl (a + vpn_index va lvl * 4) pte (c, s) =
      (Inr pa, (c\<lparr>tlb := tlb_insert (level_entry va ac lvl pte) (tlb c)\<rparr>, s))" if "pte_is_leaf pte"
    using lv that by (simp add: golden_level_def xlate_leaf_def Let_def level_entry_def)
  moreover have "\<not> pte_invalid pte" using lv by (simp add: golden_level_def)
  ultimately show ?thesis by (simp add: Let_def ld')
qed

text \<open>The entry the walk caches is the one every golden walk of that page agrees with.\<close>

definition page_entry :: "golden \<Rightarrow> (u32 \<Rightarrow> bool) \<Rightarrow> nat \<Rightarrow> u32 \<Rightarrow> u32 \<Rightarrow> tlb_entry \<Rightarrow> bool" where
  "page_entry g ov lvl a va e \<longleftrightarrow> te_vpn e = drop_bit 12 va \<and>
    (\<forall>va' ac p sm mxr pa. drop_bit 12 va' = drop_bit 12 va \<longrightarrow> golden_walk g ov va' ac p sm mxr lvl a = Inr pa \<longrightarrow>
       leaf_perm_priv_ok ac p sm mxr (tlb_leaf e) \<and> te_ppn e = drop_bit 12 pa)"

lemma page_entry_level:
  assumes rd: "golden_read_u32 g (a + vpn_index va lvl * 4) = Some pte"
    and e: "if pte_is_leaf pte then e = level_entry va ac lvl pte else page_entry g ov lvl (pte_next pte) va e"
  shows "page_entry g ov (Suc lvl) a va e"
  unfolding page_entry_def
proof (intro conjI allI impI)
  show "te_vpn e = drop_bit 12 va" using e by (auto simp: page_entry_def split: if_splits)
  fix va' ac' p sm mxr pa
  assume pg: "drop_bit 12 va' = drop_bit 12 va" and w: "golden_walk g ov va' ac' p sm mxr (Suc lvl) a = Inr pa"
  have lv: "golden_level g ov va' ac' p sm mxr lvl pte pa"
    using golden_walk_level(2) [OF w] rd by (simp add: same_page_index(1) [OF pg])
  have "leaf_perm_priv_ok ac' p sm mxr (tlb_leaf e) \<and> te_ppn e = drop_bit 12 pa"
    using lv e pg by (cases "pte_is_leaf pte") (auto simp: golden_level_def page_entry_def same_page_index(2) [OF pg])
  then show "leaf_perm_priv_ok ac' p sm mxr (tlb_leaf e)" "te_ppn e = drop_bit 12 pa" by simp_all
qed

lemma golden_walk_entry:
  assumes "golden_walk g ov va ac p sm mxr lvl a = Inr pa"
    and mem: "\<And>x v. \<not> ov x \<Longrightarrow> golden_read_u32 g x = Some v \<Longrightarrow> bus_load B s x 4 = (Inr v, s)"
  shows "\<exists>e. xlate_walk B va ac p sm mxr lvl a (c, s) = (Inr pa, (c\<lparr>tlb := tlb_insert e (tlb c)\<rparr>, s)) \<and> page_entry g ov lvl a va e"
  using assms(1)
proof (induction lvl arbitrary: a)
  case (Suc lvl)
  obtain pte where rd: "golden_read_u32 g (a + vpn_index va lvl * 4) = Some pte" and lv: "golden_level g ov va ac p sm mxr lvl pte pa"
    using golden_walk_level(2) [OF Suc.prems] by blast
  have w: "xlate_walk B va ac p sm mxr (Suc lvl) a (c, s) =
    (if pte_is_leaf pte then (Inr pa, (c\<lparr>tlb := tlb_insert (level_entry va ac lvl pte) (tlb c)\<rparr>, s))
     else xlate_walk B va ac p sm mxr lvl (pte_next pte) (c, s))"
    by (rule xlate_walk_level [OF mem [OF golden_walk_level(1) [OF Suc.prems] rd] lv])
  obtain e where e: "if pte_is_leaf pte then e = level_entry va ac lvl pte else
      xlate_walk B va ac p sm mxr lvl (pte_next pte) (c, s) = (Inr pa, (c\<lparr>tlb := tlb_insert e (tlb c)\<rparr>, s)) \<and>
      page_entry g ov lvl (pte_next pte) va e"
    using Suc.IH [of "pte_next pte"] lv unfolding golden_level_def by (cases "pte_is_leaf pte") auto
  have "page_entry g ov (Suc lvl) a va e" by (rule page_entry_level [OF rd]) (use e in \<open>auto split: if_splits\<close>)
  then show ?case unfolding w using e by (cases "pte_is_leaf pte") auto
qed simp

lemma golden_readonly_tlb [simp]: "xlate_golden_readonly (c\<lparr>tlb := t\<rparr>) g va ac ov = xlate_golden_readonly c g va ac ov"
  by (simp add: xlate_golden_readonly_def)

lemma golden_low12:
  "golden_walk g ov va ac p sm mxr lvl a = Inr pa \<Longrightarrow> pa AND 0xfff = va AND 0xfff"
proof (induction lvl arbitrary: a)
  case (Suc lvl)
  have "leaf_pa va pte lvl AND 0xfff = va AND 0xfff" for pte
    by (simp only: and_low_mask leaf_pa_def) (auto intro!: bit_word_eqI simp: bit_simps)
  then show ?case using Suc by (auto simp: Let_def bindE_Inr_conv ok_or_def split: if_splits option.splits)
qed simp

text \<open>The lane's own translation of an address the golden walk resolves.\<close>

lemma trusted_xlate:
  assumes tr: "tlb_trusted g ov c" and x: "xlate_golden_readonly c g va ac ov = Inr pa" and ac: "ac \<noteq> Write"
    and mem: "\<And>x v. \<not> ov x \<Longrightarrow> golden_read_u32 g x = Some v \<Longrightarrow> bus_load B s x 4 = (Inr v, s)"
  shows "\<exists>t. xlate B va ac (c, s) = (Inr pa, (c\<lparr>tlb := t\<rparr>, s)) \<and> tlb_trusted g ov (c\<lparr>tlb := t\<rparr>)"
proof (cases "untranslated c ac")
  case True
  then show ?thesis using x tr by (auto simp: xlate_golden_readonly_def xlate_def intro!: exI [of _ "tlb c"])
next
  case un: False
  then have w: "golden_walk g ov va ac (effective_priv c ac) (sum_bit c) (mxr_bit c) 2 (satp_root c) = Inr pa"
    using x by (simp add: xlate_golden_readonly_def)
  show ?thesis
  proof (cases "tlb_get (tlb c) (drop_bit 12 va)")
    case (Some e)
    then have "leaf_perm_priv_ok ac (effective_priv c ac) (sum_bit c) (mxr_bit c) (tlb_leaf e)" "te_ppn e = drop_bit 12 pa"
      using tr x ac un unfolding tlb_trusted_def by blast+
    then have "xlate B va ac (c, s) = (Inr pa, (c, s))"
      using un Some ac page_join [OF golden_low12 [OF w]] by (simp add: xlate_def Let_def)
    then show ?thesis using tr by (intro exI [of _ "tlb c"]) simp
  next
    case None
    obtain e where e: "xlate_walk B va ac (effective_priv c ac) (sum_bit c) (mxr_bit c) 2 (satp_root c) (c, s) =
        (Inr pa, (c\<lparr>tlb := tlb_insert e (tlb c)\<rparr>, s))" and pe: "page_entry g ov 2 (satp_root c) va e"
      using golden_walk_entry [OF w mem, of c] by blast
    have vpn: "te_vpn e = drop_bit 12 va" using pe by (simp add: page_entry_def)
    have len: "length (tlb c) = TLB_SIZE" using tr by (simp add: tlb_trusted_def)
    have "tlb_trusted g ov (c\<lparr>tlb := tlb_insert e (tlb c)\<rparr>)"
      unfolding tlb_trusted_def
    proof (intro conjI allI impI)
      show "length (tlb (c\<lparr>tlb := tlb_insert e (tlb c)\<rparr>)) = TLB_SIZE" using len by (simp add: tlb_insert_def)
      fix va' ac' pa' e'
      assume a: "ac' \<noteq> Write" "\<not> untranslated (c\<lparr>tlb := tlb_insert e (tlb c)\<rparr>) ac'"
        "tlb_get (tlb (c\<lparr>tlb := tlb_insert e (tlb c)\<rparr>)) (drop_bit 12 va') = Some e'"
        "xlate_golden_readonly (c\<lparr>tlb := tlb_insert e (tlb c)\<rparr>) g va' ac' ov = Inr pa'"
      have old: "leaf_perm_priv_ok ac' (effective_priv c ac') (sum_bit c) (mxr_bit c) (tlb_leaf e') \<and> te_ppn e' = drop_bit 12 pa'"
      proof (cases "drop_bit 12 va' = drop_bit 12 va")
        case True
        then have "e' = e" using a(3) vpn by (simp add: tlb_get_insert [OF len])
        then show ?thesis using pe True a(2,4) by (simp add: xlate_golden_readonly_def page_entry_def)
      next
        case False
        then have "tlb_get (tlb c) (drop_bit 12 va') = Some e'"
          using a(3) vpn by (simp add: tlb_get_insert [OF len] split: if_splits)
        then show ?thesis using tr a(1,2,4) unfolding tlb_trusted_def by simp
      qed
      then show "leaf_perm_priv_ok ac' (effective_priv (c\<lparr>tlb := tlb_insert e (tlb c)\<rparr>) ac') (sum_bit (c\<lparr>tlb := tlb_insert e (tlb c)\<rparr>))
          (mxr_bit (c\<lparr>tlb := tlb_insert e (tlb c)\<rparr>)) (tlb_leaf e')" "te_ppn e' = drop_bit 12 pa'"
        by simp_all
    qed
    moreover have "xlate B va ac (c, s) = (Inr pa, (c\<lparr>tlb := tlb_insert e (tlb c)\<rparr>, s))"
      using un None e by (simp add: xlate_def Let_def)
    ultimately show ?thesis by blast
  qed
qed

end
