(* ===== verification/Sys_Step.thy ===== *)
theory Sys_Step
  imports Sys_Translation
begin

text \<open>
  \<open>VecSystem::step\<close> against the lanes: the packed ALU and the shared load leave in each active lane what
  \<open>step_system\<close> leaves there, a declined step changes nothing the scalar loop does not recompute.
\<close>

section \<open>One lane on the shared path\<close>

definition plain_lane :: "cpu \<Rightarrow> bool" where
  "plain_lane c \<longleftrightarrow> \<not> kmsan_enabled c \<and> cmplog c = None"

definition mode_bits :: "cpu \<Rightarrow> u32 \<times> u32 \<times> bool \<times> bool" where
  "mode_bits c = (mstatus (csr c) AND MSTATUS_MPRV, mstatus (csr c) AND MSTATUS_MPP, sum_bit c, mxr_bit c)"

lemma same_translation:
  assumes "privilege c = privilege d" "satp (csr c) = satp (csr d)" "mode_bits c = mode_bits d"
  shows "xlate_golden_readonly c g va ac ov = xlate_golden_readonly d g va ac ov"
  using assms by (simp add: xlate_golden_readonly_def untranslated_def effective_priv_def mode_bits_def satp_root_def)

lemma shared_lane_fetch:
  assumes w: "window_ok g m" "m \<in> set bs" and tr: "tlb_trusted g (any_lane_overlaid g (map m_ram bs)) c"
    and x: "xlate_golden_readonly c g va Exec (any_lane_overlaid g (map m_ram bs)) = Inr pa"
    and f: "\<not> any_lane_overlaid g (map m_ram bs) pa" "golden_fetch_u16 g pa = Some hw"
  shows "\<exists>t. fetch16 cow_machine_bus va (c, m) = (Inr hw, (c\<lparr>tlb := t\<rparr>, m)) \<and>
    tlb_trusted g (any_lane_overlaid g (map m_ram bs)) (c\<lparr>tlb := t\<rparr>)"
proof -
  obtain t where t: "xlate cow_machine_bus va Exec (c, m) = (Inr pa, (c\<lparr>tlb := t\<rparr>, m))"
      "tlb_trusted g (any_lane_overlaid g (map m_ram bs)) (c\<lparr>tlb := t\<rparr>)"
    using trusted_xlate [OF tr x _ shared_bus(3) [OF w]] by blast
  then show ?thesis using shared_bus(1) [OF w f] by (auto simp: fetch16_def bus_if_def)
qed

lemma shared_fetch_Some:
  "shared_fetch16 s first va = Some hw \<longleftrightarrow>
    (\<exists>pa. xlate_golden_readonly (vs_lanes s ! first) (vs_golden s) va Exec (vs_overlaid s) = Inr pa \<and>
       \<not> vs_overlaid s pa \<and> golden_fetch_u16 (vs_golden s) pa = Some hw)"
  by (auto simp: shared_fetch16_def split: sum.splits)

lemma shared_fetch_lane:
  assumes w: "window_ok (vs_golden s) m" "m \<in> set (vs_bus s)" and tr: "tlb_trusted (vs_golden s) (vs_overlaid s) c"
    and eq: "\<And>va ac. xlate_golden_readonly c (vs_golden s) va ac (vs_overlaid s) =
      xlate_golden_readonly (vs_lanes s ! first) (vs_golden s) va ac (vs_overlaid s)"
    and f: "shared_fetch16 s first va = Some hw"
  shows "\<exists>t. fetch16 cow_machine_bus va (c, m) = (Inr hw, (c\<lparr>tlb := t\<rparr>, m)) \<and> tlb_trusted (vs_golden s) (vs_overlaid s) (c\<lparr>tlb := t\<rparr>)"
  using f shared_lane_fetch [OF w tr [unfolded vs_overlaid_def]] unfolding shared_fetch_Some eq [symmetric] unfolding vs_overlaid_def by blast

lemma shared_decode_lane:
  assumes w: "window_ok (vs_golden s) m" "m \<in> set (vs_bus s)" and tr: "tlb_trusted (vs_golden s) (vs_overlaid s) c"
    and eq: "\<And>va ac. xlate_golden_readonly c (vs_golden s) va ac (vs_overlaid s) =
      xlate_golden_readonly (vs_lanes s ! first) (vs_golden s) va ac (vs_overlaid s)"
    and d: "shared_decode s first (pc c) = Some (i, ilen)"
  shows "\<exists>t w. step cow_machine_bus (c, m) = exec_one cow_machine_bus i (pc c) ilen w (c\<lparr>tlb := t\<rparr>, m) \<and>
    tlb_trusted (vs_golden s) (vs_overlaid s) (c\<lparr>tlb := t\<rparr>)"
proof -
  obtain lo where lo: "shared_fetch16 s first (pc c) = Some lo" using d by (auto simp: shared_decode_def split: option.splits)
  obtain t where t: "fetch16 cow_machine_bus (pc c) (c, m) = (Inr lo, (c\<lparr>tlb := t\<rparr>, m))"
      "tlb_trusted (vs_golden s) (vs_overlaid s) (c\<lparr>tlb := t\<rparr>)"
    using shared_fetch_lane [OF w tr eq lo] by blast
  show ?thesis
  proof (cases "lo AND 0x3 \<noteq> 0x3")
    case True
    then have "i = decode_compressed lo" "ilen = 2" using d lo by (simp_all add: shared_decode_def)
    then show ?thesis using t True by (auto simp: step_def)
  next
    case False
    then obtain hi where hi: "shared_fetch16 s first (pc c + 2) = Some hi"
      and i: "i = decode (ucast lo OR push_bit 16 (ucast hi))" "ilen = 4"
      using d lo by (auto simp: shared_decode_def split: option.splits)
    obtain t' where t': "fetch16 cow_machine_bus (pc c + 2) (c\<lparr>tlb := t\<rparr>, m) = (Inr hi, (c\<lparr>tlb := t'\<rparr>, m))"
      "tlb_trusted (vs_golden s) (vs_overlaid s) (c\<lparr>tlb := t'\<rparr>)"
      using shared_fetch_lane [OF w t(2) _ hi] eq by auto
    have "step cow_machine_bus (c, m) =
      exec_one cow_machine_bus i (pc c) ilen (ucast lo OR push_bit 16 (ucast hi)) (c\<lparr>tlb := t'\<rparr>, m)"
      using t(1) t'(1) False i by (simp add: step_def Let_def)
    then show ?thesis using t'(2) by blast
  qed
qed

lemma exec_alu_plain:
  assumes "plain_lane c"
  shows "exec_one B (OpImm op rd rs1 imm) (pc c) ilen w (c, m) = (Inr EContinue, (retire_lane rd (alu op (rd_reg c rs1) imm) ilen c, m))"
    "exec_one B (Op op rd rs1 rs2) (pc c) ilen w (c, m) = (Inr EContinue, (retire_lane rd (alu op (rd_reg c rs1) (rd_reg c rs2)) ilen c, m))"
  using assms by (auto simp: plain_lane_def exec_one_def exec_op_imm_def exec_op_def retire_lane_def wr_reg_def cmplog_push_def Let_def)

lemma load_sizes: "fst (load_shape op) \<in> {1, 2, 4}"
  by (cases op) simp_all

lemma aligned_single:
  fixes va :: u32
  assumes "sz \<in> {1, 2, 4 :: nat}" "va mod of_nat sz = 0"
  shows "\<not> misaligned va sz" "\<not> crosses_page va sz"
proof -
  have "unat va mod sz = 0"
    using assms(1)
  proof (elim insertE emptyE)
    assume n: "sz = 2"
    show ?thesis using assms(2) unat_mod_distrib [of va 2] by (simp only: n of_nat_numeral word_unat_eq_iff) simp
  next
    assume n: "sz = 4"
    show ?thesis using assms(2) unat_mod_distrib [of va 4] by (simp only: n of_nat_numeral word_unat_eq_iff) simp
  qed simp
  then show "\<not> misaligned va sz" "\<not> crosses_page va sz" by (simp_all only: natural_direct [OF _ assms(1)] simp_thms)
qed

lemma exec_load_shared:
  assumes w: "window_ok g m" "m \<in> set bs" and tr: "tlb_trusted g (any_lane_overlaid g (map m_ram bs)) c"
    and x: "xlate_golden_readonly c g (rd_reg c rs1 + imm) Read (any_lane_overlaid g (map m_ram bs)) = Inr pa"
    and al: "(rd_reg c rs1 + imm) mod of_nat (fst (load_shape op)) = 0"
    and f: "\<not> any_lane_overlaid g (map m_ram bs) pa" "golden_read_sized g pa (fst (load_shape op)) = Some raw"
    and plain: "plain_lane c"
  shows "\<exists>t. exec_one cow_machine_bus (Load op rd rs1 imm) (pc c) ilen iw (c, m) =
    (Inr EContinue, (retire_lane rd (sign_extend (fst (load_shape op)) (snd (load_shape op)) raw) ilen (c\<lparr>tlb := t\<rparr>), m))"
proof -
  obtain t where t: "xlate cow_machine_bus (rd_reg c rs1 + imm) Read (c, m) = (Inr pa, (c\<lparr>tlb := t\<rparr>, m))"
    using trusted_xlate [OF tr x _ shared_bus(3) [OF w]] by blast
  have "load_impl cow_machine_bus (rd_reg c rs1 + imm) (fst (load_shape op)) (snd (load_shape op)) (c, m) =
      (Inr (sign_extend (fst (load_shape op)) (snd (load_shape op)) raw), (c\<lparr>tlb := t\<rparr>, m))"
    using t shared_bus(2) [OF w f load_sizes] aligned_single [OF load_sizes al] by (simp add: load_impl_def bus_ld_def)
  then show ?thesis
    using plain by (auto simp: exec_one_def exec_load_def retire_lane_def wr_reg_def plain_lane_def kmsan_enabled_def Let_def)
qed

section \<open>What the clock leaves alone\<close>

definition clock_eq :: "cpu \<Rightarrow> cpu \<Rightarrow> bool" where
  "clock_eq c c' \<longleftrightarrow> (\<exists>mp mt. c' = c\<lparr>csr := (csr c)\<lparr>mip := mp, mtimecmp := mt\<rparr>\<rparr>)"

lemma clock_eq_refl [simp]: "clock_eq c c"
  unfolding clock_eq_def by (intro exI [of _ "mip (csr c)"] exI [of _ "mtimecmp (csr c)"]) simp

lemma clock_eq_ops [simp]: "clock_eq c (update_timers c)" "clock_eq c (apply_clint c cl)"
proof -
  show "clock_eq c (update_timers c)"
    unfolding clock_eq_def update_timers_def Let_def by (intro exI [of _ "mtimecmp (csr c)"] exI) simp
  show "clock_eq c (apply_clint c cl)"
    unfolding clock_eq_def by (intro exI [of _ "mip (csr (apply_clint c cl))"] exI [of _ "cl_mtimecmp cl"]) (simp add: apply_clint_def set_clint_def)
qed

lemma clock_eq_keeps:
  assumes "clock_eq c c'"
  shows "plain_lane c' = plain_lane c" "mode_bits c' = mode_bits c" "tlb_trusted g ov c' = tlb_trusted g ov c" "pc c' = pc c"
    "privilege c' = privilege c" "satp (csr c') = satp (csr c)" "regs c' = regs c"
proof -
  obtain mp mt where c': "c' = c\<lparr>csr := (csr c)\<lparr>mip := mp, mtimecmp := mt\<rparr>\<rparr>" using assms by (auto simp: clock_eq_def)
  have t: "untranslated c' ac = untranslated c ac" "effective_priv c' ac = effective_priv c ac" "sum_bit c' = sum_bit c"
    "mxr_bit c' = mxr_bit c" "satp_root c' = satp_root c" "tlb c' = tlb c" for ac
    by (simp_all add: c' untranslated_def effective_priv_def sum_bit_def mxr_bit_def satp_root_def)
  show "tlb_trusted g ov c' = tlb_trusted g ov c" by (simp only: tlb_trusted_def xlate_golden_readonly_def t)
  show "plain_lane c' = plain_lane c" "mode_bits c' = mode_bits c" "pc c' = pc c" "privilege c' = privilege c"
    "satp (csr c') = satp (csr c)" "regs c' = regs c"
    by (simp_all add: mode_bits_def t) (simp_all add: c' plain_lane_def kmsan_enabled_def)
qed

section \<open>Batches the shared path may serve\<close>

definition batch_ok :: "vec_system \<Rightarrow> bool" where
  "batch_ok s \<longleftrightarrow> sys_wf s \<and> (\<forall>l < LANES. window_ok (vs_golden s) (vs_bus s ! l)) \<and>
     (\<forall>l < LANES. vs_active s ! l \<longrightarrow> plain_lane (vs_lanes s ! l) \<and> tlb_trusted (vs_golden s) (vs_overlaid s) (vs_lanes s ! l)) \<and>
     (\<forall>l < LANES. \<forall>k < LANES. vs_active s ! l \<longrightarrow> vs_active s ! k \<longrightarrow> mode_bits (vs_lanes s ! l) = mode_bits (vs_lanes s ! k))"

lemma batch_okD:
  assumes "batch_ok s"
  shows "sys_wf s" "l < LANES \<Longrightarrow> window_ok (vs_golden s) (vs_bus s ! l)"
    "l < LANES \<Longrightarrow> vs_active s ! l \<Longrightarrow> plain_lane (vs_lanes s ! l)"
    "l < LANES \<Longrightarrow> vs_active s ! l \<Longrightarrow> tlb_trusted (vs_golden s) (vs_overlaid s) (vs_lanes s ! l)"
    "l < LANES \<Longrightarrow> k < LANES \<Longrightarrow> vs_active s ! l \<Longrightarrow> vs_active s ! k \<Longrightarrow> mode_bits (vs_lanes s ! l) = mode_bits (vs_lanes s ! k)"
  using assms unfolding batch_ok_def by blast+

definition clocked :: "sys_lane_state \<Rightarrow> sys_lane_state \<Rightarrow> bool" where
  "clocked x y \<longleftrightarrow> clock_eq (fst x) (fst y) \<and> (\<exists>cl. fst (snd y) = (fst (snd x))\<lparr>m_clint := cl\<rparr>) \<and> snd (snd y) = snd (snd x)"

lemma clocked_simps: "clocked (sys_lane s l) (sys_lane s' l) \<longleftrightarrow> clock_eq (vs_lanes s ! l) (vs_lanes s' ! l) \<and>
   (\<exists>cl. vs_bus s' ! l = (vs_bus s ! l)\<lparr>m_clint := cl\<rparr>) \<and> vs_active s' ! l = vs_active s ! l \<and> vs_exit s' ! l = vs_exit s ! l \<and>
   vs_cov s' ! l = vs_cov s ! l"
  by (auto simp: clocked_def sys_lane_def)

lemma batch_ok_clocked:
  assumes ok: "batch_ok s" and wf: "sys_wf s'" and g: "vs_golden s' = vs_golden s"
    and cl: "\<And>l. l < LANES \<Longrightarrow> clocked (sys_lane s l) (sys_lane s' l)"
  shows "batch_ok s'"
proof -
  have ram: "m_ram (vs_bus s' ! l) = m_ram (vs_bus s ! l)" "window_ok h (vs_bus s' ! l) = window_ok h (vs_bus s ! l)" if "l < LANES" for l h
    using cl [OF that] by (auto simp: clocked_simps window_ok_def)
  have len: "length (vs_bus s') = LANES" "length (vs_bus s) = LANES" using wf ok by (simp_all add: batch_ok_def sys_wf_def)
  have "map m_ram (vs_bus s') = map m_ram (vs_bus s)"
    by (rule nth_equalityI) (simp_all add: len ram(1))
  then have ov: "vs_overlaid s' = vs_overlaid s" by (simp only: vs_overlaid_def g)
  have ce: "clock_eq (vs_lanes s ! l) (vs_lanes s' ! l)" and ac: "vs_active s' ! l = vs_active s ! l" if "l < LANES" for l
    using cl [OF that] by (simp_all add: clocked_simps)
  note k = clock_eq_keeps [OF ce] ac
  have w: "window_ok (vs_golden s') (vs_bus s' ! l)" if "l < LANES" for l
    using ok that by (simp add: batch_ok_def ram(2) [OF that] g)
  have p: "plain_lane (vs_lanes s' ! l)" "tlb_trusted (vs_golden s') (vs_overlaid s') (vs_lanes s' ! l)"
    if "l < LANES" "vs_active s' ! l" for l
    using ok that by (simp_all add: batch_ok_def k(1,3) [OF that(1)] ac [OF that(1)] g ov)
  have mb: "mode_bits (vs_lanes s' ! l) = mode_bits (vs_lanes s' ! j)"
    if "l < LANES" "j < LANES" "vs_active s' ! l" "vs_active s' ! j" for l j
    using ok that(3,4) unfolding batch_ok_def k(2) [OF that(1)] k(2) [OF that(2)] ac [OF that(1)] ac [OF that(2)]
    using that(1,2) by blast
  show ?thesis unfolding batch_ok_def using wf w p mb by blast
qed

lemma synced_clocked: "clocked x (synced x)"
proof (cases x)
  case (fields c m a r)
  then show ?thesis
    by (cases a) (auto simp: clocked_def synced_def Let_def intro: exI [of _ "m_clint m"])
qed

lemma synced_lanes:
  assumes "sys_wf s"
  shows "sys_wf (for_lanes sync_lane s)" "vs_golden (for_lanes sync_lane s) = vs_golden s"
    "\<And>l. l < LANES \<Longrightarrow> sys_lane (for_lanes sync_lane s) l = synced (sys_lane s l)"
  using for_lanes_local [of "\<lambda>_. synced" sync_lane s, OF sync_lane_local assms] by auto

lemma refreshed_lanes:
  assumes wf: "sys_wf s" and r: "refresh_timers [0 ..< LANES] (vs_active s) s = (b, s')"
  shows "sys_wf s'" "vs_golden s' = vs_golden s" "vs_bus s' = vs_bus s"
    "\<And>k. k < LANES \<Longrightarrow> sys_lane s' k = sys_lane s k \<or> vs_active s ! k \<and> sys_lane s' k = on_cpu update_timers (sys_lane s k)"
    "\<And>k. k < LANES \<Longrightarrow> b \<Longrightarrow> vs_active s ! k \<Longrightarrow>
       sys_lane s' k = on_cpu update_timers (sys_lane s k) \<and> pending_interrupt (vs_lanes s' ! k) = None"
  using refresh_timers_lanes [OF wf _ _ r] by auto

lemma on_cpu_clocked: "clocked x (on_cpu update_timers x)"
  by (cases x) (auto simp: clocked_def on_cpu_def intro!: exI [of _ "m_clint (fst (snd x))"])

lemma clocked_refl [simp]: "clocked x x"
  by (cases x) (auto simp: clocked_def intro!: exI [of _ "m_clint (fst (snd x))"])

section \<open>The fast path\<close>

lemma counters_lane [simp]:
  "sys_lane (s\<lparr>vs_shared_fetch_steps := x\<rparr>) k = sys_lane s k" "sys_wf (s\<lparr>vs_shared_fetch_steps := x\<rparr>) = sys_wf s"
  "sys_lane (s\<lparr>vs_simd_steps := x\<rparr>) k = sys_lane s k" "sys_wf (s\<lparr>vs_simd_steps := x\<rparr>) = sys_wf s"
  "sys_lane (s\<lparr>vs_scalar_steps := x\<rparr>) k = sys_lane s k" "sys_wf (s\<lparr>vs_scalar_steps := x\<rparr>) = sys_wf s"
  "vs_overlaid (s\<lparr>vs_shared_fetch_steps := x\<rparr>) = vs_overlaid s"
  by (simp_all add: sys_lane_def sys_wf_def vs_overlaid_def)

lemma retire_lanes:
  assumes "sys_wf s"
  shows "sys_wf (for_lanes (\<lambda>l s. if active ! l then s\<lparr>vs_lanes := (vs_lanes s)[l := F l (vs_lanes s ! l)]\<rparr> else s) s)"
    "l < LANES \<Longrightarrow> sys_lane (for_lanes (\<lambda>l s. if active ! l then s\<lparr>vs_lanes := (vs_lanes s)[l := F l (vs_lanes s ! l)]\<rparr> else s) s) l =
      (if active ! l then on_cpu (F l) (sys_lane s l) else sys_lane s l)"
proof -
  have "lane_local (\<lambda>x. if active ! l then on_cpu (F l) x else x) l s
      (if active ! l then s\<lparr>vs_lanes := (vs_lanes s)[l := F l (vs_lanes s ! l)]\<rparr> else s)"
    if "l < LANES" "sys_wf s" for l s
    using that by (intro lane_local_if set_lane_local) auto
  from for_lanes_local [of "\<lambda>l x. if active ! l then on_cpu (F l) x else x"
    "\<lambda>l s. if active ! l then s\<lparr>vs_lanes := (vs_lanes s)[l := F l (vs_lanes s ! l)]\<rparr> else s", OF this assms]
  show "sys_wf (for_lanes (\<lambda>l s. if active ! l then s\<lparr>vs_lanes := (vs_lanes s)[l := F l (vs_lanes s ! l)]\<rparr> else s) s)"
    "l < LANES \<Longrightarrow> sys_lane (for_lanes (\<lambda>l s. if active ! l then s\<lparr>vs_lanes := (vs_lanes s)[l := F l (vs_lanes s ! l)]\<rparr> else s) s) l =
      (if active ! l then on_cpu (F l) (sys_lane s l) else sys_lane s l)" by auto
qed

lemma retire_tlb [simp]: "retire_lane rd v ilen (c\<lparr>tlb := t\<rparr>) = (retire_lane rd v ilen c)\<lparr>tlb := t\<rparr>"
  by (simp add: retire_lane_def Let_def)

lemma rd_reg_tlb [simp]: "rd_reg (c\<lparr>tlb := t\<rparr>) i = rd_reg c i"
  by (simp add: rd_reg_def)

lemma plain_tlb [simp]: "plain_lane (c\<lparr>tlb := t\<rparr>) = plain_lane c"
  by (simp add: plain_lane_def kmsan_enabled_def)

text \<open>What a payload of the fast path leaves in a lane is what the instruction leaves there.\<close>

definition payload_ok :: "inst \<Rightarrow> u32 \<Rightarrow> vec_system \<Rightarrow> vec_system \<Rightarrow> bool" where
  "payload_ok i ilen s s' \<longleftrightarrow> sys_wf s' \<and> (\<forall>l < LANES.
     if vs_active s ! l then
       \<forall>t w. tlb_trusted (vs_golden s) (vs_overlaid s) ((vs_lanes s ! l)\<lparr>tlb := t\<rparr>) \<longrightarrow>
         (\<exists>c' t'. sys_lane s' l = (c', snd (sys_lane s l)) \<and>
            exec_one cow_machine_bus i (pc (vs_lanes s ! l)) ilen w ((vs_lanes s ! l)\<lparr>tlb := t\<rparr>, vs_bus s ! l) =
              (Inr EContinue, (c'\<lparr>tlb := t'\<rparr>, vs_bus s ! l)))
     else sys_lane s' l = sys_lane s l)"

lemma dispatch_payload:
  assumes ok: "batch_ok s"
  shows "payload_ok (OpImm op rd rs1 imm) ilen s
      (dispatch_simd_alu (vs_active s) \<lparr>ad_op = op, ad_rd = rd, ad_rs1 = rs1, ad_rs2 = None, ad_imm = imm\<rparr> ilen s)"
    "payload_ok (Op op rd rs1 rs2) ilen s
      (dispatch_simd_alu (vs_active s) \<lparr>ad_op = op, ad_rd = rd, ad_rs1 = rs1, ad_rs2 = Some rs2, ad_imm = 0\<rparr> ilen s)"
proof -
  have wf: "sys_wf s" by (rule batch_okD(1) [OF ok])
  have plain: "plain_lane ((vs_lanes s ! l)\<lparr>tlb := t\<rparr>)" if "l < LANES" "vs_active s ! l" for l t
    using batch_okD(3) [OF ok that] by simp
  have lane: "sys_lane (dispatch_simd_alu (vs_active s) d ilen s) l =
      (if vs_active s ! l then on_cpu (retire_lane (ad_rd d) (alu (ad_op d) (rd_reg (vs_lanes s ! l) (ad_rs1 d))
         (case ad_rs2 d of Some rs2 \<Rightarrow> rd_reg (vs_lanes s ! l) rs2 | None \<Rightarrow> ad_imm d)) ilen) (sys_lane s l) else sys_lane s l)"
    if "l < LANES" for l d
  proof -
    let ?R = "simd_alu (ad_op d) (lanewise (\<lambda>l. if vs_active s ! l then rd_reg (vs_lanes s ! l) (ad_rs1 d) else 0))
      (lanewise (\<lambda>l. if vs_active s ! l then (case ad_rs2 d of Some rs2 \<Rightarrow> rd_reg (vs_lanes s ! l) rs2 | None \<Rightarrow> ad_imm d) else 0))"
    have "?R ! l = alu (ad_op d) (rd_reg (vs_lanes s ! l) (ad_rs1 d))
      (case ad_rs2 d of Some rs2 \<Rightarrow> rd_reg (vs_lanes s ! l) rs2 | None \<Rightarrow> ad_imm d)" if "vs_active s ! l"
      using that \<open>l < LANES\<close> by (simp add: nth_simd_alu)
    then show ?thesis
      unfolding dispatch_simd_alu_def Let_def vs_copies(1)
        retire_lanes(2) [OF wf that, of "vs_active s" "\<lambda>l. retire_lane (ad_rd d) (?R ! l) ilen"]
      by (cases "vs_active s ! l") (simp_all only: if_True if_False)
  qed
  have wf': "sys_wf (dispatch_simd_alu (vs_active s) d ilen s)" for d
    using retire_lanes(1) [OF wf, of "vs_active s"] by (simp add: dispatch_simd_alu_def Let_def)
  show "payload_ok (OpImm op rd rs1 imm) ilen s
      (dispatch_simd_alu (vs_active s) \<lparr>ad_op = op, ad_rd = rd, ad_rs1 = rs1, ad_rs2 = None, ad_imm = imm\<rparr> ilen s)"
    by (auto simp: payload_ok_def wf' lane exec_alu_plain(1) [OF plain, simplified] intro: exI)
  show "payload_ok (Op op rd rs1 rs2) ilen s
      (dispatch_simd_alu (vs_active s) \<lparr>ad_op = op, ad_rd = rd, ad_rs1 = rs1, ad_rs2 = Some rs2, ad_imm = 0\<rparr> ilen s)"
    by (auto simp: payload_ok_def wf' lane exec_alu_plain(2) [OF plain, simplified] intro: exI)
qed

lemma shared_load_parts:
  assumes "try_shared_load active op rd rs1 imm ilen s = (True, s')"
  obtains first pa raw where "first_active active = Some first"
    "\<forall>l < LANES. active ! l \<longrightarrow> rd_reg (vs_lanes s ! first) rs1 + imm = rd_reg (vs_lanes s ! l) rs1 + imm"
    "(rd_reg (vs_lanes s ! first) rs1 + imm) mod of_nat (fst (load_shape op)) = 0"
    "xlate_golden_readonly (vs_lanes s ! first) (vs_golden s) (rd_reg (vs_lanes s ! first) rs1 + imm) Read (vs_overlaid s) = Inr pa"
    "\<not> vs_overlaid s pa" "golden_read_sized (vs_golden s) pa (fst (load_shape op)) = Some raw"
    "s' = for_lanes (\<lambda>l s. if active ! l
       then s\<lparr>vs_lanes := (vs_lanes s)[l := retire_lane rd (extend_raw (fst (load_shape op)) (snd (load_shape op)) raw) ilen (vs_lanes s ! l)]\<rparr> else s) s"
proof -
  obtain first where f: "first_active active = Some first"
    using assms by (cases "first_active active") (simp_all add: try_shared_load_def)
  note u = assms [unfolded try_shared_load_def f option.case Let_def vs_copies(1)]
  have same: "\<not> any_lane (\<lambda>l. active ! l \<and> rd_reg (vs_lanes s ! l) rs1 + imm \<noteq> rd_reg (vs_lanes s ! first) rs1 + imm)"
    using u by (rule contrapos_pn) simp
  note u = u [unfolded if_not_P [OF same]]
  have al: "(rd_reg (vs_lanes s ! first) rs1 + imm) mod of_nat (fst (load_shape op)) = 0"
    using u by (simp only: prod.inject simp_thms split: if_splits)
  have "\<not> (rd_reg (vs_lanes s ! first) rs1 + imm) mod of_nat (fst (load_shape op)) \<noteq> 0" using al by simp
  note u = u [unfolded if_not_P [OF this]]
  obtain pa where pa: "xlate_golden_readonly (vs_lanes s ! first) (vs_golden s) (rd_reg (vs_lanes s ! first) rs1 + imm) Read (vs_overlaid s) = Inr pa"
    using u by (simp only: prod.inject simp_thms split: sum.splits)
  note u = u [unfolded pa sum.case]
  have ov: "\<not> vs_overlaid s pa" using u by (simp only: prod.inject simp_thms split: if_splits)
  note u = u [unfolded if_not_P [OF ov]]
  obtain raw where raw: "golden_read_sized (vs_golden s) pa (fst (load_shape op)) = Some raw"
    using u by (simp only: prod.inject simp_thms split: option.splits)
  note u = u [unfolded raw option.case]
  have eq: "\<forall>l < LANES. active ! l \<longrightarrow> rd_reg (vs_lanes s ! first) rs1 + imm = rd_reg (vs_lanes s ! l) rs1 + imm"
    using same by (auto simp: any_lane_def list_ex_iff)
  show thesis by (rule that [OF f eq al pa ov raw u [unfolded prod.inject, THEN conjunct2, symmetric]])
qed

lemma shared_load_payload:
  assumes ok: "batch_ok s" and ld: "try_shared_load (vs_active s) op rd rs1 imm ilen s = (True, s')"
    and pr: "\<And>k l. k < LANES \<Longrightarrow> l < LANES \<Longrightarrow> vs_active s ! k \<Longrightarrow> vs_active s ! l \<Longrightarrow>
      privilege (vs_lanes s ! k) = privilege (vs_lanes s ! l) \<and> satp (csr (vs_lanes s ! k)) = satp (csr (vs_lanes s ! l))"
  shows "payload_ok (Load op rd rs1 imm) ilen s s'"
proof -
  have wf: "sys_wf s" by (rule batch_okD(1) [OF ok])
  obtain first pa raw where f: "first_active (vs_active s) = Some first"
    and same: "\<forall>l < LANES. vs_active s ! l \<longrightarrow> rd_reg (vs_lanes s ! first) rs1 + imm = rd_reg (vs_lanes s ! l) rs1 + imm"
    and al: "(rd_reg (vs_lanes s ! first) rs1 + imm) mod of_nat (fst (load_shape op)) = 0"
    and x: "xlate_golden_readonly (vs_lanes s ! first) (vs_golden s) (rd_reg (vs_lanes s ! first) rs1 + imm) Read (vs_overlaid s) = Inr pa"
    and g: "\<not> vs_overlaid s pa" "golden_read_sized (vs_golden s) pa (fst (load_shape op)) = Some raw"
    and s': "s' = for_lanes (\<lambda>l sa. if vs_active s ! l then sa\<lparr>vs_lanes := (vs_lanes sa)[l :=
           retire_lane rd (extend_raw (fst (load_shape op)) (snd (load_shape op)) raw) ilen (vs_lanes sa ! l)]\<rparr> else sa) s"
    using shared_load_parts [OF ld] .
  let ?v = "sign_extend (fst (load_shape op)) (snd (load_shape op)) raw"
  note lane = retire_lanes [OF wf, where active = "vs_active s" and F = "\<lambda>_. retire_lane rd (extend_raw (fst (load_shape op)) (snd (load_shape op)) raw) ilen",
    folded s', unfolded copies]
  have ex: "\<exists>t'. exec_one cow_machine_bus (Load op rd rs1 imm) (pc (vs_lanes s ! l)) ilen w ((vs_lanes s ! l)\<lparr>tlb := t\<rparr>, vs_bus s ! l) =
      (Inr EContinue, ((retire_lane rd ?v ilen (vs_lanes s ! l))\<lparr>tlb := t'\<rparr>, vs_bus s ! l))"
    if l: "l < LANES" "vs_active s ! l" and t: "tlb_trusted (vs_golden s) (vs_overlaid s) ((vs_lanes s ! l)\<lparr>tlb := t\<rparr>)" for l t w
  proof -
    have fl: "first < LANES" "vs_active s ! first" using first_active_Some [OF f] by auto
    have "mode_bits (vs_lanes s ! l) = mode_bits (vs_lanes s ! first)" using batch_okD(5) [OF ok l(1) fl(1) l(2) fl(2)] .
    then have xl: "xlate_golden_readonly (vs_lanes s ! l) (vs_golden s) (rd_reg (vs_lanes s ! l) rs1 + imm) Read (vs_overlaid s) = Inr pa"
      using same_translation [of "vs_lanes s ! l" "vs_lanes s ! first"] pr [OF l(1) fl(1) l(2) fl(2)] x
      by (simp only: same [rule_format, OF l])
    have m: "window_ok (vs_golden s) (vs_bus s ! l)" "vs_bus s ! l \<in> set (vs_bus s)" "plain_lane (vs_lanes s ! l)"
      using batch_okD(2,3) [OF ok l(1)] l wf by (simp_all add: sys_wf_def)
    let ?c = "(vs_lanes s ! l)\<lparr>tlb := t\<rparr>"
    have "xlate_golden_readonly ?c (vs_golden s) (rd_reg ?c rs1 + imm) Read (any_lane_overlaid (vs_golden s) (map m_ram (vs_bus s))) = Inr pa"
      "(rd_reg ?c rs1 + imm) mod of_nat (fst (load_shape op)) = 0" "plain_lane ?c"
      using xl al m(3) by (simp_all only: golden_readonly_tlb rd_reg_tlb plain_tlb vs_overlaid_def same [rule_format, OF l])
    from exec_load_shared [OF m(1,2) t [unfolded vs_overlaid_def] this(1,2) g [unfolded vs_overlaid_def] this(3), of rd ilen w]
    show ?thesis by simp
  qed
  show ?thesis
    unfolding payload_ok_def
  proof (intro conjI allI impI)
    show "sys_wf s'" by (rule lane(1))
    fix l assume l: "l < LANES"
    show "if vs_active s ! l then
       \<forall>t w. tlb_trusted (vs_golden s) (vs_overlaid s) ((vs_lanes s ! l)\<lparr>tlb := t\<rparr>) \<longrightarrow>
         (\<exists>c' t'. sys_lane s' l = (c', snd (sys_lane s l)) \<and>
            exec_one cow_machine_bus (Load op rd rs1 imm) (pc (vs_lanes s ! l)) ilen w ((vs_lanes s ! l)\<lparr>tlb := t\<rparr>, vs_bus s ! l) =
              (Inr EContinue, (c'\<lparr>tlb := t'\<rparr>, vs_bus s ! l)))
     else sys_lane s' l = sys_lane s l"
    proof (cases "vs_active s ! l")
      case True
      then have "sys_lane s' l = (retire_lane rd ?v ilen (vs_lanes s ! l), snd (sys_lane s l))"
        using lane(2) [OF l] by (simp only: if_True on_cpu_sys)
      then show ?thesis using ex [OF l True] unfolding if_P [OF True] by blast
    next
      case False
      then show ?thesis using lane(2) [OF l] by (simp only: if_False)
    qed
  qed
qed

text \<open>The parts of a step the fast path served.\<close>

lemma fast_path_parts:
  assumes "try_converged_fast_path s = (True, s')"
  obtains first s1 i ilen where "first_active (vs_active s) = Some first" "sys_converged (vs_active s) first s"
    "refresh_timers [0 ..< LANES] (vs_active s) s = (True, s1)"
    "shared_decode s1 first (pc (vs_lanes s ! first)) = Some (i, ilen)"
    "(\<exists>op rd rs1 imm. i = OpImm op rd rs1 imm \<and> s' = dispatch_simd_alu (vs_active s)
        \<lparr>ad_op = op, ad_rd = rd, ad_rs1 = rs1, ad_rs2 = None, ad_imm = imm\<rparr> ilen (s1\<lparr>vs_shared_fetch_steps := vs_shared_fetch_steps s1 + 1\<rparr>)) \<or>
     (\<exists>op rd rs1 rs2. i = Op op rd rs1 rs2 \<and> s' = dispatch_simd_alu (vs_active s)
        \<lparr>ad_op = op, ad_rd = rd, ad_rs1 = rs1, ad_rs2 = Some rs2, ad_imm = 0\<rparr> ilen (s1\<lparr>vs_shared_fetch_steps := vs_shared_fetch_steps s1 + 1\<rparr>)) \<or>
     (\<exists>op rd rs1 imm. i = Load op rd rs1 imm \<and>
        try_shared_load (vs_active s) op rd rs1 imm ilen (s1\<lparr>vs_shared_fetch_steps := vs_shared_fetch_steps s1 + 1\<rparr>) = (True, s'))"
proof -
  obtain first where f: "first_active (vs_active s) = Some first"
    using assms by (cases "first_active (vs_active s)") (simp_all add: try_converged_fast_path_def Let_def)
  note u = assms [unfolded try_converged_fast_path_def f option.case Let_def]
  have conv: "sys_converged (vs_active s) first s" using u by (simp only: prod.inject simp_thms split: if_splits)
  have "\<not> \<not> sys_converged (vs_active s) first s" using conv by simp
  note u = u [unfolded if_not_P [OF this]]
  obtain b s1 where r: "refresh_timers [0 ..< LANES] (vs_active s) s = (b, s1)" by (cases "refresh_timers [0 ..< LANES] (vs_active s) s")
  have b: "b = True" using u by (cases b) (simp_all add: r)
  note u = u [unfolded r b prod.case bool.case]
  obtain i ilen where d: "shared_decode s1 first (pc (vs_lanes s ! first)) = Some (i, ilen)"
    using u by (cases "shared_decode s1 first (pc (vs_lanes s ! first))") auto
  note u = u [unfolded d option.case prod.case]
  show thesis by (rule that [OF f conv r [unfolded b] d]) (use u in \<open>cases i; simp\<close>)
qed

lemma counter_ok: "batch_ok (s\<lparr>vs_shared_fetch_steps := x\<rparr>) = batch_ok s"
  "payload_ok i ilen (s\<lparr>vs_shared_fetch_steps := x\<rparr>) s' = payload_ok i ilen s s'"
  by (simp_all add: batch_ok_def payload_ok_def)

text \<open>A step served by the fast path is, in every active lane, the lane's own step but for its TLB.\<close>

definition lane_stepped :: "vec_system \<Rightarrow> vec_system \<Rightarrow> nat \<Rightarrow> bool" where
  "lane_stepped s s' l \<longleftrightarrow>
     (if vs_active s ! l then
        \<exists>c' t. sys_lane s' l = (c', snd (sys_lane s l)) \<and>
          step_system cow_machine_bus (vs_lanes s ! l, vs_bus s ! l) = (SContinue, (c'\<lparr>tlb := t\<rparr>, vs_bus s ! l))
      else sys_lane s' l = sys_lane s l)"

lemma step_system_quiet:
  assumes "pending_interrupt (update_timers c) = None" "step B (update_timers c, m) = (Inr EContinue, (c', m'))"
  shows "step_system B (c, m) = (SContinue, (c', m'))"
  using assms by (simp add: step_system_def poll_interrupt_def Let_def)

lemma refreshed_ok:
  assumes "batch_ok s" "refresh_timers [0 ..< LANES] (vs_active s) s = (b, s1)"
  shows "batch_ok s1" "\<And>l. l < LANES \<Longrightarrow> clocked (sys_lane s l) (sys_lane s1 l)"
proof -
  have wf: "sys_wf s" by (rule batch_okD(1) [OF assms(1)])
  note r = refreshed_lanes [OF wf assms(2)]
  show c: "\<And>l. l < LANES \<Longrightarrow> clocked (sys_lane s l) (sys_lane s1 l)" using r(4) on_cpu_clocked clocked_refl by metis
  show "batch_ok s1" by (rule batch_ok_clocked [OF assms(1) r(1,2) c])
qed

lemma fast_path_lane:
  assumes ok: "batch_ok s" and fp: "try_converged_fast_path s = (True, s')" and l: "l < LANES"
  shows "sys_wf s'" "lane_stepped s s' l"
proof -
  obtain first s1 i ilen where f: "first_active (vs_active s) = Some first" and conv: "sys_converged (vs_active s) first s"
    and r: "refresh_timers [0 ..< LANES] (vs_active s) s = (True, s1)"
    and d: "shared_decode s1 first (pc (vs_lanes s ! first)) = Some (i, ilen)"
    and pay: "(\<exists>op rd rs1 imm. i = OpImm op rd rs1 imm \<and> s' = dispatch_simd_alu (vs_active s)
        \<lparr>ad_op = op, ad_rd = rd, ad_rs1 = rs1, ad_rs2 = None, ad_imm = imm\<rparr> ilen (s1\<lparr>vs_shared_fetch_steps := vs_shared_fetch_steps s1 + 1\<rparr>)) \<or>
     (\<exists>op rd rs1 rs2. i = Op op rd rs1 rs2 \<and> s' = dispatch_simd_alu (vs_active s)
        \<lparr>ad_op = op, ad_rd = rd, ad_rs1 = rs1, ad_rs2 = Some rs2, ad_imm = 0\<rparr> ilen (s1\<lparr>vs_shared_fetch_steps := vs_shared_fetch_steps s1 + 1\<rparr>)) \<or>
     (\<exists>op rd rs1 imm. i = Load op rd rs1 imm \<and>
        try_shared_load (vs_active s) op rd rs1 imm ilen (s1\<lparr>vs_shared_fetch_steps := vs_shared_fetch_steps s1 + 1\<rparr>) = (True, s'))"
    using fast_path_parts [OF fp] .
  let ?s2 = "s1\<lparr>vs_shared_fetch_steps := vs_shared_fetch_steps s1 + 1\<rparr>"
  have wf: "sys_wf s" by (rule batch_okD(1) [OF ok])
  note ref = refreshed_lanes [OF wf r]
  have ok1: "batch_ok s1" and cl: "\<And>k. k < LANES \<Longrightarrow> clocked (sys_lane s k) (sys_lane s1 k)" using refreshed_ok [OF ok r] by blast+
  have ok2: "batch_ok ?s2" using ok1 by (simp only: counter_ok)
  have act: "vs_active s1 ! k = vs_active s ! k" if "k < LANES" for k using cl [OF that] by (simp add: clocked_simps)
  have acts: "vs_active ?s2 = vs_active s"
    by (rule nth_equalityI) (use batch_okD(1) [OF ok1] wf act in \<open>simp_all add: sys_wf_def\<close>)
  have fl: "first < LANES" "vs_active s ! first" using first_active_Some [OF f] by auto
  have kp: "pc (vs_lanes s1 ! k) = pc (vs_lanes s ! k)" "privilege (vs_lanes s1 ! k) = privilege (vs_lanes s ! k)"
    "satp (csr (vs_lanes s1 ! k)) = satp (csr (vs_lanes s ! k))" if "k < LANES" for k
    using cl [OF that] clock_eq_keeps(4,5,6) by (auto simp: clocked_simps)
  have cv: "pc (vs_lanes s1 ! k) = pc (vs_lanes s ! first)" "privilege (vs_lanes s1 ! k) = privilege (vs_lanes s ! first)"
    "satp (csr (vs_lanes s1 ! k)) = satp (csr (vs_lanes s ! first))" if "k < LANES" "vs_active s ! k" for k
    using conv that by (auto simp: sys_converged_def any_lane_def list_ex_iff kp [OF that(1)])
  have "payload_ok i ilen ?s2 s'"
    using pay dispatch_payload [OF ok2, unfolded acts] shared_load_payload [OF ok2, unfolded acts] cv by auto
  then have p: "payload_ok i ilen s1 s'" by (simp only: counter_ok)
  then show "sys_wf s'" by (simp add: payload_ok_def)
  show "lane_stepped s s' l"
  proof (cases "vs_active s ! l")
    case False
    have "sys_lane s1 l = sys_lane s l" using ref(4) [OF l] False by blast
    then show ?thesis using p l False act [OF l] by (simp add: payload_ok_def lane_stepped_def)
  next
    case True
    let ?c = "vs_lanes s1 ! l" and ?m = "vs_bus s1 ! l"
    have c: "?c = update_timers (vs_lanes s ! l)" "?m = vs_bus s ! l" "snd (sys_lane s1 l) = snd (sys_lane s l)"
      "pending_interrupt ?c = None"
      using ref(5) [OF l _ True] ref(3) by (auto simp: sys_lane_def on_cpu_def)
    have act1: "vs_active s1 ! l" using True act [OF l] by simp
    have "mode_bits ?c = mode_bits (vs_lanes s1 ! first)"
      by (rule batch_okD(5) [OF ok1 l fl(1) act1]) (use act [OF fl(1)] fl(2) in simp)
    then have eq: "xlate_golden_readonly ?c (vs_golden s1) va ac (vs_overlaid s1) = xlate_golden_readonly (vs_lanes s1 ! first) (vs_golden s1) va ac (vs_overlaid s1)"
      for va ac by (intro same_translation) (simp_all only: cv [OF l True] cv [OF fl])
    have m: "?m \<in> set (vs_bus s1)" using batch_okD(1) [OF ok1] l by (simp add: sys_wf_def)
    obtain t w where t: "step cow_machine_bus (?c, ?m) = exec_one cow_machine_bus i (pc ?c) ilen w (?c\<lparr>tlb := t\<rparr>, ?m)"
      "tlb_trusted (vs_golden s1) (vs_overlaid s1) (?c\<lparr>tlb := t\<rparr>)"
      using shared_decode_lane [OF batch_okD(2) [OF ok1 l] m batch_okD(4) [OF ok1 l act1] eq, of i ilen] d cv(1) [OF l True] by auto
    obtain c' t' where e: "sys_lane s' l = (c', snd (sys_lane s1 l))"
      "exec_one cow_machine_bus i (pc ?c) ilen w (?c\<lparr>tlb := t\<rparr>, ?m) = (Inr EContinue, (c'\<lparr>tlb := t'\<rparr>, ?m))"
      using p l act1 t(2) unfolding payload_ok_def by meson
    have "step_system cow_machine_bus (vs_lanes s ! l, vs_bus s ! l) = (SContinue, (c'\<lparr>tlb := t'\<rparr>, vs_bus s ! l))"
      by (rule step_system_quiet) (use c t(1) e(2) in simp_all)
    then show ?thesis using e(1) c(3) True unfolding lane_stepped_def by auto
  qed
qed

lemma declined_load: "try_shared_load active op rd rs1 imm ilen s = (False, s') \<Longrightarrow> s' = s"
  by (auto simp: try_shared_load_def Let_def split: option.splits sum.splits if_splits)

lemma declined_parts:
  assumes "try_converged_fast_path s = (False, s')"
  shows "s' = s \<or> (\<exists>b s1 x. refresh_timers [0 ..< LANES] (vs_active s) s = (b, s1) \<and> s' = s1\<lparr>vs_shared_fetch_steps := x\<rparr>)"
proof -
  obtain b s1 where r: "refresh_timers [0 ..< LANES] (vs_active s) s = (b, s1)" by (cases "refresh_timers [0 ..< LANES] (vs_active s) s")
  have same: "s1\<lparr>vs_shared_fetch_steps := vs_shared_fetch_steps s1\<rparr> = s1" by simp
  have inner: "\<exists>x. s' = s1\<lparr>vs_shared_fetch_steps := x\<rparr>"
    if "(case i of
          OpImm op rd rs1 imm \<Rightarrow> (True, A op rd rs1 imm) | Op op rd rs1 rs2 \<Rightarrow> (True, B op rd rs1 rs2)
        | Load op rd rs1 imm \<Rightarrow> try_shared_load a op rd rs1 imm ilen (s1\<lparr>vs_shared_fetch_steps := y\<rparr>)
        | _ \<Rightarrow> (False, s1\<lparr>vs_shared_fetch_steps := y\<rparr>)) = (False, s')" for i ilen y a A B
    using that by (cases i) (auto dest: declined_load)
  show ?thesis
  proof (cases "first_active (vs_active s)")
    case (Some first)
    note u = assms [unfolded try_converged_fast_path_def Some option.case Let_def r prod.case]
    show ?thesis
    proof (cases "sys_converged (vs_active s) first s \<and> b \<and> shared_decode s1 first (pc (vs_lanes s ! first)) \<noteq> None")
      case True
      then obtain i ilen where d: "shared_decode s1 first (pc (vs_lanes s ! first)) = Some (i, ilen)" by auto
      have "\<exists>x. s' = s1\<lparr>vs_shared_fetch_steps := x\<rparr>"
        using u True unfolding d option.case prod.case by (intro inner) simp
      then show ?thesis using r by blast
    next
      case False
      then have "s' = s \<or> s' = s1" using u
        by (cases b; cases "shared_decode s1 first (pc (vs_lanes s ! first))") (auto split: if_splits)
      then show ?thesis using r same by metis
    qed
  qed (use assms in \<open>simp add: try_converged_fast_path_def Let_def\<close>)
qed

lemma decline_lane:
  assumes wf: "sys_wf s" and fp: "try_converged_fast_path s = (False, s')" and l: "l < LANES"
  shows "sys_wf s'" "sys_lane s' l = sys_lane s l \<or> vs_active s ! l \<and> sys_lane s' l = on_cpu update_timers (sys_lane s l)"
  using declined_parts [OF fp] refreshed_lanes(1) [OF wf] refreshed_lanes(4) [OF wf _ l] wf by auto

section \<open>The step of a batch\<close>

lemma scalar_stepped_timers: "scalar_stepped p (on_cpu update_timers x) = scalar_stepped p x"
  by (cases x) (simp only: scalar_stepped_def on_cpu_def prod.case step_system_timers)

definition tlb_free :: "sys_lane_state \<Rightarrow> sys_lane_state" where
  "tlb_free x = on_cpu (\<lambda>c. c\<lparr>tlb := []\<rparr>) x"

lemma synced_facts: "pc (fst (synced x)) = pc (fst x)" "fst (snd (snd (synced x))) = fst (snd (snd x))"
  by (cases x; simp add: synced_def Let_def)+

lemma lane_drive_active: "fst (snd (snd x)) \<Longrightarrow> lane_drive x = scalar_stepped (pc (fst (synced x))) (synced x)"
  "\<not> fst (snd (snd x)) \<Longrightarrow> lane_drive x = x" "\<not> fst (snd (snd x)) \<Longrightarrow> synced x = x"
proof -
  obtain c m a r where x: "x = (c, m, a, r)" by (cases x)
  show "fst (snd (snd x)) \<Longrightarrow> lane_drive x = scalar_stepped (pc (fst (synced x))) (synced x)"
    unfolding synced_facts using lane_drive_synced [of c m r] by (simp add: x)
  show "\<not> fst (snd (snd x)) \<Longrightarrow> lane_drive x = x" "\<not> fst (snd (snd x)) \<Longrightarrow> synced x = x"
    by (auto simp: x lane_drive_def synced_def split: prod.split)
qed

lemma sys_lane_sel [simp]: "fst (sys_lane s l) = vs_lanes s ! l" "fst (snd (snd (sys_lane s l))) = vs_active s ! l"
  by (simp_all add: sys_lane_def)

definition recorded :: "u32 \<Rightarrow> sys_lane_state \<Rightarrow> sys_lane_state" where
  "recorded prev x = (case x of (c, m, a, e, v) \<Rightarrow>
     (c, m, a, e, if pc c \<noteq> prev + 4 \<and> pc c \<noteq> prev + 2 then bitmap_record_edge prev (pc c) v else v))"

lemma lane_local_id: "sys_wf s \<Longrightarrow> lane_local (\<lambda>x. x) l s s"
  by (simp add: lane_local_def)

lemma record_local:
  assumes "l < LANES" "sys_wf s"
  shows "lane_local (\<lambda>x. if a ! l then recorded (prev ! l) x else x) l s (if a ! l then record_lane l (prev ! l) s else s)"
    "lane_local (\<lambda>x. if a ! l then scalar_stepped (prev ! l) x else x) l s (if a ! l then scalar_lane prev l s else s)"
  using record_lane_local [OF assms, of "prev ! l"] scalar_lane_local [OF assms, of prev] assms(2)
  by (auto simp: recorded_def [abs_def] lane_local_id)

lemma record_lanes:
  assumes "sys_wf s"
  shows "sys_wf (for_lanes (\<lambda>l s. if a ! l then record_lane l (prev ! l) s else s) s)"
    "l < LANES \<Longrightarrow> sys_lane (for_lanes (\<lambda>l s. if a ! l then record_lane l (prev ! l) s else s) s) l =
      (if a ! l then recorded (prev ! l) (sys_lane s l) else sys_lane s l)"
  using for_lanes_local [of "\<lambda>l x. if a ! l then recorded (prev ! l) x else x"
    "\<lambda>l s. if a ! l then record_lane l (prev ! l) s else s", OF record_local(1) assms] by auto

lemma scalar_lanes:
  assumes "sys_wf s"
  shows "sys_wf (for_lanes (\<lambda>l s. if a ! l then scalar_lane prev l s else s) s)"
    "l < LANES \<Longrightarrow> sys_lane (for_lanes (\<lambda>l s. if a ! l then scalar_lane prev l s else s) s) l =
      (if a ! l then scalar_stepped (prev ! l) (sys_lane s l) else sys_lane s l)"
  using for_lanes_local [of "\<lambda>l x. if a ! l then scalar_stepped (prev ! l) x else x"
    "\<lambda>l s. if a ! l then scalar_lane prev l s else s", OF record_local(2) assms] by auto

lemma lane_stepped_recorded:
  assumes "lane_stepped s s' l" "vs_active s ! l"
  shows "tlb_free (recorded p (sys_lane s' l)) = tlb_free (scalar_stepped p (sys_lane s l))"
proof -
  obtain c' t where "sys_lane s' l = (c', snd (sys_lane s l))"
    "step_system cow_machine_bus (vs_lanes s ! l, vs_bus s ! l) = (SContinue, (c'\<lparr>tlb := t\<rparr>, vs_bus s ! l))"
    using assms by (auto simp: lane_stepped_def)
  then show ?thesis by (simp add: sys_lane_def recorded_def scalar_stepped_def tlb_free_def on_cpu_def)
qed

lemma vs_step_lane:
  assumes wf: "sys_wf s" and l: "l < LANES"
  shows "\<not> fst (try_converged_fast_path (for_lanes sync_lane s)) \<Longrightarrow> sys_lane (vs_step s) l = lane_drive (sys_lane s l)"
    "batch_ok s \<Longrightarrow> tlb_free (sys_lane (vs_step s) l) = tlb_free (lane_drive (sys_lane s l))"
proof -
  let ?s1 = "for_lanes sync_lane s"
  note sy = synced_lanes [OF wf]
  have l1: "l < length (vs_lanes ?s1)" using sy(1) l by (simp add: sys_wf_def)
  have a: "vs_active ?s1 ! l = vs_active s ! l" using synced_facts(2) [of "sys_lane s l"] sy(3) [OF l] by (metis sys_lane_sel(2))
  have p: "map pc (vs_lanes ?s1) ! l = pc (fst (synced (sys_lane s l)))" using l1 sy(3) [OF l] by (metis nth_map sys_lane_sel(1))
  show dec: "sys_lane (vs_step s) l = lane_drive (sys_lane s l)" if nf: "\<not> fst (try_converged_fast_path ?s1)"
  proof -
    obtain s2 where fp: "try_converged_fast_path ?s1 = (False, s2)" using nf by (cases "try_converged_fast_path ?s1") auto
    have wf2: "sys_wf (s2\<lparr>vs_scalar_steps := vs_scalar_steps s2 + 1\<rparr>)" using decline_lane(1) [OF sy(1) fp l] by simp
    have v: "sys_lane (vs_step s) l =
      (if vs_active s ! l then scalar_stepped (pc (fst (synced (sys_lane s l)))) (sys_lane s2 l) else sys_lane s2 l)"
      unfolding vs_step_def Let_def fp prod.case bool.case scalar_lanes(2) [OF wf2 l] a p by simp
    show ?thesis
      using decline_lane(2) [OF sy(1) fp l] lane_drive_active [of "sys_lane s l"]
      unfolding v sy(3) [OF l] a by (cases "vs_active s ! l") (auto simp: scalar_stepped_timers)
  qed
  show "tlb_free (sys_lane (vs_step s) l) = tlb_free (lane_drive (sys_lane s l))" if ok: "batch_ok s"
  proof (cases "fst (try_converged_fast_path ?s1)")
    case True
    then obtain s2 where fp: "try_converged_fast_path ?s1 = (True, s2)" by (cases "try_converged_fast_path ?s1") auto
    have ok1: "batch_ok ?s1" by (rule batch_ok_clocked [OF ok sy(1,2)]) (simp only: sy(3) synced_clocked)
    note fl = fast_path_lane [OF ok1 fp l]
    have wf2: "sys_wf (s2\<lparr>vs_simd_steps := vs_simd_steps s2 + 1\<rparr>)" using fl(1) by simp
    have v: "sys_lane (vs_step s) l =
      (if vs_active s ! l then recorded (pc (fst (synced (sys_lane s l)))) (sys_lane s2 l) else sys_lane s2 l)"
      unfolding vs_step_def Let_def fp prod.case bool.case record_lanes(2) [OF wf2 l] a p by simp
    show ?thesis
    proof (cases "vs_active s ! l")
      case True
      then show ?thesis
        using lane_stepped_recorded [OF fl(2)] a lane_drive_active(1) [of "sys_lane s l"] unfolding v sy(3) [OF l] by simp
    next
      case False
      then show ?thesis
        using fl(2) a lane_drive_active(2,3) [of "sys_lane s l"] unfolding v by (simp add: lane_stepped_def sy(3) [OF l])
    qed
  next
    case False
    then show ?thesis using dec by simp
  qed
qed

end
