(* ===== verification/Sys_Batch.thy ===== *)
theory Sys_Batch
  imports Sys_Step
begin

text \<open>
  What a batch keeps through injection, steps, budget stops and resets: every lane stays over the golden
  image, so that \<open>reset_batch\<close> can rebuild it.
\<close>

section \<open>What a batch never loses\<close>

definition over_image :: "golden \<Rightarrow> u32 \<Rightarrow> u32 \<Rightarrow> cow_machine \<Rightarrow> bool" where
  "over_image g lo hi m \<longleftrightarrow> cow_wf (m_ram m) \<and> cow_golden (m_ram m) = g \<and> m_ram_base m = lo \<and> m_ram_end m = hi"

interpretation lane_bus: bus_inv "over_image g lo hi" cow_machine_bus for g lo hi
proof
  fix s :: cow_machine and a sz v
  assume I: "over_image g lo hi s"
  show "over_image g lo hi (snd (bus_load cow_machine_bus s a sz))" "over_image g lo hi (snd (bus_ifetch16 cow_machine_bus s a))"
    using I by (auto simp: cow_machine_bus_def dev_bus_def dev_load_def dev_ifetch16_def cow_bus_def over_image_def)
  show "over_image g lo hi (snd (bus_store cow_machine_bus s a sz v))"
    using I cow_store_flat [of "m_ram s" a sz v]
    by (auto simp: cow_machine_bus_def dev_bus_def dev_store_def cow_bus_def over_image_def case_prod_beta)
qed

definition lane_kept :: "golden \<Rightarrow> u32 \<Rightarrow> u32 \<Rightarrow> sys_lane_state \<Rightarrow> bool" where
  "lane_kept g lo hi x = (case x of (c, m, a, e, v) \<Rightarrow> over_image g lo hi m \<and> \<not> kmsan_enabled c \<and> bitmap_wf v)"

lemma kept_on_cpu: "(\<And>c. kmsan_enabled (f c) = kmsan_enabled c) \<Longrightarrow> lane_kept g lo hi (on_cpu f x) = lane_kept g lo hi x"
  by (cases x) (simp add: lane_kept_def on_cpu_def)

lemma kept_synced: "lane_kept g lo hi x \<Longrightarrow> lane_kept g lo hi (synced x)"
  by (cases x) (auto simp: lane_kept_def synced_def Let_def over_image_def)

lemma kept_recorded: "lane_kept g lo hi x \<Longrightarrow> lane_kept g lo hi (recorded p x)"
  by (cases x) (auto simp: lane_kept_def recorded_def intro: wf_intros)

lemma kept_scalar: "lane_kept g lo hi x \<Longrightarrow> lane_kept g lo hi (scalar_stepped p x)"
proof -
  assume k: "lane_kept g lo hi x"
  obtain c m a e v where x: "x = (c, m, a, e, v)" by (cases x)
  obtain ex c' m' where st: "step_system cow_machine_bus (c, m) = (ex, (c', m'))" by (cases "step_system cow_machine_bus (c, m)") auto
  have "over_image g lo hi m' \<and> \<not> kmsan_enabled c'"
    using lane_bus.okI_step_system [of g lo hi m c] k by (simp add: st x lane_kept_def)
  then show ?thesis using k by (cases ex) (auto simp: x st scalar_stepped_def lane_kept_def intro: wf_intros)
qed

lemma kept_retired: "kmsan_enabled (retire_lane rd v n c) = kmsan_enabled c" "kmsan_enabled (update_timers c) = kmsan_enabled c"
  by (simp_all add: retire_lane_def Let_def kmsan_enabled_def update_timers_def)

lemma kept_timers: "lane_kept g lo hi x \<Longrightarrow> y = x \<or> P \<and> y = on_cpu update_timers x \<Longrightarrow> lane_kept g lo hi y"
  using kept_on_cpu [OF kept_retired(2)] by blast

definition batch_kept :: "golden \<Rightarrow> u32 \<Rightarrow> u32 \<Rightarrow> vec_system \<Rightarrow> bool" where
  "batch_kept g lo hi s \<longleftrightarrow> sys_wf s \<and> (\<forall>l < LANES. lane_kept g lo hi (sys_lane s l))"

lemma kept_for_lanes:
  assumes "\<And>l s. l < LANES \<Longrightarrow> sys_wf s \<Longrightarrow> lane_local (f l) l s (F l s)" "batch_kept g lo hi s"
    "\<And>l x. l < LANES \<Longrightarrow> lane_kept g lo hi x \<Longrightarrow> lane_kept g lo hi (f l x)"
  shows "batch_kept g lo hi (for_lanes F s)"
  using for_lanes_local [of f F s, OF assms(1)] assms(2,3) by (simp add: batch_kept_def)

lemma kept_fast_path:
  assumes k: "batch_kept g lo hi s" and fp: "try_converged_fast_path s = (b, s')"
  shows "batch_kept g lo hi s'"
proof -
  have wf: "sys_wf s" using k by (simp add: batch_kept_def)
  show ?thesis
  proof (cases b)
    case False
    then have fp': "try_converged_fast_path s = (False, s')" using fp by simp
    have "sys_wf s'" by (rule decline_lane(1) [OF wf fp', of 0]) (simp add: LANES_def)
    moreover have "lane_kept g lo hi (sys_lane s' l)" if "l < LANES" for l
      by (rule kept_timers [OF _ decline_lane(2) [OF wf fp' that]]) (use k that in \<open>simp add: batch_kept_def\<close>)
    ultimately show ?thesis by (simp add: batch_kept_def)
  next
    case True
    obtain first s1 i ilen where r: "refresh_timers [0 ..< LANES] (vs_active s) s = (True, s1)"
      and pay: "(\<exists>op rd rs1 imm. i = OpImm op rd rs1 imm \<and> s' = dispatch_simd_alu (vs_active s)
        \<lparr>ad_op = op, ad_rd = rd, ad_rs1 = rs1, ad_rs2 = None, ad_imm = imm\<rparr> ilen (s1\<lparr>vs_shared_fetch_steps := vs_shared_fetch_steps s1 + 1\<rparr>)) \<or>
     (\<exists>op rd rs1 rs2. i = Op op rd rs1 rs2 \<and> s' = dispatch_simd_alu (vs_active s)
        \<lparr>ad_op = op, ad_rd = rd, ad_rs1 = rs1, ad_rs2 = Some rs2, ad_imm = 0\<rparr> ilen (s1\<lparr>vs_shared_fetch_steps := vs_shared_fetch_steps s1 + 1\<rparr>)) \<or>
     (\<exists>op rd rs1 imm. i = Load op rd rs1 imm \<and>
        try_shared_load (vs_active s) op rd rs1 imm ilen (s1\<lparr>vs_shared_fetch_steps := vs_shared_fetch_steps s1 + 1\<rparr>) = (True, s'))"
      using fast_path_parts [of s s'] fp True by metis
    have "lane_kept g lo hi (sys_lane s1 l)" if "l < LANES" for l
      by (rule kept_timers [OF _ refreshed_lanes(4) [OF wf r that]]) (use k that in \<open>simp add: batch_kept_def\<close>)
    then have k1: "batch_kept g lo hi (s1\<lparr>vs_shared_fetch_steps := x\<rparr>)" for x
      using refreshed_lanes(1) [OF wf r] by (simp add: batch_kept_def)
    have ret: "batch_kept g lo hi (for_lanes (\<lambda>l s. if a ! l then s\<lparr>vs_lanes := (vs_lanes s)[l := retire_lane rd (v l) n (vs_lanes s ! l)]\<rparr> else s) t)"
      if "batch_kept g lo hi t" for a rd v n t
      using that retire_lanes [where F = "\<lambda>l. retire_lane rd (v l) n" and active = a and s = t]
      by (simp add: batch_kept_def kept_on_cpu [OF kept_retired(1)] del: on_cpu_sys)
    from pay show ?thesis
    proof (elim disjE exE conjE)
      fix op rd rs1 imm
      assume "try_shared_load (vs_active s) op rd rs1 imm ilen (s1\<lparr>vs_shared_fetch_steps := vs_shared_fetch_steps s1 + 1\<rparr>) = (True, s')"
      then show ?thesis by (rule shared_load_parts) (simp only: ret [OF k1])
    qed (simp_all only: dispatch_simd_alu_def Let_def ret [OF k1])
  qed
qed

lemma kept_step: "batch_kept g lo hi s \<Longrightarrow> batch_kept g lo hi (vs_step s)"
proof -
  assume k: "batch_kept g lo hi s"
  let ?s1 = "for_lanes sync_lane s"
  have k1: "batch_kept g lo hi ?s1" by (rule kept_for_lanes [OF sync_lane_local k kept_synced])
  obtain b s2 where fp: "try_converged_fast_path ?s1 = (b, s2)" by (cases "try_converged_fast_path ?s1")
  have k2: "batch_kept g lo hi s2" by (rule kept_fast_path [OF k1 fp])
  have k3: "batch_kept g lo hi (s2\<lparr>vs_simd_steps := x\<rparr>)" "batch_kept g lo hi (s2\<lparr>vs_scalar_steps := x\<rparr>)" for x
    using k2 by (simp_all add: batch_kept_def)
  have rec: "batch_kept g lo hi (for_lanes (\<lambda>l s. if a ! l then record_lane l (prev ! l) s else s) t)"
    "batch_kept g lo hi (for_lanes (\<lambda>l s. if a ! l then scalar_lane prev l s else s) t)" if "batch_kept g lo hi t" for a prev t
    using that record_lanes [of t] scalar_lanes [of t] kept_recorded kept_scalar by (auto simp: batch_kept_def)
  show ?thesis unfolding vs_step_def Let_def fp by (cases b) (simp_all only: prod.case bool.case rec k3)
qed

section \<open>Batches that can arise\<close>

inductive batch_reach :: "golden \<Rightarrow> cpu \<Rightarrow> u32 \<Rightarrow> u32 \<Rightarrow> vec_system \<Rightarrow> bool" for g c ram_base ram_size where
  start: "batch_reach g c ram_base ram_size (vs_from_golden_cpu g c ram_base ram_size)"
| seed: "batch_reach g c ram_base ram_size s \<Longrightarrow> l < LANES \<Longrightarrow> batch_reach g c ram_base ram_size (vs_set_reg l i v s)"
| inject: "batch_reach g c ram_base ram_size s \<Longrightarrow> l < LANES \<Longrightarrow> batch_reach g c ram_base ram_size (inject_lane l pas ws s)"
| scratch: "batch_reach g c ram_base ram_size s \<Longrightarrow> l < LANES \<Longrightarrow> batch_reach g c ram_base ram_size (inject_scratch l pas bs s)"
| step: "batch_reach g c ram_base ram_size s \<Longrightarrow> batch_reach g c ram_base ram_size (vs_step s)"
| budget: "batch_reach g c ram_base ram_size s \<Longrightarrow> l < LANES \<Longrightarrow> batch_reach g c ram_base ram_size (budget_lane st b l s)"
| reset: "batch_reach g c ram_base ram_size s \<Longrightarrow> batch_reach g c ram_base ram_size (reset_batch c cl n s)"

lemma kept_lane_local:
  assumes "lane_local f l s s'" "l < LANES" "batch_kept g lo hi s" "\<And>x. lane_kept g lo hi x \<Longrightarrow> lane_kept g lo hi (f x)"
  shows "batch_kept g lo hi s'"
  using assms by (auto simp: batch_kept_def lane_local_def)

lemma kept_store:
  assumes k: "batch_kept g lo hi s" and l: "l < LANES"
  shows "batch_kept g lo hi (lane_store l pa w s)"
proof -
  let ?f = "\<lambda>(c, m, r). (c, snd (bus_store cow_machine_bus m pa 4 w), r)"
  have "lane_local ?f l s (lane_store l pa w s)"
    using k l by (auto simp: batch_kept_def lane_local_def lane_store_def sys_lane_def sys_wf_def)
  then show ?thesis
    by (rule kept_lane_local [OF _ l k]) (auto simp: lane_kept_def lane_bus.store_inv)
qed

lemma kept_injected:
  assumes "batch_kept g lo hi s" "l < LANES"
  shows "batch_kept g lo hi (inject_lane l pas ws s)" "batch_kept g lo hi (inject_scratch l pas bs s)"
proof -
  have "batch_kept g lo hi (foldl (\<lambda>s x. lane_store l (A x) (W x) s) s xs)" for A W and xs :: "'x list"
    using assms(1) by (induction xs arbitrary: s) (simp_all add: kept_store [OF _ assms(2)])
  from this [of fst snd] this [of snd "\<lambda>x. scratch_word bs (fst x)"]
  show "batch_kept g lo hi (inject_lane l pas ws s)" "batch_kept g lo hi (inject_scratch l pas bs s)"
    by (simp_all add: inject_lane_def inject_scratch_def case_prod_beta')
qed

lemma kept_seeded:
  assumes k: "batch_kept g lo hi s" and l: "l < LANES"
  shows "batch_kept g lo hi (vs_set_reg l i v s)" "batch_kept g lo hi (budget_lane st b l s)"
proof -
  have wf: "sys_wf s" using k by (simp add: batch_kept_def)
  have "batch_kept g lo hi (s\<lparr>vs_lanes := (vs_lanes s)[l := (\<lambda>c. c\<lparr>regs := (regs c)[unat i := v]\<rparr>) (vs_lanes s ! l)]\<rparr>)"
    by (rule kept_lane_local [OF set_lane_local [OF wf l] l k]) (simp add: kept_on_cpu kmsan_enabled_def)
  then show "batch_kept g lo hi (vs_set_reg l i v s)" using k by (simp add: vs_set_reg_def)
  have "lane_local (\<lambda>(c, m, a, e, x). (c, m, False, Some LBudget, x)) l s (vs_halt l LBudget s)"
    using wf l by (auto simp: lane_local_def vs_halt_def sys_lane_def sys_wf_def)
  then have "batch_kept g lo hi (vs_halt l LBudget s)"
    by (rule kept_lane_local [OF _ l k]) (auto simp: lane_kept_def)
  then show "batch_kept g lo hi (budget_lane st b l s)" using k by (simp add: budget_lane_def)
qed

section \<open>Reset\<close>

definition reset_state :: "cpu \<Rightarrow> clint \<Rightarrow> nat \<Rightarrow> sys_lane_state \<Rightarrow> sys_lane_state" where
  "reset_state c cl n x = (case x of (c0, m, a, e, v) \<Rightarrow>
     (c, m\<lparr>m_ram := cow_reset (m_ram m), m_clint := cl, m_uart := (m_uart m)\<lparr>ua_out := take n (ua_out (m_uart m))\<rparr>\<rparr>,
      True, None, bitmap_clear v))"

lemma reset_lanes:
  assumes "sys_wf s"
  shows "sys_wf (reset_batch c cl n s)" "l < LANES \<Longrightarrow> sys_lane (reset_batch c cl n s) l = reset_state c cl n (sys_lane s l)"
proof -
  have "lane_local (reset_state c cl n) l s (reset_lane c cl n l s)" if "l < LANES" "sys_wf s" for l s
    using that by (auto simp: lane_local_def reset_lane_def reset_state_def sys_lane_def sys_wf_def Let_def)
  from for_lanes_local [of "\<lambda>_. reset_state c cl n" "reset_lane c cl n", OF this assms]
  show "sys_wf (reset_batch c cl n s)" "l < LANES \<Longrightarrow> sys_lane (reset_batch c cl n s) l = reset_state c cl n (sys_lane s l)"
    by (simp_all add: reset_batch_def)
qed

lemma reset_state_fresh:
  assumes "lane_kept g lo (lo + sz) (c0, m, a, e, v)"
  shows "reset_state c cl n (c0, m, a, e, v) =
    (c, (cow_machine_from_golden g lo sz)\<lparr>m_clint := cl, m_uart := \<lparr>ua_out = take n (ua_out (m_uart m))\<rparr>\<rparr>, True, None, bitmap_new)"
  using assms
  by (auto simp: reset_state_def lane_kept_def over_image_def cow_reset_new cow_machine_from_golden_def bitmap_clear_new)

lemma fresh_kept:
  assumes "golden_wf g" "\<not> kmsan_enabled c"
  shows "lane_kept g lo (lo + sz) (c, (cow_machine_from_golden g lo sz)\<lparr>m_clint := cl, m_uart := u\<rparr>, True, None, bitmap_new)"
  using assms cow_new_wf [OF assms(1)]
  by (simp add: lane_kept_def over_image_def cow_machine_from_golden_def bitmap_wf_intros cow_new_def)

lemma reset_kept:
  assumes "golden_wf g" "\<not> kmsan_enabled c" "batch_kept g lo (lo + sz) s"
  shows "batch_kept g lo (lo + sz) (reset_batch c cl n s)"
proof -
  have wf: "sys_wf s" using assms(3) by (simp add: batch_kept_def)
  have "lane_kept g lo (lo + sz) (reset_state c cl n x)" if "lane_kept g lo (lo + sz) x" for x
    using that fresh_kept [OF assms(1,2)] by (cases x) (simp only: reset_state_fresh)
  then show ?thesis using assms(3) reset_lanes [OF wf] by (simp add: batch_kept_def)
qed

lemma start_kept:
  assumes "golden_wf g" "\<not> kmsan_enabled c"
  shows "batch_kept g lo (lo + sz) (vs_from_golden_cpu g c lo sz)"
  using assms cow_new_wf [OF assms(1)]
  by (auto simp: batch_kept_def sys_wf_def vs_from_golden_cpu_def sys_lane_def lane_kept_def over_image_def
      cow_machine_from_golden_def bitmap_wf_intros cow_new_def)

lemma reach_kept:
  assumes "batch_reach g c lo sz s" "golden_wf g" "\<not> kmsan_enabled c"
  shows "batch_kept g lo (lo + sz) s"
  using assms(1)
  by (induction rule: batch_reach.induct)
    (simp_all only: start_kept [OF assms(2,3)] kept_seeded kept_injected kept_step reset_kept [OF assms(2,3)])

text \<open>A batch run to its end is one of these.\<close>

lemma for_lanes_induct:
  assumes "P s" "\<And>l s. l < LANES \<Longrightarrow> P s \<Longrightarrow> P (f l s)"
  shows "P (for_lanes f s)"
proof -
  have "\<forall>l \<in> set ls. l < LANES \<Longrightarrow> P s \<Longrightarrow> P (foldl (\<lambda>s l. f l s) s ls)" for ls
    by (induction ls arbitrary: s) (use assms(2) in auto)
  then show ?thesis using assms(1) by (simp add: for_lanes_def)
qed

lemma run_batch_reach:
  assumes "run_batch b s = Some s'" "batch_reach g c lo sz s"
  shows "batch_reach g c lo sz s' \<and> \<not> vs_any_active s'"
proof -
  let ?P = "\<lambda>s s'. batch_reach g c lo sz s \<longrightarrow> batch_reach g c lo sz s' \<and> \<not> vs_any_active s'"
  have "?P s s'" if "run_batch_loop st b s = Some s'" for st
  proof (rule run_batch_loop.raw_induct [of "\<lambda>_ _. ?P", OF _ that])
    fix rec st b s s'
    assume IH: "\<And>st b s s'. rec st b s = Some s' \<Longrightarrow> ?P s s'"
      and body: "(if \<not> vs_any_active s then Some s
        else let s1 = for_lanes (budget_lane st b) s in if \<not> vs_any_active s1 then Some s1 else rec st b (vs_step s1)) = Some s'"
    show "?P s s'"
    proof
      assume r: "batch_reach g c lo sz s"
      have r1: "batch_reach g c lo sz (for_lanes (budget_lane st b) s)"
        by (rule for_lanes_induct [where P = "batch_reach g c lo sz", OF r]) (rule batch_reach.budget)
      show "batch_reach g c lo sz s' \<and> \<not> vs_any_active s'"
        using body IH [of st b "vs_step (for_lanes (budget_lane st b) s)" s'] r r1 batch_reach.step [OF r1]
        by (auto simp: Let_def split: if_splits)
    qed
  qed
  then show ?thesis using assms by (simp add: run_batch_def)
qed

end
