(* ===== verification/Sys_Results.thy ===== *)
theory Sys_Results
  imports Sys_Batch
begin

text \<open>
  The properties of the full-system batch: a step is a step of each lane, and a reset leaves a fresh batch.
\<close>

lemma empty_tlb_trusted: "tlb c = tlb_new \<Longrightarrow> tlb_trusted g ov c"
proof -
  have lt: "drop_bit 12 va \<noteq> 0xFFFFFFFF" for va :: u32
  proof
    assume "drop_bit 12 va = 0xFFFFFFFF"
    then have "bit (drop_bit 12 va) 31" by simp
    then show False using bit_imp_le_length [of va 43] by (simp add: bit_drop_bit_eq)
  qed
  assume t: "tlb c = tlb_new"
  have "tlb_get (tlb c) (drop_bit 12 va) = None" for va :: u32
    using lt [of va] by (auto simp: t tlb_get_def tlb_new_def tlb_slot_def TLB_SIZE_def tlb_empty_def Let_def)
  then show ?thesis by (simp add: tlb_trusted_def t tlb_new_def)
qed

text \<open>
  C9.  A step of a batch is a step of each of its machines.  In a batch whose lanes run over the shared
  image, with taint and comparison logging off, the translation modes of the active lanes equal and
  their TLBs in agreement with the page tables the shared walk reads, \<open>VecSystem::step\<close> leaves every
  lane (hart, devices, memory, exit, coverage) as one iteration of the scalar driver loop would, up to
  the contents of the TLB; when the converged fast path declines, it leaves exactly that state.
\<close>

theorem system_step_is_lane_drive:
  assumes "batch_ok s" "l < LANES"
  shows "tlb_free (sys_lane (vs_step s) l) = tlb_free (lane_drive (sys_lane s l)) \<and>
    (\<not> fst (try_converged_fast_path (for_lanes sync_lane s)) \<longrightarrow> sys_lane (vs_step s) l = lane_drive (sys_lane s l))"
  using vs_step_lane [OF batch_okD(1) [OF assms(1)] assms(2)] assms(1) by blast

text \<open>A batch over one page of RAM at \<open>0x80000000\<close>.\<close>

definition page_machine :: flat_machine where
  "page_machine = machine_new 0x80000000 4096"

lemma page_batch_ok: "batch_ok (vs_from_template (cpu_new 0x80000000) page_machine)"
proof -
  let ?s = "vs_from_template (cpu_new 0x80000000) page_machine" and ?g = "from_mmu (m_ram page_machine)"
  have mem: "mmu_base (m_ram page_machine) = 0x80000000" "length (mmu_mem (m_ram page_machine)) = 4096"
    by (simp_all add: page_machine_def machine_new_def mmu_new_def)
  have "mmu_wf (m_ram page_machine)" by (simp add: page_machine_def machine_new_def mmu_new_def mmu_wf_def)
  then have "golden_wf ?g" by (rule golden_wf_from_mmu) (simp add: mem)
  then have cw: "cow_wf (cow_new ?g)" by (rule cow_new_wf)
  have g: "g_base ?g = 0x80000000" "g_size ?g = 4096" "cow_golden (cow_new ?g) = ?g"
    using mem by (simp_all add: from_mmu_def planes_def g_size_def cow_new_def)
  have s: "?s = vs_from_golden_cpu ?g (cpu_new 0x80000000) 0x80000000 4096"
    by (simp add: vs_from_template_def Let_def mem)
  have "window_ok ?g (cow_machine_from_golden ?g 0x80000000 4096)"
    using cw g by (simp add: window_ok_def cow_machine_from_golden_def UART_BASE_def UART_SIZE_def)
  moreover have "plain_lane (cpu_new 0x80000000)" by (simp add: plain_lane_def kmsan_enabled_def cpu_new_def)
  moreover have "tlb_trusted h ov (cpu_new 0x80000000)" for h ov by (rule empty_tlb_trusted) (simp add: cpu_new_def)
  ultimately show ?thesis unfolding s by (simp add: batch_ok_def sys_wf_def vs_from_golden_cpu_def)
qed

theorem system_step_is_lane_drive_witness:
  "tlb_free (sys_lane (vs_step (vs_from_template (cpu_new 0x80000000) page_machine)) 3) =
   tlb_free (lane_drive (sys_lane (vs_from_template (cpu_new 0x80000000) page_machine) 3))"
  using system_step_is_lane_drive [OF page_batch_ok, of 3] by (simp add: LANES_def)

text \<open>
  C10.  Nothing of a batch survives its reset but console output below the mark: from any state a batch
  over an image can reach by seeding registers, injecting programs and scratch bytes, stepping,
  stopping lanes on their budget and earlier resets, \<open>reset_batch\<close> leaves every lane as
  \<open>from_golden_cpu\<close> builds it, with the given timer state and the console output cut to its first
  \<open>base_uart\<close> bytes.
\<close>

theorem reset_batch_fresh:
  assumes "golden_wf g" "\<not> kmsan_enabled c" "batch_reach g c ram_base ram_size s" "l < LANES"
  shows "sys_lane (reset_batch c cl n s) l =
    (c, (cow_machine_from_golden g ram_base ram_size)\<lparr>m_clint := cl, m_uart := \<lparr>ua_out = take n (ua_out (m_uart (vs_bus s ! l)))\<rparr>\<rparr>,
     True, None, bitmap_new)"
proof -
  have k: "batch_kept g ram_base (ram_base + ram_size) s" by (rule reach_kept [OF assms(3,1,2)])
  then have "lane_kept g ram_base (ram_base + ram_size) (sys_lane s l)" using assms(4) by (simp add: batch_kept_def)
  then show ?thesis
    using reset_lanes(2) [of s l c cl n] k assms(4) reset_state_fresh by (simp add: batch_kept_def sys_lane_def)
qed

theorem reset_batch_fresh_witness:
  "sys_lane (reset_batch (cpu_new 0) clint_default 0 (vs_step (inject_lane 2 [0x80000000] [0x13]
     (vs_from_golden_cpu (from_mmu (m_ram page_machine)) (cpu_new 0) 0x80000000 4096)))) 2 =
   (cpu_new 0, cow_machine_from_golden (from_mmu (m_ram page_machine)) 0x80000000 4096, True, None, bitmap_new)"
proof -
  let ?g = "from_mmu (m_ram page_machine)"
  have wf: "golden_wf ?g"
    by (rule golden_wf_from_mmu) (simp_all add: page_machine_def machine_new_def mmu_new_def mmu_wf_def)
  have plain: "\<not> kmsan_enabled (cpu_new 0)" by (simp add: kmsan_enabled_def cpu_new_def)
  have two: "2 < LANES" by (simp add: LANES_def)
  from reset_batch_fresh [OF wf plain batch_reach.step [OF batch_reach.inject [OF batch_reach.start two]] two,
    where cl = clint_default and n = 0]
  show ?thesis by (simp add: cow_machine_from_golden_def)
qed

end
