(* ===== verification/Corpus.thy ===== *)
theory Corpus
  imports Syscalls
begin

text \<open>
  Corpus persistence of \<open>crates/fs-cli/src/main.rs\<close>: the text form of a program.  A Rust \<open>str\<close> is the
  list of its UTF-8 bytes; \<open>split_whitespace\<close> splits at the Unicode white space characters, \<open>parse\<close> is the
  standard integer parser (an optional sign, then digits, an error on overflow).  A parser that returns
  \<open>None\<close> gives \<open>PNone\<close>, one that panics (\<open>split_at\<close> inside a character) gives \<open>PPanic\<close>.  Memory is
  unbounded: the capacity reserved ahead of a loop is not modelled.
\<close>

section \<open>Text\<close>

definition char_byte :: "char \<Rightarrow> nat" where
  "char_byte c = of_char c"

definition wide_spaces :: "nat list list" where
  "wide_spaces = [[0xE1, 0x9A, 0x80], [0xE2, 0x81, 0x9F], [0xE3, 0x80, 0x80]] @
     map (\<lambda>k. [0xE2, 0x80, k]) ([0x80 ..< 0x8B] @ [0xA8, 0xA9, 0xAF])"

text \<open>The number of bytes of the white space character a text starts with; 0 when there is none.\<close>

definition ws_len :: "string \<Rightarrow> nat" where
  "ws_len s = (let b = map char_byte (take 3 s) in
     if b \<noteq> [] \<and> (9 \<le> hd b \<and> hd b \<le> 13 \<or> hd b = 32) then 1
     else if take 2 b = [0xC2, 0x85] \<or> take 2 b = [0xC2, 0xA0] then 2
     else if list_ex (\<lambda>w. b = w) wide_spaces then 3 else 0)"

definition emit_token :: "string \<Rightarrow> string list" where
  "emit_token tok = (if tok = [] then [] else [tok])"

function split_ws :: "string \<Rightarrow> string \<Rightarrow> string list" where
  "split_ws tok [] = emit_token tok"
| "split_ws tok (c # cs) =
     (if ws_len (c # cs) = 0 then split_ws (tok @ [c]) cs
      else emit_token tok @ split_ws [] (drop (ws_len (c # cs)) (c # cs)))"
  by pat_completeness auto
termination by (relation "measure (\<lambda>(tok, s). length s)") auto

definition split_whitespace :: "string \<Rightarrow> string list" where
  "split_whitespace s = split_ws [] s"

fun join_words :: "string list \<Rightarrow> string" where
  "join_words [] = ''''"
| "join_words [t] = t"
| "join_words (t # ts) = t @ '' '' @ join_words ts"

section \<open>Numbers\<close>

definition hex_digit :: "nat \<Rightarrow> char" where
  "hex_digit d = char_of (if d < 10 then 48 + d else 87 + d)"

fun show_nat :: "nat \<Rightarrow> string" where
  "show_nat n = (if n < 10 then [hex_digit n] else show_nat (n div 10) @ [hex_digit (n mod 10)])"

declare show_nat.simps [simp del]

definition show_i64 :: "64 word \<Rightarrow> string" where
  "show_i64 w = (if sint w < 0 then ''-'' @ show_nat (nat (- sint w)) else show_nat (nat (sint w)))"

definition hex2 :: "u8 \<Rightarrow> string" where
  "hex2 b = [hex_digit (unat b div 16), hex_digit (unat b mod 16)]"

definition digit_val :: "nat \<Rightarrow> char \<Rightarrow> nat option" where
  "digit_val radix c = (let b = char_byte c;
     v = (if 48 \<le> b \<and> b \<le> 57 then Some (b - 48)
          else if 97 \<le> b \<and> b \<le> 122 then Some (b - 87)
          else if 65 \<le> b \<and> b \<le> 90 then Some (b - 55) else None)
     in case v of Some d \<Rightarrow> if d < radix then Some d else None | None \<Rightarrow> None)"

fun digits_val :: "nat \<Rightarrow> nat \<Rightarrow> string \<Rightarrow> nat option" where
  "digits_val radix acc [] = Some acc"
| "digits_val radix acc (c # cs) =
     (case digit_val radix c of None \<Rightarrow> None | Some d \<Rightarrow> digits_val radix (acc * radix + d) cs)"

definition parse_digits :: "nat \<Rightarrow> string \<Rightarrow> nat option" where
  "parse_digits radix s = (if s = [] then None else digits_val radix 0 s)"

definition parse_uint :: "nat \<Rightarrow> nat \<Rightarrow> string \<Rightarrow> nat option" where
  "parse_uint radix bound s =
     (case parse_digits radix (if s \<noteq> [] \<and> hd s = CHR ''+'' then tl s else s) of
        Some n \<Rightarrow> if n < bound then Some n else None
      | None \<Rightarrow> None)"

definition parse_i64 :: "string \<Rightarrow> 64 word option" where
  "parse_i64 s =
     (if s \<noteq> [] \<and> hd s = CHR ''-''
      then (case parse_digits 10 (tl s) of
              Some n \<Rightarrow> if n \<le> 2 ^ 63 then Some (of_int (- int n)) else None
            | None \<Rightarrow> None)
      else map_option of_nat (parse_uint 10 (2 ^ 63) s))"

section \<open>Arguments\<close>

datatype parse_fail = PNone | PPanic

definition or_none :: "'a option \<Rightarrow> parse_fail + 'a" where
  "or_none x = (case x of None \<Rightarrow> Inl PNone | Some a \<Rightarrow> Inr a)"

fun enc_arg :: "arg_value \<Rightarrow> string list" where
  "enc_arg (VImm v) = [''i'' @ show_nat (unat v)]"
| "enc_arg (VRes (Seed s)) = [''s'' @ show_i64 s]"
| "enc_arg (VRes (Produced call_idx slot)) = [''r'' @ show_nat (unat call_idx) @ ''.'' @ show_nat (unat slot)]"
| "enc_arg (VBytes b) = [''b'' @ (if b = [] then ''-'' else concat (map hex2 b))]"
| "enc_arg (VPtr inner) = ''p'' # enc_arg inner"
| "enc_arg (VStruct vals) = (''t'' @ show_nat (length vals)) # concat (map enc_arg vals)"

definition split_once :: "char \<Rightarrow> string \<Rightarrow> (string \<times> string) option" where
  "split_once d s = (if d \<in> set s then Some (takeWhile (\<lambda>c. c \<noteq> d) s, tl (dropWhile (\<lambda>c. c \<noteq> d) s)) else None)"

fun hex_pairs :: "string \<Rightarrow> u8 list option" where
  "hex_pairs [] = Some []"
| "hex_pairs [c] = None"
| "hex_pairs (c # d # cs) =
     (case parse_uint 16 256 [c, d] of
        None \<Rightarrow> None
      | Some n \<Rightarrow> map_option (\<lambda>bs. of_nat n # bs) (hex_pairs cs))"

fun dec_many :: "(string list \<Rightarrow> parse_fail + 'a \<times> string list) \<Rightarrow> nat \<Rightarrow> string list \<Rightarrow> parse_fail + 'a list \<times> string list" where
  "dec_many dec 0 it = Inr ([], it)"
| "dec_many dec (Suc n) it =
     bindE (dec it) (\<lambda>(v, it). bindE (dec_many dec n it) (\<lambda>(vs, it). Inr (v # vs, it)))"

text \<open>\<open>split_at(1)\<close> panics when byte 1 continues the first character.\<close>

definition splits_char :: "string \<Rightarrow> bool" where
  "splits_char tok \<longleftrightarrow> length tok > 1 \<and> 0x80 \<le> char_byte (tok ! 1) \<and> char_byte (tok ! 1) < 0xC0"

text \<open>The recursion of \<open>dec_arg\<close> is as deep as there are tokens; \<open>dec_arg_upto\<close> bounds its depth.\<close>

fun dec_arg_upto :: "nat \<Rightarrow> string list \<Rightarrow> parse_fail + arg_value \<times> string list" where
  "dec_arg_upto 0 it = Inl PNone"
| "dec_arg_upto (Suc k) it =
     (case it of
        [] \<Rightarrow> Inl PNone
      | tok # it \<Rightarrow>
          if splits_char tok then Inl PPanic
          else let tag = hd tok; rest = tl tok in
            if tag = CHR ''i'' then bindE (or_none (parse_uint 10 (2 ^ 64) rest)) (\<lambda>n. Inr (VImm (of_nat n), it))
            else if tag = CHR ''s'' then bindE (or_none (parse_i64 rest)) (\<lambda>w. Inr (VRes (Seed w), it))
            else if tag = CHR ''r'' then
              bindE (or_none (split_once CHR ''.'' rest)) (\<lambda>(c, slot).
                bindE (or_none (parse_uint 10 (2 ^ 16) c)) (\<lambda>ci.
                  bindE (or_none (parse_uint 10 (2 ^ 8) slot)) (\<lambda>sl. Inr (VRes (Produced (of_nat ci) (of_nat sl)), it))))
            else if tag = CHR ''b'' then
              (if rest = ''-'' then Inr (VBytes [], it)
               else bindE (or_none (hex_pairs rest)) (\<lambda>bs. Inr (VBytes bs, it)))
            else if tag = CHR ''p'' then bindE (dec_arg_upto k it) (\<lambda>(v, it). Inr (VPtr v, it))
            else if tag = CHR ''t'' then
              bindE (or_none (parse_uint 10 (2 ^ 64) rest)) (\<lambda>n.
                bindE (dec_many (dec_arg_upto k) n it) (\<lambda>(vs, it). Inr (VStruct vs, it)))
            else Inl PNone)"

definition dec_arg :: "string list \<Rightarrow> parse_fail + arg_value \<times> string list" where
  "dec_arg it = dec_arg_upto (Suc (length it)) it"

section \<open>Programs\<close>

definition call_tokens :: "typed_call \<Rightarrow> string list" where
  "call_tokens c = [''CALL'', sd_name (tc_desc c), show_nat (length (tc_args c))] @ concat (map enc_arg (tc_args c))"

definition serialize_prog :: "prog \<Rightarrow> string" where
  "serialize_prog p = join_words ([''FSCORPUS1'', show_nat (length p)] @ concat (map call_tokens p))"

definition next_token :: "string list \<Rightarrow> parse_fail + string \<times> string list" where
  "next_token it = (case it of [] \<Rightarrow> Inl PNone | t # it \<Rightarrow> Inr (t, it))"

definition dec_call :: "string list \<Rightarrow> parse_fail + typed_call \<times> string list" where
  "dec_call it =
     bindE (next_token it) (\<lambda>(t, it).
       if t \<noteq> ''CALL'' then Inl PNone
       else bindE (next_token it) (\<lambda>(name, it).
         bindE (or_none (find (\<lambda>d. sd_name d = name) SYSCALLS)) (\<lambda>desc.
           bindE (next_token it) (\<lambda>(t, it).
             bindE (or_none (parse_uint 10 (2 ^ 64) t)) (\<lambda>nargs.
               bindE (dec_many dec_arg nargs it) (\<lambda>(args, it). Inr (\<lparr>tc_desc = desc, tc_args = args\<rparr>, it)))))))"

definition deserialize_prog :: "string \<Rightarrow> parse_fail + prog" where
  "deserialize_prog s =
     bindE (next_token (split_whitespace s)) (\<lambda>(t, it).
       if t \<noteq> ''FSCORPUS1'' then Inl PNone
       else bindE (next_token it) (\<lambda>(t, it).
         bindE (or_none (parse_uint 10 (2 ^ 64) t)) (\<lambda>ncalls.
           bindE (dec_many dec_call ncalls it) (\<lambda>(calls, it).
             if is_well_formed calls then Inr calls else Inl PNone))))"

definition fnv1a :: "string \<Rightarrow> u32" where
  "fnv1a s = foldl (\<lambda>h c. (h XOR of_nat (char_byte c)) * 0x01000193) 0x811c9dc5 s"

end
