(* ===== verification/Corpus_Results.thy ===== *)
theory Corpus_Results
  imports Corpus
begin

text \<open>
  What corpus persistence promises: numbers, arguments and programs read back from their text form, and
  nothing ill formed is read.  \<open>lens_ok\<close> says that the lists of an argument have fewer than 2^64 values,
  as every list in memory has.
\<close>

section \<open>Digits\<close>

lemma char_byte_char_of [simp]: "n < 256 \<Longrightarrow> char_byte (char_of n) = n"
  by (simp add: char_byte_def)

lemma char_byte_hex_digit: "d < 16 \<Longrightarrow> char_byte (hex_digit d) = (if d < 10 then 48 + d else 87 + d)"
  by (simp add: hex_digit_def)

lemma digit_val_hex_digit [simp]:
  "d < 10 \<Longrightarrow> digit_val 10 (hex_digit d) = Some d" "d < 16 \<Longrightarrow> digit_val 16 (hex_digit d) = Some d"
  by (auto simp: digit_val_def char_byte_hex_digit Let_def)

lemma digits_val_append:
  "digits_val r acc (xs @ ys) = (case digits_val r acc xs of None \<Rightarrow> None | Some n \<Rightarrow> digits_val r n ys)"
  by (induction xs arbitrary: acc) (auto split: option.split)

lemma digits_val_show_nat: "digits_val 10 0 (show_nat n) = Some n"
proof (induction n rule: less_induct)
  case (less n)
  then show ?case by (subst show_nat.simps) (auto simp: digits_val_append)
qed

definition digit_char :: "char \<Rightarrow> bool" where
  "digit_char c \<longleftrightarrow> 48 \<le> char_byte c \<and> char_byte c \<le> 57"

lemma show_nat_chars: "show_nat n \<noteq> [] \<and> (\<forall>c \<in> set (show_nat n). digit_char c)"
proof (induction n rule: less_induct)
  case (less n)
  have "digit_char (hex_digit d)" if "d < 10" for d using that by (simp add: digit_char_def char_byte_hex_digit)
  then show ?case using less [of "n div 10"] by (subst (1 2) show_nat.simps) auto
qed

lemma char_byte_signs [simp]: "char_byte CHR ''+'' = 43" "char_byte CHR ''-'' = 45" "char_byte CHR ''.'' = 46"
  by (simp_all add: char_byte_def)

lemma digit_char_ne: "digit_char c \<Longrightarrow> c \<noteq> CHR ''+'' \<and> c \<noteq> CHR ''-'' \<and> c \<noteq> CHR ''.''"
  by (auto simp: digit_char_def)

lemma show_nat_hd: "digit_char (hd (show_nat n))"
  using show_nat_chars [of n] by (cases "show_nat n") auto

lemma parse_show_nat: "n < bound \<Longrightarrow> parse_uint 10 bound (show_nat n) = Some n"
  using show_nat_chars [of n] digit_char_ne [OF show_nat_hd, of n]
  by (simp add: parse_uint_def parse_digits_def digits_val_show_nat)

lemma parse_show_i64: "parse_i64 (show_i64 w) = Some w"
proof (cases "sint w < 0")
  case True
  have "- (2 ^ 63) \<le> sint w" using sint_greater_eq [of w] by simp
  then have "nat (- sint w) \<le> 2 ^ 63" using True by simp
  then show ?thesis
    using True show_nat_chars [of "nat (- sint w)"]
    by (simp add: parse_i64_def show_i64_def parse_digits_def digits_val_show_nat)
next
  case False
  have "sint w < 2 ^ 63" using sint_less [of w] by simp
  then have b: "nat (sint w) < 2 ^ 63" using False by simp
  have "of_nat (nat (sint w)) = w" using False by (simp add: of_nat_nat)
  then show ?thesis
    using False b show_nat_chars [of "nat (sint w)"] digit_char_ne [OF show_nat_hd, of "nat (sint w)"]
    by (simp add: parse_i64_def show_i64_def parse_show_nat)
qed

lemma parse_hex2: "parse_uint 16 256 (hex2 b) = Some (unat b)"
proof -
  have lt: "unat b < 256" using unsigned_less [of b] by simp
  then have d: "unat b div 16 < 16" "unat b mod 16 < 16" by auto
  have "hex_digit (unat b div 16) \<noteq> CHR ''+''" using char_byte_hex_digit [OF d(1)] char_byte_signs(1) by (auto split: if_splits)
  then show ?thesis using d lt by (simp add: parse_uint_def parse_digits_def hex2_def)
qed

lemma hex_pairs_concat: "hex_pairs (concat (map hex2 bs)) = Some bs"
proof (induction bs)
  case (Cons b bs)
  have "parse_uint 16 256 [hex_digit (unat b div 16), hex_digit (unat b mod 16)] = Some (unat b)"
    using parse_hex2 [of b] by (simp add: hex2_def)
  then show ?case using Cons by (simp add: hex2_def)
qed simp

lemma split_once_ref: "split_once CHR ''.'' (show_nat a @ ''.'' @ s) = Some (show_nat a, s)"
proof -
  have "\<forall>c \<in> set (show_nat a). c \<noteq> CHR ''.''" using show_nat_chars [of a] digit_char_ne by blast
  then show ?thesis by (simp add: split_once_def takeWhile_append2 dropWhile_append2)
qed

section \<open>Tokens\<close>

definition plain_char :: "char \<Rightarrow> bool" where
  "plain_char c \<longleftrightarrow> 32 < char_byte c \<and> char_byte c < 128"

definition plain_token :: "string \<Rightarrow> bool" where
  "plain_token t \<longleftrightarrow> t \<noteq> [] \<and> list_all plain_char t"

lemma ws_len_plain: "plain_char c \<Longrightarrow> ws_len (c # cs) = 0"
  by (auto simp: ws_len_def plain_char_def Let_def wide_spaces_def list_ex_iff)

lemma split_ws_plain: "list_all plain_char t \<Longrightarrow> split_ws tok (t @ s) = split_ws (tok @ t) s"
  by (induction t arbitrary: tok) (simp_all add: ws_len_plain)

lemma split_join: "list_all plain_token ts \<Longrightarrow> split_whitespace (join_words ts) = ts"
proof (induction ts rule: join_words.induct)
  case (2 t)
  then show ?case using split_ws_plain [of t "[]" "[]"] by (simp add: split_whitespace_def plain_token_def emit_token_def)
next
  case (3 t u ts)
  have sp: "ws_len (CHR '' '' # s) = 1" for s by (simp add: ws_len_def char_byte_def Let_def)
  have "split_ws [] (t @ CHR '' '' # join_words (u # ts)) = t # split_ws [] (join_words (u # ts))"
    using 3(2) by (simp add: plain_token_def split_ws_plain sp emit_token_def)
  then show ?case using 3 by (simp add: split_whitespace_def)
qed (simp add: split_whitespace_def emit_token_def)

lemma digits_plain: "list_all plain_char (show_nat n)"
  using show_nat_chars [of n] by (auto simp: list_all_iff digit_char_def plain_char_def)

lemma letters_plain [simp]:
  "plain_char CHR ''i''" "plain_char CHR ''s''" "plain_char CHR ''r''" "plain_char CHR ''b''" "plain_char CHR ''p''"
  "plain_char CHR ''t''" "plain_char CHR ''-''" "plain_char CHR ''.''"
  by (simp_all add: plain_char_def char_byte_def)

lemma hex2_plain: "list_all plain_char (hex2 b)"
proof -
  have "unat b < 256" using unsigned_less [of b] by simp
  then have "unat b div 16 < 16" "unat b mod 16 < 16" by auto
  then show ?thesis by (auto simp: hex2_def plain_char_def char_byte_hex_digit)
qed

lemma enc_arg_plain: "list_all plain_token (enc_arg v)"
proof (induction v rule: enc_arg.induct)
  case (4 b)
  then show ?case using hex2_plain by (auto simp: plain_token_def list_all_iff)
next
  case (6 vals)
  then show ?case using digits_plain by (auto simp: plain_token_def list_all_iff)
qed (auto simp: plain_token_def digits_plain show_i64_def)

lemma plain_no_panic: "plain_token t \<Longrightarrow> \<not> splits_char t"
  by (auto simp: plain_token_def splits_char_def plain_char_def list_all_length)

section \<open>Arguments\<close>

text \<open>Vector lengths are \<open>usize\<close> values.\<close>

fun lens_ok :: "arg_value \<Rightarrow> bool" where
  "lens_ok (VStruct vals) \<longleftrightarrow> length vals < 2 ^ 64 \<and> list_all lens_ok vals"
| "lens_ok (VPtr v) \<longleftrightarrow> lens_ok v"
| "lens_ok _ \<longleftrightarrow> True"

lemma dec_many_enc:
  assumes "\<And>x it. x \<in> set xs \<Longrightarrow> dec (enc x @ it) = Inr (x, it)"
  shows "dec_many dec (length xs) (concat (map enc xs) @ it) = Inr (xs, it)"
  using assms by (induction xs) auto

lemma enc_arg_tokens: "0 < length (enc_arg v)"
  by (cases v rule: enc_arg.cases) auto

lemma dec_enc_upto: "lens_ok v \<Longrightarrow> length (enc_arg v) \<le> k \<Longrightarrow> dec_arg_upto k (enc_arg v @ it) = Inr (v, it)"
proof (induction v arbitrary: k it rule: enc_arg.induct)
  case (1 v)
  then obtain k' where k: "k = Suc k'" by (cases k) auto
  have "\<not> splits_char (''i'' @ show_nat (unat v))" using enc_arg_plain [of "VImm v"] plain_no_panic by simp
  moreover have "unat v < 2 ^ 64" using unsigned_less [of v] by simp
  ultimately show ?case by (simp add: k or_none_def parse_show_nat)
next
  case (2 s)
  then obtain k' where k: "k = Suc k'" by (cases k) auto
  have "\<not> splits_char (''s'' @ show_i64 s)" using enc_arg_plain [of "VRes (Seed s)"] plain_no_panic by simp
  then show ?case by (simp add: k or_none_def parse_show_i64)
next
  case (3 c s)
  then obtain k' where k: "k = Suc k'" by (cases k) auto
  have "\<not> splits_char (''r'' @ show_nat (unat c) @ ''.'' @ show_nat (unat s))"
    using enc_arg_plain [of "VRes (Produced c s)"] plain_no_panic by simp
  moreover have "unat c < 2 ^ 16" "unat s < 2 ^ 8" using unsigned_less [of c] unsigned_less [of s] by simp_all
  ultimately show ?case using split_once_ref [of "unat c" "show_nat (unat s)"] by (simp add: k or_none_def parse_show_nat)
next
  case (4 b)
  then obtain k' where k: "k = Suc k'" by (cases k) auto
  have "\<not> splits_char (''b'' @ (if b = [] then ''-'' else concat (map hex2 b)))"
    using enc_arg_plain [of "VBytes b"] plain_no_panic by simp
  moreover have "concat (map hex2 b) \<noteq> ''-''" by (cases b) (auto simp: hex2_def)
  ultimately show ?case by (auto simp: k or_none_def hex_pairs_concat)
next
  case (5 inner)
  then obtain k' where k: "k = Suc k'" by (cases k) auto
  have "\<not> splits_char ''p''" by (simp add: splits_char_def)
  then show ?case using 5 by (simp add: k)
next
  case (6 vals)
  then obtain k' where k: "k = Suc k'" by (cases k) auto
  have sp: "\<not> splits_char (''t'' @ show_nat (length vals))" using enc_arg_plain [of "VStruct vals"] plain_no_panic by simp
  have "length (enc_arg x) \<le> k'" if "x \<in> set vals" for x
    using 6(3) that member_le_sum_list [of "length (enc_arg x)" "map (length \<circ> enc_arg) vals"]
    by (fastforce simp: k length_concat o_def)
  then have "dec_arg_upto k' (enc_arg x @ it) = Inr (x, it)" if "x \<in> set vals" for x it
    using 6(1,2) that by (auto simp: list_all_iff)
  from dec_many_enc [of vals "dec_arg_upto k'" enc_arg, OF this] show ?case
    using sp 6(2) by (simp add: k or_none_def parse_show_nat)
qed

lemma dec_enc_arg: "lens_ok v \<Longrightarrow> dec_arg (enc_arg v @ it) = Inr (v, it)"
  unfolding dec_arg_def by (rule dec_enc_upto) simp_all

text \<open>The bound on the depth is never met: more of it changes nothing.\<close>

definition consumes :: "(string list \<Rightarrow> parse_fail + 'a \<times> string list) \<Rightarrow> bool" where
  "consumes dec \<longleftrightarrow> (\<forall>it v it'. dec it = Inr (v, it') \<longrightarrow> length it' \<le> length it)"

lemma dec_many_consumes: "consumes dec \<Longrightarrow> consumes (dec_many dec n)"
proof (induction n)
  case (Suc n)
  then have "length it' \<le> length it" if "dec_many dec (Suc n) it = Inr (v, it')" for it v it'
    using that by (fastforce simp: consumes_def bindE_Inr_conv)
  then show ?case by (simp add: consumes_def)
qed (simp add: consumes_def)

lemma dec_arg_consumes: "consumes (dec_arg_upto k)"
proof (induction k)
  case (Suc k)
  have "length it' \<le> length it" if "dec_arg_upto (Suc k) it = Inr (v, it')" for it v it'
    using that Suc dec_many_consumes [OF Suc]
    by (cases it) (fastforce simp: consumes_def Let_def bindE_Inr_conv split: if_splits)+
  then show ?case by (simp add: consumes_def)
qed (simp add: consumes_def)

lemma dec_many_agree:
  assumes "\<And>it. length it < m \<Longrightarrow> dec it = dec' it" "consumes dec"
  shows "length it < m \<Longrightarrow> dec_many dec n it = dec_many dec' n it"
proof (induction n arbitrary: it)
  case (Suc n)
  show ?case
  proof (cases "dec it")
    case (Inr x)
    obtain v it' where x: "x = (v, it')" by (cases x)
    have "length it' < m" using assms(2) Inr x Suc.prems unfolding consumes_def by fastforce
    then show ?thesis using Inr x Suc.IH assms(1) [OF Suc.prems] by simp
  qed (use assms(1) [OF Suc.prems] in simp)
qed simp

lemma dec_arg_upto_enough: "length it < k \<Longrightarrow> dec_arg_upto k it = dec_arg it"
proof -
  have "length it < k \<Longrightarrow> length it < k' \<Longrightarrow> dec_arg_upto k it = dec_arg_upto k' it" for k k' it
  proof (induction k arbitrary: k' it)
    case (Suc k)
    obtain j where j: "k' = Suc j" using Suc.prems(2) by (cases k') simp_all
    show ?case
    proof (cases it)
      case (Cons tok ts)
      have lt: "length ts < k" "length ts < j" using Suc.prems Cons j by simp_all
      have many: "dec_many (dec_arg_upto k) n ts = dec_many (dec_arg_upto j) n ts" for n
      proof (rule dec_many_agree [of "min k j", OF _ dec_arg_consumes])
        show "dec_arg_upto k it = dec_arg_upto j it" if "length it < min k j" for it using Suc.IH [of it j] that by simp
      qed (simp add: lt)
      show ?thesis by (simp only: dec_arg_upto.simps j Cons list.case Suc.IH [OF lt] many)
    qed (simp add: j)
  qed simp
  from this [of it k "Suc (length it)"] show "length it < k \<Longrightarrow> dec_arg_upto k it = dec_arg it"
    unfolding dec_arg_def by blast
qed

section \<open>Programs\<close>

definition name_chars :: string where
  "name_chars = ''abcdefghijklmnopqrstuvwxyzABCDEFGHIJKLMNOPQRSTUVWXYZ0123456789_$''"

lemma names_alphabet: "list_all (\<lambda>d. sd_name d \<noteq> [] \<and> list_all (List.member name_chars) (sd_name d)) SYSCALLS"
  by code_simp

lemma name_chars_plain: "list_all plain_char name_chars"
  by (simp add: name_chars_def plain_char_def char_byte_def)

lemma names_plain: "list_all (\<lambda>d. plain_token (sd_name d)) SYSCALLS"
  using names_alphabet name_chars_plain by (fastforce simp: list_all_iff plain_token_def)

lemma keywords_plain: "plain_token ''FSCORPUS1''" "plain_token ''CALL''"
  by (simp_all add: plain_token_def plain_char_def char_byte_def)

lemma dec_call_enc:
  assumes "tc_desc c \<in> set SYSCALLS" "length (tc_args c) < 2 ^ 64" "list_all lens_ok (tc_args c)"
  shows "dec_call (call_tokens c @ it) = Inr (c, it)"
proof -
  have "find (\<lambda>d. sd_name d = sd_name (tc_desc c)) SYSCALLS = Some (tc_desc c)"
  proof -
    have "find (\<lambda>d. sd_name d = sd_name e) ds = Some e" if "distinct (map sd_name ds)" "e \<in> set ds" for e ds
      using that by (induction ds) auto
    then show ?thesis using SYSCALLS_distinct assms(1) by blast
  qed
  moreover have "dec_many dec_arg (length (tc_args c)) (concat (map enc_arg (tc_args c)) @ it) = Inr (tc_args c, it)"
    by (rule dec_many_enc) (use assms(3) dec_enc_arg in \<open>auto simp: list_all_iff\<close>)
  ultimately show ?thesis
    using assms(2) by (simp add: dec_call_def call_tokens_def next_token_def or_none_def parse_show_nat)
qed

lemma serialized_plain:
  assumes "list_all (\<lambda>c. tc_desc c \<in> set SYSCALLS) p"
  shows "list_all plain_token ([''FSCORPUS1'', show_nat (length p)] @ concat (map call_tokens p))"
proof -
  have num: "plain_token (show_nat n)" for n using digits_plain [of n] show_nat_chars [of n] by (simp add: plain_token_def)
  have "list_all plain_token (call_tokens c)" if "c \<in> set p" for c
    using that assms names_plain num keywords_plain enc_arg_plain by (fastforce simp: call_tokens_def list_all_iff)
  then show ?thesis using num keywords_plain by (auto simp: list_all_iff)
qed

lemma deserialize_serialize:
  assumes "list_all (\<lambda>c. tc_desc c \<in> set SYSCALLS \<and> length (tc_args c) < 2 ^ 64 \<and> list_all lens_ok (tc_args c)) p"
    "length p < 2 ^ 64"
  shows "deserialize_prog (serialize_prog p) = (if is_well_formed p then Inr p else Inl PNone)"
proof -
  have "dec_many dec_call (length p) (concat (map call_tokens p) @ []) = Inr (p, [])"
    by (rule dec_many_enc) (use assms(1) dec_call_enc in \<open>auto simp: list_all_iff\<close>)
  moreover have "split_whitespace (serialize_prog p) = [''FSCORPUS1'', show_nat (length p)] @ concat (map call_tokens p)"
    unfolding serialize_prog_def by (intro split_join serialized_plain) (use assms(1) in \<open>auto simp: list_all_iff\<close>)
  ultimately show ?thesis
    using assms(2) by (simp add: deserialize_prog_def next_token_def or_none_def parse_show_nat)
qed

lemma dec_call_table: "dec_call it = Inr (c, it') \<Longrightarrow> tc_desc c \<in> set SYSCALLS"
  by (auto simp: dec_call_def bindE_Inr_conv next_token_def or_none_def find_Some_iff split: list.splits option.splits if_splits)

lemma dec_many_all:
  assumes "\<And>it v it'. dec it = Inr (v, it') \<Longrightarrow> P v" "dec_many dec n it = Inr (vs, it')"
  shows "list_all P vs"
  using assms(2)
proof (induction n arbitrary: it vs)
  case (Suc n)
  then show ?case using assms(1) by (fastforce simp: bindE_Inr_conv)
qed simp

lemma deserialize_sound:
  "deserialize_prog s = Inr p \<Longrightarrow> is_well_formed p \<and> list_all (\<lambda>c. tc_desc c \<in> set SYSCALLS) p"
  by (auto simp: deserialize_prog_def bindE_Inr_conv split: if_splits intro: dec_many_all [OF dec_call_table])

text \<open>
  C38.  Corpus files round trip: reading the text of a program whose calls are described in the table
  gives the program back exactly when it is well formed, and otherwise nothing; and whatever text is
  read, a program that comes out is well formed and has described calls only.\<close>

theorem corpus_roundtrip:
  assumes "list_all (\<lambda>c. tc_desc c \<in> set SYSCALLS \<and> length (tc_args c) < 2 ^ 64 \<and> list_all lens_ok (tc_args c)) p"
    "length p < 2 ^ 64"
  shows "deserialize_prog (serialize_prog p) = (if is_well_formed p then Inr p else Inl PNone) \<and>
    (deserialize_prog s = Inr q \<longrightarrow> is_well_formed q \<and> list_all (\<lambda>c. tc_desc c \<in> set SYSCALLS) q)"
  using deserialize_serialize [OF assms] deserialize_sound by blast

definition saved_prog :: prog where
  "saved_prog =
     [\<lparr>tc_desc = sys_pipe2, tc_args = [VPtr (VBytes [0, 255]), VImm 0]\<rparr>,
      \<lparr>tc_desc = sys_write, tc_args = [VRes (Produced 0 1), VPtr (VBytes []), VImm 2]\<rparr>]"

theorem corpus_roundtrip_witness:
  "deserialize_prog (serialize_prog saved_prog) = Inr saved_prog \<and>
   serialize_prog saved_prog = ''FSCORPUS1 2 CALL pipe2 2 p b00ff i0 CALL write 3 r0.1 p b- i2''"
proof -
  have "serialize_prog saved_prog = ''FSCORPUS1 2 CALL pipe2 2 p b00ff i0 CALL write 3 r0.1 p b- i2''" by code_simp
  moreover have "is_well_formed saved_prog" by code_simp
  moreover have "sys_pipe2 \<in> set SYSCALLS" "sys_write \<in> set SYSCALLS" by (simp_all add: SYSCALLS_def)
  ultimately show ?thesis using corpus_roundtrip [of saved_prog] by (simp add: saved_prog_def)
qed

end
