(* ===== verification/Campaign.thy ===== *)
theory Campaign
  imports Corpus Lower Machines Cov
begin

text \<open>
  The execution of one case in \<open>crates/fs-cli/src/main.rs\<close> and what is done with its outcome: injection and
  the step loop over either machine (\<open>GuestBus\<close>), the crash signature of the console output, the
  minimisation of a crashing program, the replay of seeds, and the reset of a copy-on-write case.
  The \<open>reset\<close> closure is an argument.  A run that never returns is \<open>None\<close>.  The report texts and files are
  left out.
\<close>

section \<open>Console text\<close>

text \<open>
  \<open>from_utf8_lossy\<close>: a sequence of bytes that starts no character is replaced by U+FFFD.  \<open>utf8_char\<close> says
  whether a text starts with a character, and how many bytes were inspected.
\<close>

definition utf8_char :: "nat list \<Rightarrow> bool \<times> nat" where
  "utf8_char bs =
     (case bs of
        [] \<Rightarrow> (True, 0)
      | b # r \<Rightarrow>
          (let g = (\<lambda>i. if i < length r then r ! i else 0); cont = (\<lambda>i. 0x80 \<le> g i \<and> g i < 0xC0) in
           if b < 0x80 then (True, 1)
           else if 0xC2 \<le> b \<and> b \<le> 0xDF then (if cont 0 then (True, 2) else (False, 1))
           else if 0xE0 \<le> b \<and> b \<le> 0xEF then
             (let lo = (if b = 0xE0 then 0xA0 else 0x80); hi = (if b = 0xED then 0x9F else 0xBF) in
              if \<not> (lo \<le> g 0 \<and> g 0 \<le> hi) then (False, 1)
              else if \<not> cont 1 then (False, 2) else (True, 3))
           else if 0xF0 \<le> b \<and> b \<le> 0xF4 then
             (let lo = (if b = 0xF0 then 0x90 else 0x80); hi = (if b = 0xF4 then 0x8F else 0xBF) in
              if \<not> (lo \<le> g 0 \<and> g 0 \<le> hi) then (False, 1)
              else if \<not> cont 1 then (False, 2)
              else if \<not> cont 2 then (False, 3) else (True, 4))
           else (False, 1)))"

lemma utf8_char_consumes: "utf8_char (b # bs) = (v, n) \<Longrightarrow> 0 < n"
  by (auto simp: utf8_char_def Let_def split: if_splits)

function utf8_lossy :: "nat list \<Rightarrow> nat list" where
  "utf8_lossy [] = []"
| "utf8_lossy (b # bs) =
     (case utf8_char (b # bs) of (valid, n) \<Rightarrow>
        (if valid then take n (b # bs) else [0xEF, 0xBF, 0xBD]) @ utf8_lossy (drop n (b # bs)))"
  by pat_completeness auto
termination
  by (relation "measure length") (auto dest: utf8_char_consumes [OF sym])

definition from_utf8_lossy :: "u8 list \<Rightarrow> string" where
  "from_utf8_lossy out = map char_of (utf8_lossy (map unat out))"

fun find_sub :: "string \<Rightarrow> string \<Rightarrow> nat option" where
  "find_sub pat s =
     (if take (length pat) s = pat then Some 0
      else case s of [] \<Rightarrow> None | c # cs \<Rightarrow> map_option Suc (find_sub pat cs))"

declare find_sub.simps [simp del]

definition has_sub :: "string \<Rightarrow> string \<Rightarrow> bool" where
  "has_sub s pat \<longleftrightarrow> find_sub pat s \<noteq> None"

definition is_hexdigit :: "char \<Rightarrow> bool" where
  "is_hexdigit c \<longleftrightarrow> digit_val 16 c \<noteq> None"

definition newline :: char where
  "newline = char_of (10 :: nat)"

definition strip_cr :: "string \<Rightarrow> string" where
  "strip_cr l = (if l \<noteq> [] \<and> List.last l = char_of (13 :: nat) then butlast l else l)"

function text_lines :: "string \<Rightarrow> string list" where
  "text_lines s =
     (if s = [] then []
      else let l = takeWhile (\<lambda>c. c \<noteq> newline) s; rest = dropWhile (\<lambda>c. c \<noteq> newline) s in
        if rest = [] then [l] else strip_cr l # text_lines (tl rest))"
  by pat_completeness auto
termination
proof (relation "measure length")
  fix s l rest
  assume rest: "rest = dropWhile (\<lambda>c. c \<noteq> newline) s" "rest \<noteq> []"
  then have "length rest \<le> length s" "0 < length rest" by (simp_all add: length_dropWhile_le)
  then show "(tl rest, s) \<in> measure length" unfolding in_measure length_tl by linarith
qed simp

function all_ws :: "string \<Rightarrow> bool" where
  "all_ws s = (if s = [] then True else if ws_len s = 0 then False else all_ws (drop (ws_len s) s))"
  by pat_completeness auto
termination by (relation "measure length") auto

function trim_start :: "string \<Rightarrow> string" where
  "trim_start s = (if s = [] \<or> ws_len s = 0 then s else trim_start (drop (ws_len s) s))"
  by pat_completeness auto
termination by (relation "measure length") auto

declare text_lines.simps [simp del] all_ws.simps [simp del] trim_start.simps [simp del]

definition trim_end :: "string \<Rightarrow> string" where
  "trim_end s = (case find (\<lambda>n. all_ws (drop n s)) [0 ..< Suc (length s)] of Some n \<Rightarrow> take n s | None \<Rightarrow> s)"

definition trim_text :: "string \<Rightarrow> string" where
  "trim_text s = trim_end (trim_start s)"

section \<open>Crash signatures\<close>

definition parse_epc :: "string \<Rightarrow> u32 option" where
  "parse_epc s =
     (case find_sub ''epc : '' s of
        None \<Rightarrow> None
      | Some i \<Rightarrow> map_option of_nat (parse_uint 16 (2 ^ 32) (takeWhile is_hexdigit (drop (i + 6) s))))"

definition alloc_site :: "string \<Rightarrow> string" where
  "alloc_site s =
     (case find_sub ''Allocated in '' s of
        None \<Rightarrow> []
      | Some i \<Rightarrow> takeWhile (\<lambda>c. c \<noteq> CHR ''+'' \<and> c \<noteq> CHR '' '' \<and> c \<noteq> newline) (drop (i + length ''Allocated in '') s))"

definition report_line :: "string \<Rightarrow> string" where
  "report_line s =
     (case find (\<lambda>l. has_sub l ''Redzone'' \<or> has_sub l ''Poison'' \<or> has_sub l ''Object already free'' \<or>
          has_sub l ''Freepointer'' \<or> has_sub l ''Padding overwritten'' \<or> take 3 l = ''BUG'')
        (map trim_text (text_lines s)) of
        Some l \<Rightarrow> l
      | None \<Rightarrow> [])"

definition report_line_sig :: "string \<Rightarrow> u32" where
  "report_line_sig s =
     (if alloc_site s \<noteq> [] then fnv1a (alloc_site s)
      else fnv1a (join_words (filter
        (\<lambda>t. \<not> has_sub t ''0x'' \<and> \<not> (length t \<ge> 6 \<and> list_all is_hexdigit t)) (split_whitespace (report_line s)))))"

definition hard_fault :: "string \<Rightarrow> bool" where
  "hard_fault s \<longleftrightarrow> has_sub s ''Unable to handle kernel'' \<or> has_sub s ''KASAN:'' \<or> has_sub s ''kernel BUG at'' \<or>
     (has_sub s ''Oops'' \<and> \<not> has_sub s ''Attempted to kill init'')"

definition slub_report :: "string \<Rightarrow> bool" where
  "slub_report s \<longleftrightarrow> has_sub s ''Redzone overwritten'' \<or> has_sub s ''Poison overwritten'' \<or>
     has_sub s ''Object already free'' \<or> has_sub s ''Freepointer corrupt'' \<or> has_sub s ''Padding overwritten''"

definition kernel_crash_sig :: "u8 list \<Rightarrow> u32 option" where
  "kernel_crash_sig out =
     (let s = from_utf8_lossy out in
      if hard_fault s then Some (case parse_epc s of Some epc \<Rightarrow> epc | None \<Rightarrow> report_line_sig s)
      else if slub_report s then Some (report_line_sig s)
      else None)"

section \<open>One case\<close>

definition write_words :: "'s bus \<Rightarrow> u32 list \<Rightarrow> u32 list \<Rightarrow> 's \<Rightarrow> 's" where
  "write_words B pas words m = foldl (\<lambda>m (pa, w). snd (bus_store B m pa 4 w)) m (zip pas words)"

definition padded_word :: "u8 list \<Rightarrow> nat \<Rightarrow> u32" where
  "padded_word bytes i =
     u32_from_le (map (\<lambda>b. if i * 4 + b < length bytes then bytes ! (i * 4 + b) else 0) [0, 1, 2, 3])"

definition write_scratch_bytes :: "'s bus \<Rightarrow> u32 list \<Rightarrow> u8 list \<Rightarrow> 's \<Rightarrow> 's" where
  "write_scratch_bytes B pas bytes m =
     foldl (\<lambda>m (i, pa). snd (bus_store B m pa 4 (padded_word bytes i))) m (enumerate 0 pas)"

partial_function (option) run_case_bus ::
  "'r machine bus \<Rightarrow> u64 \<Rightarrow> 'r machine hart \<Rightarrow> cov_bitmap \<Rightarrow> (stop \<times> 'r machine hart \<times> cov_bitmap) option" where
  "run_case_bus B deadline h cov =
     (if insns_retired (fst h) < deadline then
        (case drive B h of (ex, h1) \<Rightarrow>
          (case ex of
             SContinue \<Rightarrow>
               (let prev = pc (fst h); cur = pc (fst h1) in
                run_case_bus B deadline h1
                  (if cur \<noteq> prev + 4 \<and> cur \<noteq> prev + 2 then bitmap_record_edge prev cur cov else cov))
           | SHalt code \<Rightarrow> Some (Halted code, h1, cov)
           | SHypercall code \<Rightarrow> Some (Hypercalled code, h1, cov)))
      else Some (Budget, h, cov))"

text \<open>The arguments of a campaign every case is run with.\<close>

record case_args =
  ca_scratch_va :: u32
  ca_prog_pas :: "u32 list"
  ca_scratch_pas :: "u32 list"
  ca_case_insns :: u64
  ca_base_uart :: nat

definition injected :: "'r machine bus \<Rightarrow> case_args \<Rightarrow> prog \<Rightarrow> 'r machine hart \<Rightarrow> 'r machine hart" where
  "injected B ca p h =
     (let l = lower p (ca_scratch_va ca) in
      (fst h, write_scratch_bytes B (ca_scratch_pas ca) (lo_scratch l) (write_words B (ca_prog_pas ca) (to_wire l) (snd h))))"

definition inject_and_run ::
  "'r machine bus \<Rightarrow> ('r machine hart \<Rightarrow> 'r machine hart) \<Rightarrow> case_args \<Rightarrow> prog \<Rightarrow> 'r machine hart \<times> cov_bitmap \<Rightarrow>
     ((stop \<times> u64 \<times> (u32 \<times> string) option) \<times> 'r machine hart \<times> cov_bitmap) option" where
  "inject_and_run B reset ca p st =
     (let h0 = reset (fst st); h1 = injected B ca p h0; start = insns_retired (fst h0) in
      case run_case_bus B (start + ca_case_insns ca) h1 (bitmap_clear (snd st)) of
        None \<Rightarrow> None
      | Some (stop, h2, cov) \<Rightarrow>
          (let out = drop (ca_base_uart ca) (ua_out (m_uart (snd h2)));
               crash = map_option (\<lambda>sg. (sg, from_utf8_lossy out)) (kernel_crash_sig out)
           in Some ((stop, insns_retired (fst h2) - start, crash), h2, cov)))"

section \<open>Minimisation\<close>

definition remap_of :: "nat list \<Rightarrow> nat \<Rightarrow> u16 option" where
  "remap_of keep = map_of (rev (zip keep (map of_nat [0 ..< length keep])))"

definition subset_arg :: "(nat \<Rightarrow> u16 option) \<Rightarrow> arg_value \<Rightarrow> arg_value" where
  "subset_arg remap av =
     (case av of
        VRes (Produced call_idx slot) \<Rightarrow>
          (case remap (unat call_idx) of
             Some new_idx \<Rightarrow> VRes (Produced new_idx slot)
           | None \<Rightarrow> VRes (Seed (- 100)))
      | _ \<Rightarrow> av)"

definition subset_prog :: "prog \<Rightarrow> nat list \<Rightarrow> prog" where
  "subset_prog p keep =
     map (\<lambda>old_i. (p ! old_i)\<lparr>tc_args := map (subset_arg (remap_of keep)) (tc_args (p ! old_i))\<rparr>) keep"

definition drop_position :: "nat \<Rightarrow> 'a list \<Rightarrow> 'a list" where
  "drop_position pos xs = take pos xs @ drop (Suc pos) xs"

text \<open>
  The two minimisers share their loop.  \<open>rep\<close> runs a candidate and says whether it reproduces, with what
  the loop keeps of that run (the console text, or nothing).
\<close>

fun try_remove ::
  "(prog \<Rightarrow> 's \<Rightarrow> ('o option \<times> 's) option) \<Rightarrow> prog \<Rightarrow> nat list \<Rightarrow> nat list \<Rightarrow> 's \<Rightarrow> ((nat list \<times> 'o) option \<times> 's) option" where
  "try_remove rep p keep [] st = Some (None, st)"
| "try_remove rep p keep (pos # ps) st =
     (let cand = drop_position pos keep in
      case rep (subset_prog p cand) st of
        None \<Rightarrow> None
      | Some (Some out, st1) \<Rightarrow> Some (Some (cand, out), st1)
      | Some (None, st1) \<Rightarrow> try_remove rep p keep ps st1)"

partial_function (option) minimize_loop ::
  "(prog \<Rightarrow> 's \<Rightarrow> ('o option \<times> 's) option) \<Rightarrow> prog \<Rightarrow> nat list \<Rightarrow> 'o option \<Rightarrow> 's \<Rightarrow> (nat list \<times> 'o option \<times> 's) option" where
  "minimize_loop rep p keep console st =
     (if length keep > 1 then
        (case try_remove rep p keep [0 ..< length keep] st of
           None \<Rightarrow> None
         | Some (None, st1) \<Rightarrow> Some (keep, console, st1)
         | Some (Some (cand, out), st1) \<Rightarrow> minimize_loop rep p cand (Some out) st1)
      else Some (keep, console, st))"

definition crash_run ::
  "'r machine bus \<Rightarrow> ('r machine hart \<Rightarrow> 'r machine hart) \<Rightarrow> case_args \<Rightarrow> u32 \<Rightarrow> prog \<Rightarrow> 'r machine hart \<times> cov_bitmap \<Rightarrow>
     (string option \<times> 'r machine hart \<times> cov_bitmap) option" where
  "crash_run B reset ca target_sig p st =
     (case inject_and_run B reset ca p st of
        None \<Rightarrow> None
      | Some ((stop, used, crash), st1) \<Rightarrow>
          Some ((case crash of Some (sg, out) \<Rightarrow> if sg = target_sig then Some out else None | None \<Rightarrow> None), st1))"

definition minimize_program ::
  "'r machine bus \<Rightarrow> ('r machine hart \<Rightarrow> 'r machine hart) \<Rightarrow> case_args \<Rightarrow> u32 \<Rightarrow> prog \<Rightarrow> 'r machine hart \<Rightarrow>
     ((prog \<times> string option) \<times> 'r machine hart) option" where
  "minimize_program B reset ca target_sig p h =
     map_option (\<lambda>(keep, console, st). ((subset_prog p keep, console), fst st))
       (minimize_loop (crash_run B reset ca target_sig) p [0 ..< length p] None (h, bitmap_new))"

definition kmsan_run ::
  "'r machine bus \<Rightarrow> ('r machine hart \<Rightarrow> 'r machine hart) \<Rightarrow> case_args \<Rightarrow> u32 \<Rightarrow> prog \<Rightarrow> 'r machine hart \<times> cov_bitmap \<Rightarrow>
     (unit option \<times> 'r machine hart \<times> cov_bitmap) option" where
  "kmsan_run B reset ca target_pc p st =
     (let h1 = injected B ca p (reset (fst st)) in
      case run_case_bus B (insns_retired (fst h1) + ca_case_insns ca) h1 (bitmap_clear (snd st)) of
        None \<Rightarrow> None
      | Some (stop, (c, m), cov) \<Rightarrow>
          Some ((case kmsan_hit c of Some report \<Rightarrow> if kr_pc report = target_pc then Some () else None | None \<Rightarrow> None),
                (c\<lparr>kmsan_hit := None\<rparr>, m), cov))"

definition minimize_program_kmsan ::
  "'r machine bus \<Rightarrow> ('r machine hart \<Rightarrow> 'r machine hart) \<Rightarrow> case_args \<Rightarrow> u32 \<Rightarrow> prog \<Rightarrow> 'r machine hart \<Rightarrow> (prog \<times> 'r machine hart) option" where
  "minimize_program_kmsan B reset ca target_pc p h =
     map_option (\<lambda>(keep, console, st). (subset_prog p keep, fst st))
       (minimize_loop (kmsan_run B reset ca target_pc) p [0 ..< length p] None (h, bitmap_new))"

section \<open>Seeds\<close>

fun replay_from ::
  "'r machine bus \<Rightarrow> ('r machine hart \<Rightarrow> 'r machine hart) \<Rightarrow> case_args \<Rightarrow> prog list \<Rightarrow> virgin_map \<times> prog list \<Rightarrow>
     'r machine hart \<times> cov_bitmap \<Rightarrow> ((virgin_map \<times> prog list) \<times> 'r machine hart) option" where
  "replay_from B reset ca [] acc st = Some (acc, fst st)"
| "replay_from B reset ca (p # ps) (virgin, corpus) st =
     (case inject_and_run B reset ca p st of
        None \<Rightarrow> None
      | Some (res, h, cov) \<Rightarrow>
          (case has_new_bits virgin cov of (found, virgin') \<Rightarrow>
             replay_from B reset ca ps (virgin', if found then corpus @ [p] else corpus) (h, cov)))"

definition replay_seeds ::
  "'r machine bus \<Rightarrow> ('r machine hart \<Rightarrow> 'r machine hart) \<Rightarrow> case_args \<Rightarrow> prog list \<Rightarrow> 'r machine hart \<Rightarrow>
     ((virgin_map \<times> prog list) \<times> 'r machine hart) option" where
  "replay_seeds B reset ca seed_progs h = replay_from B reset ca seed_progs (virgin_new, []) (h, bitmap_new)"

definition reset_cow :: "cpu \<Rightarrow> clint \<Rightarrow> nat \<Rightarrow> cow_machine hart \<Rightarrow> cow_machine hart" where
  "reset_cow golden_cpu golden_clint base_uart h =
     (golden_cpu, (snd h)\<lparr>m_ram := cow_reset (m_ram (snd h)), m_clint := golden_clint,
        m_uart := (m_uart (snd h))\<lparr>ua_out := take base_uart (ua_out (m_uart (snd h)))\<rparr>\<rparr>)"

end
