(* ===== verification/Campaign_Results.thy ===== *)
theory Campaign_Results
  imports Campaign Lower_Results
begin

text \<open>
  What crash minimisation promises: dropping calls keeps a program usable, and the minimiser ends with
  a program that crashes alike and from which no further call can be dropped.
\<close>

section \<open>Dropping calls\<close>













section \<open>The minimisation loop\<close>


section \<open>Cases on the flat machine\<close>





















end
