(* ===== verification/Spec2Isabelle.thy ===== *)
theory Spec2Isabelle
  imports Memory_Results Core_Results Platform_Results Loader San_Results Hooks Cov Prog_Results Vec_Results Sys_Results Corpus_Results Campaign_Results
begin

text \<open>
  A verification development for a snapshot fuzzer built around a RISC-V (rv32imac, M/S/U, sv32)
  emulator, a workspace of Rust crates under \<open>src/crates\<close>.

  \<^bold>\<open>The program.\<close>  A hart (\<open>fs-riscv\<close>: decoder, CSR file, TLB and page walk, execute, traps) runs
  against a \<open>Bus\<close>.  Behind the bus is either the flat soft-MMU \<open>Mmu\<close> with a permission byte per
  memory byte, or the copy-on-write \<open>CowRam\<close> over a shared golden image (both \<open>fs-mmu\<close>); the
  machines of \<open>fs-platform\<close> add a CLINT and a UART, snapshots, the driver loop and the scheduler for
  several harts.  Around them: the ELF loader (\<open>fs-loader\<close>), coverage feedback (\<open>fs-cov\<close>) and the
  allocation sanitizers with their hypercall and program-counter-hook front ends (\<open>fs-san\<close>).  The
  inputs are system-call programs (\<open>fs-prog\<close>): generated from a table of descriptions, mutated, and
  lowered to the words and the scratch image a guest agent executes.  \<open>fs-vec\<close> runs sixteen guests in
  lockstep, user-mode programs on vectors and full systems with one fetch for all converged lanes.  The
  campaign driver (\<open>fs-cli\<close>) injects a program into a machine reset to its snapshot, runs it, classifies the
  console output as a crash or not, minimises crashing programs and keeps the corpus in text files.

  \<^bold>\<open>Theories and sources.\<close>
  \<^item> \<open>Prelude\<close>: integer types, \<open>Result\<close> combinators, slices, little-endian codecs, word lemmas.
  \<^item> \<open>Bus\<close>, \<open>Mmu\<close>, \<open>CowRam\<close> model \<open>fs-mmu/src/lib.rs\<close>: permissions, faults, the \<open>Bus\<close> trait (a record
    of operations), \<open>Mmu\<close>, \<open>Golden\<close>, \<open>CowRam\<close>, \<open>SharedDirty\<close>, every operation.  \<open>Bus\<close> also holds the
    abstract memory: a \<open>view\<close> maps an address to byte and permission, and \<open>spec_read\<close>/\<open>spec_write\<close>
    are the byte-at-a-time meaning of an access.
  \<^item> \<open>Decode\<close> models \<open>decode\<close>, \<open>decode_compressed\<close> and the encoders of \<open>fs-riscv/src/asm.rs\<close>;
    \<open>Csr\<close> models \<open>sys.rs\<close>; \<open>Cpu\<close> the rest of \<open>fs-riscv/src/lib.rs\<close>: one definition per arm of
    \<open>exec_one\<close>, \<open>xlate\<close>, \<open>fast_pa\<close>, \<open>xlate_golden_readonly\<close>, \<open>take_trap\<close>, \<open>step\<close>, \<open>step_system\<close>, over an
    arbitrary bus.
  \<^item> \<open>Platform\<close> models \<open>fs-platform/src/lib.rs\<close>.
  \<^item> \<open>Loader\<close> models \<open>fs-loader\<close>, \<open>Cov\<close> models \<open>fs-cov\<close>, \<open>Sanitizer\<close> models \<open>alloc.rs\<close>, \<open>pages.rs\<close> and
    \<open>hypercall.rs\<close> of \<open>fs-san\<close>, \<open>Hooks\<close> models \<open>hooks.rs\<close> and \<open>linux.rs\<close>.
  \<^item> \<open>Prog\<close> models \<open>rng.rs\<close>, \<open>types.rs\<close>, \<open>resource.rs\<close>, \<open>dict.rs\<close> and \<open>prog.rs\<close> of \<open>fs-prog\<close>; \<open>Syscalls\<close> the
    table of \<open>syscalls.rs\<close>; \<open>Lower\<close> models \<open>lower.rs\<close>, \<open>Genr\<close> \<open>genr.rs\<close>, \<open>Mutate\<close> \<open>mutate.rs\<close>, \<open>Batch\<close>
    \<open>batch.rs\<close> and \<open>cmplog.rs\<close>.
  \<^item> \<open>VecMmu\<close> models \<open>fs-vec/src/vec_mmu.rs\<close> and \<open>VecCpu\<close> the executor of \<open>fs-vec/src/lib.rs\<close>;
    \<open>VecSystem\<close> models \<open>fs-vec/src/system.rs\<close>.
  \<^item> \<open>Corpus\<close> models the text form of programs in \<open>fs-cli/src/main.rs\<close> (\<open>enc_arg\<close>, \<open>dec_arg\<close>, \<open>serialize_prog\<close>,
    \<open>deserialize_prog\<close>), \<open>Campaign\<close> the execution of a case (\<open>inject_and_run\<close>, \<open>run_case_bus\<close>), crash
    signatures (\<open>kernel_crash_sig\<close>), minimisation, seed replay and \<open>reset_cow\<close>.

  \<^bold>\<open>How the code is represented.\<close>  Structs are records, enums datatypes, \<open>u8\<close> to \<open>u64\<close> words of that
  width (wrapping where the code wraps), \<open>usize\<close> natural numbers, vectors lists, \<open>HashMap\<close>s partial
  maps.  A method on \<open>&mut self\<close> returns the updated state next to its result, also when it fails:
  \<open>(error + value) \<times> state\<close>, sequenced by \<open>bindR\<close>, so partial effects of failing operations are part
  of the model.  A \<open>hart\<close> is a pair of CPU and bus state.  The atomics of \<open>SharedDirty\<close> are plain
  updates; the raw pointer of \<open>fast_ptr\<close> is an offset into RAM.  Code that draws random numbers is in
  the state monad over the 32-bit generator state; a property of all its outcomes is \<open>pred_state\<close>.

  \<^bold>\<open>Interfaces.\<close>  Locales carry the contracts between components.  \<open>soft_mmu\<close> and \<open>byte_bus\<close>
  (in \<open>Bus\<close>) say that checked accesses and bus operations are functions of the view; both memories
  are interpretations.  \<open>bus_sim\<close> and \<open>byte_bus_pair\<close> (in \<open>Simulation\<close>) lift a relation between two
  bus states through every instruction to whole runs; interpreted for equality (so that only the
  hart differs), for flat against copy-on-write memory, and for the two machines (\<open>Machines\<close>).
  \<open>bus_inv\<close> (in \<open>Invariance\<close>) does the same for an invariant of the bus state; interpreted for the
  snapshot invariant \<open>captured\<close> and for a lane's memory over the golden image (\<open>Sys_Batch\<close>).  \<open>bus_sim\<close> also
  ties the recording of the scheduler to a history of all store requests (\<open>Smp\<close>).  \<open>tracking\<close> (in
  \<open>Sanitizer\<close>) is the bookkeeping contract of the two sanitizers.  \<open>reproducer\<close> (in \<open>Campaign_Results\<close>) is what
  the minimiser needs of the runs of its candidates; interpreted for crash runs on the flat machine.  \<open>prog_operator\<close> (in \<open>Prog_Invariant\<close>) is what the campaign expects of a mutation
  operator; interpreted for \<open>mutate\<close> and \<open>mutate_data\<close>.

  \<^bold>\<open>Loops.\<close>  Loops over slices are structural recursion.  The driver loops \<open>run_until\<close>, \<open>run_loop\<close>,
  \<open>run_batch\<close> and \<open>run_case_bus\<close> may not end and are \<open>partial_function (option)\<close>: \<open>None\<close> is a run that never returns, and one
  property exhibits such a run.  The scheduler's outer loop is also a partial function, and is
  proved to return for every argument; its turns terminate by the global tick.  The minimiser returns whenever the runs of its candidates
  do.  \<open>dec_arg_upto\<close> bounds the depth of \<open>dec_arg\<close> by the number of tokens, and every larger bound gives
  the same result.

  \<^bold>\<open>What is proved.\<close>
  \<^item> \<open>Memory_Results\<close>: the read, write and fault oracles of the soft-MMU, equality of the fast paths
    with the byte loops, exactness of the dirty-block reset, \<open>CowRam\<close> as a refinement of \<open>Mmu\<close>.
  \<^item> \<open>Core\<close> and \<open>Core_Results\<close>: decoding inverts encoding and yields legal instructions only; the hart
    invariant is kept by every step; traps are precise; CSR writes are read back and disturb
    nothing else; multiplication and division are exact; the three translation paths agree; trap
    entry and return are inverse; logging is observational; the taint rules are sound except
    those of the comparisons; flat and copy-on-write memory run alike.
  \<^item> \<open>Machines\<close>, \<open>Smp\<close> and \<open>Platform_Results\<close>: a snapshot reset undoes a run; a forked lane runs as its
    machine with the devices reset; the scheduler returns and its two variants agree; reservations are broken exactly
    by the covering stores of a turn (which misses sub-word stores); the trap storm that keeps \<open>run_until\<close> from
    returning; timer-compare round trips.
  \<^item> \<open>Loader\<close>: the parser inverts both image builders; memory after loading.
  \<^item> \<open>Cov\<close>: the hashed map refines exact coverage; the novelty signal.
  \<^item> \<open>San_Results\<close> and \<open>Hooks\<close>: bookkeeping invariants, use-after-free, redzone, uninitialised-read and
    slack oracles; pairing of nested allocator calls with their arguments.
  \<^item> \<open>Prog_Invariant\<close>, \<open>Mutate\<close>, \<open>Batch\<close> and \<open>Lower_Results\<close> hold the invariants of programs under generation
    and mutation, the skeleton kept by data mutation, and the layout and wire format of lowering;
    \<open>Prog_Results\<close> states the properties.
  \<^item> \<open>Vec_Lanes\<close>, \<open>Vec_Engine\<close> and \<open>Vec_Scalar\<close> relate the lane-parallel executor to one lane and one lane
    to the scalar core; \<open>Vec_Results\<close> states that a vector step is the step of every lane and that a
    lane runs as the scalar core as long as it runs.
  \<^item> \<open>Sys_Lanes\<close>, \<open>Sys_Translation\<close>, \<open>Sys_Step\<close> and \<open>Sys_Batch\<close> do the same for the full-system batch;
    \<open>Sys_Results\<close> states that a step of the batch is an iteration of the scalar driver loop in every
    lane, up to TLB contents, and that a reset leaves a fresh batch.  The first has as hypotheses what
    the fast path does not check: taint and comparison logs off, equal translation modes, and TLBs
    without stale entries for the pages the shared walk resolves.
  \<^item> \<open>Corpus_Results\<close>: a program read back from its text is the program.  \<open>Campaign_Results\<close>: dropping calls
    keeps a program usable; the minimiser keeps the crash and ends locally minimal.

  \<^bold>\<open>Not modelled.\<close>  The code generator \<open>fs-jit\<close> emits host machine code through a crate outside the repository.  \<open>fs-hostmem\<close> maps
  host pages through the operating system; \<open>fs-covmap\<close>, \<open>fs-diff\<close> and the rest of \<open>fs-cli\<close> (argument
  parsing, files, threads, the printed reports, the C reproducer) are drivers around files, threads and external
  simulators.  Of \<open>linux.rs\<close> the text parsing of \<open>parse_system_map\<close> is
  left out, and so are all \<open>Display\<close> texts.
\<close>

end
